(* ===== verification/Prelude.thy ===== *)
theory Prelude
  imports Main
begin

text \<open>
  Shared vocabulary of the development: Rust results, the checked, saturating and wrapping
  arithmetic of the unsigned machine integers, and the iterator operations of the standard
  library (\<open>find\<close>, \<open>position\<close>, \<open>iter_mut().find()\<close>, \<open>min_by\<close>, \<open>max_by\<close>, \<open>BTreeMap\<close>) that the
  components use.

  Unsigned integers are natural numbers. An operation of the source that can leave the range of
  its type is one of the operations below, with the bound written out; plain \<open>+\<close> and \<open>*\<close> are used
  only where the component's theory proves that the value stays in range.
\<close>

named_theorems machine_arith \<open>definitions of the bounded machine operations\<close>

subsection \<open>Results\<close>

datatype ('a, 'e) result = Ok 'a | Err 'e

fun is_ok :: "('a, 'e) result \<Rightarrow> bool" where
  "is_ok (Ok _) = True"
| "is_ok (Err _) = False"

fun is_err :: "('a, 'e) result \<Rightarrow> bool" where
  "is_err (Ok _) = False"
| "is_err (Err _) = True"

fun ok_or :: "'a option \<Rightarrow> 'e \<Rightarrow> ('a, 'e) result" where
  "ok_or None e = Err e"
| "ok_or (Some a) e = Ok a"

fun unwrap_or :: "'a option \<Rightarrow> 'a \<Rightarrow> 'a" where
  "unwrap_or None d = d"
| "unwrap_or (Some a) d = a"

fun result_bind :: "('a, 'e) result \<Rightarrow> ('a \<Rightarrow> ('b, 'e) result) \<Rightarrow> ('b, 'e) result" where
  "result_bind (Ok a) f = f a"
| "result_bind (Err e) f = Err e"

text \<open>The operator \<open>?\<close> is a case distinction that passes errors on.\<close>

lemma case_result_Ok_iff:
  "(case r of Ok x \<Rightarrow> f x | Err e \<Rightarrow> Err e) = Ok y \<longleftrightarrow> (\<exists>x. r = Ok x \<and> f x = Ok y)"
  by (cases r) auto

lemma if_Err_Ok_iff: "(if b then Err e else r) = Ok y \<longleftrightarrow> \<not> b \<and> r = Ok y"
  by simp

lemmas result_Ok_iff = case_result_Ok_iff if_Err_Ok_iff

subsection \<open>Machine integers\<close>

definition u8_max :: nat where "u8_max = 255"
definition u16_max :: nat where "u16_max = 65535"
definition u32_max :: nat where "u32_max = 4294967295"
definition u64_max :: nat where "u64_max = 18446744073709551615"

definition checked_add :: "nat \<Rightarrow> nat \<Rightarrow> nat \<Rightarrow> nat option" where
  "checked_add hi a b = (if a + b \<le> hi then Some (a + b) else None)"

definition checked_mul :: "nat \<Rightarrow> nat \<Rightarrow> nat \<Rightarrow> nat option" where
  "checked_mul hi a b = (if a * b \<le> hi then Some (a * b) else None)"

definition saturating_add :: "nat \<Rightarrow> nat \<Rightarrow> nat \<Rightarrow> nat" where
  "saturating_add hi a b = min (a + b) hi"

definition saturating_mul :: "nat \<Rightarrow> nat \<Rightarrow> nat \<Rightarrow> nat" where
  "saturating_mul hi a b = min (a * b) hi"

text \<open>Subtraction of natural numbers stops at zero, which is what \<open>saturating_sub\<close> does.\<close>

definition saturating_sub :: "nat \<Rightarrow> nat \<Rightarrow> nat" where
  "saturating_sub a b = a - b"

definition wrapping_add :: "nat \<Rightarrow> nat \<Rightarrow> nat \<Rightarrow> nat" where
  "wrapping_add hi a b = (a + b) mod (hi + 1)"

definition div_ceil :: "nat \<Rightarrow> nat \<Rightarrow> nat" where
  "div_ceil a b = (if a mod b = 0 then a div b else a div b + 1)"

definition is_multiple_of :: "nat \<Rightarrow> nat \<Rightarrow> bool" where
  "is_multiple_of a b = (if b = 0 then a = 0 else a mod b = 0)"

lemmas [machine_arith] = checked_add_def checked_mul_def saturating_add_def saturating_mul_def
  saturating_sub_def wrapping_add_def

lemma checked_add_Some_iff: "checked_add hi a b = Some c \<longleftrightarrow> c = a + b \<and> a + b \<le> hi"
  by (auto simp: checked_add_def)

lemma checked_add_None_iff: "checked_add hi a b = None \<longleftrightarrow> hi < a + b"
  by (auto simp: checked_add_def)

lemma saturating_add_le: "saturating_add hi a b \<le> hi"
  by (simp add: saturating_add_def)

lemma is_multiple_of_dvd: "is_multiple_of a b \<longleftrightarrow> b dvd a"
  by (auto simp: is_multiple_of_def mod_eq_0_iff_dvd)

text \<open>Operations that panic: division and remainder by zero, and an index out of bounds.\<close>

definition checked_div_ceil :: "nat \<Rightarrow> nat \<Rightarrow> nat option" where
  "checked_div_ceil a b = (if b = 0 then None else Some (div_ceil a b))"

definition checked_rem :: "nat \<Rightarrow> nat \<Rightarrow> nat option" where
  "checked_rem a b = (if b = 0 then None else Some (a mod b))"

definition nth_opt :: "'a list \<Rightarrow> nat \<Rightarrow> 'a option" where
  "nth_opt xs i = (if i < length xs then Some (xs ! i) else None)"

lemma div_ceil_upper: "0 < b \<Longrightarrow> a \<le> div_ceil a b * b"
proof -
  assume "0 < b"
  then have "a mod b < b" by simp
  moreover have "a div b * b + a mod b = a" by (rule div_mult_mod_eq)
  ultimately show ?thesis unfolding div_ceil_def
    by (simp only: add_mult_distrib mult_1 split: if_split) linarith
qed

lemma div_ceil_lower: "0 < a \<Longrightarrow> 0 < b \<Longrightarrow> (div_ceil a b - 1) * b < a"
proof (cases "a mod b = 0")
  case True
  assume "0 < a" "0 < b"
  with True have "0 < a div b" and "a div b * b = a"
    using div_mult_mod_eq [of a b] by (auto intro: Nat.gr0I)
  then have "(a div b - 1) * b + b = a"
    by (cases "a div b") auto
  with True \<open>0 < b\<close> show ?thesis by (simp add: div_ceil_def)
next
  case False
  assume "0 < b"
  then have "a div b * b + a mod b = a" by simp
  with False have "a div b * b < a" by linarith
  with False show ?thesis by (simp add: div_ceil_def)
qed

lemma div_ceil_bound: "0 < b \<Longrightarrow> div_ceil a b * b \<le> a + b"
proof -
  have "a div b * b \<le> a" by (rule div_times_less_eq_dividend)
  then have "a div b * b \<le> a + b" "(a div b + 1) * b \<le> a + b" by (simp_all add: trans_le_add1)
  then show ?thesis unfolding div_ceil_def by (simp only: split: if_split) blast
qed

lemma div_ceil_le_iff: "0 < b \<Longrightarrow> div_ceil a b \<le> n \<longleftrightarrow> a \<le> n * b"
proof
  assume "0 < b" and "div_ceil a b \<le> n"
  then show "a \<le> n * b"
    using div_ceil_upper [of b a] mult_le_mono1 [of "div_ceil a b" n b] by linarith
next
  assume b: "0 < b" and le: "a \<le> n * b"
  show "div_ceil a b \<le> n"
  proof (cases "a = 0")
    case True
    then show ?thesis by (simp add: div_ceil_def)
  next
    case False
    with b have "(div_ceil a b - 1) * b < n * b"
      using div_ceil_lower [of a b] le by linarith
    then have "div_ceil a b - 1 < n" using b by simp
    then show ?thesis by linarith
  qed
qed

subsection \<open>Monotonic time\<close>

text \<open>
  An \<open>Instant\<close> is the number of nanoseconds since the epoch of the monotonic clock, a \<open>Duration\<close> a
  number of nanoseconds. The clock counts seconds in an \<open>i64\<close>, so adding a duration can leave the
  range: \<open>checked_add\<close> then returns \<open>None\<close>, and \<open>+\<close> panics. \<open>duration_since\<close> stops at zero.
\<close>

type_synonym instant = nat
type_synonym duration = nat

definition instant_max :: nat where
  "instant_max = 9223372036854775807 * 1000000000 + 999999999"

definition instant_add :: "instant \<Rightarrow> duration \<Rightarrow> instant option" where
  "instant_add t d = checked_add instant_max t d"

definition duration_since :: "instant \<Rightarrow> instant \<Rightarrow> duration" where
  "duration_since t t' = t - t'"

definition from_secs :: "nat \<Rightarrow> duration" where
  "from_secs s = s * 1000000000"

lemma instant_add_Some_iff: "instant_add t d = Some u \<longleftrightarrow> u = t + d \<and> t + d \<le> instant_max"
  by (simp add: instant_add_def checked_add_Some_iff)

subsection \<open>Iterator operations\<close>

text \<open>\<open>iter_mut().find(P)\<close> followed by a write through the returned reference.\<close>

fun update_first :: "('a \<Rightarrow> bool) \<Rightarrow> ('a \<Rightarrow> 'a) \<Rightarrow> 'a list \<Rightarrow> 'a list" where
  "update_first P f [] = []"
| "update_first P f (x # xs) = (if P x then f x # xs else x # update_first P f xs)"

text \<open>\<open>iter().position(P)\<close>.\<close>

fun position :: "('a \<Rightarrow> bool) \<Rightarrow> 'a list \<Rightarrow> nat option" where
  "position P [] = None"
| "position P (x # xs) = (if P x then Some 0 else map_option Suc (position P xs))"

text \<open>\<open>filter_map\<close>.\<close>

fun filter_map :: "('a \<Rightarrow> 'b option) \<Rightarrow> 'a list \<Rightarrow> 'b list" where
  "filter_map f [] = []"
| "filter_map f (x # xs) = (case f x of None \<Rightarrow> filter_map f xs | Some y \<Rightarrow> y # filter_map f xs)"

text \<open>\<open>try_fold\<close> into an option: the first \<open>None\<close> ends the fold.\<close>

fun try_fold :: "('b \<Rightarrow> 'a \<Rightarrow> 'b option) \<Rightarrow> 'b \<Rightarrow> 'a list \<Rightarrow> 'b option" where
  "try_fold f acc [] = Some acc"
| "try_fold f acc (x # xs) = (case f acc x of None \<Rightarrow> None | Some acc' \<Rightarrow> try_fold f acc' xs)"

lemma position_Some:
  "position P xs = Some i \<Longrightarrow> i < length xs \<and> P (xs ! i) \<and> (\<forall>j < i. \<not> P (xs ! j))"
proof (induction xs arbitrary: i)
  case (Cons x xs)
  then show ?case by (cases i) (auto simp: nth_Cons split: if_splits nat.splits)
qed simp

lemma position_eqI:
  "i < length xs \<Longrightarrow> P (xs ! i) \<Longrightarrow> \<forall>j < i. \<not> P (xs ! j) \<Longrightarrow> position P xs = Some i"
proof (induction xs arbitrary: i)
  case (Cons x xs)
  then show ?case
  proof (cases i)
    case (Suc k)
    have "position P xs = Some k" using Cons.prems Suc by (intro Cons.IH) auto
    moreover have "\<not> P x" using Cons.prems(3) Suc by auto
    ultimately show ?thesis using Suc by simp
  qed simp
qed simp

lemma length_filter_update:
  "i < length xs \<Longrightarrow> length (filter P (xs[i := y])) + (if P (xs ! i) then 1 else 0) =
     length (filter P xs) + (if P y then 1 else 0)"
proof (induction xs arbitrary: i)
  case (Cons x xs)
  then show ?case by (cases i) (auto split: if_splits)
qed simp

lemma length_update_first [simp]: "length (update_first P f xs) = length xs"
  by (induction xs) auto

lemma map_update_first:
  "(\<And>x. g (f x) = g x) \<Longrightarrow> map g (update_first P f xs) = map g xs"
  by (induction xs) auto

lemma find_key_update_first:
  assumes "\<And>x. k (f x) = k x"
  shows "find (\<lambda>x. k x = i) (update_first (\<lambda>x. k x = j) f xs) =
    (if i = j then map_option f (find (\<lambda>x. k x = i) xs) else find (\<lambda>x. k x = i) xs)"
  using assms by (induction xs) auto

lemma find_Some_mem: "find P xs = Some x \<Longrightarrow> x \<in> set xs \<and> P x"
  by (induction xs) (auto split: if_splits)

lemma find_distinct_key:
  "distinct (map k xs) \<Longrightarrow> x \<in> set xs \<Longrightarrow> find (\<lambda>y. k y = k x) xs = Some x"
  by (induction xs) auto

lemma update_first_as_map:
  "distinct (map k xs) \<Longrightarrow>
   update_first (\<lambda>x. k x = i) f xs = map (\<lambda>x. if k x = i then f x else x) xs"
proof (induction xs)
  case (Cons x xs)
  have "map (\<lambda>y. if k y = i then f y else y) xs = xs" if "k x = i"
    using Cons.prems that by (intro map_idI) (auto simp: image_iff)
  with Cons show ?case by auto
qed simp

lemma update_first_absent: "find P xs = None \<Longrightarrow> update_first P f xs = xs"
  by (induction xs) (auto split: if_splits)

lemma sum_list_update_first:
  fixes g :: "'a \<Rightarrow> nat"
  assumes "find P xs = Some x"
  shows "sum_list (map g (update_first P f xs)) + g x = sum_list (map g xs) + g (f x)"
  using assms by (induction xs) (auto split: if_splits)

lemma set_filter_map: "set (filter_map f xs) = {y. \<exists>x \<in> set xs. f x = Some y}"
  by (induction xs) (auto split: option.splits)

lemma length_filter_map_le: "length (filter_map f xs) \<le> length xs"
  by (induction xs) (auto split: option.splits)

subsection \<open>Ordered maps\<close>

text \<open>
  A \<open>BTreeMap\<close> is the list of its entries in ascending key order, so that iterating over the map
  is iterating over the list; \<open>map_of\<close> looks a key up.
\<close>

fun bt_insert :: "'k::linorder \<Rightarrow> 'v \<Rightarrow> ('k \<times> 'v) list \<Rightarrow> ('k \<times> 'v) list" where
  "bt_insert k v [] = [(k, v)]"
| "bt_insert k v ((k', v') # m) =
     (if k < k' then (k, v) # (k', v') # m
      else if k = k' then (k, v) # m
      else (k', v') # bt_insert k v m)"

text \<open>\<open>get_mut\<close>: the entry of a present key is changed in place.\<close>

definition bt_adjust :: "'k \<Rightarrow> ('v \<Rightarrow> 'v) \<Rightarrow> ('k \<times> 'v) list \<Rightarrow> ('k \<times> 'v) list" where
  "bt_adjust k f m = map (\<lambda>(k', v). (k', if k' = k then f v else v)) m"

abbreviation bt_keys :: "('k \<times> 'v) list \<Rightarrow> 'k list" where
  "bt_keys m \<equiv> map fst m"

abbreviation bt_wf :: "('k::linorder \<times> 'v) list \<Rightarrow> bool" where
  "bt_wf m \<equiv> sorted_wrt (<) (bt_keys m)"

lemma set_bt_insert_keys: "set (bt_keys (bt_insert k v m)) = insert k (set (bt_keys m))"
  by (induction k v m rule: bt_insert.induct) auto

lemma bt_wf_insert: "bt_wf m \<Longrightarrow> bt_wf (bt_insert k v m)"
proof (induction k v m rule: bt_insert.induct)
  case (2 k v k' v' m)
  then show ?case using set_bt_insert_keys [of k v m] by (auto simp: image_iff)
qed auto

lemma map_of_bt_insert: "bt_wf m \<Longrightarrow> map_of (bt_insert k v m) = (map_of m)(k \<mapsto> v)"
proof (induction k v m rule: bt_insert.induct)
  case (2 k v k' v' m)
  then show ?case by (auto simp: fun_eq_iff)
qed auto

lemma bt_keys_adjust [simp]: "bt_keys (bt_adjust k f m) = bt_keys m"
  by (induction m) (auto simp: bt_adjust_def)

lemma map_of_bt_adjust:
  "map_of (bt_adjust k f m) k' = (if k' = k then map_option f (map_of m k') else map_of m k')"
  by (induction m) (auto simp: bt_adjust_def)

lemma bt_wf_distinct: "bt_wf m \<Longrightarrow> distinct (bt_keys m)"
  by (simp add: strict_sorted_iff)

subsection \<open>Association lists searched front to back\<close>

lemma find_key_map_of: "find (\<lambda>(k, _). k = x) xs = map_option (Pair x) (map_of xs x)"
  by (induction xs) auto

lemma map_of_update_first:
  assumes "map_of xs x \<noteq> None"
  shows "map_of (update_first (\<lambda>(k, _). k = x) (\<lambda>(k, _). (k, v)) xs) = (map_of xs)(x \<mapsto> v)"
  using assms by (induction xs) (auto simp: fun_eq_iff)

lemma keys_update_first:
  "map fst (update_first (\<lambda>(k, _). k = x) (\<lambda>(k, _). (k, v)) xs) = map fst xs"
  by (induction xs) auto

subsection \<open>Runs of a machine\<close>

text \<open>
  A component with one function that executes an operation, an invariant, and the operations whose
  arguments are of their types. What one operation keeps, every run keeps.
\<close>

locale op_machine =
  fixes exec :: "'s \<Rightarrow> 'o \<Rightarrow> 's"
    and ok :: "'o \<Rightarrow> bool"
    and inv :: "'s \<Rightarrow> bool"
  assumes inv_exec: "inv s \<Longrightarrow> ok op \<Longrightarrow> inv (exec s op)"
begin

lemma inv_run: "inv s \<Longrightarrow> list_all ok ops \<Longrightarrow> inv (foldl exec s ops)"
  by (induction ops arbitrary: s) (auto intro: inv_exec)

lemma run_keeps:
  assumes "\<And>s op. inv s \<Longrightarrow> ok op \<Longrightarrow> P s \<Longrightarrow> P (exec s op)"
  shows "inv s \<Longrightarrow> list_all ok ops \<Longrightarrow> P s \<Longrightarrow> P (foldl exec s ops)"
  by (induction ops arbitrary: s) (auto intro: inv_exec assms)

end

end
