(* ===== verification/Rust_Text.thy ===== *)
theory Rust_Text
  imports Prelude
begin

text \<open>
  The string operations of the standard library that the components use, on UTF-8 strings as
  lists of bytes: printing an unsigned integer, parsing one, trimming white space and stripping a
  prefix. Printing and parsing are shown to be inverse.
\<close>

text \<open>Decimal digits, as \<open>{}\<close> prints an unsigned integer.\<close>

fun show_nat :: "nat \<Rightarrow> string" where
  "show_nat n =
     (if n < 10 then [char_of (48 + n)] else show_nat (n div 10) @ [char_of (48 + n mod 10)])"

declare show_nat.simps [simp del]

definition is_ascii_digit :: "char \<Rightarrow> bool" where
  "is_ascii_digit c \<longleftrightarrow> 48 \<le> (of_char c :: nat) \<and> (of_char c :: nat) \<le> 57"

text \<open>
  \<open>str::parse\<close> for an unsigned type with maximum \<open>hi\<close>: an optional plus sign and at least one
  digit; every step is a checked multiplication and a checked addition.
\<close>

fun parse_digits :: "nat \<Rightarrow> nat \<Rightarrow> string \<Rightarrow> nat option" where
  "parse_digits hi acc [] = Some acc"
| "parse_digits hi acc (c # cs) =
     (if is_ascii_digit c then
        (case checked_mul hi acc 10 of
           None \<Rightarrow> None
         | Some m \<Rightarrow>
             (case checked_add hi m (of_char c - 48) of
                None \<Rightarrow> None
              | Some acc' \<Rightarrow> parse_digits hi acc' cs))
      else None)"

definition parse_uint :: "nat \<Rightarrow> string \<Rightarrow> nat option" where
  "parse_uint hi s =
     (case s of
        [] \<Rightarrow> None
      | c # cs \<Rightarrow>
          if c = CHR ''+'' then (if cs = [] then None else parse_digits hi 0 cs)
          else parse_digits hi 0 s)"

definition strip_prefix :: "string \<Rightarrow> string \<Rightarrow> string option" where
  "strip_prefix p s = (if take (length p) s = p then Some (drop (length p) s) else None)"

text \<open>The UTF-8 encodings of the code points with the property White_Space.\<close>

definition whitespace_utf8 :: "string list" where
  "whitespace_utf8 = map (map char_of)
     ([[9], [10], [11], [12], [13], [32], [194, 133], [194, 160], [225, 154, 128]] @
      map (\<lambda>b. [226, 128, b]) [128..<139] @
      [[226, 128, 168], [226, 128, 169], [226, 128, 175], [226, 129, 159], [227, 128, 128 :: nat]])"

definition leading :: "string list \<Rightarrow> string \<Rightarrow> string option" where
  "leading ws s = find (\<lambda>w. w \<noteq> [] \<and> take (length w) s = w) ws"

function strip_leading :: "string list \<Rightarrow> string \<Rightarrow> string" where
  "strip_leading ws s =
     (case leading ws s of None \<Rightarrow> s | Some w \<Rightarrow> strip_leading ws (drop (length w) s))"
  by pat_completeness auto

lemma leading_Some: "leading ws s = Some w \<Longrightarrow> w \<noteq> [] \<and> take (length w) s = w"
  unfolding leading_def by (drule find_Some_mem) simp

termination strip_leading
proof (relation "measure (\<lambda>(ws, s). length s)")
  fix ws s and w :: string
  assume "leading ws s = Some w"
  from leading_Some [OF this] have "w \<noteq> []" and "s \<noteq> []" by auto
  then show "((ws, drop (length w) s), ws, s) \<in> measure (\<lambda>(ws, s). length s)" by simp
qed simp

declare strip_leading.simps [simp del]

definition trim_start :: "string \<Rightarrow> string" where
  "trim_start s = strip_leading whitespace_utf8 s"

definition trim_end :: "string \<Rightarrow> string" where
  "trim_end s = rev (strip_leading (map rev whitespace_utf8) (rev s))"

definition trim :: "string \<Rightarrow> string" where
  "trim s = trim_end (trim_start s)"

subsection \<open>Printing and parsing are inverse\<close>

lemma digit_char:
  assumes "d < 10"
  shows "(of_char (char_of (48 + d) :: char) :: nat) = 48 + d" "is_ascii_digit (char_of (48 + d))"
  using assms by (simp_all add: is_ascii_digit_def)

lemma show_nat_digits: "\<forall>c \<in> set (show_nat n). is_ascii_digit c"
proof (induction n rule: show_nat.induct)
  case (1 n)
  then show ?case by (subst show_nat.simps) (auto simp: digit_char)
qed

lemma show_nat_not_Nil [simp]: "show_nat n \<noteq> []"
  by (subst show_nat.simps) simp

lemma parse_digits_append:
  "parse_digits hi acc (s @ t) =
     (case parse_digits hi acc s of None \<Rightarrow> None | Some v \<Rightarrow> parse_digits hi v t)"
  by (induction hi acc s rule: parse_digits.induct) (auto split: option.splits)

lemma parse_show_digits: "n \<le> hi \<Longrightarrow> parse_digits hi 0 (show_nat n) = Some n"
proof (induction n rule: show_nat.induct)
  case (1 n)
  show ?case
  proof (cases "n < 10")
    case True
    with "1.prems" show ?thesis
      by (subst show_nat.simps) (simp add: digit_char checked_mul_def checked_add_def)
  next
    case False
    have "n div 10 * 10 \<le> hi" "n div 10 \<le> hi" using "1.prems" by linarith+
    with "1.IH" False "1.prems" show ?thesis
      by (subst show_nat.simps)
        (simp add: parse_digits_append digit_char checked_mul_def checked_add_def)
  qed
qed

lemma digit_not_plus: "is_ascii_digit c \<Longrightarrow> c \<noteq> CHR ''+''"
  by (auto simp: is_ascii_digit_def)

lemma parse_show_nat: "n \<le> hi \<Longrightarrow> parse_uint hi (show_nat n) = Some n"
proof -
  assume n: "n \<le> hi"
  obtain c cs where s: "show_nat n = c # cs" by (cases "show_nat n") auto
  have "c \<noteq> CHR ''+''" using show_nat_digits [of n] s by (simp add: digit_not_plus)
  with parse_show_digits [OF n] s show ?thesis by (simp add: parse_uint_def)
qed

lemma parse_digits_le: "parse_digits hi acc s = Some n \<Longrightarrow> acc \<le> hi \<Longrightarrow> n \<le> hi"
  by (induction hi acc s rule: parse_digits.induct)
    (auto simp: checked_add_def split: option.splits if_splits)

lemma parse_uint_le: "parse_uint hi s = Some n \<Longrightarrow> n \<le> hi"
  by (auto simp: parse_uint_def simp del: parse_digits.simps dest!: parse_digits_le
      split: list.splits if_splits)

subsection \<open>Trimming\<close>

lemma strip_leading_none: "leading ws s = None \<Longrightarrow> strip_leading ws s = s"
  by (subst strip_leading.simps) simp

lemma leading_None_hd:
  assumes "s \<noteq> []" "\<forall>w \<in> set ws. w \<noteq> [] \<longrightarrow> hd w \<noteq> hd s"
  shows "leading ws s = None"
proof -
  have "take (length w) s \<noteq> w" if "w \<in> set ws" "w \<noteq> []" for w
    using assms that by (cases w; cases s) auto
  then show ?thesis by (auto simp: leading_def find_None_iff)
qed

text \<open>A string that starts and ends with printable ASCII characters is not changed.\<close>

definition printable :: "char \<Rightarrow> bool" where
  "printable c \<longleftrightarrow> 33 \<le> (of_char c :: nat) \<and> (of_char c :: nat) \<le> 126"

lemma whitespace_ends:
  "w \<in> set whitespace_utf8 \<Longrightarrow> w \<noteq> [] \<and> \<not> printable (hd w) \<and> \<not> printable (last w)"
  unfolding whitespace_utf8_def by (auto simp: printable_def)

lemma trim_id:
  assumes "s \<noteq> []" "printable (hd s)" "printable (last s)"
  shows "trim s = s"
proof -
  have "leading whitespace_utf8 s = None"
    using assms by (intro leading_None_hd) (auto dest: whitespace_ends)
  moreover have "leading (map rev whitespace_utf8) (rev s) = None"
    using assms by (intro leading_None_hd) (auto simp: hd_rev dest: whitespace_ends)
  ultimately show ?thesis
    by (simp add: trim_def trim_start_def trim_end_def strip_leading_none)
qed

end
