(* ===== verification/Slices.thy ===== *)
theory Slices
  imports Prelude Rust_Text
begin

text \<open>
  The slices of VRAM the broker hands out: the types of
  \<^verbatim>\<open>crates/ramshared-broker/src/model.rs\<close> and the slice map of
  \<^verbatim>\<open>crates/ramshared-broker/src/slices.rs\<close>. A slice is \<open>Free\<close>, \<open>Active\<close> for a tenant, \<open>Draining\<close>
  (swapped off and waiting to be zeroed) or \<open>Leased\<close>. The lemmas show that every transition
  keeps the geometry and the tie between state and tenant, and that illegal transitions are
  refused.
\<close>

named_theorems slice_ops \<open>what the slice map operations do to a lookup\<close>

type_synonym tenant_id = nat
type_synonym slice_id = nat

datatype slice_state = Free | Active | Draining | Leased

record slice =
  sl_id :: slice_id
  sl_offset :: nat
  sl_len :: nat
  sl_tenant :: "tenant_id option"
  sl_state :: slice_state

datatype io_error_kind = InvalidInput | InvalidData

type_synonym io_error = "io_error_kind \<times> string"

datatype transport_kind = NbdUnix | NbdTcp | WinDrive | DccAgent

subsection \<open>Layout validation\<close>

fun validate_slices :: "slice list \<Rightarrow> nat \<Rightarrow> (unit, io_error) result" where
  "validate_slices [] max_capacity = Ok ()"
| "validate_slices (s # ss) max_capacity =
     (if sl_len s = 0 then Err (InvalidInput, ''Slice length cannot be zero'')
      else if sl_offset s mod 4096 \<noteq> 0 then
        Err (InvalidInput, ''Slice offset not 4096-byte aligned'')
      else if sl_len s mod 4096 \<noteq> 0 then
        Err (InvalidInput, ''Slice length not 4096-byte aligned'')
      else case checked_add u64_max (sl_offset s) (sl_len s) of
          None \<Rightarrow> Err (InvalidData, ''Slice offset and length overflow'')
        | Some e \<Rightarrow>
            if e > max_capacity then Err (InvalidData, ''Slice exceeds physical VRAM capacity'')
            else validate_slices ss max_capacity)"

fun validate_windows :: "slice list \<Rightarrow> (unit, io_error) result" where
  "validate_windows (a # b # ss) =
     (let previous_end = sl_offset a + sl_len a
      in if previous_end > sl_offset b then Err (InvalidInput, ''Slices overlap'')
         else if previous_end \<noteq> sl_offset b then Err (InvalidInput, ''Slices are not contiguous'')
         else validate_windows (b # ss))"
| "validate_windows _ = Ok ()"

text \<open>
  \<open>sort_unstable_by_key\<close> may order slices with equal offsets either way; such a pair fails the
  overlap test in both orders, since lengths are positive by then.
\<close>

definition validate_layout :: "slice list \<Rightarrow> nat \<Rightarrow> (unit, io_error) result" where
  "validate_layout slices max_capacity =
     (case validate_slices slices max_capacity of
        Err e \<Rightarrow> Err e
      | Ok _ \<Rightarrow>
          if slices = [] then Ok ()
          else validate_windows (sort_key sl_offset slices))"

subsection \<open>The slice map\<close>

definition MAX_SLICES :: nat where
  "MAX_SLICES = 256"

record slice_map =
  sm_slices :: "slice list"

datatype slice_error =
    UnknownSlice
  | IndexOutOfRange
  | BadState slice_state
  | TooManySlices nat nat
  | CapacityExceeded nat nat
  | AlreadyAllocated

definition slice_map_new :: "nat \<Rightarrow> nat \<Rightarrow> nat \<Rightarrow> (slice_map, slice_error) result" where
  "slice_map_new k slice_bytes backing_bytes =
     (if k > MAX_SLICES then Err (TooManySlices k MAX_SLICES)
      else case checked_mul u64_max k slice_bytes of
          None \<Rightarrow> Err (CapacityExceeded u64_max backing_bytes)
        | Some required \<Rightarrow>
            if required > backing_bytes then Err (CapacityExceeded required backing_bytes)
            else Ok \<lparr>sm_slices =
              map (\<lambda>i. \<lparr>sl_id = i, sl_offset = i * slice_bytes, sl_len = slice_bytes,
                        sl_tenant = None, sl_state = Free\<rparr>) [0..<k]\<rparr>)"

definition total_bytes :: "slice_map \<Rightarrow> nat" where
  "total_bytes m = fold (\<lambda>s total. wrapping_add u64_max total (sl_len s)) (sm_slices m) 0"

definition sm_get :: "slice_map \<Rightarrow> slice_id \<Rightarrow> slice option" where
  "sm_get m i = find (\<lambda>s. sl_id s = i) (sm_slices m)"

text \<open>\<open>get_mut\<close> and a write through the reference it returns.\<close>

definition sm_modify :: "slice_map \<Rightarrow> slice_id \<Rightarrow> (slice \<Rightarrow> slice) \<Rightarrow> slice_map" where
  "sm_modify m i f = m\<lparr>sm_slices := update_first (\<lambda>s. sl_id s = i) f (sm_slices m)\<rparr>"

definition sm_assign ::
  "slice_map \<Rightarrow> slice_id \<Rightarrow> tenant_id \<Rightarrow> slice_map \<times> (unit, slice_error) result" where
  "sm_assign m i tenant =
     (case sm_get m i of
        None \<Rightarrow> (m, Err UnknownSlice)
      | Some s \<Rightarrow>
          if sl_state s \<noteq> Free then (m, Err AlreadyAllocated)
          else (sm_modify m i (\<lambda>s. s\<lparr>sl_state := Active, sl_tenant := Some tenant\<rparr>), Ok ()))"

definition sm_drain :: "slice_map \<Rightarrow> slice_id \<Rightarrow> slice_map \<times> (unit, slice_error) result" where
  "sm_drain m i =
     (case sm_get m i of
        None \<Rightarrow> (m, Err UnknownSlice)
      | Some s \<Rightarrow>
          if sl_state s \<noteq> Active then (m, Err (BadState (sl_state s)))
          else (sm_modify m i (\<lambda>s. s\<lparr>sl_state := Draining\<rparr>), Ok ()))"

definition sm_release :: "slice_map \<Rightarrow> slice_id \<Rightarrow> slice_map \<times> (unit, slice_error) result" where
  "sm_release m i =
     (case sm_get m i of
        None \<Rightarrow> (m, Err UnknownSlice)
      | Some s \<Rightarrow>
          if sl_state s \<noteq> Draining then (m, Err (BadState (sl_state s)))
          else (sm_modify m i (\<lambda>s. s\<lparr>sl_state := Free, sl_tenant := None\<rparr>), Ok ()))"

definition sm_lease :: "slice_map \<Rightarrow> slice_id \<Rightarrow> slice_map \<times> (unit, slice_error) result" where
  "sm_lease m i =
     (case sm_get m i of
        None \<Rightarrow> (m, Err UnknownSlice)
      | Some s \<Rightarrow>
          if sl_state s \<noteq> Free then (m, Err AlreadyAllocated)
          else (sm_modify m i (\<lambda>s. s\<lparr>sl_state := Leased\<rparr>), Ok ()))"

definition sm_unlease :: "slice_map \<Rightarrow> slice_id \<Rightarrow> slice_map \<times> (unit, slice_error) result" where
  "sm_unlease m i =
     (case sm_get m i of
        None \<Rightarrow> (m, Err UnknownSlice)
      | Some s \<Rightarrow>
          if sl_state s \<noteq> Leased then (m, Err (BadState (sl_state s)))
          else (sm_modify m i (\<lambda>s. s\<lparr>sl_state := Free\<rparr>), Ok ()))"

definition sm_exports :: "slice_map \<Rightarrow> (string \<times> nat) list" where
  "sm_exports m = map (\<lambda>s. (''s'' @ show_nat (sl_id s), sl_len s)) (sm_slices m)"

subsection \<open>Lookups after an operation\<close>

lemma sm_get_modify [slice_ops]:
  assumes "\<And>s. sl_id (f s) = sl_id s"
  shows "sm_get (sm_modify m i f) j = (if j = i then map_option f (sm_get m j) else sm_get m j)"
  using assms by (simp add: sm_get_def sm_modify_def find_key_update_first)

lemma sm_get_id: "sm_get m i = Some s \<Longrightarrow> sl_id s = i \<and> s \<in> set (sm_slices m)"
  unfolding sm_get_def by (auto dest: find_Some_mem)

definition sm_ids :: "slice_map \<Rightarrow> slice_id list" where
  "sm_ids m = map sl_id (sm_slices m)"

text \<open>What never changes after \<open>SliceMap::new\<close>: which slices there are and where they lie.\<close>

definition sm_geometry :: "slice_map \<Rightarrow> (slice_id \<times> nat \<times> nat) list" where
  "sm_geometry m = map (\<lambda>s. (sl_id s, sl_offset s, sl_len s)) (sm_slices m)"

text \<open>A slice has an owner exactly while it is active or draining.\<close>

definition slice_ok :: "slice \<Rightarrow> bool" where
  "slice_ok s \<longleftrightarrow> (sl_tenant s = None \<longleftrightarrow> sl_state s \<in> {Free, Leased})"

definition sm_wf :: "slice_map \<Rightarrow> bool" where
  "sm_wf m \<longleftrightarrow> distinct (sm_ids m) \<and> (\<forall>s \<in> set (sm_slices m). slice_ok s)"

text \<open>Bytes of the slices in a given state.\<close>

definition bytes_in :: "slice_state \<Rightarrow> slice_map \<Rightarrow> nat" where
  "bytes_in st m = sum_list (map (\<lambda>s. if sl_state s = st then sl_len s else 0) (sm_slices m))"

lemma sm_ids_geometry: "sm_ids m = map fst (sm_geometry m)"
  by (simp add: sm_ids_def sm_geometry_def comp_def)

lemma sm_geometry_modify:
  assumes "\<And>s. sl_id (f s) = sl_id s" "\<And>s. sl_offset (f s) = sl_offset s"
    "\<And>s. sl_len (f s) = sl_len s"
  shows "sm_geometry (sm_modify m i f) = sm_geometry m"
  using assms by (simp add: sm_geometry_def sm_modify_def map_update_first)

lemma sm_get_mem: "sm_wf m \<Longrightarrow> s \<in> set (sm_slices m) \<Longrightarrow> sm_get m (sl_id s) = Some s"
  by (simp add: sm_wf_def sm_ids_def sm_get_def find_distinct_key)

lemma sm_get_wf: "sm_wf m \<Longrightarrow> sm_get m i = Some s \<Longrightarrow> slice_ok s"
  using sm_get_id by (force simp: sm_wf_def)

lemma sm_modify_as_map:
  "distinct (sm_ids m) \<Longrightarrow>
   sm_slices (sm_modify m i f) = map (\<lambda>s. if sl_id s = i then f s else s) (sm_slices m)"
  by (simp add: sm_modify_def sm_ids_def update_first_as_map)

lemma sm_geometry_get:
  assumes "sm_geometry m' = sm_geometry m" "sm_get m i = Some s"
  shows "\<exists>s'. sm_get m' i = Some s' \<and> sl_offset s' = sl_offset s \<and> sl_len s' = sl_len s"
proof -
  have "sm_geometry m' = sm_geometry m \<Longrightarrow> map_option (\<lambda>s. (sl_offset s, sl_len s)) (sm_get m' i)
    = map_option (\<lambda>s. (sl_offset s, sl_len s)) (sm_get m i)"
    unfolding sm_geometry_def sm_get_def
  proof (induction "sm_slices m'" "sm_slices m" arbitrary: m m' rule: list_induct2')
    case (4 x xs y ys)
    show ?case
      using "4.hyps"(1) [of "\<lparr>sm_slices = xs\<rparr>" "\<lparr>sm_slices = ys\<rparr>"] "4.prems"
      by (simp add: "4.hyps"(2,3) [symmetric])
  qed simp_all
  with assms show ?thesis by auto
qed

subsection \<open>The contract of a slice transition\<close>

text \<open>
  \<open>assign\<close>, \<open>drain\<close>, \<open>release\<close>, \<open>lease\<close> and \<open>unlease\<close> obey one contract: a slice in the source
  state moves to the target state and its owner changes by \<open>own\<close>; any other slice is refused and
  nothing changes. The laws below are proved once from it.
\<close>

locale slice_transition =
  fixes step :: "slice_map \<Rightarrow> slice_id \<Rightarrow> slice_map \<times> (unit, slice_error) result"
    and src dst :: slice_state
    and own :: "tenant_id option \<Rightarrow> tenant_id option"
  assumes step_ok: "sm_get m i = Some s \<Longrightarrow> sl_state s = src \<Longrightarrow>
      step m i = (sm_modify m i (\<lambda>s. s\<lparr>sl_state := dst, sl_tenant := own (sl_tenant s)\<rparr>), Ok ())"
    and step_refused: "sm_get m i = Some s \<Longrightarrow> sl_state s \<noteq> src \<Longrightarrow> \<exists>e. step m i = (m, Err e)"
    and step_unknown: "sm_get m i = None \<Longrightarrow> step m i = (m, Err UnknownSlice)"
    and src_dst: "src \<noteq> dst"
    and own_ok: "(t = None \<longleftrightarrow> src \<in> {Free, Leased}) \<Longrightarrow> (own t = None \<longleftrightarrow> dst \<in> {Free, Leased})"
begin

lemma ok_iff: "snd (step m i) = Ok () \<longleftrightarrow> (\<exists>s. sm_get m i = Some s \<and> sl_state s = src)"
proof (cases "sm_get m i")
  case (Some s)
  then show ?thesis
    using step_ok [OF Some] step_refused [OF Some] by (cases "sl_state s = src") auto
qed (simp add: step_unknown)

lemma is_ok_iff: "is_ok (snd (step m i)) \<longleftrightarrow> (\<exists>s. sm_get m i = Some s \<and> sl_state s = src)"
  unfolding ok_iff [symmetric] by (cases "snd (step m i)") auto

lemma refused: "snd (step m i) \<noteq> Ok () \<Longrightarrow> fst (step m i) = m"
proof (cases "sm_get m i")
  case (Some s)
  assume "snd (step m i) \<noteq> Ok ()"
  with step_ok [OF Some] have "sl_state s \<noteq> src" by auto
  then show ?thesis using step_refused [OF Some] by auto
qed (simp add: step_unknown)

lemma unchanged: "\<not> is_ok (snd (step m i)) \<Longrightarrow> fst (step m i) = m"
  using refused [of m i] by (cases "snd (step m i)") auto

lemma moved: "is_ok (snd (step m i)) \<Longrightarrow> fst (step m i) =
    sm_modify m i (\<lambda>s. s\<lparr>sl_state := dst, sl_tenant := own (sl_tenant s)\<rparr>)"
  by (auto simp: is_ok_iff step_ok)

lemma geometry: "sm_geometry (fst (step m i)) = sm_geometry m"
  by (cases "is_ok (snd (step m i))") (simp_all add: moved unchanged sm_geometry_modify)

lemma get_step: "sm_get (fst (step m i)) j =
    (if j = i then map_option (\<lambda>s. if sl_state s = src
        then s\<lparr>sl_state := dst, sl_tenant := own (sl_tenant s)\<rparr> else s) (sm_get m j)
     else sm_get m j)"
proof (cases "is_ok (snd (step m i))")
  case True
  then obtain s where "sm_get m i = Some s" "sl_state s = src" by (auto simp: is_ok_iff)
  with True show ?thesis by (auto simp: moved sm_get_modify)
next
  case False
  then show ?thesis by (cases "sm_get m i") (auto simp: unchanged is_ok_iff)
qed

lemma wf: "sm_wf m \<Longrightarrow> sm_wf (fst (step m i))"
proof (cases "is_ok (snd (step m i))")
  case True
  assume wf: "sm_wf m"
  from True obtain s where s: "sm_get m i = Some s" "sl_state s = src" by (auto simp: is_ok_iff)
  have "slice_ok x" if x: "x \<in> set (sm_slices (fst (step m i)))" for x
  proof -
    from wf have d: "distinct (sm_ids m)" by (simp add: sm_wf_def)
    from x True obtain y where y: "y \<in> set (sm_slices m)"
      "x = (if sl_id y = i then y\<lparr>sl_state := dst, sl_tenant := own (sl_tenant y)\<rparr> else y)"
      by (auto simp: moved sm_modify_as_map [OF d])
    from wf y have oky: "slice_ok y" by (simp add: sm_wf_def)
    have "y = s" if "sl_id y = i"
      using sm_get_mem [OF wf y(1)] s that by simp
    with y oky s show ?thesis
      using own_ok [of "sl_tenant y"] by (auto simp: slice_ok_def)
  qed
  with wf show ?thesis
    by (simp add: sm_wf_def sm_ids_geometry geometry)
qed (simp add: unchanged)

lemma bytes:
  assumes "sm_get m i = Some s" "sl_state s = src"
  shows "bytes_in st (fst (step m i)) + (if st = src then sl_len s else 0) =
    bytes_in st m + (if st = dst then sl_len s else 0)"
proof -
  let ?g = "\<lambda>s. if sl_state s = st then sl_len s else 0"
  have "bytes_in st (fst (step m i)) + ?g s =
      bytes_in st m + ?g (s\<lparr>sl_state := dst, sl_tenant := own (sl_tenant s)\<rparr>)"
    using assms sum_list_update_first [of "\<lambda>s. sl_id s = i" "sm_slices m" s ?g]
    by (simp add: step_ok bytes_in_def sm_modify_def sm_get_def)
  with assms(2) show ?thesis by (auto split: if_splits)
qed

lemma bytes_other:
  "st \<noteq> src \<Longrightarrow> st \<noteq> dst \<Longrightarrow> bytes_in st (fst (step m i)) = bytes_in st m"
  using bytes [of m i _ st] unchanged [of m i] by (cases "is_ok (snd (step m i))") (auto simp: is_ok_iff)

end

lemmas sm_op_defs = sm_assign_def sm_drain_def sm_release_def sm_lease_def sm_unlease_def

interpretation assign: slice_transition "\<lambda>m i. sm_assign m i t" Free Active "\<lambda>_. Some t" for t
  by unfold_locales (auto simp: sm_assign_def)

interpretation drain: slice_transition sm_drain Active Draining "\<lambda>t. t"
  by unfold_locales (auto simp: sm_drain_def sm_modify_def)

interpretation release: slice_transition sm_release Draining Free "\<lambda>_. None"
  by unfold_locales (auto simp: sm_release_def)

interpretation lease: slice_transition sm_lease Free Leased "\<lambda>t. t"
  by unfold_locales (auto simp: sm_lease_def sm_modify_def)

interpretation unlease: slice_transition sm_unlease Leased Free "\<lambda>t. t"
  by unfold_locales (auto simp: sm_unlease_def sm_modify_def)

subsection \<open>What layout validation guarantees\<close>

definition slice_range :: "slice \<Rightarrow> nat set" where
  "slice_range s = {sl_offset s ..< sl_offset s + sl_len s}"

lemma validate_slices_Ok:
  "validate_slices ss cap = Ok () \<longleftrightarrow>
   (\<forall>s \<in> set ss. 0 < sl_len s \<and> 4096 dvd sl_offset s \<and> 4096 dvd sl_len s \<and>
      sl_offset s + sl_len s \<le> min u64_max cap)"
  by (induction ss cap rule: validate_slices.induct)
    (auto simp: checked_add_def mod_eq_0_iff_dvd)

lemma validate_windows_Ok:
  "validate_windows ss = Ok () \<longleftrightarrow> successively (\<lambda>a b. sl_offset a + sl_len a = sl_offset b) ss"
  by (induction ss rule: validate_windows.induct) (auto simp: Let_def)

lemma contiguous_ordered:
  "successively (\<lambda>a b. sl_offset a + sl_len a = sl_offset b) ss \<Longrightarrow>
   sorted_wrt (\<lambda>a b. sl_offset a + sl_len a \<le> sl_offset b) ss"
proof (induction ss rule: induct_list012)
  case (3 a b ss)
  then show ?case by (auto intro: order_trans [OF le_add1])
qed auto

lemma contiguous_union:
  "successively (\<lambda>a b. sl_offset a + sl_len a = sl_offset b) ss \<Longrightarrow> ss \<noteq> [] \<Longrightarrow>
   (\<Union>s \<in> set ss. slice_range s) =
     {sl_offset (hd ss) ..< sl_offset (last ss) + sl_len (last ss)} \<and>
   sl_offset (hd ss) \<le> sl_offset (last ss)"
proof (induction ss rule: induct_list012)
  case (3 a b ss)
  then have "(\<Union>s \<in> set (b # ss). slice_range s) =
      {sl_offset b ..< sl_offset (last (b # ss)) + sl_len (last (b # ss))}"
    and "sl_offset b \<le> sl_offset (last (b # ss))" and "sl_offset a + sl_len a = sl_offset b"
    by simp_all
  moreover from this(2,3) have "slice_range a \<union>
      {sl_offset b ..< sl_offset (last (b # ss)) + sl_len (last (b # ss))} =
      {sl_offset a ..< sl_offset (last (b # ss)) + sl_len (last (b # ss))}"
    unfolding slice_range_def by (simp only:) (rule ivl_disj_un_two(3); simp)
  ultimately show ?case by simp
qed (auto simp: slice_range_def)

lemma ordered_disjoint:
  assumes "sorted_wrt (\<lambda>a b. sl_offset a + sl_len a \<le> sl_offset b) ss"
    and "\<forall>s \<in> set ss. 0 < sl_len s"
  shows "distinct ss \<and> (\<forall>s \<in> set ss. \<forall>t \<in> set ss. s \<noteq> t \<longrightarrow> slice_range s \<inter> slice_range t = {})"
  using assms
proof (induction ss)
  case (Cons a ss)
  then have "slice_range a \<inter> slice_range t = {}" if "t \<in> set ss" for t
    using that by (auto simp: slice_range_def)
  moreover have "a \<notin> set ss" using Cons.prems by fastforce
  moreover have "distinct ss" and
    "\<forall>s \<in> set ss. \<forall>t \<in> set ss. s \<noteq> t \<longrightarrow> slice_range s \<inter> slice_range t = {}"
    using Cons by simp_all
  ultimately show ?case by (simp add: Int_commute)
qed simp

lemma validate_layout_Ok:
  "validate_layout ss cap = Ok () \<longleftrightarrow>
    validate_slices ss cap = Ok () \<and> validate_windows (sort_key sl_offset ss) = Ok ()"
  by (auto simp: validate_layout_def split: result.splits)

text \<open>
  A layout that \<open>Slice::validate_layout\<close> accepts tiles one interval of the device: every slice is
  non-empty, page aligned and inside the capacity, no two slices share a byte, and together they
  leave no hole.
\<close>

theorem validate_layout_tiles:
  assumes "validate_layout ss cap = Ok ()"
  shows "(\<forall>s \<in> set ss. 0 < sl_len s \<and> 4096 dvd sl_offset s \<and> 4096 dvd sl_len s \<and>
        sl_offset s + sl_len s \<le> cap) \<and>
    distinct ss \<and> (\<forall>s \<in> set ss. \<forall>t \<in> set ss. s \<noteq> t \<longrightarrow> slice_range s \<inter> slice_range t = {}) \<and>
    (\<exists>lo hi. (\<Union>s \<in> set ss. slice_range s) = {lo ..< hi})"
proof -
  let ?sorted = "sort_key sl_offset ss"
  from assms have each: "\<forall>s \<in> set ss. 0 < sl_len s \<and> 4096 dvd sl_offset s \<and> 4096 dvd sl_len s \<and>
      sl_offset s + sl_len s \<le> min u64_max cap"
    and tiled: "successively (\<lambda>a b. sl_offset a + sl_len a = sl_offset b) ?sorted"
    by (simp_all add: validate_layout_Ok validate_slices_Ok validate_windows_Ok)
  have "distinct ?sorted \<and> (\<forall>s \<in> set ?sorted. \<forall>t \<in> set ?sorted.
      s \<noteq> t \<longrightarrow> slice_range s \<inter> slice_range t = {})"
    using each by (intro ordered_disjoint contiguous_ordered [OF tiled]) simp
  moreover have "\<exists>lo hi. (\<Union>s \<in> set ss. slice_range s) = {lo ..< hi}"
  proof (cases "ss = []")
    case False
    then have "?sorted \<noteq> []" by (metis set_sort set_empty)
    with contiguous_union [OF tiled] show ?thesis by auto
  qed (auto intro: exI [of _ 0])
  ultimately show ?thesis using each by simp
qed

theorem validate_layout_tiles_witness:
  "let ss = [\<lparr>sl_id = 1, sl_offset = 4096, sl_len = 8192, sl_tenant = Some 3, sl_state = Active\<rparr>,
             \<lparr>sl_id = 0, sl_offset = 0, sl_len = 4096, sl_tenant = None, sl_state = Free\<rparr>]
   in validate_layout ss 12288 = Ok () \<and> (\<exists>lo hi. (\<Union>s \<in> set ss. slice_range s) = {lo ..< hi})"
proof -
  let ?ss = "[\<lparr>sl_id = 1, sl_offset = 4096, sl_len = 8192, sl_tenant = Some 3, sl_state = Active\<rparr>,
     \<lparr>sl_id = 0, sl_offset = 0, sl_len = 4096, sl_tenant = None, sl_state = Free\<rparr>] :: slice list"
  have "validate_layout ?ss 12288 = Ok ()"
    by (simp add: validate_layout_def checked_add_def u64_max_def)
  with validate_layout_tiles [OF this] show ?thesis by (simp only: Let_def)
qed

lemma new_geometry:
  "slice_map_new k slice_bytes backing = Ok m \<Longrightarrow>
   k \<le> MAX_SLICES \<and> k * slice_bytes \<le> min backing u64_max \<and>
   sm_slices m = map (\<lambda>i. \<lparr>sl_id = i, sl_offset = i * slice_bytes, sl_len = slice_bytes,
                        sl_tenant = None, sl_state = Free\<rparr>) [0..<k]"
  by (auto simp: slice_map_new_def checked_mul_def split: if_splits)

lemma fold_wrapping_sum:
  "fold (\<lambda>s total. wrapping_add u64_max total (sl_len s)) ss a mod (u64_max + 1) =
   (a + sum_list (map sl_len ss)) mod (u64_max + 1)"
proof (induction ss arbitrary: a)
  case (Cons s ss)
  show ?case
    by (simp only: fold_simps Cons.IH) (simp add: wrapping_add_def mod_add_left_eq add.assoc)
qed simp

lemma new_total_bytes:
  assumes "slice_map_new k slice_bytes backing = Ok m"
  shows "total_bytes m = k * slice_bytes"
proof -
  note new_geometry [OF assms]
  let ?ss = "sm_slices m"
  have bound: "fold (\<lambda>s total. wrapping_add u64_max total (sl_len s)) ss a \<le> u64_max"
    if "a \<le> u64_max" for ss a
    using that
  proof (induction ss arbitrary: a)
    case (Cons s ss)
    have "wrapping_add u64_max a (sl_len s) \<le> u64_max"
      by (simp add: wrapping_add_def less_Suc_eq_le [symmetric])
    then show ?case by (simp add: Cons.IH)
  qed simp
  have "sum_list (map sl_len ?ss) = k * slice_bytes"
    using new_geometry [OF assms] by (simp add: comp_def sum_list_triv)
  moreover have "k * slice_bytes \<le> u64_max" using new_geometry [OF assms] by simp
  ultimately show ?thesis
    using fold_wrapping_sum [of ?ss 0] bound [of 0 ?ss] by (simp add: total_bytes_def)
qed

lemma new_wf: "slice_map_new k slice_bytes backing = Ok m \<Longrightarrow> sm_wf m"
  by (auto simp: sm_wf_def sm_ids_def slice_ok_def comp_def dest!: new_geometry)

lemma new_validates:
  assumes "slice_map_new k slice_bytes backing = Ok m" "0 < slice_bytes" "4096 dvd slice_bytes"
  shows "validate_layout (sm_slices m) backing = Ok ()"
proof -
  note geo = new_geometry [OF assms(1)]
  have "i * slice_bytes + slice_bytes \<le> min u64_max backing" if "i < k" for i
  proof -
    have "Suc i * slice_bytes \<le> k * slice_bytes" using that by (intro mult_le_mono1) simp
    with geo show ?thesis by simp
  qed
  then have "validate_slices (sm_slices m) backing = Ok ()"
    using geo assms(2,3) by (auto simp: validate_slices_Ok)
  moreover have "sort_key sl_offset (sm_slices m) = sm_slices m"
    using geo by (intro sort_key_id_if_sorted) (simp add: comp_def sorted_iff_nth_mono)
  moreover have "successively (\<lambda>a b. sl_offset a + sl_len a = sl_offset b) (sm_slices m)"
    using geo by (simp add: successively_conv_nth)
  ultimately show ?thesis by (simp add: validate_layout_Ok validate_windows_Ok)
qed

text \<open>
  \<open>SliceMap::new\<close> succeeds exactly when at most 256 slices are asked for and they fit the
  backing store and a \<open>u64\<close>; the map it builds is well formed, all slices are free, its total is
  the product of count and size, and with a page-aligned slice size its layout passes validation.
\<close>

theorem slice_map_new_correct:
  "(is_ok (slice_map_new k slice_bytes backing) \<longleftrightarrow>
      k \<le> 256 \<and> k * slice_bytes \<le> min backing u64_max) \<and>
   (\<forall>m. slice_map_new k slice_bytes backing = Ok m \<longrightarrow>
      sm_wf m \<and> (\<forall>s \<in> set (sm_slices m). sl_state s = Free) \<and> total_bytes m = k * slice_bytes \<and>
      (0 < slice_bytes \<and> 4096 dvd slice_bytes \<longrightarrow> validate_layout (sm_slices m) backing = Ok ()))"
proof (intro conjI allI impI)
  show "is_ok (slice_map_new k slice_bytes backing) \<longleftrightarrow>
      k \<le> 256 \<and> k * slice_bytes \<le> min backing u64_max"
    by (auto simp: slice_map_new_def MAX_SLICES_def checked_mul_def)
next
  fix m
  assume new: "slice_map_new k slice_bytes backing = Ok m"
  then show "sm_wf m" and "total_bytes m = k * slice_bytes"
    by (rule new_wf, rule new_total_bytes)
  show "\<forall>s \<in> set (sm_slices m). sl_state s = Free"
    using new_geometry [OF new] by auto
  assume "0 < slice_bytes \<and> 4096 dvd slice_bytes"
  with new show "validate_layout (sm_slices m) backing = Ok ()" by (simp add: new_validates)
qed

theorem slice_map_new_correct_witness:
  "\<exists>m. slice_map_new 2 8192 16384 = Ok m \<and> total_bytes m = 16384 \<and>
     validate_layout (sm_slices m) 16384 = Ok ()"
proof -
  have "is_ok (slice_map_new 2 8192 16384)"
    using slice_map_new_correct [of 2 8192 16384] by (simp add: u64_max_def)
  then obtain m where "slice_map_new 2 8192 16384 = Ok m"
    by (cases "slice_map_new 2 8192 16384") auto
  with slice_map_new_correct [of 2 8192 16384] show ?thesis by simp
qed

end
