(* ===== verification/Float_Model.thy ===== *)
theory Float_Model
  imports Complex_Main
begin

text \<open>
  The IEEE 754 binary formats behind Rust's \<open>f32\<close> and \<open>f64\<close>, as far as the policy code uses them:
  conversion from integers, addition, subtraction, multiplication, division and comparison.
  A finite number is a sign and a magnitude; every arithmetic result is rounded to the nearest
  representable number, ties to even, and overflows to an infinity.
\<close>

datatype fp = NaN | Inf bool | Fin bool rat

record fp_format =
  precision :: nat
  emin :: int
  emax :: nat

definition f32 :: fp_format where
  "f32 = \<lparr>precision = 24, emin = -149, emax = 128\<rparr>"

definition f64 :: fp_format where
  "f64 = \<lparr>precision = 53, emin = -1074, emax = 1024\<rparr>"

definition round_half_even :: "rat \<Rightarrow> int" where
  "round_half_even x =
     (let n = \<lfloor>x\<rfloor>; d = x - of_int n
      in if d < 1 / 2 then n else if 1 / 2 < d then n + 1 else if even n then n else n + 1)"

text \<open>Number of binary digits of a natural number; zero has none.\<close>

fun bit_length :: "nat \<Rightarrow> nat" where
  "bit_length n = (if n = 0 then 0 else Suc (bit_length (n div 2)))"

declare bit_length.simps [simp del]

text \<open>The exponent \<open>k\<close> with \<open>2 ^ k \<le> x < 2 ^ (k + 1)\<close>, for positive \<open>x\<close>.\<close>

definition ilog2 :: "rat \<Rightarrow> int" where
  "ilog2 x =
     (if 1 \<le> x then int (bit_length (nat \<lfloor>x\<rfloor>)) - 1
      else - int (bit_length (nat (\<lceil>1 / x\<rceil> - 1))))"

definition pow2 :: "int \<Rightarrow> rat" where
  "pow2 k = (if 0 \<le> k then 2 ^ nat k else 1 / 2 ^ nat (- k))"

text \<open>The magnitude rounded to a multiple of the last place of its binade.\<close>

definition round_mag :: "fp_format \<Rightarrow> rat \<Rightarrow> rat" where
  "round_mag fmt x =
     (if x = 0 then 0
      else let u = pow2 (max (ilog2 x - int (precision fmt) + 1) (emin fmt))
           in of_int (round_half_even (x / u)) * u)"

definition fp_pack :: "fp_format \<Rightarrow> bool \<Rightarrow> rat \<Rightarrow> fp" where
  "fp_pack fmt neg x =
     (let m = round_mag fmt x in if 2 ^ emax fmt \<le> m then Inf neg else Fin neg m)"

definition fp_value :: "bool \<Rightarrow> rat \<Rightarrow> rat" where
  "fp_value neg m = (if neg then - m else m)"

fun fp_neg :: "fp \<Rightarrow> fp" where
  "fp_neg NaN = NaN"
| "fp_neg (Inf s) = Inf (\<not> s)"
| "fp_neg (Fin s m) = Fin (\<not> s) m"

fun fp_add :: "fp_format \<Rightarrow> fp \<Rightarrow> fp \<Rightarrow> fp" where
  "fp_add fmt NaN b = NaN"
| "fp_add fmt a NaN = NaN"
| "fp_add fmt (Inf s) (Inf t) = (if s = t then Inf s else NaN)"
| "fp_add fmt (Inf s) (Fin t n) = Inf s"
| "fp_add fmt (Fin s m) (Inf t) = Inf t"
| "fp_add fmt (Fin s m) (Fin t n) =
     (let v = fp_value s m + fp_value t n
      in if v = 0 then Fin (s \<and> t) 0 else fp_pack fmt (v < 0) \<bar>v\<bar>)"

definition fp_sub :: "fp_format \<Rightarrow> fp \<Rightarrow> fp \<Rightarrow> fp" where
  "fp_sub fmt a b = fp_add fmt a (fp_neg b)"

fun fp_mul :: "fp_format \<Rightarrow> fp \<Rightarrow> fp \<Rightarrow> fp" where
  "fp_mul fmt NaN b = NaN"
| "fp_mul fmt a NaN = NaN"
| "fp_mul fmt (Inf s) (Inf t) = Inf (s \<noteq> t)"
| "fp_mul fmt (Inf s) (Fin t n) = (if n = 0 then NaN else Inf (s \<noteq> t))"
| "fp_mul fmt (Fin s m) (Inf t) = (if m = 0 then NaN else Inf (s \<noteq> t))"
| "fp_mul fmt (Fin s m) (Fin t n) = fp_pack fmt (s \<noteq> t) (m * n)"

fun fp_div :: "fp_format \<Rightarrow> fp \<Rightarrow> fp \<Rightarrow> fp" where
  "fp_div fmt NaN b = NaN"
| "fp_div fmt a NaN = NaN"
| "fp_div fmt (Inf s) (Inf t) = NaN"
| "fp_div fmt (Inf s) (Fin t n) = Inf (s \<noteq> t)"
| "fp_div fmt (Fin s m) (Inf t) = Fin (s \<noteq> t) 0"
| "fp_div fmt (Fin s m) (Fin t n) =
     (if n = 0 then (if m = 0 then NaN else Inf (s \<noteq> t)) else fp_pack fmt (s \<noteq> t) (m / n))"

fun fp_lt :: "fp \<Rightarrow> fp \<Rightarrow> bool" where
  "fp_lt NaN b = False"
| "fp_lt a NaN = False"
| "fp_lt (Inf s) (Inf t) = (s \<and> \<not> t)"
| "fp_lt (Inf s) (Fin t n) = s"
| "fp_lt (Fin s m) (Inf t) = (\<not> t)"
| "fp_lt (Fin s m) (Fin t n) = (fp_value s m < fp_value t n)"

abbreviation fp_gt :: "fp \<Rightarrow> fp \<Rightarrow> bool" where
  "fp_gt a b \<equiv> fp_lt b a"

text \<open>An integer cast with \<open>as f32\<close> or \<open>as f64\<close> rounds to nearest, ties to even.\<close>

definition fp_of_nat :: "fp_format \<Rightarrow> nat \<Rightarrow> fp" where
  "fp_of_nat fmt n = fp_pack fmt False (of_nat n)"

abbreviation fp_zero :: fp where
  "fp_zero \<equiv> Fin False 0"

abbreviation fp_one :: fp where
  "fp_one \<equiv> Fin False 1"

datatype ordering = Less | Equal | Greater

text \<open>\<open>partial_cmp(..).unwrap_or(Equal)\<close>.\<close>

definition fp_cmp :: "fp \<Rightarrow> fp \<Rightarrow> ordering" where
  "fp_cmp a b = (if fp_lt a b then Less else if fp_lt b a then Greater else Equal)"

lemma fp_lt_irrefl [simp]: "\<not> fp_lt a a"
  by (cases a) auto

lemma fp_lt_trans: "fp_lt a b \<Longrightarrow> fp_lt b c \<Longrightarrow> fp_lt a c"
  by (cases a; cases b; cases c) auto

lemma fp_lt_not_sym: "fp_lt a b \<Longrightarrow> \<not> fp_lt b a"
  using fp_lt_trans fp_lt_irrefl by blast

text \<open>Without NaN, "not less" is a total preorder.\<close>

lemma fp_not_lt_trans: "\<not> fp_lt b a \<Longrightarrow> \<not> fp_lt c b \<Longrightarrow> b \<noteq> NaN \<Longrightarrow> \<not> fp_lt c a"
  by (cases a; cases b; cases c) auto

lemma fp_cmp_Less [simp]: "fp_cmp a b = Less \<longleftrightarrow> fp_lt a b"
  by (auto simp: fp_cmp_def)

lemma fp_cmp_Greater [simp]: "fp_cmp a b = Greater \<longleftrightarrow> fp_lt b a"
  by (auto simp: fp_cmp_def dest: fp_lt_not_sym)

text \<open>\<open>bit_length\<close> brackets its argument between two powers of two.\<close>

lemma bit_length_bounds:
  "0 < n \<Longrightarrow> 2 ^ (bit_length n - 1) \<le> n \<and> n < 2 ^ bit_length n"
proof (induction n rule: bit_length.induct)
  case (1 n)
  show ?case
  proof (cases "n div 2 = 0")
    case True
    with "1.prems" have "n = 1" by linarith
    then show ?thesis by (simp add: bit_length.simps [of "Suc 0"] bit_length.simps [of 0])
  next
    case False
    with "1.IH" "1.prems" have
      lo: "2 ^ (bit_length (n div 2) - 1) \<le> n div 2" and hi: "n div 2 < 2 ^ bit_length (n div 2)"
      by simp_all
    from False have pos: "0 < bit_length (n div 2)"
      by (simp add: bit_length.simps [of "n div 2"])
    from lo pos have "2 ^ bit_length (n div 2) \<le> n"
      by (cases "bit_length (n div 2)") auto
    moreover from hi have "n < 2 * 2 ^ bit_length (n div 2)" by linarith
    ultimately show ?thesis using "1.prems" by (simp add: bit_length.simps [of n])
  qed
qed

end
