(* ===== verification/Arbiter.thy ===== *)
theory Arbiter
  imports Slices Float_Model
begin

text \<open>
  The pure arbitration policy of \<^verbatim>\<open>crates/ramshared-broker/src/arbiter.rs\<close>. One call of \<open>tick\<close>
  decides: a pending lease first; otherwise the counterfactual revert, the pressure differential
  with hysteresis, cooldown and the never-zero rule, and the round robin over free slices.
  \<open>tick\<close> does not touch the slices; it returns the actions the broker core applies.
  \<open>tick\<close> is an option and \<open>None\<close> is a panic: of an instant that overflows, of a division or remainder by
  zero, of an index out of bounds, or of a sort whose comparison is no total order. Counters
  updated with \<open>+=\<close> wrap, as in a release build.
\<close>

record psi_sample =
  ps_avg10 :: fp
  ps_avg60 :: fp
  ps_stall_us :: nat

definition psi_default :: psi_sample where
  "psi_default = \<lparr>ps_avg10 = fp_zero, ps_avg60 = fp_zero, ps_stall_us = 0\<rparr>"

record arbiter_config =
  cfg_delta_psi :: fp
  cfg_streak :: nat
  cfg_cooldown :: duration
  cfg_psi_floor :: fp
  cfg_cf_window :: duration
  cfg_cf_factor :: fp
  cfg_cf_cooldown :: duration

definition arbiter_config_default :: arbiter_config where
  "arbiter_config_default =
     \<lparr>cfg_delta_psi = Fin False 10, cfg_streak = 5, cfg_cooldown = from_secs 60,
      cfg_psi_floor = Fin False 5, cfg_cf_window = from_secs 60, cfg_cf_factor = Fin False 2,
      cfg_cf_cooldown = from_secs 300\<rparr>"

datatype arbiter_error = LeaseConflict | LeaseExpired | NotOwner

record tenant_view =
  tv_id :: tenant_id
  tv_psi :: psi_sample
  tv_slices :: nat

datatype action =
    AssignFree slice_id tenant_id
  | MoveSlice slice_id tenant_id tenant_id
  | RevertMove slice_id tenant_id tenant_id
  | RevokeForLease slice_id tenant_id
  | GrantLease tenant_id "slice_id list"

record move_record =
  mr_slice :: slice_id
  mr_from :: tenant_id
  mr_to :: tenant_id
  mr_at :: instant
  mr_from_psi_at_move :: fp

record arbiter =
  ar_cfg :: arbiter_config
  ar_streak :: nat
  ar_last_move :: "move_record option"
  ar_cooldown_until :: "instant option"
  ar_rr_cursor :: nat

definition owner_psi :: "tenant_view list \<Rightarrow> tenant_id \<Rightarrow> fp option" where
  "owner_psi tenants i = map_option (\<lambda>t. ps_avg10 (tv_psi t)) (find (\<lambda>t. tv_id t = i) tenants)"

definition first_active_of :: "slice list \<Rightarrow> tenant_id \<Rightarrow> slice_id option" where
  "first_active_of slices owner =
     map_option sl_id (find (\<lambda>s. sl_state s = Active \<and> sl_tenant s = Some owner) slices)"

definition by_psi :: "fp \<Rightarrow> fp \<Rightarrow> ordering" where
  "by_psi a b = fp_cmp a b"

definition arbiter_new :: "arbiter_config \<Rightarrow> arbiter" where
  "arbiter_new cfg =
     \<lparr>ar_cfg = cfg, ar_streak = 0, ar_last_move = None, ar_cooldown_until = None,
      ar_rr_cursor = 0\<rparr>"

definition cooldown_active :: "arbiter \<Rightarrow> instant \<Rightarrow> bool" where
  "cooldown_active ar now = (case ar_cooldown_until ar of Some u \<Rightarrow> now < u | None \<Rightarrow> False)"

text \<open>
  \<open>Iterator::max_by\<close> keeps the last of equal maxima, \<open>min_by\<close> the first of equal minima.
\<close>

fun max_by :: "('a \<Rightarrow> 'a \<Rightarrow> ordering) \<Rightarrow> 'a list \<Rightarrow> 'a option" where
  "max_by cmp [] = None"
| "max_by cmp (x # xs) = Some (fold (\<lambda>y best. if cmp best y = Greater then best else y) xs x)"

fun min_by :: "('a \<Rightarrow> 'a \<Rightarrow> ordering) \<Rightarrow> 'a list \<Rightarrow> 'a option" where
  "min_by cmp [] = None"
| "min_by cmp (x # xs) = Some (fold (\<lambda>y best. if cmp best y = Greater then y else best) xs x)"

definition view_psi :: "tenant_view \<Rightarrow> fp" where
  "view_psi t = ps_avg10 (tv_psi t)"

definition pressure_pair ::
  "tenant_view list \<Rightarrow> (tenant_view \<times> tenant_view \<times> fp) option" where
  "pressure_pair tenants =
     (case max_by (\<lambda>a b. by_psi (view_psi a) (view_psi b)) tenants of
        None \<Rightarrow> None
      | Some receiver \<Rightarrow>
          (case min_by (\<lambda>a b. by_psi (view_psi a) (view_psi b))
                  (filter (\<lambda>t. tv_slices t \<ge> 1 \<and> tv_id t \<noteq> tv_id receiver) tenants) of
             None \<Rightarrow> None
           | Some donor \<Rightarrow> Some (receiver, donor, fp_sub f32 (view_psi receiver) (view_psi donor))))"

subsection \<open>Step 1: a pending lease\<close>

text \<open>
  \<open>sort_by\<close> is a stable sort, so that it returns this list when the comparison is a total order on the
  elements; otherwise it may panic, and the model does.
\<close>

fun insort_by :: "('a \<Rightarrow> 'a \<Rightarrow> ordering) \<Rightarrow> 'a \<Rightarrow> 'a list \<Rightarrow> 'a list" where
  "insort_by cmp x [] = [x]"
| "insort_by cmp x (y # ys) = (if cmp x y = Greater then y # insort_by cmp x ys else x # y # ys)"

definition sort_by :: "('a \<Rightarrow> 'a \<Rightarrow> ordering) \<Rightarrow> 'a list \<Rightarrow> 'a list" where
  "sort_by cmp xs = foldr (insort_by cmp) xs []"

definition consistent_cmp :: "('a \<Rightarrow> 'a \<Rightarrow> ordering) \<Rightarrow> 'a list \<Rightarrow> bool" where
  "consistent_cmp cmp xs \<longleftrightarrow>
     (\<forall>a \<in> set xs. \<forall>b \<in> set xs. (cmp a b = Greater \<longrightarrow> cmp b a \<noteq> Greater) \<and>
        (\<forall>c \<in> set xs. cmp a b \<noteq> Greater \<longrightarrow> cmp b c \<noteq> Greater \<longrightarrow> cmp a c \<noteq> Greater))"

definition checked_sort_by :: "('a \<Rightarrow> 'a \<Rightarrow> ordering) \<Rightarrow> 'a list \<Rightarrow> 'a list option" where
  "checked_sort_by cmp xs = (if consistent_cmp cmp xs then Some (sort_by cmp xs) else None)"

fun ordering_then :: "ordering \<Rightarrow> ordering \<Rightarrow> ordering" where
  "ordering_then Equal o2 = o2"
| "ordering_then o1 o2 = o1"

definition nat_cmp :: "nat \<Rightarrow> nat \<Rightarrow> ordering" where
  "nat_cmp a b = (if a < b then Less else if a = b then Equal else Greater)"

definition revoke_cmp ::
  "slice_id \<times> tenant_id \<times> fp \<Rightarrow> slice_id \<times> tenant_id \<times> fp \<Rightarrow> ordering" where
  "revoke_cmp a b = ordering_then (by_psi (snd (snd a)) (snd (snd b))) (nat_cmp (fst a) (fst b))"

definition ids_in :: "slice_state \<Rightarrow> slice list \<Rightarrow> slice_id list" where
  "ids_in st slices = map sl_id (filter (\<lambda>s. sl_state s = st) slices)"

definition revocable :: "tenant_view list \<Rightarrow> slice list \<Rightarrow> (slice_id \<times> tenant_id \<times> fp) list" where
  "revocable tenants slices =
     filter_map (\<lambda>s. case sl_tenant s of
         None \<Rightarrow> None
       | Some t \<Rightarrow> Some (sl_id s, t, unwrap_or (owner_psi tenants t) fp_zero))
       (filter (\<lambda>s. sl_state s = Active) slices)"

definition slice_len :: "slice list \<Rightarrow> nat" where
  "slice_len slices = (case slices of [] \<Rightarrow> 0 | s # _ \<Rightarrow> sl_len s)"

definition tick_lease ::
  "tenant_view list \<Rightarrow> slice list \<Rightarrow> tenant_id \<Rightarrow> nat \<Rightarrow> (action list, arbiter_error) result option" where
  "tick_lease tenants slices holder bytes =
     (if slice_len slices = 0 \<or> bytes = 0 then Some (Ok [])
      else case checked_div_ceil bytes (slice_len slices) of
          None \<Rightarrow> None
        | Some need \<Rightarrow>
            let leased = ids_in Leased slices
            in
            if leased \<noteq> [] \<and>
               (\<exists>s \<in> set leased.
                  (case find (\<lambda>sl. sl_id sl = s) slices of Some sl \<Rightarrow> sl_tenant sl | None \<Rightarrow> None)
                    \<noteq> Some holder)
            then Some (Err LeaseConflict)
            else
              let free = ids_in Free slices;
                  available = length leased + length free
              in
              if available < need then
                let deficit = need - available
                in map_option (\<lambda>active. Ok (map (\<lambda>(slice, from, _). RevokeForLease slice from) (take deficit active)))
                     (checked_sort_by revoke_cmp (revocable tenants slices))
              else Some (Ok [GrantLease holder (take need (leased @ free))]))"

subsection \<open>Steps 2 to 5\<close>

definition tick_counterfactual ::
  "arbiter \<Rightarrow> instant \<Rightarrow> tenant_view list \<Rightarrow> (arbiter \<times> action list \<times> bool) option" where
  "tick_counterfactual ar now tenants =
     (case ar_last_move ar of
        None \<Rightarrow> Some (ar, [], False)
      | Some rec \<Rightarrow>
          if duration_since now (mr_at rec) > cfg_cf_window (ar_cfg ar) then
            Some (ar\<lparr>ar_last_move := None\<rparr>, [], False)
          else case owner_psi tenants (mr_from rec) of
              None \<Rightarrow> Some (ar, [], False)
            | Some from_now \<Rightarrow>
                if fp_gt from_now
                     (fp_mul f32 (cfg_cf_factor (ar_cfg ar)) (mr_from_psi_at_move rec)) \<and>
                   fp_gt from_now (cfg_psi_floor (ar_cfg ar))
                then case instant_add now (cfg_cf_cooldown (ar_cfg ar)) of
                    None \<Rightarrow> None
                  | Some until \<Rightarrow>
                      Some (ar\<lparr>ar_last_move := None, ar_cooldown_until := Some until,
                               ar_streak := 0\<rparr>,
                            [RevertMove (mr_slice rec) (mr_to rec) (mr_from rec)], True)
                else Some (ar, [], False))"

definition over_delta :: "arbiter \<Rightarrow> tenant_view list \<Rightarrow> bool" where
  "over_delta ar tenants =
     (case pressure_pair tenants of
        Some (_, _, d) \<Rightarrow> fp_gt d (cfg_delta_psi (ar_cfg ar))
      | None \<Rightarrow> False)"

definition tick_hysteresis :: "arbiter \<Rightarrow> tenant_view list \<Rightarrow> arbiter" where
  "tick_hysteresis ar tenants =
     (if over_delta ar tenants then ar\<lparr>ar_streak := wrapping_add u32_max (ar_streak ar) 1\<rparr>
      else ar\<lparr>ar_streak := 0\<rparr>)"

definition differential_eligible :: "arbiter \<Rightarrow> instant \<Rightarrow> slice list \<Rightarrow> bool \<Rightarrow> bool" where
  "differential_eligible ar now slices moved \<longleftrightarrow>
     \<not> moved \<and> ar_streak ar \<ge> cfg_streak (ar_cfg ar) \<and> \<not> cooldown_active ar now \<and>
     \<not> (\<exists>s \<in> set slices. sl_state s = Free)"

definition can_move :: "arbiter \<Rightarrow> tenant_view \<Rightarrow> bool" where
  "can_move ar donor \<longleftrightarrow>
     \<not> (fp_gt (view_psi donor) (cfg_psi_floor (ar_cfg ar)) \<and> tv_slices donor \<le> 1)"

definition tick_differential ::
  "arbiter \<Rightarrow> instant \<Rightarrow> tenant_view list \<Rightarrow> slice list \<Rightarrow> bool \<Rightarrow> (arbiter \<times> action list) option" where
  "tick_differential ar now tenants slices moved =
     (if \<not> differential_eligible ar now slices moved then Some (ar, [])
      else case pressure_pair tenants of
          None \<Rightarrow> Some (ar, [])
        | Some (receiver, donor, _) \<Rightarrow>
            if \<not> can_move ar donor then Some (ar, [])
            else case first_active_of slices (tv_id donor) of
                None \<Rightarrow> Some (ar, [])
              | Some slice \<Rightarrow>
                  (case instant_add now (cfg_cooldown (ar_cfg ar)) of
                     None \<Rightarrow> None
                   | Some until \<Rightarrow>
                       Some (ar\<lparr>ar_last_move := Some \<lparr>mr_slice = slice, mr_from = tv_id donor,
                                  mr_to = tv_id receiver, mr_at = now,
                                  mr_from_psi_at_move = view_psi donor\<rparr>,
                                ar_cooldown_until := Some until, ar_streak := 0\<rparr>,
                             [MoveSlice slice (tv_id donor) (tv_id receiver)])))"

fun round_robin :: "nat \<Rightarrow> tenant_view list \<Rightarrow> slice list \<Rightarrow> (nat \<times> action list) option" where
  "round_robin cursor tenants [] = Some (cursor, [])"
| "round_robin cursor tenants (s # ss) =
     (case Option.bind (checked_rem cursor (length tenants)) (nth_opt tenants) of
        None \<Rightarrow> None
      | Some view \<Rightarrow>
          map_option (\<lambda>(cursor', acts). (cursor', AssignFree (sl_id s) (tv_id view) # acts))
            (round_robin (wrapping_add u64_max cursor 1) tenants ss))"

definition tick ::
  "arbiter \<Rightarrow> instant \<Rightarrow> tenant_view list \<Rightarrow> slice list \<Rightarrow> (tenant_id \<times> nat) option \<Rightarrow>
   (arbiter \<times> (action list, arbiter_error) result) option" where
  "tick ar now tenants slices pending_lease =
     (case pending_lease of
        Some (holder, bytes) \<Rightarrow> map_option (Pair ar) (tick_lease tenants slices holder bytes)
      | None \<Rightarrow>
          (case tick_counterfactual ar now tenants of
             None \<Rightarrow> None
           | Some (ar1, acts1, moved) \<Rightarrow>
               let ar2 = tick_hysteresis ar1 tenants in
               (case tick_differential ar2 now tenants slices moved of
                  None \<Rightarrow> None
                | Some (ar3, acts2) \<Rightarrow>
                    if tenants = [] then Some (ar3, Ok (acts1 @ acts2))
                    else
                      map_option (\<lambda>(cursor, acts3). (ar3\<lparr>ar_rr_cursor := cursor\<rparr>, Ok (acts1 @ acts2 @ acts3)))
                        (round_robin (ar_rr_cursor ar3) tenants (filter (\<lambda>s. sl_state s = Free) slices)))))"

text \<open>With a tenant at hand the round robin does not panic; its actions and its cursor are these.\<close>

fun rr_total :: "nat \<Rightarrow> tenant_view list \<Rightarrow> slice list \<Rightarrow> nat \<times> action list" where
  "rr_total cursor tenants [] = (cursor, [])"
| "rr_total cursor tenants (s # ss) =
     (let to = tv_id (tenants ! (cursor mod length tenants));
          (cursor', acts) = rr_total (wrapping_add u64_max cursor 1) tenants ss
      in (cursor', AssignFree (sl_id s) to # acts))"

lemma round_robin_total: "tenants \<noteq> [] \<Longrightarrow> round_robin cursor tenants ss = Some (rr_total cursor tenants ss)"
  by (induction cursor tenants ss rule: rr_total.induct) (auto simp: checked_rem_def nth_opt_def split: prod.splits)

lemmas panic_defs = checked_div_ceil_def checked_sort_by_def

subsection \<open>Comparators\<close>

text \<open>
  Sorting and selecting by a comparison is right as long as the comparison is a total preorder on
  the elements at hand. The pressures are such a set when none is NaN.
\<close>

locale comparator_on =
  fixes A :: "'a set" and cmp :: "'a \<Rightarrow> 'a \<Rightarrow> ordering"
  assumes flip: "a \<in> A \<Longrightarrow> b \<in> A \<Longrightarrow> cmp a b = Greater \<Longrightarrow> cmp b a \<noteq> Greater"
    and le_trans: "a \<in> A \<Longrightarrow> b \<in> A \<Longrightarrow> c \<in> A \<Longrightarrow> cmp a b \<noteq> Greater \<Longrightarrow> cmp b c \<noteq> Greater \<Longrightarrow>
      cmp a c \<noteq> Greater"
begin

lemma set_insort_by: "set (insort_by cmp x xs) = insert x (set xs)"
  by (induction xs) auto

lemma set_sort_by: "set (sort_by cmp xs) = set xs"
  by (induction xs) (auto simp: sort_by_def set_insort_by)

lemma length_sort_by: "length (sort_by cmp xs) = length xs"
proof -
  have "length (insort_by cmp x ys) = Suc (length ys)" for x ys by (induction ys) auto
  then show ?thesis by (induction xs) (auto simp: sort_by_def)
qed

lemma distinct_sort_by: "distinct (map f xs) \<Longrightarrow> distinct (map f (sort_by cmp xs))"
proof (induction xs)
  case (Cons x xs)
  have "distinct (map f (insort_by cmp x ys))"
    if "distinct (map f ys)" "f x \<notin> f ` set ys" for ys
    using that by (induction ys) (auto simp: set_insort_by)
  moreover have "set (sort_by cmp xs) = set xs" by (rule set_sort_by)
  ultimately show ?case using Cons by (simp add: sort_by_def)
qed (simp add: sort_by_def)

lemma sorted_insort_by:
  "x \<in> A \<Longrightarrow> set xs \<subseteq> A \<Longrightarrow> sorted_wrt (\<lambda>a b. cmp a b \<noteq> Greater) xs \<Longrightarrow>
   sorted_wrt (\<lambda>a b. cmp a b \<noteq> Greater) (insort_by cmp x xs)"
proof (induction xs)
  case (Cons y ys)
  show ?case
  proof (cases "cmp x y = Greater")
    case True
    with Cons flip [of x y] show ?thesis by (simp add: set_insort_by)
  next
    case False
    have "cmp x z \<noteq> Greater" if "z \<in> set ys" for z
      using le_trans [of x y z] False that Cons.prems by auto
    with False Cons.prems show ?thesis by simp
  qed
qed simp

lemma sorted_sort_by:
  "set xs \<subseteq> A \<Longrightarrow> sorted_wrt (\<lambda>a b. cmp a b \<noteq> Greater) (sort_by cmp xs)"
proof (induction xs)
  case (Cons x xs)
  then show ?case
    using sorted_insort_by [of x "sort_by cmp xs"] set_sort_by [of xs] by (simp add: sort_by_def)
qed (simp add: sort_by_def)

lemma fold_max:
  "x \<in> A \<Longrightarrow> set xs \<subseteq> A \<Longrightarrow>
   (\<forall>y \<in> set (x # xs).
      cmp y (fold (\<lambda>y best. if cmp best y = Greater then best else y) xs x) \<noteq> Greater)"
proof (induction xs arbitrary: x)
  case Nil
  then show ?case using flip [of x x] by auto
next
  case (Cons z zs)
  let ?w = "if cmp x z = Greater then x else z"
  have mem: "fold (\<lambda>y best. if cmp best y = Greater then best else y) ys w \<in> insert w (set ys)"
    for ys w by (induction ys arbitrary: w) (auto split: if_splits)
  let ?m = "fold (\<lambda>y best. if cmp best y = Greater then best else y) zs ?w"
  have w: "?w \<in> A" using Cons.prems by simp
  have m: "?m \<in> A" using mem [of zs ?w] Cons.prems by (auto split: if_splits)
  from Cons.IH [OF w] Cons.prems(2) have IH: "\<forall>y \<in> set (?w # zs). cmp y ?m \<noteq> Greater" by simp
  have "cmp x ?w \<noteq> Greater" "cmp z ?w \<noteq> Greater"
    using flip [of x z] flip [of x x] flip [of z z] Cons.prems by auto
  with IH w m Cons.prems le_trans [of x ?w ?m] le_trans [of z ?w ?m] show ?case
    by (auto simp del: if_split)
qed

lemma max_by_greatest:
  "max_by cmp xs = Some m \<Longrightarrow> set xs \<subseteq> A \<Longrightarrow> \<forall>x \<in> set xs. cmp x m \<noteq> Greater"
  by (cases xs) (use fold_max in auto)

lemma consistent: "set xs \<subseteq> A \<Longrightarrow> consistent_cmp cmp xs"
  unfolding consistent_cmp_def using flip le_trans by blast

end

lemma max_by_mem: "max_by cmp xs = Some m \<Longrightarrow> m \<in> set xs"
proof -
  have "fold (\<lambda>y best. if cmp best y = Greater then best else y) ys w \<in> insert w (set ys)" for ys w
    by (induction ys arbitrary: w) (auto split: if_splits)
  then show "max_by cmp xs = Some m \<Longrightarrow> m \<in> set xs" by (cases xs) force+
qed

lemma min_by_mem: "min_by cmp xs = Some m \<Longrightarrow> m \<in> set xs"
proof -
  have "fold (\<lambda>y best. if cmp best y = Greater then y else best) ys w \<in> insert w (set ys)" for ys w
    by (induction ys arbitrary: w) (auto split: if_splits)
  then show "min_by cmp xs = Some m \<Longrightarrow> m \<in> set xs" by (cases xs) force+
qed

interpretation view_cmp: comparator_on "{t. view_psi t \<noteq> NaN}"
  "\<lambda>a b. by_psi (view_psi a) (view_psi b)"
proof
  fix a b c
  show "by_psi (view_psi a) (view_psi b) = Greater \<Longrightarrow> by_psi (view_psi b) (view_psi a) \<noteq> Greater"
    by (simp add: by_psi_def fp_lt_not_sym)
  assume "b \<in> {t. view_psi t \<noteq> NaN}" "by_psi (view_psi a) (view_psi b) \<noteq> Greater"
    "by_psi (view_psi b) (view_psi c) \<noteq> Greater"
  then show "by_psi (view_psi a) (view_psi c) \<noteq> Greater"
    using fp_not_lt_trans [of "view_psi b" "view_psi a" "view_psi c"] by (simp add: by_psi_def)
qed

lemma revoke_cmp_Greater:
  "revoke_cmp a b = Greater \<longleftrightarrow> fp_lt (snd (snd b)) (snd (snd a)) \<or>
     (\<not> fp_lt (snd (snd a)) (snd (snd b)) \<and> \<not> fp_lt (snd (snd b)) (snd (snd a)) \<and> fst b < fst a)"
  by (auto simp: revoke_cmp_def by_psi_def fp_cmp_def nat_cmp_def dest: fp_lt_not_sym)

interpretation revoke_cmp: comparator_on "{x :: slice_id \<times> tenant_id \<times> fp. snd (snd x) \<noteq> NaN}" revoke_cmp
proof
  fix a b :: "slice_id \<times> tenant_id \<times> fp"
  show "revoke_cmp a b = Greater \<Longrightarrow> revoke_cmp b a \<noteq> Greater"
    by (auto simp: revoke_cmp_Greater dest: fp_lt_not_sym)
next
  fix a b c :: "slice_id \<times> tenant_id \<times> fp"
  assume "a \<in> {x. snd (snd x) \<noteq> NaN}" "b \<in> {x. snd (snd x) \<noteq> NaN}" "c \<in> {x. snd (snd x) \<noteq> NaN}"
    and "revoke_cmp a b \<noteq> Greater" "revoke_cmp b c \<noteq> Greater"
  then have nan: "snd (snd a) \<noteq> NaN" "snd (snd b) \<noteq> NaN" "snd (snd c) \<noteq> NaN"
    and ab: "\<not> fp_lt (snd (snd b)) (snd (snd a))" and bc: "\<not> fp_lt (snd (snd c)) (snd (snd b))"
    and iab: "fp_lt (snd (snd a)) (snd (snd b)) \<or> fst a \<le> fst b"
    and ibc: "fp_lt (snd (snd b)) (snd (snd c)) \<or> fst b \<le> fst c"
    by (auto simp: revoke_cmp_Greater not_less)
  have "\<not> fp_lt (snd (snd c)) (snd (snd a))"
    using fp_not_lt_trans [OF ab bc nan(2)] .
  moreover have "fst a \<le> fst c" if ac: "\<not> fp_lt (snd (snd a)) (snd (snd c))"
    using fp_not_lt_trans [OF bc ac nan(3)] fp_not_lt_trans [OF ac ab nan(1)] iab ibc by simp
  ultimately show "revoke_cmp a c \<noteq> Greater"
    by (auto simp: revoke_cmp_Greater not_less)
qed

subsection \<open>What a pending lease gets\<close>

lemma ids_in_mem: "i \<in> set (ids_in st slices) \<longleftrightarrow> (\<exists>s \<in> set slices. sl_id s = i \<and> sl_state s = st)"
  by (auto simp: ids_in_def)

lemma distinct_ids_in: "distinct (map sl_id slices) \<Longrightarrow> distinct (ids_in st slices)"
  by (simp add: ids_in_def distinct_map_filter)

lemma ids_in_disjoint:
  assumes "distinct (map sl_id slices)" "st \<noteq> st'"
  shows "set (ids_in st slices) \<inter> set (ids_in st' slices) = {}"
proof -
  have False if "s \<in> set slices" "t \<in> set slices" "sl_id s = sl_id t" "sl_state s = st" "sl_state t = st'"
    for s t
    using that assms by (metis find_distinct_key option.inject)
  then show ?thesis by (auto simp: ids_in_def)
qed

lemma tick_lease_grant:
  assumes "tick_lease tenants slices holder bytes = Some (Ok acts)" "GrantLease h g \<in> set acts"
  shows "acts = [GrantLease holder g] \<and> h = holder \<and> 0 < slice_len slices \<and> 0 < bytes \<and>
    g = take (div_ceil bytes (slice_len slices)) (ids_in Leased slices @ ids_in Free slices) \<and>
    length g = div_ceil bytes (slice_len slices)"
  using assms by (auto simp: tick_lease_def panic_defs Let_def split: if_splits)

text \<open>
  When \<open>tick\<close> grants a pending lease, the grant is the only action, the arbiter's own state is
  unchanged, and the granted slices are distinct, free or already reserved, and exactly as many as
  needed: their bytes cover the request, and one slice fewer would not.
\<close>

theorem tick_grant_exact:
  assumes "tick ar now tenants slices (Some (holder, bytes)) = Some (ar', Ok acts)"
    and "GrantLease h g \<in> set acts" and "distinct (map sl_id slices)"
  shows "ar' = ar \<and> acts = [GrantLease holder g] \<and> distinct g \<and>
    (\<forall>i \<in> set g. \<exists>s \<in> set slices. sl_id s = i \<and> sl_state s \<in> {Free, Leased}) \<and>
    bytes \<le> length g * slice_len slices \<and> (length g - 1) * slice_len slices < bytes"
proof -
  from assms(1) have ar: "ar' = ar" and tl: "tick_lease tenants slices holder bytes = Some (Ok acts)"
    by (simp_all add: tick_def)
  from tick_lease_grant [OF tl assms(2)]
  have acts: "acts = [GrantLease holder g]" and pos: "0 < slice_len slices" "0 < bytes"
    and g: "g = take (div_ceil bytes (slice_len slices)) (ids_in Leased slices @ ids_in Free slices)"
    and len: "length g = div_ceil bytes (slice_len slices)" by blast+
  let ?all = "ids_in Leased slices @ ids_in Free slices"
  have "distinct ?all"
    using assms(3) by (simp add: distinct_ids_in ids_in_disjoint)
  with g have "distinct g" by (metis distinct_take)
  moreover have "set g \<subseteq> set ?all" using g by (metis set_take_subset)
  then have "\<forall>i \<in> set g. \<exists>s \<in> set slices. sl_id s = i \<and> sl_state s \<in> {Free, Leased}"
    by (fastforce simp: ids_in_mem)
  ultimately show ?thesis
    using div_ceil_upper [OF pos(1), of bytes] div_ceil_lower [OF pos(2,1)]
    unfolding len [symmetric] by (simp add: ar acts)
qed

theorem tick_grant_exact_witness:
  "let slices = [\<lparr>sl_id = 0, sl_offset = 0, sl_len = 4096, sl_tenant = Some 1, sl_state = Active\<rparr>,
                 \<lparr>sl_id = 1, sl_offset = 4096, sl_len = 4096, sl_tenant = None, sl_state = Free\<rparr>,
                 \<lparr>sl_id = 2, sl_offset = 8192, sl_len = 4096, sl_tenant = None, sl_state = Free\<rparr>]
   in tick (arbiter_new arbiter_config_default) 0 [] slices (Some (9, 5000)) =
        Some (arbiter_new arbiter_config_default, Ok [GrantLease 9 [1, 2]]) \<and>
      distinct [1, 2 :: nat] \<and> 5000 \<le> length [1, 2 :: nat] * slice_len slices"
proof -
  let ?slices = "[\<lparr>sl_id = 0, sl_offset = 0, sl_len = 4096, sl_tenant = Some 1, sl_state = Active\<rparr>,
     \<lparr>sl_id = 1, sl_offset = 4096, sl_len = 4096, sl_tenant = None, sl_state = Free\<rparr>,
     \<lparr>sl_id = 2, sl_offset = 8192, sl_len = 4096, sl_tenant = None, sl_state = Free\<rparr>] :: slice list"
  have t: "tick (arbiter_new arbiter_config_default) 0 [] ?slices (Some (9, 5000)) =
      Some (arbiter_new arbiter_config_default, Ok [GrantLease 9 [1, 2]])"
    by (simp add: tick_def tick_lease_def panic_defs slice_len_def ids_in_def div_ceil_def Let_def)
  from tick_grant_exact [OF t, of 9 "[1, 2]"] t show ?thesis
    by (simp only: Let_def) simp
qed

lemma revocable_mem:
  "(i, t, p) \<in> set (revocable tenants slices) \<longleftrightarrow>
   (\<exists>s \<in> set slices. sl_state s = Active \<and> sl_id s = i \<and> sl_tenant s = Some t \<and>
      p = unwrap_or (owner_psi tenants t) fp_zero)"
  by (auto simp: revocable_def set_filter_map split: option.splits)

lemma revocable_ids: "map fst (revocable tenants slices) =
    map sl_id (filter (\<lambda>s. sl_state s = Active \<and> sl_tenant s \<noteq> None) slices)"
  unfolding revocable_def by (induction slices) (auto split: option.splits)

definition owner_pressure :: "tenant_view list \<Rightarrow> tenant_id \<Rightarrow> fp" where
  "owner_pressure tenants t = unwrap_or (owner_psi tenants t) fp_zero"

lemma tick_lease_revoke:
  assumes "tick_lease tenants slices holder bytes = Some (Ok acts)" "RevokeForLease i t \<in> set acts"
  shows "acts = map (\<lambda>(slice, from, _). RevokeForLease slice from)
      (take (div_ceil bytes (slice_len slices) -
             (length (ids_in Leased slices) + length (ids_in Free slices)))
        (sort_by revoke_cmp (revocable tenants slices)))"
  using assms by (auto simp: tick_lease_def panic_defs Let_def split: if_splits)

lemma owner_pressure_number:
  "\<forall>v \<in> set tenants. view_psi v \<noteq> NaN \<Longrightarrow> owner_pressure tenants u \<noteq> NaN"
  by (cases "find (\<lambda>t. tv_id t = u) tenants")
    (auto simp: owner_pressure_def owner_psi_def view_psi_def dest!: find_Some_mem)

lemma revoke_list_distinct:
  "distinct (map sl_id slices) \<Longrightarrow> distinct (map fst (sort_by revoke_cmp (revocable tenants slices)))"
  by (intro revoke_cmp.distinct_sort_by) (simp add: revocable_ids distinct_map_filter)

lemma revoke_list_sorted:
  assumes "\<forall>v \<in> set tenants. view_psi v \<noteq> NaN"
  shows "sorted_wrt (\<lambda>a b. revoke_cmp a b \<noteq> Greater) (sort_by revoke_cmp (revocable tenants slices))"
proof -
  have "snd (snd x) \<noteq> NaN" if "x \<in> set (revocable tenants slices)" for x
    using that owner_pressure_number [OF assms]
    by (cases x rule: prod_cases3) (auto simp: revocable_mem owner_pressure_def)
  then show ?thesis by (intro revoke_cmp.sorted_sort_by) auto
qed

lemma distinct_revoke_actions:
  "distinct (map fst xs) \<Longrightarrow> distinct (map (\<lambda>(slice, from, _). RevokeForLease slice from) xs)"
proof (unfold distinct_map, elim conjE, intro conjI inj_onI)
  fix x y :: "slice_id \<times> tenant_id \<times> 'a"
  assume "inj_on fst (set xs)" "x \<in> set xs" "y \<in> set xs"
    and "(case x of (slice, from, _) \<Rightarrow> RevokeForLease slice from) =
         (case y of (slice, from, _) \<Rightarrow> RevokeForLease slice from)"
  then show "x = y" by (intro inj_onD [of fst "set xs" x y]) (auto split: prod.splits)
qed

text \<open>
  Revocation order: when \<open>tick\<close> revokes slices for a lease, every revoked slice is active and
  taken from its owner, no slice is revoked twice, exactly as many are revoked as the request
  lacks (or all active ones), and no owner whose slice is spared has less pressure than an owner
  whose slice is revoked.
\<close>

theorem tick_revoke_least_pressed:
  assumes tick: "tick ar now tenants slices (Some (holder, bytes)) = Some (ar', Ok acts)"
    and rev: "RevokeForLease i t \<in> set acts"
    and ids: "distinct (map sl_id slices)"
    and psi: "\<forall>v \<in> set tenants. view_psi v \<noteq> NaN"
  shows "ar' = ar \<and>
    (\<exists>s \<in> set slices. sl_id s = i \<and> sl_state s = Active \<and> sl_tenant s = Some t) \<and>
    distinct acts \<and>
    length acts = min (div_ceil bytes (slice_len slices) -
        (length (ids_in Leased slices) + length (ids_in Free slices)))
      (length (filter (\<lambda>s. sl_state s = Active \<and> sl_tenant s \<noteq> None) slices)) \<and>
    (\<forall>s \<in> set slices. \<forall>t'. sl_state s = Active \<and> sl_tenant s = Some t' \<and>
       RevokeForLease (sl_id s) t' \<notin> set acts \<longrightarrow>
       \<not> fp_lt (owner_pressure tenants t') (owner_pressure tenants t))"
proof -
  let ?sorted = "sort_by revoke_cmp (revocable tenants slices)"
  define n where "n = div_ceil bytes (slice_len slices) -
      (length (ids_in Leased slices) + length (ids_in Free slices))"
  from tick have ar: "ar' = ar" and tl: "tick_lease tenants slices holder bytes = Some (Ok acts)"
    by (simp_all add: tick_def)
  have acts: "acts = map (\<lambda>(slice, from, _). RevokeForLease slice from) (take n ?sorted)"
    using tick_lease_revoke [OF tl rev] by (simp add: n_def)
  have set_rev: "set ?sorted = set (revocable tenants slices)" by (rule revoke_cmp.set_sort_by)
  from rev acts obtain p where p: "(i, t, p) \<in> set (take n ?sorted)" by auto
  then have "(i, t, p) \<in> set (revocable tenants slices)" 
    using set_rev by (metis in_set_takeD)
  then have own: "\<exists>s \<in> set slices. sl_id s = i \<and> sl_state s = Active \<and> sl_tenant s = Some t"
    and p_eq: "p = owner_pressure tenants t"
    by (auto simp: revocable_mem owner_pressure_def)
  have dacts: "distinct acts"
    unfolding acts using revoke_list_distinct [OF ids, of tenants]
    by (intro distinct_revoke_actions) (simp add: take_map [symmetric])
  have len: "length acts = min n (length (filter (\<lambda>s. sl_state s = Active \<and> sl_tenant s \<noteq> None) slices))"
    using arg_cong [OF revocable_ids, of length tenants slices]
    by (simp add: acts revoke_cmp.length_sort_by)
  have spare: "\<not> fp_lt (owner_pressure tenants t') (owner_pressure tenants t)"
    if "s \<in> set slices" "sl_state s = Active" "sl_tenant s = Some t'"
      "RevokeForLease (sl_id s) t' \<notin> set acts" for s t'
  proof -
    let ?x = "(sl_id s, t', owner_pressure tenants t')"
    have "?x \<in> set ?sorted" using that set_rev by (auto simp: revocable_mem owner_pressure_def)
    moreover have "?x \<notin> set (take n ?sorted)" using that(4) acts by force
    ultimately have "?x \<in> set (drop n ?sorted)"
      using set_append [of "take n ?sorted" "drop n ?sorted"] by simp
    moreover have "sorted_wrt (\<lambda>a b. revoke_cmp a b \<noteq> Greater) (take n ?sorted @ drop n ?sorted)"
      using revoke_list_sorted [OF psi] by simp
    ultimately have "revoke_cmp (i, t, p) ?x \<noteq> Greater"
      unfolding sorted_wrt_append using p by blast
    then show ?thesis by (simp add: revoke_cmp_Greater p_eq)
  qed
  show ?thesis unfolding n_def [symmetric]
    by (intro conjI ballI allI impI; (elim conjE)?; (rule ar own dacts len spare; assumption?))
qed

theorem tick_revoke_least_pressed_witness:
  "let psi = \<lambda>p. \<lparr>ps_avg10 = Fin False p, ps_avg60 = fp_zero, ps_stall_us = 0\<rparr>;
       tenants = [\<lparr>tv_id = 1, tv_psi = psi 20, tv_slices = 1\<rparr>, \<lparr>tv_id = 2, tv_psi = psi 3, tv_slices = 1\<rparr>];
       slices = [\<lparr>sl_id = 0, sl_offset = 0, sl_len = 4096, sl_tenant = Some 1, sl_state = Active\<rparr>,
                 \<lparr>sl_id = 1, sl_offset = 4096, sl_len = 4096, sl_tenant = Some 2, sl_state = Active\<rparr>]
   in tick (arbiter_new arbiter_config_default) 0 tenants slices (Some (9, 100)) =
        Some (arbiter_new arbiter_config_default, Ok [RevokeForLease 1 2]) \<and>
      \<not> fp_lt (owner_pressure tenants 1) (owner_pressure tenants 2)"
proof -
  let ?psi = "\<lambda>p. \<lparr>ps_avg10 = Fin False p, ps_avg60 = fp_zero, ps_stall_us = 0\<rparr>"
  let ?tenants = "[\<lparr>tv_id = 1, tv_psi = ?psi 20, tv_slices = 1\<rparr>, \<lparr>tv_id = 2, tv_psi = ?psi 3, tv_slices = 1\<rparr>]"
  let ?slices = "[\<lparr>sl_id = 0, sl_offset = 0, sl_len = 4096, sl_tenant = Some 1, sl_state = Active\<rparr>,
     \<lparr>sl_id = 1, sl_offset = 4096, sl_len = 4096, sl_tenant = Some 2, sl_state = Active\<rparr>] :: slice list"
  have t: "tick (arbiter_new arbiter_config_default) 0 ?tenants ?slices (Some (9, 100)) =
      Some (arbiter_new arbiter_config_default, Ok [RevokeForLease 1 2])"
    by (simp add: tick_def tick_lease_def panic_defs slice_len_def ids_in_def div_ceil_def Let_def sort_by_def
        revocable_def owner_psi_def revoke_cmp.consistent revoke_cmp_def by_psi_def fp_cmp_def fp_value_def nat_cmp_def)
  from tick_revoke_least_pressed [OF t, of 1 2] t show ?thesis
    by (simp only: Let_def) (simp add: view_psi_def)
qed

subsection \<open>Movements\<close>

fun is_movement :: "action \<Rightarrow> bool" where
  "is_movement (MoveSlice _ _ _) = True"
| "is_movement (RevertMove _ _ _) = True"
| "is_movement _ = False"

lemma first_active_of_Some:
  "first_active_of slices owner = Some i \<Longrightarrow>
   \<exists>s \<in> set slices. sl_id s = i \<and> sl_state s = Active \<and> sl_tenant s = Some owner"
  by (auto simp: first_active_of_def dest!: find_Some_mem)

lemma pressure_pair_Some:
  assumes "pressure_pair tenants = Some (receiver, donor, d)"
  shows "receiver \<in> set tenants \<and> donor \<in> set tenants \<and> tv_id receiver \<noteq> tv_id donor \<and>
    1 \<le> tv_slices donor \<and> d = fp_sub f32 (view_psi receiver) (view_psi donor)"
proof -
  let ?cmp = "\<lambda>a b. by_psi (view_psi a) (view_psi b)"
  from assms have r: "max_by ?cmp tenants = Some receiver"
    and dn: "min_by ?cmp (filter (\<lambda>t. tv_slices t \<ge> 1 \<and> tv_id t \<noteq> tv_id receiver) tenants) = Some donor"
    and d: "d = fp_sub f32 (view_psi receiver) (view_psi donor)"
    by (auto simp: pressure_pair_def split: option.splits)
  with max_by_mem [OF r] min_by_mem [OF dn] show ?thesis by auto
qed

lemma tick_counterfactual_cases:
  assumes "tick_counterfactual ar now tenants = Some (ar1, acts, moved)"
  shows "ar_cfg ar1 = ar_cfg ar \<and> ar_rr_cursor ar1 = ar_rr_cursor ar \<and>
    ((\<not> moved \<and> acts = [] \<and> ar_streak ar1 = ar_streak ar \<and> ar_cooldown_until ar1 = ar_cooldown_until ar) \<or>
     (moved \<and> ar_streak ar1 = 0 \<and>
      ar_cooldown_until ar1 = Some (now + cfg_cf_cooldown (ar_cfg ar)) \<and>
      (\<exists>rec p. ar_last_move ar = Some rec \<and> acts = [RevertMove (mr_slice rec) (mr_to rec) (mr_from rec)] \<and>
         now - mr_at rec \<le> cfg_cf_window (ar_cfg ar) \<and> owner_psi tenants (mr_from rec) = Some p \<and>
         fp_lt (cfg_psi_floor (ar_cfg ar)) p)))"
  using assms
  by (auto simp: tick_counterfactual_def instant_add_Some_iff duration_since_def
      split: option.splits if_splits)

lemma tick_hysteresis_simps [simp]:
  "ar_cfg (tick_hysteresis ar tenants) = ar_cfg ar"
  "ar_rr_cursor (tick_hysteresis ar tenants) = ar_rr_cursor ar"
  "ar_cooldown_until (tick_hysteresis ar tenants) = ar_cooldown_until ar"
  by (simp_all add: tick_hysteresis_def)

lemma tick_differential_cases:
  assumes "tick_differential ar now tenants slices moved = Some (ar', acts)"
  shows "ar_cfg ar' = ar_cfg ar \<and> ar_rr_cursor ar' = ar_rr_cursor ar \<and>
    ((acts = [] \<and> ar' = ar) \<or>
     (\<exists>receiver donor d i. \<not> moved \<and> differential_eligible ar now slices False \<and>
        pressure_pair tenants = Some (receiver, donor, d) \<and> can_move ar donor \<and>
        first_active_of slices (tv_id donor) = Some i \<and>
        acts = [MoveSlice i (tv_id donor) (tv_id receiver)] \<and> ar_streak ar' = 0 \<and>
        ar_cooldown_until ar' = Some (now + cfg_cooldown (ar_cfg ar))))"
  using assms
  by (auto simp: tick_differential_def instant_add_Some_iff differential_eligible_def
      split: option.splits if_splits)

lemma round_robin_actions:
  "snd (rr_total cursor tenants ss) =
   map2 (\<lambda>k s. AssignFree (sl_id s) (tv_id (tenants ! (k mod length tenants))))
     (map (\<lambda>k. (cursor + k) mod (u64_max + 1)) [0..<length ss]) ss"
  if "cursor \<le> u64_max"
  using that
proof (induction cursor tenants ss rule: rr_total.induct)
  case (2 cursor tenants s ss)
  let ?c = "wrapping_add u64_max cursor 1"
  have c: "?c \<le> u64_max" by (simp add: wrapping_add_def less_Suc_eq_le [symmetric])
  have shift: "map (\<lambda>k. (cursor + k) mod (u64_max + 1)) [0..<length (s # ss)] =
      cursor # map (\<lambda>k. (?c + k) mod (u64_max + 1)) [0..<length ss]"
    using "2.prems"
    by (simp add: upt_conv_Cons map_Suc_upt [symmetric] wrapping_add_def mod_add_left_eq
        del: upt_Suc)
  show ?case
    using "2.IH" [OF refl c] unfolding shift
    by (simp add: Let_def case_prod_beta)
qed simp

text \<open>The three parts of a tick without a pending lease.\<close>

lemma tick_rebalance:
  assumes "tick ar now tenants slices None = Some (ar', r)"
  obtains ar1 acts1 moved ar3 acts2 acts3 where
    "tick_counterfactual ar now tenants = Some (ar1, acts1, moved)"
    "tick_differential (tick_hysteresis ar1 tenants) now tenants slices moved = Some (ar3, acts2)"
    "r = Ok (acts1 @ acts2 @ acts3)"
    "acts3 = (if tenants = [] then []
       else snd (rr_total (ar_rr_cursor ar3) tenants (filter (\<lambda>s. sl_state s = Free) slices)))"
    "ar_cfg ar' = ar_cfg ar3 \<and> ar_streak ar' = ar_streak ar3 \<and> ar_last_move ar' = ar_last_move ar3 \<and>
     ar_cooldown_until ar' = ar_cooldown_until ar3"
  using assms
  by (auto simp: tick_def Let_def round_robin_total split: option.splits prod.splits if_splits)

lemma round_robin_assigns: "a \<in> set (snd (rr_total cursor tenants ss)) \<Longrightarrow>
    \<exists>i t. a = AssignFree i t"
  by (induction cursor tenants ss rule: rr_total.induct) (auto simp: Let_def split: prod.splits)


lemma tick_no_pending_parts:
  assumes "tick ar now tenants slices None = Some (ar', Ok acts)"
  shows "filter is_movement acts = [] \<or>
    (\<exists>i f t. filter is_movement acts = [MoveSlice i f t] \<or> filter is_movement acts = [RevertMove i f t])"
proof -
  from assms obtain ar1 acts1 moved ar3 acts2 acts3 where
    cf: "tick_counterfactual ar now tenants = Some (ar1, acts1, moved)"
    and df: "tick_differential (tick_hysteresis ar1 tenants) now tenants slices moved = Some (ar3, acts2)"
    and acts: "acts = acts1 @ acts2 @ acts3"
    and rr: "acts3 = (if tenants = [] then []
       else snd (rr_total (ar_rr_cursor ar3) tenants (filter (\<lambda>s. sl_state s = Free) slices)))"
    by (elim tick_rebalance) auto
  have "filter is_movement acts3 = []"
    using rr by (auto simp: filter_empty_conv dest!: round_robin_assigns split: if_splits)
  with tick_counterfactual_cases [OF cf] tick_differential_cases [OF df] show ?thesis
    by (auto simp: acts)
qed

lemma tick_MoveSlice:
  assumes "tick ar now tenants slices None = Some (ar', Ok acts)" "MoveSlice i f t \<in> set acts"
  shows "\<exists>receiver donor. pressure_pair tenants =
      Some (receiver, donor, fp_sub f32 (view_psi receiver) (view_psi donor)) \<and>
    f = tv_id donor \<and> t = tv_id receiver \<and> first_active_of slices f = Some i \<and>
    \<not> cooldown_active ar now \<and> (\<forall>s \<in> set slices. sl_state s \<noteq> Free) \<and>
    (fp_lt (cfg_psi_floor (ar_cfg ar)) (view_psi donor) \<longrightarrow> 1 < tv_slices donor) \<and>
    (0 < cfg_streak (ar_cfg ar) \<longrightarrow> over_delta ar tenants) \<and>
    cfg_streak (ar_cfg ar) \<le> Suc (ar_streak ar) \<and>
    ar_cooldown_until ar' = Some (now + cfg_cooldown (ar_cfg ar))"
proof -
  from assms(1) obtain ar1 acts1 moved ar3 acts2 acts3 where
    cf: "tick_counterfactual ar now tenants = Some (ar1, acts1, moved)"
    and df: "tick_differential (tick_hysteresis ar1 tenants) now tenants slices moved = Some (ar3, acts2)"
    and acts: "acts = acts1 @ acts2 @ acts3"
    and rr: "acts3 = (if tenants = [] then []
       else snd (rr_total (ar_rr_cursor ar3) tenants (filter (\<lambda>s. sl_state s = Free) slices)))"
    and ar': "ar_cooldown_until ar' = ar_cooldown_until ar3"
    by (elim tick_rebalance) auto
  let ?h = "tick_hysteresis ar1 tenants"
  have "MoveSlice i f t \<notin> set acts3"
    using rr by (auto dest!: round_robin_assigns split: if_splits)
  moreover have "MoveSlice i f t \<notin> set acts1" using tick_counterfactual_cases [OF cf] by auto
  ultimately have "MoveSlice i f t \<in> set acts2" using assms(2) acts by simp
  with tick_differential_cases [OF df] obtain receiver donor d where
    d: "\<not> moved" "differential_eligible ?h now slices False"
      "pressure_pair tenants = Some (receiver, donor, d)" "can_move ?h donor"
      "first_active_of slices f = Some i" "f = tv_id donor" "t = tv_id receiver"
      "ar_cooldown_until ar3 = Some (now + cfg_cooldown (ar_cfg ar1))" by auto
  from tick_counterfactual_cases [OF cf] d(1) have same: "ar_cfg ar1 = ar_cfg ar"
    "ar_streak ar1 = ar_streak ar" "ar_cooldown_until ar1 = ar_cooldown_until ar" by auto
  have "over_delta ar1 tenants = over_delta ar tenants" unfolding over_delta_def same ..
  then have "0 < cfg_streak (ar_cfg ar) \<longrightarrow> over_delta ar tenants"
    and "cfg_streak (ar_cfg ar) \<le> Suc (ar_streak ar)"
    using d(2) by (auto simp: differential_eligible_def tick_hysteresis_def same wrapping_add_def
        split: if_splits intro: order_trans [OF _ mod_less_eq_dividend])
  moreover have "\<not> cooldown_active ar now"
    using d(2) by (simp add: differential_eligible_def cooldown_active_def same)
  ultimately show ?thesis
    using d ar' pressure_pair_Some [OF d(3)]
    by (auto simp: can_move_def differential_eligible_def same not_le)
qed

text \<open>
  C16. Without a pending lease a tick moves at most one slice, by a rebalance or by a revert. A
  rebalance takes an active slice of a present donor to a different present receiver, only
  outside the cooldown and when no slice is free, only when the pressure difference exceeds the
  threshold, and never the last slice of a donor that is itself under pressure.
\<close>

theorem tick_movement_rules:
  assumes "tick ar now tenants slices None = Some (ar', Ok acts)"
  shows "length (filter is_movement acts) \<le> 1 \<and>
    (\<forall>i f t. MoveSlice i f t \<in> set acts \<and> 0 < cfg_streak (ar_cfg ar) \<longrightarrow>
      f \<noteq> t \<and> \<not> cooldown_active ar now \<and> (\<forall>s \<in> set slices. sl_state s \<noteq> Free) \<and>
      (\<exists>s \<in> set slices. sl_id s = i \<and> sl_state s = Active \<and> sl_tenant s = Some f) \<and>
      (\<exists>receiver \<in> set tenants. \<exists>donor \<in> set tenants. tv_id receiver = t \<and> tv_id donor = f \<and>
         fp_lt (cfg_delta_psi (ar_cfg ar)) (fp_sub f32 (view_psi receiver) (view_psi donor)) \<and>
         (fp_lt (cfg_psi_floor (ar_cfg ar)) (view_psi donor) \<longrightarrow> 2 \<le> tv_slices donor)))"
proof (intro conjI allI impI)
  show "length (filter is_movement acts) \<le> 1"
    using tick_no_pending_parts [OF assms] by auto
next
  fix i f t
  assume "MoveSlice i f t \<in> set acts \<and> 0 < cfg_streak (ar_cfg ar)"
  then have m: "MoveSlice i f t \<in> set acts" and pos: "0 < cfg_streak (ar_cfg ar)" by simp_all
  from tick_MoveSlice [OF assms m] pos obtain receiver donor where
    pair: "pressure_pair tenants = Some (receiver, donor, fp_sub f32 (view_psi receiver) (view_psi donor))"
    and ids: "f = tv_id donor" "t = tv_id receiver" and act: "first_active_of slices f = Some i"
    and cool: "\<not> cooldown_active ar now" and free: "\<forall>s \<in> set slices. sl_state s \<noteq> Free"
    and zero: "fp_lt (cfg_psi_floor (ar_cfg ar)) (view_psi donor) \<longrightarrow> 1 < tv_slices donor"
    and over: "over_delta ar tenants" by blast
  note pp = pressure_pair_Some [OF pair]
  show "f \<noteq> t" "\<not> cooldown_active ar now" "\<forall>s \<in> set slices. sl_state s \<noteq> Free"
    "\<exists>s \<in> set slices. sl_id s = i \<and> sl_state s = Active \<and> sl_tenant s = Some f"
    using pp ids cool free first_active_of_Some [OF act] by auto
  have "fp_lt (cfg_delta_psi (ar_cfg ar)) (fp_sub f32 (view_psi receiver) (view_psi donor))"
    using over pair by (simp add: over_delta_def)
  with pp ids zero show "\<exists>receiver \<in> set tenants. \<exists>donor \<in> set tenants. tv_id receiver = t \<and>
      tv_id donor = f \<and>
      fp_lt (cfg_delta_psi (ar_cfg ar)) (fp_sub f32 (view_psi receiver) (view_psi donor)) \<and>
      (fp_lt (cfg_psi_floor (ar_cfg ar)) (view_psi donor) \<longrightarrow> 2 \<le> tv_slices donor)"
    by (intro bexI [of _ receiver] bexI [of _ donor]) auto
qed


definition pressed_view :: "tenant_id \<Rightarrow> rat \<Rightarrow> nat \<Rightarrow> tenant_view" where
  "pressed_view t p n =
     \<lparr>tv_id = t, tv_psi = \<lparr>ps_avg10 = Fin False p, ps_avg60 = fp_zero, ps_stall_us = 0\<rparr>, tv_slices = n\<rparr>"

theorem tick_movement_rules_witness:
  "let ar = (arbiter_new arbiter_config_default)\<lparr>ar_streak := 4\<rparr>;
       slices = [\<lparr>sl_id = 0, sl_offset = 0, sl_len = 4096, sl_tenant = Some 1, sl_state = Active\<rparr>,
                 \<lparr>sl_id = 1, sl_offset = 4096, sl_len = 4096, sl_tenant = Some 2, sl_state = Active\<rparr>]
   in (\<exists>ar'. tick ar 0 [pressed_view 1 2 1, pressed_view 2 16 1] slices None =
         Some (ar', Ok [MoveSlice 0 1 2])) \<and>
      \<not> cooldown_active ar 0 \<and> length (filter is_movement [MoveSlice 0 1 2]) \<le> 1"
proof -
  let ?ar = "(arbiter_new arbiter_config_default)\<lparr>ar_streak := 4\<rparr>"
  let ?slices = "[\<lparr>sl_id = 0, sl_offset = 0, sl_len = 4096, sl_tenant = Some 1, sl_state = Active\<rparr>,
     \<lparr>sl_id = 1, sl_offset = 4096, sl_len = 4096, sl_tenant = Some 2, sl_state = Active\<rparr>] :: slice list"
  have "fp_lt (Fin False 10) (fp_sub f32 (Fin False 16) (Fin False 2))"
    by code_simp
  then have "\<exists>ar'. tick ?ar 0 [pressed_view 1 2 1, pressed_view 2 16 1] ?slices None =
      Some (ar', Ok [MoveSlice 0 1 2])"
    by (simp add: tick_def tick_counterfactual_def tick_hysteresis_def tick_differential_def
        differential_eligible_def over_delta_def pressure_pair_def pressed_view_def view_psi_def
        by_psi_def fp_cmp_def fp_value_def arbiter_new_def arbiter_config_default_def can_move_def
        first_active_of_def cooldown_active_def wrapping_add_def u32_max_def instant_add_def
        checked_add_def instant_max_def from_secs_def)
  then obtain ar' where t: "tick ?ar 0 [pressed_view 1 2 1, pressed_view 2 16 1] ?slices None =
      Some (ar', Ok [MoveSlice 0 1 2])" ..
  moreover have "0 < cfg_streak (ar_cfg ?ar)"
    by (simp add: arbiter_new_def arbiter_config_default_def)
  ultimately show ?thesis
    using tick_movement_rules [OF t] by (simp only: Let_def) auto
qed

subsection \<open>Fairness of the round robin\<close>

definition residue_count :: "nat \<Rightarrow> nat \<Rightarrow> nat \<Rightarrow> nat \<Rightarrow> nat" where
  "residue_count n j c m = length (filter (\<lambda>k. (c + k) mod n = j) [0..<m])"

lemma residue_count_add:
  "residue_count n j c (a + b) = residue_count n j c a + residue_count n j (c + a) b"
proof -
  have split: "[0..<a + b] = [0..<a] @ map (\<lambda>k. k + a) [0..<b]"
    using upt_add_eq_append [of 0 a b] by (simp add: map_add_upt add.commute)
  have "(c + (k + a)) mod n = (c + a + k) mod n" for k by (simp add: ac_simps)
  then show ?thesis
    unfolding residue_count_def split filter_append length_append by (simp add: filter_map comp_def)
qed

lemma residue_count_small:
  assumes "m \<le> n"
  shows "residue_count n j c m \<le> 1"
proof -
  have le: "k' = k" if k: "k \<le> k'" "k' < n" "(c + k) mod n = j" "(c + k') mod n = j" for k k'
  proof -
    have "n dvd (c + k') - (c + k)"
      using k mod_eq_dvd_iff_nat [of "c + k" "c + k'" n] by simp
    then show ?thesis using k by (auto dest: dvd_imp_le)
  qed
  have eq: "k = k'" if "k < n" "k' < n" "(c + k) mod n = j" "(c + k') mod n = j" for k k'
    using that le [of k k'] le [of k' k] by (cases "k \<le> k'") auto
  let ?xs = "filter (\<lambda>k. (c + k) mod n = j) [0..<m]"
  have "card (set ?xs) \<le> 1"
    by (rule card_le_Suc0_iff_eq [THEN iffD2, simplified One_nat_def [symmetric]]) (use assms eq in auto)
  moreover have "card (set ?xs) = length ?xs" by (rule distinct_card) simp
  ultimately show ?thesis by (simp only: residue_count_def)
qed

lemma residue_count_full:
  assumes "j < n"
  shows "residue_count n j c n = 1"
proof -
  let ?k = "(j + (n - c mod n)) mod n"
  have "(c + ?k) mod n = (c mod n + (j + (n - c mod n))) mod n" by (simp add: mod_simps)
  also have "c mod n + (j + (n - c mod n)) = j + n"
    using mod_less_divisor [of n c] assms by linarith
  also have "(j + n) mod n = j" using assms by simp
  finally have "?k \<in> set (filter (\<lambda>k. (c + k) mod n = j) [0..<n])" using assms by simp
  then have "0 < residue_count n j c n" unfolding residue_count_def by (metis length_pos_if_in_set)
  then show ?thesis using residue_count_small [of n n j c] by simp
qed

lemma residue_count_bounds:
  assumes "j < n"
  shows "m div n \<le> residue_count n j c m \<and> residue_count n j c m \<le> m div n + 1"
proof -
  have whole: "residue_count n j c (q * n) = q" for q c
  proof (induction q arbitrary: c)
    case (Suc q)
    then show ?case by (simp add: residue_count_add residue_count_full [OF assms])
  qed (simp add: residue_count_def)
  have "residue_count n j c m = m div n + residue_count n j (c + m div n * n) (m mod n)"
    using residue_count_add [of n j c "m div n * n" "m mod n"] whole [of c "m div n"] by simp
  moreover have "residue_count n j (c + m div n * n) (m mod n) \<le> 1"
    using assms by (intro residue_count_small) (simp add: less_imp_le)
  ultimately show ?thesis by simp
qed

definition assigned_to :: "tenant_id \<Rightarrow> action list \<Rightarrow> nat" where
  "assigned_to t acts = length (filter (\<lambda>a. case a of AssignFree _ u \<Rightarrow> u = t | _ \<Rightarrow> False) acts)"

lemma assigned_to_map2:
  "length ks = length ss \<Longrightarrow>
   assigned_to t (map2 (\<lambda>k s. AssignFree (g s) (h k)) ks ss) = length (filter (\<lambda>k. h k = t) ks)"
  by (induction ks ss rule: list_induct2) (auto simp: assigned_to_def)

lemma assigned_to_round_robin:
  assumes j: "j < length tenants" and d: "distinct (map tv_id tenants)"
    and c: "cursor + length ss \<le> u64_max"
  shows "assigned_to (tv_id (tenants ! j)) (snd (rr_total cursor tenants ss)) =
    residue_count (length tenants) j cursor (length ss)"
proof -
  let ?n = "length tenants"
  have idx: "tv_id (tenants ! (k mod ?n)) = tv_id (tenants ! j) \<longleftrightarrow> k mod ?n = j" for k
    using nth_eq_iff_index_eq [OF d, of "k mod ?n" j] j mod_less_divisor [of ?n k]
    by (cases "?n = 0") auto
  have keys: "map (\<lambda>k. (cursor + k) mod (u64_max + 1)) [0..<length ss] = map (\<lambda>k. cursor + k) [0..<length ss]"
    using c by (intro map_cong refl) (simp add: mod_less)
  have "snd (rr_total cursor tenants ss) =
      map2 (\<lambda>k s. AssignFree (sl_id s) (tv_id (tenants ! (k mod ?n)))) (map (\<lambda>k. cursor + k) [0..<length ss]) ss"
    using round_robin_actions [of cursor tenants ss] c unfolding keys by simp
  then have "assigned_to (tv_id (tenants ! j)) (snd (rr_total cursor tenants ss)) =
      length (filter (\<lambda>k. tv_id (tenants ! (k mod ?n)) = tv_id (tenants ! j)) (map (\<lambda>k. cursor + k) [0..<length ss]))"
    by (simp only: assigned_to_map2 length_map length_upt diff_zero)
  also have "\<dots> = residue_count ?n j cursor (length ss)"
    unfolding residue_count_def filter_map length_map idx comp_def ..
  finally show ?thesis .
qed

text \<open>
  The round robin is fair: the free slices of a tick are each assigned exactly once, in order,
  and with \<open>m\<close> free slices and \<open>n\<close> present tenants every tenant gets \<open>m div n\<close> or one more.
\<close>

theorem tick_round_robin_fair:
  assumes "tick ar now tenants slices None = Some (ar', Ok acts)"
    and "v \<in> set tenants" "distinct (map tv_id tenants)"
    and "ar_rr_cursor ar + length (ids_in Free slices) \<le> u64_max"
  shows "concat (map (\<lambda>a. case a of AssignFree i _ \<Rightarrow> [i] | _ \<Rightarrow> []) acts) = ids_in Free slices \<and>
    length (ids_in Free slices) div length tenants \<le> assigned_to (tv_id v) acts \<and>
    assigned_to (tv_id v) acts \<le> length (ids_in Free slices) div length tenants + 1"
proof -
  let ?free = "filter (\<lambda>s. sl_state s = Free) slices"
  let ?ids = "\<lambda>acts. concat (map (\<lambda>a. case a of AssignFree i _ \<Rightarrow> [i] | _ \<Rightarrow> []) acts)"
  from assms(1) obtain ar1 acts1 moved ar3 acts2 acts3 where
    cf: "tick_counterfactual ar now tenants = Some (ar1, acts1, moved)"
    and df: "tick_differential (tick_hysteresis ar1 tenants) now tenants slices moved = Some (ar3, acts2)"
    and acts: "acts = acts1 @ acts2 @ acts3"
    and rr: "acts3 = (if tenants = [] then [] else snd (rr_total (ar_rr_cursor ar3) tenants ?free))"
    by (elim tick_rebalance) auto
  from tick_counterfactual_cases [OF cf] tick_differential_cases [OF df]
  have cursor: "ar_rr_cursor ar3 = ar_rr_cursor ar" and other: "assigned_to t acts1 = 0"
    "assigned_to t acts2 = 0" "?ids acts1 = []" "?ids acts2 = []" for t
    by (auto simp: assigned_to_def)
  obtain j where j: "j < length tenants" "v = tenants ! j"
    using assms(2) by (auto simp: in_set_conv_nth)
  have ids: "?ids (snd (rr_total c tenants ss)) = map sl_id ss" for c ss
    by (induction c tenants ss rule: rr_total.induct) (auto simp: Let_def case_prod_beta)
  have len: "length (ids_in Free slices) = length ?free" by (simp add: ids_in_def)
  have "assigned_to (tv_id v) acts = residue_count (length tenants) j (ar_rr_cursor ar) (length ?free)"
    using assigned_to_round_robin [OF j(1) assms(3), of "ar_rr_cursor ar" ?free] assms(4) j other
    by (auto simp: acts rr cursor len assigned_to_def)
  moreover have "?ids acts = ids_in Free slices"
    using other j ids by (auto simp: acts rr ids_in_def)
  ultimately show ?thesis
    using residue_count_bounds [OF j(1), of "length ?free" "ar_rr_cursor ar"] by (simp only: len)
qed


theorem tick_round_robin_fair_witness:
  "let ar = arbiter_new arbiter_config_default;
       free = \<lambda>i. \<lparr>sl_id = i, sl_offset = i * 4096, sl_len = 4096, sl_tenant = None, sl_state = Free\<rparr>;
       acts = [AssignFree 0 1, AssignFree 1 2, AssignFree 2 1]
   in (\<exists>ar'. tick ar 0 [pressed_view 1 2 0, pressed_view 2 2 0] [free 0, free 1, free 2] None =
         Some (ar', Ok acts)) \<and>
      1 \<le> assigned_to 2 acts \<and> assigned_to 2 acts \<le> 2"
proof -
  let ?ar = "arbiter_new arbiter_config_default"
  let ?free = "\<lambda>i. \<lparr>sl_id = i, sl_offset = i * 4096, sl_len = 4096, sl_tenant = None, sl_state = Free\<rparr>"
  let ?acts = "[AssignFree 0 1, AssignFree 1 2, AssignFree 2 1]"
  have "\<exists>ar'. tick ?ar 0 [pressed_view 1 2 0, pressed_view 2 2 0] [?free 0, ?free 1, ?free 2] None =
      Some (ar', Ok ?acts)"
    by (simp add: tick_def tick_counterfactual_def tick_hysteresis_def tick_differential_def
        differential_eligible_def over_delta_def pressure_pair_def pressed_view_def view_psi_def
        by_psi_def fp_cmp_def fp_value_def arbiter_new_def arbiter_config_default_def
        round_robin_total wrapping_add_def u64_max_def del: round_robin.simps)
  then obtain ar' where t: "tick ?ar 0 [pressed_view 1 2 0, pressed_view 2 2 0]
      [?free 0, ?free 1, ?free 2] None = Some (ar', Ok ?acts)" ..
  have f: "length (ids_in Free [?free 0, ?free 1, ?free 2]) = 3" by (simp add: ids_in_def)
  have "ar_rr_cursor ?ar + length (ids_in Free [?free 0, ?free 1, ?free 2]) \<le> u64_max"
    unfolding f by (simp add: arbiter_new_def u64_max_def)
  from tick_round_robin_fair [OF t _ _ this, of "pressed_view 2 2 0"]
  have "1 \<le> assigned_to 2 ?acts \<and> assigned_to 2 ?acts \<le> 2"
    unfolding f by (simp add: pressed_view_def numeral_2_eq_2 [symmetric])
  with t show ?thesis by (simp only: Let_def) blast
qed

subsection \<open>Spacing of the movements\<close>

type_synonym tick_input = "instant \<times> tenant_view list \<times> slice list \<times> (tenant_id \<times> nat) option"

definition rebalances :: "(action list, arbiter_error) result \<Rightarrow> bool" where
  "rebalances r = (case r of Ok acts \<Rightarrow> list_ex (\<lambda>a. case a of MoveSlice _ _ _ \<Rightarrow> True | _ \<Rightarrow> False) acts
                   | Err _ \<Rightarrow> False)"

text \<open>The instants of the ticks of a run that move a slice; the run stops at a panic.\<close>

fun move_times :: "arbiter \<Rightarrow> tick_input list \<Rightarrow> instant list" where
  "move_times ar [] = []"
| "move_times ar ((now, tenants, slices, pending) # ins) =
     (case tick ar now tenants slices pending of
        None \<Rightarrow> []
      | Some (ar', r) \<Rightarrow> (if rebalances r then [now] else []) @ move_times ar' ins)"

lemma rebalances_Ok: "rebalances (Ok acts) \<longleftrightarrow> (\<exists>i f t. MoveSlice i f t \<in> set acts)"
proof -
  have "list_ex (\<lambda>a. case a of MoveSlice _ _ _ \<Rightarrow> True | _ \<Rightarrow> False) acts \<longleftrightarrow>
      (\<exists>i f t. MoveSlice i f t \<in> set acts)"
    by (induction acts) (auto split: action.splits)
  then show ?thesis by (simp add: rebalances_def)
qed

lemma tick_lease_no_move: "tick_lease tenants slices holder bytes = Some r \<Longrightarrow> \<not> rebalances r"
  by (auto simp: rebalances_def tick_lease_def panic_defs Let_def list_ex_iff split: option.splits if_splits)

lemma tick_cooldown:
  assumes "tick ar now tenants slices pending = Some (ar', r)"
  shows "ar_cfg ar' = ar_cfg ar \<and>
    (if rebalances r then \<not> cooldown_active ar now \<and>
       ar_cooldown_until ar' = Some (now + cfg_cooldown (ar_cfg ar))
     else ar_cooldown_until ar' \<in>
       {ar_cooldown_until ar, Some (now + cfg_cf_cooldown (ar_cfg ar))})"
proof (cases pending)
  case (Some p)
  with assms show ?thesis by (auto simp: tick_def tick_lease_no_move split: prod.splits)
next
  case None
  with assms have t: "tick ar now tenants slices None = Some (ar', r)" by simp
  then obtain ar1 acts1 moved ar3 acts2 acts3 where
    cf: "tick_counterfactual ar now tenants = Some (ar1, acts1, moved)"
    and df: "tick_differential (tick_hysteresis ar1 tenants) now tenants slices moved = Some (ar3, acts2)"
    and r: "r = Ok (acts1 @ acts2 @ acts3)"
    and ar': "ar_cfg ar' = ar_cfg ar3" "ar_cooldown_until ar' = ar_cooldown_until ar3"
    by (elim tick_rebalance) auto
  note parts = tick_counterfactual_cases [OF cf] tick_differential_cases [OF df]
  show ?thesis
  proof (cases "rebalances r")
    case True
    then obtain i f u where "MoveSlice i f u \<in> set (acts1 @ acts2 @ acts3)"
      by (auto simp: r rebalances_Ok)
    from tick_MoveSlice [OF t [unfolded r] this] True parts ar' show ?thesis by auto
  next
    case False
    then have "acts2 = []" using parts(2) by (fastforce simp: r rebalances_Ok)
    with parts ar' False show ?thesis by auto
  qed
qed

lemma move_times_after:
  assumes "ar_cooldown_until ar = Some w" "u \<le> w"
    and "cfg_cooldown (ar_cfg ar) \<le> cfg_cf_cooldown (ar_cfg ar)"
    and "\<forall>(now, _) \<in> set ins. u \<le> now + cfg_cf_cooldown (ar_cfg ar)"
  shows "\<forall>t \<in> set (move_times ar ins). u \<le> t"
  using assms
proof (induction ar ins arbitrary: w rule: move_times.induct)
  case (2 ar now tenants slices pending ins)
  show ?case
  proof (cases "tick ar now tenants slices pending")
    case (Some res)
    then obtain ar' r where t: "tick ar now tenants slices pending = Some (ar', r)"
      by (cases res) auto
    note cd = tick_cooldown [OF t]
    have "rebalances r \<Longrightarrow> u \<le> now"
      using cd "2.prems" by (auto simp: cooldown_active_def)
    moreover obtain w' where "ar_cooldown_until ar' = Some w'" "u \<le> w'"
      using cd "2.prems" calculation by (cases "rebalances r") (auto simp: trans_le_add1)
    then have "\<forall>t \<in> set (move_times ar' ins). u \<le> t"
      using cd "2.prems" by (intro "2.IH" [OF t refl]) auto
    ultimately show ?thesis by (auto simp: t)
  qed simp
qed simp

text \<open>
  Rebalancing respects the cooldown over a whole run: whatever the tenants, slices and leases
  of the ticks are, two movements are at least one cooldown apart, as long as the clock does not
  run backwards and the cooldown after a revert is no shorter than the normal one.
\<close>

theorem moves_spaced_by_cooldown:
  assumes "sorted (map fst ins)"
    and "cfg_cooldown (ar_cfg ar) \<le> cfg_cf_cooldown (ar_cfg ar)"
  shows "sorted_wrt (\<lambda>t t'. t + cfg_cooldown (ar_cfg ar) \<le> t') (move_times ar ins)"
  using assms
proof (induction ar ins rule: move_times.induct)
  case (2 ar now tenants slices pending ins)
  show ?case
  proof (cases "tick ar now tenants slices pending")
    case (Some res)
    then obtain ar' r where t: "tick ar now tenants slices pending = Some (ar', r)"
      by (cases res) auto
    note cd = tick_cooldown [OF t]
    have IH: "sorted_wrt (\<lambda>t t'. t + cfg_cooldown (ar_cfg ar) \<le> t') (move_times ar' ins)"
      using "2.IH" [OF t refl] "2.prems" cd by simp
    have "\<forall>t \<in> set (move_times ar' ins). now + cfg_cooldown (ar_cfg ar) \<le> t" if "rebalances r"
      using cd that "2.prems"
      by (intro move_times_after [of _ "now + cfg_cooldown (ar_cfg ar)"]) (auto intro: add_mono)
    with IH show ?thesis by (simp add: t)
  qed simp
qed simp

theorem moves_spaced_by_cooldown_witness:
  "let ins = [(0, [], [], None), (5, [pressed_view 1 2 0], [], Some (1, 10))]
   in sorted_wrt (\<lambda>t t'. t + cfg_cooldown arbiter_config_default \<le> t')
        (move_times (arbiter_new arbiter_config_default) ins)"
  using moves_spaced_by_cooldown [of "[(0, [], [], None), (5, [pressed_view 1 2 0], [], Some (1, 10))]"
      "arbiter_new arbiter_config_default"]
  by (simp add: arbiter_new_def arbiter_config_default_def from_secs_def)

lemma tick_counterfactual_total:
  "now + cfg_cf_cooldown (ar_cfg ar) \<le> instant_max \<Longrightarrow> tick_counterfactual ar now tenants \<noteq> None"
  by (auto simp: tick_counterfactual_def instant_add_def checked_add_def split: option.splits)

lemma tick_differential_total:
  "now + cfg_cooldown (ar_cfg ar) \<le> instant_max \<Longrightarrow>
   tick_differential ar now tenants slices moved \<noteq> None"
  by (auto simp: tick_differential_def instant_add_def checked_add_def split: option.splits)

lemma owner_psi_number: "\<forall>t \<in> set tenants. view_psi t \<noteq> NaN \<Longrightarrow> owner_psi tenants i \<noteq> Some NaN"
  by (auto simp: owner_psi_def view_psi_def dest!: find_Some_mem)

lemma revocable_numbers:
  assumes "\<forall>t \<in> set tenants. view_psi t \<noteq> NaN" "x \<in> set (revocable tenants slices)"
  shows "snd (snd x) \<noteq> NaN"
proof -
  obtain t where "snd (snd x) = unwrap_or (owner_psi tenants t) fp_zero"
    using assms(2) by (auto simp: revocable_def set_filter_map split: option.splits)
  then show ?thesis using owner_psi_number [OF assms(1), of t] by (cases "owner_psi tenants t") auto
qed

lemma tick_lease_total:
  assumes "\<forall>t \<in> set tenants. view_psi t \<noteq> NaN"
  shows "tick_lease tenants slices holder bytes \<noteq> None"
proof -
  have "consistent_cmp revoke_cmp (revocable tenants slices)"
    by (rule revoke_cmp.consistent) (use revocable_numbers [OF assms] in blast)
  then show ?thesis by (simp add: tick_lease_def panic_defs Let_def)
qed

lemma tick_never_panics:
  assumes "now + max (cfg_cooldown (ar_cfg ar)) (cfg_cf_cooldown (ar_cfg ar)) \<le> instant_max"
    and "\<forall>t \<in> set tenants. view_psi t \<noteq> NaN"
  shows "tick ar now tenants slices pending \<noteq> None"
proof (cases pending)
  case None
  have "now + cfg_cf_cooldown (ar_cfg ar) \<le> instant_max" using assms(1) by simp
  from tick_counterfactual_total [OF this, of tenants] obtain ar1 acts1 moved where
    cf: "tick_counterfactual ar now tenants = Some (ar1, acts1, moved)" by (auto simp: not_None_eq)
  have "now + cfg_cooldown (ar_cfg (tick_hysteresis ar1 tenants)) \<le> instant_max"
    using assms(1) tick_counterfactual_cases [OF cf] by simp
  from tick_differential_total [OF this, of tenants slices moved] cf None show ?thesis
    by (auto simp: tick_def Let_def case_prod_beta not_None_eq round_robin_total)
next
  case (Some p)
  then show ?thesis using tick_lease_total [OF assms(2)] by (cases p) (simp add: tick_def)
qed

end
