(* ===== verification/Broker_Protocol.thy ===== *)
theory Broker_Protocol
  imports Arbiter
begin

text \<open>
  The messages between broker and agents and their line framing,
  \<^verbatim>\<open>crates/ramshared-broker/src/protocol.rs\<close>. The JSON text of a message is produced and read by
  \<^verbatim>\<open>serde_json\<close>, which is not part of the sources: it is the pair of parameters \<open>to_vec\<close> and
  \<open>from_slice\<close> of the framing functions.
\<close>

definition PROTO_VERSION :: nat where
  "PROTO_VERSION = 1"

definition MAX_LINE_BYTES :: nat where
  "MAX_LINE_BYTES = 64 * 1024"

datatype nbd_endpoint = Unix string | Tcp string nat

record swap_entry =
  se_dev :: string
  se_prio :: int
  se_size_kb :: nat
  se_used_kb :: nat

record tenant_mem =
  tm_swap_current :: "nat option"
  tm_diskstats_io :: nat

record tenant_status =
  ts_id :: tenant_id
  ts_name :: string
  ts_psi :: psi_sample
  ts_slices :: "slice_id list"
  ts_present :: bool
  ts_bytes_served :: nat

record slice_io =
  sio_id :: slice_id
  sio_bytes_served :: nat
  sio_io_count :: nat

text \<open>
  The reason of an \<open>Error\<close> message is a literal text or, for an unexpected message, the debug
  rendering of that message, which is represented by the message itself.
\<close>

datatype msg =
    Register nat string transport_kind
  | Psi psi_sample "swap_entry list" "tenant_mem option"
  | SwapOnDone slice_id bool string
  | SwapOffDone slice_id bool string
  | LeaseRequest nat
  | LeaseRelease nat
  | Status
  | Registered tenant_id
  | Ack
  | SwapOn slice_id string nbd_endpoint "int option"
  | SwapOff slice_id
  | DemoteAll
  | LeaseGranted nat nat
  | LeaseDenied string
  | StatusReply "tenant_status list" "slice list" "slice_io list" "nat option"
  | ErrorMsg error_reason
and error_reason = ReasonText string | ReasonUnexpected msg

subsection \<open>Line framing\<close>

datatype protocol_error =
    BadMagic string
  | UnsupportedVersion nat
  | PayloadTooLarge
  | ConnectionClosed string

text \<open>
  A byte stream: the bytes still to come, and the error the stream reports after them, if it does
  not end cleanly.
\<close>

record stream =
  st_rest :: string
  st_error :: "string option"

text \<open>\<open>take(limit).read_until(delim)\<close>: the bytes up to and including the delimiter.\<close>

fun until_byte :: "char \<Rightarrow> string \<Rightarrow> string" where
  "until_byte d [] = []"
| "until_byte d (c # cs) = (if c = d then [c] else c # until_byte d cs)"

definition read_until_limit :: "nat \<Rightarrow> char \<Rightarrow> stream \<Rightarrow> stream \<times> (string, string) result" where
  "read_until_limit limit d r =
     (let buf = until_byte d (take limit (st_rest r));
          r' = r\<lparr>st_rest := drop (length buf) (st_rest r)\<rparr>
      in case st_error r of
           Some e \<Rightarrow>
             if (buf = [] \<or> last buf \<noteq> d) \<and> length buf < limit then (r', Err e) else (r', Ok buf)
         | None \<Rightarrow> (r', Ok buf))"

definition newline :: char where
  "newline = CHR 0x0A"

definition read_msg ::
  "(string \<Rightarrow> ('m, string) result) \<Rightarrow> stream \<Rightarrow> stream \<times> ('m option, protocol_error) result" where
  "read_msg from_slice r =
     (case read_until_limit (MAX_LINE_BYTES + 1) newline r of
        (r', Err e) \<Rightarrow> (r', Err (ConnectionClosed e))
      | (r', Ok buf) \<Rightarrow>
          if buf = [] then (r', Ok None)
          else
            let had_newline = (last buf = newline)
            in if \<not> had_newline \<and> length buf > MAX_LINE_BYTES then (r', Err PayloadTooLarge)
               else case from_slice (if had_newline then butlast buf else buf) of
                   Err e \<Rightarrow> (r', Err (BadMagic e))
                 | Ok m \<Rightarrow> (r', Ok (Some m)))"

text \<open>
  \<open>write_msg\<close> on a writer that is a function of the bytes: it returns the writer's new state or its
  error.
\<close>

definition write_msg ::
  "('m \<Rightarrow> (string, string) result) \<Rightarrow> ('w \<Rightarrow> string \<Rightarrow> 'w \<times> (unit, string) result) \<Rightarrow>
   ('w \<Rightarrow> 'w \<times> (unit, string) result) \<Rightarrow> 'w \<Rightarrow> 'm \<Rightarrow> 'w \<times> (unit, protocol_error) result" where
  "write_msg to_vec write_all flush w m =
     (case to_vec m of
        Err e \<Rightarrow> (w, Err (BadMagic e))
      | Ok line \<Rightarrow>
          (case write_all w (line @ [newline]) of
             (w', Err e) \<Rightarrow> (w', Err (ConnectionClosed e))
           | (w', Ok _) \<Rightarrow>
               (case flush w' of
                  (w'', Err e) \<Rightarrow> (w'', Err (ConnectionClosed e))
                | (w'', Ok _) \<Rightarrow> (w'', Ok ()))))"

lemma until_byte_append:
  "d \<notin> set xs \<Longrightarrow> until_byte d (xs @ d # ys) = xs @ [d]"
  by (induction xs) auto

lemma until_byte_le: "length (until_byte d xs) \<le> length xs"
  by (induction xs) auto

lemma until_byte_prefix: "until_byte d xs = take (length (until_byte d xs)) xs"
  by (induction xs) auto

lemma read_until_line:
  assumes "newline \<notin> set line" "length line < limit"
  shows "read_until_limit limit newline (r\<lparr>st_rest := line @ newline # rest\<rparr>) =
    (r\<lparr>st_rest := rest\<rparr>, Ok (line @ [newline]))"
proof -
  have "take limit (line @ newline # rest) = line @ newline # take (limit - Suc (length line)) rest"
    using assms(2) by (simp add: take_Cons')
  with assms(1) show ?thesis
    by (auto simp: read_until_limit_def Let_def until_byte_append split: option.split)
qed

text \<open>
  Framing round trip: a message whose JSON text holds no newline and fits \<open>MAX_LINE_BYTES\<close>,
  written to a stream in front of any other bytes, is read back unchanged, and exactly its line is
  consumed.
\<close>

theorem read_write_msg:
  assumes "to_vec m = Ok line" "from_slice line = Ok m"
    and "newline \<notin> set line" "length line \<le> MAX_LINE_BYTES"
  shows "\<exists>out. write_msg to_vec (\<lambda>w bytes. (w @ bytes, Ok ())) (\<lambda>w. (w, Ok ())) [] m = (out, Ok ()) \<and>
    read_msg from_slice \<lparr>st_rest = out @ rest, st_error = e\<rparr> =
      (\<lparr>st_rest = rest, st_error = e\<rparr>, Ok (Some m))"
proof -
  have "read_until_limit (MAX_LINE_BYTES + 1) newline \<lparr>st_rest = line @ newline # rest, st_error = e\<rparr> =
      (\<lparr>st_rest = rest, st_error = e\<rparr>, Ok (line @ [newline]))"
    using read_until_line [OF assms(3), of "MAX_LINE_BYTES + 1" rest "\<lparr>st_rest = [], st_error = e\<rparr>"]
      assms(4) by simp
  then have "read_msg from_slice \<lparr>st_rest = (line @ [newline]) @ rest, st_error = e\<rparr> =
      (\<lparr>st_rest = rest, st_error = e\<rparr>, Ok (Some m))"
    using assms(2) by (simp add: read_msg_def)
  moreover have "write_msg to_vec (\<lambda>w bytes. (w @ bytes, Ok ())) (\<lambda>w. (w, Ok ())) [] m =
      (line @ [newline], Ok ())"
    using assms(1) by (simp add: write_msg_def)
  ultimately show ?thesis by blast
qed

theorem read_write_msg_witness:
  "\<exists>out. write_msg (\<lambda>m. Ok (if m then ''true'' else ''false''))
       (\<lambda>w bytes. (w @ bytes, Ok ())) (\<lambda>w. (w, Ok ())) [] True = (out, Ok ()) \<and>
     read_msg (\<lambda>s. if s = ''true'' then Ok True else if s = ''false'' then Ok False else Err ''bad'')
       \<lparr>st_rest = out @ ''next'', st_error = None\<rparr> = (\<lparr>st_rest = ''next'', st_error = None\<rparr>, Ok (Some True))"
  by (rule read_write_msg [where line = "''true''"]) (simp_all add: newline_def MAX_LINE_BYTES_def)

text \<open>
  The line cap holds for every input: one call of \<open>read_msg\<close> takes a prefix of at most
  \<open>MAX_LINE_BYTES + 1\<close> bytes from the stream and leaves the rest in place.
\<close>

theorem read_msg_bounded:
  "\<exists>n. n \<le> MAX_LINE_BYTES + 1 \<and> st_rest (fst (read_msg from_slice r)) = drop n (st_rest r)"
proof -
  let ?buf = "until_byte newline (take (MAX_LINE_BYTES + 1) (st_rest r))"
  have "length ?buf \<le> MAX_LINE_BYTES + 1"
    using until_byte_le [of newline "take (MAX_LINE_BYTES + 1) (st_rest r)"] by simp
  moreover have "st_rest (fst (read_msg from_slice r)) = drop (length ?buf) (st_rest r)"
    by (simp add: read_msg_def read_until_limit_def Let_def split: option.split result.split)
  ultimately show ?thesis by blast
qed

end
