(* ===== verification/Lease_Book.thy ===== *)
theory Lease_Book
  imports Prelude
begin

text \<open>
  Logical lease ownership, \<^verbatim>\<open>crates/ramshared-broker/src/lease.rs\<close>: at most one request is
  pending or one lease is active, a lease has a deadline, and lease ids are never handed out twice.
  The book is shown to refine a three-state machine, vacant, requested and held.
\<close>

type_synonym holder_id = nat

definition DEFAULT_LEASE_TTL :: duration where
  "DEFAULT_LEASE_TTL = from_secs 30"

record pending_lease =
  pl_holder :: holder_id
  pl_requested_bytes :: nat

record logical_lease =
  ll_id :: nat
  ll_holder :: holder_id
  ll_bytes :: nat

datatype lease_deny =
    ZeroBytes
  | OverCapacity
  | AlreadyHeld
  | WrongHolder
  | WrongLease
  | InsufficientGrant
  | LeaseIdExhausted
  | InvalidTtl
  | DeadlineOverflow

datatype lease_decision = Pending pending_lease | Denied lease_deny

record lease_disconnect =
  ld_cancelled_pending :: bool
  ld_retained_active :: "logical_lease option"

definition lease_disconnect_is_none :: "lease_disconnect \<Rightarrow> bool" where
  "lease_disconnect_is_none d \<longleftrightarrow> \<not> ld_cancelled_pending d \<and> ld_retained_active d = None"

record active_lease =
  al_lease :: logical_lease
  al_deadline :: instant

record lease_book =
  lb_capacity_bytes :: nat
  lb_next_id :: nat
  lb_pending :: "pending_lease option"
  lb_active :: "active_lease option"

definition lease_book_new :: "nat \<Rightarrow> lease_book" where
  "lease_book_new capacity_bytes =
     \<lparr>lb_capacity_bytes = capacity_bytes, lb_next_id = 1, lb_pending = None, lb_active = None\<rparr>"

definition lb_active_lease :: "lease_book \<Rightarrow> logical_lease option" where
  "lb_active_lease book = map_option al_lease (lb_active book)"

definition begin_request ::
  "lease_book \<Rightarrow> holder_id \<Rightarrow> nat \<Rightarrow> lease_book \<times> lease_decision" where
  "begin_request book holder bytes =
     (let denied =
        (if bytes = 0 then Some ZeroBytes
         else if bytes > lb_capacity_bytes book then Some OverCapacity
         else if lb_pending book \<noteq> None \<or> lb_active book \<noteq> None then Some AlreadyHeld
         else None)
      in case denied of
           Some reason \<Rightarrow> (book, Denied reason)
         | None \<Rightarrow>
             let pending = \<lparr>pl_holder = holder, pl_requested_bytes = bytes\<rparr>
             in (book\<lparr>lb_pending := Some pending\<rparr>, Pending pending))"

definition grant_pending ::
  "lease_book \<Rightarrow> nat \<Rightarrow> instant \<Rightarrow> duration \<Rightarrow> lease_book \<times> (logical_lease, lease_deny) result" where
  "grant_pending book granted_bytes now ttl =
     (if ttl = 0 then (book, Err InvalidTtl)
      else case instant_add now ttl of
          None \<Rightarrow> (book, Err DeadlineOverflow)
        | Some deadline \<Rightarrow>
            (case lb_pending book of
               None \<Rightarrow> (book, Err WrongLease)
             | Some pending \<Rightarrow>
                 if granted_bytes < pl_requested_bytes pending \<or>
                    granted_bytes > lb_capacity_bytes book
                 then (book, Err InsufficientGrant)
                 else case checked_add u32_max (lb_next_id book) 1 of
                     None \<Rightarrow> (book, Err LeaseIdExhausted)
                   | Some following_id \<Rightarrow>
                       let lease = \<lparr>ll_id = lb_next_id book, ll_holder = pl_holder pending,
                                    ll_bytes = granted_bytes\<rparr>
                       in (book\<lparr>lb_next_id := following_id, lb_pending := None,
                                lb_active := Some \<lparr>al_lease = lease, al_deadline = deadline\<rparr>\<rparr>,
                           Ok lease)))"

definition renew_active ::
  "lease_book \<Rightarrow> holder_id \<Rightarrow> instant \<Rightarrow> duration \<Rightarrow> lease_book \<times> bool" where
  "renew_active book holder now ttl =
     (if ttl = 0 then (book, False)
      else case instant_add now ttl of
          None \<Rightarrow> (book, False)
        | Some deadline \<Rightarrow>
            (case lb_active book of
               None \<Rightarrow> (book, False)
             | Some active \<Rightarrow>
                 if ll_holder (al_lease active) \<noteq> holder then (book, False)
                 else (book\<lparr>lb_active := Some (active\<lparr>al_deadline := deadline\<rparr>)\<rparr>, True)))"

definition expire :: "lease_book \<Rightarrow> instant \<Rightarrow> lease_book \<times> logical_lease option" where
  "expire book now =
     (case lb_active book of
        Some active \<Rightarrow>
          if now \<ge> al_deadline active then (book\<lparr>lb_active := None\<rparr>, Some (al_lease active))
          else (book, None)
      | None \<Rightarrow> (book, None))"

definition cancel_pending :: "lease_book \<Rightarrow> holder_id \<Rightarrow> lease_book \<times> bool" where
  "cancel_pending book holder =
     (case lb_pending book of
        Some p \<Rightarrow> if pl_holder p = holder then (book\<lparr>lb_pending := None\<rparr>, True) else (book, False)
      | None \<Rightarrow> (book, False))"

definition lb_release ::
  "lease_book \<Rightarrow> holder_id \<Rightarrow> nat \<Rightarrow> lease_book \<times> (bool, lease_deny) result" where
  "lb_release book holder lease =
     (case lb_active book of
        None \<Rightarrow> (book, Ok False)
      | Some active \<Rightarrow>
          if ll_holder (al_lease active) \<noteq> holder then (book, Err WrongHolder)
          else if ll_id (al_lease active) \<noteq> lease then (book, Err WrongLease)
          else (book\<lparr>lb_active := None\<rparr>, Ok True))"

definition lb_disconnect :: "lease_book \<Rightarrow> holder_id \<Rightarrow> lease_book \<times> lease_disconnect" where
  "lb_disconnect book holder =
     (let (book', cancelled) = cancel_pending book holder;
          retained = (case lb_active book' of
                        Some active \<Rightarrow>
                          if ll_holder (al_lease active) = holder then Some (al_lease active)
                          else None
                      | None \<Rightarrow> None)
      in (book', \<lparr>ld_cancelled_pending = cancelled, ld_retained_active = retained\<rparr>))"

lemmas lease_defs = begin_request_def grant_pending_def renew_active_def expire_def
  cancel_pending_def lb_release_def lb_disconnect_def

subsection \<open>The invariant\<close>

text \<open>
  A request and a lease exclude each other, both fit the capacity, and an active id is below the
  next one.
\<close>

definition lease_inv :: "lease_book \<Rightarrow> bool" where
  "lease_inv book \<longleftrightarrow>
     (lb_pending book = None \<or> lb_active book = None) \<and>
     (\<forall>p. lb_pending book = Some p \<longrightarrow>
        0 < pl_requested_bytes p \<and> pl_requested_bytes p \<le> lb_capacity_bytes book) \<and>
     (\<forall>a. lb_active book = Some a \<longrightarrow>
        0 < ll_bytes (al_lease a) \<and> ll_bytes (al_lease a) \<le> lb_capacity_bytes book \<and>
        ll_id (al_lease a) < lb_next_id book) \<and>
     1 \<le> lb_next_id book \<and> lb_next_id book \<le> u32_max"

text \<open>The operations a caller can apply to the book, as one type.\<close>

datatype lease_op =
    OpRequest holder_id nat
  | OpGrant nat instant duration
  | OpRenew holder_id instant duration
  | OpExpire instant
  | OpCancel holder_id
  | OpRelease holder_id nat
  | OpDisconnect holder_id

fun lease_exec :: "lease_op \<Rightarrow> lease_book \<Rightarrow> lease_book" where
  "lease_exec (OpRequest h b) book = fst (begin_request book h b)"
| "lease_exec (OpGrant g now ttl) book = fst (grant_pending book g now ttl)"
| "lease_exec (OpRenew h now ttl) book = fst (renew_active book h now ttl)"
| "lease_exec (OpExpire now) book = fst (expire book now)"
| "lease_exec (OpCancel h) book = fst (cancel_pending book h)"
| "lease_exec (OpRelease h l) book = fst (lb_release book h l)"
| "lease_exec (OpDisconnect h) book = fst (lb_disconnect book h)"

lemma lease_inv_new: "lease_inv (lease_book_new capacity)"
  by (simp add: lease_inv_def lease_book_new_def u32_max_def)

lemma lease_exec_capacity [simp]:
  "lb_capacity_bytes (lease_exec op book) = lb_capacity_bytes book"
  by (cases op) (auto simp: lease_defs Let_def split: option.splits)

lemma lease_inv_exec: "lease_inv book \<Longrightarrow> lease_inv (lease_exec op book)"
  by (cases op)
    (auto simp: lease_inv_def lease_defs Let_def checked_add_def split: option.splits if_splits)

fun lease_run :: "lease_op list \<Rightarrow> lease_book \<Rightarrow> lease_book" where
  "lease_run [] book = book"
| "lease_run (op # ops) book = lease_run ops (lease_exec op book)"

lemma lease_inv_run: "lease_inv book \<Longrightarrow> lease_inv (lease_run ops book)"
  by (induction ops book rule: lease_run.induct) (simp_all add: lease_inv_exec)

lemma lease_run_capacity [simp]: "lb_capacity_bytes (lease_run ops book) = lb_capacity_bytes book"
  by (induction ops book rule: lease_run.induct) simp_all

text \<open>Whether the caller is told that the operation took effect.\<close>

fun lease_accepts :: "lease_op \<Rightarrow> lease_book \<Rightarrow> bool" where
  "lease_accepts (OpRequest h b) book = (\<exists>p. snd (begin_request book h b) = Pending p)"
| "lease_accepts (OpGrant g now ttl) book = is_ok (snd (grant_pending book g now ttl))"
| "lease_accepts (OpRenew h now ttl) book = snd (renew_active book h now ttl)"
| "lease_accepts (OpExpire now) book = (snd (expire book now) \<noteq> None)"
| "lease_accepts (OpCancel h) book = snd (cancel_pending book h)"
| "lease_accepts (OpRelease h l) book = (snd (lb_release book h l) = Ok True)"
| "lease_accepts (OpDisconnect h) book = ld_cancelled_pending (snd (lb_disconnect book h))"

subsection \<open>Refinement of the three-state machine\<close>

text \<open>
  The transitions are labelled by the operation, so that who may do what and when is part of the
  machine: only the requester cancels, only the holder renews, only the holder releases and only by the
  lease's id, and a lease expires from its deadline on.
\<close>

datatype lease_phase =
    Vacant
  | Requested holder_id nat
  | Held logical_lease instant

inductive lease_step :: "nat \<Rightarrow> lease_op \<Rightarrow> lease_phase \<times> nat \<Rightarrow> lease_phase \<times> nat \<Rightarrow> bool"
  for capacity :: nat where
  request: "0 < b \<Longrightarrow> b \<le> capacity \<Longrightarrow>
    lease_step capacity (OpRequest h b) (Vacant, n) (Requested h b, n)"
| grant: "b \<le> g \<Longrightarrow> g \<le> capacity \<Longrightarrow> n < u32_max \<Longrightarrow> 0 < ttl \<Longrightarrow> now + ttl \<le> instant_max \<Longrightarrow>
    lease_step capacity (OpGrant g now ttl) (Requested h b, n)
      (Held \<lparr>ll_id = n, ll_holder = h, ll_bytes = g\<rparr> (now + ttl), Suc n)"
| cancel: "lease_step capacity (OpCancel h) (Requested h b, n) (Vacant, n)"
| disconnect: "lease_step capacity (OpDisconnect h) (Requested h b, n) (Vacant, n)"
| renew: "0 < ttl \<Longrightarrow> now + ttl \<le> instant_max \<Longrightarrow>
    lease_step capacity (OpRenew (ll_holder l) now ttl) (Held l d, n) (Held l (now + ttl), n)"
| expire: "d \<le> now \<Longrightarrow> lease_step capacity (OpExpire now) (Held l d, n) (Vacant, n)"
| release: "lease_step capacity (OpRelease (ll_holder l) (ll_id l)) (Held l d, n) (Vacant, n)"

inductive_simps lease_step_simps:
  "lease_step capacity (OpRequest h b) p q" "lease_step capacity (OpGrant g now ttl) p q"
  "lease_step capacity (OpCancel h) p q" "lease_step capacity (OpDisconnect h) p q"
  "lease_step capacity (OpRenew h now ttl) p q" "lease_step capacity (OpExpire now) p q"
  "lease_step capacity (OpRelease h l) p q"

definition lease_abs :: "lease_book \<Rightarrow> lease_phase \<times> nat" where
  "lease_abs book =
     (case lb_active book of
        Some a \<Rightarrow> Held (al_lease a) (al_deadline a)
      | None \<Rightarrow> (case lb_pending book of
            Some p \<Rightarrow> Requested (pl_holder p) (pl_requested_bytes p)
          | None \<Rightarrow> Vacant),
      lb_next_id book)"

text \<open>The three phases as the fields of the book.\<close>

lemma lease_book_cases:
  assumes "lease_inv book"
  obtains "lb_pending book = None" "lb_active book = None"
  | p where "lb_pending book = Some p" "lb_active book = None"
  | a where "lb_pending book = None" "lb_active book = Some a"
  using assms by (cases "lb_pending book"; cases "lb_active book") (auto simp: lease_inv_def)

lemma lease_op_refines:
  assumes "lease_inv book"
  shows "if lease_accepts op book
    then lease_step (lb_capacity_bytes book) op (lease_abs book) (lease_abs (lease_exec op book))
    else lease_exec op book = book \<and> (\<nexists>p. lease_step (lb_capacity_bytes book) op (lease_abs book) p)"
  using assms
proof (cases rule: lease_book_cases)
  case 1
  then show ?thesis
    by (cases op) (auto simp: lease_step_simps lease_abs_def lease_defs Let_def instant_add_def checked_add_def)
next
  case (2 p)
  have "lb_next_id book \<le> u32_max" using assms by (simp add: lease_inv_def)
  with 2 show ?thesis
    by (cases op) (auto simp: lease_step_simps lease_abs_def lease_defs Let_def instant_add_def checked_add_def)
next
  case (3 a)
  then show ?thesis
    by (cases op) (auto simp: lease_step_simps lease_abs_def lease_defs Let_def instant_add_def checked_add_def)
qed

text \<open>
  C17. The lease book is the three-state machine. After any operations on a new book, an operation is
  accepted exactly when the machine has a transition for it, which the book then takes; otherwise the book
  is unchanged. So a request is cancelled only by its requester, a lease is granted only
  to its requester, within the capacity and with a fresh id, renewed only by its holder, and ends only by a release of its
  holder that names its id or by an expiry at or after its deadline.
\<close>

theorem lease_book_refines:
  "let book = lease_run ops (lease_book_new capacity); book' = lease_exec op book
   in (lease_accepts op book \<longleftrightarrow> (\<exists>p. lease_step capacity op (lease_abs book) p)) \<and>
      (lease_accepts op book \<longrightarrow> lease_step capacity op (lease_abs book) (lease_abs book')) \<and>
      (\<not> lease_accepts op book \<longrightarrow> book' = book)"
proof -
  have "lb_capacity_bytes (lease_run ops (lease_book_new capacity)) = capacity"
    by (simp add: lease_book_new_def)
  with lease_op_refines [OF lease_inv_run [OF lease_inv_new]]
  show ?thesis unfolding Let_def by (metis (no_types))
qed

theorem lease_book_refines_witness:
  "let book = lease_run [OpRequest 7 1000, OpGrant 2000 5 10] (lease_book_new 4096)
   in lease_accepts (OpRelease 7 1) book \<and> \<not> lease_accepts (OpRelease 8 1) book \<and> \<not> lease_accepts (OpExpire 14) book \<and>
      lease_step 4096 (OpRelease 7 1) (lease_abs book) (lease_abs (lease_exec (OpRelease 7 1) book)) \<and>
      lease_exec (OpRelease 8 1) book = book \<and> lease_exec (OpExpire 14) book = book"
proof -
  let ?ops = "[OpRequest 7 1000, OpGrant 2000 5 10]" and ?new = "lease_book_new 4096"
  have acc: "lease_accepts (OpRelease 7 1) (lease_run ?ops ?new)" "\<not> lease_accepts (OpRelease 8 1) (lease_run ?ops ?new)"
    "\<not> lease_accepts (OpExpire 14) (lease_run ?ops ?new)"
    by (simp_all add: lease_defs lease_book_new_def instant_add_def instant_max_def checked_add_def u32_max_def Let_def)
  then show ?thesis
    using lease_book_refines [of ?ops 4096 "OpRelease 7 1"] lease_book_refines [of ?ops 4096 "OpRelease 8 1"]
      lease_book_refines [of ?ops 4096 "OpExpire 14"]
    unfolding Let_def by blast
qed

text \<open>
  An active lease ends only by a release from its own holder naming its id, or by an expiry at
  or after its deadline; no other operation takes it away or replaces it by another lease.
\<close>

theorem active_lease_ends:
  assumes "lease_inv book" "lb_active book = Some a"
    and "lb_active_lease (lease_exec op book) \<noteq> Some (al_lease a)"
  shows "lb_active_lease (lease_exec op book) = None \<and>
    (op = OpRelease (ll_holder (al_lease a)) (ll_id (al_lease a)) \<or>
     (\<exists>now. op = OpExpire now \<and> al_deadline a \<le> now))"
  using assms
  by (cases op)
    (auto simp: lease_inv_def lb_active_lease_def lease_defs Let_def split: option.splits if_splits)

theorem active_lease_ends_witness:
  "let l = \<lparr>ll_id = 1, ll_holder = 7, ll_bytes = 10\<rparr>;
       book = \<lparr>lb_capacity_bytes = 64, lb_next_id = 2, lb_pending = None,
               lb_active = Some \<lparr>al_lease = l, al_deadline = 5\<rparr>\<rparr>
   in lease_inv book \<and> lb_active_lease (lease_exec (OpExpire 9) book) = None"
  using active_lease_ends [of "\<lparr>lb_capacity_bytes = 64, lb_next_id = 2, lb_pending = None,
      lb_active = Some \<lparr>al_lease = \<lparr>ll_id = 1, ll_holder = 7, ll_bytes = 10\<rparr>, al_deadline = 5\<rparr>\<rparr>"
      "\<lparr>al_lease = \<lparr>ll_id = 1, ll_holder = 7, ll_bytes = 10\<rparr>, al_deadline = 5\<rparr>" "OpExpire 9"]
  by (simp add: lease_inv_def lb_active_lease_def expire_def u32_max_def)

subsection \<open>Lease identifiers over a run\<close>

text \<open>The ids \<open>grant_pending\<close> returns along a run.\<close>

fun granted_ids :: "lease_op list \<Rightarrow> lease_book \<Rightarrow> nat list" where
  "granted_ids [] book = []"
| "granted_ids (op # ops) book =
     (case op of
        OpGrant g now ttl \<Rightarrow>
          (case snd (grant_pending book g now ttl) of Ok l \<Rightarrow> [ll_id l] | Err _ \<Rightarrow> [])
      | _ \<Rightarrow> []) @ granted_ids ops (lease_exec op book)"

lemma granted_id:
  "snd (grant_pending book g now ttl) = Ok l \<Longrightarrow>
   ll_id l = lb_next_id book \<and> lb_next_id (fst (grant_pending book g now ttl)) = Suc (ll_id l)"
  by (auto simp: grant_pending_def Let_def checked_add_def split: option.splits if_splits)

lemma next_id_mono: "lb_next_id book \<le> lb_next_id (lease_exec op book)"
  by (cases op) (auto simp: lease_defs Let_def checked_add_def split: option.splits)

text \<open>
  Lease ids are never reused: along any sequence of operations, the ids of the leases granted
  are strictly increasing, start no lower than the book's next id and stay below \<open>u32::MAX\<close>.
\<close>

theorem granted_ids_increase:
  "sorted_wrt (<) (granted_ids ops book) \<and>
   (\<forall>i \<in> set (granted_ids ops book). lb_next_id book \<le> i \<and> i < u32_max)"
proof (induction ops arbitrary: book)
  case (Cons op ops)
  let ?rest = "granted_ids ops (lease_exec op book)"
  note IH = Cons.IH [of "lease_exec op book"]
  have rest: "\<forall>i \<in> set ?rest. lb_next_id book \<le> i \<and> i < u32_max"
    using IH next_id_mono [of book op] by (auto intro: order_trans)
  show ?case
  proof (cases "\<exists>g now ttl l. op = OpGrant g now ttl \<and> snd (grant_pending book g now ttl) = Ok l")
    case True
    then obtain g now ttl l where op: "op = OpGrant g now ttl"
      and l: "snd (grant_pending book g now ttl) = Ok l" by blast
    have "ll_id l = lb_next_id book" "lb_next_id (lease_exec op book) = Suc (ll_id l)"
      using granted_id [OF l] op by simp_all
    moreover from l have "lb_next_id book < u32_max"
      by (auto simp: grant_pending_def Let_def checked_add_def split: option.splits if_splits)
    ultimately show ?thesis using IH rest l by (force simp: op Suc_le_eq)
  next
    case False
    then have "granted_ids (op # ops) book = ?rest"
      by (auto split: lease_op.splits result.splits)
    with IH rest show ?thesis by simp
  qed
qed simp

theorem granted_ids_increase_witness:
  "sorted_wrt (<) (granted_ids [OpRequest 7 10, OpGrant 10 0 5, OpExpire 9, OpRequest 8 20,
     OpGrant 30 9 5] (lease_book_new 4096)) \<and>
   granted_ids [OpRequest 7 10, OpGrant 10 0 5, OpExpire 9, OpRequest 8 20, OpGrant 30 9 5]
     (lease_book_new 4096) = [1, 2]"
  using granted_ids_increase [of "[OpRequest 7 10, OpGrant 10 0 5, OpExpire 9, OpRequest 8 20,
     OpGrant 30 9 5]" "lease_book_new 4096"]
  by (simp add: lease_book_new_def lease_defs checked_add_def instant_add_def instant_max_def
      u32_max_def Let_def)

end
