(* ===== verification/Telemetry.thy ===== *)
theory Telemetry
  imports Prelude Float_Model
begin

text \<open>
  Reconciliation of the borrowed capacity with the swap in use,
  \<^verbatim>\<open>crates/ramshared-wsl2d/src/telemetry.rs\<close>. The counters the data plane writes
  (\<open>SliceIoCounters\<close>, \<open>VramGauge\<close>) are plain numbers here: the core reads them, other threads change
  them between events.
\<close>

record slice_io_counters =
  io_bytes_served :: nat
  io_io_count :: nat

record vram_gauge =
  vg_free :: nat
  vg_total :: nat

datatype reconcile_flag = NoFlag | Partial | Eviction | StuckSlice | Unaccounted

record reconcile_input =
  ri_alloc_active_bytes :: nat
  ri_occupied_swap_bytes :: nat
  ri_stuck_draining :: bool
  ri_demotes_delta :: nat
  ri_any_source_missing :: bool

record telemetry_core =
  tc_tenant :: "string option"
  tc_slice :: "nat option"
  tc_swap_used :: nat
  tc_alloc_active :: nat
  tc_page_io_s :: "nat option"
  tc_vram_alloc_daemon :: nat
  tc_vram_total_used :: "nat option"
  tc_vram_outros :: "nat option"
  tc_canario_demotes :: nat
  tc_demote_reason :: "string option"
  tc_reconcile_delta :: fp
  tc_flag :: reconcile_flag

definition vram_outros :: "nat \<Rightarrow> nat \<Rightarrow> nat" where
  "vram_outros total_used alloc_daemon = saturating_sub total_used alloc_daemon"

definition reconcile_delta :: "reconcile_input \<Rightarrow> fp" where
  "reconcile_delta inp =
     (if ri_alloc_active_bytes inp = 0 then
        (if ri_occupied_swap_bytes inp = 0 then fp_zero else fp_one)
      else
        fp_div f64
          (fp_sub f64 (fp_of_nat f64 (ri_occupied_swap_bytes inp))
                      (fp_of_nat f64 (ri_alloc_active_bytes inp)))
          (fp_of_nat f64 (ri_alloc_active_bytes inp)))"

definition reconcile :: "reconcile_input \<Rightarrow> fp \<Rightarrow> fp \<times> reconcile_flag" where
  "reconcile inp tol_frac =
     (let delta = reconcile_delta inp
      in if ri_any_source_missing inp then (delta, Partial)
         else if ri_demotes_delta inp > 0 then (delta, Eviction)
         else if ri_stuck_draining inp then (delta, StuckSlice)
         else if fp_gt delta tol_frac then (delta, Unaccounted)
         else (delta, NoFlag))"

lemma reconcile_Eviction:
  "snd (reconcile inp tol) = Eviction \<longleftrightarrow> \<not> ri_any_source_missing inp \<and> 0 < ri_demotes_delta inp"
  by (simp add: reconcile_def Let_def)

lemma reconcile_Partial: "snd (reconcile inp tol) = Partial \<longleftrightarrow> ri_any_source_missing inp"
  by (simp add: reconcile_def Let_def)

end
