(* ===== verification/Broker_Core.thy ===== *)
theory Broker_Core
  imports Broker_Protocol Lease_Book Telemetry
begin

text \<open>
  The broker core, \<^verbatim>\<open>crates/ramshared-wsl2d/src/broker_srv.rs\<close>: a single-threaded state machine that
  turns events (messages of the agents, disconnects, zeroing results, DEMOTE signals, ticks) into
  messages, zeroing requests, log lines and telemetry. One function per handler; each returns the
  new state and the outputs in the order the code pushes them. \<open>handle\<close> is an option because the
  arbiter's tick can panic.

  Maps the code iterates over (\<open>tenants\<close>, \<open>pending_zero\<close>) are lists of entries, the others functions.
  The order of \<open>pending_zero\<close> stands for the iteration order of the hash map. Arithmetic that the
  release build wraps (\<open>next_tenant += 1\<close>, \<open>*n += 1\<close>) is taken modulo \<open>2 ^ 32\<close>. A log line is a value
  with what the format string interpolates.
\<close>

record endpoint_cfg =
  ec_nbd_unix :: "string option"
  ec_nbd_tcp :: "(string \<times> nat) option"

datatype core_event =
    CoreMsg nat msg
  | Disconnected nat
  | ZeroDone slice_id bool
  | Demote string
  | Tick

datatype log_line =
    LogTenantAbsent tenant_id
  | LogSwaponOk slice_id
  | LogSwaponFailed slice_id string
  | LogSwapoffFailed slice_id string
  | LogRegistered string tenant_id transport_kind
  | LogReconciled slice_id tenant_id
  | LogLeaseRequested tenant_id nat
  | LogReleaseIgnored nat tenant_id
  | LogLeaseReleased nat
  | LogDisconnected tenant_id
  | LogLeaseRetained nat
  | LogZeroFailed slice_id
  | LogDemoteAll string
  | LogNoTransport tenant_id
  | LogLeaseExpired nat
  | LogArbiterError arbiter_error
  | LogAssign slice_id tenant_id
  | LogMove slice_id tenant_id fp tenant_id fp
  | LogRevoke slice_id tenant_id
  | LogInvalidTtl
  | LogUnavailableSlices
  | LogGrantDiverged
  | LogRolledBack
  | LogLeaseGranted nat tenant_id "slice_id list"
  | LogZeroStuck slice_id
  | LogReconcile reconcile_flag fp "string option"

datatype outbound =
    ToSession nat msg
  | CloseSession nat
  | ZeroSlice slice_id nat nat
  | Log log_line
  | Telemetry telemetry_core

record tenant_state =
  tn_name :: string
  tn_transport :: transport_kind
  tn_present :: bool
  tn_sid :: "nat option"
  tn_psi :: psi_sample
  tn_reconciled :: bool
  tn_mem :: "tenant_mem option"
  tn_occupied_bytes :: nat

record broker_core_config =
  bk_arbiter_cfg :: arbiter_config
  bk_endpoints :: endpoint_cfg
  bk_swap_prio :: "int option"
  bk_lease_ttl :: duration
  bk_slice_io :: "slice_io_counters list"
  bk_vram :: vram_gauge
  bk_tol_frac :: fp
  bk_recon_streak :: nat

record broker_core =
  bc_slice_map :: slice_map
  bc_arbiter :: arbiter
  bc_endpoints :: endpoint_cfg
  bc_swap_prio :: "int option"
  bc_lease_ttl :: duration
  bc_tenants :: "(tenant_id \<times> tenant_state) list"
  bc_sessions :: "nat \<rightharpoonup> tenant_id"
  bc_name_to_id :: "string \<rightharpoonup> tenant_id"
  bc_next_tenant :: tenant_id
  bc_pending_dest :: "slice_id \<rightharpoonup> tenant_id"
  bc_lease_book :: lease_book
  bc_last_rebalance :: "instant option"
  bc_slice_io :: "slice_io_counters list"
  bc_vram :: vram_gauge
  bc_demotes_total :: nat
  bc_last_demote_reason :: "string option"
  bc_demotes_at_last_sample :: nat
  bc_recon_flag :: reconcile_flag
  bc_recon_count :: nat
  bc_tol_frac :: fp
  bc_recon_streak :: nat
  bc_pending_zero :: "(slice_id \<times> nat) list"

definition ZERO_RETRY_GRACE :: nat where
  "ZERO_RETRY_GRACE = 1"

definition ZERO_RETRY_ERROR :: nat where
  "ZERO_RETRY_ERROR = 5"

definition CANARY_BYTES :: nat where
  "CANARY_BYTES = 4096"

definition dev_to_slice :: "string \<Rightarrow> slice_id option" where
  "dev_to_slice dev0 =
     (let dev = trim dev0;
          base =
            (case strip_prefix ''/dev/'' dev of
               Some base \<Rightarrow> Some base
             | None \<Rightarrow>
                 (case strip_prefix ''/'' dev of
                    Some base \<Rightarrow> Some base
                  | None \<Rightarrow> if CHR ''/'' \<notin> set dev then Some dev else None))
      in case base of
           None \<Rightarrow> None
         | Some b \<Rightarrow>
             (case strip_prefix ''nbd'' b of
                None \<Rightarrow> None
              | Some slice \<Rightarrow>
                  if slice = [] \<or> \<not> list_all is_ascii_digit slice then None
                  else parse_uint u16_max slice))"

definition broker_new :: "slice_map \<Rightarrow> broker_core_config \<Rightarrow> broker_core" where
  "broker_new m cfg =
     \<lparr>bc_slice_map = m, bc_arbiter = arbiter_new (bk_arbiter_cfg cfg),
      bc_endpoints = bk_endpoints cfg, bc_swap_prio = bk_swap_prio cfg,
      bc_lease_ttl = bk_lease_ttl cfg, bc_tenants = [], bc_sessions = Map.empty,
      bc_name_to_id = Map.empty, bc_next_tenant = 1, bc_pending_dest = Map.empty,
      bc_lease_book = lease_book_new (total_bytes m), bc_last_rebalance = None,
      bc_slice_io = bk_slice_io cfg, bc_vram = bk_vram cfg, bc_demotes_total = 0,
      bc_last_demote_reason = None, bc_demotes_at_last_sample = 0, bc_recon_flag = NoFlag,
      bc_recon_count = 0, bc_tol_frac = bk_tol_frac cfg, bc_recon_streak = bk_recon_streak cfg,
      bc_pending_zero = []\<rparr>"

definition endpoint_for :: "broker_core \<Rightarrow> transport_kind \<Rightarrow> nbd_endpoint option" where
  "endpoint_for bc transport =
     (case transport of
        NbdUnix \<Rightarrow> map_option Unix (ec_nbd_unix (bc_endpoints bc))
      | NbdTcp \<Rightarrow> map_option (\<lambda>(host, port). Tcp host port) (ec_nbd_tcp (bc_endpoints bc))
      | WinDrive \<Rightarrow> None
      | DccAgent \<Rightarrow> None)"

definition bc_tenant :: "broker_core \<Rightarrow> tenant_id \<Rightarrow> tenant_state option" where
  "bc_tenant bc t = map_of (bc_tenants bc) t"

definition to_tenant :: "broker_core \<Rightarrow> tenant_id \<Rightarrow> msg \<Rightarrow> outbound list" where
  "to_tenant bc tenant m =
     (case Option.bind (bc_tenant bc tenant) tn_sid of
        Some sid \<Rightarrow> [ToSession sid m]
      | None \<Rightarrow> [Log (LogTenantAbsent tenant)])"

definition slices_of :: "broker_core \<Rightarrow> tenant_id \<Rightarrow> slice_id list" where
  "slices_of bc tenant =
     map sl_id (filter (\<lambda>s. sl_tenant s = Some tenant) (sm_slices (bc_slice_map bc)))"

definition emit_swapon :: "broker_core \<Rightarrow> slice_id \<Rightarrow> tenant_id \<Rightarrow> outbound list" where
  "emit_swapon bc slice tenant =
     (case bc_tenant bc tenant of
        None \<Rightarrow> []
      | Some t \<Rightarrow>
          (case endpoint_for bc (tn_transport t) of
             None \<Rightarrow> [Log (LogNoTransport tenant)]
           | Some endpoint \<Rightarrow>
               to_tenant bc tenant (SwapOn slice (''s'' @ show_nat slice) endpoint (bc_swap_prio bc))))"

definition refuse :: "nat \<Rightarrow> string \<Rightarrow> outbound list" where
  "refuse sid reason = [ToSession sid (ErrorMsg (ReasonText reason)), CloseSession sid]"

subsection \<open>Registration, heartbeat, disconnect\<close>

definition on_register ::
  "broker_core \<Rightarrow> nat \<Rightarrow> nat \<Rightarrow> string \<Rightarrow> transport_kind \<Rightarrow> broker_core \<times> outbound list" where
  "on_register bc sid proto name transport =
     (if proto \<noteq> PROTO_VERSION then
        (bc, refuse sid (''proto '' @ show_nat proto @ '' != '' @ show_nat PROTO_VERSION))
      else
        let tid = (case bc_name_to_id bc name of Some i \<Rightarrow> i | None \<Rightarrow> bc_next_tenant bc);
            bc1 = bc\<lparr>bc_name_to_id := (bc_name_to_id bc)(name \<mapsto> tid),
                     bc_next_tenant :=
                       (if tid = bc_next_tenant bc
                        then wrapping_add u32_max (bc_next_tenant bc) 1
                        else bc_next_tenant bc)\<rparr>
        in
        if (case bc_tenant bc1 tid of
              Some t \<Rightarrow> tn_present t \<and> tn_sid t \<noteq> None \<and> tn_sid t \<noteq> Some sid
            | None \<Rightarrow> False)
        then (bc1, refuse sid ''tenant_duplicado'')
        else
          let state = \<lparr>tn_name = name, tn_transport = transport, tn_present = True,
                       tn_sid = Some sid,
                       tn_psi = (case bc_tenant bc1 tid of Some t \<Rightarrow> tn_psi t | None \<Rightarrow> psi_default),
                       tn_reconciled = False, tn_mem = None, tn_occupied_bytes = 0\<rparr>
          in (bc1\<lparr>bc_tenants := bt_insert tid state (bc_tenants bc1),
                  bc_sessions := (bc_sessions bc1)(sid \<mapsto> tid)\<rparr>,
              [Log (LogRegistered name tid transport), ToSession sid (Registered tid)]))"

text \<open>The slices an agent reports as mounted on its first heartbeat are assigned to it again.\<close>

fun readopt :: "slice_map \<Rightarrow> tenant_id \<Rightarrow> swap_entry list \<Rightarrow> slice_map \<times> outbound list" where
  "readopt m tid [] = (m, [])"
| "readopt m tid (e # es) =
     (case dev_to_slice (se_dev e) of
        None \<Rightarrow> readopt m tid es
      | Some slice \<Rightarrow>
          if (case sm_get m slice of Some s \<Rightarrow> sl_state s = Free | None \<Rightarrow> False) \<and>
             is_ok (snd (sm_assign m slice tid))
          then let (m', out) = readopt (fst (sm_assign m slice tid)) tid es
               in (m', Log (LogReconciled slice tid) # out)
          else readopt m tid es)"

definition occupied_by :: "slice_map \<Rightarrow> tenant_id \<Rightarrow> swap_entry list \<Rightarrow> nat" where
  "occupied_by m tid swaps =
     fold (\<lambda>kb total. saturating_add u64_max total (saturating_mul u64_max kb 1024))
       (map snd
         (filter (\<lambda>(sl, _). case sm_get m sl of
                     Some s \<Rightarrow> sl_state s = Active \<and> sl_tenant s = Some tid
                   | None \<Rightarrow> False)
           (filter_map (\<lambda>e. map_option (\<lambda>sl. (sl, se_used_kb e)) (dev_to_slice (se_dev e))) swaps)))
       0"

definition on_psi ::
  "broker_core \<Rightarrow> nat \<Rightarrow> psi_sample \<Rightarrow> swap_entry list \<Rightarrow> tenant_mem option \<Rightarrow> instant \<Rightarrow>
   broker_core \<times> outbound list" where
  "on_psi bc sid sample swaps mem now =
     (case bc_sessions bc sid of
        None \<Rightarrow> (bc, refuse sid ''psi antes de register'')
      | Some tid \<Rightarrow>
          let (bc1, out) =
                (case bc_tenant bc tid of
                   None \<Rightarrow> (bc, [])
                 | Some t \<Rightarrow>
                     let bc' = bc\<lparr>bc_tenants := bt_adjust tid
                           (\<lambda>t. t\<lparr>tn_psi := sample, tn_mem := mem, tn_reconciled := True\<rparr>)
                           (bc_tenants bc)\<rparr>
                     in if tn_reconciled t then (bc', [])
                        else let (m, out) = readopt (bc_slice_map bc) tid swaps
                             in (bc'\<lparr>bc_slice_map := m\<rparr>, out));
              occupied = occupied_by (bc_slice_map bc1) tid swaps;
              bc2 = bc1\<lparr>bc_tenants := bt_adjust tid (\<lambda>t. t\<lparr>tn_occupied_bytes := occupied\<rparr>)
                                         (bc_tenants bc1),
                        bc_lease_book := fst (renew_active (bc_lease_book bc1) tid now
                                                (bc_lease_ttl bc1))\<rparr>
          in (bc2, out @ [ToSession sid Ack]))"

definition on_disconnect :: "broker_core \<Rightarrow> nat \<Rightarrow> broker_core \<times> outbound list" where
  "on_disconnect bc sid =
     (case bc_sessions bc sid of
        None \<Rightarrow> (bc, [])
      | Some tid \<Rightarrow>
          let (book, d) = lb_disconnect (bc_lease_book bc) tid
          in (bc\<lparr>bc_sessions := (bc_sessions bc)(sid := None),
                 bc_tenants := bt_adjust tid (\<lambda>t. t\<lparr>tn_present := False, tn_sid := None\<rparr>)
                                 (bc_tenants bc),
                 bc_lease_book := book\<rparr>,
              [Log (LogDisconnected tid)] @
              (case ld_retained_active d of
                 Some lease \<Rightarrow> [Log (LogLeaseRetained (ll_id lease))]
               | None \<Rightarrow> [])))"

subsection \<open>Leases\<close>

definition on_lease_request :: "broker_core \<Rightarrow> nat \<Rightarrow> nat \<Rightarrow> broker_core \<times> outbound list" where
  "on_lease_request bc sid bytes =
     (case bc_sessions bc sid of
        None \<Rightarrow> (bc, refuse sid ''lease antes de register'')
      | Some holder \<Rightarrow>
          let (book, decision) = begin_request (bc_lease_book bc) holder bytes
          in (bc\<lparr>bc_lease_book := book\<rparr>,
              case decision of
                Pending _ \<Rightarrow> [Log (LogLeaseRequested holder bytes)]
              | Denied reason \<Rightarrow>
                  [ToSession sid (LeaseDenied
                     (case reason of
                        ZeroBytes \<Rightarrow> ''bytes_zero''
                      | OverCapacity \<Rightarrow> ''acima_da_capacidade''
                      | _ \<Rightarrow> ''lease_em_andamento''))]))"

definition unlease_all :: "slice_map \<Rightarrow> slice_map" where
  "unlease_all m = fold (\<lambda>slice m. fst (sm_unlease m slice)) (ids_in Leased (sm_slices m)) m"

definition release_slices :: "broker_core \<Rightarrow> nat \<Rightarrow> broker_core \<times> outbound list" where
  "release_slices bc lease_id =
     (bc\<lparr>bc_slice_map := unlease_all (bc_slice_map bc)\<rparr>, [Log (LogLeaseReleased lease_id)])"

definition on_lease_release :: "broker_core \<Rightarrow> nat \<Rightarrow> nat \<Rightarrow> broker_core \<times> outbound list" where
  "on_lease_release bc sid lease_id =
     (case bc_sessions bc sid of
        None \<Rightarrow> (bc, refuse sid ''lease release antes de register'')
      | Some holder \<Rightarrow>
          let (book, r) = lb_release (bc_lease_book bc) holder lease_id;
              bc1 = bc\<lparr>bc_lease_book := book\<rparr>
          in case r of
               Ok True \<Rightarrow>
                 (bc1\<lparr>bc_slice_map := unlease_all (bc_slice_map bc1)\<rparr>,
                  [Log (LogLeaseReleased lease_id)])
             | Ok False \<Rightarrow> (bc1, [Log (LogReleaseIgnored lease_id holder)])
             | Err WrongLease \<Rightarrow> (bc1, [Log (LogReleaseIgnored lease_id holder)])
             | Err WrongHolder \<Rightarrow> (bc1, refuse sid ''holder de lease incorreto'')
             | Err _ \<Rightarrow> (bc1, []))"

subsection \<open>Swap-on and swap-off results, zeroing, DEMOTE\<close>

definition on_swap_on_done ::
  "broker_core \<Rightarrow> slice_id \<Rightarrow> bool \<Rightarrow> string \<Rightarrow> broker_core \<times> outbound list" where
  "on_swap_on_done bc slice ok detail =
     (if ok then (bc, [Log (LogSwaponOk slice)])
      else
        let (m1, r) = sm_drain (bc_slice_map bc) slice;
            m2 = (if is_ok r then fst (sm_release m1 slice) else m1)
        in (bc\<lparr>bc_slice_map := m2, bc_pending_dest := (bc_pending_dest bc)(slice := None)\<rparr>,
            [Log (LogSwaponFailed slice detail)]))"

definition pz_entry :: "(slice_id \<times> nat) list \<Rightarrow> slice_id \<Rightarrow> (slice_id \<times> nat) list" where
  "pz_entry pz slice = (if slice \<in> fst ` set pz then pz else pz @ [(slice, 0)])"

definition on_swap_off_done ::
  "broker_core \<Rightarrow> slice_id \<Rightarrow> bool \<Rightarrow> string \<Rightarrow> broker_core \<times> outbound list" where
  "on_swap_off_done bc slice ok detail =
     (if ok then
        (case sm_get (bc_slice_map bc) slice of
           Some s \<Rightarrow>
             (bc\<lparr>bc_pending_zero := pz_entry (bc_pending_zero bc) slice\<rparr>,
              [ZeroSlice slice (sl_offset s) (sl_len s)])
         | None \<Rightarrow> (bc, []))
      else (bc, [Log (LogSwapoffFailed slice detail)]))"

definition on_zero_done :: "broker_core \<Rightarrow> slice_id \<Rightarrow> bool \<Rightarrow> broker_core \<times> outbound list" where
  "on_zero_done bc slice ok =
     (if \<not> ok then
        (bc, Log (LogZeroFailed slice) #
             (case sm_get (bc_slice_map bc) slice of
                Some s \<Rightarrow> [ZeroSlice slice (sl_offset s) (sl_len s)]
              | None \<Rightarrow> []))
      else
        let bc1 = bc\<lparr>bc_pending_zero := filter (\<lambda>(k, _). k \<noteq> slice) (bc_pending_zero bc)\<rparr>;
            (m1, r) = sm_release (bc_slice_map bc1) slice
        in if is_err r then (bc1, [])
           else
             let bc2 = bc1\<lparr>bc_slice_map := m1,
                           bc_pending_dest := (bc_pending_dest bc1)(slice := None)\<rparr>
             in case bc_pending_dest bc1 slice of
                  None \<Rightarrow> (bc2, [])
                | Some dest \<Rightarrow>
                    let (m2, r2) = sm_assign m1 slice dest;
                        bc3 = bc2\<lparr>bc_slice_map := m2\<rparr>
                    in if is_ok r2 then (bc3, emit_swapon bc3 slice dest) else (bc3, []))"

definition on_demote :: "broker_core \<Rightarrow> string \<Rightarrow> broker_core \<times> outbound list" where
  "on_demote bc reason =
     (let bc1 = bc\<lparr>bc_demotes_total := saturating_add u64_max (bc_demotes_total bc) 1,
                   bc_last_demote_reason := Some reason\<rparr>;
          present = map fst (filter (\<lambda>(_, t). tn_present t) (bc_tenants bc1))
      in (bc1, Log (LogDemoteAll reason) # concat (map (\<lambda>i. to_tenant bc1 i DemoteAll) present)))"

definition status_reply :: "broker_core \<Rightarrow> msg" where
  "status_reply bc =
     StatusReply
       (map (\<lambda>(i, t). \<lparr>ts_id = i, ts_name = tn_name t, ts_psi = tn_psi t, ts_slices = slices_of bc i,
                       ts_present = tn_present t,
                       ts_bytes_served =
                         fold (\<lambda>c total. saturating_add u64_max total (io_bytes_served c))
                           (filter_map (nth_opt (bc_slice_io bc)) (slices_of bc i)) 0\<rparr>)
            (bc_tenants bc))
       (sm_slices (bc_slice_map bc))
       (filter_map (\<lambda>s. map_option (\<lambda>c. \<lparr>sio_id = sl_id s, sio_bytes_served = io_bytes_served c,
                                         sio_io_count = io_io_count c\<rparr>)
                          (nth_opt (bc_slice_io bc) (sl_id s)))
            (sm_slices (bc_slice_map bc)))
       None"

definition on_msg :: "broker_core \<Rightarrow> nat \<Rightarrow> msg \<Rightarrow> instant \<Rightarrow> broker_core \<times> outbound list" where
  "on_msg bc sid m now =
     (case m of
        Register proto tenant transport \<Rightarrow> on_register bc sid proto tenant transport
      | Psi sample swaps mem \<Rightarrow> on_psi bc sid sample swaps mem now
      | SwapOnDone slice ok detail \<Rightarrow> on_swap_on_done bc slice ok detail
      | SwapOffDone slice ok detail \<Rightarrow> on_swap_off_done bc slice ok detail
      | Status \<Rightarrow> (bc, [ToSession sid (status_reply bc)])
      | LeaseRequest bytes \<Rightarrow> on_lease_request bc sid bytes
      | LeaseRelease lease \<Rightarrow> on_lease_release bc sid lease
      | other \<Rightarrow> (bc, [ToSession sid (ErrorMsg (ReasonUnexpected other)), CloseSession sid]))"

subsection \<open>The tick\<close>

definition lease_only :: "transport_kind \<Rightarrow> bool" where
  "lease_only transport \<longleftrightarrow> transport = WinDrive \<or> transport = DccAgent"

definition present_views :: "broker_core \<Rightarrow> tenant_view list" where
  "present_views bc =
     map (\<lambda>(i, t). \<lparr>tv_id = i, tv_psi = tn_psi t,
                    tv_slices = length (slices_of bc i) mod (u16_max + 1)\<rparr>)
       (filter (\<lambda>(_, t). tn_present t \<and> \<not> lease_only (tn_transport t)) (bc_tenants bc))"

definition visible_slices :: "broker_core \<Rightarrow> slice list" where
  "visible_slices bc =
     filter (\<lambda>s. case sl_tenant s of
                   None \<Rightarrow> True
                 | Some t \<Rightarrow> (case bc_tenant bc t of Some ts \<Rightarrow> tn_present ts | None \<Rightarrow> False))
       (sm_slices (bc_slice_map bc))"

definition pending_request :: "broker_core \<Rightarrow> (tenant_id \<times> nat) option" where
  "pending_request bc =
     map_option (\<lambda>p. (pl_holder p, pl_requested_bytes p)) (lb_pending (bc_lease_book bc))"

definition granted_bytes :: "slice_map \<Rightarrow> slice_id list \<Rightarrow> nat option" where
  "granted_bytes m slices =
     try_fold (\<lambda>total slice.
         case sm_get m slice of
           None \<Rightarrow> None
         | Some current \<Rightarrow>
             if sl_state current = Free then checked_add u64_max total (sl_len current) else None)
       0 slices"

text \<open>The loop that reserves the granted slices; it stops at the first refusal.\<close>

fun lease_loop :: "slice_map \<Rightarrow> slice_id list \<Rightarrow> slice_id list \<Rightarrow> slice_map \<times> slice_id list \<times> bool" where
  "lease_loop m leased [] = (m, leased, False)"
| "lease_loop m leased (slice # slices) =
     (let (m', r) = sm_lease m slice
      in if is_ok r then lease_loop m' (leased @ [slice]) slices else (m', leased, True))"

definition apply_grant ::
  "instant \<Rightarrow> tenant_id \<Rightarrow> slice_id list \<Rightarrow> broker_core \<Rightarrow> broker_core \<times> outbound list" where
  "apply_grant now holder slices bc =
     (if bc_lease_ttl bc = 0 \<or> instant_add now (bc_lease_ttl bc) = None then
        let bc1 = bc\<lparr>bc_lease_book := fst (cancel_pending (bc_lease_book bc) holder)\<rparr>
        in (bc1, Log LogInvalidTtl # to_tenant bc1 holder (LeaseDenied ''lease_ttl_invalid''))
      else case granted_bytes (bc_slice_map bc) slices of
          None \<Rightarrow> (bc, [Log LogUnavailableSlices])
        | Some granted \<Rightarrow>
            (case grant_pending (bc_lease_book bc) granted now (bc_lease_ttl bc) of
               (book, Err _) \<Rightarrow> (bc\<lparr>bc_lease_book := book\<rparr>, [Log LogGrantDiverged])
             | (book, Ok lease) \<Rightarrow>
                 let (m, leased, failed) = lease_loop (bc_slice_map bc) [] slices
                 in if failed then
                      (bc\<lparr>bc_slice_map := fold (\<lambda>i m. fst (sm_unlease m i)) leased m,
                          bc_lease_book := fst (lb_release book holder (ll_id lease))\<rparr>,
                       [Log LogRolledBack])
                    else
                      let bc1 = bc\<lparr>bc_slice_map := m, bc_lease_book := book\<rparr>
                      in (bc1, Log (LogLeaseGranted (ll_id lease) holder slices) #
                               to_tenant bc1 holder (LeaseGranted (ll_id lease) granted))))"

definition view_pressure :: "tenant_view list \<Rightarrow> tenant_id \<Rightarrow> fp" where
  "view_pressure present t =
     (case find (\<lambda>v. tv_id v = t) present of Some v \<Rightarrow> view_psi v | None \<Rightarrow> fp_zero)"

definition apply_move ::
  "instant \<Rightarrow> tenant_view list \<Rightarrow> slice_id \<Rightarrow> tenant_id \<Rightarrow> tenant_id \<Rightarrow> broker_core \<Rightarrow>
   broker_core \<times> outbound list" where
  "apply_move now present slice from to bc =
     (let (m, r) = sm_drain (bc_slice_map bc) slice
      in if is_ok r then
           let bc1 = bc\<lparr>bc_slice_map := m, bc_pending_dest := (bc_pending_dest bc)(slice \<mapsto> to),
                        bc_last_rebalance := Some now\<rparr>
           in (bc1, Log (LogMove slice from (view_pressure present from) to (view_pressure present to)) #
                    to_tenant bc1 from (SwapOff slice))
         else (bc\<lparr>bc_slice_map := m\<rparr>, []))"

fun apply_action ::
  "instant \<Rightarrow> tenant_view list \<Rightarrow> action \<Rightarrow> broker_core \<Rightarrow> broker_core \<times> outbound list" where
  "apply_action now present (AssignFree slice to) bc =
     (let (m, r) = sm_assign (bc_slice_map bc) slice to;
          bc1 = bc\<lparr>bc_slice_map := m\<rparr>
      in if is_ok r then (bc1, Log (LogAssign slice to) # emit_swapon bc1 slice to) else (bc1, []))"
| "apply_action now present (MoveSlice slice from to) bc = apply_move now present slice from to bc"
| "apply_action now present (RevertMove slice from to) bc = apply_move now present slice from to bc"
| "apply_action now present (RevokeForLease slice from) bc =
     (let (m, r) = sm_drain (bc_slice_map bc) slice;
          bc1 = bc\<lparr>bc_slice_map := m\<rparr>
      in if is_ok r then (bc1, Log (LogRevoke slice from) # to_tenant bc1 from (SwapOff slice))
         else (bc1, []))"
| "apply_action now present (GrantLease holder slices) bc = apply_grant now holder slices bc"

fun apply_actions ::
  "instant \<Rightarrow> tenant_view list \<Rightarrow> action list \<Rightarrow> broker_core \<Rightarrow> broker_core \<times> outbound list" where
  "apply_actions now present [] bc = (bc, [])"
| "apply_actions now present (a # as) bc =
     (let (bc1, out1) = apply_action now present a bc;
          (bc2, out2) = apply_actions now present as bc1
      in (bc2, out1 @ out2))"

definition tick_arbiter :: "broker_core \<Rightarrow> instant \<Rightarrow> (broker_core \<times> outbound list) option" where
  "tick_arbiter bc now =
     (let present = present_views bc
      in case tick (bc_arbiter bc) now present (visible_slices bc) (pending_request bc) of
           None \<Rightarrow> None
         | Some (ar, r) \<Rightarrow>
             let bc1 = bc\<lparr>bc_arbiter := ar\<rparr>
             in Some (case r of
                        Ok actions \<Rightarrow> apply_actions now present actions bc1
                      | Err e \<Rightarrow> (bc1, [Log (LogArbiterError e)])))"

text \<open>One entry of \<open>pending_zero\<close>: count the tick, report at the threshold, zero again after the grace.\<close>

definition retry_entry :: "slice_map \<Rightarrow> slice_id \<times> nat \<Rightarrow> (slice_id \<times> nat) \<times> outbound list" where
  "retry_entry m entry =
     (let (slice, n) = entry;
          count = wrapping_add u32_max n 1
      in ((slice, count),
          (if count = ZERO_RETRY_ERROR then [Log (LogZeroStuck slice)] else []) @
          (if count > ZERO_RETRY_GRACE then
             (case sm_get m slice of
                Some s \<Rightarrow> [ZeroSlice slice (sl_offset s) (sl_len s)]
              | None \<Rightarrow> [])
           else [])))"

definition retry_stuck_zeroing :: "broker_core \<Rightarrow> broker_core \<times> outbound list" where
  "retry_stuck_zeroing bc =
     (let steps = map (retry_entry (bc_slice_map bc)) (bc_pending_zero bc)
      in (bc\<lparr>bc_pending_zero := map fst steps\<rparr>, concat (map snd steps)))"

definition sum_sat :: "nat list \<Rightarrow> nat" where
  "sum_sat xs = fold (\<lambda>x total. saturating_add u64_max total x) xs 0"

definition telemetry_input :: "broker_core \<Rightarrow> reconcile_input" where
  "telemetry_input bc =
     \<lparr>ri_alloc_active_bytes =
        sum_sat (map sl_len (filter (\<lambda>s. sl_state s = Active \<or> sl_state s = Draining)
          (sm_slices (bc_slice_map bc)))),
      ri_occupied_swap_bytes = sum_sat (map (\<lambda>(_, t). tn_occupied_bytes t) (bc_tenants bc)),
      ri_stuck_draining = (\<exists>(_, n) \<in> set (bc_pending_zero bc). n \<ge> ZERO_RETRY_ERROR),
      ri_demotes_delta = saturating_sub (bc_demotes_total bc) (bc_demotes_at_last_sample bc),
      ri_any_source_missing =
        (\<not> vg_total (bc_vram bc) > 0 \<or> \<not> (\<exists>(_, t) \<in> set (bc_tenants bc). tn_present t))\<rparr>"

definition emit_telemetry :: "broker_core \<Rightarrow> broker_core \<times> outbound list" where
  "emit_telemetry bc =
     (let inp = telemetry_input bc;
          alloc_active = ri_alloc_active_bytes inp;
          occupied = ri_occupied_swap_bytes inp;
          mems = filter_map (\<lambda>(_, t). tn_mem t) (bc_tenants bc);
          page_io = (if mems \<noteq> [] then Some (sum_sat (map tm_diskstats_io mems)) else None);
          has_vram = (vg_total (bc_vram bc) > 0);
          vram_alloc_daemon = saturating_add u64_max alloc_active CANARY_BYTES;
          vram_total_used =
            (if has_vram then Some (saturating_sub (vg_total (bc_vram bc)) (vg_free (bc_vram bc)))
             else None);
          vram_others = map_option (\<lambda>u. vram_outros u vram_alloc_daemon) vram_total_used;
          (delta, candidate) = reconcile inp (bc_tol_frac bc);
          count = (if candidate = bc_recon_flag bc then saturating_add u32_max (bc_recon_count bc) 1
                   else 1);
          confirmed =
            (case candidate of
               Eviction \<Rightarrow> Eviction
             | NoFlag \<Rightarrow> NoFlag
             | sustained \<Rightarrow> if count \<ge> bc_recon_streak bc then sustained else NoFlag);
          bc1 = bc\<lparr>bc_demotes_at_last_sample := bc_demotes_total bc, bc_recon_flag := candidate,
                   bc_recon_count := count\<rparr>
      in (bc1,
          (if confirmed \<noteq> NoFlag then [Log (LogReconcile confirmed delta (bc_last_demote_reason bc))]
           else []) @
          [Telemetry
             \<lparr>tc_tenant = None, tc_slice = None, tc_swap_used = occupied,
              tc_alloc_active = alloc_active, tc_page_io_s = page_io,
              tc_vram_alloc_daemon = vram_alloc_daemon, tc_vram_total_used = vram_total_used,
              tc_vram_outros = vram_others, tc_canario_demotes = bc_demotes_total bc,
              tc_demote_reason = bc_last_demote_reason bc, tc_reconcile_delta = delta,
              tc_flag = confirmed\<rparr>]))"

definition expire_lease :: "broker_core \<Rightarrow> instant \<Rightarrow> broker_core \<times> outbound list" where
  "expire_lease bc now =
     (let (book, expired) = expire (bc_lease_book bc) now;
          bc1 = bc\<lparr>bc_lease_book := book\<rparr>
      in case expired of
           None \<Rightarrow> (bc1, [])
         | Some lease \<Rightarrow>
             let (bc2, out) = release_slices bc1 (ll_id lease)
             in (bc2, Log (LogLeaseExpired (ll_id lease)) # out))"

definition on_tick :: "broker_core \<Rightarrow> instant \<Rightarrow> (broker_core \<times> outbound list) option" where
  "on_tick bc now =
     (let (bc1, out1) = expire_lease bc now
      in case tick_arbiter bc1 now of
           None \<Rightarrow> None
         | Some (bc2, out2) \<Rightarrow>
             let (bc3, out3) = retry_stuck_zeroing bc2;
                 (bc4, out4) = emit_telemetry bc3
             in Some (bc4, out1 @ out2 @ out3 @ out4))"

definition handle :: "broker_core \<Rightarrow> core_event \<Rightarrow> instant \<Rightarrow> (broker_core \<times> outbound list) option" where
  "handle bc ev now =
     (case ev of
        CoreMsg sid m \<Rightarrow> Some (on_msg bc sid m now)
      | Disconnected sid \<Rightarrow> Some (on_disconnect bc sid)
      | ZeroDone slice ok \<Rightarrow> Some (on_zero_done bc slice ok)
      | Demote reason \<Rightarrow> Some (on_demote bc reason)
      | Tick \<Rightarrow> on_tick bc now)"

end
