(* ===== verification/Broker_Inv.thy ===== *)
theory Broker_Inv
  imports Broker_Core
begin

text \<open>
  Invariants of the broker core over all reachable states: the handlers change the slice map by
  slice transitions only, the leased slices are exactly the bytes of the active lease, and every
  reference to a tenant names a registered one. From these follow the hygiene of slice movements,
  the soundness of lease grants and the absence of the error branches the code only guards against.
\<close>

subsection \<open>Every handler changes the slice map by slice transitions only\<close>

datatype slice_op =
    AssignOp slice_id tenant_id
  | DrainOp slice_id
  | ReleaseOp slice_id
  | LeaseOp slice_id
  | UnleaseOp slice_id

fun slice_exec :: "slice_op \<Rightarrow> slice_map \<Rightarrow> slice_map" where
  "slice_exec (AssignOp i t) m = fst (sm_assign m i t)"
| "slice_exec (DrainOp i) m = fst (sm_drain m i)"
| "slice_exec (ReleaseOp i) m = fst (sm_release m i)"
| "slice_exec (LeaseOp i) m = fst (sm_lease m i)"
| "slice_exec (UnleaseOp i) m = fst (sm_unlease m i)"

definition slice_run :: "slice_op list \<Rightarrow> slice_map \<Rightarrow> slice_map" where
  "slice_run ops m = fold slice_exec ops m"

lemma slice_run_simps [simp]:
  "slice_run [] m = m"
  "slice_run (op # ops) m = slice_run ops (slice_exec op m)"
  "slice_run (ops @ ops') m = slice_run ops' (slice_run ops m)"
  by (simp_all add: slice_run_def)

lemma slice_exec_geometry [simp]: "sm_geometry (slice_exec op m) = sm_geometry m"
  by (cases op) (simp_all add: assign.geometry drain.geometry release.geometry lease.geometry
      unlease.geometry)

lemma slice_run_geometry [simp]: "sm_geometry (slice_run ops m) = sm_geometry m"
  by (induction ops arbitrary: m) simp_all

lemma slice_exec_wf: "sm_wf m \<Longrightarrow> sm_wf (slice_exec op m)"
  by (cases op) (simp_all add: assign.wf drain.wf release.wf lease.wf unlease.wf)

lemma slice_run_wf: "sm_wf m \<Longrightarrow> sm_wf (slice_run ops m)"
  by (induction ops arbitrary: m) (simp_all add: slice_exec_wf)

text \<open>An owned slice keeps its owner unless it is released; a draining one also keeps its state.\<close>

lemma slice_exec_owned:
  assumes "sm_get m i = Some s" "sl_state s \<in> {Active, Draining}" "op \<noteq> ReleaseOp i"
  shows "\<exists>s'. sm_get (slice_exec op m) i = Some s' \<and> sl_tenant s' = sl_tenant s \<and>
    (sl_state s' = sl_state s \<or> sl_state s = Active \<and> sl_state s' = Draining)"
  using assms
  by (cases op) (auto simp: assign.get_step drain.get_step release.get_step lease.get_step
      unlease.get_step simp del: map_option_eq_Some split: if_splits)

lemma slice_run_owned:
  assumes "sm_get m i = Some s" "sl_state s \<in> {Active, Draining}" "ReleaseOp i \<notin> set ops"
  shows "\<exists>s'. sm_get (slice_run ops m) i = Some s' \<and> sl_tenant s' = sl_tenant s \<and>
    (sl_state s' = sl_state s \<or> sl_state s = Active \<and> sl_state s' = Draining)"
  using assms
proof (induction ops arbitrary: m s)
  case (Cons op ops)
  from slice_exec_owned [OF Cons.prems(1,2), of op] Cons.prems(3) obtain s1 where
    s1: "sm_get (slice_exec op m) i = Some s1" "sl_tenant s1 = sl_tenant s"
      "sl_state s1 = sl_state s \<or> sl_state s = Active \<and> sl_state s1 = Draining" by auto
  then have "sl_state s1 \<in> {Active, Draining}" using Cons.prems(2) by auto
  from Cons.IH [OF s1(1) this] Cons.prems(3) s1 show ?case by auto
qed simp

fun lease_op_free :: "slice_op \<Rightarrow> bool" where
  "lease_op_free (LeaseOp _) = False"
| "lease_op_free (UnleaseOp _) = False"
| "lease_op_free _ = True"

lemma slice_run_leased:
  "list_all lease_op_free ops \<Longrightarrow> bytes_in Leased (slice_run ops m) = bytes_in Leased m"
proof (induction ops arbitrary: m)
  case (Cons op ops)
  have "bytes_in Leased (slice_exec op m) = bytes_in Leased m"
    using Cons.prems by (cases op)
      (simp_all add: assign.bytes_other drain.bytes_other release.bytes_other)
  with Cons show ?case by simp
qed simp

text \<open>
  \<open>slice_change R bc bc'\<close>: the slice map of \<open>bc'\<close> comes from the one of \<open>bc\<close> by transitions that all
  satisfy \<open>R\<close>.
\<close>

definition slice_change :: "(slice_op \<Rightarrow> bool) \<Rightarrow> broker_core \<Rightarrow> broker_core \<Rightarrow> bool" where
  "slice_change R bc bc' \<longleftrightarrow>
     (\<exists>ops. list_all R ops \<and> bc_slice_map bc' = slice_run ops (bc_slice_map bc))"

lemma slice_change_refl: "bc_slice_map bc' = bc_slice_map bc \<Longrightarrow> slice_change R bc bc'"
  unfolding slice_change_def by (intro exI [of _ "[]"]) simp

lemma slice_change_trans:
  "slice_change R a b \<Longrightarrow> slice_change R b c \<Longrightarrow> slice_change R a c"
  unfolding slice_change_def by (metis list_all_append slice_run_simps(3))

lemma slice_change_one:
  "bc_slice_map bc' = slice_exec op (bc_slice_map bc) \<Longrightarrow> R op \<Longrightarrow> slice_change R bc bc'"
  unfolding slice_change_def by (intro exI [of _ "[op]"]) simp

lemma slice_change_mono:
  "slice_change R bc bc' \<Longrightarrow> (\<And>op. R op \<Longrightarrow> Q op) \<Longrightarrow> slice_change Q bc bc'"
  unfolding slice_change_def by (metis (mono_tags, lifting) list_all_iff)

fun is_assign :: "slice_op \<Rightarrow> bool" where
  "is_assign (AssignOp _ _) = True"
| "is_assign _ = False"

fun is_unlease :: "slice_op \<Rightarrow> bool" where
  "is_unlease (UnleaseOp _) = True"
| "is_unlease _ = False"

fun is_release :: "slice_op \<Rightarrow> bool" where
  "is_release (ReleaseOp _) = True"
| "is_release _ = False"

lemma readopt_ops:
  "\<exists>ops. list_all is_assign ops \<and> fst (readopt m tid es) = slice_run ops m"
proof (induction m tid es rule: readopt.induct)
  case (2 m tid e es)
  show ?case
  proof (cases "dev_to_slice (se_dev e)")
    case (Some slice)
    let ?take = "(case sm_get m slice of Some s \<Rightarrow> sl_state s = Free | None \<Rightarrow> False) \<and>
        is_ok (snd (sm_assign m slice tid))"
    show ?thesis
    proof (cases ?take)
      case True
      from "2.IH"(2) [OF Some True] obtain ops where "list_all is_assign ops"
        "fst (readopt (fst (sm_assign m slice tid)) tid es) = slice_run ops (fst (sm_assign m slice tid))"
        by blast
      with Some True show ?thesis
        by (intro exI [of _ "AssignOp slice tid # ops"]) (simp add: case_prod_beta)
    next
      case False
      then have "readopt m tid (e # es) = readopt m tid es"
        by (simp only: readopt.simps Some option.case if_not_P [OF False] if_False)
      with "2.IH"(3) [OF Some False] show ?thesis by simp
    qed
  qed (use "2.IH"(1) in simp)
qed (auto intro: exI [of _ "[]"])

lemma fold_unlease_ops: "fold (\<lambda>i m. fst (sm_unlease m i)) is m = slice_run (map UnleaseOp is) m"
  by (induction "is" arbitrary: m) simp_all

lemma lease_loop_ops:
  "\<exists>ops. (\<forall>op \<in> set ops. \<exists>i. op = LeaseOp i) \<and> fst (lease_loop m leased is) = slice_run ops m"
proof (induction m leased "is" rule: lease_loop.induct)
  case (2 m leased slice slices)
  obtain m' r where mr: "sm_lease m slice = (m', r)" by (cases "sm_lease m slice")
  show ?case
  proof (cases "is_ok r")
    case True
    from "2.IH" [OF mr [symmetric] refl True] obtain ops where
      "\<forall>op \<in> set ops. \<exists>i. op = LeaseOp i" "fst (lease_loop m' (leased @ [slice]) slices) = slice_run ops m'"
      by blast
    with True mr show ?thesis by (intro exI [of _ "LeaseOp slice # ops"]) simp
  next
    case False
    with mr show ?thesis by (intro exI [of _ "[LeaseOp slice]"]) simp
  qed
qed (auto intro: exI [of _ "[]"])


fun may_release :: "core_event \<Rightarrow> slice_id \<Rightarrow> bool" where
  "may_release (ZeroDone j ok) i \<longleftrightarrow> j = i \<and> ok"
| "may_release (CoreMsg sid (SwapOnDone j ok d)) i \<longleftrightarrow> j = i \<and> \<not> ok"
| "may_release _ i \<longleftrightarrow> False"

fun allowed :: "core_event \<Rightarrow> slice_op \<Rightarrow> bool" where
  "allowed ev (ReleaseOp i) = may_release ev i"
| "allowed ev _ = True"

lemma allowed_simps [simp]:
  "is_assign op \<Longrightarrow> allowed ev op" "is_unlease op \<Longrightarrow> allowed ev op" "\<not> is_release op \<Longrightarrow> allowed ev op"
  by (cases op; simp)+

lemma on_register_map [simp]:
  "bc_slice_map (fst (on_register bc sid proto name transport)) = bc_slice_map bc"
  by (simp add: on_register_def Let_def)

lemma on_disconnect_map [simp]: "bc_slice_map (fst (on_disconnect bc sid)) = bc_slice_map bc"
  by (simp add: on_disconnect_def case_prod_beta split: option.split)

lemma on_lease_request_map [simp]:
  "bc_slice_map (fst (on_lease_request bc sid bytes)) = bc_slice_map bc"
  by (simp add: on_lease_request_def case_prod_beta split: option.split)

lemma on_demote_map [simp]: "bc_slice_map (fst (on_demote bc reason)) = bc_slice_map bc"
  by (simp add: on_demote_def Let_def)

lemma on_swap_off_done_map [simp]:
  "bc_slice_map (fst (on_swap_off_done bc slice ok detail)) = bc_slice_map bc"
  by (simp add: on_swap_off_done_def split: option.split)

lemma retry_stuck_zeroing_map [simp]:
  "bc_slice_map (fst (retry_stuck_zeroing bc)) = bc_slice_map bc"
  by (simp add: retry_stuck_zeroing_def Let_def)

lemma emit_telemetry_map [simp]: "bc_slice_map (fst (emit_telemetry bc)) = bc_slice_map bc"
  by (simp add: emit_telemetry_def Let_def case_prod_beta)

lemma on_psi_change: "slice_change is_assign bc (fst (on_psi bc sid sample swaps mem now))"
proof (cases "bc_sessions bc sid")
  case (Some tid)
  from readopt_ops [of "bc_slice_map bc" tid swaps] obtain ops where
    "list_all is_assign ops" "fst (readopt (bc_slice_map bc) tid swaps) = slice_run ops (bc_slice_map bc)"
    by blast
  then show ?thesis
    using Some
    by (auto simp: on_psi_def slice_change_def Let_def case_prod_beta split: option.split
        intro: exI [of _ "[]"])
qed (auto simp: on_psi_def intro: slice_change_refl)

lemma unlease_all_ops: "unlease_all m = slice_run (map UnleaseOp (ids_in Leased (sm_slices m))) m"
  by (simp add: unlease_all_def fold_unlease_ops)

lemma list_all_unlease [simp]: "list_all is_unlease (map UnleaseOp is)"
  by (simp add: list_all_iff)

lemma on_lease_release_change:
  "slice_change is_unlease bc (fst (on_lease_release bc sid lease))"
proof -
  have "bc_slice_map (fst (on_lease_release bc sid lease)) \<in> {bc_slice_map bc, unlease_all (bc_slice_map bc)}"
    by (auto simp: on_lease_release_def Let_def case_prod_beta
        split: option.split result.split bool.split lease_deny.split)
  then show ?thesis
    by (auto simp: slice_change_def unlease_all_ops intro: exI [of _ "[]"] list_all_unlease)
qed

lemma expire_lease_change: "slice_change is_unlease bc (fst (expire_lease bc now))"
  by (auto simp: slice_change_def expire_lease_def release_slices_def unlease_all_ops
      case_prod_beta Let_def split: option.split intro: exI [of _ "[]"] list_all_unlease)

lemma on_swap_on_done_change:
  "slice_change (\<lambda>op. allowed (CoreMsg sid (SwapOnDone slice ok detail)) op \<and> lease_op_free op) bc
     (fst (on_swap_on_done bc slice ok detail))"
proof (cases ok)
  case False
  let ?ops = "[DrainOp slice] @ (if is_ok (snd (sm_drain (bc_slice_map bc) slice))
     then [ReleaseOp slice] else [])"
  from False show ?thesis
    unfolding slice_change_def
    by (intro exI [of _ ?ops]) (simp add: on_swap_on_done_def case_prod_beta Let_def)
qed (simp add: on_swap_on_done_def slice_change_refl)

lemma on_zero_done_change:
  "slice_change (\<lambda>op. allowed (ZeroDone slice ok) op \<and> lease_op_free op) bc
     (fst (on_zero_done bc slice ok))"
proof (cases "ok \<and> is_ok (snd (sm_release (bc_slice_map bc) slice))")
  case True
  let ?ops = "[ReleaseOp slice] @ (case bc_pending_dest bc slice of None \<Rightarrow> []
     | Some dest \<Rightarrow> [AssignOp slice dest])"
  from True show ?thesis
    unfolding slice_change_def
    by (intro exI [of _ ?ops])
      (cases "snd (sm_release (bc_slice_map bc) slice)";
       simp add: on_zero_done_def case_prod_beta Let_def split: option.split)
next
  case False
  then have "bc_slice_map (fst (on_zero_done bc slice ok)) = bc_slice_map bc"
    by (cases "snd (sm_release (bc_slice_map bc) slice)")
      (auto simp: on_zero_done_def case_prod_beta Let_def)
  then show ?thesis by (rule slice_change_refl)
qed

lemma apply_action_change: "slice_change (\<lambda>op. \<not> is_release op) bc (fst (apply_action now present a bc))"
proof (cases a)
  case (GrantLease holder slices)
  from lease_loop_ops [of "bc_slice_map bc" "[]" slices] obtain ops where
    ops: "\<forall>op \<in> set ops. \<exists>i. op = LeaseOp i" "fst (lease_loop (bc_slice_map bc) [] slices) = slice_run ops (bc_slice_map bc)"
    by blast
  have rel: "list_all (\<lambda>op. \<not> is_release op) ops" using ops(1) by (auto simp: list_all_iff)
  define leased where "leased = fst (snd (lease_loop (bc_slice_map bc) [] slices))"
  have "bc_slice_map (fst (apply_grant now holder slices bc)) \<in>
      {bc_slice_map bc, slice_run ops (bc_slice_map bc),
       slice_run (ops @ map UnleaseOp leased) (bc_slice_map bc)}"
    by (simp add: apply_grant_def Let_def case_prod_beta ops(2) fold_unlease_ops leased_def
        split: option.split result.split)
  then have "\<exists>ops' \<in> {[], ops, ops @ map UnleaseOp leased}.
      bc_slice_map (fst (apply_grant now holder slices bc)) = slice_run ops' (bc_slice_map bc)"
    by (simp del: slice_run_simps(3) add: slice_run_simps(3) [symmetric])
  moreover have "\<forall>ops' \<in> {[], ops, ops @ map UnleaseOp leased}. list_all (\<lambda>op. \<not> is_release op) ops'"
    using rel by (auto simp: list_all_iff)
  ultimately obtain ops' where "list_all (\<lambda>op. \<not> is_release op) ops'"
    "bc_slice_map (fst (apply_grant now holder slices bc)) = slice_run ops' (bc_slice_map bc)" by blast
  with GrantLease show ?thesis unfolding slice_change_def by (intro exI [of _ ops']) simp
next
  case (AssignFree slice to)
  then show ?thesis by (intro slice_change_one [of _ "AssignOp slice to"]) (simp_all add: case_prod_beta Let_def)
next
  case (MoveSlice slice src to)
  then show ?thesis
    by (intro slice_change_one [of _ "DrainOp slice"]) (simp_all add: apply_move_def case_prod_beta Let_def)
next
  case (RevertMove slice src to)
  then show ?thesis
    by (intro slice_change_one [of _ "DrainOp slice"]) (simp_all add: apply_move_def case_prod_beta Let_def)
next
  case (RevokeForLease slice src)
  then show ?thesis by (intro slice_change_one [of _ "DrainOp slice"]) (simp_all add: case_prod_beta Let_def)
qed

lemma apply_actions_change:
  "slice_change (\<lambda>op. \<not> is_release op) bc (fst (apply_actions now present as bc))"
proof (induction now present "as" bc rule: apply_actions.induct)
  case (2 now present a as bc)
  obtain bc1 out1 where step: "apply_action now present a bc = (bc1, out1)"
    by (cases "apply_action now present a bc")
  have "slice_change (\<lambda>op. \<not> is_release op) bc bc1"
    using apply_action_change [of bc now present a] step by simp
  moreover have "slice_change (\<lambda>op. \<not> is_release op) bc1 (fst (apply_actions now present as bc1))"
    using "2.IH" [OF step [symmetric] refl] .
  ultimately show ?case
    using step by (simp add: case_prod_beta slice_change_trans)
qed (simp add: slice_change_refl)

lemma tick_arbiterE:
  assumes "tick_arbiter bc now = Some (bc', out)"
  obtains ar actions where "tick (bc_arbiter bc) now (present_views bc) (visible_slices bc)
        (pending_request bc) = Some (ar, Ok actions)"
      "apply_actions now (present_views bc) actions (bc\<lparr>bc_arbiter := ar\<rparr>) = (bc', out)"
  | ar e where "tick (bc_arbiter bc) now (present_views bc) (visible_slices bc)
        (pending_request bc) = Some (ar, Err e)"
      "bc' = bc\<lparr>bc_arbiter := ar\<rparr>" "out = [Log (LogArbiterError e)]"
proof -
  from assms obtain ar r where "tick (bc_arbiter bc) now (present_views bc) (visible_slices bc)
        (pending_request bc) = Some (ar, r)" and
      "(case r of Ok actions \<Rightarrow> apply_actions now (present_views bc) actions (bc\<lparr>bc_arbiter := ar\<rparr>)
        | Err e \<Rightarrow> (bc\<lparr>bc_arbiter := ar\<rparr>, [Log (LogArbiterError e)])) = (bc', out)"
    by (auto simp: tick_arbiter_def Let_def split: option.splits)
  with that show thesis by (cases r) auto
qed

lemma tick_arbiter_change:
  assumes "tick_arbiter bc now = Some (bc', out)"
  shows "slice_change (\<lambda>op. \<not> is_release op) bc bc'"
  using assms
proof (cases rule: tick_arbiterE)
  case (1 ar actions)
  have "slice_change (\<lambda>op. \<not> is_release op) bc (bc\<lparr>bc_arbiter := ar\<rparr>)"
    by (rule slice_change_refl) simp
  then show ?thesis
    using apply_actions_change [of "bc\<lparr>bc_arbiter := ar\<rparr>" now "present_views bc" actions] 1(2)
    by (simp add: slice_change_trans)
next
  case (2 ar e)
  then show ?thesis by (simp add: slice_change_refl)
qed

lemma on_tickE:
  assumes "on_tick bc now = Some (bc', out)"
  obtains bc2 out2 where "tick_arbiter (fst (expire_lease bc now)) now = Some (bc2, out2)"
    "bc' = fst (emit_telemetry (fst (retry_stuck_zeroing bc2)))"
    "out = snd (expire_lease bc now) @ out2 @ snd (retry_stuck_zeroing bc2) @
       snd (emit_telemetry (fst (retry_stuck_zeroing bc2)))"
  using assms by (auto simp: on_tick_def case_prod_beta split: option.splits)

lemma unlease_not_release: "is_unlease op \<Longrightarrow> \<not> is_release op"
  by (cases op) auto

lemma on_tick_change:
  assumes "on_tick bc now = Some (bc', out)"
  shows "slice_change (\<lambda>op. \<not> is_release op) bc bc'"
  using assms
proof (cases rule: on_tickE)
  case (1 bc2 out2)
  have "slice_change (\<lambda>op. \<not> is_release op) bc (fst (expire_lease bc now))"
    by (rule slice_change_mono [OF expire_lease_change unlease_not_release])
  from slice_change_trans [OF this tick_arbiter_change [OF 1(1)]]
  have "slice_change (\<lambda>op. \<not> is_release op) bc bc2" .
  then show ?thesis by (rule slice_change_trans) (simp add: 1(2) slice_change_refl)
qed

lemma handle_change:
  assumes "handle bc ev now = Some (bc', out)"
  shows "slice_change (allowed ev) bc bc'"
proof (cases ev)
  case (CoreMsg sid m)
  have "slice_change (allowed (CoreMsg sid m)) bc (fst (on_msg bc sid m now))"
    by (cases m)
      (simp_all add: on_msg_def slice_change_refl slice_change_mono [OF on_swap_on_done_change [of sid]]
        slice_change_mono [OF on_psi_change] slice_change_mono [OF on_lease_release_change])
  with assms CoreMsg show ?thesis by (simp add: handle_def)
next
  case (ZeroDone i ok)
  with assms slice_change_mono [OF on_zero_done_change [of i ok bc], of "allowed (ZeroDone i ok)"]
  show ?thesis by (simp add: handle_def)
next
  case Tick
  with assms have "slice_change (\<lambda>op. \<not> is_release op) bc bc'"
    by (intro on_tick_change) (simp add: handle_def)
  then show ?thesis by (rule slice_change_mono) simp
next
  case (Disconnected sid)
  with assms on_disconnect_map [of bc sid] show ?thesis
    by (intro slice_change_refl) (simp add: handle_def)
next
  case (Demote reason)
  with assms on_demote_map [of bc reason] show ?thesis
    by (intro slice_change_refl) (simp add: handle_def)
qed

subsection \<open>Leased slices and the active lease\<close>

definition no_leased :: "slice_map \<Rightarrow> bool" where
  "no_leased m \<longleftrightarrow> (\<forall>i s. sm_get m i = Some s \<longrightarrow> sl_state s \<noteq> Leased)"

lemma no_leased_bytes: "sm_wf m \<Longrightarrow> no_leased m \<Longrightarrow> bytes_in Leased m = 0"
  using sm_get_mem by (fastforce simp: bytes_in_def no_leased_def sum_list_eq_0_iff)

lemma no_leased_ids: "sm_wf m \<Longrightarrow> no_leased m \<Longrightarrow> ids_in Leased (sm_slices m) = []"
  using sm_get_mem by (fastforce simp: ids_in_def no_leased_def filter_empty_conv)

lemma slice_exec_no_leased: "no_leased m \<Longrightarrow> lease_op_free op \<Longrightarrow> no_leased (slice_exec op m)"
  by (cases op)
    (auto simp: no_leased_def assign.get_step drain.get_step release.get_step split: if_splits)

lemma slice_run_no_leased: "no_leased m \<Longrightarrow> list_all lease_op_free ops \<Longrightarrow> no_leased (slice_run ops m)"
  by (induction ops arbitrary: m) (simp_all add: slice_exec_no_leased)

lemma get_unlease_run:
  "sm_get (slice_run (map UnleaseOp is) m) j =
   map_option (\<lambda>s. if j \<in> set is \<and> sl_state s = Leased then s\<lparr>sl_state := Free\<rparr> else s) (sm_get m j)"
proof (induction "is" arbitrary: m)
  case (Cons i "is")
  show ?case
    by (cases "sm_get m j") (auto simp: Cons.IH unlease.get_step)
qed (simp add: option.map_ident)

lemma unlease_all_no_leased: "sm_wf m \<Longrightarrow> no_leased (unlease_all m)"
proof -
  assume wf: "sm_wf m"
  have "j \<in> set (ids_in Leased (sm_slices m))" if "sm_get m j = Some s" "sl_state s = Leased" for j s
    using that sm_get_id [OF that(1)] by (auto simp: ids_in_mem)
  then show ?thesis
    by (auto simp: no_leased_def unlease_all_ops get_unlease_run split: if_splits
        dest: arg_cong [where f = sl_state])
qed

text \<open>The leased slices are backed by the active lease, byte for byte.\<close>

definition lease_backed :: "slice_map \<Rightarrow> lease_book \<Rightarrow> bool" where
  "lease_backed m book \<longleftrightarrow>
     (case lb_active_lease book of
        None \<Rightarrow> no_leased m
      | Some l \<Rightarrow> bytes_in Leased m = ll_bytes l)"

lemma lease_backed_frame:
  assumes "lease_backed m book" "list_all lease_op_free ops" "lb_active_lease book' = lb_active_lease book"
  shows "lease_backed (slice_run ops m) book'"
  using assms by (auto simp: lease_backed_def slice_run_no_leased slice_run_leased split: option.splits)

lemma sm_geometry_total:
  "sm_geometry m' = sm_geometry m \<Longrightarrow> sum_list (map sl_len (sm_slices m')) = sum_list (map sl_len (sm_slices m))"
proof -
  have *: "map sl_len (sm_slices m) = map (snd \<circ> snd) (sm_geometry m)" for m
    by (simp add: sm_geometry_def comp_def)
  show "sm_geometry m' = sm_geometry m \<Longrightarrow> ?thesis" unfolding * by simp
qed

text \<open>Granting: all granted slices are free and distinct, so the loop that leases them succeeds.\<close>

definition lens_of :: "slice_map \<Rightarrow> slice_id list \<Rightarrow> nat" where
  "lens_of m is = sum_list (map (\<lambda>i. case sm_get m i of Some s \<Rightarrow> sl_len s | None \<Rightarrow> 0) is)"

lemma try_fold_granted:
  assumes "try_fold (\<lambda>total slice.
         case sm_get m slice of
           None \<Rightarrow> None
         | Some current \<Rightarrow>
             if sl_state current = Free then checked_add u64_max total (sl_len current) else None)
       acc is = Some g"
  shows "(\<forall>i \<in> set is. \<exists>s. sm_get m i = Some s \<and> sl_state s = Free) \<and> g = acc + lens_of m is"
  using assms
proof (induction "is" arbitrary: acc)
  case (Cons i "is")
  then obtain s where s: "sm_get m i = Some s" "sl_state s = Free" "acc + sl_len s \<le> u64_max"
    by (auto simp: checked_add_def split: option.splits if_splits)
  with Cons.prems Cons.IH [of "acc + sl_len s"] show ?case
    by (simp add: checked_add_def lens_of_def)
qed (simp add: lens_of_def)

lemma granted_bytes_Some:
  "granted_bytes m is = Some g \<Longrightarrow>
   (\<forall>i \<in> set is. \<exists>s. sm_get m i = Some s \<and> sl_state s = Free) \<and> g = lens_of m is"
  unfolding granted_bytes_def by (drule try_fold_granted) simp

lemma lens_of_lease:
  assumes "i \<notin> set is"
  shows "lens_of (fst (sm_lease m i)) is = lens_of m is"
  unfolding lens_of_def
  by (intro arg_cong [where f = sum_list] map_cong refl) (use assms in \<open>auto simp: lease.get_step\<close>)

lemma lease_loop_granted:
  assumes "distinct is" "\<forall>i \<in> set is. \<exists>s. sm_get m i = Some s \<and> sl_state s = Free"
  shows "\<exists>m'. lease_loop m leased is = (m', leased @ is, False) \<and>
    bytes_in Leased m' = bytes_in Leased m + lens_of m is"
  using assms
proof (induction "is" arbitrary: m leased)
  case (Cons i "is")
  then obtain s where s: "sm_get m i = Some s" "sl_state s = Free" by auto
  have ok: "is_ok (snd (sm_lease m i))" using s by (auto simp: lease.is_ok_iff)
  have "\<forall>j \<in> set is. \<exists>s. sm_get (fst (sm_lease m i)) j = Some s \<and> sl_state s = Free"
    using Cons.prems by (auto simp: lease.get_step)
  from Cons.IH [OF _ this, of "leased @ [i]"] Cons.prems(1) obtain m' where
    m': "lease_loop (fst (sm_lease m i)) (leased @ [i]) is = (m', leased @ i # is, False)"
    "bytes_in Leased m' = bytes_in Leased (fst (sm_lease m i)) + lens_of (fst (sm_lease m i)) is"
    by auto
  have "bytes_in Leased (fst (sm_lease m i)) = bytes_in Leased m + sl_len s"
    using lease.bytes [OF s, of Leased] by simp
  moreover have "lens_of (fst (sm_lease m i)) is = lens_of m is"
    using Cons.prems(1) by (simp add: lens_of_lease)
  ultimately show ?case
    using m' ok s by (simp add: case_prod_beta lens_of_def)
qed (simp add: lens_of_def)

subsection \<open>The invariant\<close>

definition slices_uniform :: "slice_map \<Rightarrow> bool" where
  "slices_uniform m \<longleftrightarrow> (\<exists>len. \<forall>s \<in> set (sm_slices m). sl_len s = len)"

definition broker_inv :: "broker_core \<Rightarrow> bool" where
  "broker_inv bc \<longleftrightarrow>
     sm_wf (bc_slice_map bc) \<and> lease_inv (bc_lease_book bc) \<and>
     slices_uniform (bc_slice_map bc) \<and>
     sum_list (map sl_len (sm_slices (bc_slice_map bc))) = lb_capacity_bytes (bc_lease_book bc) \<and>
     lb_capacity_bytes (bc_lease_book bc) \<le> u64_max \<and>
     lease_backed (bc_slice_map bc) (bc_lease_book bc)"

lemma slices_uniform_geometry:
  "sm_geometry m' = sm_geometry m \<Longrightarrow> slices_uniform m' = slices_uniform m"
proof -
  have *: "slices_uniform m \<longleftrightarrow> (\<exists>len. \<forall>g \<in> set (sm_geometry m). snd (snd g) = len)" for m
    by (simp add: slices_uniform_def sm_geometry_def)
  show "sm_geometry m' = sm_geometry m \<Longrightarrow> ?thesis" by (simp add: *)
qed

text \<open>A change by transitions and by one lease book operation keeps all but the last conjunct.\<close>

lemma broker_inv_step:
  assumes "broker_inv bc" "slice_change R bc bc'"
    and "lease_inv (bc_lease_book bc')"
    and "lb_capacity_bytes (bc_lease_book bc') = lb_capacity_bytes (bc_lease_book bc)"
    and "lease_backed (bc_slice_map bc') (bc_lease_book bc')"
  shows "broker_inv bc'"
proof -
  from assms(2) obtain ops where ops: "bc_slice_map bc' = slice_run ops (bc_slice_map bc)"
    by (auto simp: slice_change_def)
  then have geo: "sm_geometry (bc_slice_map bc') = sm_geometry (bc_slice_map bc)" by simp
  show ?thesis
    using assms ops slice_run_wf slices_uniform_geometry [OF geo] sm_geometry_total [OF geo]
    by (simp add: broker_inv_def)
qed

lemma broker_inv_frame:
  assumes "broker_inv bc" "slice_change R bc bc'" "\<And>op. R op \<Longrightarrow> lease_op_free op"
    and "lease_inv (bc_lease_book bc')"
    and "lb_capacity_bytes (bc_lease_book bc') = lb_capacity_bytes (bc_lease_book bc)"
    and "lb_active_lease (bc_lease_book bc') = lb_active_lease (bc_lease_book bc)"
  shows "broker_inv bc'"
proof (rule broker_inv_step [OF assms(1,2,4,5)])
  from assms(2,3) obtain ops where "list_all lease_op_free ops"
    "bc_slice_map bc' = slice_run ops (bc_slice_map bc)"
    by (auto simp: slice_change_def list_all_iff)
  with assms(1,6) show "lease_backed (bc_slice_map bc') (bc_lease_book bc')"
    by (auto simp: broker_inv_def intro: lease_backed_frame)
qed

text \<open>The lease book after each handler.\<close>

lemma on_register_book [simp]:
  "bc_lease_book (fst (on_register bc sid proto name transport)) = bc_lease_book bc"
  by (simp add: on_register_def Let_def)

lemma on_psi_book: "bc_lease_book (fst (on_psi bc sid sample swaps mem now)) \<in>
    {bc_lease_book bc} \<union> range (\<lambda>h. lease_exec (OpRenew h now (bc_lease_ttl bc)) (bc_lease_book bc))"
  by (auto simp: on_psi_def Let_def case_prod_beta split: option.split)

lemma renew_active_lease [simp]:
  "lb_active_lease (lease_exec (OpRenew h now ttl) book) = lb_active_lease book"
  by (auto simp: lb_active_lease_def renew_active_def split: option.splits)

lemma on_disconnect_book: "bc_lease_book (fst (on_disconnect bc sid)) \<in>
    {bc_lease_book bc} \<union> range (\<lambda>h. lease_exec (OpDisconnect h) (bc_lease_book bc))"
  by (auto simp: on_disconnect_def case_prod_beta split: option.split)

lemma disconnect_active_lease [simp]:
  "lb_active_lease (lease_exec (OpDisconnect h) book) = lb_active_lease book"
  by (auto simp: lb_active_lease_def lb_disconnect_def cancel_pending_def Let_def split: option.splits)

lemma on_lease_request_book: "bc_lease_book (fst (on_lease_request bc sid bytes)) \<in>
    {bc_lease_book bc} \<union> range (\<lambda>h. lease_exec (OpRequest h bytes) (bc_lease_book bc))"
  by (auto simp: on_lease_request_def case_prod_beta split: option.split)

lemma request_active_lease [simp]:
  "lb_active_lease (lease_exec (OpRequest h b) book) = lb_active_lease book"
  by (auto simp: lb_active_lease_def begin_request_def Let_def split: option.splits)

lemma on_swap_on_done_book [simp]:
  "bc_lease_book (fst (on_swap_on_done bc slice ok detail)) = bc_lease_book bc"
  by (simp add: on_swap_on_done_def case_prod_beta Let_def)

lemma on_swap_off_done_book [simp]:
  "bc_lease_book (fst (on_swap_off_done bc slice ok detail)) = bc_lease_book bc"
  by (simp add: on_swap_off_done_def split: option.split)

lemma on_zero_done_book [simp]: "bc_lease_book (fst (on_zero_done bc slice ok)) = bc_lease_book bc"
  by (simp add: on_zero_done_def case_prod_beta Let_def split: option.split)

lemma on_demote_book [simp]: "bc_lease_book (fst (on_demote bc reason)) = bc_lease_book bc"
  by (simp add: on_demote_def Let_def)

lemma retry_stuck_zeroing_book [simp]:
  "bc_lease_book (fst (retry_stuck_zeroing bc)) = bc_lease_book bc"
  by (simp add: retry_stuck_zeroing_def Let_def)

lemma emit_telemetry_book [simp]: "bc_lease_book (fst (emit_telemetry bc)) = bc_lease_book bc"
  by (simp add: emit_telemetry_def Let_def case_prod_beta)

lemma assign_lease_op_free:
  "is_assign op \<Longrightarrow> lease_op_free op"
  by (cases op) auto


subsection \<open>Actions and the tick\<close>

fun is_grant :: "action \<Rightarrow> bool" where
  "is_grant (GrantLease _ _) = True"
| "is_grant _ = False"

lemma apply_action_free:
  assumes "\<not> is_grant a"
  shows "slice_change lease_op_free bc (fst (apply_action now present a bc))"
    and "bc_lease_book (fst (apply_action now present a bc)) = bc_lease_book bc"
proof -
  have *: "slice_change lease_op_free bc bc'"
    if "bc_slice_map bc' = fst (sm_drain (bc_slice_map bc) i)" for bc' i
    using that by (intro slice_change_one [of _ "DrainOp i"]) simp_all
  have **: "slice_change lease_op_free bc bc'"
    if "bc_slice_map bc' = fst (sm_assign (bc_slice_map bc) i t)" for bc' i t
    using that by (intro slice_change_one [of _ "AssignOp i t"]) simp_all
  show "slice_change lease_op_free bc (fst (apply_action now present a bc))"
    and "bc_lease_book (fst (apply_action now present a bc)) = bc_lease_book bc"
    using assms
    by (cases a; auto simp: apply_move_def case_prod_beta Let_def intro: * **)+
qed

lemma apply_actions_free:
  assumes "\<forall>a \<in> set as. \<not> is_grant a"
  shows "slice_change lease_op_free bc (fst (apply_actions now present as bc)) \<and>
    bc_lease_book (fst (apply_actions now present as bc)) = bc_lease_book bc"
  using assms
proof (induction "as" arbitrary: bc)
  case (Cons a as)
  let ?bc1 = "fst (apply_action now present a bc)"
  have "slice_change lease_op_free bc ?bc1" "bc_lease_book ?bc1 = bc_lease_book bc"
    using apply_action_free [of a] Cons.prems by simp_all
  moreover have "slice_change lease_op_free ?bc1 (fst (apply_actions now present as ?bc1)) \<and>
      bc_lease_book (fst (apply_actions now present as ?bc1)) = bc_lease_book ?bc1"
    using Cons by simp
  ultimately show ?case by (auto simp: case_prod_beta intro: slice_change_trans)
qed (simp add: slice_change_refl)

lemma grant_pending_Ok:
  assumes "grant_pending book g now ttl = (book', Ok l)"
  shows "\<exists>p. lb_pending book = Some p \<and> pl_requested_bytes p \<le> g \<and> g \<le> lb_capacity_bytes book \<and>
    ll_bytes l = g \<and> ll_holder l = pl_holder p \<and> lb_active_lease book' = Some l"
  using assms
  by (auto simp: grant_pending_def lb_active_lease_def Let_def split: option.splits if_splits)

lemma grant_pending_Err: "grant_pending book g now ttl = (book', Err e) \<Longrightarrow> book' = book"
  by (auto simp: grant_pending_def Let_def split: option.splits if_splits)

lemma lease_inv_pending_active:
  "lease_inv book \<Longrightarrow> lb_pending book = Some p \<Longrightarrow> lb_active_lease book = None"
  by (simp add: lease_inv_def lb_active_lease_def)

text \<open>The possible results of applying a grant of distinct slices.\<close>

lemma apply_grant_cases:
  assumes inv: "broker_inv bc" and d: "distinct slices"
  obtains (ttl) "bc_lease_ttl bc = 0 \<or> instant_add now (bc_lease_ttl bc) = None"
      "apply_grant now holder slices bc =
        (bc\<lparr>bc_lease_book := fst (cancel_pending (bc_lease_book bc) holder)\<rparr>,
         Log LogInvalidTtl #
         to_tenant (bc\<lparr>bc_lease_book := fst (cancel_pending (bc_lease_book bc) holder)\<rparr>) holder
           (LeaseDenied ''lease_ttl_invalid''))"
  | (unavailable) "granted_bytes (bc_slice_map bc) slices = None"
      "apply_grant now holder slices bc = (bc, [Log LogUnavailableSlices])"
  | (diverged) g e where "granted_bytes (bc_slice_map bc) slices = Some g"
      "grant_pending (bc_lease_book bc) g now (bc_lease_ttl bc) = (bc_lease_book bc, Err e)"
      "apply_grant now holder slices bc = (bc, [Log LogGrantDiverged])"
  | (granted) g l book m where "granted_bytes (bc_slice_map bc) slices = Some g"
      "grant_pending (bc_lease_book bc) g now (bc_lease_ttl bc) = (book, Ok l)"
      "lease_loop (bc_slice_map bc) [] slices = (m, slices, False)"
      "bytes_in Leased m = g" "ll_bytes l = g" "lb_active_lease book = Some l"
      "apply_grant now holder slices bc = (bc\<lparr>bc_slice_map := m, bc_lease_book := book\<rparr>,
         Log (LogLeaseGranted (ll_id l) holder slices) #
         to_tenant (bc\<lparr>bc_slice_map := m, bc_lease_book := book\<rparr>) holder (LeaseGranted (ll_id l) g))"
proof (cases "bc_lease_ttl bc = 0 \<or> instant_add now (bc_lease_ttl bc) = None")
  case True
  then show thesis by (intro ttl) (simp_all add: apply_grant_def Let_def)
next
  case False
  note nttl = this
  show thesis
  proof (cases "granted_bytes (bc_slice_map bc) slices")
    case None
    with nttl show thesis by (intro unavailable) (auto simp: apply_grant_def)
  next
    case (Some g)
    obtain book r where gp: "grant_pending (bc_lease_book bc) g now (bc_lease_ttl bc) = (book, r)"
      by (cases "grant_pending (bc_lease_book bc) g now (bc_lease_ttl bc)")
    show thesis
    proof (cases r)
      case (Err e)
      with gp have "book = bc_lease_book bc" by (simp add: grant_pending_Err)
      with nttl Some gp Err show thesis by (intro diverged [of g e]) (auto simp: apply_grant_def)
    next
      case (Ok l)
      note gb = granted_bytes_Some [OF Some]
      obtain p where p: "lb_pending (bc_lease_book bc) = Some p" "ll_bytes l = g" "lb_active_lease book = Some l"
        using grant_pending_Ok gp Ok by blast
      have "no_leased (bc_slice_map bc)"
        using inv p(1) lease_inv_pending_active [of "bc_lease_book bc" p]
        by (simp add: broker_inv_def lease_backed_def)
      then have "bytes_in Leased (bc_slice_map bc) = 0"
        using inv by (simp add: broker_inv_def no_leased_bytes)
      with lease_loop_granted [OF d, of "bc_slice_map bc" "[]"] gb obtain m where
        "lease_loop (bc_slice_map bc) [] slices = (m, slices, False)" "bytes_in Leased m = g"
        by auto
      with nttl Some gp Ok p show thesis
        by (intro granted [of g book l m]) (auto simp: apply_grant_def Let_def)
    qed
  qed
qed

lemma cancel_active_lease [simp]:
  "lb_active_lease (lease_exec (OpCancel h) book) = lb_active_lease book"
  by (auto simp: lb_active_lease_def cancel_pending_def split: option.splits)

lemma apply_grant_inv:
  assumes "broker_inv bc" "distinct slices"
  shows "broker_inv (fst (apply_grant now holder slices bc))"
  using assms
proof (cases rule: apply_grant_cases [where now = now and holder = holder])
  case ttl
  let ?bc = "bc\<lparr>bc_lease_book := fst (cancel_pending (bc_lease_book bc) holder)\<rparr>"
  have "broker_inv ?bc"
    using lease_inv_exec [of "bc_lease_book bc" "OpCancel holder"]
      lease_exec_capacity [of "OpCancel holder" "bc_lease_book bc"]
      cancel_active_lease [of holder "bc_lease_book bc"] assms(1)
    by (intro broker_inv_frame [OF assms(1), of lease_op_free])
      (simp_all add: slice_change_refl broker_inv_def)
  with ttl show ?thesis by simp
next
  case (granted g l book m)
  let ?bc = "bc\<lparr>bc_slice_map := m, bc_lease_book := book\<rparr>"
  have "lease_inv book" "lb_capacity_bytes book = lb_capacity_bytes (bc_lease_book bc)"
    using lease_inv_exec [of "bc_lease_book bc" "OpGrant g now (bc_lease_ttl bc)"]
      lease_exec_capacity [of "OpGrant g now (bc_lease_ttl bc)" "bc_lease_book bc"] granted assms(1)
    by (simp_all add: broker_inv_def)
  moreover have "slice_change (\<lambda>_. True) bc ?bc"
    using lease_loop_ops [of "bc_slice_map bc" "[]" slices] granted
    by (auto simp: slice_change_def list_all_iff)
  ultimately have "broker_inv ?bc"
    using granted by (intro broker_inv_step [OF assms(1), of "\<lambda>_. True"])
      (simp_all add: lease_backed_def)
  with granted show ?thesis by simp
qed (use assms in simp_all)

lemma tick_no_pending_grant_free:
  assumes "tick ar now tenants slices None = Some (ar', Ok acts)"
  shows "\<forall>a \<in> set acts. \<not> is_grant a"
proof -
  from assms obtain ar1 acts1 moved ar3 acts2 acts3 where
    cf: "tick_counterfactual ar now tenants = Some (ar1, acts1, moved)"
    and df: "tick_differential (tick_hysteresis ar1 tenants) now tenants slices moved = Some (ar3, acts2)"
    and acts: "acts = acts1 @ acts2 @ acts3"
    and rr: "acts3 = (if tenants = [] then []
       else snd (rr_total (ar_rr_cursor ar3) tenants (filter (\<lambda>s. sl_state s = Free) slices)))"
    by (elim tick_rebalance) auto
  have "\<not> is_grant a" if "a \<in> set acts3" for a
    using that rr by (auto dest!: round_robin_assigns split: if_splits)
  with tick_counterfactual_cases [OF cf] tick_differential_cases [OF df] acts show ?thesis
    by auto
qed

lemma visible_distinct: "sm_wf (bc_slice_map bc) \<Longrightarrow> distinct (map sl_id (visible_slices bc))"
  by (simp add: visible_slices_def sm_wf_def sm_ids_def distinct_map_filter)

lemma visible_no_leased:
  "sm_wf (bc_slice_map bc) \<Longrightarrow> no_leased (bc_slice_map bc) \<Longrightarrow> ids_in Leased (visible_slices bc) = []"
  using sm_get_mem by (fastforce simp: ids_in_def no_leased_def visible_slices_def filter_empty_conv)

lemma pending_no_leased:
  "broker_inv bc \<Longrightarrow> pending_request bc = Some p \<Longrightarrow> no_leased (bc_slice_map bc)"
  using lease_inv_pending_active [of "bc_lease_book bc"]
  by (auto simp: broker_inv_def pending_request_def lease_backed_def)

lemma tick_lease_no_conflict:
  "ids_in Leased slices = [] \<Longrightarrow> tick_lease tenants slices holder bytes = Some r \<Longrightarrow> \<exists>acts. r = Ok acts"
  by (auto simp: tick_lease_def panic_defs Let_def split: if_splits)

text \<open>
  The actions of a tick in a state that satisfies the invariant: either none is a grant, or there
  is exactly one action, a grant of distinct slices.
\<close>

lemma tick_actions_shape:
  assumes "broker_inv bc"
    and "tick (bc_arbiter bc) now (present_views bc) (visible_slices bc) (pending_request bc) = Some (ar, r)"
  shows "\<exists>acts. r = Ok acts \<and> ((\<forall>a \<in> set acts. \<not> is_grant a) \<or>
    (\<exists>h g. acts = [GrantLease h g] \<and> distinct g \<and> (\<exists>b. pending_request bc = Some (h, b))))"
proof (cases "pending_request bc")
  case None
  with assms(2) obtain acts where "r = Ok acts" by (auto elim: tick_rebalance)
  with tick_no_pending_grant_free [of "bc_arbiter bc" now] None assms(2) show ?thesis by auto
next
  case (Some p)
  obtain h b where p: "p = (h, b)" by (cases p)
  have wf: "sm_wf (bc_slice_map bc)" using assms(1) by (simp add: broker_inv_def)
  have leased: "ids_in Leased (visible_slices bc) = []"
    using visible_no_leased [OF wf pending_no_leased [OF assms(1) Some]] .
  have r: "tick_lease (present_views bc) (visible_slices bc) h b = Some r"
    using assms(2) Some p by (auto simp: tick_def)
  with tick_lease_no_conflict [OF leased] obtain acts where "r = Ok acts" by blast
  with r have acts: "tick_lease (present_views bc) (visible_slices bc) h b = Some (Ok acts)" by simp
  have "\<exists>h g. acts = [GrantLease h g] \<and> distinct g \<and> (\<exists>b. pending_request bc = Some (h, b))"
    if "a \<in> set acts" "is_grant a" for a
  proof -
    from that(2) obtain h' g where "a = GrantLease h' g" by (cases a) simp_all
    with that(1) have "GrantLease h' g \<in> set acts" by simp
    from tick_lease_grant [OF acts this] leased have "acts = [GrantLease h g]"
      "g = take (div_ceil b (slice_len (visible_slices bc))) (ids_in Free (visible_slices bc))"
      by simp_all
    then show ?thesis
      using distinct_ids_in [OF visible_distinct [OF wf], of Free] Some p by simp
  qed
  then have "(\<forall>a \<in> set acts. \<not> is_grant a) \<or>
      (\<exists>h g. acts = [GrantLease h g] \<and> distinct g \<and> (\<exists>b. pending_request bc = Some (h, b)))"
    by (cases "\<forall>a \<in> set acts. \<not> is_grant a") auto
  with acts r show ?thesis by simp
qed

lemma tick_arbiter_inv:
  assumes inv: "broker_inv bc" and t: "tick_arbiter bc now = Some (bc', out)"
  shows "broker_inv bc'"
  using t
proof (cases rule: tick_arbiterE)
  case (1 ar actions)
  let ?bc = "bc\<lparr>bc_arbiter := ar\<rparr>"
  have inv': "broker_inv ?bc" using inv by (simp add: broker_inv_def)
  from tick_actions_shape [OF inv 1(1)] show ?thesis
  proof (elim exE conjE disjE)
    fix acts
    assume acts: "Ok actions = Ok acts" "\<forall>a \<in> set acts. \<not> is_grant a"
    have bc': "bc' = fst (apply_actions now (present_views bc) acts ?bc)" using 1(2) acts(1) by simp
    note free = apply_actions_free [OF acts(2), of ?bc now "present_views bc"]
    show ?thesis
      unfolding bc' using free inv'
      by (intro broker_inv_frame [OF inv', of lease_op_free]) (simp_all add: broker_inv_def)
  next
    fix acts h g b
    assume acts: "Ok actions = Ok acts" "acts = [GrantLease h g]" "distinct g"
    then show ?thesis using apply_grant_inv [OF inv' acts(3), of now h] 1(2) by (simp add: case_prod_beta)
  qed
next
  case (2 ar e)
  with inv show ?thesis by (simp add: broker_inv_def)
qed

lemma expire_lease_inv:
  assumes "broker_inv bc"
  shows "broker_inv (fst (expire_lease bc now))"
proof -
  let ?bc = "fst (expire_lease bc now)"
  have book: "bc_lease_book ?bc = lease_exec (OpExpire now) (bc_lease_book bc)"
    by (simp add: expire_lease_def release_slices_def Let_def case_prod_beta split: option.split)
  have "lease_backed (bc_slice_map ?bc) (bc_lease_book ?bc)"
    using assms unlease_all_no_leased [of "bc_slice_map bc"]
    by (auto simp: expire_lease_def release_slices_def Let_def case_prod_beta expire_def
        lease_backed_def lb_active_lease_def broker_inv_def split: option.splits if_splits)
  then show ?thesis
    using assms lease_inv_exec
    by (intro broker_inv_step [OF assms expire_lease_change])
      (simp_all add: book broker_inv_def del: lease_exec.simps)
qed

lemma on_tick_inv:
  assumes "broker_inv bc" "on_tick bc now = Some (bc', out)"
  shows "broker_inv bc'"
  using assms(2)
proof (cases rule: on_tickE)
  case (1 bc2 out2)
  have "broker_inv bc2" using tick_arbiter_inv [OF expire_lease_inv [OF assms(1)] 1(1)] .
  then show ?thesis by (simp add: 1(2) broker_inv_def)
qed

lemma on_lease_release_inv:
  assumes "broker_inv bc"
  shows "broker_inv (fst (on_lease_release bc sid lease))"
proof -
  let ?bc = "fst (on_lease_release bc sid lease)"
  have book: "bc_lease_book ?bc \<in> {bc_lease_book bc} \<union> range (\<lambda>h. lease_exec (OpRelease h lease) (bc_lease_book bc))"
    by (auto simp: on_lease_release_def Let_def case_prod_beta
        split: option.split result.split bool.split lease_deny.split)
  have "lease_backed (bc_slice_map ?bc) (bc_lease_book ?bc)"
    using assms unlease_all_no_leased [of "bc_slice_map bc"]
    by (auto simp: on_lease_release_def Let_def case_prod_beta lb_release_def
        lease_backed_def lb_active_lease_def broker_inv_def split: option.splits if_splits)
  moreover have "lease_inv (bc_lease_book ?bc)"
    "lb_capacity_bytes (bc_lease_book ?bc) = lb_capacity_bytes (bc_lease_book bc)"
    using book assms lease_inv_exec lease_exec_capacity
    by (auto simp: broker_inv_def simp del: lease_exec.simps)
  ultimately show ?thesis
    by (intro broker_inv_step [OF assms on_lease_release_change])
qed

lemma handle_inv:
  assumes inv: "broker_inv bc" and h: "handle bc ev now = Some (bc', out)"
  shows "broker_inv bc'"
proof (cases ev)
  case (CoreMsg sid m)
  have base: "lease_inv (bc_lease_book bc)" using inv by (simp add: broker_inv_def)
  have "broker_inv (fst (on_msg bc sid m now))"
  proof (cases m)
    case (Psi sample swaps mem)
    have "broker_inv (fst (on_psi bc sid sample swaps mem now))"
      using on_psi_book [of bc sid sample swaps mem now] base
      by (intro broker_inv_frame [OF inv on_psi_change assign_lease_op_free])
        (auto simp: lease_inv_exec simp del: lease_exec.simps)
    then show ?thesis by (simp add: on_msg_def Psi)
  next
    case (LeaseRequest bytes)
    have "broker_inv (fst (on_lease_request bc sid bytes))"
      using on_lease_request_book [of bc sid bytes] base
      by (intro broker_inv_frame [OF inv, of lease_op_free])
        (auto simp: lease_inv_exec slice_change_refl simp del: lease_exec.simps)
    then show ?thesis by (simp add: on_msg_def LeaseRequest)
  next
    case (SwapOnDone slice ok detail)
    have "broker_inv (fst (on_swap_on_done bc slice ok detail))"
      using base by (intro broker_inv_frame [OF inv on_swap_on_done_change [of 0]]) simp_all
    then show ?thesis by (simp add: on_msg_def SwapOnDone)
  next
    case (LeaseRelease lease)
    with on_lease_release_inv [OF inv] show ?thesis by (simp add: on_msg_def)
  qed (use inv in \<open>auto simp: on_msg_def broker_inv_def\<close>)
  with h CoreMsg show ?thesis by (simp add: handle_def)
next
  case (Disconnected sid)
  have "broker_inv (fst (on_disconnect bc sid))"
    using on_disconnect_book [of bc sid] inv
    by (intro broker_inv_frame [OF inv, of lease_op_free])
      (auto simp: lease_inv_exec slice_change_refl broker_inv_def simp del: lease_exec.simps)
  with h Disconnected show ?thesis by (simp add: handle_def)
next
  case (ZeroDone slice ok)
  have "broker_inv (fst (on_zero_done bc slice ok))"
    using inv by (intro broker_inv_frame [OF inv on_zero_done_change]) (simp_all add: broker_inv_def)
  with h ZeroDone show ?thesis by (simp add: handle_def)
next
  case (Demote reason)
  have "broker_inv (fst (on_demote bc reason))" using inv by (simp add: broker_inv_def)
  with h Demote show ?thesis by (simp add: handle_def)
next
  case Tick
  with h show ?thesis using on_tick_inv [OF inv] by (simp add: handle_def)
qed

subsection \<open>Reachable states\<close>

text \<open>
  A broker starts on a fresh slice map and handles events; in between, the data plane may change
  the counters and the gauge it shares with the core.
\<close>

inductive reachable :: "broker_core \<Rightarrow> bool" where
  reach_init: "slice_map_new k slice_bytes backing = Ok m \<Longrightarrow> reachable (broker_new m cfg)"
| reach_step: "reachable bc \<Longrightarrow> handle bc ev now = Some (bc', out) \<Longrightarrow> reachable bc'"
| reach_env: "reachable bc \<Longrightarrow> reachable (bc\<lparr>bc_slice_io := io, bc_vram := gauge\<rparr>)"

lemma broker_new_inv:
  assumes "slice_map_new k slice_bytes backing = Ok m"
  shows "broker_inv (broker_new m cfg)"
proof -
  note geo = new_geometry [OF assms]
  have "sm_wf m" using assms by (rule new_wf)
  moreover have "slices_uniform m" using geo by (auto simp: slices_uniform_def)
  moreover have "sum_list (map sl_len (sm_slices m)) = total_bytes m"
    using geo new_total_bytes [OF assms] by (simp add: comp_def sum_list_triv)
  moreover have "total_bytes m \<le> u64_max" using geo new_total_bytes [OF assms] by simp
  moreover have "no_leased m"
    unfolding no_leased_def using geo sm_get_id by fastforce
  ultimately show ?thesis
    using lease_inv_new [of "total_bytes m"]
    by (simp add: broker_inv_def broker_new_def lease_backed_def lb_active_lease_def
        lease_book_new_def)
qed

lemma reachable_inv: "reachable bc \<Longrightarrow> broker_inv bc"
proof (induction rule: reachable.induct)
  case (reach_init k slice_bytes backing m cfg)
  then show ?case by (rule broker_new_inv)
next
  case (reach_step bc ev now bc' out)
  then show ?case using handle_inv by blast
qed (simp add: broker_inv_def)

text \<open>
  C9. In every reachable state slice ids are distinct, a slice has an owner exactly while it is
  active or draining, a pending request and an active lease exclude each other, and the leased
  slices together have exactly the bytes of the active lease (none are leased without one).
\<close>

theorem reachable_slices_and_lease:
  assumes "reachable bc"
  shows "distinct (sm_ids (bc_slice_map bc)) \<and>
    (\<forall>s \<in> set (sm_slices (bc_slice_map bc)). sl_tenant s = None \<longleftrightarrow> sl_state s \<in> {Free, Leased}) \<and>
    (lb_pending (bc_lease_book bc) = None \<or> lb_active (bc_lease_book bc) = None) \<and>
    (case lb_active_lease (bc_lease_book bc) of
       None \<Rightarrow> \<forall>s \<in> set (sm_slices (bc_slice_map bc)). sl_state s \<noteq> Leased
     | Some l \<Rightarrow> bytes_in Leased (bc_slice_map bc) = ll_bytes l)"
proof -
  note inv = reachable_inv [OF assms]
  have wf: "sm_wf (bc_slice_map bc)" using inv by (simp add: broker_inv_def)
  have "\<forall>s \<in> set (sm_slices (bc_slice_map bc)). sl_state s \<noteq> Leased" if "no_leased (bc_slice_map bc)"
    using that sm_get_mem [OF wf] unfolding no_leased_def by blast
  with inv show ?thesis
    by (auto simp: broker_inv_def sm_wf_def slice_ok_def lease_inv_def lease_backed_def
        split: option.split)
qed

theorem reachable_slices_and_lease_witness:
  "\<exists>m. slice_map_new 2 4096 8192 = Ok m \<and>
     (let bc = broker_new m \<lparr>bk_arbiter_cfg = arbiter_config_default,
          bk_endpoints = \<lparr>ec_nbd_unix = None, ec_nbd_tcp = None\<rparr>, bk_swap_prio = None,
          bk_lease_ttl = DEFAULT_LEASE_TTL, bk_slice_io = [], bk_vram = \<lparr>vg_free = 0, vg_total = 0\<rparr>,
          bk_tol_frac = fp_zero, bk_recon_streak = 3\<rparr>
      in reachable bc \<and> distinct (sm_ids (bc_slice_map bc)))"
proof -
  obtain m where m: "slice_map_new 2 4096 8192 = Ok m"
    by (simp add: slice_map_new_def MAX_SLICES_def checked_mul_def u64_max_def)
  from reachable_slices_and_lease [OF reach_init [OF m]] reach_init [OF m] m show ?thesis
    by (simp only: Let_def) blast
qed

subsection \<open>Hygiene of slice movements\<close>

lemma may_release_iff: "may_release ev i \<longleftrightarrow>
    ev = ZeroDone i True \<or> (\<exists>sid d. ev = CoreMsg sid (SwapOnDone i False d))"
  by (cases "(ev, i)" rule: may_release.cases) auto

lemma swap_on_done_draining:
  assumes "sm_get (bc_slice_map bc) i = Some s" "sl_state s \<noteq> Active"
  shows "bc_slice_map (fst (on_swap_on_done bc i ok detail)) = bc_slice_map bc"
proof -
  have "\<not> is_ok (snd (sm_drain (bc_slice_map bc) i))" using assms by (simp add: drain.is_ok_iff)
  with drain.unchanged [OF this] show ?thesis
    by (simp add: on_swap_on_done_def case_prod_beta Let_def)
qed

lemma zero_done_not_draining:
  assumes "sm_get (bc_slice_map bc) i = Some s" "sl_state s \<noteq> Draining"
  shows "bc_slice_map (fst (on_zero_done bc i ok)) = bc_slice_map bc"
proof -
  have "\<not> is_ok (snd (sm_release (bc_slice_map bc) i))" using assms by (simp add: release.is_ok_iff)
  then have "is_err (snd (sm_release (bc_slice_map bc) i))"
    by (cases "snd (sm_release (bc_slice_map bc) i)") auto
  then show ?thesis by (simp add: on_zero_done_def case_prod_beta Let_def)
qed

text \<open>
  C1. Hygiene: a slice that is draining stays draining, with the same owner, until its zeroing is
  confirmed; and a slice that is active loses its owner only when a swap-on of that very slice is
  reported as failed. No other event hands a used slice over.
\<close>

theorem slice_hygiene:
  assumes h: "handle bc ev now = Some (bc', out)"
    and s: "sm_get (bc_slice_map bc) i = Some s" and s': "sm_get (bc_slice_map bc') i = Some s'"
  shows "(sl_state s = Draining \<and> (sl_state s' \<noteq> Draining \<or> sl_tenant s' \<noteq> sl_tenant s) \<longrightarrow>
      ev = ZeroDone i True) \<and>
    (sl_state s = Active \<and> sl_tenant s' \<noteq> sl_tenant s \<longrightarrow>
      (\<exists>sid detail. ev = CoreMsg sid (SwapOnDone i False detail)))"
proof -
  from handle_change [OF h] obtain ops where ops: "list_all (allowed ev) ops"
    "bc_slice_map bc' = slice_run ops (bc_slice_map bc)" by (auto simp: slice_change_def)
  have kept: "sl_tenant s' = sl_tenant s \<and> (sl_state s' = sl_state s \<or> sl_state s = Active \<and> sl_state s' = Draining)"
    if "sl_state s \<in> {Active, Draining}" "\<not> may_release ev i"
  proof -
    have "ReleaseOp i \<notin> set ops" using ops(1) that(2) by (auto simp: list_all_iff)
    from slice_run_owned [OF s that(1) this] show ?thesis using ops(2) s' by auto
  qed
  have same: "s' = s" if "sl_state s = Draining" "ev = CoreMsg sid (SwapOnDone i ok d)" for sid ok d
    using swap_on_done_draining [OF s, of ok d] that h s s' by (simp add: handle_def on_msg_def)
  have same': "s' = s" if "sl_state s = Active" "ev = ZeroDone i ok" for ok
    using zero_done_not_draining [OF s, of ok] that h s s' by (simp add: handle_def)
  show ?thesis
  proof (cases "may_release ev i")
    case True
    then consider "ev = ZeroDone i True" | sid d where "ev = CoreMsg sid (SwapOnDone i False d)"
      by (auto simp: may_release_iff)
    then show ?thesis
    proof cases
      case 1
      with same' show ?thesis by auto
    next
      case (2 sid d)
      with same show ?thesis by auto
    qed
  next
    case False
    with kept show ?thesis by auto
  qed
qed

theorem slice_hygiene_witness:
  "let s = \<lparr>sl_id = 0, sl_offset = 0, sl_len = 4096, sl_tenant = Some 1, sl_state = Draining\<rparr>;
       bc = (broker_new \<lparr>sm_slices = [s]\<rparr> \<lparr>bk_arbiter_cfg = arbiter_config_default,
          bk_endpoints = \<lparr>ec_nbd_unix = None, ec_nbd_tcp = None\<rparr>, bk_swap_prio = None,
          bk_lease_ttl = DEFAULT_LEASE_TTL, bk_slice_io = [], bk_vram = \<lparr>vg_free = 0, vg_total = 0\<rparr>,
          bk_tol_frac = fp_zero, bk_recon_streak = 3\<rparr>)
   in \<exists>bc' out. handle bc (Disconnected 7) 0 = Some (bc', out) \<and> sm_get (bc_slice_map bc') 0 = Some s"
proof -
  let ?s = "\<lparr>sl_id = 0, sl_offset = 0, sl_len = 4096, sl_tenant = Some 1, sl_state = Draining\<rparr>"
  let ?bc = "broker_new \<lparr>sm_slices = [?s]\<rparr> \<lparr>bk_arbiter_cfg = arbiter_config_default,
          bk_endpoints = \<lparr>ec_nbd_unix = None, ec_nbd_tcp = None\<rparr>, bk_swap_prio = None,
          bk_lease_ttl = DEFAULT_LEASE_TTL, bk_slice_io = [], bk_vram = \<lparr>vg_free = 0, vg_total = 0\<rparr>,
          bk_tol_frac = fp_zero, bk_recon_streak = 3\<rparr>"
  have h: "handle ?bc (Disconnected 7) 0 = Some (?bc, [])"
    by (simp add: handle_def on_disconnect_def broker_new_def)
  have g: "sm_get (bc_slice_map ?bc) 0 = Some ?s"
    by (simp add: broker_new_def sm_get_def)
  from slice_hygiene [OF h g g] h g show ?thesis by (simp only: Let_def) blast
qed

subsection \<open>Granting a lease\<close>

lemma slices_len:
  assumes "slices_uniform m" "s \<in> set (sm_slices m)"
  shows "sl_len s = slice_len (sm_slices m)"
  using assms by (cases "sm_slices m") (auto simp: slices_uniform_def slice_len_def)

lemma total_uniform:
  "slices_uniform m \<Longrightarrow> sum_list (map sl_len (sm_slices m)) = length (sm_slices m) * slice_len (sm_slices m)"
proof -
  assume "slices_uniform m"
  then have "map sl_len (sm_slices m) = map (\<lambda>_. slice_len (sm_slices m)) (sm_slices m)"
    using slices_len by (intro map_cong refl) auto
  then show ?thesis by (simp only: sum_list_triv) (simp add: sum_list_triv)
qed

lemma lens_of_uniform:
  assumes "slices_uniform m" "\<forall>i \<in> set is. \<exists>s. sm_get m i = Some s"
  shows "lens_of m is = length is * slice_len (sm_slices m)"
proof -
  have "map (\<lambda>i. case sm_get m i of Some s \<Rightarrow> sl_len s | None \<Rightarrow> 0) is = map (\<lambda>_. slice_len (sm_slices m)) is"
  proof (rule map_cong [OF refl])
    fix i
    assume "i \<in> set is"
    with assms(2) obtain s where s: "sm_get m i = Some s" by blast
    from slices_len [OF assms(1)] sm_get_id [OF s] have "sl_len s = slice_len (sm_slices m)" by blast
    with s show "(case sm_get m i of Some s \<Rightarrow> sl_len s | None \<Rightarrow> 0) = slice_len (sm_slices m)" by simp
  qed
  then show ?thesis by (simp only: lens_of_def sum_list_triv) (simp add: sum_list_triv)
qed

lemma try_fold_granted_Some:
  assumes "\<forall>i \<in> set is. \<exists>s. sm_get m i = Some s \<and> sl_state s = Free" "acc + lens_of m is \<le> u64_max"
  shows "try_fold (\<lambda>total slice.
         case sm_get m slice of
           None \<Rightarrow> None
         | Some current \<Rightarrow>
             if sl_state current = Free then checked_add u64_max total (sl_len current) else None)
       acc is = Some (acc + lens_of m is)"
  using assms
proof (induction "is" arbitrary: acc)
  case (Cons i "is")
  then obtain s where s: "sm_get m i = Some s" "sl_state s = Free" by auto
  then have lens: "lens_of m (i # is) = sl_len s + lens_of m is" by (simp add: lens_of_def)
  with Cons.prems(2) have "acc + sl_len s + lens_of m is \<le> u64_max" by simp
  moreover from this have "acc + sl_len s \<le> u64_max" by linarith
  ultimately show ?case
    using Cons.IH [of "acc + sl_len s"] Cons.prems(1) s lens by (simp add: checked_add_def add.assoc)
qed (simp add: lens_of_def)

lemma free_slices_visible: "sm_wf (bc_slice_map bc) \<Longrightarrow>
    ids_in Free (visible_slices bc) = ids_in Free (sm_slices (bc_slice_map bc))"
  unfolding ids_in_def visible_slices_def filter_filter
  by (intro arg_cong [where f = "map sl_id"] filter_cong refl)
    (auto simp: sm_wf_def slice_ok_def split: option.split)

lemma slice_len_visible:
  assumes "slices_uniform (bc_slice_map bc)" "visible_slices bc \<noteq> []"
  shows "slice_len (visible_slices bc) = slice_len (sm_slices (bc_slice_map bc))"
proof -
  have "hd (visible_slices bc) \<in> set (sm_slices (bc_slice_map bc))"
    using hd_in_set [OF assms(2)] by (simp add: visible_slices_def)
  from slices_len [OF assms(1) this] assms(2) show ?thesis
    by (cases "visible_slices bc") (auto simp: slice_len_def)
qed

lemma pending_request_Some:
  "pending_request bc = Some (h, b) \<longleftrightarrow>
   (\<exists>p. lb_pending (bc_lease_book bc) = Some p \<and> h = pl_holder p \<and> b = pl_requested_bytes p)"
  by (auto simp: pending_request_def)

lemma slice_len_pos:
  assumes "broker_inv bc" "pending_request bc = Some (h, b)"
  shows "0 < slice_len (sm_slices (bc_slice_map bc))"
proof -
  from assms have "0 < lb_capacity_bytes (bc_lease_book bc)"
    by (auto simp: broker_inv_def lease_inv_def pending_request_Some)
  with assms(1) total_uniform [of "bc_slice_map bc"] show ?thesis
    by (auto simp: broker_inv_def intro!: Nat.gr0I)
qed

text \<open>The slices a tick grants are free, cover the request and fit the capacity.\<close>

lemma granted_slices:
  assumes inv: "broker_inv bc" and pend: "pending_request bc = Some (h, b)"
    and t: "tick_lease (present_views bc) (visible_slices bc) h b = Some (Ok [GrantLease h g])"
  shows "distinct g \<and> granted_bytes (bc_slice_map bc) g = Some (lens_of (bc_slice_map bc) g) \<and>
    b \<le> lens_of (bc_slice_map bc) g \<and>
    lens_of (bc_slice_map bc) g \<le> lb_capacity_bytes (bc_lease_book bc)"
proof -
  let ?m = "bc_slice_map bc"
  let ?len = "slice_len (sm_slices ?m)"
  have wf: "sm_wf ?m" and uni: "slices_uniform ?m" using inv by (simp_all add: broker_inv_def)
  from tick_lease_grant [OF t] have pos: "0 < slice_len (visible_slices bc)" "0 < b"
    and g0: "g = take (div_ceil b (slice_len (visible_slices bc))) (ids_in Leased (visible_slices bc) @
        ids_in Free (visible_slices bc))"
    and lg: "length g = div_ceil b (slice_len (visible_slices bc))" by auto
  have g: "g = take (length g) (ids_in Free (sm_slices ?m))"
    using g0 lg visible_no_leased [OF wf pending_no_leased [OF inv pend]] free_slices_visible [OF wf]
    by simp
  have len: "slice_len (visible_slices bc) = ?len"
    using slice_len_visible [OF uni] pos by (cases "visible_slices bc") (auto simp: slice_len_def)
  have "set g \<subseteq> set (ids_in Free (sm_slices ?m))" using g set_take_subset by metis
  then have free: "\<forall>i \<in> set g. \<exists>s. sm_get ?m i = Some s \<and> sl_state s = Free"
    using sm_get_mem [OF wf] by (fastforce simp: ids_in_mem)
  have "distinct (ids_in Free (sm_slices ?m))"
    using wf by (simp add: distinct_ids_in sm_wf_def sm_ids_def)
  then have d: "distinct g" using g by (metis distinct_take)
  have lens: "lens_of ?m g = length g * ?len" using free by (intro lens_of_uniform [OF uni]) blast
  have "length g \<le> length (sm_slices ?m)"
    using g by (metis ids_in_def length_filter_le length_map length_take min.cobounded1 order_trans)
  then have "length g * ?len \<le> length (sm_slices ?m) * ?len" by (rule mult_le_mono1)
  also have "\<dots> = lb_capacity_bytes (bc_lease_book bc)"
    using inv total_uniform [OF uni] by (simp add: broker_inv_def)
  finally have cap: "lens_of ?m g \<le> lb_capacity_bytes (bc_lease_book bc)" by (simp add: lens)
  have "b \<le> lens_of ?m g"
    using div_ceil_upper [of ?len b] pos lg by (simp add: lens len)
  moreover have "granted_bytes ?m g = Some (lens_of ?m g)"
    unfolding granted_bytes_def using try_fold_granted_Some [OF free, of 0] cap inv
    by (simp add: broker_inv_def)
  ultimately show ?thesis using d cap by simp
qed


lemma grant_pending_succeeds:
  assumes "lb_pending book = Some p" "pl_requested_bytes p \<le> g" "g \<le> lb_capacity_bytes book"
    and "0 < ttl" "now + ttl \<le> instant_max" "lb_next_id book < u32_max"
  shows "\<exists>book' l. grant_pending book g now ttl = (book', Ok l)"
  using assms by (simp add: grant_pending_def instant_add_def checked_add_def Let_def)

text \<open>What the tick does to a state with a pending request.\<close>

lemma expire_lease_pending:
  "lease_inv (bc_lease_book bc) \<Longrightarrow> lb_pending (bc_lease_book bc) = Some p \<Longrightarrow>
   expire_lease bc now = (bc, [])"
  by (simp add: expire_lease_def expire_def lease_inv_def)

lemma tick_lease_enough:
  assumes "0 < slice_len slices" "0 < b" "ids_in Leased slices = []"
    and "div_ceil b (slice_len slices) \<le> length (ids_in Free slices)"
  shows "\<exists>g. tick_lease tenants slices h b = Some (Ok [GrantLease h g])"
  using assms by (simp add: tick_lease_def panic_defs Let_def)

lemma pending_tick_lease:
  assumes inv: "broker_inv bc" and pend: "pending_request bc = Some (h, b)"
    and free: "div_ceil b (slice_len (sm_slices (bc_slice_map bc))) \<le>
      length (ids_in Free (sm_slices (bc_slice_map bc)))"
  shows "\<exists>g. tick_lease (present_views bc) (visible_slices bc) h b = Some (Ok [GrantLease h g])"
proof -
  have wf: "sm_wf (bc_slice_map bc)" and uni: "slices_uniform (bc_slice_map bc)"
    using inv by (simp_all add: broker_inv_def)
  have b: "0 < b" using inv pend by (auto simp: broker_inv_def lease_inv_def pending_request_Some)
  note len = slice_len_pos [OF inv pend]
  have "0 < length (ids_in Free (visible_slices bc))"
    using free div_ceil_upper [OF len, of b] b free_slices_visible [OF wf] by (auto intro: Nat.gr0I)
  then have "visible_slices bc \<noteq> []" by (auto simp: ids_in_def)
  note vis = slice_len_visible [OF uni this]
  show ?thesis
    using tick_lease_enough [of "visible_slices bc" b "present_views bc" h] len b free
      visible_no_leased [OF wf pending_no_leased [OF inv pend]] free_slices_visible [OF wf]
    by (auto simp: vis)
qed

lemma apply_grant_succeeds:
  assumes inv: "broker_inv bc" and p: "lb_pending (bc_lease_book bc) = Some p"
    and g: "tick_lease (present_views bc) (visible_slices bc) (pl_holder p) (pl_requested_bytes p) =
      Some (Ok [GrantLease (pl_holder p) g])"
    and ttl: "0 < bc_lease_ttl bc" "now + bc_lease_ttl bc \<le> instant_max"
    and ids: "lb_next_id (bc_lease_book bc) < u32_max"
  shows "\<exists>m book l. lb_active_lease book = Some l \<and> ll_holder l = pl_holder p \<and>
    pl_requested_bytes p \<le> ll_bytes l \<and> bytes_in Leased m = ll_bytes l \<and>
    apply_grant now (pl_holder p) g bc = (bc\<lparr>bc_slice_map := m, bc_lease_book := book\<rparr>,
      Log (LogLeaseGranted (ll_id l) (pl_holder p) g) #
      to_tenant (bc\<lparr>bc_slice_map := m, bc_lease_book := book\<rparr>) (pl_holder p)
        (LeaseGranted (ll_id l) (ll_bytes l)))"
proof -
  have "pending_request bc = Some (pl_holder p, pl_requested_bytes p)"
    by (simp add: pending_request_def p)
  note gs = granted_slices [OF inv this g]
  obtain book l where gp: "grant_pending (bc_lease_book bc) (lens_of (bc_slice_map bc) g) now
      (bc_lease_ttl bc) = (book, Ok l)"
    using grant_pending_succeeds [OF p _ _ ttl ids] gs by blast
  from inv conjunct1 [OF gs] obtain m where m: "bytes_in Leased m = ll_bytes l"
    "apply_grant now (pl_holder p) g bc = (bc\<lparr>bc_slice_map := m, bc_lease_book := book\<rparr>,
      Log (LogLeaseGranted (ll_id l) (pl_holder p) g) #
      to_tenant (bc\<lparr>bc_slice_map := m, bc_lease_book := book\<rparr>) (pl_holder p)
        (LeaseGranted (ll_id l) (ll_bytes l)))"
    using gs gp ttl
    by (cases rule: apply_grant_cases [where now = now and holder = "pl_holder p"])
      (auto simp: instant_add_def checked_add_def)
  with p grant_pending_Ok [OF gp] show ?thesis
    by (intro exI [of _ m] exI [of _ book] exI [of _ l]) auto
qed

text \<open>
  C11. A pending lease is granted at the next tick, in every reachable state: if enough slices are
  free for the request, the lease lifetime is valid and lease ids remain, the tick succeeds, the
  holder owns an active lease of at least the requested bytes, exactly those bytes are reserved,
  and a connected holder is told so.
\<close>

theorem pending_lease_granted:
  assumes reach: "reachable bc" and p: "lb_pending (bc_lease_book bc) = Some p"
    and free: "div_ceil (pl_requested_bytes p) (slice_len (sm_slices (bc_slice_map bc))) \<le>
      length (ids_in Free (sm_slices (bc_slice_map bc)))"
    and ttl: "0 < bc_lease_ttl bc" "now + bc_lease_ttl bc \<le> instant_max"
    and ids: "lb_next_id (bc_lease_book bc) < u32_max"
  shows "\<exists>bc' out l. handle bc Tick now = Some (bc', out) \<and>
    lb_active_lease (bc_lease_book bc') = Some l \<and> ll_holder l = pl_holder p \<and>
    pl_requested_bytes p \<le> ll_bytes l \<and> bytes_in Leased (bc_slice_map bc') = ll_bytes l \<and>
    (\<forall>t sid. bc_tenant bc (pl_holder p) = Some t \<and> tn_sid t = Some sid \<longrightarrow>
       ToSession sid (LeaseGranted (ll_id l) (ll_bytes l)) \<in> set out)"
proof -
  let ?h = "pl_holder p" and ?b = "pl_requested_bytes p"
  note inv = reachable_inv [OF reach]
  have linv: "lease_inv (bc_lease_book bc)" using inv by (simp add: broker_inv_def)
  have pend: "pending_request bc = Some (?h, ?b)" by (simp add: pending_request_def p)
  from pending_tick_lease [OF inv pend free] obtain g where
    g: "tick_lease (present_views bc) (visible_slices bc) ?h ?b = Some (Ok [GrantLease ?h g])" by blast
  from apply_grant_succeeds [OF inv p g ttl ids] obtain m book l where
    l: "lb_active_lease book = Some l" "ll_holder l = ?h" "?b \<le> ll_bytes l" "bytes_in Leased m = ll_bytes l"
    and ag: "apply_grant now ?h g bc = (bc\<lparr>bc_slice_map := m, bc_lease_book := book\<rparr>,
      Log (LogLeaseGranted (ll_id l) ?h g) #
      to_tenant (bc\<lparr>bc_slice_map := m, bc_lease_book := book\<rparr>) ?h (LeaseGranted (ll_id l) (ll_bytes l)))"
    by blast
  define bc' where "bc' = fst (emit_telemetry (fst (retry_stuck_zeroing
      (bc\<lparr>bc_slice_map := m, bc_lease_book := book\<rparr>))))"
  have "tick_arbiter bc now = Some (apply_grant now ?h g bc)"
    using g pend by (simp add: tick_arbiter_def tick_def case_prod_beta)
  then obtain out where h: "handle bc Tick now = Some (bc', snd (apply_grant now ?h g bc) @ out)"
    using ag expire_lease_pending [OF linv p, of now]
    by (simp add: handle_def on_tick_def case_prod_beta bc'_def)
  have "ToSession sid (LeaseGranted (ll_id l) (ll_bytes l)) \<in> set (snd (apply_grant now ?h g bc))"
    if "bc_tenant bc ?h = Some t" "tn_sid t = Some sid" for t sid
    using that ag by (auto simp: to_tenant_def bc_tenant_def)
  with h l show ?thesis
    by (intro exI [of _ bc'] exI [of _ "snd (apply_grant now ?h g bc) @ out"] exI [of _ l])
      (auto simp: bc'_def)
qed

text \<open>A small broker for the witnesses: two slices, one registered tenant.\<close>

definition sample_config :: broker_core_config where
  "sample_config =
     \<lparr>bk_arbiter_cfg = arbiter_config_default,
      bk_endpoints = \<lparr>ec_nbd_unix = Some ''/run/nbd.sock'', ec_nbd_tcp = None\<rparr>,
      bk_swap_prio = None, bk_lease_ttl = DEFAULT_LEASE_TTL, bk_slice_io = [],
      bk_vram = \<lparr>vg_free = 0, vg_total = 0\<rparr>, bk_tol_frac = fp_zero, bk_recon_streak = 3\<rparr>"

definition sample_slices :: slice_map where
  "sample_slices = \<lparr>sm_slices =
     [\<lparr>sl_id = 0, sl_offset = 0, sl_len = 4096, sl_tenant = None, sl_state = Free\<rparr>,
      \<lparr>sl_id = 1, sl_offset = 4096, sl_len = 4096, sl_tenant = None, sl_state = Free\<rparr>]\<rparr>"

definition sample_broker :: broker_core where
  "sample_broker = fst (on_register (broker_new sample_slices sample_config) 0 1 ''a'' NbdUnix)"

definition sample_lease_broker :: broker_core where
  "sample_lease_broker = fst (on_lease_request sample_broker 0 100)"

lemma sample_slices_new: "slice_map_new 2 4096 8192 = Ok sample_slices"
  by (simp add: slice_map_new_def MAX_SLICES_def checked_mul_def u64_max_def sample_slices_def
      upt_rec numeral_2_eq_2)

lemma reach_msg: "reachable bc \<Longrightarrow> reachable (fst (on_msg bc sid m now))"
  by (rule reach_step [of bc "CoreMsg sid m" now _ "snd (on_msg bc sid m now)"])
    (simp_all add: handle_def)

lemma sample_broker_reachable: "reachable sample_broker"
  using reach_msg [OF reach_init [OF sample_slices_new], of sample_config 0 "Register 1 ''a'' NbdUnix"]
  by (simp add: on_msg_def sample_broker_def)

lemma sample_lease_broker_reachable: "reachable sample_lease_broker"
  using reach_msg [OF sample_broker_reachable, of 0 "LeaseRequest 100"]
  by (simp add: on_msg_def sample_lease_broker_def)

lemmas sample_defs = sample_lease_broker_def sample_broker_def sample_config_def sample_slices_def
  broker_new_def on_register_def on_lease_request_def PROTO_VERSION_def bc_tenant_def Let_def

theorem pending_lease_granted_witness:
  "\<exists>bc' out l. handle sample_lease_broker Tick 5 = Some (bc', out) \<and>
     lb_active_lease (bc_lease_book bc') = Some l \<and> 100 \<le> ll_bytes l \<and>
     bytes_in Leased (bc_slice_map bc') = ll_bytes l"
proof -
  have p: "lb_pending (bc_lease_book sample_lease_broker) =
      Some \<lparr>pl_holder = 1, pl_requested_bytes = 100\<rparr>"
    by (simp add: sample_defs begin_request_def lease_book_new_def total_bytes_def wrapping_add_def
        u64_max_def)
  have m: "bc_slice_map sample_lease_broker = sample_slices"
    by (simp add: sample_defs case_prod_beta)
  have n: "lb_next_id (bc_lease_book sample_lease_broker) = 1"
    by (simp add: sample_defs begin_request_def lease_book_new_def total_bytes_def wrapping_add_def
        u64_max_def)
  have ttl: "bc_lease_ttl sample_lease_broker = DEFAULT_LEASE_TTL"
    by (simp add: sample_defs case_prod_beta)
  from pending_lease_granted [OF sample_lease_broker_reachable p, of 5] show ?thesis
    by (auto simp: m n ttl sample_slices_def ids_in_def slice_len_def div_ceil_def u32_max_def
        DEFAULT_LEASE_TTL_def from_secs_def instant_max_def)
qed

subsection \<open>Branches that are never taken\<close>

fun internal_fault :: "outbound \<Rightarrow> bool" where
  "internal_fault (Log (LogArbiterError _)) = True"
| "internal_fault (Log LogUnavailableSlices) = True"
| "internal_fault (Log LogRolledBack) = True"
| "internal_fault _ = False"

definition no_fault :: "outbound list \<Rightarrow> bool" where
  "no_fault out \<longleftrightarrow> (\<forall>x \<in> set out. \<not> internal_fault x)"

lemma no_fault_simps [simp]:
  "no_fault []" "no_fault (x # xs) \<longleftrightarrow> \<not> internal_fault x \<and> no_fault xs"
  "no_fault (xs @ ys) \<longleftrightarrow> no_fault xs \<and> no_fault ys"
  "no_fault (concat (map f zs)) \<longleftrightarrow> (\<forall>z \<in> set zs. no_fault (f z))"
  by (auto simp: no_fault_def)

lemma no_fault_send [simp]:
  "no_fault (to_tenant bc t m)" "no_fault (emit_swapon bc slice t)" "no_fault (refuse sid reason)"
  by (simp_all add: to_tenant_def emit_swapon_def refuse_def split: option.split)

lemma no_fault_readopt [simp]: "no_fault (snd (readopt m tid es))"
  by (induction m tid es rule: readopt.induct)
    (simp_all add: case_prod_beta split: option.split)

lemma no_fault_on_msg: "no_fault (snd (on_msg bc sid m now))"
  by (cases m)
    (simp_all add: on_msg_def on_register_def on_psi_def on_swap_on_done_def on_swap_off_done_def
      on_lease_request_def on_lease_release_def Let_def case_prod_beta
      split: option.split result.split bool.split lease_deny.split lease_decision.split)

lemma no_fault_apply_action: "\<not> is_grant a \<Longrightarrow> no_fault (snd (apply_action now present a bc))"
  by (cases a) (simp_all add: apply_move_def case_prod_beta Let_def)

lemma no_fault_apply_actions:
  "\<forall>a \<in> set as. \<not> is_grant a \<Longrightarrow> no_fault (snd (apply_actions now present as bc))"
  by (induction "as" arbitrary: bc) (simp_all add: case_prod_beta no_fault_apply_action)

lemma no_fault_retry: "no_fault (snd (retry_stuck_zeroing bc))"
  by (auto simp: retry_stuck_zeroing_def retry_entry_def Let_def case_prod_beta comp_def
      split: option.split)

lemma no_fault_telemetry: "no_fault (snd (emit_telemetry bc))"
  by (simp add: emit_telemetry_def Let_def case_prod_beta)

lemma no_fault_expire: "no_fault (snd (expire_lease bc now))"
  by (simp add: expire_lease_def release_slices_def Let_def case_prod_beta split: option.split)

lemma no_fault_grant:
  assumes inv: "broker_inv bc" and pend: "pending_request bc = Some (h, b)"
    and t: "tick_lease (present_views bc) (visible_slices bc) h b = Some (Ok [GrantLease h g])"
  shows "no_fault (snd (apply_grant now h g bc))"
proof -
  note gs = granted_slices [OF inv pend t]
  from inv conjunct1 [OF gs] show ?thesis
    using gs by (cases rule: apply_grant_cases [where now = now and holder = h]) simp_all
qed

lemma bc_tenant_arbiter: "bc_tenant (bc\<lparr>bc_arbiter := ar\<rparr>) = bc_tenant bc"
  by (simp add: fun_eq_iff bc_tenant_def)

lemma views_arbiter [simp]:
  "present_views (bc\<lparr>bc_arbiter := ar\<rparr>) = present_views bc"
  "visible_slices (bc\<lparr>bc_arbiter := ar\<rparr>) = visible_slices bc"
  "pending_request (bc\<lparr>bc_arbiter := ar\<rparr>) = pending_request bc"
  unfolding present_views_def visible_slices_def pending_request_def bc_tenant_arbiter slices_of_def
  by simp_all

lemma no_fault_tick_arbiter:
  assumes inv: "broker_inv bc" and t: "tick_arbiter bc now = Some (bc', out)"
  shows "no_fault out"
  using t
proof (cases rule: tick_arbiterE)
  case (1 ar actions)
  let ?bc = "bc\<lparr>bc_arbiter := ar\<rparr>"
  have inv': "broker_inv ?bc" using inv by (simp add: broker_inv_def)
  from tick_actions_shape [OF inv 1(1)] show ?thesis
  proof (elim exE conjE disjE)
    fix acts
    assume "Ok actions = Ok acts" "\<forall>a \<in> set acts. \<not> is_grant a"
    with no_fault_apply_actions [of actions now "present_views bc" ?bc] 1(2) show ?thesis by simp
  next
    fix acts h g b
    assume acts: "Ok actions = Ok acts" "acts = [GrantLease h g]" "pending_request bc = Some (h, b)"
    then have "tick_lease (present_views bc) (visible_slices bc) h b = Some (Ok [GrantLease h g])"
      using 1(1) by (auto simp: tick_def)
    with no_fault_grant [OF inv', of h b g now] acts 1(2) show ?thesis
      by (simp add: case_prod_beta)
  qed
next
  case (2 ar e)
  with tick_actions_shape [OF inv 2(1)] show ?thesis by auto
qed

text \<open>
  C12. The defensive branches of the core are dead code: from no reachable state does an event
  produce an arbiter error, a grant with unavailable slices or a rolled back grant.
\<close>

theorem reachable_no_internal_fault:
  assumes "reachable bc" "handle bc ev now = Some (bc', out)"
  shows "no_fault out"
proof (cases ev)
  case (CoreMsg sid m)
  with assms(2) no_fault_on_msg [of bc sid m now] show ?thesis by (simp add: handle_def)
next
  case Tick
  with assms(2) have "on_tick bc now = Some (bc', out)" by (simp add: handle_def)
  then show ?thesis
  proof (cases rule: on_tickE)
    case (1 bc2 out2)
    have "no_fault out2"
      using no_fault_tick_arbiter [OF expire_lease_inv [OF reachable_inv [OF assms(1)]] 1(1)] .
    with 1(3) show ?thesis by (simp add: no_fault_expire no_fault_retry no_fault_telemetry)
  qed
next
  case (Disconnected sid)
  then have "out = snd (on_disconnect bc sid)" using assms(2) by (simp add: handle_def)
  then show ?thesis by (simp add: on_disconnect_def case_prod_beta split: option.split)
next
  case (ZeroDone slice ok)
  then have "out = snd (on_zero_done bc slice ok)" using assms(2) by (simp add: handle_def)
  then show ?thesis by (simp add: on_zero_done_def case_prod_beta Let_def split: option.split)
next
  case (Demote reason)
  then have "out = snd (on_demote bc reason)" using assms(2) by (simp add: handle_def)
  then show ?thesis by (simp add: on_demote_def Let_def)
qed

theorem reachable_no_internal_fault_witness:
  "\<exists>bc' out. handle sample_lease_broker (Disconnected 0) 5 = Some (bc', out) \<and> no_fault out"
  using reachable_no_internal_fault [OF sample_lease_broker_reachable, of "Disconnected 0" 5]
  by (simp add: handle_def) (metis surj_pair)

subsection \<open>No panic\<close>

text \<open>No tenant's pressure is NaN: a comparison of the pressures is then a total order.\<close>

definition pressures_ok :: "broker_core \<Rightarrow> bool" where
  "pressures_ok bc \<longleftrightarrow> (\<forall>(_, t) \<in> set (bc_tenants bc). ps_avg10 (tn_psi t) \<noteq> NaN)"

lemma present_views_numbers: "pressures_ok bc \<Longrightarrow> t \<in> set (present_views bc) \<Longrightarrow> view_psi t \<noteq> NaN"
  by (auto simp: pressures_ok_def present_views_def view_psi_def)

lemma expire_lease_keeps [simp]:
  "bc_arbiter (fst (expire_lease bc now)) = bc_arbiter bc"
  "bc_tenants (fst (expire_lease bc now)) = bc_tenants bc"
  by (simp_all add: expire_lease_def release_slices_def Let_def case_prod_beta split: option.split)

lemma handle_never_panics:
  assumes "now + max (cfg_cooldown (ar_cfg (bc_arbiter bc))) (cfg_cf_cooldown (ar_cfg (bc_arbiter bc)))
      \<le> instant_max"
    and "pressures_ok bc"
  shows "\<exists>bc' out. handle bc ev now = Some (bc', out)"
proof (cases ev)
  case Tick
  let ?bc1 = "fst (expire_lease bc now)"
  have "pressures_ok ?bc1" using assms(2) by (simp add: pressures_ok_def)
  then obtain ar r where "tick (bc_arbiter ?bc1) now (present_views ?bc1) (visible_slices ?bc1)
      (pending_request ?bc1) = Some (ar, r)"
    using tick_never_panics [of now "bc_arbiter bc" "present_views ?bc1"] assms(1) present_views_numbers
    by fastforce
  then obtain res where "tick_arbiter ?bc1 now = Some res"
    by (simp add: tick_arbiter_def Let_def)
  then show ?thesis using Tick by (simp add: handle_def on_tick_def case_prod_beta)
qed (simp_all add: handle_def)

subsection \<open>Tenant identity\<close>

definition tenancy where
  "tenancy bc = (bc_tenants bc, bc_sessions bc, bc_name_to_id bc, bc_next_tenant bc)"

definition names_ok :: "(string \<rightharpoonup> tenant_id) \<Rightarrow> tenant_id \<Rightarrow> bool" where
  "names_ok names nxt \<longleftrightarrow>
     finite (dom names) \<and>
     (card (dom names) < u32_max \<longrightarrow>
        nxt = card (dom names) + 1 \<and> inj_on names (dom names) \<and> ran names \<subseteq> {1 ..< nxt})"

definition tenant_inv :: "broker_core \<Rightarrow> bool" where
  "tenant_inv bc \<longleftrightarrow>
     bt_wf (bc_tenants bc) \<and> names_ok (bc_name_to_id bc) (bc_next_tenant bc) \<and>
     (\<forall>t st. bc_tenant bc t = Some st \<longrightarrow> bc_name_to_id bc (tn_name st) = Some t) \<and>
     (\<forall>sid t. bc_sessions bc sid = Some t \<longrightarrow> bc_tenant bc t \<noteq> None)"

lemma tenant_inv_frame: "tenancy bc' = tenancy bc \<Longrightarrow> tenant_inv bc \<Longrightarrow> tenant_inv bc'"
  by (simp add: tenancy_def tenant_inv_def bc_tenant_def)

lemma tenancy_simps [simp]:
  "tenancy (fst (on_swap_on_done bc slice ok d)) = tenancy bc"
  "tenancy (fst (on_swap_off_done bc slice ok d)) = tenancy bc"
  "tenancy (fst (on_lease_request bc sid bytes)) = tenancy bc"
  "tenancy (fst (on_lease_release bc sid lease)) = tenancy bc"
  "tenancy (fst (on_zero_done bc slice ok)) = tenancy bc"
  "tenancy (fst (on_demote bc reason)) = tenancy bc"
  "tenancy (fst (expire_lease bc now)) = tenancy bc"
  "tenancy (fst (retry_stuck_zeroing bc)) = tenancy bc"
  "tenancy (fst (emit_telemetry bc)) = tenancy bc"
  by (simp_all add: tenancy_def on_swap_on_done_def on_swap_off_done_def on_lease_request_def
      on_lease_release_def on_zero_done_def on_demote_def expire_lease_def release_slices_def
      retry_stuck_zeroing_def emit_telemetry_def Let_def case_prod_beta
      split: option.split result.split bool.split lease_deny.split)

lemma tenancy_apply_action [simp]: "tenancy (fst (apply_action now present a bc)) = tenancy bc"
  by (cases a)
    (simp_all add: tenancy_def apply_move_def apply_grant_def Let_def case_prod_beta
      split: option.split result.split)

lemma tenancy_apply_actions [simp]: "tenancy (fst (apply_actions now present as bc)) = tenancy bc"
  by (induction "as" arbitrary: bc) (simp_all add: case_prod_beta)

lemma tenancy_on_tick:
  assumes "on_tick bc now = Some (bc', out)"
  shows "tenancy bc' = tenancy bc"
  using assms
proof (cases rule: on_tickE)
  case (1 bc2 out2)
  have "tenancy bc2 = tenancy (fst (expire_lease bc now))"
    using 1(1)
  proof (cases rule: tick_arbiterE)
    case (1 ar actions)
    then have "bc2 = fst (apply_actions now (present_views (fst (expire_lease bc now))) actions
        ((fst (expire_lease bc now))\<lparr>bc_arbiter := ar\<rparr>))" by simp
    then show ?thesis by (simp only: tenancy_apply_actions) (simp add: tenancy_def)
  qed (simp add: tenancy_def)
  with 1(2) show ?thesis by simp
qed

lemma names_ok_insert:
  assumes ok: "names_ok names nxt"
    and tid: "tid = (case names name of Some i \<Rightarrow> i | None \<Rightarrow> nxt)"
  shows "names_ok (names(name \<mapsto> tid)) (if tid = nxt then wrapping_add u32_max nxt 1 else nxt)"
proof (cases "names name")
  case (Some i)
  then have same: "names(name \<mapsto> tid) = names" using tid by (simp add: fun_upd_idem)
  have "tid \<in> ran names" using Some tid by (auto simp: ran_def)
  then have "card (dom names) < u32_max \<Longrightarrow> tid \<noteq> nxt" using ok by (auto simp: names_ok_def)
  with ok show ?thesis unfolding same by (auto simp: names_ok_def)
next
  case None
  then have tid': "tid = nxt" using tid by simp
  have fin: "finite (dom names)" using ok by (simp add: names_ok_def)
  have card: "card (dom (names(name \<mapsto> tid))) = Suc (card (dom names))"
    using fin None by (simp add: card_insert_disjoint domIff)
  show ?thesis
  proof (cases "Suc (card (dom names)) < u32_max")
    case True
    then have nxt: "nxt = card (dom names) + 1" "inj_on names (dom names)" "ran names \<subseteq> {1 ..< nxt}"
      using ok by (auto simp: names_ok_def)
    have notin: "\<forall>x. names x \<noteq> Some nxt"
      using nxt(3) by (force simp: ran_def)
    have "inj_on (names(name \<mapsto> nxt)) (insert name (dom names))"
      using None nxt(2) notin by (auto simp: inj_on_def domIff)
    moreover have "ran (names(name \<mapsto> nxt)) = insert nxt (ran names)" using None by simp
    ultimately show ?thesis
      using True fin nxt card tid' by (auto simp: names_ok_def wrapping_add_def)
  next
    case False
    with fin card tid' show ?thesis by (simp add: names_ok_def)
  qed
qed


lemma bc_tenant_adjust:
  "bc_tenants bc' = bt_adjust t f (bc_tenants bc) \<Longrightarrow>
   bc_tenant bc' u = (if u = t then map_option f (bc_tenant bc u) else bc_tenant bc u)"
  by (simp add: bc_tenant_def map_of_bt_adjust)

lemma tenant_inv_adjust:
  assumes "tenant_inv bc" "bc_tenants bc' = bt_adjust t f (bc_tenants bc)"
    and "\<And>st. tn_name (f st) = tn_name st"
    and "bc_sessions bc' \<subseteq>\<^sub>m bc_sessions bc"
    and "bc_name_to_id bc' = bc_name_to_id bc" "bc_next_tenant bc' = bc_next_tenant bc"
  shows "tenant_inv bc'"
proof -
  note look = bc_tenant_adjust [OF assms(2)]
  have "bc_name_to_id bc' (tn_name st) = Some u" if "bc_tenant bc' u = Some st" for u st
    using that assms(1,3,5) by (auto simp: look tenant_inv_def split: if_splits)
  moreover have "bc_tenant bc' u \<noteq> None" if "bc_sessions bc' sid = Some u" for sid u
  proof -
    have "bc_sessions bc sid = Some u" using that assms(4) by (metis domI map_le_def)
    with assms(1) show ?thesis by (auto simp: tenant_inv_def look)
  qed
  ultimately show ?thesis using assms(1,2,5,6) by (auto simp: tenant_inv_def)
qed

lemma on_disconnect_tenants: "tenant_inv bc \<Longrightarrow> tenant_inv (fst (on_disconnect bc sid))"
  by (cases "bc_sessions bc sid")
    (auto simp: on_disconnect_def case_prod_beta map_le_def
      intro!: tenant_inv_adjust [of bc _ _ "\<lambda>t. t\<lparr>tn_present := False, tn_sid := None\<rparr>"])

lemma on_psi_tenants:
  assumes "tenant_inv bc"
  shows "tenant_inv (fst (on_psi bc sid sample swaps mem now))"
proof (cases "bc_sessions bc sid")
  case (Some tid)
  define bc1 where "bc1 = bc\<lparr>bc_tenants := bt_adjust tid
      (\<lambda>t. t\<lparr>tn_psi := sample, tn_mem := mem, tn_reconciled := True\<rparr>) (bc_tenants bc)\<rparr>"
  have t1: "tenant_inv bc1"
    unfolding bc1_def
    by (rule tenant_inv_adjust [OF assms, of _ tid
          "\<lambda>t. t\<lparr>tn_psi := sample, tn_mem := mem, tn_reconciled := True\<rparr>"]) simp_all
  obtain bcx out where x: "on_psi bc sid sample swaps mem now =
      (bcx\<lparr>bc_tenants := bt_adjust tid (\<lambda>t. t\<lparr>tn_occupied_bytes :=
            occupied_by (bc_slice_map bcx) tid swaps\<rparr>) (bc_tenants bcx),
          bc_lease_book := fst (renew_active (bc_lease_book bcx) tid now (bc_lease_ttl bcx))\<rparr>, out)"
    and "tenancy bcx \<in> {tenancy bc, tenancy bc1}"
    using Some by (auto simp: on_psi_def Let_def bc1_def tenancy_def case_prod_beta split: option.splits if_splits)
  then have "tenant_inv bcx" using assms t1 tenant_inv_frame by blast
  then show ?thesis
    by (simp only: x fst_conv)
      (rule tenant_inv_adjust [of bcx _ tid "\<lambda>t. t\<lparr>tn_occupied_bytes :=
            occupied_by (bc_slice_map bcx) tid swaps\<rparr>"]; simp)
qed (use assms in \<open>simp add: on_psi_def\<close>)

lemma on_register_tenants:
  assumes "tenant_inv bc"
  shows "tenant_inv (fst (on_register bc sid proto name transport))"
proof (cases "proto = PROTO_VERSION")
  case True
  define tid where "tid = (case bc_name_to_id bc name of Some i \<Rightarrow> i | None \<Rightarrow> bc_next_tenant bc)"
  define bc1 where "bc1 = bc\<lparr>bc_name_to_id := (bc_name_to_id bc)(name \<mapsto> tid), bc_next_tenant :=
      (if tid = bc_next_tenant bc then wrapping_add u32_max (bc_next_tenant bc) 1 else bc_next_tenant bc)\<rparr>"
  have names: "names_ok (bc_name_to_id bc1) (bc_next_tenant bc1)"
    using assms names_ok_insert [of "bc_name_to_id bc" "bc_next_tenant bc" tid name] tid_def
    by (simp add: bc1_def tenant_inv_def)
  have "bc_name_to_id bc1 (tn_name st) = Some u" if "bc_tenant bc u = Some st" for u st
    using that assms by (auto simp: bc1_def tid_def tenant_inv_def)
  then have t1: "tenant_inv bc1"
    using assms names by (simp add: tenant_inv_def bc1_def bc_tenant_def)
  define st where "st = \<lparr>tn_name = name, tn_transport = transport, tn_present = True, tn_sid = Some sid,
      tn_psi = (case bc_tenant bc1 tid of Some t \<Rightarrow> tn_psi t | None \<Rightarrow> psi_default),
      tn_reconciled = False, tn_mem = None, tn_occupied_bytes = 0\<rparr>"
  have x: "fst (on_register bc sid proto name transport) \<in>
      {bc1, bc1\<lparr>bc_tenants := bt_insert tid st (bc_tenants bc1), bc_sessions := (bc_sessions bc1)(sid \<mapsto> tid)\<rparr>}"
    unfolding on_register_def Let_def tid_def [symmetric] bc1_def [symmetric] st_def [symmetric]
    using True by simp
  have st: "tn_name st = name" by (simp add: st_def)
  have "map_of (bt_insert tid st (bc_tenants bc1)) = (map_of (bc_tenants bc1))(tid \<mapsto> st)"
    using t1 by (intro map_of_bt_insert) (simp add: tenant_inv_def)
  then have "tenant_inv (bc1\<lparr>bc_tenants := bt_insert tid st (bc_tenants bc1),
      bc_sessions := (bc_sessions bc1)(sid \<mapsto> tid)\<rparr>)"
    using t1 st bt_wf_insert by (auto simp: tenant_inv_def bc_tenant_def bc1_def)
  with x t1 show ?thesis by auto
qed (use assms in \<open>simp add: on_register_def\<close>)

lemma handle_tenants:
  assumes "tenant_inv bc" "handle bc ev now = Some (bc', out)"
  shows "tenant_inv bc'"
proof (cases ev)
  case (CoreMsg sid m)
  have "tenant_inv (fst (on_msg bc sid m now))"
    using assms(1) by (cases m)
      (simp_all add: on_msg_def on_register_tenants on_psi_tenants tenant_inv_frame)
  with assms(2) CoreMsg show ?thesis by (simp add: handle_def)
next
  case (Disconnected sid)
  with assms on_disconnect_tenants [of bc sid] show ?thesis by (simp add: handle_def)
next
  case (ZeroDone i ok)
  then have "bc' = fst (on_zero_done bc i ok)" using assms(2) by (simp add: handle_def)
  with assms(1) show ?thesis by (simp add: tenant_inv_frame)
next
  case (Demote reason)
  then have "bc' = fst (on_demote bc reason)" using assms(2) by (simp add: handle_def)
  with assms(1) show ?thesis by (simp add: tenant_inv_frame)
next
  case Tick
  then have "tenancy bc' = tenancy bc" using assms(2) by (intro tenancy_on_tick) (simp add: handle_def)
  with assms(1) show ?thesis by (rule tenant_inv_frame [rotated])
qed

lemma reachable_tenants: "reachable bc \<Longrightarrow> tenant_inv bc"
proof (induction rule: reachable.induct)
  case (reach_init k slice_bytes backing m cfg)
  then show ?case
    by (simp add: tenant_inv_def broker_new_def bc_tenant_def names_ok_def)
next
  case (reach_step bc ev now bc' out)
  then show ?case using handle_tenants by blast
qed (auto simp: tenancy_def intro: tenant_inv_frame)

text \<open>
  Tenant identity: in every reachable state every session belongs to a registered tenant, a
  tenant's record carries the name its id was given to, and, while fewer than \<open>u32::MAX\<close> names
  have registered, no two names share an id.
\<close>

theorem reachable_tenant_identity:
  assumes "reachable bc"
  shows "(\<forall>sid t. bc_sessions bc sid = Some t \<longrightarrow> bc_tenant bc t \<noteq> None) \<and>
    (\<forall>t st. bc_tenant bc t = Some st \<longrightarrow> bc_name_to_id bc (tn_name st) = Some t) \<and>
    (card (dom (bc_name_to_id bc)) < u32_max \<longrightarrow> inj_on (bc_name_to_id bc) (dom (bc_name_to_id bc)))"
  using reachable_tenants [OF assms] by (simp add: tenant_inv_def names_ok_def)

theorem reachable_tenant_identity_witness:
  "reachable sample_broker \<and> bc_sessions sample_broker 0 = Some 1 \<and> bc_tenant sample_broker 1 \<noteq> None"
  using reachable_tenant_identity [OF sample_broker_reachable] sample_broker_reachable
  by (simp add: sample_defs)

subsection \<open>DEMOTE, eviction telemetry and zeroing retries\<close>

text \<open>
  A DEMOTE reaches everybody: every present tenant with a live session is sent \<open>DemoteAll\<close>, and
  if the next telemetry sample sees a VRAM gauge and a present tenant, it reports the
  eviction at once, without waiting for the confirmation streak.
\<close>

theorem demote_reaches_tenants:
  assumes "handle bc (Demote reason) now = Some (bc1, out1)"
    and "bc_demotes_at_last_sample bc \<le> bc_demotes_total bc" "bc_demotes_total bc < u64_max"
  shows "(\<forall>t st sid. bc_tenant bc t = Some st \<and> tn_present st \<and> tn_sid st = Some sid \<longrightarrow>
      ToSession sid DemoteAll \<in> set out1) \<and>
    (0 < vg_total (bc_vram bc) \<and> (\<exists>(_, st) \<in> set (bc_tenants bc). tn_present st) \<longrightarrow>
      (\<exists>tc. Telemetry tc \<in> set (snd (emit_telemetry bc1)) \<and> tc_flag tc = Eviction))"
proof -
  have bc1: "bc1 = bc\<lparr>bc_demotes_total := saturating_add u64_max (bc_demotes_total bc) 1,
      bc_last_demote_reason := Some reason\<rparr>"
    and out1: "out1 = Log (LogDemoteAll reason) #
      concat (map (\<lambda>i. to_tenant bc1 i DemoteAll) (map fst (filter (\<lambda>(_, t). tn_present t) (bc_tenants bc1))))"
    using assms(1) by (auto simp: handle_def on_demote_def Let_def)
  have "ToSession sid DemoteAll \<in> set out1"
    if "bc_tenant bc t = Some st" "tn_present st" "tn_sid st = Some sid" for t st sid
  proof -
    have "(t, st) \<in> set (bc_tenants bc)" using that(1) by (simp add: bc_tenant_def map_of_SomeD)
    then have "(t, st) \<in> set (bc_tenants bc1)" by (simp add: bc1)
    moreover have "to_tenant bc1 t DemoteAll = [ToSession sid DemoteAll]"
      using that by (simp add: to_tenant_def bc_tenant_def bc1)
    ultimately show ?thesis unfolding out1 using that(2) by (auto intro!: exI [of _ t] exI [of _ st])
  qed
  moreover have "snd (reconcile (telemetry_input bc1) tol) = Eviction"
    if "0 < vg_total (bc_vram bc)" "\<exists>(_, st) \<in> set (bc_tenants bc). tn_present st" for tol
    using that assms(2,3)
    by (simp add: reconcile_Eviction telemetry_input_def bc1 saturating_sub_def saturating_add_def)
  then have "\<exists>tc. Telemetry tc \<in> set (snd (emit_telemetry bc1)) \<and> tc_flag tc = Eviction"
    if "0 < vg_total (bc_vram bc)" "\<exists>(_, st) \<in> set (bc_tenants bc). tn_present st"
    using that by (auto simp: emit_telemetry_def Let_def case_prod_beta)
  ultimately show ?thesis by blast
qed

theorem demote_reaches_tenants_witness:
  "\<exists>bc1 out1. handle sample_broker (Demote ''evicted'') 5 = Some (bc1, out1) \<and>
     ToSession 0 DemoteAll \<in> set out1"
proof -
  obtain bc1 out1 where h: "handle sample_broker (Demote ''evicted'') 5 = Some (bc1, out1)"
    by (simp add: handle_def on_demote_def Let_def)
  have "bc_demotes_at_last_sample sample_broker \<le> bc_demotes_total sample_broker"
    "bc_demotes_total sample_broker < u64_max"
    by (simp_all add: sample_defs u64_max_def)
  moreover have "\<exists>st. bc_tenant sample_broker 1 = Some st \<and> tn_present st \<and> tn_sid st = Some 0"
    by (simp add: sample_defs)
  ultimately show ?thesis using demote_reaches_tenants [OF h] h by blast
qed

lemma pz_same [simp]:
  "bc_pending_zero (fst (on_register bc sid proto name transport)) = bc_pending_zero bc"
  "bc_pending_zero (fst (on_psi bc sid sample swaps mem now)) = bc_pending_zero bc"
  "bc_pending_zero (fst (on_swap_on_done bc slice ok d)) = bc_pending_zero bc"
  "bc_pending_zero (fst (on_lease_request bc sid bytes)) = bc_pending_zero bc"
  "bc_pending_zero (fst (on_lease_release bc sid lease)) = bc_pending_zero bc"
  "bc_pending_zero (fst (on_disconnect bc sid)) = bc_pending_zero bc"
  "bc_pending_zero (fst (on_demote bc reason)) = bc_pending_zero bc"
  "bc_pending_zero (fst (expire_lease bc now)) = bc_pending_zero bc"
  "bc_pending_zero (fst (emit_telemetry bc)) = bc_pending_zero bc"
  by (simp_all add: on_register_def on_psi_def on_swap_on_done_def on_lease_request_def
      on_lease_release_def on_disconnect_def on_demote_def expire_lease_def release_slices_def
      emit_telemetry_def Let_def case_prod_beta
      split: option.split result.split bool.split lease_deny.split)

lemma pz_apply_action [simp]: "bc_pending_zero (fst (apply_action now present a bc)) = bc_pending_zero bc"
  by (cases a)
    (simp_all add: apply_move_def apply_grant_def Let_def case_prod_beta
      split: option.split result.split)

lemma pz_apply_actions [simp]:
  "bc_pending_zero (fst (apply_actions now present as bc)) = bc_pending_zero bc"
  by (induction "as" arbitrary: bc) (simp_all add: case_prod_beta)

lemma pz_tick_arbiter:
  assumes "tick_arbiter bc now = Some (bc', out)"
  shows "bc_pending_zero bc' = bc_pending_zero bc"
  using assms
proof (cases rule: tick_arbiterE)
  case (1 ar actions)
  then have "bc' = fst (apply_actions now (present_views bc) actions (bc\<lparr>bc_arbiter := ar\<rparr>))" by simp
  then show ?thesis by (simp only: pz_apply_actions) simp
qed simp

lemma retry_tick:
  assumes "(i, n) \<in> set (bc_pending_zero bc)" "sm_get (bc_slice_map bc) i = Some s"
  shows "(i, wrapping_add u32_max n 1) \<in> set (bc_pending_zero (fst (retry_stuck_zeroing bc)))"
    and "1 \<le> n \<Longrightarrow> n < u32_max \<Longrightarrow>
      ZeroSlice i (sl_offset s) (sl_len s) \<in> set (snd (retry_stuck_zeroing bc))"
  using assms
  by (force simp: retry_stuck_zeroing_def retry_entry_def Let_def image_iff wrapping_add_def
      ZERO_RETRY_GRACE_def)+

text \<open>
  C14. Zeroing is retried until it is confirmed. A slice reported as swapped off is requested to be
  zeroed and remembered; no event but its own confirmation forgets it; and from the second tick on
  every tick requests its exact byte range to be zeroed again.
\<close>

theorem zeroing_retried:
  assumes "(i, n) \<in> set (bc_pending_zero bc)" "sm_get (bc_slice_map bc) i = Some s"
    and h: "handle bc ev now = Some (bc', out)"
  shows "(ev \<noteq> ZeroDone i True \<longrightarrow> (\<exists>n'. (i, n') \<in> set (bc_pending_zero bc'))) \<and>
    (ev = Tick \<and> n < u32_max \<longrightarrow> (i, Suc n) \<in> set (bc_pending_zero bc') \<and>
      (1 \<le> n \<longrightarrow> ZeroSlice i (sl_offset s) (sl_len s) \<in> set out))"
proof (cases ev)
  case Tick
  with h have "on_tick bc now = Some (bc', out)" by (simp add: handle_def)
  then show ?thesis
  proof (cases rule: on_tickE)
    case (1 bc2 out2)
    have n2: "(i, n) \<in> set (bc_pending_zero bc2)" using pz_tick_arbiter [OF 1(1)] assms(1) by simp
    obtain R where "slice_change R bc bc2"
      using slice_change_trans [OF slice_change_mono [OF expire_lease_change [of bc now] unlease_not_release]
          tick_arbiter_change [OF 1(1)]] by blast
    then have "sm_geometry (bc_slice_map bc2) = sm_geometry (bc_slice_map bc)"
      by (auto simp: slice_change_def)
    from sm_geometry_get [OF this assms(2)] obtain s' where
      s': "sm_get (bc_slice_map bc2) i = Some s'" "sl_offset s' = sl_offset s" "sl_len s' = sl_len s"
      by blast
    have "n < u32_max \<Longrightarrow> wrapping_add u32_max n 1 = Suc n" by (simp add: wrapping_add_def)
    with retry_tick [OF n2 s'(1)] s' 1 Tick show ?thesis by auto
  qed
next
  case (CoreMsg sid m)
  have "\<exists>n'. (i, n') \<in> set (bc_pending_zero (fst (on_msg bc sid m now)))"
    using assms(1) by (cases m)
      (auto simp: on_msg_def on_swap_off_done_def pz_entry_def split: option.split)
  with h CoreMsg show ?thesis by (simp add: handle_def)
next
  case (ZeroDone j ok)
  then have "bc' = fst (on_zero_done bc j ok)" using h by (simp add: handle_def)
  moreover have "bc_pending_zero (fst (on_zero_done bc j ok)) =
      (if ok then filter (\<lambda>(k, _). k \<noteq> j) (bc_pending_zero bc) else bc_pending_zero bc)"
    by (simp add: on_zero_done_def case_prod_beta Let_def split: option.split)
  ultimately show ?thesis using assms(1) ZeroDone by auto
next
  case (Disconnected sid)
  then have "bc' = fst (on_disconnect bc sid)" using h by (simp add: handle_def)
  with assms(1) Disconnected show ?thesis by auto
next
  case (Demote reason)
  then have "bc' = fst (on_demote bc reason)" using h by (simp add: handle_def)
  with assms(1) Demote show ?thesis by auto
qed


theorem zeroing_retried_witness:
  "let bc = sample_broker\<lparr>bc_pending_zero := [(1, 1)]\<rparr>
   in \<exists>bc' out. handle bc Tick 5 = Some (bc', out) \<and> ZeroSlice 1 4096 4096 \<in> set out"
proof -
  let ?bc = "sample_broker\<lparr>bc_pending_zero := [(1, 1)]\<rparr>"
  obtain bc' out where h: "handle ?bc Tick 5 = Some (bc', out)"
    using handle_never_panics [of 5 ?bc Tick]
    by (auto simp: sample_defs case_prod_beta arbiter_new_def arbiter_config_default_def
        from_secs_def instant_max_def pressures_ok_def psi_default_def)
  have "sm_get (bc_slice_map ?bc) 1 =
      Some \<lparr>sl_id = 1, sl_offset = 4096, sl_len = 4096, sl_tenant = None, sl_state = Free\<rparr>"
    by (simp add: sample_defs sm_get_def)
  from zeroing_retried [OF _ this h, of 1] h show ?thesis
    by (simp add: Let_def u32_max_def)
qed

subsection \<open>A movement from beginning to end\<close>

lemma endpoint_for_cong:
  "bc_endpoints bc' = bc_endpoints bc \<Longrightarrow> endpoint_for bc' transport = endpoint_for bc transport"
  by (cases transport) (simp_all add: endpoint_for_def)

text \<open>
  C13. A movement completes: after the broker has drained an active slice for a move, the report of
  the finished swap-off requests exactly that slice to be zeroed, and the confirmation of the
  zeroing hands the slice to the destination as active, clears the movement and tells a connected
  destination with an endpoint to swap on.
\<close>

theorem move_completes:
  assumes s: "sm_get (bc_slice_map bc) i = Some s" "sl_state s = Active"
    and mv: "apply_move now present i src dest bc = (bc1, out1)"
    and off: "on_swap_off_done bc1 i True detail = (bc2, out2)"
    and zero: "on_zero_done bc2 i True = (bc3, out3)"
  shows "sm_get (bc_slice_map bc1) i = Some (s\<lparr>sl_state := Draining\<rparr>) \<and>
    out2 = [ZeroSlice i (sl_offset s) (sl_len s)] \<and>
    sm_get (bc_slice_map bc3) i = Some (s\<lparr>sl_state := Active, sl_tenant := Some dest\<rparr>) \<and>
    bc_pending_dest bc3 i = None \<and> i \<notin> fst ` set (bc_pending_zero bc3) \<and>
    (\<forall>t sid ep. bc_tenant bc dest = Some t \<and> tn_sid t = Some sid \<and>
        endpoint_for bc (tn_transport t) = Some ep \<longrightarrow>
      ToSession sid (SwapOn i (''s'' @ show_nat i) ep (bc_swap_prio bc)) \<in> set out3)"
proof -
  have ok: "is_ok (snd (sm_drain (bc_slice_map bc) i))" using s by (auto simp: drain.is_ok_iff)
  then have bc1: "bc1 = bc\<lparr>bc_slice_map := fst (sm_drain (bc_slice_map bc) i),
      bc_pending_dest := (bc_pending_dest bc)(i \<mapsto> dest), bc_last_rebalance := Some now\<rparr>"
    using mv by (simp add: apply_move_def case_prod_beta Let_def)
  have g1: "sm_get (bc_slice_map bc1) i = Some (s\<lparr>sl_state := Draining\<rparr>)"
    using s by (simp add: bc1 drain.get_step)
  have bc2: "bc2 = bc1\<lparr>bc_pending_zero := pz_entry (bc_pending_zero bc1) i\<rparr>"
    and out2: "out2 = [ZeroSlice i (sl_offset s) (sl_len s)]"
    using off g1 by (simp_all add: on_swap_off_done_def)
  let ?m = "fst (sm_release (bc_slice_map bc2) i)"
  have g2: "sm_get (bc_slice_map bc2) i = Some (s\<lparr>sl_state := Draining\<rparr>)" using g1 by (simp add: bc2)
  then have rel: "\<not> is_err (snd (sm_release (bc_slice_map bc2) i))"
    and g3: "sm_get ?m i = Some (s\<lparr>sl_state := Free, sl_tenant := None\<rparr>)"
    by (simp add: sm_release_def, simp add: release.get_step)
  then have ok2: "is_ok (snd (sm_assign ?m i dest))" by (auto simp: assign.is_ok_iff)
  define bc3' where "bc3' = bc2\<lparr>bc_pending_zero := filter (\<lambda>(k, _). k \<noteq> i) (bc_pending_zero bc2),
      bc_pending_dest := (bc_pending_dest bc2)(i := None), bc_slice_map := fst (sm_assign ?m i dest)\<rparr>"
  have bc3: "bc3 = bc3'" "out3 = emit_swapon bc3' i dest"
    using zero rel ok2 by (auto simp: on_zero_done_def case_prod_beta Let_def bc3'_def bc2 bc1)
  have "sm_get (bc_slice_map bc3) i = Some (s\<lparr>sl_state := Active, sl_tenant := Some dest\<rparr>)"
    using g3 by (simp add: bc3 bc3'_def assign.get_step)
  moreover have "ToSession sid (SwapOn i (''s'' @ show_nat i) ep (bc_swap_prio bc)) \<in> set out3"
    if "bc_tenant bc dest = Some t" "tn_sid t = Some sid" "endpoint_for bc (tn_transport t) = Some ep"
    for t sid ep
  proof -
    have "bc_tenant bc3' dest = Some t" "bc_swap_prio bc3' = bc_swap_prio bc"
      "endpoint_for bc3' (tn_transport t) = Some ep"
      using that endpoint_for_cong [of bc3' bc] by (simp_all add: bc3'_def bc2 bc1 bc_tenant_def)
    with that(2) show ?thesis by (simp add: bc3 emit_swapon_def to_tenant_def)
  qed
  ultimately show ?thesis using g1 out2 by (auto simp: bc3 bc3'_def)
qed

theorem move_completes_witness:
  "let s = \<lparr>sl_id = 0, sl_offset = 0, sl_len = 4096, sl_tenant = Some 7, sl_state = Active\<rparr>;
       bc = sample_broker\<lparr>bc_slice_map := \<lparr>sm_slices = [s]\<rparr>\<rparr>;
       bc1 = fst (apply_move 5 [] 0 7 1 bc); bc2 = fst (on_swap_off_done bc1 0 True [])
   in sm_get (bc_slice_map (fst (on_zero_done bc2 0 True))) 0 = Some (s\<lparr>sl_state := Active, sl_tenant := Some 1\<rparr>)"
proof -
  let ?s = "\<lparr>sl_id = 0, sl_offset = 0, sl_len = 4096, sl_tenant = Some 7, sl_state = Active\<rparr> :: slice"
  let ?bc = "sample_broker\<lparr>bc_slice_map := \<lparr>sm_slices = [?s]\<rparr>\<rparr>"
  have "sm_get (bc_slice_map ?bc) 0 = Some ?s" "sl_state ?s = Active" by (simp_all add: sm_get_def)
  from move_completes [OF this surjective_pairing surjective_pairing surjective_pairing, of 5 "[]" 7 1]
  show ?thesis by (simp only: Let_def)
qed

subsection \<open>Device names\<close>

lemma printable_digit: "is_ascii_digit c \<Longrightarrow> printable c"
  by (simp add: is_ascii_digit_def printable_def)

lemma digits_tail:
  assumes "digits \<noteq> []" "list_all is_ascii_digit digits"
  shows "printable (last (p @ digits))"
  using assms by (simp add: list_all_iff printable_digit)

text \<open>
  Device names and slice ids correspond: \<open>/dev/nbd<n>\<close>, with or without the directory, names slice
  \<open>n\<close> for every \<open>u16\<close>, so distinct slices have distinct devices.
\<close>

theorem dev_to_slice_nbd:
  assumes "n \<le> u16_max"
  shows "dev_to_slice (''/dev/nbd'' @ show_nat n) = Some n \<and> dev_to_slice (''nbd'' @ show_nat n) = Some n"
proof -
  have digits: "list_all is_ascii_digit (show_nat n)" using show_nat_digits by (simp add: list_all_iff)
  have no_slash: "CHR ''/'' \<notin> set (show_nat n)" using show_nat_digits [of n] by (auto simp: is_ascii_digit_def)
  have "trim (''/dev/nbd'' @ show_nat n) = ''/dev/nbd'' @ show_nat n"
    using digits_tail [OF _ digits] by (intro trim_id) (simp_all add: printable_def)
  moreover have "trim (''nbd'' @ show_nat n) = ''nbd'' @ show_nat n"
    using digits_tail [OF _ digits] by (intro trim_id) (simp_all add: printable_def)
  ultimately show ?thesis
    using digits no_slash parse_show_nat [OF assms] by (simp add: dev_to_slice_def strip_prefix_def)
qed

theorem dev_to_slice_nbd_witness: "dev_to_slice (''/dev/nbd'' @ show_nat 12) = Some 12"
  using dev_to_slice_nbd [of 12] by (simp add: u16_max_def)

subsection \<open>Two behaviours worth knowing\<close>

text \<open>
  C18. A \<open>SwapOffDone\<close> is taken at face value: for a slice that is still active, from any session, even
  one that never registered, the core requests the slice to be zeroed. The comment on
  \<open>pending_zero\<close> says that only slices already swapped off are in it.
\<close>

theorem swap_off_done_zeroes_active:
  assumes "sm_get (bc_slice_map bc) i = Some s" "sl_state s = Active" "bc_sessions bc sid = None"
  shows "\<exists>bc'. handle bc (CoreMsg sid (SwapOffDone i True d)) now =
      Some (bc', [ZeroSlice i (sl_offset s) (sl_len s)]) \<and>
    i \<in> fst ` set (bc_pending_zero bc') \<and> sm_get (bc_slice_map bc') i = Some s"
  using assms by (force simp: handle_def on_msg_def on_swap_off_done_def pz_entry_def)

theorem swap_off_done_zeroes_active_witness:
  "let s = \<lparr>sl_id = 0, sl_offset = 0, sl_len = 4096, sl_tenant = Some 1, sl_state = Active\<rparr>;
       bc = sample_broker\<lparr>bc_slice_map := \<lparr>sm_slices = [s]\<rparr>\<rparr>
   in \<exists>bc'. handle bc (CoreMsg 9 (SwapOffDone 0 True [])) 5 = Some (bc', [ZeroSlice 0 0 4096])"
  using swap_off_done_zeroes_active [of "sample_broker\<lparr>bc_slice_map := \<lparr>sm_slices =
      [\<lparr>sl_id = 0, sl_offset = 0, sl_len = 4096, sl_tenant = Some 1, sl_state = Active\<rparr>]\<rparr>\<rparr>" 0
      "\<lparr>sl_id = 0, sl_offset = 0, sl_len = 4096, sl_tenant = Some 1, sl_state = Active\<rparr>" 9 "[]" 5]
  by (simp add: Let_def sm_get_def sample_defs) blast

text \<open>
  A session that registers under a second name moves to the second tenant; when it disconnects, the
  first tenant stays marked as present on a session that is gone, and a later registration under
  the first name is refused as a duplicate.
\<close>

theorem second_name_strands_first:
  "let bc1 = fst (on_register sample_broker 0 1 ''b'' NbdUnix);
       bc2 = fst (on_disconnect bc1 0)
   in snd (on_register bc2 9 1 ''a'' NbdUnix) = refuse 9 ''tenant_duplicado''"
  by (simp add: sample_defs wrapping_add_def u32_max_def on_disconnect_def lb_disconnect_def
      cancel_pending_def lease_book_new_def bt_adjust_def)

end
