(* ===== verification/Broker_Run.thy ===== *)
theory Broker_Run
  imports Broker_Inv
begin

text \<open>
  Runs of the broker core: the events the daemon feeds to \<open>handle\<close>, each with the instant at which it is
  handled. The theory shows that no run panics, whatever the tenants send, as long as the clock is
  representable and no heartbeat carries a pressure that is NaN, which the JSON of the protocol
  cannot write.
\<close>

section \<open>Runs\<close>

fun broker_run ::
  "(core_event \<times> instant) list \<Rightarrow> broker_core \<Rightarrow> (broker_core \<times> outbound list) option" where
  "broker_run [] bc = Some (bc, [])"
| "broker_run ((ev, now) # evs) bc =
     (case handle bc ev now of
        None \<Rightarrow> None
      | Some (bc1, out1) \<Rightarrow> map_option (\<lambda>(bc2, out2). (bc2, out1 @ out2)) (broker_run evs bc1))"

fun heartbeat_ok :: "core_event \<Rightarrow> bool" where
  "heartbeat_ok (CoreMsg sid (Psi sample swaps mem)) \<longleftrightarrow> ps_avg10 sample \<noteq> NaN"
| "heartbeat_ok _ \<longleftrightarrow> True"

definition clock_ok :: "arbiter_config \<Rightarrow> instant \<Rightarrow> bool" where
  "clock_ok cfg now \<longleftrightarrow> now + max (cfg_cooldown cfg) (cfg_cf_cooldown cfg) \<le> instant_max"

section \<open>What every event keeps\<close>

lemma set_bt_insert: "set (bt_insert k v m) \<subseteq> insert (k, v) (set m)"
  by (induction k v m rule: bt_insert.induct) auto

lemma pressures_ok_frame: "tenancy bc' = tenancy bc \<Longrightarrow> pressures_ok bc' = pressures_ok bc"
  by (simp add: tenancy_def pressures_ok_def)

lemma pressures_ok_tenant: "pressures_ok bc \<Longrightarrow> bc_tenant bc i = Some t \<Longrightarrow> ps_avg10 (tn_psi t) \<noteq> NaN"
  by (auto simp: pressures_ok_def bc_tenant_def dest: map_of_SomeD)

lemma pressures_ok_register: "pressures_ok bc \<Longrightarrow> pressures_ok (fst (on_register bc sid proto name transport))"
  using set_bt_insert pressures_ok_tenant
  by (fastforce simp: on_register_def pressures_ok_def Let_def bc_tenant_def psi_default_def
      split: option.splits)

lemma pressures_ok_psi:
  "pressures_ok bc \<Longrightarrow> ps_avg10 sample \<noteq> NaN \<Longrightarrow> pressures_ok (fst (on_psi bc sid sample swaps mem now))"
  by (auto simp: on_psi_def pressures_ok_def bt_adjust_def Let_def case_prod_beta split: option.splits if_splits)

lemma pressures_ok_disconnect: "pressures_ok bc \<Longrightarrow> pressures_ok (fst (on_disconnect bc sid))"
  by (auto simp: on_disconnect_def pressures_ok_def bt_adjust_def case_prod_beta split: option.splits)

lemma pressures_ok_msg:
  assumes "pressures_ok bc" "heartbeat_ok (CoreMsg sid m)"
  shows "pressures_ok (fst (on_msg bc sid m now))"
  using assms by (cases m) (simp_all add: on_msg_def pressures_ok_register pressures_ok_psi
      pressures_ok_frame [OF tenancy_simps(1)] pressures_ok_frame [OF tenancy_simps(2)]
      pressures_ok_frame [OF tenancy_simps(3)] pressures_ok_frame [OF tenancy_simps(4)])

lemma pressures_ok_handle:
  assumes "handle bc ev now = Some (bc', out)" "pressures_ok bc" "heartbeat_ok ev"
  shows "pressures_ok bc'"
proof (cases ev)
  case (CoreMsg sid m)
  then have "bc' = fst (on_msg bc sid m now)" using assms(1) by (simp add: handle_def)
  then show ?thesis using pressures_ok_msg assms(2,3) CoreMsg by blast
next
  case (Disconnected sid)
  then have "bc' = fst (on_disconnect bc sid)" using assms(1) by (simp add: handle_def)
  then show ?thesis using pressures_ok_disconnect [OF assms(2)] by simp
next
  case (ZeroDone slice ok)
  then have "bc' = fst (on_zero_done bc slice ok)" using assms(1) by (simp add: handle_def)
  then show ?thesis using pressures_ok_frame [OF tenancy_simps(5)] assms(2) by simp
next
  case (Demote reason)
  then have "bc' = fst (on_demote bc reason)" using assms(1) by (simp add: handle_def)
  then show ?thesis using pressures_ok_frame [OF tenancy_simps(6)] assms(2) by simp
next
  case Tick
  then have "on_tick bc now = Some (bc', out)" using assms(1) by (simp add: handle_def)
  then show ?thesis using pressures_ok_frame [OF tenancy_on_tick] assms(2) by simp
qed

lemma arbiter_simps [simp]:
  "bc_arbiter (fst (on_msg bc sid m now)) = bc_arbiter bc"
  "bc_arbiter (fst (on_disconnect bc sid)) = bc_arbiter bc"
  "bc_arbiter (fst (on_zero_done bc slice ok)) = bc_arbiter bc"
  "bc_arbiter (fst (on_demote bc reason)) = bc_arbiter bc"
  "bc_arbiter (fst (retry_stuck_zeroing bc)) = bc_arbiter bc"
  "bc_arbiter (fst (emit_telemetry bc)) = bc_arbiter bc"
  by (cases m)
    (simp_all add: on_msg_def on_register_def on_psi_def on_swap_on_done_def on_swap_off_done_def
      on_lease_request_def on_lease_release_def on_disconnect_def on_zero_done_def on_demote_def
      release_slices_def retry_stuck_zeroing_def emit_telemetry_def Let_def case_prod_beta
      split: option.split result.split bool.split lease_deny.split)

lemma arbiter_apply_action [simp]: "bc_arbiter (fst (apply_action now present a bc)) = bc_arbiter bc"
  by (cases a)
    (simp_all add: apply_move_def apply_grant_def Let_def case_prod_beta split: option.split result.split)

lemma arbiter_apply_actions [simp]: "bc_arbiter (fst (apply_actions now present as bc)) = bc_arbiter bc"
  by (induction "as" arbitrary: bc) (simp_all add: case_prod_beta)

lemma config_tick_arbiter:
  assumes "tick_arbiter bc now = Some (bc', out)"
  shows "ar_cfg (bc_arbiter bc') = ar_cfg (bc_arbiter bc)"
proof -
  obtain ar r where t: "tick (bc_arbiter bc) now (present_views bc) (visible_slices bc)
      (pending_request bc) = Some (ar, r)"
    using assms by (auto simp: tick_arbiter_def Let_def split: option.splits)
  have "bc_arbiter bc' = ar"
  proof (cases r)
    case (Ok acts)
    then have "bc' = fst (apply_actions now (present_views bc) acts (bc\<lparr>bc_arbiter := ar\<rparr>))"
      using assms t by (simp add: tick_arbiter_def Let_def)
    then show ?thesis by (simp only: arbiter_apply_actions) simp
  next
    case (Err e)
    then show ?thesis using assms t by (auto simp: tick_arbiter_def Let_def)
  qed
  then show ?thesis using tick_cooldown [OF t] by simp
qed

lemma config_handle:
  assumes "handle bc ev now = Some (bc', out)"
  shows "ar_cfg (bc_arbiter bc') = ar_cfg (bc_arbiter bc)"
proof (cases "ev = Tick")
  case True
  then have "on_tick bc now = Some (bc', out)" using assms by (simp add: handle_def)
  then show ?thesis
    by (cases rule: on_tickE) (simp, metis config_tick_arbiter expire_lease_keeps(1))
next
  case False
  then have "bc_arbiter bc' = bc_arbiter bc"
    using assms by (cases ev) (auto simp: handle_def dest!: arg_cong [where f = fst])
  then show ?thesis by simp
qed

section \<open>No run panics\<close>

lemma broker_run_total:
  assumes "pressures_ok bc"
    and "\<forall>(ev, now) \<in> set evs. heartbeat_ok ev \<and> clock_ok (ar_cfg (bc_arbiter bc)) now"
  shows "\<exists>bc' out. broker_run evs bc = Some (bc', out)"
  using assms
proof (induction evs bc rule: broker_run.induct)
  case (2 ev now evs bc)
  then obtain bc1 out1 where h: "handle bc ev now = Some (bc1, out1)"
    using handle_never_panics [of now bc ev] by (auto simp: clock_ok_def)
  have "\<exists>bc' out. broker_run evs bc1 = Some (bc', out)"
    using 2 h pressures_ok_handle [OF h] config_handle [OF h] by (intro "2.IH" [OF h refl]) auto
  with h show ?case by auto
qed simp

text \<open>
  C15. The broker core never panics. From its start on any slice map, every sequence of events -
  messages of tenants and of strangers, disconnects, zeroing results, demotions and ticks, in any order -
  is handled to the end: no tick divides by a slice length of zero, takes a remainder by a number of
  tenants that is zero, indexes the tenants out of bounds, sorts by an inconsistent comparison, or
  overflows an instant, provided the clock plus the configured cooldowns is representable and no
  heartbeat reports a pressure that is NaN.
\<close>

theorem broker_never_panics:
  assumes "\<forall>(ev, now) \<in> set evs. heartbeat_ok ev \<and> clock_ok (bk_arbiter_cfg cfg) now"
  shows "\<exists>bc out. broker_run evs (broker_new m cfg) = Some (bc, out)"
proof (rule broker_run_total)
  show "pressures_ok (broker_new m cfg)" by (simp add: pressures_ok_def broker_new_def)
  show "\<forall>(ev, now) \<in> set evs. heartbeat_ok ev \<and> clock_ok (ar_cfg (bc_arbiter (broker_new m cfg))) now"
    using assms by (simp add: broker_new_def arbiter_new_def)
qed

theorem broker_never_panics_witness:
  "\<exists>bc out. broker_run [(Tick, 1), (CoreMsg 0 (Register 1 ''a'' NbdUnix), 2), (Tick, 3),
      (CoreMsg 0 (Psi psi_default [] None), 4), (CoreMsg 0 (LeaseRequest 100000), 5), (Tick, 6)]
    (broker_new sample_slices sample_config) = Some (bc, out)"
  by (rule broker_never_panics)
    (simp add: clock_ok_def sample_config_def arbiter_config_default_def from_secs_def instant_max_def
      psi_default_def)

end
