(* ===== verification/Wire_Bytes.thy ===== *)
theory Wire_Bytes
  imports Prelude "HOL-Library.Word"
begin

text \<open>
  Byte strings and the big-endian integer encodings of the standard library (\<open>to_be_bytes\<close>,
  \<open>from_be_bytes\<close>), with the contract that the wire codecs of the program share: decoding accepts
  exactly the encodings of the valid values and returns the encoded value.
\<close>

type_synonym byte = "8 word"

named_theorems codec_simps \<open>equations that evaluate encoders and decoders\<close>

subsection \<open>Big-endian integers\<close>

primrec to_be :: "nat \<Rightarrow> nat \<Rightarrow> byte list" where
  "to_be 0 v = []"
| "to_be (Suc k) v = to_be k (v div 256) @ [of_nat v]"

definition from_be :: "byte list \<Rightarrow> nat" where
  "from_be bs = foldl (\<lambda>acc b. acc * 256 + unat b) 0 bs"

text \<open>The casts \<open>as u8\<close> and \<open>as u16\<close> keep the low bits.\<close>

definition as_u8 :: "nat \<Rightarrow> nat" where "as_u8 n = n mod 256"
definition as_u16 :: "nat \<Rightarrow> nat" where "as_u16 n = n mod 65536"

lemma length_to_be [simp]: "length (to_be k v) = k"
  by (induction k arbitrary: v) auto

lemma from_be_Nil [simp]: "from_be [] = 0"
  by (simp add: from_be_def)

lemma from_be_snoc [simp]: "from_be (bs @ [b]) = from_be bs * 256 + unat b"
  by (simp add: from_be_def)

lemma unat_of_nat_byte: "unat (of_nat v :: byte) = v mod 256"
  by (simp add: unat_of_nat)

lemma unat_byte_less: "unat (b :: byte) < 256"
  using unsigned_less [of b] by simp

lemma from_to_be_mod: "from_be (to_be k v) = v mod 256 ^ k"
proof (induction k arbitrary: v)
  case (Suc k)
  then show ?case by (simp add: unat_of_nat_byte mod_mult2_eq ac_simps)
qed simp

lemma from_to_be: "v < 256 ^ k \<Longrightarrow> from_be (to_be k v) = v"
  by (simp add: from_to_be_mod)

lemma from_be_less: "from_be bs < 256 ^ length bs"
proof (induction bs rule: rev_induct)
  case (snoc b bs)
  then have "Suc (from_be bs) * 256 \<le> 256 ^ length bs * 256" by (intro mult_le_mono1) simp
  then show ?case using unat_byte_less [of b] by simp
qed simp

lemma to_from_be: "to_be (length bs) (from_be bs) = bs"
proof (induction bs rule: rev_induct)
  case (snoc b bs)
  have "(from_be bs * 256 + unat b) div 256 = from_be bs"
    using unat_byte_less [of b] by simp
  moreover have "(of_nat (from_be bs * 256 + unat b) :: byte) = b"
    using unat_of_nat_byte [of "from_be bs * 256 + unat b"] unat_byte_less [of b]
    by (simp only: word_unat_eq_iff) simp
  ultimately show ?case using snoc by simp
qed simp

lemma to_from_be_length: "length bs = k \<Longrightarrow> to_be k (from_be bs) = bs"
  using to_from_be by blast

lemma to_be_inject: "v < 256 ^ k \<Longrightarrow> w < 256 ^ k \<Longrightarrow> to_be k v = to_be k w \<longleftrightarrow> v = w"
  by (metis from_to_be)

subsection \<open>The contract of a wire codec\<close>

text \<open>
  An encoder and a decoder with the values they are meant for. The two laws say that decoding is
  exact: every valid value survives, and whatever is accepted is the encoding of a valid value.
\<close>

locale wire_codec =
  fixes enc :: "'a \<Rightarrow> byte list"
    and dec :: "byte list \<Rightarrow> ('a, 'e) result"
    and valid :: "'a \<Rightarrow> bool"
  assumes dec_enc: "valid a \<Longrightarrow> dec (enc a) = Ok a"
    and enc_dec: "dec bs = Ok a \<Longrightarrow> valid a \<and> enc a = bs"
begin

lemma dec_iff: "dec bs = Ok a \<longleftrightarrow> valid a \<and> bs = enc a"
  using dec_enc [of a] enc_dec [of bs a] by auto

lemma enc_injective: "valid a \<Longrightarrow> valid b \<Longrightarrow> enc a = enc b \<longleftrightarrow> a = b"
  using dec_enc [of a] dec_enc [of b] by (metis result.inject(1))

lemma dec_canonical: "dec bs = Ok a \<Longrightarrow> dec bs' = Ok a \<Longrightarrow> bs = bs'"
  using enc_dec [of bs a] enc_dec [of bs' a] by simp

end

end
