(* ===== verification/N3_Record.thy ===== *)
theory N3_Record
  imports Wire_Bytes "HOL-Library.List_Lexorder"
begin

text \<open>
  The vocabulary of the native tier's host contract and its restart record, the first part of
  \<^verbatim>\<open>crates/ramshared-tier/src/n3_state.rs\<close>: refusal reasons, opaque identities, and the bounded binary
  record with which a restarted guest learns the generations already used. Shown here: parsing
  accepts exactly the canonical encodings of valid records.
\<close>

subsection \<open>Bounds\<close>

definition N3_SCHEMA_VERSION :: nat where "N3_SCHEMA_VERSION = 1"
definition MAX_OPAQUE_ID_BYTES :: nat where "MAX_OPAQUE_ID_BYTES = 64"
definition MAX_CAPACITY_BYTES :: nat where "MAX_CAPACITY_BYTES = 2 ^ 50"
definition CAPACITY_ALIGNMENT_BYTES :: nat where "CAPACITY_ALIGNMENT_BYTES = 4096"
definition MAX_OBSERVATION_AGE :: nat where "MAX_OBSERVATION_AGE = 3600"
definition MAX_OBSERVATION_EVENTS :: nat where "MAX_OBSERVATION_EVENTS = 16"
definition MAX_IN_FLIGHT :: nat where "MAX_IN_FLIGHT = 1000000"
definition MAX_PROTOCOL_EVENT_HISTORY :: nat where "MAX_PROTOCOL_EVENT_HISTORY = 256"
definition MAX_GENERATION_HISTORY :: nat where "MAX_GENERATION_HISTORY = 256"
definition RESTART_RECORD_HEADER_BYTES :: nat where "RESTART_RECORD_HEADER_BYTES = 17"

definition MAX_RESTART_RECORD_BYTES :: nat where
  "MAX_RESTART_RECORD_BYTES =
     RESTART_RECORD_HEADER_BYTES + MAX_GENERATION_HISTORY * (1 + MAX_OPAQUE_ID_BYTES + 8)"

text \<open>The magic is the ASCII text \<open>RSN3\<close>.\<close>

definition RESTART_RECORD_MAGIC :: "byte list" where
  "RESTART_RECORD_MAGIC = [82, 83, 78, 51]"

definition HOST_AUTHORITY_MARKER :: byte where "HOST_AUTHORITY_MARKER = 1"
definition GUEST_AUTHORITY_MARKER :: byte where "GUEST_AUTHORITY_MARKER = 2"

lemmas n3_bounds = N3_SCHEMA_VERSION_def MAX_OPAQUE_ID_BYTES_def MAX_GENERATION_HISTORY_def
  RESTART_RECORD_HEADER_BYTES_def MAX_RESTART_RECORD_BYTES_def

subsection \<open>States and refusal reasons\<close>

datatype state_tag =
    TagAbsent
  | TagNegotiating
  | TagGranted
  | TagQuiescing
  | TagDrained
  | TagRevoked
  | TagFailed

datatype preflight_state =
    HostUnavailable
  | ProductOff
  | Observing
  | Constrained
  | DemotionRequested
  | PreflightRefused

datatype state_transition_error =
    IllegalTransition "state_tag option" state_tag
  | IllegalPreflight "preflight_state option" preflight_state
  | StaleGeneration nat nat

datatype failure_reason =
    UnknownSchema
  | MalformedRecord
  | HostAuthorityRequired
  | StaleObservation
  | InvalidObservationClock
  | EpochRegression
  | ImpossibleBudget
  | NoFreshHostObservation
  | GenerationGap
  | ConflictingDuplicate
  | LeaseIdentityMismatch
  | InvalidCapacity
  | StateTransition state_transition_error
  | IoNotGranted
  | InFlightNotDrained
  | CallbackNotDrained
  | UnknownInFlight
  | DrainTimeout
  | ScrubFailed
  | ScrubPending
  | MissingRevokeCompletion
  | Reset
  | ChannelLoss
  | LeaseExpired
  | WslRestart
  | Suspend
  | DriverUpgrade
  | GuestCrash
  | GuestResidencyClaim
  | ProductScope

datatype authority = AuthHost | AuthGuest | AuthUnknown

subsection \<open>Opaque identities\<close>

datatype opaque_id = OpaqueId (as_bytes: "byte list")

definition opaque_id_new :: "byte list \<Rightarrow> (opaque_id, failure_reason) result" where
  "opaque_id_new bytes =
     (if bytes = [] \<or> length bytes > MAX_OPAQUE_ID_BYTES then Err MalformedRecord
      else Ok (OpaqueId bytes))"

type_synonym lease_id = opaque_id
type_synonym event_id = opaque_id
type_synonym adapter_id = opaque_id

text \<open>The bytes of an identity are private and only \<open>new\<close> builds one from outside: its type
  invariant is that there are between 1 and 64 of them.\<close>

definition opaque_id_wf :: "opaque_id \<Rightarrow> bool" where
  "opaque_id_wf i \<longleftrightarrow> as_bytes i \<noteq> [] \<and> length (as_bytes i) \<le> MAX_OPAQUE_ID_BYTES"

lemma opaque_id_new_Ok_iff:
  "opaque_id_new bytes = Ok i \<longleftrightarrow> opaque_id_wf i \<and> bytes = as_bytes i"
  by (cases i) (auto simp: opaque_id_new_def opaque_id_wf_def)

subsection \<open>The restart record\<close>

record generation_checkpoint =
  cp_lease_id :: lease_id
  cp_generation :: nat

record restart_record =
  rr_schema_version :: nat
  rr_authority :: authority
  rr_host_epoch :: nat
  rr_checkpoints :: "generation_checkpoint list"

fun authority_marker :: "authority \<Rightarrow> byte" where
  "authority_marker AuthHost = HOST_AUTHORITY_MARKER"
| "authority_marker AuthGuest = GUEST_AUTHORITY_MARKER"
| "authority_marker AuthUnknown = 0"

definition cp_to_bytes :: "generation_checkpoint \<Rightarrow> byte list" where
  "cp_to_bytes cp =
     [of_nat (as_u8 (length (as_bytes (cp_lease_id cp))))] @ as_bytes (cp_lease_id cp) @
     to_be 8 (cp_generation cp)"

definition rr_to_bytes :: "restart_record \<Rightarrow> byte list" where
  "rr_to_bytes r =
     RESTART_RECORD_MAGIC @ to_be 2 (rr_schema_version r) @ [authority_marker (rr_authority r)] @
     to_be 8 (rr_host_epoch r) @ to_be 2 (as_u16 (length (rr_checkpoints r))) @
     concat (map cp_to_bytes (rr_checkpoints r))"

text \<open>\<open>windows(2).any(P)\<close>.\<close>

fun any_window2 :: "('a \<Rightarrow> 'a \<Rightarrow> bool) \<Rightarrow> 'a list \<Rightarrow> bool" where
  "any_window2 P (a # b # xs) \<longleftrightarrow> P a b \<or> any_window2 P (b # xs)"
| "any_window2 P _ \<longleftrightarrow> False"

definition rr_validate :: "restart_record \<Rightarrow> (unit, failure_reason) result" where
  "rr_validate r =
     (if rr_schema_version r \<noteq> N3_SCHEMA_VERSION then Err UnknownSchema
      else if rr_authority r \<noteq> AuthHost then Err HostAuthorityRequired
      else if rr_host_epoch r = 0 \<or> length (rr_checkpoints r) > MAX_GENERATION_HISTORY
        then Err MalformedRecord
      else if \<exists>cp \<in> set (rr_checkpoints r). as_bytes (cp_lease_id cp) = [] \<or> cp_generation cp = 0
        then Err MalformedRecord
      else if any_window2 (\<lambda>a b. as_bytes (cp_lease_id a) \<ge> as_bytes (cp_lease_id b))
                (rr_checkpoints r)
        then Err MalformedRecord
      else if length (rr_to_bytes r) > MAX_RESTART_RECORD_BYTES then Err MalformedRecord
      else Ok ())"

definition rr_host ::
  "nat \<Rightarrow> generation_checkpoint list \<Rightarrow> (restart_record, failure_reason) result" where
  "rr_host host_epoch checkpoints =
     (let r = \<lparr>rr_schema_version = N3_SCHEMA_VERSION, rr_authority = AuthHost,
               rr_host_epoch = host_epoch,
               rr_checkpoints = sort_key (\<lambda>cp. as_bytes (cp_lease_id cp)) checkpoints\<rparr>
      in case rr_validate r of Err e \<Rightarrow> Err e | Ok _ \<Rightarrow> Ok r)"

subsection \<open>Parsing with a cursor\<close>

definition read_exact ::
  "byte list \<Rightarrow> nat \<Rightarrow> nat \<Rightarrow> (byte list \<times> nat, failure_reason) result" where
  "read_exact bytes cursor len =
     (case checked_add u64_max cursor len of
        None \<Rightarrow> Err MalformedRecord
      | Some e \<Rightarrow>
          if e \<le> length bytes then Ok (take (e - cursor) (drop cursor bytes), e)
          else Err MalformedRecord)"

definition read_u8 :: "byte list \<Rightarrow> nat \<Rightarrow> (nat \<times> nat, failure_reason) result" where
  "read_u8 bytes cursor =
     (case read_exact bytes cursor 1 of
        Err e \<Rightarrow> Err e | Ok (v, c) \<Rightarrow> Ok (unat (v ! 0), c))"

definition read_u16 :: "byte list \<Rightarrow> nat \<Rightarrow> (nat \<times> nat, failure_reason) result" where
  "read_u16 bytes cursor =
     (case read_exact bytes cursor 2 of Err e \<Rightarrow> Err e | Ok (v, c) \<Rightarrow> Ok (from_be v, c))"

definition read_u64 :: "byte list \<Rightarrow> nat \<Rightarrow> (nat \<times> nat, failure_reason) result" where
  "read_u64 bytes cursor =
     (case read_exact bytes cursor 8 of Err e \<Rightarrow> Err e | Ok (v, c) \<Rightarrow> Ok (from_be v, c))"

definition read_authority ::
  "byte list \<Rightarrow> nat \<Rightarrow> (authority \<times> nat, failure_reason) result" where
  "read_authority bytes cursor =
     (case read_u8 bytes cursor of
        Err e \<Rightarrow> Err e
      | Ok (v, c) \<Rightarrow>
          Ok (if v = unat HOST_AUTHORITY_MARKER then AuthHost
              else if v = unat GUEST_AUTHORITY_MARKER then AuthGuest
              else AuthUnknown, c))"

definition read_checkpoint ::
  "byte list \<Rightarrow> nat \<Rightarrow> (generation_checkpoint \<times> nat, failure_reason) result" where
  "read_checkpoint bytes cursor =
     (case read_u8 bytes cursor of
        Err e \<Rightarrow> Err e
      | Ok (identity_length, c1) \<Rightarrow>
          if identity_length = 0 \<or> identity_length > MAX_OPAQUE_ID_BYTES then Err MalformedRecord
          else case read_exact bytes c1 identity_length of
              Err e \<Rightarrow> Err e
            | Ok (identity, c2) \<Rightarrow>
                (case opaque_id_new identity of
                   Err e \<Rightarrow> Err e
                 | Ok lease_id \<Rightarrow>
                     (case read_u64 bytes c2 of
                        Err e \<Rightarrow> Err e
                      | Ok (generation, c3) \<Rightarrow>
                          Ok (\<lparr>cp_lease_id = lease_id, cp_generation = generation\<rparr>, c3))))"

primrec read_checkpoints ::
  "byte list \<Rightarrow> nat \<Rightarrow> nat \<Rightarrow> (generation_checkpoint list \<times> nat, failure_reason) result" where
  "read_checkpoints bytes 0 cursor = Ok ([], cursor)"
| "read_checkpoints bytes (Suc n) cursor =
     (case read_checkpoint bytes cursor of
        Err e \<Rightarrow> Err e
      | Ok (cp, c) \<Rightarrow>
          (case read_checkpoints bytes n c of
             Err e \<Rightarrow> Err e
           | Ok (cps, c') \<Rightarrow> Ok (cp # cps, c')))"

definition rr_from_bytes :: "byte list \<Rightarrow> (restart_record, failure_reason) result" where
  "rr_from_bytes bytes =
     (if \<not> (RESTART_RECORD_HEADER_BYTES \<le> length bytes \<and>
             length bytes \<le> MAX_RESTART_RECORD_BYTES) \<or>
         take 4 bytes \<noteq> RESTART_RECORD_MAGIC
      then Err MalformedRecord
      else case read_u16 bytes 4 of
          Err e \<Rightarrow> Err e
        | Ok (schema_version, c1) \<Rightarrow>
      (case read_authority bytes c1 of
          Err e \<Rightarrow> Err e
        | Ok (auth, c2) \<Rightarrow>
      (case read_u64 bytes c2 of
          Err e \<Rightarrow> Err e
        | Ok (host_epoch, c3) \<Rightarrow>
      (case read_u16 bytes c3 of
          Err e \<Rightarrow> Err e
        | Ok (checkpoint_count, c4) \<Rightarrow>
            if checkpoint_count > MAX_GENERATION_HISTORY then Err MalformedRecord
            else case read_checkpoints bytes checkpoint_count c4 of
                Err e \<Rightarrow> Err e
              | Ok (checkpoints, c5) \<Rightarrow>
                  if c5 \<noteq> length bytes then Err MalformedRecord
                  else let r = \<lparr>rr_schema_version = schema_version, rr_authority = auth,
                                rr_host_epoch = host_epoch, rr_checkpoints = checkpoints\<rparr>
                       in case rr_validate r of Err e \<Rightarrow> Err e | Ok _ \<Rightarrow> Ok r))))"

subsection \<open>Exactness of the parser\<close>

text \<open>What a cursor read means: the bytes from \<open>c\<close> to \<open>c'\<close> are \<open>e\<close>.\<close>

definition reads_as :: "byte list \<Rightarrow> nat \<Rightarrow> byte list \<Rightarrow> nat \<Rightarrow> bool" where
  "reads_as bytes c e c' \<longleftrightarrow>
     c' = c + length e \<and> c' \<le> length bytes \<and> take (length e) (drop c bytes) = e"

lemma reads_as_append:
  "reads_as bytes c (a @ b) c'' \<longleftrightarrow> (\<exists>c'. reads_as bytes c a c' \<and> reads_as bytes c' b c'')"
  by (auto simp: reads_as_def take_add add.commute add.left_commute)

lemma reads_as_all: "reads_as bytes 0 e (length bytes) \<longleftrightarrow> bytes = e"
  by (auto simp: reads_as_def)

lemma reads_as_Nil: "reads_as bytes c [] c' \<longleftrightarrow> c' = c \<and> c \<le> length bytes"
  by (auto simp: reads_as_def)

lemma reads_as_le: "reads_as bytes c e c' \<Longrightarrow> c' \<le> length bytes"
  by (simp add: reads_as_def)

lemma read_exact_iff:
  "length bytes \<le> u64_max \<Longrightarrow>
   read_exact bytes c n = Ok (x, c') \<longleftrightarrow> length x = n \<and> reads_as bytes c x c'"
  by (auto simp: read_exact_def reads_as_def checked_add_def split: if_splits)

lemma read_u8_iff:
  assumes "length bytes \<le> u64_max"
  shows "read_u8 bytes c = Ok (v, c') \<longleftrightarrow> v < 256 \<and> reads_as bytes c [of_nat v] c'"
proof -
  have "read_u8 bytes c = Ok (v, c') \<longleftrightarrow>
      (\<exists>x. read_exact bytes c 1 = Ok (x, c') \<and> unat (x ! 0) = v)"
    by (auto simp: read_u8_def split: result.splits)
  also have "\<dots> \<longleftrightarrow> (\<exists>b. reads_as bytes c [b] c' \<and> unat b = v)"
    using assms by (auto simp: read_exact_iff length_Suc_conv)
  also have "\<dots> \<longleftrightarrow> v < 256 \<and> reads_as bytes c [of_nat v] c'"
    using unat_byte_less by (auto simp: unat_of_nat_byte intro: exI [of _ "of_nat v"])
  finally show ?thesis .
qed

lemma read_be_iff:
  assumes "length bytes \<le> u64_max"
  shows "(\<exists>x. read_exact bytes c k = Ok (x, c') \<and> from_be x = v) \<longleftrightarrow>
    v < 256 ^ k \<and> reads_as bytes c (to_be k v) c'"
proof -
  have "(\<exists>x. length x = k \<and> reads_as bytes c x c' \<and> from_be x = v) \<longleftrightarrow>
      v < 256 ^ k \<and> reads_as bytes c (to_be k v) c'"
    using from_be_less to_from_be_length
    by (auto simp: from_to_be intro: exI [of _ "to_be k v"])
  then show ?thesis using assms by (simp add: read_exact_iff)
qed

lemma read_u16_iff:
  "length bytes \<le> u64_max \<Longrightarrow>
   read_u16 bytes c = Ok (v, c') \<longleftrightarrow> v < 256 ^ 2 \<and> reads_as bytes c (to_be 2 v) c'"
  by (subst read_be_iff [symmetric]) (auto simp: read_u16_def split: result.splits)

lemma read_u64_iff:
  "length bytes \<le> u64_max \<Longrightarrow>
   read_u64 bytes c = Ok (v, c') \<longleftrightarrow> v < 256 ^ 8 \<and> reads_as bytes c (to_be 8 v) c'"
  by (subst read_be_iff [symmetric]) (auto simp: read_u64_def split: result.splits)

text \<open>Reading back an authority is exact for the host marker, the only one that validates.\<close>

lemma read_authority_host_iff:
  assumes "length bytes \<le> u64_max"
  shows "read_authority bytes c = Ok (AuthHost, c') \<longleftrightarrow>
    reads_as bytes c [authority_marker AuthHost] c'"
proof -
  have "read_authority bytes c = Ok (AuthHost, c') \<longleftrightarrow> read_u8 bytes c = Ok (1, c')"
    by (auto simp: read_authority_def HOST_AUTHORITY_MARKER_def split: result.splits if_splits)
  then show ?thesis using assms by (simp add: read_u8_iff HOST_AUTHORITY_MARKER_def)
qed

text \<open>The types of the fields: identities have 1 to 64 bytes and numbers 64 bits.\<close>

definition cp_wf :: "generation_checkpoint \<Rightarrow> bool" where
  "cp_wf cp \<longleftrightarrow> opaque_id_wf (cp_lease_id cp) \<and> cp_generation cp < 256 ^ 8"

definition rr_wf :: "restart_record \<Rightarrow> bool" where
  "rr_wf r \<longleftrightarrow> rr_host_epoch r < 256 ^ 8 \<and> (\<forall>cp \<in> set (rr_checkpoints r). cp_wf cp)"

lemma cp_to_bytes_wf:
  "cp_wf cp \<Longrightarrow> cp_to_bytes cp =
     [of_nat (length (as_bytes (cp_lease_id cp)))] @ as_bytes (cp_lease_id cp) @
     to_be 8 (cp_generation cp)"
  by (simp add: cp_to_bytes_def cp_wf_def opaque_id_wf_def as_u8_def MAX_OPAQUE_ID_BYTES_def)

lemma read_checkpoint_iff:
  assumes "length bytes \<le> u64_max"
  shows "read_checkpoint bytes c = Ok (cp, c') \<longleftrightarrow>
    cp_wf cp \<and> reads_as bytes c (cp_to_bytes cp) c'"
proof -
  let ?n = "length (as_bytes (cp_lease_id cp))"
  have "read_checkpoint bytes c = Ok (cp, c') \<longleftrightarrow>
      (\<exists>c1 c2. read_u8 bytes c = Ok (?n, c1) \<and> opaque_id_wf (cp_lease_id cp) \<and>
        read_exact bytes c1 ?n = Ok (as_bytes (cp_lease_id cp), c2) \<and>
        read_u64 bytes c2 = Ok (cp_generation cp, c'))"
    using assms
    by (cases cp)
      (auto simp: read_checkpoint_def result_Ok_iff read_exact_iff opaque_id_new_Ok_iff
        opaque_id_wf_def, blast)
  also have "\<dots> \<longleftrightarrow> cp_wf cp \<and> reads_as bytes c (cp_to_bytes cp) c'"
  proof (cases "cp_wf cp")
    case True
    then have n: "?n < 256" by (simp add: cp_wf_def opaque_id_wf_def MAX_OPAQUE_ID_BYTES_def)
    show ?thesis
      unfolding cp_to_bytes_wf [OF True] reads_as_append
      using assms True n by (auto simp: read_u8_iff read_exact_iff read_u64_iff cp_wf_def)
  next
    case False
    then show ?thesis using assms by (auto simp: read_u64_iff cp_wf_def)
  qed
  finally show ?thesis .
qed

lemma read_checkpoints_iff:
  assumes "length bytes \<le> u64_max"
  shows "c \<le> length bytes \<Longrightarrow> read_checkpoints bytes n c = Ok (cps, c') \<longleftrightarrow>
    length cps = n \<and> (\<forall>cp \<in> set cps. cp_wf cp) \<and>
    reads_as bytes c (concat (map cp_to_bytes cps)) c'"
proof (induction n arbitrary: c cps)
  case 0
  then show ?case by (auto simp: reads_as_Nil)
next
  case (Suc n)
  have "read_checkpoints bytes (Suc n) c = Ok (cps, c') \<longleftrightarrow>
      (\<exists>cp rest c1. cps = cp # rest \<and> read_checkpoint bytes c = Ok (cp, c1) \<and>
        read_checkpoints bytes n c1 = Ok (rest, c'))"
    by (auto split: result.splits)
  also have "\<dots> \<longleftrightarrow> (\<exists>cp rest c1. cps = cp # rest \<and> cp_wf cp \<and>
        reads_as bytes c (cp_to_bytes cp) c1 \<and> length rest = n \<and> (\<forall>x \<in> set rest. cp_wf x) \<and>
        reads_as bytes c1 (concat (map cp_to_bytes rest)) c')"
    using Suc.IH reads_as_le by (simp add: read_checkpoint_iff [OF assms]) (metis reads_as_le)
  also have "\<dots> \<longleftrightarrow> length cps = Suc n \<and> (\<forall>cp \<in> set cps. cp_wf cp) \<and>
      reads_as bytes c (concat (map cp_to_bytes cps)) c'"
    by (cases cps) (auto simp: reads_as_append)
  finally show ?case .
qed

lemma rr_validate_Ok:
  assumes "rr_validate r = Ok u"
  shows "rr_schema_version r = 1" "rr_authority r = AuthHost"
    "length (rr_checkpoints r) \<le> 256" "length (rr_to_bytes r) \<le> MAX_RESTART_RECORD_BYTES"
  using assms by (auto simp: rr_validate_def N3_SCHEMA_VERSION_def MAX_GENERATION_HISTORY_def
      split: if_splits)

lemma rr_from_bytes_Ok:
  "rr_from_bytes bytes = Ok r \<longleftrightarrow>
    17 \<le> length bytes \<and> length bytes \<le> MAX_RESTART_RECORD_BYTES \<and>
    take 4 bytes = RESTART_RECORD_MAGIC \<and>
    (\<exists>n c1 c2 c3 c4. read_u16 bytes 4 = Ok (rr_schema_version r, c1) \<and>
      read_authority bytes c1 = Ok (rr_authority r, c2) \<and>
      read_u64 bytes c2 = Ok (rr_host_epoch r, c3) \<and> read_u16 bytes c3 = Ok (n, c4) \<and>
      n \<le> MAX_GENERATION_HISTORY \<and>
      read_checkpoints bytes n c4 = Ok (rr_checkpoints r, length bytes)) \<and>
    rr_validate r = Ok ()"
  unfolding rr_from_bytes_def
  by (cases r) (auto simp: result_Ok_iff Let_def RESTART_RECORD_HEADER_BYTES_def not_less)

lemma length_magic: "length RESTART_RECORD_MAGIC = 4"
  by (simp add: RESTART_RECORD_MAGIC_def)

lemma rr_to_bytes_parts:
  assumes "rr_validate r = Ok ()"
  shows "bytes = rr_to_bytes r \<longleftrightarrow>
    17 \<le> length bytes \<and> take 4 bytes = RESTART_RECORD_MAGIC \<and>
    (\<exists>c1 c2 c3 c4. reads_as bytes 4 (to_be 2 1) c1 \<and>
      reads_as bytes c1 [authority_marker AuthHost] c2 \<and>
      reads_as bytes c2 (to_be 8 (rr_host_epoch r)) c3 \<and>
      reads_as bytes c3 (to_be 2 (length (rr_checkpoints r))) c4 \<and>
      reads_as bytes c4 (concat (map cp_to_bytes (rr_checkpoints r))) (length bytes))"
proof -
  note v = rr_validate_Ok [OF assms]
  have count: "as_u16 (length (rr_checkpoints r)) = length (rr_checkpoints r)"
    using v(3) by (simp add: as_u16_def)
  have hdr: "17 \<le> length bytes" if "bytes = rr_to_bytes r"
    using that length_magic by (simp add: rr_to_bytes_def)
  have "bytes = rr_to_bytes r \<longleftrightarrow> 17 \<le> length bytes \<and> reads_as bytes 0 (rr_to_bytes r) (length bytes)"
    using hdr reads_as_all [of bytes "rr_to_bytes r"] by blast
  also have "\<dots> \<longleftrightarrow> 17 \<le> length bytes \<and> (\<exists>c0. reads_as bytes 0 RESTART_RECORD_MAGIC c0 \<and>
    (\<exists>c1 c2 c3 c4. reads_as bytes c0 (to_be 2 1) c1 \<and>
      reads_as bytes c1 [authority_marker AuthHost] c2 \<and>
      reads_as bytes c2 (to_be 8 (rr_host_epoch r)) c3 \<and>
      reads_as bytes c3 (to_be 2 (length (rr_checkpoints r))) c4 \<and>
      reads_as bytes c4 (concat (map cp_to_bytes (rr_checkpoints r))) (length bytes)))"
    unfolding rr_to_bytes_def reads_as_append v(1,2) count by blast
  finally show ?thesis by (auto simp: reads_as_def [of _ 0] length_magic)
qed

lemma rr_from_bytes_exact:
  "rr_from_bytes bytes = Ok r \<longleftrightarrow>
   rr_wf r \<and> rr_validate r = Ok () \<and> bytes = rr_to_bytes r"
proof (cases "rr_validate r = Ok () \<and> length bytes \<le> MAX_RESTART_RECORD_BYTES")
  case True
  then have len: "length bytes \<le> u64_max"
    by (simp add: n3_bounds u64_max_def)
  note v = rr_validate_Ok [OF conjunct1 [OF True]] and parts = rr_to_bytes_parts [OF conjunct1 [OF True]]
  show ?thesis
  proof
    assume "rr_from_bytes bytes = Ok r"
    then obtain n c1 c2 c3 c4 where r: "17 \<le> length bytes" "take 4 bytes = RESTART_RECORD_MAGIC"
      "read_u16 bytes 4 = Ok (1, c1)" "read_authority bytes c1 = Ok (AuthHost, c2)"
      "read_u64 bytes c2 = Ok (rr_host_epoch r, c3)" "read_u16 bytes c3 = Ok (n, c4)"
      "read_checkpoints bytes n c4 = Ok (rr_checkpoints r, length bytes)"
      using v(1,2) by (auto simp: rr_from_bytes_Ok)
    have "c4 \<le> length bytes" using r(6) len by (auto simp: read_u16_iff dest: reads_as_le)
    with r len show "rr_wf r \<and> rr_validate r = Ok () \<and> bytes = rr_to_bytes r"
      unfolding parts rr_wf_def
      using True by (auto simp: read_u16_iff read_authority_host_iff read_u64_iff
          read_checkpoints_iff)
  next
    assume r: "rr_wf r \<and> rr_validate r = Ok () \<and> bytes = rr_to_bytes r"
    then obtain c1 c2 c3 c4 where p: "17 \<le> length bytes" "take 4 bytes = RESTART_RECORD_MAGIC"
      "reads_as bytes 4 (to_be 2 1) c1" "reads_as bytes c1 [authority_marker AuthHost] c2"
      "reads_as bytes c2 (to_be 8 (rr_host_epoch r)) c3"
      "reads_as bytes c3 (to_be 2 (length (rr_checkpoints r))) c4"
      "reads_as bytes c4 (concat (map cp_to_bytes (rr_checkpoints r))) (length bytes)"
      using parts by blast
    have wf: "rr_wf r" using r by blast
    have "read_u16 bytes 4 = Ok (rr_schema_version r, c1)"
      "read_authority bytes c1 = Ok (rr_authority r, c2)"
      "read_u64 bytes c2 = Ok (rr_host_epoch r, c3)"
      "read_u16 bytes c3 = Ok (length (rr_checkpoints r), c4)"
      using p v len wf
      by (simp_all add: read_u16_iff read_authority_host_iff read_u64_iff rr_wf_def)
    moreover have "read_checkpoints bytes (length (rr_checkpoints r)) c4 =
        Ok (rr_checkpoints r, length bytes)"
      using p(7) wf reads_as_le [OF p(6)] by (simp add: read_checkpoints_iff [OF len] rr_wf_def)
    ultimately show "rr_from_bytes bytes = Ok r"
      using p(1,2) True v(3) unfolding rr_from_bytes_Ok MAX_GENERATION_HISTORY_def by blast
  qed
next
  case False
  then show ?thesis
    using rr_validate_Ok(4) [of r] by (auto simp: rr_from_bytes_Ok)
qed

interpretation rr_codec: wire_codec rr_to_bytes rr_from_bytes "\<lambda>r. rr_wf r \<and> rr_validate r = Ok ()"
  by unfold_locales (simp_all add: rr_from_bytes_exact)

subsection \<open>What validation means\<close>

lemma any_window2_ge:
  fixes f :: "'a \<Rightarrow> 'b::linorder"
  shows "any_window2 (\<lambda>a b. f a \<ge> f b) xs \<longleftrightarrow> \<not> sorted_wrt (<) (map f xs)"
proof -
  have "\<not> any_window2 (\<lambda>a b. f a \<ge> f b) xs \<longleftrightarrow> sorted_wrt (<) (map f xs)"
    by (induction xs rule: induct_list012)
      (auto simp: sorted_wrt2 sorted_wrt1 transp_on_less simp del: sorted_wrt.simps(2))
  then show ?thesis by blast
qed

text \<open>A valid record, with the canonical order spelled out.\<close>

definition rr_canonical :: "restart_record \<Rightarrow> bool" where
  "rr_canonical r \<longleftrightarrow>
     rr_schema_version r = N3_SCHEMA_VERSION \<and> rr_authority r = AuthHost \<and>
     0 < rr_host_epoch r \<and> length (rr_checkpoints r) \<le> MAX_GENERATION_HISTORY \<and>
     (\<forall>cp \<in> set (rr_checkpoints r). 0 < cp_generation cp) \<and>
     sorted_wrt (<) (map (\<lambda>cp. as_bytes (cp_lease_id cp)) (rr_checkpoints r))"

lemma length_checkpoints_le:
  "\<forall>cp \<in> set cps. cp_wf cp \<Longrightarrow> length (concat (map cp_to_bytes cps)) \<le> 73 * length cps"
proof (induction cps)
  case (Cons cp cps)
  then have "length (cp_to_bytes cp) \<le> 73"
    by (simp add: cp_to_bytes_def cp_wf_def opaque_id_wf_def MAX_OPAQUE_ID_BYTES_def)
  with Cons show ?case by simp
qed simp

text \<open>The size check at the end of \<open>validate\<close> never fails: the bounds before it imply it.\<close>

lemma rr_validate_iff:
  assumes "rr_wf r"
  shows "rr_validate r = Ok () \<longleftrightarrow> rr_canonical r"
proof -
  have "length (rr_to_bytes r) \<le> MAX_RESTART_RECORD_BYTES"
    if "length (rr_checkpoints r) \<le> MAX_GENERATION_HISTORY"
    using that assms length_checkpoints_le [of "rr_checkpoints r"]
    by (simp add: rr_to_bytes_def rr_wf_def n3_bounds length_magic)
  moreover have "as_bytes (cp_lease_id cp) \<noteq> []" if "cp \<in> set (rr_checkpoints r)" for cp
    using that assms by (auto simp: rr_wf_def cp_wf_def opaque_id_wf_def)
  ultimately show ?thesis
    unfolding rr_validate_def rr_canonical_def any_window2_ge by (auto simp: not_less)
qed

lemma sort_key_strict:
  fixes f :: "'a \<Rightarrow> 'b::linorder"
  assumes "distinct (map f xs)"
  shows "sorted_wrt (<) (map f (sort_key f xs))"
proof -
  have "distinct (map f (sort_key f xs))"
    using assms by (metis distinct_map distinct_sort set_sort)
  then show ?thesis by (simp add: strict_sorted_iff)
qed

text \<open>Checkpoints of distinct identities with nonzero generations make a record.\<close>

lemma rr_host_Ok:
  assumes "0 < e" "e < 256 ^ 8" "length cps \<le> MAX_GENERATION_HISTORY"
    and cps: "\<forall>cp \<in> set cps. cp_wf cp \<and> 0 < cp_generation cp" "distinct (map cp_lease_id cps)"
  obtains r where "rr_host e cps = Ok r" "rr_wf r" "rr_canonical r" "rr_host_epoch r = e"
    "set (rr_checkpoints r) = set cps"
proof -
  let ?r = "\<lparr>rr_schema_version = N3_SCHEMA_VERSION, rr_authority = AuthHost, rr_host_epoch = e,
             rr_checkpoints = sort_key (\<lambda>cp. as_bytes (cp_lease_id cp)) cps\<rparr>"
  have "inj as_bytes" by (rule injI) (simp add: opaque_id.expand)
  then have "distinct (map (\<lambda>cp. as_bytes (cp_lease_id cp)) cps)"
    using cps(2) by (simp add: distinct_map inj_on_def)
  from sort_key_strict [OF this] have can: "rr_canonical ?r" and wf: "rr_wf ?r"
    using assms by (auto simp: rr_canonical_def rr_wf_def)
  moreover have "rr_host e cps = Ok ?r"
    using can rr_validate_iff [OF wf] by (simp add: rr_host_def Let_def)
  ultimately show ?thesis using that by simp
qed

text \<open>
  C23. The parser of restart records is exact: it accepts a byte string exactly when the string is
  the encoding of a well-typed record of schema 1 with host authority, a nonzero epoch, at most
  256 checkpoints, no zero generation, and identities in strictly ascending byte order, and then
  it returns that record. So no two byte strings parse to the same record, and trailing bytes,
  repeated or unsorted identities and guest records are refused.
\<close>

theorem restart_record_exact:
  "rr_from_bytes bytes = Ok r \<longleftrightarrow> rr_wf r \<and> rr_canonical r \<and> bytes = rr_to_bytes r"
  using rr_codec.dec_iff [of bytes r] rr_validate_iff [of r] by blast

end
