(* ===== verification/N3_Lease.thy ===== *)
theory N3_Lease
  imports N3_Record
begin

text \<open>
  Observation preflight and the host-led lease protocol of the native tier, the second part of
  \<^verbatim>\<open>crates/ramshared-tier/src/n3_state.rs\<close>. Every public operation of \<open>LeaseMachine\<close> is a function
  from the machine to the changed machine and the decision it returns; times are ticks of the
  model's own clock, passed in as in the source.
\<close>

subsection \<open>Observations\<close>

datatype observation_event_kind =
    ObsHealthy
  | ObsPressure
  | ObsReset
  | ObsChannelLoss
  | ObsOffline
  | ObsMigrate
  | ObsUnknown

record observation_event =
  oe_event_id :: event_id
  oe_kind :: observation_event_kind

record host_observation =
  ho_schema_version :: nat
  ho_host_epoch :: nat
  ho_adapter_id :: adapter_id
  ho_authority :: authority
  ho_budget_bytes :: nat
  ho_resident_bytes :: nat
  ho_available_bytes :: nat
  ho_observed_at :: nat
  ho_max_age :: nat
  ho_event_id :: event_id
  ho_events :: "observation_event list"

definition valid_counter :: "nat \<Rightarrow> bool" where
  "valid_counter v \<longleftrightarrow> v \<le> MAX_CAPACITY_BYTES \<and> is_multiple_of v CAPACITY_ALIGNMENT_BYTES"

definition valid_capacity :: "nat \<Rightarrow> bool" where
  "valid_capacity v \<longleftrightarrow> v \<noteq> 0 \<and> valid_counter v"

text \<open>The identity \<open>host-adapter\<close> of the convenience constructor, as bytes.\<close>

definition host_adapter_bytes :: "byte list" where
  "host_adapter_bytes = [104, 111, 115, 116, 45, 97, 100, 97, 112, 116, 101, 114]"

definition ho_host ::
  "nat \<Rightarrow> nat \<Rightarrow> nat \<Rightarrow> nat \<Rightarrow> nat \<Rightarrow> nat \<Rightarrow> event_id \<Rightarrow> host_observation" where
  "ho_host host_epoch budget_bytes resident_bytes available_bytes observed_at max_age event_id =
     \<lparr>ho_schema_version = N3_SCHEMA_VERSION, ho_host_epoch = host_epoch,
      ho_adapter_id = OpaqueId host_adapter_bytes, ho_authority = AuthHost,
      ho_budget_bytes = budget_bytes, ho_resident_bytes = resident_bytes,
      ho_available_bytes = available_bytes, ho_observed_at = observed_at, ho_max_age = max_age,
      ho_event_id = event_id, ho_events = []\<rparr>"

definition ho_validate :: "host_observation \<Rightarrow> nat \<Rightarrow> (unit, failure_reason) result" where
  "ho_validate obs now =
     (if ho_schema_version obs \<noteq> N3_SCHEMA_VERSION then Err UnknownSchema
      else if ho_host_epoch obs = 0 \<or> as_bytes (ho_adapter_id obs) = [] \<or>
              as_bytes (ho_event_id obs) = []
        then Err MalformedRecord
      else if ho_authority obs \<noteq> AuthHost then Err HostAuthorityRequired
      else if ho_max_age obs = 0 \<or> ho_max_age obs > MAX_OBSERVATION_AGE then Err MalformedRecord
      else if now < ho_observed_at obs then Err InvalidObservationClock
      else if now - ho_observed_at obs > ho_max_age obs then Err StaleObservation
      else if length (ho_events obs) > MAX_OBSERVATION_EVENTS \<or>
              (\<exists>e \<in> set (ho_events obs). as_bytes (oe_event_id e) = [] \<or> oe_kind e = ObsUnknown)
        then Err MalformedRecord
      else if \<not> valid_counter (ho_budget_bytes obs) \<or> \<not> valid_counter (ho_resident_bytes obs) \<or>
              \<not> valid_counter (ho_available_bytes obs) \<or>
              ho_resident_bytes obs > ho_budget_bytes obs \<or>
              ho_available_bytes obs > ho_budget_bytes obs
        then Err ImpossibleBudget
      else Ok ())"

definition has_pressure :: "host_observation \<Rightarrow> bool" where
  "has_pressure obs \<longleftrightarrow> (\<exists>e \<in> set (ho_events obs). oe_kind e = ObsPressure)"

definition has_offline_signal :: "host_observation \<Rightarrow> bool" where
  "has_offline_signal obs \<longleftrightarrow>
     (\<exists>e \<in> set (ho_events obs). oe_kind e = ObsReset \<or> oe_kind e = ObsChannelLoss \<or>
        oe_kind e = ObsOffline)"

subsection \<open>Preflight\<close>

datatype preflight_action =
    ActObserved
  | ActConstrained
  | ActDemotionRequested
  | ActIdempotent
  | ActRefused failure_reason
  | ActUnavailable failure_reason

record preflight_decision =
  pd_state :: preflight_state
  pd_action :: preflight_action
  pd_retry_allowed :: bool

definition pd_observed :: "preflight_state \<Rightarrow> preflight_decision" where
  "pd_observed st =
     \<lparr>pd_state = st, pd_action = (if st = Constrained then ActConstrained else ActObserved),
      pd_retry_allowed = True\<rparr>"

definition pd_idempotent :: "preflight_state \<Rightarrow> preflight_decision" where
  "pd_idempotent st = \<lparr>pd_state = st, pd_action = ActIdempotent, pd_retry_allowed = True\<rparr>"

definition pd_refused :: "failure_reason \<Rightarrow> preflight_decision" where
  "pd_refused reason =
     \<lparr>pd_state = PreflightRefused, pd_action = ActRefused reason, pd_retry_allowed = False\<rparr>"

definition pd_unavailable :: "failure_reason \<Rightarrow> preflight_decision" where
  "pd_unavailable reason =
     \<lparr>pd_state = HostUnavailable, pd_action = ActUnavailable reason, pd_retry_allowed = True\<rparr>"

record preflight_model =
  pm_state :: preflight_state
  pm_last_observation :: "host_observation option"
  pm_observation_count :: nat
  pm_refusal_count :: nat

definition preflight_new :: preflight_model where
  "preflight_new =
     \<lparr>pm_state = HostUnavailable, pm_last_observation = None, pm_observation_count = 0,
      pm_refusal_count = 0\<rparr>"

text \<open>The three statements that every refusal executes: count, enter \<open>Refused\<close>, answer.\<close>

definition pm_refuse :: "preflight_model \<Rightarrow> failure_reason \<Rightarrow> preflight_model \<times> preflight_decision" where
  "pm_refuse pm reason =
     (pm\<lparr>pm_refusal_count := saturating_add u64_max (pm_refusal_count pm) 1,
         pm_state := PreflightRefused\<rparr>, pd_refused reason)"

text \<open>The check against the previous observation; \<open>Some\<close> is an early return.\<close>

definition pm_against_previous ::
  "preflight_model \<Rightarrow> host_observation \<Rightarrow> (preflight_model \<times> preflight_decision) option" where
  "pm_against_previous pm obs =
     (case pm_last_observation pm of
        None \<Rightarrow> None
      | Some previous \<Rightarrow>
          if ho_event_id obs = ho_event_id previous \<and> obs \<noteq> previous
            then Some (pm_refuse pm ConflictingDuplicate)
          else if ho_host_epoch obs < ho_host_epoch previous
            then Some (pm_refuse pm EpochRegression)
          else if ho_host_epoch obs = ho_host_epoch previous then
            (if obs = previous then Some (pm, pd_idempotent (pm_state pm))
             else Some (pm_refuse pm ConflictingDuplicate))
          else if ho_adapter_id obs \<noteq> ho_adapter_id previous
            then Some (pm_refuse pm HostAuthorityRequired)
          else None)"

definition pm_observe ::
  "preflight_model \<Rightarrow> host_observation \<Rightarrow> nat \<Rightarrow> preflight_model \<times> preflight_decision" where
  "pm_observe pm obs now =
     (case pm_against_previous pm obs of
        Some r \<Rightarrow> r
      | None \<Rightarrow>
          (case ho_validate obs now of
             Ok _ \<Rightarrow>
               let pm1 = pm\<lparr>pm_observation_count :=
                              saturating_add u64_max (pm_observation_count pm) 1,
                            pm_last_observation := Some obs\<rparr>
               in if has_offline_signal obs
                  then (pm1\<lparr>pm_state := HostUnavailable\<rparr>, pd_unavailable ChannelLoss)
                  else let st = (if has_pressure obs \<or> ho_budget_bytes obs = 0 then Constrained
                                 else Observing)
                       in (pm1\<lparr>pm_state := st\<rparr>, pd_observed st)
           | Err StaleObservation \<Rightarrow>
               (pm\<lparr>pm_state := HostUnavailable\<rparr>, pd_unavailable StaleObservation)
           | Err InvalidObservationClock \<Rightarrow>
               (pm\<lparr>pm_state := HostUnavailable\<rparr>, pd_unavailable InvalidObservationClock)
           | Err reason \<Rightarrow> pm_refuse pm reason))"

definition pm_request_demotion :: "preflight_model \<Rightarrow> preflight_model \<times> preflight_decision" where
  "pm_request_demotion pm =
     (if pm_state pm \<noteq> Constrained
      then (pm, \<lparr>pd_state = pm_state pm,
                 pd_action = ActUnavailable
                   (StateTransition (IllegalPreflight (Some Constrained) (pm_state pm))),
                 pd_retry_allowed = True\<rparr>)
      else (pm\<lparr>pm_state := DemotionRequested\<rparr>,
            \<lparr>pd_state = DemotionRequested, pd_action = ActDemotionRequested,
             pd_retry_allowed = True\<rparr>))"

definition pm_refuse_guest_claim :: "preflight_model \<Rightarrow> preflight_model \<times> preflight_decision" where
  "pm_refuse_guest_claim pm = pm_refuse pm GuestResidencyClaim"

definition pm_refuse_product_scope :: "preflight_model \<Rightarrow> preflight_model \<times> preflight_decision" where
  "pm_refuse_product_scope pm = pm_refuse pm ProductScope"

subsection \<open>Protocol messages and states\<close>

record grant =
  gr_contract_version :: nat
  gr_lease_id :: lease_id
  gr_generation :: nat
  gr_event_id :: event_id
  gr_capacity_bytes :: nat
  gr_host_epoch :: nat
  gr_issued_at :: nat
  gr_deadline :: nat
  gr_expected_state :: "state_tag option"

definition grant_host ::
  "lease_id \<Rightarrow> nat \<Rightarrow> event_id \<Rightarrow> nat \<Rightarrow> nat \<Rightarrow> nat \<Rightarrow> nat \<Rightarrow> grant" where
  "grant_host lease_id generation event_id capacity_bytes host_epoch issued_at deadline =
     \<lparr>gr_contract_version = N3_SCHEMA_VERSION, gr_lease_id = lease_id, gr_generation = generation,
      gr_event_id = event_id, gr_capacity_bytes = capacity_bytes, gr_host_epoch = host_epoch,
      gr_issued_at = issued_at, gr_deadline = deadline, gr_expected_state = None\<rparr>"

record revoke =
  rv_lease_id :: lease_id
  rv_generation :: nat
  rv_event_id :: event_id
  rv_deadline :: nat
  rv_expected_state :: "state_tag option"

definition revoke_host :: "lease_id \<Rightarrow> nat \<Rightarrow> event_id \<Rightarrow> nat \<Rightarrow> revoke" where
  "revoke_host lease_id generation event_id deadline =
     \<lparr>rv_lease_id = lease_id, rv_generation = generation, rv_event_id = event_id,
      rv_deadline = deadline, rv_expected_state = None\<rparr>"

record revoke_completion =
  rc_lease_id :: lease_id
  rc_generation :: nat
  rc_event_id :: event_id

record grant_ack =
  ga_contract_version :: nat
  ga_lease_id :: lease_id
  ga_generation :: nat
  ga_event_id :: event_id

record drain_ack =
  da_lease_id :: lease_id
  da_generation :: nat
  da_event_id :: event_id
  da_in_flight :: nat
  da_callbacks_pending :: nat
  da_scrubbed :: bool

record fail_ack =
  fa_lease_id :: "lease_id option"
  fa_generation :: "nat option"
  fa_event_id :: "event_id option"
  fa_reason :: failure_reason

datatype lease_state =
    Absent
  | Negotiating nat
  | Granted nat
  | Quiescing nat
  | Drained nat
  | Revoked
  | Failed failure_reason

fun ls_tag :: "lease_state \<Rightarrow> state_tag" where
  "ls_tag Absent = TagAbsent"
| "ls_tag (Negotiating _) = TagNegotiating"
| "ls_tag (Granted _) = TagGranted"
| "ls_tag (Quiescing _) = TagQuiescing"
| "ls_tag (Drained _) = TagDrained"
| "ls_tag Revoked = TagRevoked"
| "ls_tag (Failed _) = TagFailed"

datatype lifecycle_event =
    LcReset
  | LcChannelLoss
  | LcLeaseExpired
  | LcWslRestart
  | LcSuspend
  | LcDriverUpgrade
  | LcGuestCrash

datatype scrub_result = ScrubPend | ScrubOk | ScrubBad

datatype host_event =
    HGrant grant
  | HGrantAckAccepted grant_ack
  | HRevoke revoke
  | HRevokeCompleted revoke_completion
  | HLifecycle lifecycle_event

datatype protocol_decision =
    Noop
  | SendGrantAck grant_ack
  | Accepted lease_state
  | BeginDrain
  | SendDrainAck drain_ack
  | DecRevoked
  | SendFailAck fail_ack
  | Blocked failure_reason
  | DecRefused failure_reason

datatype event_fingerprint = FpGrant grant | FpRevoke revoke

record seen_event =
  se_event_id :: event_id
  se_fingerprint :: event_fingerprint

record n3_active_lease =
  na_lease_id :: lease_id
  na_generation :: nat
  na_grant_event_id :: event_id
  na_capacity_bytes :: nat
  na_revoke :: "revoke option"

datatype scrub_state = ScrubStPending | ScrubStSucceeded | ScrubStFailed

fun scrub_from :: "scrub_result \<Rightarrow> scrub_state" where
  "scrub_from ScrubPend = ScrubStPending"
| "scrub_from ScrubOk = ScrubStSucceeded"
| "scrub_from ScrubBad = ScrubStFailed"

datatype event_registration = RegNew | RegDuplicate | RegConflict | RegOverflow

subsection \<open>The lease machine\<close>

record lease_machine =
  lm_preflight :: preflight_model
  lm_state :: lease_state
  lm_pending_grant :: "grant option"
  lm_active :: "n3_active_lease option"
  lm_seen_events :: "seen_event list"
  lm_accepted_acks :: "grant_ack list"
  lm_completed_revokes :: "revoke_completion list"
  lm_history :: "(lease_id \<times> nat) list"
  lm_restored_epoch :: "nat option"
  lm_in_flight :: nat
  lm_callbacks :: nat
  lm_unknown_in_flight :: bool
  lm_scrub :: scrub_state
  lm_sent_drain_ack :: bool

definition lm_new :: lease_machine where
  "lm_new =
     \<lparr>lm_preflight = preflight_new, lm_state = Absent, lm_pending_grant = None, lm_active = None,
      lm_seen_events = [], lm_accepted_acks = [], lm_completed_revokes = [], lm_history = [],
      lm_restored_epoch = None, lm_in_flight = 0, lm_callbacks = 0, lm_unknown_in_flight = False,
      lm_scrub = ScrubStPending, lm_sent_drain_ack = False\<rparr>"

text \<open>Failure helpers.\<close>

definition fail_for_active ::
  "lease_machine \<Rightarrow> failure_reason \<Rightarrow> lease_machine \<times> protocol_decision" where
  "fail_for_active m reason =
     (m\<lparr>lm_state := Failed reason\<rparr>,
      SendFailAck
        (case lm_active m of
           Some a \<Rightarrow>
             \<lparr>fa_lease_id = Some (na_lease_id a), fa_generation = Some (na_generation a),
              fa_event_id = Some (case na_revoke a of None \<Rightarrow> na_grant_event_id a
                                  | Some rv \<Rightarrow> rv_event_id rv),
              fa_reason = reason\<rparr>
         | None \<Rightarrow>
             (case lm_pending_grant m of
                Some g \<Rightarrow>
                  \<lparr>fa_lease_id = Some (gr_lease_id g), fa_generation = Some (gr_generation g),
                   fa_event_id = Some (gr_event_id g), fa_reason = reason\<rparr>
              | None \<Rightarrow>
                  \<lparr>fa_lease_id = None, fa_generation = None, fa_event_id = None,
                   fa_reason = reason\<rparr>)))"

definition fail_for_event ::
  "lease_machine \<Rightarrow> lease_id option \<Rightarrow> nat option \<Rightarrow> event_id option \<Rightarrow> failure_reason \<Rightarrow>
   lease_machine \<times> protocol_decision" where
  "fail_for_event m lid gen eid reason =
     (m\<lparr>lm_pending_grant := None, lm_state := Failed reason\<rparr>,
      SendFailAck \<lparr>fa_lease_id = lid, fa_generation = gen, fa_event_id = eid, fa_reason = reason\<rparr>)"

definition fail_restart_restore ::
  "lease_machine \<Rightarrow> failure_reason \<Rightarrow> lease_machine \<times> (unit, failure_reason) result" where
  "fail_restart_restore m reason =
     (m\<lparr>lm_pending_grant := None, lm_active := None, lm_state := Failed reason\<rparr>, Err reason)"

text \<open>Histories.\<close>

definition validate_generation ::
  "lease_machine \<Rightarrow> lease_id \<Rightarrow> nat \<Rightarrow> (unit, failure_reason) result" where
  "validate_generation m lid generation =
     (case find (\<lambda>(known, _). known = lid) (lm_history m) of
        Some (_, previous) \<Rightarrow>
          if generation \<le> previous then Err (StateTransition (StaleGeneration generation previous))
          else if generation \<noteq> saturating_add u64_max previous 1 then Err GenerationGap
          else Ok ()
      | None \<Rightarrow>
          if length (lm_history m) \<ge> MAX_GENERATION_HISTORY then Err MalformedRecord else Ok ())"

definition remember_generation :: "lease_machine \<Rightarrow> lease_id \<Rightarrow> nat \<Rightarrow> lease_machine" where
  "remember_generation m lid generation =
     (if find (\<lambda>(known, _). known = lid) (lm_history m) \<noteq> None
      then m\<lparr>lm_history := update_first (\<lambda>(known, _). known = lid)
               (\<lambda>(known, _). (known, generation)) (lm_history m)\<rparr>
      else if length (lm_history m) < MAX_GENERATION_HISTORY
      then m\<lparr>lm_history := lm_history m @ [(lid, generation)]\<rparr>
      else m)"

fun fp_event_id :: "event_fingerprint \<Rightarrow> event_id" where
  "fp_event_id (FpGrant g) = gr_event_id g"
| "fp_event_id (FpRevoke rv) = rv_event_id rv"

definition register_event ::
  "lease_machine \<Rightarrow> event_fingerprint \<Rightarrow> lease_machine \<times> event_registration" where
  "register_event m fp =
     (case find (\<lambda>seen. se_event_id seen = fp_event_id fp) (lm_seen_events m) of
        Some seen \<Rightarrow> (m, if se_fingerprint seen = fp then RegDuplicate else RegConflict)
      | None \<Rightarrow>
          if length (lm_seen_events m) \<ge> MAX_PROTOCOL_EVENT_HISTORY then (m, RegOverflow)
          else (m\<lparr>lm_seen_events := lm_seen_events m @
                    [\<lparr>se_event_id = fp_event_id fp, se_fingerprint = fp\<rparr>]\<rparr>, RegNew))"

text \<open>Preflight operations of the machine.\<close>

definition lm_observe ::
  "lease_machine \<Rightarrow> host_observation \<Rightarrow> nat \<Rightarrow> lease_machine \<times> preflight_decision" where
  "lm_observe m obs now =
     (let (pm, d) = pm_observe (lm_preflight m) obs now in (m\<lparr>lm_preflight := pm\<rparr>, d))"

definition lm_request_demotion :: "lease_machine \<Rightarrow> lease_machine \<times> preflight_decision" where
  "lm_request_demotion m =
     (let (pm, d) = pm_request_demotion (lm_preflight m) in (m\<lparr>lm_preflight := pm\<rparr>, d))"

definition lm_refuse_guest_claim :: "lease_machine \<Rightarrow> lease_machine \<times> preflight_decision" where
  "lm_refuse_guest_claim m =
     (let (pm, d) = pm_refuse_guest_claim (lm_preflight m) in (m\<lparr>lm_preflight := pm\<rparr>, d))"

definition lm_refuse_product_transport :: "lease_machine \<Rightarrow> lease_machine \<times> preflight_decision" where
  "lm_refuse_product_transport m =
     (let (pm, d) = pm_refuse_product_scope (lm_preflight m) in (m\<lparr>lm_preflight := pm\<rparr>, d))"

text \<open>Restart records.\<close>

definition restore_restart_record ::
  "lease_machine \<Rightarrow> restart_record \<Rightarrow> lease_machine \<times> (unit, failure_reason) result" where
  "restore_restart_record m record =
     (case rr_validate record of
        Err reason \<Rightarrow> fail_restart_restore m reason
      | Ok _ \<Rightarrow>
          if lm_state m \<noteq> Absent \<or> lm_pending_grant m \<noteq> None \<or> lm_active m \<noteq> None \<or>
             lm_seen_events m \<noteq> [] \<or> lm_accepted_acks m \<noteq> [] \<or> lm_completed_revokes m \<noteq> [] \<or>
             lm_history m \<noteq> [] \<or> lm_restored_epoch m \<noteq> None \<or>
             pm_observation_count (lm_preflight m) \<noteq> 0
          then fail_restart_restore m
                 (StateTransition (IllegalTransition (Some TagAbsent) (ls_tag (lm_state m))))
          else (m\<lparr>lm_history := map (\<lambda>cp. (cp_lease_id cp, cp_generation cp))
                                  (rr_checkpoints record),
                  lm_restored_epoch := Some (rr_host_epoch record)\<rparr>, Ok ()))"

definition restore_restart_bytes ::
  "lease_machine \<Rightarrow> byte list \<Rightarrow> lease_machine \<times> (unit, failure_reason) result" where
  "restore_restart_bytes m bytes =
     (case rr_from_bytes bytes of
        Err reason \<Rightarrow> fail_restart_restore m reason
      | Ok record \<Rightarrow> restore_restart_record m record)"

text \<open>
  \<open>receive_grant\<close>: the checks after registration, in order, as the reason of the first that fails.
\<close>

definition grant_refusal :: "lease_machine \<Rightarrow> grant \<Rightarrow> nat \<Rightarrow> failure_reason option" where
  "grant_refusal m g now =
     (if lm_state m \<noteq> Absent \<or> (gr_expected_state g \<noteq> None \<and> gr_expected_state g \<noteq> Some TagAbsent)
        then Some (StateTransition (IllegalTransition (Some TagAbsent) (ls_tag (lm_state m))))
      else if gr_contract_version g \<noteq> N3_SCHEMA_VERSION \<or> as_bytes (gr_lease_id g) = [] \<or>
              as_bytes (gr_event_id g) = [] \<or> gr_generation g = 0 \<or> gr_host_epoch g = 0 \<or>
              gr_deadline g \<le> gr_issued_at g \<or> now < gr_issued_at g \<or> now \<ge> gr_deadline g
        then Some MalformedRecord
      else if (case lm_restored_epoch m of None \<Rightarrow> False | Some epoch \<Rightarrow> gr_host_epoch g < epoch)
        then Some (StateTransition
               (StaleGeneration (gr_host_epoch g) (unwrap_or (lm_restored_epoch m) 0)))
      else case pm_last_observation (lm_preflight m) of
          None \<Rightarrow> Some NoFreshHostObservation
        | Some obs \<Rightarrow>
            if is_err (ho_validate obs now) \<or> ho_host_epoch obs \<noteq> gr_host_epoch g \<or>
               ho_budget_bytes obs < gr_capacity_bytes g \<or>
               pm_state (lm_preflight m) \<notin> {Observing, Constrained, DemotionRequested}
              then Some NoFreshHostObservation
            else if \<not> valid_capacity (gr_capacity_bytes g) then Some InvalidCapacity
            else (case validate_generation m (gr_lease_id g) (gr_generation g) of
                    Err reason \<Rightarrow> Some reason
                  | Ok _ \<Rightarrow> None))"

definition receive_grant ::
  "lease_machine \<Rightarrow> grant \<Rightarrow> nat \<Rightarrow> lease_machine \<times> protocol_decision" where
  "receive_grant m g now =
     (let (m, reg) = register_event m (FpGrant g);
          fail = (\<lambda>reason. fail_for_event m (Some (gr_lease_id g)) (Some (gr_generation g))
                            (Some (gr_event_id g)) reason)
      in case reg of
           RegDuplicate \<Rightarrow> (m, Noop)
         | RegConflict \<Rightarrow> fail ConflictingDuplicate
         | RegOverflow \<Rightarrow> fail MalformedRecord
         | RegNew \<Rightarrow>
             (case grant_refusal m g now of
                Some reason \<Rightarrow> fail reason
              | None \<Rightarrow>
                  let m = remember_generation m (gr_lease_id g) (gr_generation g)
                  in (m\<lparr>lm_state := Negotiating (gr_generation g), lm_pending_grant := Some g\<rparr>,
                      SendGrantAck \<lparr>ga_contract_version = gr_contract_version g,
                                    ga_lease_id = gr_lease_id g,
                                    ga_generation = gr_generation g,
                                    ga_event_id = gr_event_id g\<rparr>)))"

definition accept_grant_ack ::
  "lease_machine \<Rightarrow> grant_ack \<Rightarrow> lease_machine \<times> protocol_decision" where
  "accept_grant_ack m ack =
     (let fail = (\<lambda>reason. fail_for_event m (Some (ga_lease_id ack)) (Some (ga_generation ack))
                            (Some (ga_event_id ack)) reason)
      in if ack \<in> set (lm_accepted_acks m) then (m, Noop)
         else case lm_pending_grant m of
             None \<Rightarrow>
               fail (StateTransition
                 (IllegalTransition (Some TagNegotiating) (ls_tag (lm_state m))))
           | Some g \<Rightarrow>
               if lm_state m \<noteq> Negotiating (gr_generation g) \<or>
                  ga_contract_version ack \<noteq> gr_contract_version g \<or>
                  ga_lease_id ack \<noteq> gr_lease_id g \<or> ga_generation ack \<noteq> gr_generation g \<or>
                  ga_event_id ack \<noteq> gr_event_id g
                 then fail LeaseIdentityMismatch
               else if length (lm_accepted_acks m) \<ge> MAX_PROTOCOL_EVENT_HISTORY
                 then fail_for_active m MalformedRecord
               else (m\<lparr>lm_accepted_acks := lm_accepted_acks m @ [ack],
                       lm_active := Some \<lparr>na_lease_id = gr_lease_id g,
                                          na_generation = gr_generation g,
                                          na_grant_event_id = gr_event_id g,
                                          na_capacity_bytes = gr_capacity_bytes g,
                                          na_revoke = None\<rparr>,
                       lm_pending_grant := None, lm_state := Granted (gr_generation g)\<rparr>,
                     Accepted (Granted (gr_generation g))))"

definition receive_revoke ::
  "lease_machine \<Rightarrow> revoke \<Rightarrow> lease_machine \<times> protocol_decision" where
  "receive_revoke m rv =
     (let (m, reg) = register_event m (FpRevoke rv);
          fail = (\<lambda>reason. fail_for_event m (Some (rv_lease_id rv)) (Some (rv_generation rv))
                            (Some (rv_event_id rv)) reason);
          illegal = StateTransition (IllegalTransition (Some TagGranted) (ls_tag (lm_state m)))
      in case reg of
           RegDuplicate \<Rightarrow> (m, Noop)
         | RegConflict \<Rightarrow> fail ConflictingDuplicate
         | RegOverflow \<Rightarrow> fail MalformedRecord
         | RegNew \<Rightarrow>
             (case lm_active m of
                None \<Rightarrow> fail illegal
              | Some a \<Rightarrow>
                  if lm_state m \<noteq> Granted (na_generation a) \<or> rv_lease_id rv \<noteq> na_lease_id a \<or>
                     rv_generation rv \<noteq> na_generation a \<or> rv_deadline rv = 0
                    then fail LeaseIdentityMismatch
                  else if rv_expected_state rv \<noteq> None \<and> rv_expected_state rv \<noteq> Some TagGranted
                    then fail illegal
                  else (m\<lparr>lm_active := Some (a\<lparr>na_revoke := Some rv\<rparr>),
                          lm_state := Quiescing (na_generation a), lm_scrub := ScrubStPending,
                          lm_sent_drain_ack := False\<rparr>, BeginDrain)))"

text \<open>I/O accounting.\<close>

definition begin_io :: "lease_machine \<Rightarrow> lease_machine \<times> (unit, failure_reason) result" where
  "begin_io m =
     (if lm_state m \<noteq> Granted (unwrap_or (map_option na_generation (lm_active m)) 0)
        then (m, Err IoNotGranted)
      else if lm_in_flight m \<ge> MAX_IN_FLIGHT
        then (m\<lparr>lm_unknown_in_flight := True\<rparr>, Err UnknownInFlight)
      else (m\<lparr>lm_in_flight := lm_in_flight m + 1\<rparr>, Ok ()))"

definition set_in_flight :: "lease_machine \<Rightarrow> nat \<Rightarrow> lease_machine \<times> (unit, failure_reason) result" where
  "set_in_flight m count =
     (if count > MAX_IN_FLIGHT then (m\<lparr>lm_unknown_in_flight := True\<rparr>, Err UnknownInFlight)
      else (m\<lparr>lm_in_flight := count\<rparr>, Ok ()))"

definition complete_io :: "lease_machine \<Rightarrow> lease_machine \<times> (unit, failure_reason) result" where
  "complete_io m =
     (if lm_in_flight m = 0 then (m\<lparr>lm_unknown_in_flight := True\<rparr>, Err UnknownInFlight)
      else (m\<lparr>lm_in_flight := lm_in_flight m - 1\<rparr>, Ok ()))"

definition set_callbacks_pending ::
  "lease_machine \<Rightarrow> nat \<Rightarrow> lease_machine \<times> (unit, failure_reason) result" where
  "set_callbacks_pending m count =
     (if count > MAX_IN_FLIGHT then (m\<lparr>lm_unknown_in_flight := True\<rparr>, Err UnknownInFlight)
      else (m\<lparr>lm_callbacks := count\<rparr>, Ok ()))"

definition mark_unknown_in_flight :: "lease_machine \<Rightarrow> lease_machine" where
  "mark_unknown_in_flight m = m\<lparr>lm_unknown_in_flight := True\<rparr>"

definition scrub_guest_data ::
  "lease_machine \<Rightarrow> scrub_result \<Rightarrow> lease_machine \<times> protocol_decision" where
  "scrub_guest_data m result =
     (let m = m\<lparr>lm_scrub := scrub_from result\<rparr>
      in if result = ScrubBad then fail_for_active m ScrubFailed else (m, Noop))"

text \<open>Drain, completion, cleanup and restart.\<close>

definition n3_drain :: "lease_machine \<Rightarrow> nat \<Rightarrow> lease_machine \<times> protocol_decision" where
  "n3_drain m now =
     (let not_quiescing =
        StateTransition (IllegalTransition (Some TagQuiescing) (ls_tag (lm_state m)))
      in case lm_active m of
           None \<Rightarrow> fail_for_event m None None None
                     (StateTransition (IllegalTransition (Some TagGranted) (ls_tag (lm_state m))))
         | Some a \<Rightarrow>
             (case na_revoke a of
                None \<Rightarrow> fail_for_active m not_quiescing
              | Some rv \<Rightarrow>
                  if lm_state m \<noteq> Quiescing (na_generation a) then fail_for_active m not_quiescing
                  else if now \<ge> rv_deadline rv then fail_for_active m DrainTimeout
                  else if lm_unknown_in_flight m then fail_for_active m UnknownInFlight
                  else if lm_in_flight m \<noteq> 0 then fail_for_active m InFlightNotDrained
                  else if lm_callbacks m \<noteq> 0 then fail_for_active m CallbackNotDrained
                  else (case lm_scrub m of
                          ScrubStPending \<Rightarrow> (m, Blocked ScrubPending)
                        | ScrubStFailed \<Rightarrow> fail_for_active m ScrubFailed
                        | ScrubStSucceeded \<Rightarrow>
                            (m\<lparr>lm_sent_drain_ack := True,
                               lm_state := Drained (na_generation a)\<rparr>,
                             SendDrainAck \<lparr>da_lease_id = na_lease_id a,
                                           da_generation = na_generation a,
                                           da_event_id = rv_event_id rv,
                                           da_in_flight = lm_in_flight m,
                                           da_callbacks_pending = lm_callbacks m,
                                           da_scrubbed = True\<rparr>))))"

definition confirm_revoke ::
  "lease_machine \<Rightarrow> revoke_completion \<Rightarrow> lease_machine \<times> protocol_decision" where
  "confirm_revoke m completion =
     (let fail = fail_for_event m (Some (rc_lease_id completion)) (Some (rc_generation completion))
                   (Some (rc_event_id completion)) MissingRevokeCompletion
      in if completion \<in> set (lm_completed_revokes m) then (m, Noop)
         else case lm_active m of
             None \<Rightarrow> fail
           | Some a \<Rightarrow>
               (case na_revoke a of
                  None \<Rightarrow> fail_for_active m MissingRevokeCompletion
                | Some rv \<Rightarrow>
                    if lm_state m \<noteq> Drained (na_generation a) \<or>
                       rc_lease_id completion \<noteq> na_lease_id a \<or>
                       rc_generation completion \<noteq> na_generation a \<or>
                       rc_event_id completion \<noteq> rv_event_id rv
                      then fail
                    else if length (lm_completed_revokes m) \<ge> MAX_PROTOCOL_EVENT_HISTORY
                      then fail_for_active m MalformedRecord
                    else (m\<lparr>lm_completed_revokes := lm_completed_revokes m @ [completion],
                            lm_state := Revoked\<rparr>, DecRevoked)))"

definition complete_cleanup :: "lease_machine \<Rightarrow> lease_machine" where
  "complete_cleanup m =
     (if lm_active m \<noteq> None \<and> lm_scrub m \<noteq> ScrubStSucceeded then m
      else case lm_state m of
          Revoked \<Rightarrow>
            m\<lparr>lm_pending_grant := None, lm_active := None, lm_in_flight := 0, lm_callbacks := 0,
              lm_unknown_in_flight := False, lm_scrub := ScrubStPending,
              lm_sent_drain_ack := False, lm_state := Absent\<rparr>
        | Failed _ \<Rightarrow>
            m\<lparr>lm_pending_grant := None, lm_active := None, lm_in_flight := 0, lm_callbacks := 0,
              lm_unknown_in_flight := False, lm_scrub := ScrubStPending,
              lm_sent_drain_ack := False, lm_state := Absent\<rparr>
        | _ \<Rightarrow> m)"

definition n3_restart :: "lease_machine \<Rightarrow> lease_machine" where
  "n3_restart m =
     m\<lparr>lm_pending_grant := None, lm_active := None, lm_seen_events := [], lm_accepted_acks := [],
       lm_completed_revokes := [], lm_in_flight := 0, lm_callbacks := 0,
       lm_unknown_in_flight := False, lm_scrub := ScrubStPending, lm_sent_drain_ack := False,
       lm_state := Absent, lm_preflight := preflight_new\<rparr>"

fun lifecycle_reason :: "lifecycle_event \<Rightarrow> failure_reason" where
  "lifecycle_reason LcReset = Reset"
| "lifecycle_reason LcChannelLoss = ChannelLoss"
| "lifecycle_reason LcLeaseExpired = LeaseExpired"
| "lifecycle_reason LcWslRestart = WslRestart"
| "lifecycle_reason LcSuspend = Suspend"
| "lifecycle_reason LcDriverUpgrade = DriverUpgrade"
| "lifecycle_reason LcGuestCrash = GuestCrash"

definition fail_closed :: "lease_machine \<Rightarrow> lifecycle_event \<Rightarrow> lease_machine \<times> protocol_decision" where
  "fail_closed m event =
     (let reason = lifecycle_reason event
      in if lm_active m = None \<and> lm_pending_grant m = None
         then (m\<lparr>lm_state := Failed reason\<rparr>,
               SendFailAck \<lparr>fa_lease_id = None, fa_generation = None, fa_event_id = None,
                            fa_reason = reason\<rparr>)
         else fail_for_active m reason)"

fun apply_host_event ::
  "lease_machine \<Rightarrow> host_event \<Rightarrow> nat \<Rightarrow> lease_machine \<times> protocol_decision" where
  "apply_host_event m (HGrant g) now = receive_grant m g now"
| "apply_host_event m (HGrantAckAccepted ack) now = accept_grant_ack m ack"
| "apply_host_event m (HRevoke rv) now = receive_revoke m rv"
| "apply_host_event m (HRevokeCompleted c) now = confirm_revoke m c"
| "apply_host_event m (HLifecycle e) now = fail_closed m e"

end
