(* ===== verification/N3_Protocol.thy ===== *)
theory N3_Protocol
  imports N3_Lease
begin

text \<open>
  What the lease protocol of the native tier guarantees over all runs of operations: its
  invariant, that I/O is admitted only under an acknowledged lease that is not being revoked, that
  a revoked generation never admits I/O again, that an acknowledged drain follows a scrub, that
  failures latch until cleanup, and that generations are never reused, restarts included.
\<close>

section \<open>Invariant of the lease machine\<close>

text \<open>One operation of the machine, and a run of operations.\<close>

datatype n3_op =
    OpObserve host_observation nat
  | OpRequestDemotion
  | OpRefuseGuestClaim
  | OpRefuseProductTransport
  | OpRestoreBytes "byte list"
  | OpRestoreRecord restart_record
  | OpHost host_event nat
  | OpBeginIo
  | OpSetInFlight nat
  | OpCompleteIo
  | OpSetCallbacks nat
  | OpMarkUnknown
  | OpScrub scrub_result
  | OpDrain nat
  | OpCleanup
  | OpRestart

fun n3_exec :: "lease_machine \<Rightarrow> n3_op \<Rightarrow> lease_machine" where
  "n3_exec m (OpObserve obs now) = fst (lm_observe m obs now)"
| "n3_exec m OpRequestDemotion = fst (lm_request_demotion m)"
| "n3_exec m OpRefuseGuestClaim = fst (lm_refuse_guest_claim m)"
| "n3_exec m OpRefuseProductTransport = fst (lm_refuse_product_transport m)"
| "n3_exec m (OpRestoreBytes bytes) = fst (restore_restart_bytes m bytes)"
| "n3_exec m (OpRestoreRecord r) = fst (restore_restart_record m r)"
| "n3_exec m (OpHost e now) = fst (apply_host_event m e now)"
| "n3_exec m OpBeginIo = fst (begin_io m)"
| "n3_exec m (OpSetInFlight n) = fst (set_in_flight m n)"
| "n3_exec m OpCompleteIo = fst (complete_io m)"
| "n3_exec m (OpSetCallbacks n) = fst (set_callbacks_pending m n)"
| "n3_exec m OpMarkUnknown = mark_unknown_in_flight m"
| "n3_exec m (OpScrub r) = fst (scrub_guest_data m r)"
| "n3_exec m (OpDrain now) = fst (n3_drain m now)"
| "n3_exec m OpCleanup = complete_cleanup m"
| "n3_exec m OpRestart = n3_restart m"

text \<open>The argument types: identities have 1 to 64 bytes, generations and epochs 64 bits.\<close>

fun n3_op_wf :: "n3_op \<Rightarrow> bool" where
  "n3_op_wf (OpHost (HGrant g) _) \<longleftrightarrow> opaque_id_wf (gr_lease_id g) \<and> gr_generation g < 256 ^ 8"
| "n3_op_wf (OpRestoreRecord r) \<longleftrightarrow> rr_wf r"
| "n3_op_wf _ \<longleftrightarrow> True"

text \<open>Every pending or active lease goes back to a grant of the host seen since the last restart,
  carries the newest generation of its identity, and an active one was acknowledged.\<close>

definition seen_grant :: "lease_machine \<Rightarrow> grant \<Rightarrow> bool" where
  "seen_grant m g \<longleftrightarrow> FpGrant g \<in> se_fingerprint ` set (lm_seen_events m)"

definition grant_ok :: "lease_machine \<Rightarrow> grant \<Rightarrow> bool" where
  "grant_ok m g \<longleftrightarrow>
     seen_grant m g \<and> gr_contract_version g = N3_SCHEMA_VERSION \<and> 0 < gr_generation g \<and>
     valid_capacity (gr_capacity_bytes g) \<and>
     map_of (lm_history m) (gr_lease_id g) = Some (gr_generation g)"

definition ack_of :: "grant \<Rightarrow> grant_ack" where
  "ack_of g = \<lparr>ga_contract_version = gr_contract_version g, ga_lease_id = gr_lease_id g,
               ga_generation = gr_generation g, ga_event_id = gr_event_id g\<rparr>"

definition active_ok :: "lease_machine \<Rightarrow> n3_active_lease \<Rightarrow> bool" where
  "active_ok m a \<longleftrightarrow>
     (\<exists>g. grant_ok m g \<and> ack_of g \<in> set (lm_accepted_acks m) \<and>
          na_lease_id a = gr_lease_id g \<and> na_generation a = gr_generation g \<and>
          na_grant_event_id a = gr_event_id g \<and> na_capacity_bytes a = gr_capacity_bytes g) \<and>
     (\<forall>rv. na_revoke a = Some rv \<longrightarrow>
          rv_lease_id rv = na_lease_id a \<and> rv_generation rv = na_generation a)"

fun lease_shape :: "lease_state \<Rightarrow> grant option \<Rightarrow> n3_active_lease option \<Rightarrow> bool" where
  "lease_shape Absent p a \<longleftrightarrow> p = None \<and> a = None"
| "lease_shape (Negotiating n) p a \<longleftrightarrow> a = None \<and> (\<exists>g. p = Some g \<and> gr_generation g = n)"
| "lease_shape (Granted n) p a \<longleftrightarrow>
     p = None \<and> (\<exists>l. a = Some l \<and> na_generation l = n \<and> na_revoke l = None)"
| "lease_shape (Quiescing n) p a \<longleftrightarrow>
     p = None \<and> (\<exists>l. a = Some l \<and> na_generation l = n \<and> na_revoke l \<noteq> None)"
| "lease_shape (Drained n) p a \<longleftrightarrow>
     p = None \<and> (\<exists>l. a = Some l \<and> na_generation l = n \<and> na_revoke l \<noteq> None)"
| "lease_shape Revoked p a \<longleftrightarrow> p = None \<and> (\<exists>l. a = Some l \<and> na_revoke l \<noteq> None)"
| "lease_shape (Failed _) p a \<longleftrightarrow> p = None \<or> a = None"

abbreviation n3_shape :: "lease_machine \<Rightarrow> bool" where
  "n3_shape m \<equiv> lease_shape (lm_state m) (lm_pending_grant m) (lm_active m)"

lemma lease_shape_not_both: "lease_shape st p a \<Longrightarrow> p = None \<or> a = None"
  by (cases st) auto

definition n3_lists :: "lease_machine \<Rightarrow> bool" where
  "n3_lists m \<longleftrightarrow>
     length (lm_seen_events m) \<le> MAX_PROTOCOL_EVENT_HISTORY \<and>
     length (lm_accepted_acks m) \<le> MAX_PROTOCOL_EVENT_HISTORY \<and>
     length (lm_completed_revokes m) \<le> MAX_PROTOCOL_EVENT_HISTORY \<and>
     length (lm_history m) \<le> MAX_GENERATION_HISTORY \<and>
     distinct (map fst (lm_history m)) \<and>
     (\<forall>(l, n) \<in> set (lm_history m). opaque_id_wf l \<and> 0 < n \<and> n < 256 ^ 8) \<and>
     lm_in_flight m \<le> MAX_IN_FLIGHT \<and> lm_callbacks m \<le> MAX_IN_FLIGHT"

definition n3_inv :: "lease_machine \<Rightarrow> bool" where
  "n3_inv m \<longleftrightarrow>
     n3_shape m \<and> n3_lists m \<and>
     (\<forall>g. lm_pending_grant m = Some g \<longrightarrow> grant_ok m g) \<and>
     (\<forall>a. lm_active m = Some a \<longrightarrow> active_ok m a)"

lemmas n3_inv_defs = n3_inv_def n3_lists_def

text \<open>Changing only the preflight, counters and flags keeps what identifies the lease.\<close>

lemma n3_frame [simp]:
  "grant_ok (m\<lparr>lm_preflight := x\<rparr>) = grant_ok m" "active_ok (m\<lparr>lm_preflight := x\<rparr>) = active_ok m"
  "grant_ok (m\<lparr>lm_in_flight := n\<rparr>) = grant_ok m" "active_ok (m\<lparr>lm_in_flight := n\<rparr>) = active_ok m"
  "grant_ok (m\<lparr>lm_callbacks := n\<rparr>) = grant_ok m" "active_ok (m\<lparr>lm_callbacks := n\<rparr>) = active_ok m"
  "grant_ok (m\<lparr>lm_unknown_in_flight := b\<rparr>) = grant_ok m"
  "active_ok (m\<lparr>lm_unknown_in_flight := b\<rparr>) = active_ok m"
  "grant_ok (m\<lparr>lm_scrub := s\<rparr>) = grant_ok m" "active_ok (m\<lparr>lm_scrub := s\<rparr>) = active_ok m"
  "grant_ok (m\<lparr>lm_sent_drain_ack := b\<rparr>) = grant_ok m"
  "active_ok (m\<lparr>lm_sent_drain_ack := b\<rparr>) = active_ok m"
  "grant_ok (m\<lparr>lm_state := st\<rparr>) = grant_ok m" "active_ok (m\<lparr>lm_state := st\<rparr>) = active_ok m"
  "grant_ok (m\<lparr>lm_pending_grant := p\<rparr>) = grant_ok m"
  "active_ok (m\<lparr>lm_pending_grant := p\<rparr>) = active_ok m"
  "grant_ok (m\<lparr>lm_active := a\<rparr>) = grant_ok m" "active_ok (m\<lparr>lm_active := a\<rparr>) = active_ok m"
  "grant_ok (m\<lparr>lm_completed_revokes := c\<rparr>) = grant_ok m"
  "active_ok (m\<lparr>lm_completed_revokes := c\<rparr>) = active_ok m"
  by (simp_all add: fun_eq_iff grant_ok_def active_ok_def seen_grant_def)

text \<open>Failing keeps the invariant.\<close>

lemma n3_inv_fail [simp]:
  assumes "n3_inv m"
  shows "n3_inv (fst (fail_for_event m lid gen eid reason))"
    and "n3_inv (fst (fail_for_active m reason))"
    and "n3_inv (fst (fail_restart_restore m reason))"
  using assms lease_shape_not_both [of "lm_state m" "lm_pending_grant m" "lm_active m"]
  by (simp_all add: fail_for_event_def fail_for_active_def fail_restart_restore_def n3_inv_defs)

lemma n3_ok_mono:
  assumes "set (lm_seen_events m) \<subseteq> set (lm_seen_events m')"
    and "set (lm_accepted_acks m) \<subseteq> set (lm_accepted_acks m')"
    and "lm_history m' = lm_history m"
  shows "grant_ok m g \<Longrightarrow> grant_ok m' g" "active_ok m a \<Longrightarrow> active_ok m' a"
proof -
  have g: "grant_ok m' g" if "grant_ok m g" for g
    using that assms by (auto simp: grant_ok_def seen_grant_def)
  then show "grant_ok m g \<Longrightarrow> grant_ok m' g" .
  show "active_ok m' a" if "active_ok m a"
    using that g assms(2) unfolding active_ok_def by blast
qed

lemma n3_inv_seen:
  assumes "n3_inv m" "length xs \<le> MAX_PROTOCOL_EVENT_HISTORY" "set (lm_seen_events m) \<subseteq> set xs"
  shows "n3_inv (m\<lparr>lm_seen_events := xs\<rparr>)"
  using assms n3_ok_mono [of m "m\<lparr>lm_seen_events := xs\<rparr>"]
  by (simp add: n3_inv_def n3_lists_def)

lemma n3_inv_register:
  assumes "n3_inv m"
  shows "n3_inv (fst (register_event m fp))"
proof -
  have "n3_inv (m\<lparr>lm_seen_events := lm_seen_events m @ [e]\<rparr>)"
    if "length (lm_seen_events m) < MAX_PROTOCOL_EVENT_HISTORY" for e
    using assms that by (intro n3_inv_seen) auto
  with assms show ?thesis by (simp add: register_event_def split: option.split)
qed

lemma register_event_fields [simp]:
  "lm_state (fst (register_event m fp)) = lm_state m"
  "lm_pending_grant (fst (register_event m fp)) = lm_pending_grant m"
  "lm_active (fst (register_event m fp)) = lm_active m"
  "lm_history (fst (register_event m fp)) = lm_history m"
  "lm_preflight (fst (register_event m fp)) = lm_preflight m"
  "lm_accepted_acks (fst (register_event m fp)) = lm_accepted_acks m"
  "lm_restored_epoch (fst (register_event m fp)) = lm_restored_epoch m"
  "lm_scrub (fst (register_event m fp)) = lm_scrub m"
  "lm_in_flight (fst (register_event m fp)) = lm_in_flight m"
  "lm_completed_revokes (fst (register_event m fp)) = lm_completed_revokes m"
  by (simp_all add: register_event_def split: option.split)

lemma register_event_New:
  "snd (register_event m fp) = RegNew \<Longrightarrow>
   fp \<in> se_fingerprint ` set (lm_seen_events (fst (register_event m fp)))"
  by (auto simp: register_event_def split: option.splits if_splits)

subsection \<open>Generations\<close>

lemma validate_generation_Ok:
  "validate_generation m l n = Ok () \<longleftrightarrow>
   (case map_of (lm_history m) l of
      Some p \<Rightarrow> p < n \<and> n = saturating_add u64_max p 1
    | None \<Rightarrow> length (lm_history m) < MAX_GENERATION_HISTORY)"
  by (auto simp: validate_generation_def find_key_map_of split: option.splits)

text \<open>A generation that validates is remembered, as the newest of its identity.\<close>

lemma remember_generation_history:
  assumes "validate_generation m l n = Ok ()"
  shows "map_of (lm_history (remember_generation m l n)) = (map_of (lm_history m))(l \<mapsto> n)"
    and "n3_lists m \<Longrightarrow> opaque_id_wf l \<Longrightarrow> 0 < n \<Longrightarrow> n < 256 ^ 8 \<Longrightarrow>
      n3_lists (remember_generation m l n)"
proof -
  let ?h = "lm_history m"
  have "lm_history (remember_generation m l n) =
      (if map_of ?h l = None then ?h @ [(l, n)]
       else update_first (\<lambda>(k, _). k = l) (\<lambda>(k, _). (k, n)) ?h)"
    using assms
    by (auto simp: remember_generation_def find_key_map_of validate_generation_Ok
        split: option.splits)
  then show "map_of (lm_history (remember_generation m l n)) = (map_of ?h)(l \<mapsto> n)"
    by (auto simp: map_of_update_first fun_eq_iff map_add_def split: option.split)
next
  assume l: "n3_lists m" "opaque_id_wf l" "0 < n" "n < 256 ^ 8"
  have "set (update_first P f xs) \<subseteq> set xs \<union> f ` {x \<in> set xs. P x}" for P f and xs :: "(lease_id \<times> nat) list"
    by (induction xs) auto
  from this [of "\<lambda>(k, _). k = l" "\<lambda>(k, _). (k, n)" "lm_history m"]
  show "n3_lists (remember_generation m l n)"
    using l by (auto simp: n3_lists_def remember_generation_def keys_update_first find_key_map_of
        map_of_eq_None_iff dest!: subsetD)
qed

lemma remember_generation_fields [simp]:
  "lm_state (remember_generation m l n) = lm_state m"
  "lm_pending_grant (remember_generation m l n) = lm_pending_grant m"
  "lm_active (remember_generation m l n) = lm_active m"
  "lm_seen_events (remember_generation m l n) = lm_seen_events m"
  "lm_scrub (remember_generation m l n) = lm_scrub m"
  "lm_accepted_acks (remember_generation m l n) = lm_accepted_acks m"
  by (simp_all add: remember_generation_def)

lemma grant_refusal_None:
  assumes "grant_refusal m g now = None"
  shows "lm_state m = Absent" "gr_contract_version g = N3_SCHEMA_VERSION" "0 < gr_generation g"
    "valid_capacity (gr_capacity_bytes g)"
    "validate_generation m (gr_lease_id g) (gr_generation g) = Ok ()"
  using assms by (auto simp: grant_refusal_def split: if_splits option.splits result.splits)

subsection \<open>Every operation keeps the invariant\<close>

lemma n3_inv_receive_grant:
  assumes "n3_inv m" "opaque_id_wf (gr_lease_id g)" "gr_generation g < 256 ^ 8"
  shows "n3_inv (fst (receive_grant m g now))"
proof -
  obtain m1 reg where r: "register_event m (FpGrant g) = (m1, reg)" by fastforce
  then have i1: "n3_inv m1" using n3_inv_register [OF assms(1), of "FpGrant g"] by simp
  have "n3_inv (remember_generation m1 (gr_lease_id g) (gr_generation g)
      \<lparr>lm_state := Negotiating (gr_generation g), lm_pending_grant := Some g\<rparr>)"
    if new: "reg = RegNew" and ok: "grant_refusal m1 g now = None"
  proof -
    let ?m = "remember_generation m1 (gr_lease_id g) (gr_generation g)"
    note ok = grant_refusal_None [OF ok]
    have "n3_lists ?m"
      using remember_generation_history(2) [OF ok(5)] i1 assms(2,3) ok(3) by (simp add: n3_inv_def)
    moreover have "grant_ok ?m g"
      using register_event_New [of m "FpGrant g"] ok new r
      by (simp add: grant_ok_def seen_grant_def remember_generation_history(1) [OF ok(5)])
    moreover have "lm_active m1 = None" using i1 ok(1) by (simp add: n3_inv_def)
    ultimately show ?thesis by (simp add: n3_inv_def n3_lists_def)
  qed
  with i1 show ?thesis
    by (simp add: receive_grant_def r Let_def split: event_registration.split option.split)
qed

lemma n3_inv_accept_grant_ack:
  assumes "n3_inv m"
  shows "n3_inv (fst (accept_grant_ack m ack))"
proof -
  have "n3_inv (m\<lparr>lm_accepted_acks := lm_accepted_acks m @ [ack],
                  lm_active := Some \<lparr>na_lease_id = gr_lease_id g, na_generation = gr_generation g,
                    na_grant_event_id = gr_event_id g, na_capacity_bytes = gr_capacity_bytes g,
                    na_revoke = None\<rparr>,
                  lm_pending_grant := None, lm_state := Granted (gr_generation g)\<rparr>)"
    if g: "lm_pending_grant m = Some g" "length (lm_accepted_acks m) < MAX_PROTOCOL_EVENT_HISTORY"
      "ga_contract_version ack = gr_contract_version g" "ga_lease_id ack = gr_lease_id g"
      "ga_generation ack = gr_generation g" "ga_event_id ack = gr_event_id g" for g
  proof -
    have "ack = ack_of g" using g by (simp add: ack_of_def)
    moreover have "grant_ok m g" using assms g(1) by (simp add: n3_inv_def)
    ultimately have "active_ok (m\<lparr>lm_accepted_acks := lm_accepted_acks m @ [ack]\<rparr>)
        \<lparr>na_lease_id = gr_lease_id g, na_generation = gr_generation g,
         na_grant_event_id = gr_event_id g, na_capacity_bytes = gr_capacity_bytes g,
         na_revoke = None\<rparr>"
      unfolding active_ok_def by (intro conjI exI [of _ g]) (auto simp: grant_ok_def seen_grant_def)
    then show ?thesis using assms g(2) by (simp add: n3_inv_def n3_lists_def)
  qed
  with assms show ?thesis
    by (simp add: accept_grant_ack_def Let_def split: option.split)
qed

lemma n3_inv_receive_revoke:
  assumes "n3_inv m"
  shows "n3_inv (fst (receive_revoke m rv))"
proof -
  obtain m1 reg where r: "register_event m (FpRevoke rv) = (m1, reg)" by fastforce
  then have i1: "n3_inv m1" using n3_inv_register [OF assms(1), of "FpRevoke rv"] by simp
  have "n3_inv (m1\<lparr>lm_active := Some (a\<lparr>na_revoke := Some rv\<rparr>),
          lm_state := Quiescing (na_generation a), lm_scrub := ScrubStPending,
          lm_sent_drain_ack := False\<rparr>)"
    if "lm_active m1 = Some a" "lm_state m1 = Granted (na_generation a)"
      "rv_lease_id rv = na_lease_id a" "rv_generation rv = na_generation a" for a
  proof -
    have "active_ok m1 a" using i1 that(1) by (simp add: n3_inv_def)
    then have "active_ok m1 (a\<lparr>na_revoke := Some rv\<rparr>)"
      using that(3,4) by (simp add: active_ok_def)
    then show ?thesis using i1 that(2) by (simp add: n3_inv_def n3_lists_def)
  qed
  with i1 show ?thesis
    by (simp add: receive_revoke_def r Let_def split: event_registration.split option.split)
qed

lemma n3_inv_drain: "n3_inv m \<Longrightarrow> n3_inv (fst (n3_drain m now))"
  by (simp add: n3_drain_def Let_def split: option.split scrub_state.split)
    (auto simp: n3_inv_defs)

lemma n3_inv_confirm_revoke: "n3_inv m \<Longrightarrow> n3_inv (fst (confirm_revoke m c))"
  by (simp add: confirm_revoke_def Let_def split: option.split)
    (auto simp add: n3_inv_defs)

lemma n3_inv_counters [simp]:
  "n3_inv m \<Longrightarrow> n \<le> MAX_IN_FLIGHT \<Longrightarrow> n3_inv (m\<lparr>lm_in_flight := n\<rparr>)"
  "n3_inv m \<Longrightarrow> n \<le> MAX_IN_FLIGHT \<Longrightarrow> n3_inv (m\<lparr>lm_callbacks := n\<rparr>)"
  "n3_inv m \<Longrightarrow> n3_inv (m\<lparr>lm_unknown_in_flight := b\<rparr>)"
  "n3_inv m \<Longrightarrow> n3_inv (m\<lparr>lm_scrub := st\<rparr>)"
  by (simp_all add: n3_inv_defs)

lemma n3_inv_in_flight: "n3_inv m \<Longrightarrow> lm_in_flight m \<le> MAX_IN_FLIGHT"
  by (simp add: n3_inv_defs)

lemma n3_inv_io:
  assumes "n3_inv m"
  shows "n3_inv (fst (begin_io m))" "n3_inv (fst (set_in_flight m n))"
    "n3_inv (fst (complete_io m))" "n3_inv (fst (set_callbacks_pending m n))"
    "n3_inv (mark_unknown_in_flight m)" "n3_inv (fst (scrub_guest_data m r))"
  using assms n3_inv_in_flight [OF assms]
  by (simp_all add: begin_io_def set_in_flight_def complete_io_def set_callbacks_pending_def
      mark_unknown_in_flight_def scrub_guest_data_def Let_def)

lemma n3_inv_cleanup:
  assumes "n3_inv m"
  shows "n3_inv (complete_cleanup m)"
proof -
  have "n3_inv (m\<lparr>lm_pending_grant := None, lm_active := None, lm_in_flight := 0,
      lm_callbacks := 0, lm_unknown_in_flight := False, lm_scrub := ScrubStPending,
      lm_sent_drain_ack := False, lm_state := Absent\<rparr>)"
    using assms by (simp add: n3_inv_defs)
  with assms show ?thesis by (simp add: complete_cleanup_def split: lease_state.split)
qed

lemma n3_inv_restart: "n3_inv m \<Longrightarrow> n3_inv (n3_restart m)"
  by (simp add: n3_restart_def n3_inv_defs)

lemma n3_inv_fail_closed: "n3_inv m \<Longrightarrow> n3_inv (fst (fail_closed m e))"
  by (simp add: fail_closed_def Let_def) (simp add: n3_inv_defs)

lemma n3_inv_preflight: "n3_inv m \<Longrightarrow> n3_inv (m\<lparr>lm_preflight := pm\<rparr>)"
  by (simp add: n3_inv_defs)

lemma n3_inv_restore_record:
  assumes "n3_inv m" "rr_wf r"
  shows "n3_inv (fst (restore_restart_record m r))"
proof (cases "rr_validate r")
  case (Ok u)
  then have "rr_canonical r" using rr_validate_iff [OF assms(2)] by simp
  then have "distinct (map (\<lambda>cp. as_bytes (cp_lease_id cp)) (rr_checkpoints r))"
    by (simp add: rr_canonical_def strict_sorted_iff)
  then have d: "distinct (map cp_lease_id (rr_checkpoints r))"
    using distinct_map [of as_bytes "map cp_lease_id (rr_checkpoints r)"] by (simp add: comp_def)
  have "n3_inv (m\<lparr>lm_history := map (\<lambda>cp. (cp_lease_id cp, cp_generation cp)) (rr_checkpoints r),
      lm_restored_epoch := e\<rparr>)"
    if "lm_state m = Absent" "lm_pending_grant m = None" "lm_active m = None" for e
    using assms d \<open>rr_canonical r\<close> that
    by (simp add: n3_inv_defs rr_canonical_def rr_wf_def cp_wf_def comp_def)
  with Ok assms(1) show ?thesis by (simp add: restore_restart_record_def)
qed (simp add: restore_restart_record_def assms(1))

lemma n3_inv_restore_bytes: "n3_inv m \<Longrightarrow> n3_inv (fst (restore_restart_bytes m bytes))"
  using rr_from_bytes_exact [of bytes]
  by (auto simp: restore_restart_bytes_def n3_inv_restore_record split: result.split)

lemma n3_inv_exec:
  assumes "n3_inv m" "n3_op_wf op"
  shows "n3_inv (n3_exec m op)"
proof (cases op)
  case (OpHost e now)
  then show ?thesis using assms
    by (cases e) (simp_all add: n3_inv_receive_grant n3_inv_accept_grant_ack n3_inv_receive_revoke
        n3_inv_confirm_revoke n3_inv_fail_closed)
qed (use assms in \<open>simp_all add: n3_inv_restore_bytes n3_inv_restore_record n3_inv_io n3_inv_drain
      n3_inv_cleanup n3_inv_restart n3_inv_preflight lm_observe_def
      lm_request_demotion_def lm_refuse_guest_claim_def lm_refuse_product_transport_def
      split_beta\<close>)

lemma n3_inv_new: "n3_inv lm_new"
  by (simp add: lm_new_def n3_inv_defs)

interpretation n3: op_machine n3_exec n3_op_wf n3_inv
  by unfold_locales (rule n3_inv_exec)

subsection \<open>The lease protocol behind the operations\<close>

text \<open>
  Pending grant, active lease and generation history change only in five ways. Everything else
  that an operation does leaves them alone or drops the grant or the lease.
\<close>

type_synonym lease_view =
  "grant option \<times> n3_active_lease option \<times> (lease_id \<times> nat) list"

definition lease_view :: "lease_machine \<Rightarrow> lease_view" where
  "lease_view m = (lm_pending_grant m, lm_active m, lm_history m)"

definition lease_of :: "grant \<Rightarrow> n3_active_lease" where
  "lease_of g = \<lparr>na_lease_id = gr_lease_id g, na_generation = gr_generation g,
                 na_grant_event_id = gr_event_id g, na_capacity_bytes = gr_capacity_bytes g,
                 na_revoke = None\<rparr>"

inductive lease_step :: "lease_view \<Rightarrow> lease_view \<Rightarrow> bool" where
  drop: "p' = p \<or> p' = None \<Longrightarrow> a' = a \<or> a' = None \<Longrightarrow> lease_step (p, a, h) (p', a', h)"
| grant: "map_of h (gr_lease_id g) = None \<or>
     (\<exists>n. map_of h (gr_lease_id g) = Some n \<and> gr_generation g = Suc n) \<Longrightarrow>
     map_of h' = (map_of h)(gr_lease_id g \<mapsto> gr_generation g) \<Longrightarrow>
     lease_step (None, None, h) (Some g, None, h')"
| accept: "lease_step (Some g, None, h) (None, Some (lease_of g), h)"
| revoke: "rv_lease_id rv = na_lease_id a \<Longrightarrow> rv_generation rv = na_generation a \<Longrightarrow>
     lease_step (p, Some a, h) (p, Some (a\<lparr>na_revoke := Some rv\<rparr>), h)"
| restore: "lease_step (None, None, []) (None, None, h)"

inductive_cases lease_stepE: "lease_step (p, a, h) (p', a', h')"

lemma lease_step_same: "lease_view m' = lease_view m \<Longrightarrow> lease_step (lease_view m) (lease_view m')"
  by (simp add: lease_view_def lease_step.drop)

lemma lease_view_frame [simp]:
  "lease_view (m\<lparr>lm_preflight := x\<rparr>) = lease_view m"
  "lease_view (m\<lparr>lm_in_flight := n\<rparr>) = lease_view m"
  "lease_view (m\<lparr>lm_callbacks := n\<rparr>) = lease_view m"
  "lease_view (m\<lparr>lm_unknown_in_flight := b\<rparr>) = lease_view m"
  "lease_view (m\<lparr>lm_scrub := s\<rparr>) = lease_view m"
  "lease_view (m\<lparr>lm_sent_drain_ack := b\<rparr>) = lease_view m"
  "lease_view (m\<lparr>lm_state := st\<rparr>) = lease_view m"
  "lease_view (m\<lparr>lm_completed_revokes := c\<rparr>) = lease_view m"
  "lease_view (m\<lparr>lm_accepted_acks := acks\<rparr>) = lease_view m"
  "lease_view (fst (register_event m fp)) = lease_view m"
  by (simp_all add: lease_view_def)

lemma lease_step_fail [simp]:
  "lease_step (lease_view m) (lease_view (fst (fail_for_event m lid gen eid reason)))"
  "lease_step (lease_view m) (lease_view (fst (fail_for_active m reason)))"
  "lease_step (lease_view m) (lease_view (fst (fail_restart_restore m reason)))"
  by (simp_all add: fail_for_event_def fail_for_active_def fail_restart_restore_def lease_view_def
      lease_step.drop)

lemma lease_step_refl [simp]: "lease_step v v"
  by (cases v) (simp add: lease_step.drop)

lemma lease_step_receive_grant:
  assumes "n3_inv m"
  shows "lease_step (lease_view m) (lease_view (fst (receive_grant m g now)))"
proof -
  obtain m1 reg where r: "register_event m (FpGrant g) = (m1, reg)" by fastforce
  have v: "lease_view m = lease_view m1"
    using lease_view_frame(10) [of m "FpGrant g"] r by simp
  have "lease_step (lease_view m1)
      (lease_view (remember_generation m1 (gr_lease_id g) (gr_generation g)
        \<lparr>lm_state := Negotiating (gr_generation g), lm_pending_grant := Some g\<rparr>))"
    if "grant_refusal m1 g now = None"
  proof -
    note ok = grant_refusal_None [OF that]
    have "n3_inv m1" using n3_inv_register [OF assms, of "FpGrant g"] r by simp
    then have "lm_pending_grant m1 = None \<and> lm_active m1 = None"
      using ok(1) by (simp add: n3_inv_def)
    moreover have "map_of (lm_history m1) (gr_lease_id g) = None \<or>
        (\<exists>n. map_of (lm_history m1) (gr_lease_id g) = Some n \<and> gr_generation g = Suc n)"
      using ok(5)
      by (auto simp: validate_generation_Ok saturating_add_def min_def split: option.splits if_splits)
    ultimately show ?thesis
      using lease_step.grant [OF _ remember_generation_history(1) [OF ok(5)]]
      by (simp add: lease_view_def)
  qed
  with v show ?thesis
    by (simp add: receive_grant_def r Let_def split: event_registration.split option.split)
qed

lemma lease_step_accept:
  assumes "n3_inv m"
  shows "lease_step (lease_view m) (lease_view (fst (accept_grant_ack m ack)))"
proof -
  have "lm_active m = None" if "lm_pending_grant m = Some g" for g
    using assms that lease_shape_not_both [of "lm_state m" "lm_pending_grant m" "lm_active m"]
    by (simp add: n3_inv_def)
  then have "lease_step (lease_view m)
      (lease_view (m\<lparr>lm_accepted_acks := acks, lm_active := Some (lease_of g),
         lm_pending_grant := None, lm_state := st\<rparr>))"
    if "lm_pending_grant m = Some g" for g acks st
    using that lease_step.accept [of g "lm_history m"] by (simp add: lease_view_def)
  then show ?thesis
    by (simp add: accept_grant_ack_def Let_def lease_of_def split: option.split)
qed

lemma lease_step_receive_revoke:
  "lease_step (lease_view m) (lease_view (fst (receive_revoke m rv)))"
proof -
  obtain m1 reg where r: "register_event m (FpRevoke rv) = (m1, reg)" by fastforce
  have v: "lease_view m = lease_view m1"
    using lease_view_frame(10) [of m "FpRevoke rv"] r by simp
  have "lease_step (lease_view m1)
      (lease_view (m1\<lparr>lm_active := Some (a\<lparr>na_revoke := Some rv\<rparr>), lm_state := st,
         lm_scrub := s, lm_sent_drain_ack := b\<rparr>))"
    if "lm_active m1 = Some a" "rv_lease_id rv = na_lease_id a"
      "rv_generation rv = na_generation a" for a st s b
    using lease_step.revoke [OF that(2,3), of "lm_pending_grant m1" "lm_history m1"] that(1)
    by (simp add: lease_view_def)
  with v show ?thesis
    by (simp add: receive_revoke_def r Let_def split: event_registration.split option.split)
qed

lemma lease_step_restore_record:
  "lease_step (lease_view m) (lease_view (fst (restore_restart_record m r)))"
  by (auto simp: restore_restart_record_def split: result.split)
    (simp add: lease_view_def lease_step.restore)

lemma lease_step_exec:
  assumes "n3_inv m"
  shows "lease_step (lease_view m) (lease_view (n3_exec m op))"
proof (cases op)
  case (OpHost e now)
  then show ?thesis
    using assms lease_step_receive_grant lease_step_accept lease_step_receive_revoke
    by (cases e) (simp_all add: confirm_revoke_def fail_closed_def Let_def split: option.split)
next
  case OpCleanup
  then show ?thesis
    by (auto simp: complete_cleanup_def lease_view_def intro!: lease_step.drop
        split: lease_state.split)
next
  case OpRestart
  then show ?thesis by (auto simp: n3_restart_def lease_view_def intro!: lease_step.drop)
next
  case (OpRestoreBytes bytes)
  then show ?thesis
    using lease_step_restore_record
    by (simp add: restore_restart_bytes_def split: result.split)
next
  case (OpDrain now)
  then show ?thesis
    by (simp add: n3_drain_def Let_def split: option.split scrub_state.split)
next
  case (OpScrub r)
  then show ?thesis
    using lease_step_fail(2) [of "m\<lparr>lm_scrub := scrub_from r\<rparr>" ScrubFailed]
    by (cases r) (simp_all add: scrub_guest_data_def Let_def)
qed (simp_all add: lease_step_restore_record lm_observe_def lm_request_demotion_def
      lm_refuse_guest_claim_def lm_refuse_product_transport_def split_beta begin_io_def
      set_in_flight_def complete_io_def set_callbacks_pending_def mark_unknown_in_flight_def)

subsection \<open>I/O only under an acknowledged lease\<close>

definition n3_run :: "lease_machine \<Rightarrow> n3_op list \<Rightarrow> lease_machine" where
  "n3_run m ops = foldl n3_exec m ops"

lemma n3_inv_run: "n3_inv m \<Longrightarrow> list_all n3_op_wf ops \<Longrightarrow> n3_inv (n3_run m ops)"
  unfolding n3_run_def by (rule n3.inv_run)

lemmas n3_inv_run_new = n3_inv_run [OF n3_inv_new]

lemma begin_io_Ok_inv:
  assumes "n3_inv m" "begin_io m = (m', Ok ())"
  obtains a where "lm_state m = Granted (na_generation a)" "lm_active m = Some a"
    "na_revoke a = None" "active_ok m a" "lm_in_flight m' = Suc (lm_in_flight m)"
    "lm_in_flight m < MAX_IN_FLIGHT"
proof -
  have st: "lm_state m = Granted (unwrap_or (map_option na_generation (lm_active m)) 0)"
    and fl: "lm_in_flight m' = Suc (lm_in_flight m)" "lm_in_flight m < MAX_IN_FLIGHT"
    using assms(2) by (auto simp: begin_io_def split: if_splits)
  then obtain a where "lm_active m = Some a" "na_revoke a = None"
    using assms(1) by (auto simp: n3_inv_def)
  with st fl assms(1) that show ?thesis by (simp add: n3_inv_def)
qed

text \<open>
  C8. In every state reached by any sequence of operations, an I/O is admitted only while a lease
  is granted that has no revoke: the lease goes back to a grant that the host issued since the
  last restart, with the same identity, generation and capacity, its acknowledgement was accepted,
  its capacity is a nonzero multiple of a page of at most 1 PiB, and its generation is the newest
  of its identity. The counter of operations in flight never exceeds its limit.
\<close>

theorem n3_io_only_granted:
  assumes "list_all n3_op_wf ops" "begin_io (n3_run lm_new ops) = (m', Ok ())"
  shows "\<exists>a g. lm_active (n3_run lm_new ops) = Some a \<and> na_revoke a = None \<and>
      lm_state (n3_run lm_new ops) = Granted (na_generation a) \<and>
      seen_grant (n3_run lm_new ops) g \<and> ack_of g \<in> set (lm_accepted_acks (n3_run lm_new ops)) \<and>
      na_lease_id a = gr_lease_id g \<and> na_generation a = gr_generation g \<and>
      na_capacity_bytes a = gr_capacity_bytes g \<and> valid_capacity (gr_capacity_bytes g) \<and>
      map_of (lm_history (n3_run lm_new ops)) (na_lease_id a) = Some (na_generation a) \<and>
      lm_in_flight m' \<le> MAX_IN_FLIGHT"
proof -
  let ?m = "n3_run lm_new ops"
  obtain a where a: "lm_state ?m = Granted (na_generation a)" "lm_active ?m = Some a"
    "na_revoke a = None" "active_ok ?m a" "lm_in_flight m' = Suc (lm_in_flight ?m)"
    "lm_in_flight ?m < MAX_IN_FLIGHT"
    by (rule begin_io_Ok_inv [OF n3_inv_run_new [OF assms(1)] assms(2)])
  from a(4) obtain g where "grant_ok ?m g" "ack_of g \<in> set (lm_accepted_acks ?m)"
    "na_lease_id a = gr_lease_id g" "na_generation a = gr_generation g"
    "na_capacity_bytes a = gr_capacity_bytes g"
    unfolding active_ok_def by blast
  with a show ?thesis by (intro exI [of _ a] exI [of _ g]) (simp add: grant_ok_def)
qed

subsection \<open>A revoked generation is dead\<close>

definition dead_lease :: "lease_id \<Rightarrow> nat \<Rightarrow> lease_view \<Rightarrow> bool" where
  "dead_lease l n v \<longleftrightarrow>
     (case v of (p, a, h) \<Rightarrow>
        (\<exists>k. map_of h l = Some k \<and> n \<le> k) \<and>
        (\<forall>x. a = Some x \<longrightarrow> na_lease_id x = l \<longrightarrow> na_generation x = n \<longrightarrow> na_revoke x \<noteq> None) \<and>
        (\<forall>g. p = Some g \<longrightarrow> gr_lease_id g = l \<longrightarrow> gr_generation g \<noteq> n))"

lemma dead_lease_step:
  assumes "lease_step v v'" "dead_lease l n v"
  shows "dead_lease l n v'"
  using assms
proof (cases rule: lease_step.cases)
  case (grant h g h')
  then show ?thesis using assms(2) by (auto simp: dead_lease_def)
next
  case (drop p' p a' a h)
  then show ?thesis using assms(2) by (auto simp: dead_lease_def)
qed (auto simp: dead_lease_def lease_of_def)

lemma dead_lease_run:
  assumes "n3_inv m" "list_all n3_op_wf ops" "dead_lease l n (lease_view m)"
  shows "dead_lease l n (lease_view (n3_run m ops))"
  unfolding n3_run_def
  using n3.run_keeps [where P = "\<lambda>m. dead_lease l n (lease_view m)", OF _ assms]
    dead_lease_step [OF lease_step_exec] by blast

lemma receive_revoke_BeginDrain:
  assumes "receive_revoke m rv = (m1, BeginDrain)"
  obtains a where "lm_active m = Some a" "rv_lease_id rv = na_lease_id a"
    "rv_generation rv = na_generation a" "lm_active m1 = Some (a\<lparr>na_revoke := Some rv\<rparr>)"
    "lm_history m1 = lm_history m" "lm_pending_grant m1 = lm_pending_grant m"
    "lm_scrub m1 = ScrubStPending" "lm_state m1 = Quiescing (na_generation a)"
proof -
  obtain m0 reg where r: "register_event m (FpRevoke rv) = (m0, reg)" by fastforce
  have f: "lm_active m0 = lm_active m" "lm_history m0 = lm_history m"
    "lm_pending_grant m0 = lm_pending_grant m"
    using register_event_fields(2-4) [of m "FpRevoke rv"] r by simp_all
  show ?thesis
    using assms f that
    by (auto simp: receive_revoke_def r Let_def fail_for_event_def
        split: event_registration.splits option.splits if_splits)
qed

text \<open>
  C19. Once the machine accepted the revoke of a lease, no later sequence of operations, failures,
  cleanups, restarts and attempted restores included, leads to a state in which that generation of
  the lease admits I/O again: if I/O is admitted under the same identity, its generation is
  strictly greater.
\<close>

theorem n3_revoked_generation_dead:
  assumes "list_all n3_op_wf ops" "receive_revoke (n3_run lm_new ops) rv = (m1, BeginDrain)"
    and "list_all n3_op_wf ops'" "begin_io (n3_run m1 ops') = (m', Ok ())"
    and "lm_active (n3_run m1 ops') = Some a" "na_lease_id a = rv_lease_id rv"
  shows "rv_generation rv < na_generation a"
proof -
  let ?m = "n3_run lm_new ops" and ?m2 = "n3_run m1 ops'"
  have i: "n3_inv ?m" by (rule n3_inv_run_new [OF assms(1)])
  have i1: "n3_inv m1" using n3_inv_receive_revoke [OF i, of rv] assms(2) by simp
  obtain x where x: "lm_active ?m = Some x" "rv_lease_id rv = na_lease_id x"
    "rv_generation rv = na_generation x" "lm_active m1 = Some (x\<lparr>na_revoke := Some rv\<rparr>)"
    "lm_history m1 = lm_history ?m" "lm_pending_grant m1 = lm_pending_grant ?m"
    "lm_state m1 = Quiescing (na_generation x)"
    using receive_revoke_BeginDrain [OF assms(2)] by metis
  have "active_ok ?m x" using i x(1) by (simp add: n3_inv_def)
  then have "map_of (lm_history ?m) (na_lease_id x) = Some (na_generation x)"
    by (auto simp: active_ok_def grant_ok_def)
  moreover have "lm_pending_grant m1 = None" using i1 x(7) by (simp add: n3_inv_def)
  ultimately have "dead_lease (rv_lease_id rv) (rv_generation rv) (lease_view m1)"
    using x by (simp add: dead_lease_def lease_view_def)
  then have dead: "dead_lease (rv_lease_id rv) (rv_generation rv) (lease_view ?m2)"
    by (rule dead_lease_run [OF i1 assms(3)])
  have i2: "n3_inv ?m2" by (rule n3_inv_run [OF i1 assms(3)])
  obtain b where b: "lm_active ?m2 = Some b" "na_revoke b = None" "active_ok ?m2 b"
    using begin_io_Ok_inv [OF i2 assms(4)] by metis
  then have "map_of (lm_history ?m2) (na_lease_id a) = Some (na_generation a)"
    using assms(5) by (auto simp: active_ok_def grant_ok_def)
  with dead b assms(5,6) show ?thesis by (auto simp: dead_lease_def lease_view_def)
qed

subsection \<open>Drains follow a scrub\<close>

lemma fail_fields [simp]:
  "lm_scrub (fst (fail_for_event m lid gen eid reason)) = lm_scrub m"
  "lm_scrub (fst (fail_for_active m reason)) = lm_scrub m"
  "lm_scrub (fst (fail_restart_restore m reason)) = lm_scrub m"
  "lm_state (fst (fail_for_event m lid gen eid reason)) = Failed reason"
  "lm_state (fst (fail_for_active m reason)) = Failed reason"
  "lm_state (fst (fail_restart_restore m reason)) = Failed reason"
  "lm_active (fst (fail_for_event m lid gen eid reason)) = lm_active m"
  "lm_active (fst (fail_for_active m reason)) = lm_active m"
  by (simp_all add: fail_for_event_def fail_for_active_def fail_restart_restore_def)

lemma scrub_receive:
  "lm_scrub (fst (receive_grant m g now)) = lm_scrub m"
  "lm_scrub (fst (receive_revoke m rv)) = ScrubStSucceeded \<Longrightarrow> lm_scrub m = ScrubStSucceeded"
proof -
  obtain m1 reg where r: "register_event m (FpGrant g) = (m1, reg)" by fastforce
  then have "lm_scrub m1 = lm_scrub m" using register_event_fields(8) [of m "FpGrant g"] by simp
  then show "lm_scrub (fst (receive_grant m g now)) = lm_scrub m"
    by (simp add: receive_grant_def r Let_def split: event_registration.split option.split)
next
  obtain m1 reg where r: "register_event m (FpRevoke rv) = (m1, reg)" by fastforce
  then have "lm_scrub m1 = lm_scrub m" using register_event_fields(8) [of m "FpRevoke rv"] by simp
  then show "lm_scrub (fst (receive_revoke m rv)) = ScrubStSucceeded \<Longrightarrow>
      lm_scrub m = ScrubStSucceeded"
    by (simp add: receive_revoke_def r Let_def
        split: event_registration.splits option.splits if_splits)
qed

lemma scrub_same [simp]:
  "lm_scrub (fst (accept_grant_ack m ack)) = lm_scrub m"
  "lm_scrub (fst (confirm_revoke m c)) = lm_scrub m"
  "lm_scrub (fst (fail_closed m e)) = lm_scrub m"
  "lm_scrub (fst (n3_drain m now)) = lm_scrub m"
  "lm_scrub (fst (restore_restart_record m r)) = lm_scrub m"
  "lm_scrub (fst (begin_io m)) = lm_scrub m"
  "lm_scrub (fst (complete_io m)) = lm_scrub m"
  "lm_scrub (fst (set_in_flight m n)) = lm_scrub m"
  "lm_scrub (fst (set_callbacks_pending m n)) = lm_scrub m"
  by (simp_all add: accept_grant_ack_def confirm_revoke_def fail_closed_def n3_drain_def Let_def
      restore_restart_record_def begin_io_def complete_io_def set_in_flight_def
      set_callbacks_pending_def split: option.split scrub_state.split result.split)

lemma scrub_restore_bytes [simp]: "lm_scrub (fst (restore_restart_bytes m bytes)) = lm_scrub m"
  by (simp add: restore_restart_bytes_def split: result.split)

lemma scrub_cleanup: "lm_scrub (complete_cleanup m) \<in> {lm_scrub m, ScrubStPending}"
  by (simp add: complete_cleanup_def split: lease_state.split)

text \<open>Only a reported success sets the scrub evidence.\<close>

lemma scrub_step:
  assumes "lm_scrub (n3_exec m op) = ScrubStSucceeded" "lm_scrub m \<noteq> ScrubStSucceeded"
  shows "op = OpScrub ScrubOk"
proof (cases op)
  case (OpHost e now)
  with assms scrub_receive show ?thesis by (cases e) simp_all
next
  case (OpScrub r)
  with assms show ?thesis by (cases r) (simp_all add: scrub_guest_data_def Let_def)
next
  case OpCleanup
  with assms scrub_cleanup [of m] show ?thesis by simp
qed (use assms in \<open>simp_all add: lm_observe_def lm_request_demotion_def n3_restart_def
      lm_refuse_guest_claim_def lm_refuse_product_transport_def split_beta
      mark_unknown_in_flight_def\<close>)

lemma scrub_run:
  "lm_scrub (n3_run m ops) = ScrubStSucceeded \<Longrightarrow> lm_scrub m \<noteq> ScrubStSucceeded \<Longrightarrow>
   OpScrub ScrubOk \<in> set ops"
proof (induction ops arbitrary: m)
  case (Cons op ops)
  then show ?case using scrub_step [of m op] by (auto simp: n3_run_def)
qed (simp add: n3_run_def)

lemma n3_drain_ack:
  assumes "n3_drain m now = (m', SendDrainAck d)"
  obtains a rv where "lm_active m = Some a" "na_revoke a = Some rv" "now < rv_deadline rv"
    "lm_state m = Quiescing (na_generation a)" "\<not> lm_unknown_in_flight m"
    "lm_in_flight m = 0" "lm_callbacks m = 0" "lm_scrub m = ScrubStSucceeded"
    "da_lease_id d = na_lease_id a" "da_generation d = na_generation a"
    "da_event_id d = rv_event_id rv"
    "m' = m\<lparr>lm_sent_drain_ack := True, lm_state := Drained (na_generation a)\<rparr>"
  using assms
  by (auto simp: n3_drain_def Let_def fail_for_event_def fail_for_active_def
      split: option.splits if_splits scrub_state.splits)

text \<open>
  C21. A drain is acknowledged only when it is safe: after the machine accepted a revoke, whatever
  operations follow, a drain acknowledgement implies that a successful scrub was reported since
  that revoke, that no operation and no callback is outstanding and the count is trustworthy, that
  the deadline of the current revoke has not passed, and that I/O is refused in the resulting
  state. The acknowledgement names the revoked lease, its generation and the revoke event.
\<close>

theorem n3_drain_ack_safe:
  assumes "receive_revoke m rv = (m1, BeginDrain)"
    and "n3_drain (n3_run m1 ops) now = (m2, SendDrainAck d)"
  shows "OpScrub ScrubOk \<in> set ops \<and>
    (\<exists>a rv'. lm_active (n3_run m1 ops) = Some a \<and> na_revoke a = Some rv' \<and>
      now < rv_deadline rv' \<and> da_lease_id d = na_lease_id a \<and> da_generation d = na_generation a \<and>
      da_event_id d = rv_event_id rv' \<and> lm_in_flight m2 = 0 \<and> lm_callbacks m2 = 0 \<and>
      \<not> lm_unknown_in_flight m2 \<and> lm_state m2 = Drained (na_generation a) \<and>
      snd (begin_io m2) = Err IoNotGranted)"
proof -
  obtain a rv' where a: "lm_active (n3_run m1 ops) = Some a" "na_revoke a = Some rv'"
    "now < rv_deadline rv'" "\<not> lm_unknown_in_flight (n3_run m1 ops)"
    "lm_in_flight (n3_run m1 ops) = 0" "lm_callbacks (n3_run m1 ops) = 0"
    "lm_scrub (n3_run m1 ops) = ScrubStSucceeded" "da_lease_id d = na_lease_id a"
    "da_generation d = na_generation a" "da_event_id d = rv_event_id rv'"
    "m2 = n3_run m1 ops\<lparr>lm_sent_drain_ack := True, lm_state := Drained (na_generation a)\<rparr>"
    using n3_drain_ack [OF assms(2)] by metis
  have "lm_scrub m1 = ScrubStPending"
    by (rule receive_revoke_BeginDrain [OF assms(1)])
  with a(7) have "OpScrub ScrubOk \<in> set ops" using scrub_run [of m1 ops] by simp
  with a show ?thesis by (intro conjI exI [of _ a] exI [of _ rv']) (simp_all add: begin_io_def)
qed

subsection \<open>Failures latch\<close>

definition is_failed :: "lease_machine \<Rightarrow> bool" where
  "is_failed m \<longleftrightarrow> (\<exists>r. lm_state m = Failed r)"

text \<open>An operation that neither restarts the machine nor reads a restart record.\<close>

fun n3_same_life :: "n3_op \<Rightarrow> bool" where
  "n3_same_life (OpRestoreBytes _) \<longleftrightarrow> False"
| "n3_same_life (OpRestoreRecord _) \<longleftrightarrow> False"
| "n3_same_life OpRestart \<longleftrightarrow> False"
| "n3_same_life _ \<longleftrightarrow> True"

lemma failed_receive:
  assumes "is_failed m"
  shows "is_failed (fst (receive_grant m g now))"
    "lm_active (fst (receive_grant m g now)) = lm_active m"
    "is_failed (fst (receive_revoke m rv))"
    "lm_active (fst (receive_revoke m rv)) = lm_active m"
proof -
  obtain m1 reg where r: "register_event m (FpGrant g) = (m1, reg)" by fastforce
  then have s: "lm_state m1 = lm_state m" "lm_active m1 = lm_active m"
    using register_event_fields(1,3) [of m "FpGrant g"] by simp_all
  then obtain reason where "grant_refusal m1 g now = Some reason"
    using assms grant_refusal_None(1) [of m1 g now]
    by (cases "grant_refusal m1 g now") (auto simp: is_failed_def)
  with s assms show "is_failed (fst (receive_grant m g now))"
    "lm_active (fst (receive_grant m g now)) = lm_active m"
    by (auto simp: receive_grant_def r Let_def is_failed_def split: event_registration.split
        option.split)
next
  obtain m1 reg where r: "register_event m (FpRevoke rv) = (m1, reg)" by fastforce
  then have s: "lm_state m1 = lm_state m" "lm_active m1 = lm_active m"
    using register_event_fields(1,3) [of m "FpRevoke rv"] by simp_all
  with assms show "is_failed (fst (receive_revoke m rv))"
    "lm_active (fst (receive_revoke m rv)) = lm_active m"
    by (auto simp: receive_revoke_def r Let_def is_failed_def split: event_registration.split
        option.split)
qed

lemma failed_step:
  assumes "is_failed m" "n3_same_life op" "op \<noteq> OpCleanup"
  shows "is_failed (n3_exec m op) \<and> lm_active (n3_exec m op) = lm_active m"
proof (cases op)
  case (OpHost e now)
  with assms failed_receive show ?thesis
    by (cases e) (auto simp: accept_grant_ack_def confirm_revoke_def fail_closed_def Let_def
        is_failed_def split: option.splits)
next
  case (OpDrain now)
  with assms show ?thesis
    by (auto simp: n3_drain_def Let_def is_failed_def split: option.splits)
next
  case (OpScrub r)
  with assms show ?thesis
    by (cases r) (auto simp: scrub_guest_data_def Let_def is_failed_def)
qed (use assms in \<open>auto simp: is_failed_def lm_observe_def lm_request_demotion_def
      lm_refuse_guest_claim_def lm_refuse_product_transport_def split_beta begin_io_def
      set_in_flight_def complete_io_def set_callbacks_pending_def mark_unknown_in_flight_def\<close>)

lemma failed_run:
  assumes "list_all n3_same_life ops" "OpScrub ScrubOk \<notin> set ops"
    and "is_failed m" "lm_active m \<noteq> None" "lm_scrub m \<noteq> ScrubStSucceeded"
  shows "is_failed (n3_run m ops) \<and> lm_active (n3_run m ops) = lm_active m"
  using assms
proof (induction ops arbitrary: m)
  case (Cons op ops)
  have "is_failed (n3_exec m op) \<and> lm_active (n3_exec m op) = lm_active m"
  proof (cases "op = OpCleanup")
    case True
    then show ?thesis using Cons.prems by (simp add: complete_cleanup_def)
  next
    case False
    then show ?thesis using Cons.prems failed_step [of m op] by simp
  qed
  moreover have "lm_scrub (n3_exec m op) \<noteq> ScrubStSucceeded"
    using Cons.prems scrub_step [of m op] by auto
  ultimately show ?case using Cons.IH [of "n3_exec m op"] Cons.prems by (simp add: n3_run_def)
qed (simp add: n3_run_def)

text \<open>
  A failure latches: from a failed state with a lease whose data are not scrubbed, any sequence
  of operations of the same life without a successful scrub, cleanups included, stays failed,
  keeps the lease on record and refuses I/O. So a new lease can be granted over that memory only
  after a scrub, a restart or a discarded restore.
\<close>

theorem n3_failure_latched:
  assumes "list_all n3_same_life ops" "OpScrub ScrubOk \<notin> set ops"
    and "lm_state m = Failed r" "lm_active m = Some a" "lm_scrub m \<noteq> ScrubStSucceeded"
  shows "(\<exists>r'. lm_state (n3_run m ops) = Failed r') \<and> lm_active (n3_run m ops) = Some a \<and>
    snd (begin_io (n3_run m ops)) = Err IoNotGranted"
  using failed_run [OF assms(1,2), of m] assms(3-5) by (auto simp: is_failed_def begin_io_def)

subsection \<open>Generations are never reused\<close>

text \<open>The leases and generations that the acknowledgements sent in a run name, in order.\<close>

fun n3_sent :: "lease_machine \<Rightarrow> n3_op \<Rightarrow> (lease_id \<times> nat) list" where
  "n3_sent m (OpHost (HGrant g) now) =
     (case snd (receive_grant m g now) of
        SendGrantAck ack \<Rightarrow> [(ga_lease_id ack, ga_generation ack)]
      | _ \<Rightarrow> [])"
| "n3_sent m _ = []"

fun n3_acks :: "lease_machine \<Rightarrow> n3_op list \<Rightarrow> (lease_id \<times> nat) list" where
  "n3_acks m [] = []"
| "n3_acks m (op # ops) = n3_sent m op @ n3_acks (n3_exec m op) ops"

lemma lease_step_history:
  assumes "lease_step (p, a, h) (p', a', h')" "map_of h l = Some n"
  shows "\<exists>n'. map_of h' l = Some n' \<and> n \<le> n'"
  using assms by (auto elim!: lease_stepE)

lemma history_exec:
  "n3_inv m \<Longrightarrow> map_of (lm_history m) l = Some n \<Longrightarrow>
   \<exists>n'. map_of (lm_history (n3_exec m op)) l = Some n' \<and> n \<le> n'"
  using lease_step_exec [of m op] lease_step_history unfolding lease_view_def by blast

text \<open>An acknowledgement records its generation and exceeds the one recorded before.\<close>

lemma n3_sent_history:
  assumes "(l, n) \<in> set (n3_sent m op)"
  shows "map_of (lm_history (n3_exec m op)) l = Some n"
    and "map_of (lm_history m) l = Some k \<Longrightarrow> k < n"
    and "n3_sent m op = [(l, n)]"
proof -
  obtain g now where op: "op = OpHost (HGrant g) now"
    using assms by (cases "(m, op)" rule: n3_sent.cases) auto
  obtain m1 reg where r: "register_event m (FpGrant g) = (m1, reg)" by fastforce
  have h: "lm_history m1 = lm_history m"
    using register_event_fields(4) [of m "FpGrant g"] r by simp
  have new: "reg = RegNew" "grant_refusal m1 g now = None" "l = gr_lease_id g" "n = gr_generation g"
    using assms
    by (auto simp: op receive_grant_def r Let_def fail_for_event_def
        split: event_registration.splits option.splits)
  note ok = grant_refusal_None(5) [OF new(2)]
  show "map_of (lm_history (n3_exec m op)) l = Some n"
    using new remember_generation_history(1) [OF ok] by (simp add: op receive_grant_def r)
  show "map_of (lm_history m) l = Some k \<Longrightarrow> k < n"
    using ok h new by (auto simp: validate_generation_Ok)
  show "n3_sent m op = [(l, n)]"
    using new by (simp add: op receive_grant_def r Let_def)
qed

lemma n3_acks_above:
  assumes "n3_inv m" "list_all n3_op_wf ops" "(l, n) \<in> set (n3_acks m ops)"
    and "map_of (lm_history m) l = Some k"
  shows "k < n"
  using assms
proof (induction ops arbitrary: m k)
  case (Cons op ops)
  show ?case
  proof (cases "(l, n) \<in> set (n3_sent m op)")
    case True
    then show ?thesis using n3_sent_history(2) Cons.prems(4) by blast
  next
    case False
    obtain k' where "map_of (lm_history (n3_exec m op)) l = Some k'" "k \<le> k'"
      using history_exec [OF Cons.prems(1,4)] by blast
    moreover have "n3_inv (n3_exec m op)" using Cons.prems n3_inv_exec by simp
    ultimately show ?thesis using Cons.IH [of "n3_exec m op" k'] Cons.prems False by simp
  qed
qed simp

text \<open>What was acknowledged is in the history at the end of the run, with a generation at least
  as new.\<close>

lemma n3_acks_recorded:
  assumes "n3_inv m" "list_all n3_op_wf ops" "(l, n) \<in> set (n3_acks m ops)"
  shows "\<exists>k. map_of (lm_history (n3_run m ops)) l = Some k \<and> n \<le> k"
  using assms
proof (induction ops arbitrary: m)
  case (Cons op ops)
  let ?m = "n3_exec m op"
  have i: "n3_inv ?m" using Cons.prems n3_inv_exec by simp
  show ?case
  proof (cases "(l, n) \<in> set (n3_sent m op)")
    case True
    have "\<exists>k. map_of (lm_history (foldl n3_exec ?m ops)) l = Some k \<and> n \<le> k"
    proof (rule n3.run_keeps [where P = "\<lambda>m. \<exists>k. map_of (lm_history m) l = Some k \<and> n \<le> k",
          OF _ i])
      show "\<exists>k. map_of (lm_history ?m) l = Some k \<and> n \<le> k"
        using n3_sent_history(1) [OF True] by auto
      show "list_all n3_op_wf ops" using Cons.prems by simp
    qed (use history_exec order_trans in blast)
    then show ?thesis by (simp add: n3_run_def)
  next
    case False
    then show ?thesis using Cons.IH [OF i] Cons.prems by (simp add: n3_run_def)
  qed
qed simp

lemma n3_acks_increase:
  assumes "n3_inv m" "list_all n3_op_wf ops"
  shows "sorted_wrt (\<lambda>(l, n) (l', n'). l = l' \<longrightarrow> n < n') (n3_acks m ops)"
  using assms
proof (induction ops arbitrary: m)
  case (Cons op ops)
  let ?R = "\<lambda>(l, n) (l', n'). l = l' \<longrightarrow> n < n'"
  have i: "n3_inv (n3_exec m op)" using Cons.prems n3_inv_exec by simp
  have rest: "sorted_wrt ?R (n3_acks (n3_exec m op) ops)" using Cons.IH [OF i] Cons.prems by simp
  show ?case
  proof (cases "n3_sent m op")
    case Nil
    then show ?thesis using rest by simp
  next
    case (Cons x xs)
    obtain l n where x: "x = (l, n)" by fastforce
    then have mem: "(l, n) \<in> set (n3_sent m op)" using Cons by simp
    have "n < n'" if "(l, n') \<in> set (n3_acks (n3_exec m op) ops)" for n'
      using n3_acks_above [OF i _ that n3_sent_history(1) [OF mem]] Cons.prems by simp
    then show ?thesis using rest n3_sent_history(3) [OF mem] by auto
  qed
qed simp

text \<open>The checkpoints of a machine's history, as the host would write them down.\<close>

definition checkpoints_of :: "lease_machine \<Rightarrow> generation_checkpoint list" where
  "checkpoints_of m = map (\<lambda>(l, n). \<lparr>cp_lease_id = l, cp_generation = n\<rparr>) (lm_history m)"

lemma checkpoints_of_keys: "map cp_lease_id (checkpoints_of m) = map fst (lm_history m)"
  by (simp add: checkpoints_of_def split_beta comp_def)

lemma restore_checkpoints:
  assumes "n3_inv m" "0 < e" "e < 256 ^ 8"
  obtains r m' where "rr_host e (checkpoints_of m) = Ok r"
    "restore_restart_bytes lm_new (rr_to_bytes r) = (m', Ok ())" "n3_inv m'"
    "map_of (lm_history m') = map_of (lm_history m)"
proof -
  have l: "n3_lists m" using assms(1) by (simp add: n3_inv_def)
  have "\<forall>cp \<in> set (checkpoints_of m). cp_wf cp \<and> 0 < cp_generation cp"
    using l by (auto simp: checkpoints_of_def n3_lists_def cp_wf_def)
  moreover have "length (checkpoints_of m) \<le> MAX_GENERATION_HISTORY"
    using l by (simp add: checkpoints_of_def n3_lists_def)
  moreover have "distinct (map cp_lease_id (checkpoints_of m))"
    using l by (simp add: checkpoints_of_keys n3_lists_def)
  ultimately obtain r where r: "rr_host e (checkpoints_of m) = Ok r" "rr_wf r" "rr_canonical r"
    "set (rr_checkpoints r) = set (checkpoints_of m)"
    using rr_host_Ok [OF assms(2,3)] by metis
  let ?h = "map (\<lambda>cp. (cp_lease_id cp, cp_generation cp)) (rr_checkpoints r)"
  let ?m = "lm_new\<lparr>lm_history := ?h, lm_restored_epoch := Some (rr_host_epoch r)\<rparr>"
  have v: "rr_validate r = Ok ()" using r rr_validate_iff by simp
  have "rr_from_bytes (rr_to_bytes r) = Ok r" using r v rr_from_bytes_exact by simp
  then have res: "restore_restart_bytes lm_new (rr_to_bytes r) = (?m, Ok ())"
    using v by (simp add: restore_restart_bytes_def restore_restart_record_def lm_new_def
        preflight_new_def)
  then have i: "n3_inv ?m" using n3_inv_restore_bytes [OF n3_inv_new, of "rr_to_bytes r"] by simp
  have "set ?h = set (lm_history m)"
    using r(4) by (force simp: checkpoints_of_def)
  moreover have "distinct (map fst ?h)" using i by (simp add: n3_inv_def n3_lists_def)
  moreover have "distinct (map fst (lm_history m))" using l by (simp add: n3_lists_def)
  ultimately have "map_of ?h = map_of (lm_history m)" by (metis map_of_inject_set)
  with r(1) res i show ?thesis using that by simp
qed

text \<open>
  C20. No generation of a lease is acknowledged twice, across process restarts. Within a run of
  operations the generations acknowledged for an identity strictly increase. The history that is
  left at the end always makes a valid restart record, of which the bytes restore into a new
  machine, and whatever that machine acknowledges in any later run for an identity is newer than
  everything the old one acknowledged for it.
\<close>

theorem n3_generations_never_reused:
  assumes "list_all n3_op_wf ops" "list_all n3_op_wf ops'" "0 < e" "e < 256 ^ 8"
  shows "sorted_wrt (\<lambda>(l, n) (l', n'). l = l' \<longrightarrow> n < n') (n3_acks lm_new ops) \<and>
    (\<exists>r m'. rr_host e (checkpoints_of (n3_run lm_new ops)) = Ok r \<and>
      restore_restart_bytes lm_new (rr_to_bytes r) = (m', Ok ()) \<and>
      (\<forall>(l, n) \<in> set (n3_acks lm_new ops). \<forall>(l', n') \<in> set (n3_acks m' ops').
         l = l' \<longrightarrow> n < n'))"
proof -
  let ?m = "n3_run lm_new ops"
  obtain r m' where r: "rr_host e (checkpoints_of ?m) = Ok r"
    "restore_restart_bytes lm_new (rr_to_bytes r) = (m', Ok ())" "n3_inv m'"
    "map_of (lm_history m') = map_of (lm_history ?m)"
    using restore_checkpoints [OF n3_inv_run_new [OF assms(1)] assms(3,4)] by metis
  have "n < n'" if a: "(l, n) \<in> set (n3_acks lm_new ops)" "(l, n') \<in> set (n3_acks m' ops')" for l n n'
  proof -
    obtain k where "map_of (lm_history ?m) l = Some k" "n \<le> k"
      using n3_acks_recorded [OF n3_inv_new assms(1) a(1)] by blast
    with r(4) n3_acks_above [OF r(3) assms(2) a(2), of k] show ?thesis by simp
  qed
  with r(1,2) n3_acks_increase [OF n3_inv_new assms(1)] show ?thesis
    by (intro conjI exI [of _ r] exI [of _ m']) auto
qed

subsection \<open>A complete lease\<close>

text \<open>The conditions under which a host runs one lease to its end: the events are new, there is
  room to remember them, and nothing is outstanding.\<close>

definition fresh_event :: "lease_machine \<Rightarrow> event_id \<Rightarrow> bool" where
  "fresh_event m e \<longleftrightarrow> (\<forall>seen \<in> set (lm_seen_events m). se_event_id seen \<noteq> e)"

lemma register_fresh:
  assumes "fresh_event m (fp_event_id fp)" "length (lm_seen_events m) < MAX_PROTOCOL_EVENT_HISTORY"
  shows "register_event m fp =
    (m\<lparr>lm_seen_events := lm_seen_events m @ [\<lparr>se_event_id = fp_event_id fp, se_fingerprint = fp\<rparr>]\<rparr>,
     RegNew)"
proof -
  have "find (\<lambda>seen. se_event_id seen = fp_event_id fp) (lm_seen_events m) = None"
    using assms(1) by (simp add: find_None_iff fresh_event_def)
  then show ?thesis using assms(2) by (simp add: register_event_def)
qed

lemma validate_generation_seen [simp]:
  "validate_generation (m\<lparr>lm_seen_events := xs\<rparr>) l n = validate_generation m l n"
  by (simp add: validate_generation_def cong: if_cong option.case_cong)

lemma grant_refusal_seen [simp]:
  "grant_refusal (m\<lparr>lm_seen_events := xs\<rparr>) g now = grant_refusal m g now"
  by (simp add: grant_refusal_def cong: if_cong option.case_cong)

text \<open>One lemma per leg of the lifecycle.\<close>

lemma grant_leg:
  assumes "n3_inv m" "grant_refusal m g now = None" "fresh_event m (gr_event_id g)"
    "length (lm_seen_events m) < MAX_PROTOCOL_EVENT_HISTORY"
    "length (lm_accepted_acks m) < MAX_PROTOCOL_EVENT_HISTORY" "ack_of g \<notin> set (lm_accepted_acks m)"
  obtains m1 m2 where "receive_grant m g now = (m1, SendGrantAck (ack_of g))"
    "accept_grant_ack m1 (ack_of g) = (m2, Accepted (Granted (gr_generation g)))"
    "lm_state m2 = Granted (gr_generation g)" "lm_active m2 = Some (lease_of g)"
    "lm_seen_events m2 = lm_seen_events m @ [\<lparr>se_event_id = gr_event_id g, se_fingerprint = FpGrant g\<rparr>]"
    "map_of (lm_history m2) (gr_lease_id g) = Some (gr_generation g)"
    "lm_in_flight m2 = lm_in_flight m" "lm_callbacks m2 = lm_callbacks m"
    "lm_unknown_in_flight m2 = lm_unknown_in_flight m"
    "lm_completed_revokes m2 = lm_completed_revokes m"
proof -
  let ?m0 = "m\<lparr>lm_seen_events := lm_seen_events m @ [\<lparr>se_event_id = gr_event_id g, se_fingerprint = FpGrant g\<rparr>]\<rparr>"
  let ?r = "remember_generation ?m0 (gr_lease_id g) (gr_generation g)"
  let ?m1 = "?r\<lparr>lm_state := Negotiating (gr_generation g), lm_pending_grant := Some g\<rparr>"
  let ?m2 = "?m1\<lparr>lm_accepted_acks := lm_accepted_acks m @ [ack_of g], lm_active := Some (lease_of g),
      lm_pending_grant := None, lm_state := Granted (gr_generation g)\<rparr>"
  have "register_event m (FpGrant g) = (?m0, RegNew)"
    using register_fresh [of m "FpGrant g"] assms(3,4) by simp
  then have 1: "receive_grant m g now = (?m1, SendGrantAck (ack_of g))"
    using assms(2) by (simp add: receive_grant_def Let_def ack_of_def)
  have 2: "accept_grant_ack ?m1 (ack_of g) = (?m2, Accepted (Granted (gr_generation g)))"
    using assms(5,6) by (simp add: accept_grant_ack_def Let_def ack_of_def lease_of_def)
  have "validate_generation ?m0 (gr_lease_id g) (gr_generation g) = Ok ()"
    using grant_refusal_None(5) [OF assms(2)] by simp
  from remember_generation_history(1) [OF this]
  have "map_of (lm_history ?m2) (gr_lease_id g) = Some (gr_generation g)" by simp
  moreover have "lm_in_flight ?r = lm_in_flight m" "lm_callbacks ?r = lm_callbacks m"
    "lm_unknown_in_flight ?r = lm_unknown_in_flight m"
    "lm_completed_revokes ?r = lm_completed_revokes m"
    by (simp_all add: remember_generation_def)
  ultimately show ?thesis using that [OF 1 2] by simp
qed

lemma drain_leg:
  assumes "lm_state m = Granted n" "lm_active m = Some a" "na_generation a = n"
    "fresh_event m e" "length (lm_seen_events m) < MAX_PROTOCOL_EVENT_HISTORY"
    "lm_in_flight m = 0" "lm_callbacks m = 0" "\<not> lm_unknown_in_flight m" "now < deadline"
  obtains m1 m2 d where "receive_revoke m (revoke_host (na_lease_id a) n e deadline) = (m1, BeginDrain)"
    "snd (begin_io m1) = Err IoNotGranted" "n3_drain m1 now = (m1, Blocked ScrubPending)"
    "n3_drain (fst (scrub_guest_data m1 ScrubOk)) now = (m2, SendDrainAck d)"
    "lm_state m2 = Drained n"
    "lm_active m2 = Some (a\<lparr>na_revoke := Some (revoke_host (na_lease_id a) n e deadline)\<rparr>)"
    "lm_scrub m2 = ScrubStSucceeded" "lm_history m2 = lm_history m"
    "lm_completed_revokes m2 = lm_completed_revokes m"
proof -
  let ?rv = "revoke_host (na_lease_id a) n e deadline"
  let ?m0 = "m\<lparr>lm_seen_events := lm_seen_events m @ [\<lparr>se_event_id = e, se_fingerprint = FpRevoke ?rv\<rparr>]\<rparr>"
  let ?m1 = "?m0\<lparr>lm_active := Some (a\<lparr>na_revoke := Some ?rv\<rparr>), lm_state := Quiescing n,
      lm_scrub := ScrubStPending, lm_sent_drain_ack := False\<rparr>"
  have "register_event m (FpRevoke ?rv) = (?m0, RegNew)"
    using register_fresh [of m "FpRevoke ?rv"] assms(4,5) by (simp add: revoke_host_def)
  then have 1: "receive_revoke m ?rv = (?m1, BeginDrain)"
    using assms by (simp add: receive_revoke_def Let_def revoke_host_def)
  let ?m2 = "?m1\<lparr>lm_scrub := ScrubStSucceeded, lm_sent_drain_ack := True, lm_state := Drained n\<rparr>"
  let ?d = "\<lparr>da_lease_id = na_lease_id a, da_generation = n, da_event_id = e, da_in_flight = 0,
             da_callbacks_pending = 0, da_scrubbed = True\<rparr>"
  have 2: "n3_drain (fst (scrub_guest_data ?m1 ScrubOk)) now = (?m2, SendDrainAck ?d)"
    using assms by (simp add: n3_drain_def scrub_guest_data_def Let_def revoke_host_def)
  show ?thesis
    by (rule that [OF 1 _ _ 2])
      (use assms in \<open>simp_all add: begin_io_def n3_drain_def revoke_host_def Let_def\<close>)
qed

text \<open>
  C22. A lease runs to its end and the machine is ready for the next one. From every reachable
  state without a lease, a grant that passes the checks is acknowledged; when the host accepts the
  acknowledgement, I/O is admitted; a revoke of that lease stops I/O, the drain waits for the scrub,
  and after the scrub is acknowledged; the host's completion and the cleanup lead back to the state
  without a lease. There the generation just used is refused as stale and its successor is valid.
\<close>

theorem n3_lease_completes:
  assumes "list_all n3_op_wf ops" "m = n3_run lm_new ops" "grant_refusal m g now = None"
    and "fresh_event m (gr_event_id g)" "fresh_event m e" "gr_event_id g \<noteq> e"
    and "length (lm_seen_events m) + 2 \<le> MAX_PROTOCOL_EVENT_HISTORY"
    and "length (lm_accepted_acks m) < MAX_PROTOCOL_EVENT_HISTORY" "ack_of g \<notin> set (lm_accepted_acks m)"
    and "length (lm_completed_revokes m) < MAX_PROTOCOL_EVENT_HISTORY"
    and "c = \<lparr>rc_lease_id = gr_lease_id g, rc_generation = gr_generation g, rc_event_id = e\<rparr>"
    and "c \<notin> set (lm_completed_revokes m)"
    and "lm_in_flight m = 0" "lm_callbacks m = 0" "\<not> lm_unknown_in_flight m" "now' < deadline"
  shows "\<exists>m1 m2 m3 m4 m5 d.
    receive_grant m g now = (m1, SendGrantAck (ack_of g)) \<and>
    accept_grant_ack m1 (ack_of g) = (m2, Accepted (Granted (gr_generation g))) \<and>
    snd (begin_io m2) = Ok () \<and>
    receive_revoke m2 (revoke_host (gr_lease_id g) (gr_generation g) e deadline) = (m3, BeginDrain) \<and>
    snd (begin_io m3) = Err IoNotGranted \<and> n3_drain m3 now' = (m3, Blocked ScrubPending) \<and>
    n3_drain (fst (scrub_guest_data m3 ScrubOk)) now' = (m4, SendDrainAck d) \<and>
    confirm_revoke m4 c = (m5, DecRevoked) \<and> lm_state (complete_cleanup m5) = Absent \<and>
    validate_generation (complete_cleanup m5) (gr_lease_id g) (gr_generation g) =
      Err (StateTransition (StaleGeneration (gr_generation g) (gr_generation g))) \<and>
    (gr_generation g < u64_max \<longrightarrow>
      validate_generation (complete_cleanup m5) (gr_lease_id g) (Suc (gr_generation g)) = Ok ())"
proof -
  have i: "n3_inv m" using n3_inv_run_new assms(1,2) by simp
  have "length (lm_seen_events m) < MAX_PROTOCOL_EVENT_HISTORY" using assms(7) by simp
  then obtain m1 m2 where g: "receive_grant m g now = (m1, SendGrantAck (ack_of g))"
    "accept_grant_ack m1 (ack_of g) = (m2, Accepted (Granted (gr_generation g)))"
    "lm_state m2 = Granted (gr_generation g)" "lm_active m2 = Some (lease_of g)"
    "lm_seen_events m2 = lm_seen_events m @ [\<lparr>se_event_id = gr_event_id g, se_fingerprint = FpGrant g\<rparr>]"
    "map_of (lm_history m2) (gr_lease_id g) = Some (gr_generation g)"
    "lm_in_flight m2 = 0" "lm_callbacks m2 = 0" "\<not> lm_unknown_in_flight m2"
    "lm_completed_revokes m2 = lm_completed_revokes m"
    using grant_leg [OF i assms(3,4) _ assms(8,9)] assms(13-15) by metis
  have "fresh_event m2 e" "length (lm_seen_events m2) < MAX_PROTOCOL_EVENT_HISTORY"
    using g(5) assms(5-7) by (auto simp: fresh_event_def)
  then obtain m3 m4 d where d:
    "receive_revoke m2 (revoke_host (gr_lease_id g) (gr_generation g) e deadline) = (m3, BeginDrain)"
    "snd (begin_io m3) = Err IoNotGranted" "n3_drain m3 now' = (m3, Blocked ScrubPending)"
    "n3_drain (fst (scrub_guest_data m3 ScrubOk)) now' = (m4, SendDrainAck d)"
    "lm_state m4 = Drained (gr_generation g)"
    "lm_active m4 = Some (lease_of g\<lparr>na_revoke :=
       Some (revoke_host (gr_lease_id g) (gr_generation g) e deadline)\<rparr>)"
    "lm_scrub m4 = ScrubStSucceeded" "lm_history m4 = lm_history m2"
    "lm_completed_revokes m4 = lm_completed_revokes m2"
    using drain_leg [OF g(3,4), of e now' deadline] g(7-9) assms(16)
    by (auto simp: lease_of_def)
  let ?m5 = "m4\<lparr>lm_completed_revokes := lm_completed_revokes m4 @ [c], lm_state := Revoked\<rparr>"
  have io: "snd (begin_io m2) = Ok ()"
    using g(3,4,7) by (simp add: begin_io_def lease_of_def MAX_IN_FLIGHT_def)
  have c: "confirm_revoke m4 c = (?m5, DecRevoked)"
    using d(5,6,9) g(10) assms(10-12)
    by (simp add: confirm_revoke_def Let_def lease_of_def revoke_host_def)
  have st: "lm_state (complete_cleanup ?m5) = Absent" "lm_history (complete_cleanup ?m5) = lm_history m2"
    using d(6-8) by (simp_all add: complete_cleanup_def)
  have gen: "validate_generation (complete_cleanup ?m5) (gr_lease_id g) (gr_generation g) =
      Err (StateTransition (StaleGeneration (gr_generation g) (gr_generation g)))"
    "gr_generation g < u64_max \<Longrightarrow>
      validate_generation (complete_cleanup ?m5) (gr_lease_id g) (Suc (gr_generation g)) = Ok ()"
    using st(2) g(6)
    by (simp_all add: validate_generation_def find_key_map_of saturating_add_def)
  show ?thesis using g(1,2) io d(1-4) c st(1) gen by blast
qed

subsection \<open>A concrete lease\<close>

definition demo_obs :: host_observation where
  "demo_obs = ho_host 1 8192 0 8192 0 100 (OpaqueId [1])"

definition demo_grant :: grant where
  "demo_grant = grant_host (OpaqueId [7]) 1 (OpaqueId [2]) 4096 1 0 50"

definition demo_ops :: "n3_op list" where
  "demo_ops = [OpObserve demo_obs 0, OpHost (HGrant demo_grant) 1,
               OpHost (HGrantAckAccepted (ack_of demo_grant)) 1]"

definition demo_revoke :: revoke where
  "demo_revoke = revoke_host (OpaqueId [7]) 1 (OpaqueId [3]) 60"

definition demo_observed :: lease_machine where
  "demo_observed = lm_new\<lparr>lm_preflight := \<lparr>pm_state = Observing, pm_last_observation = Some demo_obs,
     pm_observation_count = 1, pm_refusal_count = 0\<rparr>\<rparr>"

definition demo_granted :: lease_machine where
  "demo_granted = demo_observed\<lparr>
     lm_state := Granted 1, lm_active := Some (lease_of demo_grant),
     lm_seen_events := [\<lparr>se_event_id = OpaqueId [2], se_fingerprint = FpGrant demo_grant\<rparr>],
     lm_accepted_acks := [ack_of demo_grant], lm_history := [(OpaqueId [7], 1)]\<rparr>"

definition demo_quiescing :: lease_machine where
  "demo_quiescing = demo_granted\<lparr>
     lm_state := Quiescing 1, lm_active := Some (lease_of demo_grant\<lparr>na_revoke := Some demo_revoke\<rparr>),
     lm_seen_events := lm_seen_events demo_granted @
       [\<lparr>se_event_id = OpaqueId [3], se_fingerprint = FpRevoke demo_revoke\<rparr>]\<rparr>"

lemma demo_ops_wf: "list_all n3_op_wf demo_ops"
  by (simp add: demo_ops_def demo_grant_def grant_host_def opaque_id_wf_def MAX_OPAQUE_ID_BYTES_def)

lemma demo_validate: "now \<le> 100 \<Longrightarrow> ho_validate demo_obs now = Ok ()"
  by (simp add: ho_validate_def demo_obs_def ho_host_def host_adapter_bytes_def valid_counter_def
      is_multiple_of_def MAX_CAPACITY_BYTES_def CAPACITY_ALIGNMENT_BYTES_def
      MAX_OBSERVATION_AGE_def MAX_OBSERVATION_EVENTS_def)

lemma demo_observe: "n3_run lm_new [OpObserve demo_obs 0] = demo_observed"
  using demo_validate [of 0]
  by (simp add: n3_run_def lm_observe_def pm_observe_def pm_against_previous_def lm_new_def
      preflight_new_def demo_observed_def has_offline_signal_def has_pressure_def
      saturating_add_def u64_max_def)
    (simp add: demo_obs_def ho_host_def pd_observed_def)

lemma demo_grant_passes: "grant_refusal demo_observed demo_grant 1 = None"
  using demo_validate [of 1]
  by (simp add: grant_refusal_def demo_observed_def lm_new_def demo_grant_def grant_host_def
      N3_SCHEMA_VERSION_def valid_capacity_def valid_counter_def validate_generation_def
      is_multiple_of_def MAX_CAPACITY_BYTES_def CAPACITY_ALIGNMENT_BYTES_def
      MAX_GENERATION_HISTORY_def)
    (simp add: demo_obs_def ho_host_def)

lemma demo_observed_fields [simp]:
  "lm_seen_events demo_observed = []" "lm_accepted_acks demo_observed = []"
  "lm_history demo_observed = []" "lm_completed_revokes demo_observed = []"
  "lm_state demo_observed = Absent" "lm_pending_grant demo_observed = None"
  "lm_in_flight demo_observed = 0" "lm_callbacks demo_observed = 0"
  "\<not> lm_unknown_in_flight demo_observed"
  by (simp_all add: demo_observed_def lm_new_def)

lemma demo_grant_fields [simp]:
  "gr_lease_id demo_grant = OpaqueId [7]" "gr_generation demo_grant = 1"
  "gr_event_id demo_grant = OpaqueId [2]"
  by (simp_all add: demo_grant_def grant_host_def)

lemma demo_run: "n3_run lm_new demo_ops = demo_granted"
proof -
  have "n3_run lm_new demo_ops = n3_run demo_observed
      [OpHost (HGrant demo_grant) 1, OpHost (HGrantAckAccepted (ack_of demo_grant)) 1]"
    using demo_observe by (simp add: n3_run_def demo_ops_def)
  also have "\<dots> = demo_granted"
    using demo_grant_passes
    by (simp add: n3_run_def receive_grant_def register_event_def
        demo_granted_def accept_grant_ack_def ack_of_def lease_of_def remember_generation_def
        MAX_PROTOCOL_EVENT_HISTORY_def MAX_GENERATION_HISTORY_def Let_def)
  finally show ?thesis .
qed

lemma demo_begin_io: "begin_io demo_granted = (demo_granted\<lparr>lm_in_flight := 1\<rparr>, Ok ())"
  by (simp add: begin_io_def demo_granted_def demo_observed_def lm_new_def lease_of_def demo_grant_def
      grant_host_def MAX_IN_FLIGHT_def)

lemma demo_revoked: "receive_revoke demo_granted demo_revoke = (demo_quiescing, BeginDrain)"
  by (simp add: receive_revoke_def register_event_def demo_granted_def demo_observed_def lm_new_def
      demo_revoke_def revoke_host_def demo_quiescing_def lease_of_def demo_grant_def grant_host_def
      MAX_PROTOCOL_EVENT_HISTORY_def Let_def)

theorem n3_io_only_granted_witness:
  "list_all n3_op_wf demo_ops \<and>
   begin_io (n3_run lm_new demo_ops) = (demo_granted\<lparr>lm_in_flight := 1\<rparr>, Ok ()) \<and>
   (\<exists>a g. lm_active demo_granted = Some a \<and> na_revoke a = None \<and> seen_grant demo_granted g \<and>
     na_capacity_bytes a = gr_capacity_bytes g)"
  using n3_io_only_granted [OF demo_ops_wf, of "demo_granted\<lparr>lm_in_flight := 1\<rparr>"]
    demo_ops_wf demo_begin_io unfolding demo_run by blast

text \<open>After a restart the next generation of the same identity is granted.\<close>

definition demo_grant2 :: grant where
  "demo_grant2 = grant_host (OpaqueId [7]) 2 (OpaqueId [4]) 4096 1 0 50"

definition demo_ops2 :: "n3_op list" where
  "demo_ops2 = [OpRestart, OpObserve demo_obs 0, OpHost (HGrant demo_grant2) 1,
                OpHost (HGrantAckAccepted (ack_of demo_grant2)) 1]"

lemma demo_ops2_wf: "list_all n3_op_wf demo_ops2"
  by (simp add: demo_ops2_def demo_grant2_def grant_host_def opaque_id_wf_def
      MAX_OPAQUE_ID_BYTES_def)

definition demo_observed2 :: lease_machine where
  "demo_observed2 = demo_observed\<lparr>lm_history := [(OpaqueId [7], 1)]\<rparr>"

lemma demo_observe2: "n3_run demo_quiescing [OpRestart, OpObserve demo_obs 0] = demo_observed2"
  using demo_validate [of 0]
  by (simp add: n3_run_def n3_restart_def demo_quiescing_def demo_granted_def demo_observed_def
      demo_observed2_def lm_observe_def pm_observe_def pm_against_previous_def lm_new_def
      preflight_new_def has_offline_signal_def has_pressure_def saturating_add_def u64_max_def)
    (simp add: demo_obs_def ho_host_def pd_observed_def)

lemma demo_grant2_passes: "grant_refusal demo_observed2 demo_grant2 1 = None"
  using demo_validate [of 1]
  by (simp add: grant_refusal_def demo_observed2_def demo_observed_def lm_new_def demo_grant2_def
      grant_host_def N3_SCHEMA_VERSION_def valid_capacity_def valid_counter_def
      validate_generation_def is_multiple_of_def MAX_CAPACITY_BYTES_def
      CAPACITY_ALIGNMENT_BYTES_def MAX_GENERATION_HISTORY_def saturating_add_def u64_max_def)
    (simp add: demo_obs_def ho_host_def)

definition demo_granted2 :: lease_machine where
  "demo_granted2 = demo_observed2\<lparr>
     lm_state := Granted 2, lm_active := Some (lease_of demo_grant2),
     lm_seen_events := [\<lparr>se_event_id = OpaqueId [4], se_fingerprint = FpGrant demo_grant2\<rparr>],
     lm_accepted_acks := [ack_of demo_grant2], lm_history := [(OpaqueId [7], 2)]\<rparr>"

lemma demo_observed2_fields [simp]:
  "lm_seen_events demo_observed2 = []" "lm_accepted_acks demo_observed2 = []"
  "lm_history demo_observed2 = [(OpaqueId [7], 1)]" "lm_state demo_observed2 = Absent"
  "lm_pending_grant demo_observed2 = None" "lm_in_flight demo_observed2 = 0"
  by (simp_all add: demo_observed2_def)

lemma demo_grant2_fields [simp]:
  "gr_lease_id demo_grant2 = OpaqueId [7]" "gr_generation demo_grant2 = 2"
  "gr_event_id demo_grant2 = OpaqueId [4]"
  by (simp_all add: demo_grant2_def grant_host_def)

lemma demo_run2: "n3_run demo_quiescing demo_ops2 = demo_granted2"
proof -
  have "n3_run demo_quiescing demo_ops2 = n3_run demo_observed2
      [OpHost (HGrant demo_grant2) 1, OpHost (HGrantAckAccepted (ack_of demo_grant2)) 1]"
    using demo_observe2 by (simp add: n3_run_def demo_ops2_def)
  also have "\<dots> = demo_granted2"
    using demo_grant2_passes
    by (simp add: n3_run_def receive_grant_def register_event_def
        demo_granted2_def accept_grant_ack_def ack_of_def lease_of_def remember_generation_def
        MAX_PROTOCOL_EVENT_HISTORY_def MAX_GENERATION_HISTORY_def Let_def)
  finally show ?thesis .
qed

lemma demo_begin_io2: "begin_io demo_granted2 = (demo_granted2\<lparr>lm_in_flight := 1\<rparr>, Ok ())"
  by (simp add: begin_io_def demo_granted2_def lease_of_def MAX_IN_FLIGHT_def)

theorem n3_revoked_generation_dead_witness:
  "receive_revoke (n3_run lm_new demo_ops) demo_revoke = (demo_quiescing, BeginDrain) \<and>
   begin_io (n3_run demo_quiescing demo_ops2) = (demo_granted2\<lparr>lm_in_flight := 1\<rparr>, Ok ()) \<and>
   rv_generation demo_revoke < na_generation (lease_of demo_grant2)"
  using n3_revoked_generation_dead [OF demo_ops_wf, of demo_revoke demo_quiescing demo_ops2
      "demo_granted2\<lparr>lm_in_flight := 1\<rparr>" "lease_of demo_grant2"]
    demo_ops2_wf demo_begin_io2 demo_revoked unfolding demo_run demo_run2
  by (simp add: demo_granted2_def lease_of_def demo_revoke_def revoke_host_def)

lemma demo_drained:
  "n3_drain (n3_run demo_quiescing [OpScrub ScrubOk]) 10 =
    (demo_quiescing\<lparr>lm_scrub := ScrubStSucceeded, lm_sent_drain_ack := True, lm_state := Drained 1\<rparr>,
     SendDrainAck \<lparr>da_lease_id = OpaqueId [7], da_generation = 1, da_event_id = OpaqueId [3],
       da_in_flight = 0, da_callbacks_pending = 0, da_scrubbed = True\<rparr>)"
  by (simp add: n3_run_def scrub_guest_data_def n3_drain_def demo_quiescing_def demo_granted_def
      lease_of_def demo_revoke_def revoke_host_def Let_def)

theorem n3_drain_ack_safe_witness:
  "receive_revoke demo_granted demo_revoke = (demo_quiescing, BeginDrain) \<and>
   (\<exists>a rv. lm_active (n3_run demo_quiescing [OpScrub ScrubOk]) = Some a \<and> na_revoke a = Some rv \<and>
     10 < rv_deadline rv)"
  using n3_drain_ack_safe [OF demo_revoked demo_drained] demo_revoked by blast

theorem n3_failure_latched_witness:
  "snd (begin_io (n3_run (demo_granted\<lparr>lm_state := Failed Reset\<rparr>) [OpCleanup, OpBeginIo])) =
   Err IoNotGranted"
  using n3_failure_latched [of "[OpCleanup, OpBeginIo]" "demo_granted\<lparr>lm_state := Failed Reset\<rparr>"
      Reset "lease_of demo_grant"]
  by (simp add: demo_granted_def demo_observed_def lm_new_def)

theorem n3_generations_never_reused_witness:
  "\<exists>r m'. rr_host 1 (checkpoints_of demo_granted) = Ok r \<and>
     restore_restart_bytes lm_new (rr_to_bytes r) = (m', Ok ())"
  using n3_generations_never_reused [OF demo_ops_wf demo_ops2_wf, of 1] unfolding demo_run by auto

theorem n3_lease_completes_witness:
  "\<exists>m1 m2. receive_grant demo_observed demo_grant 1 = (m1, SendGrantAck (ack_of demo_grant)) \<and>
     accept_grant_ack m1 (ack_of demo_grant) = (m2, Accepted (Granted 1)) \<and>
     snd (begin_io m2) = Ok ()"
  using n3_lease_completes [of "[OpObserve demo_obs 0]" demo_observed demo_grant 1 "OpaqueId [3]"
      "\<lparr>rc_lease_id = OpaqueId [7], rc_generation = 1, rc_event_id = OpaqueId [3]\<rparr>" 10 60]
    demo_observe demo_grant_passes
  by (simp add: fresh_event_def MAX_PROTOCOL_EVENT_HISTORY_def) blast

end
