(* ===== verification/Byte_Store.thy ===== *)
theory Byte_Store
  imports Wire_Bytes
begin

text \<open>
  Byte arrays addressed by offset, the data every storage component of the program works on:
  \<open>read_range\<close> is the read of a range, \<open>write_range\<close> the write, and two arrays \<open>agree_outside\<close> a range when a
  write to that range is all that may distinguish them.
\<close>

named_theorems store_simps \<open>lengths and elements of read and written ranges\<close>

definition read_range :: "nat \<Rightarrow> nat \<Rightarrow> 'a list \<Rightarrow> 'a list" where
  "read_range off n xs = take n (drop off xs)"

definition write_range :: "nat \<Rightarrow> 'a list \<Rightarrow> 'a list \<Rightarrow> 'a list" where
  "write_range off bs xs = take off xs @ bs @ drop (off + length bs) xs"

definition agree_outside :: "nat \<Rightarrow> nat \<Rightarrow> 'a list \<Rightarrow> 'a list \<Rightarrow> bool" where
  "agree_outside off n xs ys \<longleftrightarrow>
     length xs = length ys \<and> (\<forall>i < length xs. i < off \<or> off + n \<le> i \<longrightarrow> xs ! i = ys ! i)"

lemma length_read_range [store_simps]: "off + n \<le> length xs \<Longrightarrow> length (read_range off n xs) = n"
  by (simp add: read_range_def)

lemma nth_read_range [store_simps]: "off + n \<le> length xs \<Longrightarrow> i < n \<Longrightarrow> read_range off n xs ! i = xs ! (off + i)"
  by (simp add: read_range_def)

lemma length_write_range [store_simps]:
  "off + length bs \<le> length xs \<Longrightarrow> length (write_range off bs xs) = length xs"
  by (simp add: write_range_def)

lemma nth_write_range [store_simps]:
  "off + length bs \<le> length xs \<Longrightarrow> i < length xs \<Longrightarrow>
   write_range off bs xs ! i = (if off \<le> i \<and> i < off + length bs then bs ! (i - off) else xs ! i)"
  by (auto simp: write_range_def nth_append min_def)

lemma read_range_0 [simp]: "read_range off 0 xs = []"
  by (simp add: read_range_def)

lemma write_range_Nil [simp]: "write_range off [] xs = xs"
  by (simp add: write_range_def)

lemma read_range_whole: "read_range 0 (length xs) xs = xs"
  by (simp add: read_range_def)

lemma read_range_add: "read_range off (n + k) xs = read_range off n xs @ read_range (off + n) k xs"
  unfolding read_range_def take_add drop_drop by (simp only: add.commute)

lemma read_range_read_range: "j + k \<le> n \<Longrightarrow> read_range j k (read_range off n xs) = read_range (off + j) k xs"
  by (simp add: read_range_def drop_take add.commute min_def)

lemma read_range_replicate: "off + n \<le> k \<Longrightarrow> read_range off n (replicate k x) = replicate n x"
  by (simp add: read_range_def)

lemma read_range_eqI:
  assumes "off + n \<le> length xs" "off + n \<le> length ys" "\<And>i. off \<le> i \<Longrightarrow> i < off + n \<Longrightarrow> xs ! i = ys ! i"
  shows "read_range off n xs = read_range off n ys"
  by (rule nth_equalityI) (use assms in \<open>auto simp: store_simps\<close>)

lemma read_range_write_range_same:
  "off + length bs \<le> length xs \<Longrightarrow> read_range off (length bs) (write_range off bs xs) = bs"
  by (simp add: read_range_def write_range_def min_def)

lemma read_range_write_range_disjoint:
  assumes "off + length bs \<le> length xs" "k + n \<le> length xs" "k + n \<le> off \<or> off + length bs \<le> k"
  shows "read_range k n (write_range off bs xs) = read_range k n xs"
  by (rule read_range_eqI) (use assms in \<open>auto simp: store_simps\<close>)

lemma read_range_write_range_inside:
  assumes "off + length bs \<le> length xs" "off \<le> k" "k + n \<le> off + length bs"
  shows "read_range k n (write_range off bs xs) = read_range (k - off) n bs"
proof (rule nth_equalityI)
  fix i assume "i < length (read_range k n (write_range off bs xs))"
  then have "i < n" using assms by (simp add: store_simps)
  with assms show "read_range k n (write_range off bs xs) ! i = read_range (k - off) n bs ! i"
    by (simp add: store_simps)
qed (use assms in \<open>simp add: store_simps\<close>)

lemma write_range_append:
  assumes "off + length as + length bs \<le> length xs"
  shows "write_range (off + length as) bs (write_range off as xs) = write_range off (as @ bs) xs"
proof (rule nth_equalityI)
  fix i assume "i < length (write_range (off + length as) bs (write_range off as xs))"
  then have "i < length xs" using assms by (simp add: store_simps)
  then show "write_range (off + length as) bs (write_range off as xs) ! i = write_range off (as @ bs) xs ! i"
    using assms by (auto simp: store_simps nth_append)
qed (use assms in \<open>simp add: store_simps\<close>)

lemma agree_outside_refl [simp]: "agree_outside off n xs xs"
  by (simp add: agree_outside_def)

lemma agree_outside_trans:
  "agree_outside off n xs ys \<Longrightarrow> agree_outside off n ys zs \<Longrightarrow> agree_outside off n xs zs"
  by (auto simp: agree_outside_def)

lemma agree_outside_mono:
  "agree_outside off n xs ys \<Longrightarrow> off' \<le> off \<Longrightarrow> off + n \<le> off' + n' \<Longrightarrow> agree_outside off' n' xs ys"
  by (auto simp: agree_outside_def)

lemma agree_outside_write_range:
  "off + length bs \<le> length xs \<Longrightarrow> agree_outside off (length bs) xs (write_range off bs xs)"
  by (auto simp: agree_outside_def store_simps)

lemma agree_outside_read_range:
  assumes "agree_outside off n xs ys" "k + l \<le> length xs" "k + l \<le> off \<or> off + n \<le> k"
  shows "read_range k l ys = read_range k l xs"
  by (rule read_range_eqI) (use assms in \<open>auto simp: agree_outside_def\<close>)

text \<open>Arrays made of blocks of equal length.\<close>

lemma length_concat_blocks: "\<forall>x \<in> set xs. length x = c \<Longrightarrow> length (concat xs) = length xs * c"
  by (induction xs) auto

lemma concat_blocks:
  assumes "\<forall>x \<in> set xs. length x = c" "i < length xs"
  shows "concat xs = concat (take i xs) @ xs ! i @ concat (drop (Suc i) xs)"
    and "length (concat (take i xs)) = i * c"
proof -
  have "concat xs = concat (take i xs @ xs ! i # drop (Suc i) xs)"
    using id_take_nth_drop [OF assms(2)] by simp
  then show "concat xs = concat (take i xs) @ xs ! i @ concat (drop (Suc i) xs)" by simp
  have "\<forall>x \<in> set (take i xs). length x = c" using assms(1) by (auto dest: in_set_takeD)
  from length_concat_blocks [OF this] show "length (concat (take i xs)) = i * c"
    using assms(2) by simp
qed

lemma read_range_concat:
  assumes "\<forall>x \<in> set xs. length x = c" "i < length xs" "rel + k \<le> c"
  shows "read_range (i * c + rel) k (concat xs) = read_range rel k (xs ! i)"
proof -
  have "length (xs ! i) = c" using assms by simp
  then show ?thesis
    using concat_blocks [OF assms(1,2)] assms(3)
    by (simp add: read_range_def)
qed

lemma write_range_concat:
  assumes "\<forall>x \<in> set xs. length x = c" "i < length xs" "rel + length bs \<le> c"
  shows "concat (xs[i := write_range rel bs (xs ! i)]) = write_range (i * c + rel) bs (concat xs)"
proof -
  have "length (xs ! i) = c" using assms by simp
  moreover have "concat (xs[i := y]) = concat (take i xs) @ y @ concat (drop (Suc i) xs)" for y
    using assms(2) by (simp add: upd_conv_take_nth_drop)
  ultimately show ?thesis
    using concat_blocks [OF assms(1,2)] assms(3)
    by (simp add: write_range_def)
qed

lemma read_range_take: "off + n \<le> k \<Longrightarrow> read_range off n (take k xs) = read_range off n xs"
  by (simp add: read_range_def drop_take min_def)

lemma write_range_take:
  assumes "off + length bs \<le> k" "off + length bs \<le> length xs"
  shows "write_range off bs (take k xs) = take k (write_range off bs xs)"
  by (rule nth_equalityI) (use assms in \<open>auto simp: store_simps\<close>)

lemma agree_outside_take: "agree_outside off n xs ys \<Longrightarrow> agree_outside off n (take k xs) (take k ys)"
  by (auto simp: agree_outside_def)

lemma agree_outside_block:
  assumes "\<forall>x \<in> set xs. length x = c" "i < length xs" "agree_outside rel n (xs ! i) y"
  shows "agree_outside (i * c + rel) n (concat xs) (concat (xs[i := y]))"
proof -
  have y: "length y = c" using assms by (simp add: agree_outside_def)
  have e: "concat (xs[i := y]) = concat (take i xs) @ y @ concat (drop (Suc i) xs)"
    using assms(2) by (simp add: upd_conv_take_nth_drop)
  show ?thesis
    unfolding e concat_blocks(1) [OF assms(1,2)]
    using assms(3) concat_blocks(2) [OF assms(1,2)] y
    by (auto simp: agree_outside_def nth_append)
qed

end
