(* ===== verification/Vram.thy ===== *)
theory Vram
  imports Byte_Store Rust_Text
begin

text \<open>
  The VRAM abstraction of \<^verbatim>\<open>crates/ramshared-vram/src/lib.rs\<close> and its implementations that run no
  foreign code of their own: the CUDA region \<open>DeviceMem\<close> over the driver's functions
  (\<^verbatim>\<open>crates/ramshared-cuda/src/driver.rs\<close>) and the daemon's stand-in for a missing GPU. The traits
  are records of operations; what an implementation promises is the locale \<open>vram_memory\<close>, and the
  driver's documented behaviour is the locale \<open>cuda_driver\<close>.
\<close>

subsection \<open>Errors\<close>

datatype vram_error =
    VrProvider string
  | VrOutOfRange nat nat nat
  | VrOutOfMemory
  | VrInvalidAlignment
  | VrBusy

subsection \<open>The traits\<close>

text \<open>\<open>VramMemory\<close>: a read fills a buffer of the requested length.\<close>

record 'm mem_ops =
  mo_len :: "'m \<Rightarrow> nat"
  mo_zero :: "'m \<Rightarrow> 'm \<times> (unit, vram_error) result"
  mo_read :: "'m \<Rightarrow> nat \<Rightarrow> nat \<Rightarrow> (byte list, vram_error) result"
  mo_write :: "'m \<Rightarrow> nat \<Rightarrow> byte list \<Rightarrow> 'm \<times> (unit, vram_error) result"

definition mo_is_empty :: "'m mem_ops \<Rightarrow> 'm \<Rightarrow> bool" where
  "mo_is_empty ops m \<longleftrightarrow> mo_len ops m = 0"

text \<open>\<open>VramProvider\<close>; the driver's own state is threaded through.\<close>

record ('p, 'm) prov_ops =
  po_alloc :: "'p \<Rightarrow> nat \<Rightarrow> 'p \<times> ('m, vram_error) result"
  po_mem_info :: "'p \<Rightarrow> 'p \<times> (nat \<times> nat, vram_error) result"

text \<open>
  What a region promises: it has a fixed length, reads return its contents, a successful write
  replaces exactly the given range, a failed one changes at most that range, and a successful wipe
  leaves zeroes.
\<close>

locale vram_memory =
  fixes ops :: "'m mem_ops"
    and contents :: "'m \<Rightarrow> byte list"
    and wf :: "'m \<Rightarrow> bool"
  assumes mem_len: "wf m \<Longrightarrow> mo_len ops m = length (contents m)"
    and mem_zero: "wf m \<Longrightarrow> mo_zero ops m = (m', r) \<Longrightarrow>
      wf m' \<and> length (contents m') = length (contents m) \<and>
      (r = Ok () \<longrightarrow> contents m' = replicate (length (contents m)) 0)"
    and mem_read: "wf m \<Longrightarrow> mo_read ops m off n = Ok bs \<Longrightarrow>
      off + n \<le> length (contents m) \<and> bs = read_range off n (contents m)"
    and mem_write: "wf m \<Longrightarrow> mo_write ops m off bs = (m', r) \<Longrightarrow>
      wf m' \<and> agree_outside off (length bs) (contents m) (contents m') \<and>
      (r = Ok () \<longrightarrow> off + length bs \<le> length (contents m) \<and>
         contents m' = write_range off bs (contents m))"
begin

lemma mem_write_length:
  "wf m \<Longrightarrow> mo_write ops m off bs = (m', r) \<Longrightarrow> length (contents m') = length (contents m)"
  using mem_write by (metis agree_outside_def)

lemma mem_read_length: "wf m \<Longrightarrow> mo_read ops m off n = Ok bs \<Longrightarrow> length bs = n"
  using mem_read [of m off n bs] by (simp add: store_simps)

end

text \<open>A provider hands out well-formed regions of the requested size.\<close>

locale vram_provider = vram_memory ops contents wf
  for ops :: "'m mem_ops" and contents wf +
  fixes prov :: "('p, 'm) prov_ops"
  assumes prov_alloc: "po_alloc prov p n = (p', Ok m) \<Longrightarrow> wf m \<and> length (contents m) = n"

subsection \<open>CUDA regions\<close>

datatype cuda_error =
    CudaLoad string
  | CudaSymbol string
  | CudaDriver string int string
  | CudaOutOfRange nat nat nat
  | CudaInvalidValue string
  | CudaUnsupported string

definition show_int :: "int \<Rightarrow> string" where
  "show_int k = (if k < 0 then ''-'' @ show_nat (nat (- k)) else show_nat (nat k))"

fun cuda_display :: "cuda_error \<Rightarrow> string" where
  "cuda_display (CudaLoad s) = ''failed to load CUDA library: '' @ s"
| "cuda_display (CudaSymbol s) = ''required CUDA symbol missing: '' @ s"
| "cuda_display (CudaDriver cu_op code msg) =
     cu_op @ '' failed (CUresult='' @ show_int code @ ''): '' @ msg"
| "cuda_display (CudaOutOfRange off len sz) =
     ''out of bounds access: off='' @ show_nat off @ '' len='' @ show_nat len @ '' > size='' @
     show_nat sz"
| "cuda_display (CudaInvalidValue s) = ''invalid argument: '' @ s"
| "cuda_display (CudaUnsupported s) = ''unsupported driver feature: '' @ s"

fun vram_error_from :: "cuda_error \<Rightarrow> vram_error" where
  "vram_error_from (CudaOutOfRange off len sz) = VrOutOfRange off len sz"
| "vram_error_from other = VrProvider (cuda_display other)"

text \<open>The driver's functions on the memory behind one allocation; each returns a \<open>CUresult\<close>.
  The text of an error code is absent when the symbol is missing or yields a null pointer.\<close>

record 'r cuda_syms =
  memset_d8 :: "'r \<Rightarrow> nat \<Rightarrow> nat \<Rightarrow> 'r \<times> int"
  ctx_synchronize :: "'r \<Rightarrow> 'r \<times> int"
  memcpy_htod :: "'r \<Rightarrow> nat \<Rightarrow> byte list \<Rightarrow> 'r \<times> int"
  memcpy_dtoh :: "'r \<Rightarrow> nat \<Rightarrow> nat \<Rightarrow> byte list \<times> int"
  get_error_string :: "int \<Rightarrow> string option"

record 'r device_mem =
  dm_region :: 'r
  dm_len :: nat

definition err_string :: "'r cuda_syms \<Rightarrow> int \<Rightarrow> string" where
  "err_string syms r =
     (case get_error_string syms r of Some msg \<Rightarrow> msg | None \<Rightarrow> ''CUresult='' @ show_int r)"

definition cuda_check :: "'r cuda_syms \<Rightarrow> int \<Rightarrow> string \<Rightarrow> (unit, cuda_error) result" where
  "cuda_check syms r cu_op =
     (if r = 0 then Ok () else Err (CudaDriver cu_op r (err_string syms r)))"

definition dm_bounds :: "'r device_mem \<Rightarrow> nat \<Rightarrow> nat \<Rightarrow> (unit, cuda_error) result" where
  "dm_bounds m off len =
     (case checked_add u64_max off len of
        Some e \<Rightarrow> if e \<le> dm_len m then Ok () else Err (CudaOutOfRange off len (dm_len m))
      | None \<Rightarrow> Err (CudaOutOfRange off len (dm_len m)))"

definition dm_zero :: "'r cuda_syms \<Rightarrow> 'r device_mem \<Rightarrow> 'r device_mem \<times> (unit, cuda_error) result" where
  "dm_zero syms m =
     (let (g, c) = memset_d8 syms (dm_region m) 0 (dm_len m); m = m\<lparr>dm_region := g\<rparr>
      in case cuda_check syms c ''cuMemsetD8'' of
           Err e \<Rightarrow> (m, Err e)
         | Ok _ \<Rightarrow>
             let (g, c) = ctx_synchronize syms (dm_region m)
             in (m\<lparr>dm_region := g\<rparr>, cuda_check syms c ''cuCtxSynchronize''))"

definition dm_write_at ::
  "'r cuda_syms \<Rightarrow> 'r device_mem \<Rightarrow> nat \<Rightarrow> byte list \<Rightarrow> 'r device_mem \<times> (unit, cuda_error) result" where
  "dm_write_at syms m off src =
     (case dm_bounds m off (length src) of
        Err e \<Rightarrow> (m, Err e)
      | Ok _ \<Rightarrow>
          let (g, c) = memcpy_htod syms (dm_region m) off src
          in (m\<lparr>dm_region := g\<rparr>, cuda_check syms c ''cuMemcpyHtoD''))"

definition dm_read_at ::
  "'r cuda_syms \<Rightarrow> 'r device_mem \<Rightarrow> nat \<Rightarrow> nat \<Rightarrow> (byte list, cuda_error) result" where
  "dm_read_at syms m off len =
     (case dm_bounds m off len of
        Err e \<Rightarrow> Err e
      | Ok _ \<Rightarrow>
          let (bs, c) = memcpy_dtoh syms (dm_region m) off len
          in case cuda_check syms c ''cuMemcpyDtoH'' of Err e \<Rightarrow> Err e | Ok _ \<Rightarrow> Ok bs)"

fun map_err :: "('e \<Rightarrow> 'f) \<Rightarrow> ('a, 'e) result \<Rightarrow> ('a, 'f) result" where
  "map_err f (Ok a) = Ok a"
| "map_err f (Err e) = Err (f e)"

definition device_mem_ops :: "'r cuda_syms \<Rightarrow> 'r device_mem mem_ops" where
  "device_mem_ops syms =
     \<lparr>mo_len = dm_len,
      mo_zero = (\<lambda>m. map_prod id (map_err vram_error_from) (dm_zero syms m)),
      mo_read = (\<lambda>m off n. map_err vram_error_from (dm_read_at syms m off n)),
      mo_write = (\<lambda>m off bs. map_prod id (map_err vram_error_from) (dm_write_at syms m off bs))\<rparr>"

text \<open>The driver's documented behaviour on one allocation.\<close>

locale cuda_driver =
  fixes syms :: "'r cuda_syms"
    and region :: "'r \<Rightarrow> byte list"
  assumes cu_memset: "memset_d8 syms g 0 (length (region g)) = (g', c) \<Longrightarrow>
      length (region g') = length (region g) \<and>
      (c = 0 \<longrightarrow> region g' = replicate (length (region g)) 0)"
    and cu_sync: "ctx_synchronize syms g = (g', c) \<Longrightarrow> region g' = region g"
    and cu_htod: "off + length bs \<le> length (region g) \<Longrightarrow> memcpy_htod syms g off bs = (g', c) \<Longrightarrow>
      agree_outside off (length bs) (region g) (region g') \<and>
      (c = 0 \<longrightarrow> region g' = write_range off bs (region g))"
    and cu_dtoh: "off + n \<le> length (region g) \<Longrightarrow> memcpy_dtoh syms g off n = (bs, 0) \<Longrightarrow>
      bs = read_range off n (region g)"

lemma cuda_check_Ok [simp]: "cuda_check syms r cu_op = Ok () \<longleftrightarrow> r = 0"
  by (simp add: cuda_check_def)

lemma dm_bounds_Ok: "dm_bounds m off len = Ok u \<Longrightarrow> off + len \<le> dm_len m"
  by (auto simp: dm_bounds_def checked_add_def split: if_splits)

lemma map_err_Ok_iff [simp]: "map_err f r = Ok a \<longleftrightarrow> r = Ok a"
  by (cases r) auto

context cuda_driver
begin

lemma dm_zero_law:
  assumes "dm_len m = length (region (dm_region m))" "dm_zero syms m = (m', r)"
  shows "dm_len m' = length (region (dm_region m')) \<and>
    length (region (dm_region m')) = length (region (dm_region m)) \<and>
    (r = Ok () \<longrightarrow> region (dm_region m') = replicate (length (region (dm_region m))) 0)"
proof -
  obtain g c where s: "memset_d8 syms (dm_region m) 0 (dm_len m) = (g, c)" by fastforce
  obtain g' c' where y: "ctx_synchronize syms g = (g', c')" by fastforce
  show ?thesis
    using assms cu_memset [of "dm_region m" g c] s cu_sync [OF y] y
    by (auto simp: dm_zero_def cuda_check_def Let_def split: if_splits)
qed

lemma dm_write_law:
  assumes "dm_len m = length (region (dm_region m))" "dm_write_at syms m off bs = (m', r)"
  shows "dm_len m' = length (region (dm_region m')) \<and>
    agree_outside off (length bs) (region (dm_region m)) (region (dm_region m')) \<and>
    (r = Ok () \<longrightarrow> off + length bs \<le> length (region (dm_region m)) \<and>
       region (dm_region m') = write_range off bs (region (dm_region m)))"
proof (cases "dm_bounds m off (length bs)")
  case (Ok u)
  obtain g c where w: "memcpy_htod syms (dm_region m) off bs = (g, c)" by fastforce
  have "off + length bs \<le> length (region (dm_region m))"
    using dm_bounds_Ok [OF Ok] assms(1) by simp
  with cu_htod [OF this w] assms Ok w show ?thesis
    by (auto simp: dm_write_at_def Let_def agree_outside_def)
qed (use assms in \<open>auto simp: dm_write_at_def\<close>)

lemma dm_read_law:
  assumes "dm_len m = length (region (dm_region m))" "dm_read_at syms m off n = Ok bs"
  shows "off + n \<le> length (region (dm_region m)) \<and> bs = read_range off n (region (dm_region m))"
proof -
  obtain u where b: "dm_bounds m off n = Ok u"
    using assms(2) by (auto simp: dm_read_at_def split: result.splits)
  have le: "off + n \<le> length (region (dm_region m))" using dm_bounds_Ok [OF b] assms(1) by simp
  obtain xs c where r: "memcpy_dtoh syms (dm_region m) off n = (xs, c)" by fastforce
  have "c = 0" "bs = xs" using assms(2) b r
    by (auto simp: dm_read_at_def Let_def cuda_check_def split: if_splits)
  with le cu_dtoh [OF le] r show ?thesis by simp
qed

end

text \<open>A CUDA region is a VRAM region.\<close>

sublocale cuda_driver \<subseteq> cuda_mem: vram_memory "device_mem_ops syms"
  "\<lambda>m. region (dm_region m)" "\<lambda>m. dm_len m = length (region (dm_region m))"
proof
  fix m m' :: "'r device_mem" and r
  assume "dm_len m = length (region (dm_region m))" "mo_zero (device_mem_ops syms) m = (m', r)"
  then show "dm_len m' = length (region (dm_region m')) \<and>
      length (region (dm_region m')) = length (region (dm_region m)) \<and>
      (r = Ok () \<longrightarrow> region (dm_region m') = replicate (length (region (dm_region m))) 0)"
    using dm_zero_law [of m m'] by (cases "dm_zero syms m") (auto simp: device_mem_ops_def)
next
  fix m m' :: "'r device_mem" and off bs r
  assume "dm_len m = length (region (dm_region m))" "mo_write (device_mem_ops syms) m off bs = (m', r)"
  then show "dm_len m' = length (region (dm_region m')) \<and>
      agree_outside off (length bs) (region (dm_region m)) (region (dm_region m')) \<and>
      (r = Ok () \<longrightarrow> off + length bs \<le> length (region (dm_region m)) \<and>
         region (dm_region m') = write_range off bs (region (dm_region m)))"
    using dm_write_law [of m off bs m'] by (cases "dm_write_at syms m off bs") (auto simp: device_mem_ops_def)
qed (use dm_read_law in \<open>auto simp: device_mem_ops_def\<close>)

subsection \<open>No GPU\<close>

text \<open>The daemon's region when no provider is available: every operation fails.\<close>

definition unavailable_mem_ops :: "unit mem_ops" where
  "unavailable_mem_ops =
     \<lparr>mo_len = (\<lambda>_. 0),
      mo_zero = (\<lambda>m. (m, Err (VrProvider ''VRAM cache is unavailable''))),
      mo_read = (\<lambda>_ off n. Err (VrOutOfRange off n 0)),
      mo_write = (\<lambda>m off bs. (m, Err (VrOutOfRange off (length bs) 0)))\<rparr>"

definition unavailable_prov_ops :: "(unit, unit) prov_ops" where
  "unavailable_prov_ops =
     \<lparr>po_alloc = (\<lambda>p _. (p, Err (VrProvider ''VRAM cache is unavailable''))),
      po_mem_info = (\<lambda>p. (p, Err (VrProvider ''GPU measurement is unavailable'')))\<rparr>"

interpretation no_gpu: vram_provider unavailable_mem_ops "\<lambda>_. []" "\<lambda>_. True" unavailable_prov_ops
  by unfold_locales (auto simp: unavailable_mem_ops_def unavailable_prov_ops_def)

subsection \<open>A driver that works\<close>

text \<open>The driver on plain bytes, with no failure: the reference instance of the driver's laws.\<close>

definition plain_syms :: "byte list cuda_syms" where
  "plain_syms =
     \<lparr>memset_d8 = (\<lambda>g v n. (write_range 0 (replicate n (of_nat v)) g, 0)),
      ctx_synchronize = (\<lambda>g. (g, 0)),
      memcpy_htod = (\<lambda>g off bs. (write_range off bs g, 0)),
      memcpy_dtoh = (\<lambda>g off n. (read_range off n g, 0)),
      get_error_string = (\<lambda>_. None)\<rparr>"

interpretation plain_cuda: cuda_driver plain_syms id
  by unfold_locales
    (auto simp: plain_syms_def agree_outside_write_range store_simps write_range_def [of 0])

text \<open>Regions of the plain driver, handed out while the free bytes, the provider's state, last.\<close>

definition plain_prov :: "(nat, byte list device_mem) prov_ops" where
  "plain_prov =
     \<lparr>po_alloc = (\<lambda>free n. if n \<le> free then (free - n, Ok \<lparr>dm_region = replicate n 1, dm_len = n\<rparr>)
                            else (free, Err VrOutOfMemory)),
      po_mem_info = (\<lambda>free. (free, Ok (free, free)))\<rparr>"

interpretation plain_gpu: vram_provider "device_mem_ops plain_syms" "\<lambda>m. dm_region m"
  "\<lambda>m. dm_len m = length (dm_region m)" plain_prov
proof -
  have "vram_memory (device_mem_ops plain_syms) dm_region (\<lambda>m. dm_len m = length (dm_region m))"
    using plain_cuda.cuda_mem.vram_memory_axioms by simp
  then show "vram_provider (device_mem_ops plain_syms) dm_region (\<lambda>m. dm_len m = length (dm_region m)) plain_prov"
    by (simp add: vram_provider_def vram_provider_axioms_def plain_prov_def split: if_split)
qed

end
