(* ===== verification/Block_Request.thy ===== *)
theory Block_Request
  imports Vram
begin

unbundle bit_operations_syntax

text \<open>
  The transmission phase of the NBD server, \<^verbatim>\<open>crates/ramshared-block/src/protocol.rs\<close> and
  \<^verbatim>\<open>request.rs\<close>: the request header, the simple reply, validation, and the dispatch of a request to
  a storage backend. The trait \<open>BlockBackend\<close> is a record of operations; the locale \<open>block_device\<close>
  states what a backend promises, and the dispatch is shown once, inside it, to be a step of an
  abstract disk.
\<close>

subsection \<open>Wire constants\<close>

definition NBD_REQUEST_MAGIC :: nat where "NBD_REQUEST_MAGIC = 0x25609513"
definition NBD_SIMPLE_REPLY_MAGIC :: nat where "NBD_SIMPLE_REPLY_MAGIC = 0x67446698"
definition REQUEST_LEN :: nat where "REQUEST_LEN = 28"
definition SIMPLE_REPLY_LEN :: nat where "SIMPLE_REPLY_LEN = 16"
definition NBD_CMD_FLAG_FUA :: "16 word" where "NBD_CMD_FLAG_FUA = push_bit 0 1"
definition NBD_OK :: nat where "NBD_OK = 0"
definition NBD_EPERM :: nat where "NBD_EPERM = 1"
definition NBD_EIO :: nat where "NBD_EIO = 5"
definition NBD_EACCES :: nat where "NBD_EACCES = 13"
definition NBD_EINVAL :: nat where "NBD_EINVAL = 22"
definition NBD_ERANGE :: nat where "NBD_ERANGE = 34"

lemmas nbd_errno_defs = NBD_OK_def NBD_EPERM_def NBD_EIO_def NBD_EACCES_def NBD_EINVAL_def
  NBD_ERANGE_def

subsection \<open>Requests and replies\<close>

datatype command = CmdRead | CmdWrite | CmdDisc | CmdFlush | CmdTrim | CmdUnknown nat

definition command_from_u16 :: "nat \<Rightarrow> command" where
  "command_from_u16 v =
     (if v = 0 then CmdRead else if v = 1 then CmdWrite else if v = 2 then CmdDisc
      else if v = 3 then CmdFlush else if v = 4 then CmdTrim else CmdUnknown v)"

record request =
  rq_flags :: "16 word"
  rq_cmd :: command
  rq_handle :: nat
  rq_offset :: nat
  rq_len :: nat

datatype protocol_error =
    TruncatedPayload nat nat
  | InvalidHeader nat
  | ChecksumMismatch

definition parse_request :: "byte list \<Rightarrow> (request, protocol_error) result" where
  "parse_request buf =
     (if length buf < REQUEST_LEN then Err (TruncatedPayload (length buf) REQUEST_LEN)
      else let magic = from_be (read_range 0 4 buf)
           in if magic \<noteq> NBD_REQUEST_MAGIC then Err (InvalidHeader magic)
              else Ok \<lparr>rq_flags = of_nat (from_be (read_range 4 2 buf)),
                       rq_cmd = command_from_u16 (from_be (read_range 6 2 buf)),
                       rq_handle = from_be (read_range 8 8 buf),
                       rq_offset = from_be (read_range 16 8 buf),
                       rq_len = from_be (read_range 24 4 buf)\<rparr>)"

definition encode_simple_reply :: "nat \<Rightarrow> nat \<Rightarrow> byte list" where
  "encode_simple_reply err handle =
     write_range 8 (to_be 8 handle)
       (write_range 4 (to_be 4 err)
          (write_range 0 (to_be 4 NBD_SIMPLE_REPLY_MAGIC) (replicate SIMPLE_REPLY_LEN 0)))"

subsection \<open>Backends\<close>

datatype io_error = IoError string

record write_options =
  wo_fua :: bool

definition write_options_default :: write_options where
  "write_options_default = \<lparr>wo_fua = False\<rparr>"

text \<open>
  \<open>BlockBackend\<close>. A successful read returns the buffer it filled; a failed read leaves the caller's
  buffer unspecified, and every caller in the program drops or refills it.
\<close>

record 'b backend_ops =
  be_size_bytes :: "'b \<Rightarrow> nat"
  be_block_size :: "'b \<Rightarrow> nat"
  be_is_read_only :: "'b \<Rightarrow> bool"
  be_read_at :: "'b \<Rightarrow> nat \<Rightarrow> nat \<Rightarrow> 'b \<times> (byte list, io_error) result"
  be_write_at :: "'b \<Rightarrow> nat \<Rightarrow> byte list \<Rightarrow> 'b \<times> (unit, io_error) result"
  be_write_at_with_options ::
    "'b \<Rightarrow> nat \<Rightarrow> byte list \<Rightarrow> write_options \<Rightarrow> 'b \<times> (unit, io_error) result"
  be_flush :: "'b \<Rightarrow> 'b \<times> (unit, io_error) result"

text \<open>The default \<open>write_at_with_options\<close> of the trait, for the backends that do not override it.\<close>

definition default_write_with_options ::
  "('b \<Rightarrow> nat \<Rightarrow> byte list \<Rightarrow> 'b \<times> (unit, io_error) result) \<Rightarrow>
   ('b \<Rightarrow> 'b \<times> (unit, io_error) result) \<Rightarrow>
   'b \<Rightarrow> nat \<Rightarrow> byte list \<Rightarrow> write_options \<Rightarrow> 'b \<times> (unit, io_error) result" where
  "default_write_with_options write_at flush b off bs options =
     (case write_at b off bs of
        (b', Err e) \<Rightarrow> (b', Err e)
      | (b', Ok _) \<Rightarrow> if wo_fua options then flush b' else (b', Ok ()))"

subsection \<open>Dispatch\<close>

record serve_outcome =
  so_reply :: "byte list"
  so_read_data :: "byte list"
  so_disconnect :: bool

fun errno_of :: "('a, io_error) result \<Rightarrow> nat" where
  "errno_of (Ok _) = NBD_OK"
| "errno_of (Err _) = NBD_EIO"

definition rq_validate :: "'b backend_ops \<Rightarrow> request \<Rightarrow> 'b \<Rightarrow> (unit, nat) result" where
  "rq_validate ops req b =
     (let bs = be_block_size ops b
      in if bs = 0 then Err NBD_EINVAL
         else if \<not> is_multiple_of (rq_offset req) bs then Err NBD_EINVAL
         else if \<not> is_multiple_of (rq_len req) bs then Err NBD_EINVAL
         else case checked_add u64_max (rq_offset req) (rq_len req) of
             None \<Rightarrow> Err NBD_ERANGE
           | Some e \<Rightarrow>
               if e > be_size_bytes ops b then Err NBD_ERANGE
               else if rq_cmd req = CmdWrite \<and> be_is_read_only ops b then Err NBD_EACCES
               else Ok ())"

definition validate_command_flags :: "request \<Rightarrow> (write_options, nat) result" where
  "validate_command_flags req =
     (if rq_cmd req = CmdWrite then
        (if rq_flags req AND NOT NBD_CMD_FLAG_FUA = 0
         then Ok \<lparr>wo_fua = (rq_flags req AND NBD_CMD_FLAG_FUA \<noteq> 0)\<rparr>
         else Err NBD_EINVAL)
      else if rq_flags req = 0 then Ok write_options_default
      else Err NBD_EINVAL)"

definition serve_plain :: "request \<Rightarrow> nat \<Rightarrow> serve_outcome" where
  "serve_plain req err =
     \<lparr>so_reply = encode_simple_reply err (rq_handle req), so_read_data = [], so_disconnect = False\<rparr>"

definition serve :: "'b backend_ops \<Rightarrow> request \<Rightarrow> byte list \<Rightarrow> 'b \<Rightarrow> 'b \<times> serve_outcome" where
  "serve ops req payload b =
     (case validate_command_flags req of
        Err e \<Rightarrow> (b, serve_plain req e)
      | Ok options \<Rightarrow>
          (case rq_cmd req of
             CmdRead \<Rightarrow>
               (case rq_validate ops req b of
                  Err e \<Rightarrow> (b, serve_plain req e)
                | Ok _ \<Rightarrow>
                    let (b, r) = be_read_at ops b (rq_offset req) (rq_len req)
                    in (b, \<lparr>so_reply = encode_simple_reply (errno_of r) (rq_handle req),
                            so_read_data = (case r of Ok bs \<Rightarrow> bs | Err _ \<Rightarrow> []),
                            so_disconnect = False\<rparr>))
           | CmdWrite \<Rightarrow>
               if length payload \<noteq> rq_len req then (b, serve_plain req NBD_EINVAL)
               else (case rq_validate ops req b of
                       Err e \<Rightarrow> (b, serve_plain req e)
                     | Ok _ \<Rightarrow>
                         let (b, r) = be_write_at_with_options ops b (rq_offset req) payload options
                         in (b, serve_plain req (errno_of r)))
           | CmdFlush \<Rightarrow> let (b, r) = be_flush ops b in (b, serve_plain req (errno_of r))
           | CmdTrim \<Rightarrow>
               (case rq_validate ops req b of
                  Err e \<Rightarrow> (b, serve_plain req e)
                | Ok _ \<Rightarrow> (b, serve_plain req NBD_OK))
           | CmdDisc \<Rightarrow>
               (b, \<lparr>so_reply = encode_simple_reply NBD_OK (rq_handle req), so_read_data = [],
                    so_disconnect = True\<rparr>)
           | CmdUnknown _ \<Rightarrow> (b, serve_plain req NBD_EINVAL)))"

subsection \<open>The wire format is read back\<close>

text \<open>A simple reply is magic, error and handle.\<close>

lemma encode_simple_reply_bytes:
  "encode_simple_reply err handle = to_be 4 NBD_SIMPLE_REPLY_MAGIC @ to_be 4 err @ to_be 8 handle"
  by (simp add: encode_simple_reply_def write_range_def SIMPLE_REPLY_LEN_def)

definition reply_errno :: "byte list \<Rightarrow> nat" where
  "reply_errno reply = from_be (read_range 4 4 reply)"

definition reply_handle :: "byte list \<Rightarrow> nat" where
  "reply_handle reply = from_be (read_range 8 8 reply)"

lemma reply_fields:
  "err < 2 ^ 32 \<Longrightarrow> reply_errno (encode_simple_reply err handle) = err"
  "handle < 2 ^ 64 \<Longrightarrow> reply_handle (encode_simple_reply err handle) = handle"
  by (simp_all add: reply_errno_def reply_handle_def encode_simple_reply_bytes read_range_def from_to_be)

text \<open>The layout of a request header, and its exact parser.\<close>

fun command_code :: "command \<Rightarrow> nat" where
  "command_code CmdRead = 0"
| "command_code CmdWrite = 1"
| "command_code CmdDisc = 2"
| "command_code CmdFlush = 3"
| "command_code CmdTrim = 4"
| "command_code (CmdUnknown v) = v"

definition request_wire :: "request \<Rightarrow> byte list" where
  "request_wire r =
     to_be 4 NBD_REQUEST_MAGIC @ to_be 2 (unat (rq_flags r)) @ to_be 2 (command_code (rq_cmd r)) @
     to_be 8 (rq_handle r) @ to_be 8 (rq_offset r) @ to_be 4 (rq_len r)"

definition request_wf :: "request \<Rightarrow> bool" where
  "request_wf r \<longleftrightarrow>
     (\<forall>v. rq_cmd r = CmdUnknown v \<longrightarrow> 4 < v \<and> v < 2 ^ 16) \<and>
     rq_handle r < 2 ^ 64 \<and> rq_offset r < 2 ^ 64 \<and> rq_len r < 2 ^ 32"

lemma command_from_code: "(\<forall>v. c = CmdUnknown v \<longrightarrow> 4 < v) \<Longrightarrow> command_from_u16 (command_code c) = c"
  by (cases c) (auto simp: command_from_u16_def)

lemma command_code_from: "command_code (command_from_u16 v) = v"
  by (simp add: command_from_u16_def)

lemma parse_request_wire:
  assumes "request_wf r"
  shows "parse_request (request_wire r @ rest) = Ok r"
proof -
  have c: "command_code (rq_cmd r) < 2 ^ 16"
    using assms by (cases "rq_cmd r") (auto simp: request_wf_def)
  have f: "unat (rq_flags r) < 2 ^ 16" using unsigned_less [of "rq_flags r"] by simp
  show ?thesis
    using assms c f command_from_code [of "rq_cmd r"]
    by (simp add: parse_request_def REQUEST_LEN_def request_wire_def read_range_def from_to_be
        request_wf_def NBD_REQUEST_MAGIC_def Let_def)
qed

lemma parse_request_Ok:
  assumes "parse_request buf = Ok r"
  shows "request_wf r" "take 28 buf = request_wire r"
proof -
  have len: "28 \<le> length buf" and m: "from_be (read_range 0 4 buf) = NBD_REQUEST_MAGIC"
    and r: "r = \<lparr>rq_flags = of_nat (from_be (read_range 4 2 buf)),
                 rq_cmd = command_from_u16 (from_be (read_range 6 2 buf)),
                 rq_handle = from_be (read_range 8 8 buf), rq_offset = from_be (read_range 16 8 buf),
                 rq_len = from_be (read_range 24 4 buf)\<rparr>"
    using assms by (auto simp: parse_request_def REQUEST_LEN_def Let_def split: if_splits)
  have bound: "from_be (read_range off n buf) < 256 ^ n" if "off + n \<le> 28" for off n
    using from_be_less [of "read_range off n buf"] that len by (simp add: store_simps)
  have undo: "to_be n (from_be (read_range off n buf)) = read_range off n buf" if "off + n \<le> 28" for off n
    using that len by (intro to_from_be_length) (simp add: store_simps)
  have "unat (of_nat (from_be (read_range 4 2 buf)) :: 16 word) = from_be (read_range 4 2 buf)"
    using bound [of 4 2] by (simp add: unat_of_nat)
  then have "request_wire r =
      read_range 0 4 buf @ read_range 4 2 buf @ read_range 6 2 buf @ read_range 8 8 buf @ read_range 16 8 buf @ read_range 24 4 buf"
    using m undo [of 0 4] by (simp add: request_wire_def r undo command_code_from)
  also have "\<dots> = read_range 0 (4 + 2 + 2 + 8 + 8 + 4) buf"
    by (simp only: read_range_add append_assoc) simp
  finally show "take 28 buf = request_wire r" by (simp add: read_range_def)
  show "request_wf r"
    using bound [of 6 2] bound [of 8 8] bound [of 16 8] bound [of 24 4]
    by (auto simp: request_wf_def r command_from_u16_def split: if_splits)
qed

text \<open>
  C27. The parser of NBD request headers is exact: it accepts a buffer exactly when the buffer starts
  with the 28 bytes that encode some request, magic, flags, command, handle, offset and length in
  big-endian order, and returns that request; whatever follows the header is ignored.
\<close>

theorem nbd_request_exact:
  "parse_request buf = Ok r \<longleftrightarrow> request_wf r \<and> (\<exists>rest. buf = request_wire r @ rest)"
  using parse_request_Ok [of buf r] parse_request_wire [of r] append_take_drop_id [of 28 buf] by metis

subsection \<open>What a backend promises\<close>

text \<open>
  A backend stores a byte array of fixed length. Reads return it, successful writes replace
  exactly their range, a plain write is a write with the
  default options, and a failed write without forced flush changes at most its range. A failed
  flush may lose data that was not yet durable.
\<close>

locale block_device =
  fixes ops :: "'b backend_ops"
    and disk :: "'b \<Rightarrow> byte list"
    and inv :: "'b \<Rightarrow> bool"
  assumes dev_size: "inv b \<Longrightarrow> be_size_bytes ops b = length (disk b) \<and> length (disk b) \<le> u64_max"
    and dev_read: "inv b \<Longrightarrow> off + n \<le> length (disk b) \<Longrightarrow> be_read_at ops b off n = (b', res) \<Longrightarrow>
      inv b' \<and> disk b' = disk b \<and> (\<forall>bs. res = Ok bs \<longrightarrow> bs = read_range off n (disk b))"
    and dev_write: "inv b \<Longrightarrow> off + length bs \<le> length (disk b) \<Longrightarrow>
      be_write_at_with_options ops b off bs opt = (b', r) \<Longrightarrow>
      inv b' \<and> length (disk b') = length (disk b) \<and>
      (r = Ok () \<longrightarrow> disk b' = write_range off bs (disk b)) \<and>
      (\<not> wo_fua opt \<longrightarrow> agree_outside off (length bs) (disk b) (disk b'))"
    and dev_write_at: "inv b \<Longrightarrow>
      be_write_at ops b off bs = be_write_at_with_options ops b off bs write_options_default"
    and dev_flush: "inv b \<Longrightarrow> be_flush ops b = (b', r) \<Longrightarrow>
      inv b' \<and> length (disk b') = length (disk b) \<and> (r = Ok () \<longrightarrow> disk b' = disk b)"

text \<open>A backend without a durability frontier: nothing outside the range of a write ever changes.\<close>

locale volatile_device = block_device +
  assumes vol_write: "inv b \<Longrightarrow> off + length bs \<le> length (disk b) \<Longrightarrow>
      be_write_at_with_options ops b off bs opt = (b', r) \<Longrightarrow>
      agree_outside off (length bs) (disk b) (disk b')"
    and vol_flush: "inv b \<Longrightarrow> be_flush ops b = (b', r) \<Longrightarrow> disk b' = disk b"

subsection \<open>The abstract disk\<close>

text \<open>
  The verdict on a request before any storage is touched: \<open>Some e\<close> refuses it with error \<open>e\<close>.
\<close>

definition range_verdict :: "nat \<Rightarrow> bool \<Rightarrow> nat \<Rightarrow> request \<Rightarrow> nat option" where
  "range_verdict block ro len req =
     (if block = 0 \<or> \<not> block dvd rq_offset req \<or> \<not> block dvd rq_len req then Some NBD_EINVAL
      else if rq_offset req + rq_len req > len then Some NBD_ERANGE
      else if rq_cmd req = CmdWrite \<and> ro then Some NBD_EACCES
      else None)"

fun nbd_verdict :: "nat \<Rightarrow> bool \<Rightarrow> nat \<Rightarrow> request \<Rightarrow> byte list \<Rightarrow> nat option" where
  "nbd_verdict block ro len req payload =
     (case rq_cmd req of
        CmdWrite \<Rightarrow>
          if rq_flags req \<noteq> 0 \<and> rq_flags req \<noteq> 1 \<or> length payload \<noteq> rq_len req
          then Some NBD_EINVAL else range_verdict block ro len req
      | c \<Rightarrow>
          if rq_flags req \<noteq> 0 then Some NBD_EINVAL
          else case c of
              CmdRead \<Rightarrow> range_verdict block ro len req
            | CmdTrim \<Rightarrow> range_verdict block ro len req
            | CmdUnknown _ \<Rightarrow> Some NBD_EINVAL
            | _ \<Rightarrow> None)"

text \<open>What an accepted request does to the disk, with the error and the data it answers.\<close>

inductive disk_step :: "request \<Rightarrow> byte list \<Rightarrow> byte list \<Rightarrow> byte list \<Rightarrow> nat \<Rightarrow> byte list \<Rightarrow> bool" where
  read: "rq_cmd req = CmdRead \<Longrightarrow>
     disk_step req payload d d NBD_OK (read_range (rq_offset req) (rq_len req) d)"
| read_failed: "rq_cmd req = CmdRead \<Longrightarrow> disk_step req payload d d NBD_EIO []"
| written: "rq_cmd req = CmdWrite \<Longrightarrow>
     disk_step req payload d (write_range (rq_offset req) payload d) NBD_OK []"
| write_failed: "rq_cmd req = CmdWrite \<Longrightarrow> length d' = length d \<Longrightarrow>
     (rq_flags req = 0 \<Longrightarrow> agree_outside (rq_offset req) (rq_len req) d d') \<Longrightarrow>
     disk_step req payload d d' NBD_EIO []"
| flushed: "rq_cmd req = CmdFlush \<Longrightarrow> disk_step req payload d d NBD_OK []"
| flush_failed: "rq_cmd req = CmdFlush \<Longrightarrow> length d' = length d \<Longrightarrow>
     disk_step req payload d d' NBD_EIO []"
| trim: "rq_cmd req = CmdTrim \<Longrightarrow> disk_step req payload d d NBD_OK []"
| disc: "rq_cmd req = CmdDisc \<Longrightarrow> disk_step req payload d d NBD_OK []"

inductive_cases disk_stepE: "disk_step req payload d d' e data"

lemma word16_fua: "(f :: 16 word) AND NOT NBD_CMD_FLAG_FUA = 0 \<longleftrightarrow> f = 0 \<or> f = 1"
proof
  assume "f AND NOT NBD_CMD_FLAG_FUA = 0"
  then have "f = f AND 1"
    by (simp add: NBD_CMD_FLAG_FUA_def bit_eq_iff bit_simps) metis
  then show "f = 0 \<or> f = 1" by (metis and_one_eq mod2_eq_if)
qed (auto simp: NBD_CMD_FLAG_FUA_def)

lemma validate_command_flags_cases:
  "validate_command_flags req =
    (if rq_cmd req = CmdWrite then
       (if rq_flags req = 0 \<or> rq_flags req = 1 then Ok \<lparr>wo_fua = (rq_flags req = 1)\<rparr> else Err NBD_EINVAL)
     else if rq_flags req = 0 then Ok write_options_default else Err NBD_EINVAL)"
  unfolding validate_command_flags_def word16_fua by (auto simp: NBD_CMD_FLAG_FUA_def)

definition as_result :: "nat option \<Rightarrow> (unit, nat) result" where
  "as_result v = (case v of None \<Rightarrow> Ok () | Some e \<Rightarrow> Err e)"

lemma errno_exI: "P e \<Longrightarrow> \<exists>e'. encode_simple_reply e h = encode_simple_reply e' h \<and> P e'"
  by blast

context block_device
begin

lemma rq_validate_verdict:
  "inv b \<Longrightarrow> rq_validate ops req b =
    as_result (range_verdict (be_block_size ops b) (be_is_read_only ops b) (length (disk b)) req)"
  using dev_size [of b]
  by (auto simp: rq_validate_def range_verdict_def as_result_def Let_def is_multiple_of_dvd
      checked_add_def)

text \<open>A refused request touches no storage and is answered with its verdict.\<close>

lemma serve_refused:
  assumes "inv b" "nbd_verdict (be_block_size ops b) (be_is_read_only ops b) (length (disk b)) req payload = Some e"
  shows "serve ops req payload b = (b, serve_plain req e)"
  using assms(2)
  by (cases "rq_cmd req")
    (auto simp: serve_def validate_command_flags_cases rq_validate_verdict [OF assms(1)]
      as_result_def split: if_splits)

text \<open>An accepted request is a step of the abstract disk.\<close>

lemma serve_accepted:
  assumes "inv b" "serve ops req payload b = (b', out)"
    and "nbd_verdict (be_block_size ops b) (be_is_read_only ops b) (length (disk b)) req payload = None"
  shows "inv b' \<and> so_disconnect out = (rq_cmd req = CmdDisc) \<and>
    (\<exists>e. so_reply out = encode_simple_reply e (rq_handle req) \<and>
      disk_step req payload (disk b) (disk b') e (so_read_data out))"
proof (cases "rq_cmd req")
  case CmdRead
  then have v: "validate_command_flags req = Ok write_options_default" "rq_validate ops req b = Ok ()"
    "rq_offset req + rq_len req \<le> length (disk b)"
    using assms(3) by (auto simp: validate_command_flags_cases rq_validate_verdict [OF assms(1)]
        as_result_def range_verdict_def split: if_splits)
  obtain c r where r: "be_read_at ops b (rq_offset req) (rq_len req) = (c, r)" by fastforce
  with assms(2) v CmdRead dev_read [OF assms(1) v(3) r] show ?thesis
    by (cases r) (auto simp: serve_def intro!: errno_exI disk_step.read disk_step.read_failed)
next
  case CmdWrite
  then have v: "validate_command_flags req = Ok \<lparr>wo_fua = (rq_flags req = 1)\<rparr>"
    "rq_validate ops req b = Ok ()" "length payload = rq_len req"
    "rq_offset req + length payload \<le> length (disk b)"
    using assms(3) by (auto simp: validate_command_flags_cases rq_validate_verdict [OF assms(1)]
        as_result_def range_verdict_def split: if_splits)
  obtain c r where r: "be_write_at_with_options ops b (rq_offset req) payload
      \<lparr>wo_fua = (rq_flags req = 1)\<rparr> = (c, r)" by fastforce
  with assms(2) v CmdWrite dev_write [OF assms(1) v(4) r] show ?thesis
    by (cases r) (auto simp: serve_def serve_plain_def intro!: errno_exI disk_step.written
        disk_step.write_failed)
next
  case CmdFlush
  then have v: "validate_command_flags req = Ok write_options_default"
    using assms(3) by (auto simp: validate_command_flags_cases split: if_splits)
  obtain c r where r: "be_flush ops b = (c, r)" by fastforce
  with assms(2) v CmdFlush dev_flush [OF assms(1) r] show ?thesis
    by (cases r) (auto simp: serve_def serve_plain_def intro!: errno_exI disk_step.flushed
        disk_step.flush_failed)
next
  case CmdTrim
  then have "validate_command_flags req = Ok write_options_default" "rq_validate ops req b = Ok ()"
    using assms(3) by (auto simp: validate_command_flags_cases rq_validate_verdict [OF assms(1)]
        as_result_def split: if_splits)
  with assms(1,2) CmdTrim show ?thesis 
    by (auto simp: serve_def serve_plain_def intro!: errno_exI disk_step.trim)
next
  case CmdDisc
  then have "validate_command_flags req = Ok write_options_default"
    using assms(3) by (auto simp: validate_command_flags_cases split: if_splits)
  with assms(1,2) CmdDisc show ?thesis 
    by (auto simp: serve_def intro!: errno_exI disk_step.disc)
qed (use assms(3) in \<open>auto split: if_splits\<close>)

lemma serve_keeps_inv:
  assumes "inv b" "serve ops req payload b = (b', out)"
  shows "inv b'"
  using assms serve_refused [of b req payload] serve_accepted [of b req payload b' out]
  by (cases "nbd_verdict (be_block_size ops b) (be_is_read_only ops b) (length (disk b)) req payload")
    auto

end

context volatile_device
begin

text \<open>Whatever a request does, it does to its own range.\<close>

lemma serve_bounded:
  assumes "inv b" "serve ops req payload b = (b', out)"
  shows "agree_outside (rq_offset req) (rq_len req) (disk b) (disk b')"
proof (cases "nbd_verdict (be_block_size ops b) (be_is_read_only ops b) (length (disk b)) req payload")
  case (Some e)
  then show ?thesis using serve_refused [OF assms(1)] assms(2) by auto
next
  case None
  show ?thesis
  proof (cases "rq_cmd req")
    case CmdWrite
    then have v: "validate_command_flags req = Ok \<lparr>wo_fua = (rq_flags req = 1)\<rparr>"
      "rq_validate ops req b = Ok ()" "length payload = rq_len req"
      "rq_offset req + length payload \<le> length (disk b)"
      using None by (auto simp: validate_command_flags_cases rq_validate_verdict [OF assms(1)]
          as_result_def range_verdict_def split: if_splits)
    obtain c r where r: "be_write_at_with_options ops b (rq_offset req) payload
        \<lparr>wo_fua = (rq_flags req = 1)\<rparr> = (c, r)" by fastforce
    with assms(2) v CmdWrite vol_write [OF assms(1) v(4) r] show ?thesis by (auto simp: serve_def)
  next
    case CmdFlush
    then show ?thesis
      using assms None vol_flush [OF assms(1)]
      by (cases "be_flush ops b") (auto simp: serve_def split: result.splits)
  qed (use serve_accepted [OF assms None] in \<open>auto elim: disk_stepE\<close>)
qed

end

subsection \<open>Sequences of requests\<close>

text \<open>A request on the abstract disk: refused with its verdict, or a step of the disk.\<close>

definition served ::
  "nat \<Rightarrow> bool \<Rightarrow> request \<Rightarrow> byte list \<Rightarrow> byte list \<Rightarrow> byte list \<Rightarrow> serve_outcome \<Rightarrow> bool" where
  "served block ro req payload d d' out \<longleftrightarrow>
     (case nbd_verdict block ro (length d) req payload of
        Some e \<Rightarrow> d' = d \<and> out = serve_plain req e
      | None \<Rightarrow> so_disconnect out = (rq_cmd req = CmdDisc) \<and>
          (\<exists>e. so_reply out = encode_simple_reply e (rq_handle req) \<and>
             disk_step req payload d d' e (so_read_data out)))"

context block_device
begin

lemma serve_served:
  "inv b \<Longrightarrow> serve ops req payload b = (b', out) \<Longrightarrow>
   served (be_block_size ops b) (be_is_read_only ops b) req payload (disk b) (disk b') out"
  using serve_refused [of b req payload] serve_accepted [of b req payload b' out]
  by (auto simp: served_def split: option.split)

end

fun serve_all ::
  "'b backend_ops \<Rightarrow> (request \<times> byte list) list \<Rightarrow> 'b \<Rightarrow> 'b \<times> serve_outcome list" where
  "serve_all ops [] b = (b, [])"
| "serve_all ops ((req, payload) # rs) b =
     (let (b1, out) = serve ops req payload b; (b2, outs) = serve_all ops rs b1 in (b2, out # outs))"

inductive disk_run ::
  "nat \<Rightarrow> bool \<Rightarrow> byte list \<Rightarrow> (request \<times> byte list) list \<Rightarrow> serve_outcome list \<Rightarrow> byte list \<Rightarrow> bool"
  for block ro where
  run_nil: "disk_run block ro d [] [] d"
| run_cons: "served block ro req payload d d1 out \<Longrightarrow> disk_run block ro d1 rs outs d' \<Longrightarrow>
     disk_run block ro d ((req, payload) # rs) (out # outs) d'"

context block_device
begin

lemma serve_all_inv: "inv b \<Longrightarrow> serve_all ops rs b = (b', outs) \<Longrightarrow> inv b'"
proof (induction rs arbitrary: b outs)
  case (Cons r rs)
  obtain req payload where r: "r = (req, payload)" by (cases r)
  obtain b1 out where s: "serve ops req payload b = (b1, out)" by fastforce
  obtain b2 os where o: "serve_all ops rs b1 = (b2, os)" by fastforce
  have "inv b1" by (rule serve_keeps_inv [OF Cons.prems(1) s])
  then show ?case using Cons.IH [of b1 os] Cons.prems(2) s o r by simp
qed simp

lemma serve_all_run:
  assumes "\<And>b. inv b \<Longrightarrow> be_block_size ops b = block \<and> be_is_read_only ops b = ro"
    and "inv b" "serve_all ops rs b = (b', outs)"
  shows "inv b' \<and> disk_run block ro (disk b) rs outs (disk b')"
  using assms(2,3)
proof (induction rs arbitrary: b outs)
  case Nil
  then show ?case by (auto intro: disk_run.run_nil)
next
  case (Cons r rs)
  obtain req payload where r: "r = (req, payload)" by (cases r)
  obtain b1 out where s: "serve ops req payload b = (b1, out)" by fastforce
  obtain b2 os where o: "serve_all ops rs b1 = (b2, os)" by fastforce
  have "inv b1" by (rule serve_keeps_inv [OF Cons.prems(1) s])
  moreover have "served block ro req payload (disk b) (disk b1) out"
    using serve_served [OF Cons.prems(1) s] assms(1) [OF Cons.prems(1)] by simp
  ultimately show ?case
    using Cons.IH [of b1 os] Cons.prems(2) s o r by (auto intro: disk_run.run_cons)
qed

end

end
