(* ===== verification/Backends.thy ===== *)
theory Backends
  imports Block_Request
begin

text \<open>
  The storage backends that are adapters: a VRAM region (\<^verbatim>\<open>crates/ramshared-block/src/vram_backend.rs\<close>),
  plain memory, and the window of one slice over another backend
  (\<^verbatim>\<open>crates/ramshared-wsl2d/src/backend.rs\<close>). Each is shown to be a device in the sense of the
  dispatch, so what was proved there holds for it; the window moreover never reaches outside its
  range.
\<close>

subsection \<open>A VRAM region as a block device\<close>

fun vram_display :: "vram_error \<Rightarrow> string" where
  "vram_display (VrProvider m) = ''vram provider: '' @ m"
| "vram_display (VrOutOfRange off len sz) =
     ''vram out-of-range: off='' @ show_nat off @ '' len='' @ show_nat len @ '' size='' @ show_nat sz"
| "vram_display VrOutOfMemory = ''vram out of memory''"
| "vram_display VrInvalidAlignment = ''vram invalid alignment''"
| "vram_display VrBusy = ''vram busy''"

definition io_of_vram :: "vram_error \<Rightarrow> io_error" where
  "io_of_vram e = IoError (vram_display e)"

record 'm vram_backend =
  vb_mem :: 'm
  vb_block_size :: nat

definition vram_backend_new :: "'m \<Rightarrow> nat \<Rightarrow> 'm vram_backend" where
  "vram_backend_new m block_size = \<lparr>vb_mem = m, vb_block_size = block_size\<rparr>"

definition vb_zero ::
  "'m mem_ops \<Rightarrow> 'm vram_backend \<Rightarrow> 'm vram_backend \<times> (unit, vram_error) result" where
  "vb_zero mops b = (let (m, r) = mo_zero mops (vb_mem b) in (b\<lparr>vb_mem := m\<rparr>, r))"

definition vb_read_at ::
  "'m mem_ops \<Rightarrow> 'm vram_backend \<Rightarrow> nat \<Rightarrow> nat \<Rightarrow> 'm vram_backend \<times> (byte list, io_error) result" where
  "vb_read_at mops b off n = (b, map_err io_of_vram (mo_read mops (vb_mem b) off n))"

definition vb_write_at ::
  "'m mem_ops \<Rightarrow> 'm vram_backend \<Rightarrow> nat \<Rightarrow> byte list \<Rightarrow> 'm vram_backend \<times> (unit, io_error) result" where
  "vb_write_at mops b off bs =
     (let (m, r) = mo_write mops (vb_mem b) off bs in (b\<lparr>vb_mem := m\<rparr>, map_err io_of_vram r))"

definition vb_flush :: "'m vram_backend \<Rightarrow> 'm vram_backend \<times> (unit, io_error) result" where
  "vb_flush b = (b, Ok ())"

definition vram_backend_ops :: "'m mem_ops \<Rightarrow> 'm vram_backend backend_ops" where
  "vram_backend_ops mops =
     \<lparr>be_size_bytes = (\<lambda>b. mo_len mops (vb_mem b)), be_block_size = vb_block_size,
      be_is_read_only = (\<lambda>_. False), be_read_at = vb_read_at mops,
      be_write_at = vb_write_at mops,
      be_write_at_with_options = default_write_with_options (vb_write_at mops) vb_flush,
      be_flush = vb_flush\<rparr>"

lemma default_write_no_flush:
  "(\<And>b. flush b = (b, Ok ())) \<Longrightarrow> default_write_with_options w flush b off bs opt = w b off bs"
  by (cases "w b off bs") (auto simp: default_write_with_options_def split: result.split)

context vram_memory
begin

lemma vb_write_law:
  assumes "wf (vb_mem b)" "be_write_at_with_options (vram_backend_ops ops) b off bs opt = (b', r)"
  shows "wf (vb_mem b') \<and> agree_outside off (length bs) (contents (vb_mem b)) (contents (vb_mem b')) \<and>
    (r = Ok () \<longrightarrow> contents (vb_mem b') = write_range off bs (contents (vb_mem b)))"
proof -
  obtain m s where w: "mo_write ops (vb_mem b) off bs = (m, s)" by fastforce
  have "b' = b\<lparr>vb_mem := m\<rparr>" "r = map_err io_of_vram s"
    using assms(2) w default_write_no_flush [of vb_flush "vb_write_at ops" b off bs opt]
    by (auto simp: vram_backend_ops_def vb_flush_def vb_write_at_def)
  with mem_write [OF assms(1) w] show ?thesis by auto
qed

end

sublocale vram_memory \<subseteq> vram_dev: volatile_device "vram_backend_ops ops"
  "\<lambda>b. contents (vb_mem b)" "\<lambda>b. wf (vb_mem b) \<and> length (contents (vb_mem b)) \<le> u64_max"
proof
  fix b b' :: "'m vram_backend" and off bs opt r
  assume i: "wf (vb_mem b) \<and> length (contents (vb_mem b)) \<le> u64_max"
    and w: "be_write_at_with_options (vram_backend_ops ops) b off bs opt = (b', r)"
  note law = vb_write_law [OF conjunct1 [OF i] w]
  then show "agree_outside off (length bs) (contents (vb_mem b)) (contents (vb_mem b'))" by blast
  from law i show "(wf (vb_mem b') \<and> length (contents (vb_mem b')) \<le> u64_max) \<and>
      length (contents (vb_mem b')) = length (contents (vb_mem b)) \<and>
      (r = Ok () \<longrightarrow> contents (vb_mem b') = write_range off bs (contents (vb_mem b))) \<and>
      (\<not> wo_fua opt \<longrightarrow> agree_outside off (length bs) (contents (vb_mem b)) (contents (vb_mem b')))"
    by (auto simp: agree_outside_def)
qed (auto simp: vram_backend_ops_def mem_len vb_read_at_def vb_flush_def default_write_no_flush
      dest: mem_read)

subsection \<open>Plain memory\<close>

definition UBLK_SECTOR_SIZE :: nat where "UBLK_SECTOR_SIZE = 512"

record ram_backend =
  rb_data :: "byte list"
  rb_block_size :: nat

definition ram_backend_new :: "nat \<Rightarrow> ram_backend" where
  "ram_backend_new sz = \<lparr>rb_data = replicate sz 0, rb_block_size = UBLK_SECTOR_SIZE\<rparr>"

definition rb_range :: "ram_backend \<Rightarrow> nat \<Rightarrow> nat \<Rightarrow> (nat \<times> nat) option" where
  "rb_range b off len =
     (case checked_add u64_max off len of
        None \<Rightarrow> None
      | Some e \<Rightarrow> if e \<le> length (rb_data b) then Some (off, e) else None)"

definition rb_read_at :: "ram_backend \<Rightarrow> nat \<Rightarrow> nat \<Rightarrow> ram_backend \<times> (byte list, io_error) result" where
  "rb_read_at b off n =
     (case rb_range b off n of
        None \<Rightarrow> (b, Err (IoError ''RamBackend read out of range''))
      | Some (start, e) \<Rightarrow> (b, Ok (read_range start (e - start) (rb_data b))))"

definition rb_write_at ::
  "ram_backend \<Rightarrow> nat \<Rightarrow> byte list \<Rightarrow> ram_backend \<times> (unit, io_error) result" where
  "rb_write_at b off bs =
     (case rb_range b off (length bs) of
        None \<Rightarrow> (b, Err (IoError ''RamBackend write out of range''))
      | Some (start, e) \<Rightarrow> (b\<lparr>rb_data := write_range start bs (rb_data b)\<rparr>, Ok ()))"

definition rb_flush :: "ram_backend \<Rightarrow> ram_backend \<times> (unit, io_error) result" where
  "rb_flush b = (b, Ok ())"

definition ram_backend_ops :: "ram_backend backend_ops" where
  "ram_backend_ops =
     \<lparr>be_size_bytes = (\<lambda>b. length (rb_data b)), be_block_size = rb_block_size,
      be_is_read_only = (\<lambda>_. False), be_read_at = rb_read_at, be_write_at = rb_write_at,
      be_write_at_with_options = default_write_with_options rb_write_at rb_flush,
      be_flush = rb_flush\<rparr>"

interpretation ram_dev: volatile_device ram_backend_ops rb_data "\<lambda>b. length (rb_data b) \<le> u64_max"
proof
  fix b b' :: ram_backend and off bs opt r
  assume i: "length (rb_data b) \<le> u64_max" "off + length bs \<le> length (rb_data b)"
    and "be_write_at_with_options ram_backend_ops b off bs opt = (b', r)"
  then have "b' = b\<lparr>rb_data := write_range off bs (rb_data b)\<rparr>" "r = Ok ()"
    using default_write_no_flush [of rb_flush rb_write_at b off bs opt]
    by (auto simp: ram_backend_ops_def rb_flush_def rb_write_at_def rb_range_def checked_add_def
        split: if_splits)
  with i show "agree_outside off (length bs) (rb_data b) (rb_data b')"
    "length (rb_data b') \<le> u64_max \<and> length (rb_data b') = length (rb_data b) \<and>
     (r = Ok () \<longrightarrow> rb_data b' = write_range off bs (rb_data b)) \<and>
     (\<not> wo_fua opt \<longrightarrow> agree_outside off (length bs) (rb_data b) (rb_data b'))"
    by (auto simp: store_simps agree_outside_write_range)
qed (auto simp: ram_backend_ops_def rb_flush_def default_write_no_flush rb_read_at_def rb_range_def checked_add_def
      split: if_splits)

subsection \<open>The window of a slice\<close>

text \<open>\<open>SliceView\<close> borrows the inner backend; its state is the inner state.\<close>

definition sv_read_at ::
  "'b backend_ops \<Rightarrow> nat \<Rightarrow> 'b \<Rightarrow> nat \<Rightarrow> nat \<Rightarrow> 'b \<times> (byte list, io_error) result" where
  "sv_read_at inner base b off n =
     (case checked_add u64_max base off of
        None \<Rightarrow> (b, Err (IoError ''SliceView read offset overflow''))
      | Some p \<Rightarrow> be_read_at inner b p n)"

definition sv_write_at ::
  "'b backend_ops \<Rightarrow> nat \<Rightarrow> 'b \<Rightarrow> nat \<Rightarrow> byte list \<Rightarrow> 'b \<times> (unit, io_error) result" where
  "sv_write_at inner base b off bs =
     (case checked_add u64_max base off of
        None \<Rightarrow> (b, Err (IoError ''SliceView write offset overflow''))
      | Some p \<Rightarrow> be_write_at inner b p bs)"

definition sv_write_at_with_options ::
  "'b backend_ops \<Rightarrow> nat \<Rightarrow> 'b \<Rightarrow> nat \<Rightarrow> byte list \<Rightarrow> write_options \<Rightarrow>
   'b \<times> (unit, io_error) result" where
  "sv_write_at_with_options inner base b off bs options =
     (case checked_add u64_max base off of
        None \<Rightarrow> (b, Err (IoError ''SliceView write offset overflow''))
      | Some p \<Rightarrow> be_write_at_with_options inner b p bs options)"

definition slice_view_ops :: "'b backend_ops \<Rightarrow> nat \<Rightarrow> nat \<Rightarrow> 'b backend_ops" where
  "slice_view_ops inner base len =
     \<lparr>be_size_bytes = (\<lambda>_. len), be_block_size = be_block_size inner,
      be_is_read_only = (\<lambda>_. False), be_read_at = sv_read_at inner base,
      be_write_at = sv_write_at inner base,
      be_write_at_with_options = sv_write_at_with_options inner base,
      be_flush = be_flush inner\<rparr>"

lemma read_range_write_range_window:
  assumes "base + len \<le> length d" "off + length bs \<le> len"
  shows "read_range base len (write_range (base + off) bs d) = write_range off bs (read_range base len d)"
proof (rule nth_equalityI)
  fix i assume "i < length (read_range base len (write_range (base + off) bs d))"
  then have "i < len" using assms by (simp add: store_simps)
  with assms show "read_range base len (write_range (base + off) bs d) ! i =
      write_range off bs (read_range base len d) ! i"
    by (simp add: store_simps)
qed (use assms in \<open>simp add: store_simps\<close>)

lemma agree_outside_window:
  assumes "agree_outside (base + off) n d d'" "off + n \<le> len" "base + len \<le> length d"
  shows "agree_outside off n (read_range base len d) (read_range base len d')"
    and "agree_outside base len d d'"
  using assms by (auto simp: agree_outside_def store_simps)

text \<open>The one call that serving a request makes on its backend, if any.\<close>

lemma serve_calls:
  assumes "serve ops req payload b = (b', out)"
  shows "b' = b \<or>
    (rq_validate ops req b = Ok () \<and> (\<exists>r. be_read_at ops b (rq_offset req) (rq_len req) = (b', r))) \<or>
    (rq_validate ops req b = Ok () \<and> length payload = rq_len req \<and>
       (\<exists>opt r. be_write_at_with_options ops b (rq_offset req) payload opt = (b', r))) \<or>
    (\<exists>r. be_flush ops b = (b', r))"
  using assms unfolding serve_def
  by (auto split: result.splits command.splits prod.splits if_splits)

lemma rq_validate_range: "rq_validate ops req b = Ok () \<Longrightarrow> rq_offset req + rq_len req \<le> be_size_bytes ops b"
  by (auto simp: rq_validate_def Let_def checked_add_def split: if_splits)

context volatile_device
begin

text \<open>The window of a device is a device.\<close>

lemma slice_view_device:
  "volatile_device (slice_view_ops ops base len) (\<lambda>b. read_range base len (disk b))
    (\<lambda>b. inv b \<and> base + len \<le> length (disk b))"
proof
  fix b off n b' res
  assume i: "inv b \<and> base + len \<le> length (disk b)" and le: "off + n \<le> length (read_range base len (disk b))"
    and "be_read_at (slice_view_ops ops base len) b off n = (b', res)"
  moreover have "off + n \<le> len" using le i by (simp add: store_simps)
  moreover have "base + off \<le> u64_max" using dev_size [of b] i \<open>off + n \<le> len\<close> by simp
  ultimately show "(inv b' \<and> base + len \<le> length (disk b')) \<and>
      read_range base len (disk b') = read_range base len (disk b) \<and>
      (\<forall>bs. res = Ok bs \<longrightarrow> bs = read_range off n (read_range base len (disk b)))"
    using dev_read [of b "base + off" n b' res]
    by (auto simp: slice_view_ops_def sv_read_at_def checked_add_def read_range_read_range)
next
  fix b off bs opt b' r
  assume i: "inv b \<and> base + len \<le> length (disk b)"
    and le: "off + length bs \<le> length (read_range base len (disk b))"
    and w: "be_write_at_with_options (slice_view_ops ops base len) b off bs opt = (b', r)"
  have len: "off + length bs \<le> len" using le i by (simp add: store_simps)
  moreover have "base + off \<le> u64_max" using dev_size [of b] i len by simp
  ultimately have w: "be_write_at_with_options ops b (base + off) bs opt = (b', r)"
    and r: "base + off + length bs \<le> length (disk b)"
    using w i by (auto simp: slice_view_ops_def sv_write_at_with_options_def checked_add_def)
  have ag: "agree_outside (base + off) (length bs) (disk b) (disk b')"
    using vol_write w r i by blast
  then show "agree_outside off (length bs) (read_range base len (disk b)) (read_range base len (disk b'))"
    using agree_outside_window(1) [OF ag len] i by blast
  then show "(inv b' \<and> base + len \<le> length (disk b')) \<and>
      length (read_range base len (disk b')) = length (read_range base len (disk b)) \<and>
      (r = Ok () \<longrightarrow>
         read_range base len (disk b') = write_range off bs (read_range base len (disk b))) \<and>
      (\<not> wo_fua opt \<longrightarrow>
         agree_outside off (length bs) (read_range base len (disk b)) (read_range base len (disk b')))"
    using dev_write [OF _ r w] i ag len
    by (auto simp: agree_outside_def read_range_write_range_window)
next
  fix b off bs
  assume "inv b \<and> base + len \<le> length (disk b)"
  then show "be_write_at (slice_view_ops ops base len) b off bs =
      be_write_at_with_options (slice_view_ops ops base len) b off bs write_options_default"
    using dev_write_at
    by (simp add: slice_view_ops_def sv_write_at_def sv_write_at_with_options_def split: option.split)
qed (use dev_size dev_flush vol_flush in \<open>fastforce simp: slice_view_ops_def store_simps\<close>)+

text \<open>A request on the window leaves everything outside the window alone.\<close>

lemma slice_view_isolated:
  assumes "inv b" "base + len \<le> length (disk b)"
    and "serve (slice_view_ops ops base len) req payload b = (b', out)"
  shows "agree_outside base len (disk b) (disk b')"
proof -
  let ?w = "slice_view_ops ops base len"
  have range: "base + rq_offset req \<le> u64_max"
    "base + rq_offset req + rq_len req \<le> length (disk b)" if "rq_validate ?w req b = Ok ()"
    using rq_validate_range [OF that] assms(2) dev_size [OF assms(1)]
    by (simp_all add: slice_view_ops_def)
  consider "b' = b"
    | r where "rq_validate ?w req b = Ok ()" "be_read_at ?w b (rq_offset req) (rq_len req) = (b', r)"
    | opt r where "rq_validate ?w req b = Ok ()" "length payload = rq_len req"
        "be_write_at_with_options ?w b (rq_offset req) payload opt = (b', r)"
    | r where "be_flush ?w b = (b', r)"
    using serve_calls [OF assms(3)] by blast
  then show ?thesis
  proof cases
    case 2
    with range dev_read [OF assms(1), of "base + rq_offset req" "rq_len req" b' r]
    have "disk b' = disk b" by (simp add: slice_view_ops_def sv_read_at_def checked_add_def)
    then show ?thesis by (simp add: agree_outside_refl)
  next
    case 3
    with range have "be_write_at_with_options ops b (base + rq_offset req) payload opt = (b', r)"
      by (simp add: slice_view_ops_def sv_write_at_with_options_def checked_add_def)
    from vol_write [OF assms(1) _ this] 3 range
    have "agree_outside (base + rq_offset req) (length payload) (disk b) (disk b')" by simp
    then show ?thesis
      by (rule agree_outside_window(2))
        (use 3 rq_validate_range [OF 3(1)] assms(2) in \<open>simp_all add: slice_view_ops_def\<close>)
  next
    case 4
    then show ?thesis using vol_flush [OF assms(1)] by (simp add: slice_view_ops_def agree_outside_refl)
  qed (simp add: agree_outside_refl)
qed


end

interpretation ram_slice: volatile_device "slice_view_ops ram_backend_ops base len"
  "\<lambda>b. read_range base len (rb_data b)"
  "\<lambda>b. length (rb_data b) \<le> u64_max \<and> base + len \<le> length (rb_data b)" for base len
  by (rule ram_dev.slice_view_device)

end
