(* ===== verification/Integrity.thy ===== *)
theory Integrity
  imports Byte_Store
begin

text \<open>
  Block integrity (\<^verbatim>\<open>crates/ramshared-integrity\<close>): the reproducible test patterns with their
  verifier, and the table of FNV-1a checksums. The verifier accepts exactly the pattern and classifies
  what it rejects; the checksum separates any two blocks that differ in one byte.
\<close>

unbundle bit_operations_syntax

subsection \<open>Patterns\<close>

datatype pattern = PatZero | PatSequential | PatRandom

datatype integrity_error =
    CorruptedMemory nat byte
  | SingleBitError nat nat
  | InvalidStride nat nat

fun fill_random :: "nat \<Rightarrow> 64 word \<Rightarrow> byte list" where
  "fill_random 0 s = []"
| "fill_random (Suc n) s =
     (let s1 = s XOR push_bit 13 s;
          s2 = s1 XOR drop_bit 7 s1;
          s3 = s2 XOR push_bit 17 s2
      in ucast (s3 AND 0xff) # fill_random n s3)"

fun fill_block :: "nat \<Rightarrow> 64 word \<Rightarrow> pattern \<Rightarrow> byte list" where
  "fill_block n idx PatZero = replicate n 0"
| "fill_block n idx PatSequential = map (\<lambda>i. ucast ((idx + of_nat i) AND 0xff)) [0..<n]"
| "fill_block n idx PatRandom = fill_random n (idx * 0x9e3779b97f4a7c15 OR 1)"

definition count_ones :: "byte \<Rightarrow> nat" where
  "count_ones b = length (filter (bit b) [0..<8])"

definition trailing_zeros :: "byte \<Rightarrow> nat" where
  "trailing_zeros b = length (takeWhile (\<lambda>i. \<not> bit b i) [0..<8])"

fun verify_bytes ::
  "nat \<Rightarrow> (nat \<times> byte \<times> nat) option \<Rightarrow> (byte \<times> byte) list \<Rightarrow> (unit, integrity_error) result" where
  "verify_bytes off None [] = Ok ()"
| "verify_bytes off (Some (first, d, bi)) [] = Err (SingleBitError first bi)"
| "verify_bytes off single ((actual, expected) # rest) =
     (if actual \<noteq> expected then
        let diff = actual XOR expected
        in (if count_ones diff = 1 then
              (case single of
                 Some (first, d, _) \<Rightarrow> Err (CorruptedMemory first d)
               | None \<Rightarrow> verify_bytes (off + 1) (Some (off, diff, trailing_zeros diff)) rest)
            else (case single of
                    Some (first, d, _) \<Rightarrow> Err (CorruptedMemory first d)
                  | None \<Rightarrow> Err (CorruptedMemory off diff)))
      else verify_bytes (off + 1) single rest)"

definition verify_block :: "byte list \<Rightarrow> 64 word \<Rightarrow> pattern \<Rightarrow> (unit, integrity_error) result" where
  "verify_block buf idx kind =
     (let page_size = 4096; stride = length buf
      in if stride = 0 \<or> page_size mod stride \<noteq> 0 then Err (InvalidStride stride page_size)
         else verify_bytes 0 None (zip buf (fill_block stride idx kind)))"

subsection \<open>Checksums\<close>

definition FNV_OFFSET :: "64 word" where "FNV_OFFSET = 0xcbf29ce484222325"
definition FNV_PRIME :: "64 word" where "FNV_PRIME = 0x100000001b3"

definition fnv_step :: "64 word \<Rightarrow> byte \<Rightarrow> 64 word" where
  "fnv_step h b = (h XOR ucast b) * FNV_PRIME"

definition block_hash :: "byte list \<Rightarrow> 64 word" where
  "block_hash data = foldl fnv_step FNV_OFFSET data"

record checksum_table =
  ct_sums :: "64 word option list"

definition ct_new :: "nat \<Rightarrow> checksum_table" where
  "ct_new n_blocks = \<lparr>ct_sums = replicate n_blocks None\<rparr>"

definition is_power_of_two :: "nat \<Rightarrow> bool" where
  "is_power_of_two n \<longleftrightarrow> (\<exists>k \<in> {..<64}. n = 2 ^ k)"

definition ct_bad_buffer :: "byte list \<Rightarrow> bool" where
  "ct_bad_buffer data \<longleftrightarrow> data = [] \<or> length data < 512 \<or> \<not> is_power_of_two (length data)"

definition ct_record :: "checksum_table \<Rightarrow> nat \<Rightarrow> byte list \<Rightarrow> checksum_table \<times> bool" where
  "ct_record t idx data =
     (if ct_bad_buffer data then (t, False)
      else if idx \<ge> length (ct_sums t) then (t, False)
      else (t\<lparr>ct_sums := (ct_sums t)[idx := Some (block_hash data)]\<rparr>, True))"

definition ct_verify :: "checksum_table \<Rightarrow> nat \<Rightarrow> byte list \<Rightarrow> bool option" where
  "ct_verify t idx data =
     (if ct_bad_buffer data then Some False
      else if idx \<ge> length (ct_sums t) then Some False
      else (case ct_sums t ! idx of
              None \<Rightarrow> None
            | Some expected \<Rightarrow> Some (expected = block_hash data)))"

subsection \<open>The verifier is exact\<close>

lemma length_fill_random [simp]: "length (fill_random n s) = n"
  by (induction n arbitrary: s) (simp_all add: Let_def)

lemma length_fill_block [simp]: "length (fill_block n idx kind) = n"
  by (cases kind) simp_all

text \<open>The positions at which a block deviates.\<close>

definition deviations :: "(byte \<times> byte) list \<Rightarrow> nat list" where
  "deviations ps = filter (\<lambda>i. fst (ps ! i) \<noteq> snd (ps ! i)) [0..<length ps]"

definition flips :: "(byte \<times> byte) list \<Rightarrow> nat \<Rightarrow> byte" where
  "flips ps i = fst (ps ! i) XOR snd (ps ! i)"

lemma deviations_Cons:
  "deviations (p # ps) = (if fst p \<noteq> snd p then [0] else []) @ map Suc (deviations ps)"
proof -
  have "[0..<length (p # ps)] = 0 # map Suc [0..<length ps]" by (simp add: map_Suc_upt upt_conv_Cons del: upt_Suc)
  then show ?thesis by (simp add: deviations_def filter_map comp_def)
qed

fun report :: "(nat \<times> byte) list \<Rightarrow> (unit, integrity_error) result" where
  "report [] = Ok ()"
| "report [(i, d)] = (if count_ones d = 1 then Err (SingleBitError i (trailing_zeros d))
                      else Err (CorruptedMemory i d))"
| "report ((i, d) # _ # _) = Err (CorruptedMemory i d)"

definition deviation_list :: "nat \<Rightarrow> (byte \<times> byte) list \<Rightarrow> (nat \<times> byte) list" where
  "deviation_list off ps = map (\<lambda>i. (off + i, flips ps i)) (deviations ps)"

lemma deviation_list_Cons:
  "deviation_list off (p # ps) =
    (if fst p \<noteq> snd p then [(off, fst p XOR snd p)] else []) @ deviation_list (off + 1) ps"
  by (simp add: deviation_list_def deviations_Cons flips_def comp_def)

lemma verify_bytes_report:
  "verify_bytes off single ps =
    (case single of
       None \<Rightarrow> report (deviation_list off ps)
     | Some (first, d, b) \<Rightarrow>
         if deviations ps = [] then Err (SingleBitError first b) else Err (CorruptedMemory first d))"
proof (induction ps arbitrary: off single)
  case Nil
  then show ?case by (cases single) (auto simp: deviation_list_def deviations_def)
next
  case (Cons p ps)
  obtain a e where p: "p = (a, e)" by (cases p)
  have r: "report ((off, d) # deviation_list (Suc off) ps) =
      (if deviations ps \<noteq> [] then Err (CorruptedMemory off d) else report [(off, d)])" for d
    by (cases "deviations ps") (simp_all add: deviation_list_def)
  show ?case
    by (cases single) (auto simp: p Cons.IH deviation_list_Cons deviations_Cons Let_def r
        split: if_splits)
qed

lemma deviations_Nil:
  "length xs = length ys \<Longrightarrow> deviations (zip xs ys) = [] \<longleftrightarrow> xs = ys"
  by (induction xs ys rule: list_induct2) (auto simp: deviations_Cons, simp add: deviations_def)

lemma report_Ok [simp]: "report ds = Ok () \<longleftrightarrow> ds = []"
  by (cases ds rule: report.cases) auto

lemma verify_block_iff:
  "verify_block buf idx kind = Ok () \<longleftrightarrow>
     length buf dvd 4096 \<and> buf = fill_block (length buf) idx kind"
  by (auto simp: verify_block_def Let_def verify_bytes_report deviation_list_def deviations_Nil
      mod_eq_0_iff_dvd)

text \<open>
  The pattern verifier is exact. A buffer verifies if and only if its length divides the page
  size and it is, byte for byte, the pattern that \<open>fill_block\<close> generates for that block.
\<close>

theorem verify_block_exact:
  "verify_block buf idx kind = Ok () \<longleftrightarrow>
     length buf dvd 4096 \<and> buf = fill_block (length buf) idx kind"
  by (rule verify_block_iff)

text \<open>A rejected buffer of valid length is reported at its first deviation.\<close>

lemma verify_block_report:
  "buf \<noteq> [] \<Longrightarrow> length buf dvd 4096 \<Longrightarrow>
   verify_block buf idx kind = report (deviation_list 0 (zip buf (fill_block (length buf) idx kind)))"
  by (simp add: verify_block_def Let_def verify_bytes_report mod_eq_0_iff_dvd)

subsection \<open>The checksum detects a corrupted byte\<close>

lemma fnv_prime_unit: "FNV_PRIME * 0xce965057aff6957b = 1"
  by (simp add: FNV_PRIME_def)

lemma fnv_prime_cancel: "a * FNV_PRIME = b * FNV_PRIME \<longleftrightarrow> a = b"
proof
  assume "a * FNV_PRIME = b * FNV_PRIME"
  then have "a * FNV_PRIME * 0xce965057aff6957b = b * FNV_PRIME * 0xce965057aff6957b" by (rule arg_cong)
  then show "a = b" by (simp only: mult.assoc fnv_prime_unit mult_1_right)
qed simp

lemma word_xor_cancel: "(a :: 'a::len word) XOR x = b XOR x \<longleftrightarrow> a = b"
proof
  assume "a XOR x = b XOR x"
  then have "(a XOR x) XOR x = (b XOR x) XOR x" by simp
  then show "a = b" by (simp only: xor.assoc xor_self_eq xor.right_neutral)
qed simp

lemma fnv_step_inj: "fnv_step g b = fnv_step h b \<longleftrightarrow> g = h"
  unfolding fnv_step_def fnv_prime_cancel by (rule word_xor_cancel)

lemma ucast_byte_inj: "(ucast (b :: byte) :: 64 word) = ucast c \<longleftrightarrow> b = c"
proof
  assume "(ucast b :: 64 word) = ucast c"
  then have "uint (ucast b :: 64 word) = uint (ucast c :: 64 word)" by simp
  moreover have "take_bit 64 (uint x) = uint x" for x :: byte
    using uint_lt2p [of x] by (simp add: take_bit_int_eq_self)
  ultimately show "b = c" by (simp add: unsigned_ucast_eq word_uint_eq_iff)
qed simp

lemma fnv_step_byte: "fnv_step h b = fnv_step h c \<longleftrightarrow> b = c"
  unfolding fnv_step_def fnv_prime_cancel xor.commute [of h] word_xor_cancel by (rule ucast_byte_inj)

lemma foldl_fnv_inj: "foldl fnv_step g bs = foldl fnv_step h bs \<longleftrightarrow> g = h"
  by (induction bs arbitrary: g h) (simp_all add: fnv_step_inj)

lemma block_hash_one_byte:
  "i < length data \<Longrightarrow> block_hash (data[i := b]) = block_hash data \<longleftrightarrow> b = data ! i"
  unfolding block_hash_def
  by (subst (2) id_take_nth_drop [of i data])
    (simp_all add: upd_conv_take_nth_drop foldl_fnv_inj fnv_step_byte)

text \<open>
  The checksum table detects every corruption confined to one byte. Once the hash of a block
  is recorded, verifying that slot with the same block succeeds, and verifying it with any block that
  differs from it in exactly one byte fails: FNV-1a never collides on such a pair.
\<close>

theorem checksum_detects_byte:
  assumes "ct_record t idx data = (t', True)" "i < length data"
  shows "ct_verify t' idx (data[i := b]) = Some (b = data ! i)"
  using assms block_hash_one_byte [OF assms(2), of b]
  by (auto simp: ct_record_def ct_verify_def ct_bad_buffer_def split: if_splits)

lemma is_power_of_two_512: "is_power_of_two 512"
  unfolding is_power_of_two_def by (rule bexI [of _ 9]) simp_all

theorem checksum_detects_byte_witness:
  "\<exists>t. ct_record (ct_new 2) 1 (replicate 512 7) = (t, True) \<and>
     ct_verify t 1 ((replicate 512 7)[5 := 8]) = Some False"
proof -
  obtain t where t: "ct_record (ct_new 2) 1 (replicate 512 7) = (t, True)"
    by (simp add: ct_record_def ct_new_def ct_bad_buffer_def is_power_of_two_512)
  with checksum_detects_byte [OF t, of 5 8] show ?thesis by auto
qed

end
