(* ===== verification/Residency.thy ===== *)
theory Residency
  imports Vram Integrity Rust_Text
begin

text \<open>
  Detection of evicted VRAM (\<^verbatim>\<open>crates/ramshared-wsl2d/src/residency.rs\<close>,
  \<^verbatim>\<open>canary_probe.rs\<close>, and \<^verbatim>\<open>residency_check\<close> of \<^verbatim>\<open>main.rs\<close>) and the headroom governor
  (\<^verbatim>\<open>governor.rs\<close>). Counters that the source increments with \<open>+=\<close> wrap around at their width, as
  a release build does.
\<close>

subsection \<open>Verdicts\<close>

record residency_config =
  rc_latency_mult :: nat
  rc_consecutive :: nat
  rc_free_floor_bytes :: nat

definition residency_config_default :: residency_config where
  "residency_config_default =
     \<lparr>rc_latency_mult = 64, rc_consecutive = 3, rc_free_floor_bytes = 64 * 1024 * 1024\<rparr>"

definition validate_limits :: "residency_config \<Rightarrow> nat \<Rightarrow> nat option \<Rightarrow> (unit, string) result" where
  "validate_limits cfg system_total_bytes cgroup_max_bytes =
     (let max_limit = min (case cgroup_max_bytes of None \<Rightarrow> u64_max | Some m \<Rightarrow> m) system_total_bytes
      in if rc_free_floor_bytes cfg = 0 then Err ''free_floor_bytes cannot be zero''
         else if rc_free_floor_bytes cfg > max_limit then
           Err (''free_floor_bytes ('' @ show_nat (rc_free_floor_bytes cfg) @
                '') exceeds physical memory limit ('' @ show_nat max_limit @ '')'')
         else Ok ())"

datatype demote_reason = Latency | Corruption | FreeFloor | GpuLost | IoErrorBurst

fun demote_reason_str :: "demote_reason \<Rightarrow> string" where
  "demote_reason_str Latency = ''Latency''"
| "demote_reason_str Corruption = ''Corruption''"
| "demote_reason_str FreeFloor = ''FreeFloor''"
| "demote_reason_str GpuLost = ''GpuLost''"
| "demote_reason_str IoErrorBurst = ''IoErrorBurst''"

datatype verdict = VerdictOk | VerdictDemote demote_reason

datatype residency_error = ProcfsMissing | MalformedMetric

definition parse_cgroup_metric :: "string option \<Rightarrow> (nat, residency_error) result" where
  "parse_cgroup_metric content =
     (case content of
        None \<Rightarrow> Err ProcfsMissing
      | Some s \<Rightarrow>
          (case parse_uint u64_max (trim s) of None \<Rightarrow> Err MalformedMetric | Some n \<Rightarrow> Ok n))"

subsection \<open>The latency canary\<close>

record canary =
  cn_cfg :: residency_config
  cn_baseline_us :: nat
  cn_over_count :: nat

definition canary_new :: "residency_config \<Rightarrow> nat \<Rightarrow> canary" where
  "canary_new cfg baseline_us = \<lparr>cn_cfg = cfg, cn_baseline_us = baseline_us, cn_over_count = 0\<rparr>"

definition cn_threshold :: "canary \<Rightarrow> nat" where
  "cn_threshold c = saturating_mul u64_max (cn_baseline_us c) (rc_latency_mult (cn_cfg c))"

definition canary_sample :: "canary \<Rightarrow> nat \<Rightarrow> bool \<Rightarrow> nat \<Rightarrow> canary \<times> verdict" where
  "canary_sample c latency_us content_ok free_bytes =
     (if \<not> content_ok then (c, VerdictDemote Corruption)
      else if free_bytes < rc_free_floor_bytes (cn_cfg c) then (c, VerdictDemote FreeFloor)
      else if latency_us > cn_threshold c then
        let c1 = c\<lparr>cn_over_count := wrapping_add u32_max (cn_over_count c) 1\<rparr>
        in (c1, if cn_over_count c1 \<ge> rc_consecutive (cn_cfg c1) then VerdictDemote Latency
                else VerdictOk)
      else (c\<lparr>cn_over_count := 0\<rparr>, VerdictOk))"

subsection \<open>The probe sampler\<close>

record residency_sampler =
  rs_cfg :: residency_config
  rs_bad_streak :: nat

definition residency_sampler_new :: "residency_config \<Rightarrow> residency_sampler" where
  "residency_sampler_new cfg = \<lparr>rs_cfg = cfg, rs_bad_streak = 0\<rparr>"

definition rs_degraded :: "residency_config \<Rightarrow> bool option \<Rightarrow> nat option \<Rightarrow> bool" where
  "rs_degraded cfg content free \<longleftrightarrow>
     content = None \<or> free = None \<or> (\<exists>f \<in> set_option free. f < rc_free_floor_bytes cfg)"

definition sampler_sample ::
  "residency_sampler \<Rightarrow> bool option \<Rightarrow> nat option \<Rightarrow> residency_sampler \<times> verdict" where
  "sampler_sample s content free =
     (if content = Some False then (s, VerdictDemote Corruption)
      else if rs_degraded (rs_cfg s) content free then
        let s1 = s\<lparr>rs_bad_streak := wrapping_add u32_max (rs_bad_streak s) 1\<rparr>
        in (s1, if rs_bad_streak s1 \<ge> rc_consecutive (rs_cfg s1) then VerdictDemote FreeFloor
                else VerdictOk)
      else (s\<lparr>rs_bad_streak := 0\<rparr>, VerdictOk))"

subsection \<open>Cadence and content probe\<close>

definition CANARY_BYTES :: nat where "CANARY_BYTES = 4096"
definition CANARY_EVERY :: nat where "CANARY_EVERY = 64"

record cadence =
  cd_count :: nat
  cd_interval :: nat

definition cadence_new :: "nat \<Rightarrow> cadence" where
  "cadence_new interval = \<lparr>cd_count = 0, cd_interval = max interval 1\<rparr>"

definition cadence_tick :: "cadence \<Rightarrow> cadence \<times> bool" where
  "cadence_tick c =
     (let n = wrapping_add u64_max (cd_count c) 1
      in if n \<ge> cd_interval c then (c\<lparr>cd_count := 0\<rparr>, True) else (c\<lparr>cd_count := n\<rparr>, False))"

definition cadence_reset :: "cadence \<Rightarrow> cadence" where
  "cadence_reset c = c\<lparr>cd_count := 0\<rparr>"

text \<open>The two buffers of the probe are refilled before each use and are not part of the state.\<close>

record 'm canary_probe =
  cp_region :: 'm
  cp_seq :: nat

definition canary_probe_new :: "'m \<Rightarrow> 'm canary_probe" where
  "canary_probe_new region = \<lparr>cp_region = region, cp_seq = 0\<rparr>"

definition check_content ::
  "'m mem_ops \<Rightarrow> 'm canary_probe \<Rightarrow> 'm canary_probe \<times> (bool, vram_error) result" where
  "check_content mops p =
     (let seq = wrapping_add u64_max (cp_seq p) 1;
          (m, w) = mo_write mops (cp_region p) 0 (fill_block CANARY_BYTES (of_nat seq) PatRandom);
          p1 = \<lparr>cp_region = m, cp_seq = seq\<rparr>
      in case w of
           Err e \<Rightarrow> (p1, Err e)
         | Ok _ \<Rightarrow>
             (case mo_read mops m 0 CANARY_BYTES of
                Err e \<Rightarrow> (p1, Err e)
              | Ok rbuf \<Rightarrow> (p1, Ok (is_ok (verify_block rbuf (of_nat seq) PatRandom)))))"

definition probe_zero ::
  "'m mem_ops \<Rightarrow> 'm canary_probe \<Rightarrow> 'm canary_probe \<times> (unit, vram_error) result" where
  "probe_zero mops p = (let (m, r) = mo_zero mops (cp_region p) in (p\<lparr>cp_region := m\<rparr>, r))"

subsection \<open>The check after each request\<close>

record 'm residency_check_state =
  rk_canary :: "canary option"
  rk_baseline :: "nat list"
  rk_sampler :: residency_sampler
  rk_cadence :: cadence
  rk_probe :: "'m canary_probe"

definition ok_opt :: "('a, 'e) result \<Rightarrow> 'a option" where
  "ok_opt r = (case r of Ok x \<Rightarrow> Some x | Err _ \<Rightarrow> None)"

definition latency_check ::
  "nat \<Rightarrow> canary option \<times> nat list \<Rightarrow> (canary option \<times> nat list) \<times> demote_reason option" where
  "latency_check lat_us st =
     (case fst st of
        None \<Rightarrow>
          let baseline = snd st @ [lat_us]
          in if length baseline \<ge> 16 then
               let sorted = sort baseline
               in ((Some (canary_new residency_config_default (max (sorted ! (length sorted div 2)) 1)),
                    sorted), None)
             else ((None, baseline), None)
      | Some c \<Rightarrow>
          let (c1, v) = canary_sample c lat_us True u64_max
          in ((Some c1, snd st), case v of VerdictDemote reason \<Rightarrow> Some reason | VerdictOk \<Rightarrow> None))"

definition choose_residency_reason ::
  "demote_reason option \<Rightarrow> demote_reason option \<Rightarrow> demote_reason option" where
  "choose_residency_reason latency probe = (case probe of Some r \<Rightarrow> Some r | None \<Rightarrow> latency)"

definition residency_check ::
  "'m mem_ops \<Rightarrow> nat \<Rightarrow> nat option \<Rightarrow> 'm residency_check_state \<Rightarrow>
   'm residency_check_state \<times> demote_reason option" where
  "residency_check mops lat_us free st =
     (let ((cn, base), latency_reason) = latency_check lat_us (rk_canary st, rk_baseline st);
          (cad, due) = cadence_tick (rk_cadence st);
          st1 = st\<lparr>rk_canary := cn, rk_baseline := base, rk_cadence := cad\<rparr>
      in if due then
           let (p, content) = check_content mops (rk_probe st1);
               (s, v) = sampler_sample (rk_sampler st1) (ok_opt content) free;
               probe_reason = (case v of VerdictDemote reason \<Rightarrow> Some reason | VerdictOk \<Rightarrow> None)
           in (st1\<lparr>rk_probe := p, rk_sampler := s\<rparr>, choose_residency_reason latency_reason probe_reason)
         else (st1, choose_residency_reason latency_reason None))"

definition sparse_residency_config :: "nat \<Rightarrow> residency_config" where
  "sparse_residency_config reserve_floor_bytes =
     residency_config_default\<lparr>rc_free_floor_bytes := reserve_floor_bytes\<rparr>"

definition sparse_residency_requests_swapoff :: "demote_reason \<Rightarrow> bool" where
  "sparse_residency_requests_swapoff reason \<longleftrightarrow> reason \<noteq> Latency"

subsection \<open>The headroom governor\<close>

datatype headroom_zone = Green | Yellow | Red

record governor =
  gv_low :: nat
  gv_high :: nat
  gv_settle :: duration
  gv_zone :: headroom_zone
  gv_candidate :: "instant option"

definition governor_new :: "nat \<Rightarrow> nat \<Rightarrow> duration \<Rightarrow> governor" where
  "governor_new low high settle =
     \<lparr>gv_low = low, gv_high = high, gv_settle = settle, gv_zone = Green, gv_candidate = None\<rparr>"

definition governor_sample :: "governor \<Rightarrow> nat \<Rightarrow> instant \<Rightarrow> governor \<times> headroom_zone \<times> bool" where
  "governor_sample g free now =
     (let g1 =
        (if free < gv_low g then g\<lparr>gv_zone := Red, gv_candidate := None\<rparr>
         else if free < gv_high g then
           g\<lparr>gv_zone := (if gv_zone g = Green then Yellow else gv_zone g), gv_candidate := None\<rparr>
         else if gv_zone g = Green then g\<lparr>gv_candidate := None\<rparr>
         else
           let candidate = (case gv_candidate g of Some t \<Rightarrow> t | None \<Rightarrow> now);
               g0 = g\<lparr>gv_candidate := Some candidate\<rparr>
           in if duration_since now candidate \<ge> gv_settle g
              then g0\<lparr>gv_zone := Green, gv_candidate := None\<rparr> else g0)
      in (g1, gv_zone g1, gv_zone g1 \<noteq> gv_zone g))"

definition is_allocation_allowed :: "governor \<Rightarrow> bool" where
  "is_allocation_allowed g \<longleftrightarrow> gv_zone g = Green"

definition is_eviction_required :: "governor \<Rightarrow> bool" where
  "is_eviction_required g \<longleftrightarrow> gv_zone g = Red"

subsection \<open>Streaks\<close>

text \<open>The number of consecutive hits at the end of a list of samples.\<close>

definition streak :: "('a \<Rightarrow> bool) \<Rightarrow> 'a list \<Rightarrow> nat" where
  "streak P xs = length (takeWhile P (rev xs))"

lemma streak_snoc [simp]: "streak P (xs @ [x]) = (if P x then Suc (streak P xs) else 0)"
  by (simp add: streak_def)

lemma streak_Nil [simp]: "streak P [] = 0"
  by (simp add: streak_def)

lemma streak_le: "streak P xs \<le> length xs"
  unfolding streak_def using length_takeWhile_le [of P "rev xs"] by simp

text \<open>A streak of \<open>k\<close> is a window of \<open>k\<close> hits at the end.\<close>

lemma streak_ge_window:
  "k \<le> streak P xs \<longleftrightarrow> k \<le> length xs \<and> (\<forall>x \<in> set (drop (length xs - k) xs). P x)"
proof (induction xs arbitrary: k rule: rev_induct)
  case (snoc x xs)
  show ?case
  proof (cases k)
    case (Suc j)
    have "drop (length (xs @ [x]) - k) (xs @ [x]) = drop (length xs - j) xs @ [x]" if "j \<le> length xs"
      using that Suc by simp
    then show ?thesis using snoc.IH [of j] Suc by auto
  qed simp
qed simp

text \<open>
  A streaming detector that resets its counter on a miss and fires at a threshold: the counter is the
  streak, so it fires exactly on a full window of hits.
\<close>

locale streak_detector =
  fixes counter :: "'s \<Rightarrow> nat"
    and step :: "'s \<Rightarrow> 'i \<Rightarrow> 's"
    and hit :: "'i \<Rightarrow> bool"
    and start :: 's
    and good :: "'s \<Rightarrow> bool"
  assumes start: "good start" "counter start = 0"
    and step_good: "good s \<Longrightarrow> good (step s i)"
    and step_counter: "good s \<Longrightarrow> counter s < u32_max \<Longrightarrow>
      counter (step s i) = (if hit i then Suc (counter s) else 0)"
begin

lemma counter_streak:
  "length is \<le> u32_max \<Longrightarrow> good (foldl step start is) \<and> counter (foldl step start is) = streak hit is"
proof (induction "is" rule: rev_induct)
  case (snoc x xs)
  then show ?case
    using step_good step_counter [of "foldl step start xs" x] streak_le [of hit xs] by simp
qed (simp add: start)

end

lemma residency_config_default_fields [simp]:
  "rc_latency_mult residency_config_default = 64" "rc_consecutive residency_config_default = 3"
  "rc_free_floor_bytes residency_config_default = 64 * 1024 * 1024"
  by (simp_all add: residency_config_default_def)

interpretation latency_streak: streak_detector cn_over_count
  "\<lambda>c l. fst (canary_sample c l True u64_max)" "\<lambda>l. l > cn_threshold (canary_new residency_config_default base)"
  "canary_new residency_config_default base"
  "\<lambda>c. cn_cfg c = residency_config_default \<and> cn_baseline_us c = base" for base
  by unfold_locales
    (auto simp: canary_new_def canary_sample_def cn_threshold_def u64_max_def u32_max_def wrapping_add_def Let_def)

interpretation sampler_streak: streak_detector rs_bad_streak
  "\<lambda>s (failed, free). fst (sampler_sample s (if failed then None else Some True) free)"
  "\<lambda>(failed, free). failed \<or> free = None \<or> (\<exists>f \<in> set_option free. f < rc_free_floor_bytes cfg)"
  "residency_sampler_new cfg" "\<lambda>s. rs_cfg s = cfg" for cfg
  by unfold_locales
    (auto simp: residency_sampler_new_def sampler_sample_def rs_degraded_def u32_max_def
      wrapping_add_def Let_def split: if_splits)

lemma canary_verdict:
  "cn_cfg c = residency_config_default \<Longrightarrow> cn_over_count c < u32_max \<Longrightarrow>
   snd (canary_sample c l True u64_max) =
     (if l > cn_threshold c \<and> 3 \<le> Suc (cn_over_count c) then VerdictDemote Latency else VerdictOk)"
  by (simp add: canary_sample_def Let_def wrapping_add_def u64_max_def)

text \<open>
  C28. The latency canary is equivalent to a sliding window. Fed a sequence of request latencies, it
  asks for demotion at a request exactly when the last three latencies, this one included, all exceed
  64 times the baseline (saturated at the largest 64-bit value); one good sample anywhere in the
  window prevents it, and earlier history is irrelevant.
\<close>

theorem latency_demotion_window:
  assumes "length ls < u32_max"
  shows "snd (canary_sample
      (foldl (\<lambda>c l. fst (canary_sample c l True u64_max)) (canary_new residency_config_default base) ls)
      l True u64_max) = VerdictDemote Latency \<longleftrightarrow>
    3 \<le> length (ls @ [l]) \<and>
    (\<forall>x \<in> set (drop (length (ls @ [l]) - 3) (ls @ [l])). x > min (base * 64) u64_max)"
proof -
  let ?c = "foldl (\<lambda>c l. fst (canary_sample c l True u64_max)) (canary_new residency_config_default base) ls"
  let ?hit = "\<lambda>l. l > min (base * 64) u64_max"
  have hit: "l > cn_threshold (canary_new residency_config_default base) \<longleftrightarrow> ?hit l" for l
    by (simp add: canary_new_def cn_threshold_def saturating_mul_def)
  have c: "cn_cfg ?c = residency_config_default" "cn_baseline_us ?c = base"
    "cn_over_count ?c = streak ?hit ls"
    using latency_streak.counter_streak [of ls base] assms unfolding hit by auto
  have "cn_threshold ?c = min (base * 64) u64_max"
    by (simp add: cn_threshold_def c saturating_mul_def)
  moreover have "streak ?hit ls < u32_max" using assms streak_le [of ?hit ls] by linarith
  ultimately have "snd (canary_sample ?c l True u64_max) = VerdictDemote Latency \<longleftrightarrow>
      3 \<le> streak ?hit (ls @ [l])"
    using canary_verdict [of ?c l] c by (simp del: foldl_append)
  then show ?thesis unfolding streak_ge_window .
qed

theorem latency_demotion_window_witness:
  "snd (canary_sample
      (foldl (\<lambda>c l. fst (canary_sample c l True u64_max)) (canary_new residency_config_default 10)
        [9, 700, 641]) 5000 True u64_max) = VerdictDemote Latency"
proof -
  have len: "length [9, 700, 641 :: nat] < u32_max" by (simp add: u32_max_def)
  show ?thesis by (rule iffD2 [OF latency_demotion_window [OF len]]) (simp add: u64_max_def)
qed

subsection \<open>A healthy device is not demoted\<close>

context vram_memory
begin

text \<open>The content probe never reports corruption of a lawful memory.\<close>

lemma check_content_sound:
  assumes "wf (cp_region p)" "check_content ops p = (p', r)"
  shows "wf (cp_region p')" "length (contents (cp_region p')) = length (contents (cp_region p))"
    "r \<noteq> Ok False"
proof -
  define seq where "seq = wrapping_add u64_max (cp_seq p) 1"
  define pat where "pat = fill_block CANARY_BYTES (of_nat seq) PatRandom"
  obtain m w where w: "mo_write ops (cp_region p) 0 pat = (m, w)" by fastforce
  note law = mem_write [OF assms(1) w] mem_write_length [OF assms(1) w]
  have eq: "(p', r) = (\<lparr>cp_region = m, cp_seq = seq\<rparr>, case w of Err e \<Rightarrow> Err e
      | Ok _ \<Rightarrow> (case mo_read ops m 0 CANARY_BYTES of Err e \<Rightarrow> Err e
                | Ok rbuf \<Rightarrow> Ok (is_ok (verify_block rbuf (of_nat seq) PatRandom))))"
    unfolding assms(2) [symmetric] check_content_def Let_def seq_def [symmetric] pat_def [symmetric] w
    by (simp split: result.split)
  then show "wf (cp_region p')" "length (contents (cp_region p')) = length (contents (cp_region p))"
    using law by simp_all
  have len: "length pat = CANARY_BYTES" by (simp add: pat_def del: fill_block.simps)
  have "verify_block pat (of_nat seq) PatRandom = Ok ()"
    unfolding verify_block_iff by (simp add: pat_def CANARY_BYTES_def del: fill_block.simps)
  moreover have "rb = pat" if "w = Ok ()" "mo_read ops m 0 CANARY_BYTES = Ok rb" for rb
    using mem_read [OF _ that(2)] law that(1) read_range_write_range_same [of 0 pat] by (simp add: len)
  ultimately show "r \<noteq> Ok False"
    using eq by (cases w; cases "mo_read ops m 0 CANARY_BYTES") auto
qed

end

definition residency_start :: "'m \<Rightarrow> 'm residency_check_state" where
  "residency_start region =
     \<lparr>rk_canary = None, rk_baseline = [], rk_sampler = residency_sampler_new residency_config_default,
      rk_cadence = cadence_new CANARY_EVERY, rk_probe = canary_probe_new region\<rparr>"

text \<open>One check per request, with its latency and the free memory reported at that moment.\<close>

fun residency_run ::
  "'m mem_ops \<Rightarrow> 'm residency_check_state \<Rightarrow> (nat \<times> nat option) list \<Rightarrow> demote_reason option list" where
  "residency_run mops st [] = []"
| "residency_run mops st ((lat_us, free) # ins) =
     (let (st1, r) = residency_check mops lat_us free st in r # residency_run mops st1 ins)"

definition baseline_median :: "nat list \<Rightarrow> nat" where
  "baseline_median lats = max 1 (sort (take 16 lats) ! 8)"

text \<open>The state after \<open>k\<close> unremarkable requests.\<close>

definition quiet_state ::
  "('m \<Rightarrow> byte list) \<Rightarrow> ('m \<Rightarrow> bool) \<Rightarrow> nat list \<Rightarrow> nat \<Rightarrow> 'm residency_check_state \<Rightarrow> bool" where
  "quiet_state contents good lats k st \<longleftrightarrow>
     (if k < 16 then rk_canary st = None \<and> rk_baseline st = take k lats
      else rk_canary st = Some (canary_new residency_config_default (baseline_median lats))) \<and>
     rk_sampler st = residency_sampler_new residency_config_default \<and>
     good (cp_region (rk_probe st)) \<and> CANARY_BYTES \<le> length (contents (cp_region (rk_probe st)))"

lemma quiet_latency:
  assumes "if k < 16 then cn = None \<and> base = take k lats
      else cn = Some (canary_new residency_config_default (baseline_median lats))"
    and "k < length lats" "16 \<le> k \<Longrightarrow> lats ! k \<le> 64 * baseline_median lats" "lats ! k \<le> u64_max"
  shows "\<exists>cn' base'. latency_check (lats ! k) (cn, base) = ((cn', base'), None) \<and>
    (if Suc k < 16 then cn' = None \<and> base' = take (Suc k) lats
     else cn' = Some (canary_new residency_config_default (baseline_median lats)))"
proof (cases "k < 16")
  case True
  with assms(1,2) have c: "cn = None" "base @ [lats ! k] = take (Suc k) lats"
    by (simp_all add: take_Suc_conv_app_nth)
  show ?thesis
  proof (cases "k = 15")
    case True
    with c assms(2) show ?thesis by (simp add: latency_check_def Let_def baseline_median_def max.commute)
  next
    case False
    with True have "Suc k < 16" by linarith
    with c assms(2) show ?thesis by (simp add: latency_check_def Let_def)
  qed
next
  case False
  let ?c = "canary_new residency_config_default (baseline_median lats)"
  have "\<not> cn_threshold ?c < lats ! k"
    using assms(3,4) False by (simp add: cn_threshold_def canary_new_def saturating_mul_def mult.commute)
  then have "canary_sample ?c (lats ! k) True u64_max = (?c, VerdictOk)"
    by (simp add: canary_sample_def u64_max_def) (simp add: canary_new_def)
  with assms(1) False show ?thesis by (simp add: latency_check_def)
qed

locale reliable_memory = vram_memory +
  assumes write_ok: "wf m \<Longrightarrow> off + length bs \<le> length (contents m) \<Longrightarrow> snd (mo_write ops m off bs) = Ok ()"
    and read_ok: "wf m \<Longrightarrow> off + n \<le> length (contents m) \<Longrightarrow> is_ok (mo_read ops m off n)"
begin

lemma check_content_ok:
  assumes "wf (cp_region p)" "CANARY_BYTES \<le> length (contents (cp_region p))"
  shows "snd (check_content ops p) = Ok True"
proof -
  define seq where "seq = wrapping_add u64_max (cp_seq p) 1"
  define pat where "pat = fill_block CANARY_BYTES (of_nat seq) PatRandom"
  have len: "length pat = CANARY_BYTES" by (simp add: pat_def del: fill_block.simps)
  obtain m w where w: "mo_write ops (cp_region p) 0 pat = (m, w)" by fastforce
  have "w = Ok ()" using write_ok [OF assms(1), of 0 pat] assms(2) w len by simp
  moreover obtain rb where "mo_read ops m 0 CANARY_BYTES = Ok rb"
    using read_ok [of m 0 CANARY_BYTES] mem_write [OF assms(1) w] mem_write_length [OF assms(1) w] assms(2)
    by (cases "mo_read ops m 0 CANARY_BYTES") auto
  ultimately have "\<exists>b. snd (check_content ops p) = Ok b"
    unfolding check_content_def Let_def seq_def [symmetric] pat_def [symmetric] w by simp
  then show ?thesis using check_content_sound(3) [OF assms(1) prod.collapse [symmetric]] by auto
qed

lemma quiet_step:
  assumes "quiet_state contents wf lats k st" "k < length lats"
    and "16 \<le> k \<Longrightarrow> lats ! k \<le> 64 * baseline_median lats" "lats ! k \<le> u64_max"
    and "64 * 1024 * 1024 \<le> free"
  shows "snd (residency_check ops (lats ! k) (Some free) st) = None \<and>
    quiet_state contents wf lats (Suc k) (fst (residency_check ops (lats ! k) (Some free) st))"
proof -
  obtain cn base where l: "latency_check (lats ! k) (rk_canary st, rk_baseline st) = ((cn, base), None)"
    "if Suc k < 16 then cn = None \<and> base = take (Suc k) lats
     else cn = Some (canary_new residency_config_default (baseline_median lats))"
    using quiet_latency [OF _ assms(2-4), of "rk_canary st" "rk_baseline st"] assms(1)
    unfolding quiet_state_def by metis
  obtain cad due where c: "cadence_tick (rk_cadence st) = (cad, due)" by fastforce
  obtain p r where p: "check_content ops (rk_probe st) = (p, r)" by fastforce
  have w: "wf (cp_region (rk_probe st))" "CANARY_BYTES \<le> length (contents (cp_region (rk_probe st)))"
    and s: "rk_sampler st = residency_sampler_new residency_config_default"
    using assms(1) by (auto simp: quiet_state_def)
  have "r = Ok True" using check_content_ok [OF w] p by simp
  moreover have "sampler_sample (residency_sampler_new residency_config_default) (Some True) (Some free) =
      (residency_sampler_new residency_config_default, VerdictOk)"
    using assms(5) by (simp add: sampler_sample_def residency_sampler_new_def rs_degraded_def)
  ultimately show ?thesis
    using check_content_sound(1,2) [OF w(1) p] w(2) l(2) s
    by (simp add: residency_check_def l(1) c p Let_def ok_opt_def choose_residency_reason_def
        quiet_state_def w(1) split: if_splits)
qed

lemma quiet_run:
  fixes pre :: "(nat \<times> nat option) list"
  assumes "quiet_state contents wf (map fst pre @ map fst ins) (length pre) st"
    and "\<forall>(l, f) \<in> set ins. l \<le> u64_max \<and> (\<exists>v. f = Some v \<and> 64 * 1024 * 1024 \<le> v)"
    and "\<forall>i < length ins. 16 \<le> length pre + i \<longrightarrow>
      fst (ins ! i) \<le> 64 * baseline_median (map fst pre @ map fst ins)"
  shows "set (residency_run ops st ins) \<subseteq> {None}"
  using assms
proof (induction ins arbitrary: pre st)
  case (Cons x ins)
  obtain l v where x: "x = (l, Some v)" "l \<le> u64_max" "64 * 1024 * 1024 \<le> v"
    using Cons.prems(2) by (cases x) auto
  let ?lats = "map fst pre @ map fst (x # ins)"
  let ?st = "fst (residency_check ops l (Some v) st)"
  have nth: "?lats ! length pre = l" using x by (simp add: nth_append)
  have "16 \<le> length pre \<Longrightarrow> l \<le> 64 * baseline_median ?lats"
    using spec [OF Cons.prems(3), of 0] x by simp
  then have step: "snd (residency_check ops l (Some v) st) = None"
    "quiet_state contents wf ?lats (Suc (length pre)) ?st"
    using quiet_step [OF Cons.prems(1), of v] x unfolding nth by simp_all
  have lats: "map fst (pre @ [x]) @ map fst ins = ?lats" by simp
  have "set (residency_run ops ?st ins) \<subseteq> {None}"
  proof (rule Cons.IH [of "pre @ [x]", unfolded lats])
    show "quiet_state contents wf ?lats (length (pre @ [x])) ?st" using step(2) by simp
    show "\<forall>(l, f) \<in> set ins. l \<le> u64_max \<and> (\<exists>v. f = Some v \<and> 64 * 1024 * 1024 \<le> v)"
      using Cons.prems(2) by simp
    show "\<forall>i < length ins. 16 \<le> length (pre @ [x]) + i \<longrightarrow> fst (ins ! i) \<le> 64 * baseline_median ?lats"
    proof (intro allI impI)
      fix i assume "i < length ins" "16 \<le> length (pre @ [x]) + i"
      then show "fst (ins ! i) \<le> 64 * baseline_median ?lats"
        using spec [OF Cons.prems(3), of "Suc i"] by simp
    qed
  qed
  with step(1) x show ?case by (simp add: case_prod_beta Let_def)
qed simp

end

text \<open>A CUDA region whose driver calls all succeed is such a memory.\<close>

locale reliable_driver = cuda_driver +
  assumes htod_ok: "off + length bs \<le> length (region g) \<Longrightarrow> snd (memcpy_htod syms g off bs) = 0"
    and dtoh_ok: "off + n \<le> length (region g) \<Longrightarrow> snd (memcpy_dtoh syms g off n) = 0"

sublocale reliable_driver \<subseteq> rel_mem: reliable_memory "device_mem_ops syms" "\<lambda>m. region (dm_region m)"
  "\<lambda>m. dm_len m = length (region (dm_region m)) \<and> dm_len m \<le> u64_max"
proof
  fix m m' :: "'a device_mem" and off bs r
  assume i: "dm_len m = length (region (dm_region m)) \<and> dm_len m \<le> u64_max"
  show "mo_write (device_mem_ops syms) m off bs = (m', r) \<Longrightarrow>
      (dm_len m' = length (region (dm_region m')) \<and> dm_len m' \<le> u64_max) \<and>
      agree_outside off (length bs) (region (dm_region m)) (region (dm_region m')) \<and>
      (r = Ok () \<longrightarrow> off + length bs \<le> length (region (dm_region m)) \<and>
         region (dm_region m') = write_range off bs (region (dm_region m)))"
    using cuda_mem.mem_write [of m off bs m' r] i by (auto simp: agree_outside_def)
  show "mo_zero (device_mem_ops syms) m = (m', r) \<Longrightarrow>
      (dm_len m' = length (region (dm_region m')) \<and> dm_len m' \<le> u64_max) \<and>
      length (region (dm_region m')) = length (region (dm_region m)) \<and>
      (r = Ok () \<longrightarrow> region (dm_region m') = replicate (length (region (dm_region m))) 0)"
    using cuda_mem.mem_zero [of m m' r] i by simp
  assume "off + length bs \<le> length (region (dm_region m))"
  then show "snd (mo_write (device_mem_ops syms) m off bs) = Ok ()"
    using i htod_ok [of off bs "dm_region m"]
    by (cases "memcpy_htod syms (dm_region m) off bs")
      (simp add: device_mem_ops_def dm_write_at_def dm_bounds_def checked_add_def)
next
  fix m :: "'a device_mem" and off n
  assume "dm_len m = length (region (dm_region m)) \<and> dm_len m \<le> u64_max"
    "off + n \<le> length (region (dm_region m))"
  then show "is_ok (mo_read (device_mem_ops syms) m off n)"
    using dtoh_ok [of off n "dm_region m"]
    by (cases "memcpy_dtoh syms (dm_region m) off n")
      (simp add: device_mem_ops_def dm_read_at_def dm_bounds_def checked_add_def cuda_check_def)
qed (use cuda_mem.mem_len cuda_mem.mem_read in auto)

interpretation plain_reliable: reliable_driver plain_syms id
  by unfold_locales (simp_all add: plain_syms_def)

text \<open>
  A healthy device is never demoted. Let the probe region be a lawful memory that does not fail,
  let the free memory reported at every request be at least the floor of 64 MiB, and let every latency
  after the first sixteen be at most 64 times their median. Then the check after each request, latency
  canary, cadence, content probe and sampler together, never asks for a demotion, however many
  requests there are.
\<close>

theorem residency_quiet:
  assumes "reliable_memory mops contents good" "good region" "CANARY_BYTES \<le> length (contents region)"
    and "\<forall>(l, f) \<in> set ins. l \<le> u64_max \<and> (\<exists>v. f = Some v \<and> 64 * 1024 * 1024 \<le> v)"
    and "\<forall>l \<in> set (drop 16 (map fst ins)). l \<le> 64 * baseline_median (map fst ins)"
  shows "set (residency_run mops (residency_start region) ins) \<subseteq> {None}"
proof -
  have "quiet_state contents good (map fst [] @ map fst ins) (length []) (residency_start region)"
    using assms(2,3) by (simp add: quiet_state_def residency_start_def canary_probe_new_def)
  moreover have "fst (ins ! i) \<le> 64 * baseline_median (map fst ins)" if "i < length ins" "16 \<le> i" for i
    using assms(5) that
    by (auto simp: in_set_conv_nth dest!: bspec [of _ _ "fst (ins ! i)"] intro!: exI [of _ "i - 16"])
  ultimately show ?thesis
    using reliable_memory.quiet_run [OF assms(1), of "[] :: (nat \<times> nat option) list" ins] assms(4) by simp
qed

lemma baseline_median_replicate: "16 \<le> n \<Longrightarrow> baseline_median (replicate n x) = max 1 x"
  by (simp add: baseline_median_def min_def sorted_sort_id)

theorem residency_quiet_witness:
  "set (residency_run (device_mem_ops plain_syms)
      (residency_start \<lparr>dm_region = replicate 4096 0, dm_len = 4096\<rparr>)
      (replicate 200 (90, Some 70000000))) \<subseteq> {None}"
proof (rule residency_quiet [OF plain_reliable.rel_mem.reliable_memory_axioms])
  show "\<forall>(l, f) \<in> set (replicate 200 (90, Some 70000000)).
      l \<le> u64_max \<and> (\<exists>v. f = Some v \<and> 64 * 1024 * 1024 \<le> (v :: nat))"
    by (simp add: u64_max_def)
  show "\<forall>l \<in> set (drop 16 (map fst (replicate 200 (90, Some (70000000 :: nat))))).
      l \<le> 64 * baseline_median (map fst (replicate 200 (90, Some (70000000 :: nat))))"
    by (simp add: map_replicate baseline_median_replicate)
qed (simp_all add: CANARY_BYTES_def u64_max_def)

subsection \<open>The governor\<close>

definition governor_run :: "governor \<Rightarrow> (nat \<times> instant) list \<Rightarrow> governor" where
  "governor_run g ins = foldl (\<lambda>g (free, now). fst (governor_sample g free now)) g ins"

definition recovering :: "nat \<Rightarrow> (nat \<times> instant) list \<Rightarrow> instant \<Rightarrow> bool" where
  "recovering high ins t \<longleftrightarrow>
     (\<exists>pre f post. ins = pre @ (f, t) # post \<and> (\<forall>(g, _) \<in> set ((f, t) # post). high \<le> g))"

lemma recovering_snoc: "recovering high ins t \<Longrightarrow> high \<le> f \<Longrightarrow> recovering high (ins @ [(f, u)]) t"
  unfolding recovering_def
  by (elim exE conjE, rename_tac pre f' post)
    (rule_tac x = pre in exI, rule_tac x = f' in exI, rule_tac x = "post @ [(f, u)]" in exI, auto)

lemma recovering_new: "high \<le> f \<Longrightarrow> recovering high (ins @ [(f, u)]) u"
  unfolding recovering_def by (intro exI [of _ ins] exI [of _ f] exI [of _ "[]"]) auto

definition settled :: "nat \<Rightarrow> duration \<Rightarrow> (nat \<times> instant) list \<Rightarrow> bool" where
  "settled high settle ins \<longleftrightarrow>
     (\<forall>(f, _) \<in> set ins. high \<le> f) \<or>
     (\<exists>t. recovering high ins t \<and> (\<exists>(f, u) \<in> set ins. settle \<le> u - t))"

definition governor_inv :: "nat \<Rightarrow> duration \<Rightarrow> (nat \<times> instant) list \<Rightarrow> governor \<Rightarrow> bool" where
  "governor_inv high settle ins g \<longleftrightarrow>
     gv_high g = high \<and> gv_settle g = settle \<and>
     (gv_zone g = Green \<longrightarrow> settled high settle ins) \<and>
     (\<forall>t. gv_candidate g = Some t \<longrightarrow> recovering high ins t)"

lemma governor_step:
  assumes "governor_inv high settle xs g"
  shows "governor_inv high settle (xs @ [(f, u)]) (fst (governor_sample g f u))"
proof (cases "f < gv_high g")
  case True
  with assms show ?thesis by (simp add: governor_inv_def governor_sample_def Let_def)
next
  case False
  with assms have f: "high \<le> f" by (simp add: governor_inv_def)
  have ext: "settled high settle xs \<Longrightarrow> settled high settle (xs @ [(f, u)])"
    unfolding settled_def using recovering_snoc [of high xs _ f u] f by fastforce
  define t where "t = (case gv_candidate g of Some t \<Rightarrow> t | None \<Rightarrow> u)"
  have t: "recovering high (xs @ [(f, u)]) t"
    using assms recovering_snoc [of high xs _ f u] recovering_new [of high f xs u] f
    by (auto simp: governor_inv_def t_def split: option.split)
  then have "settle \<le> u - t \<Longrightarrow> settled high settle (xs @ [(f, u)])"
    unfolding settled_def by auto
  with assms ext t False show ?thesis
    by (simp add: governor_inv_def governor_sample_def Let_def duration_since_def t_def [symmetric])
qed

lemma governor_run_inv: "governor_inv high settle ins (governor_run (governor_new low high settle) ins)"
proof (induction ins rule: rev_induct)
  case Nil
  then show ?case by (simp add: governor_run_def governor_new_def settled_def governor_inv_def)
next
  case (snoc x xs)
  then show ?case using governor_step by (cases x) (simp add: governor_run_def)
qed

text \<open>
  The governor reopens allocation only after the host has settled. If it is in the green zone
  after a sequence of samples, then either no sample ever fell below the high watermark, or the samples
  end with a stretch that stayed at or above it and that had lasted for at least the settle duration
  when one of its samples was taken.
\<close>

theorem governor_green_settled:
  assumes "gv_zone (governor_run (governor_new low high settle) ins) = Green"
  shows "(\<forall>(f, _) \<in> set ins. high \<le> f) \<or>
    (\<exists>pre f t post. ins = pre @ (f, t) # post \<and> (\<forall>(g, _) \<in> set ((f, t) # post). high \<le> g) \<and>
       (\<exists>(g, u) \<in> set ins. settle \<le> u - t))"
proof -
  have "settled high settle ins"
    using governor_run_inv [of high settle ins low] assms by (simp add: governor_inv_def)
  then show ?thesis unfolding settled_def recovering_def by blast
qed

theorem governor_green_settled_witness:
  "gv_zone (governor_run (governor_new 10 20 5) [(30, 0), (8, 1), (15, 2), (25, 3), (26, 9)]) = Green \<and>
   (\<exists>(g, u) \<in> set [(30, 0), (8, 1), (15, 2), (25, 3), (26, 9 :: nat)]. (5 :: nat) \<le> u - 3)"
proof -
  have g: "gv_zone (governor_run (governor_new 10 20 5) [(30, 0), (8, 1), (15, 2), (25, 3), (26, 9)]) = Green"
    by (simp add: governor_run_def governor_new_def governor_sample_def Let_def duration_since_def)
  from governor_green_settled [OF g] g show ?thesis by auto
qed

end
