(* ===== verification/Nbd_Worker.thy ===== *)
theory Nbd_Worker
  imports Slices Backends Residency
begin

text \<open>
  The single worker that owns the storage of the broker daemon
  (\<^verbatim>\<open>crates/ramshared-wsl2d/src/main.rs\<close>: \<^verbatim>\<open>zero_window\<close>, \<^verbatim>\<open>broker_setup_with_acceptors\<close> as far as it
  fixes the geometry, and the worker loop), with the messages it receives
  (\<^verbatim>\<open>crates/ramshared-wsl2d/src/conn.rs\<close>). Every slice is shown to be a private disk.
\<close>

subsection \<open>Messages\<close>

record job =
  jb_export :: nat
  jb_req :: request
  jb_payload :: "byte list"
  jb_reply :: nat

datatype wmsg =
    WOpened
  | WJob job
  | WClosed
  | WShutdown
  | WZeroExport nat nat

record live_count =
  lc_live :: nat
  lc_opened :: bool

definition live_count_new :: live_count where
  "live_count_new = \<lparr>lc_live = 0, lc_opened = False\<rparr>"

definition lc_on_open :: "live_count \<Rightarrow> live_count" where
  "lc_on_open c = c\<lparr>lc_live := wrapping_add u32_max (lc_live c) 1, lc_opened := True\<rparr>"

definition lc_on_close :: "live_count \<Rightarrow> live_count \<times> bool" where
  "lc_on_close c =
     (if lc_live c = 0 then (c, False)
      else let c1 = c\<lparr>lc_live := lc_live c - 1\<rparr> in (c1, lc_live c1 = 0 \<and> lc_opened c1))"

subsection \<open>Zeroing a window\<close>

definition ZERO_CHUNK :: nat where "ZERO_CHUNK = 2 ^ 20"

function zero_from ::
  "'b backend_ops \<Rightarrow> nat \<Rightarrow> nat \<Rightarrow> nat \<Rightarrow> 'b \<Rightarrow> 'b \<times> (unit, Block_Request.io_error) result" where
  "zero_from ops base len off b =
     (if off < len then
        let n = min (len - off) (min ZERO_CHUNK len)
        in (case be_write_at ops b (wrapping_add u64_max base off) (replicate n 0) of
              (b', Err e) \<Rightarrow> (b', Err e)
            | (b', Ok _) \<Rightarrow> zero_from ops base len (off + n) b')
      else (b, Ok ()))"
  by pat_completeness auto

termination zero_from
  by (relation "measure (\<lambda>(ops, base, len, off, b). len - off)") (auto simp: ZERO_CHUNK_def)

declare zero_from.simps [simp del]

definition zero_window ::
  "'b backend_ops \<Rightarrow> nat \<Rightarrow> nat \<Rightarrow> 'b \<Rightarrow> 'b \<times> (unit, Block_Request.io_error) result" where
  "zero_window ops base len b = zero_from ops base len 0 b"

subsection \<open>The worker loop\<close>

definition worker_geom :: "slice_map \<Rightarrow> (nat \<times> nat) list" where
  "worker_geom m = map (\<lambda>s. (sl_offset s, sl_len s)) (sm_slices m)"

definition MAX_CONSECUTIVE_IO_ERRORS :: nat where "MAX_CONSECUTIVE_IO_ERRORS = 3"

text \<open>
  What one iteration meets: the terminal flag when it is read, what the channel yields within the
  poll interval, and the state of the wake-up. A job comes with the latency that serving it will
  take, a timeout with a second look at the flag and whether a heartbeat is due.
\<close>

datatype recv_outcome =
    RvMsg wmsg nat
  | RvTimeout bool bool
  | RvDisconnected

datatype wake_send = WakeQueued | WakeFull | WakeDisconnected

record worker_input =
  wi_shutdown :: bool
  wi_recv :: recv_outcome
  wi_wake :: "wake_send option"

datatype worker_output =
    WoReply job serve_outcome
  | WoDemote demote_reason
  | WoZeroDone nat nat bool

text \<open>The residency check and the heartbeat are closures over a state of their own.\<close>

record 'r watch_ops =
  wt_residency :: "'r \<Rightarrow> nat \<Rightarrow> 'r \<times> demote_reason option"
  wt_heartbeat :: "'r \<Rightarrow> 'r \<times> demote_reason option"

record ('b, 'r) worker =
  wk_backend :: 'b
  wk_watch :: 'r
  wk_demoted :: bool
  wk_io_errors :: nat
  wk_slice_io :: "(nat \<times> nat) list"

definition worker_new :: "'b \<Rightarrow> 'r \<Rightarrow> (nat \<times> nat) list \<Rightarrow> ('b, 'r) worker" where
  "worker_new b r io =
     \<lparr>wk_backend = b, wk_watch = r, wk_demoted = False, wk_io_errors = 0, wk_slice_io = io\<rparr>"

definition export_window :: "'b backend_ops \<Rightarrow> (nat \<times> nat) list \<Rightarrow> nat \<Rightarrow> 'b \<Rightarrow> nat \<times> nat" where
  "export_window ops geom export b =
     (if export < length geom then geom ! export else (0, be_size_bytes ops b))"

definition touches_storage :: "request \<Rightarrow> bool" where
  "touches_storage req \<longleftrightarrow> rq_cmd req = CmdRead \<or> rq_cmd req = CmdWrite"

definition circuit_breaker :: "bool \<Rightarrow> nat \<Rightarrow> ('b, 'r) worker \<Rightarrow> ('b, 'r) worker \<times> worker_output list" where
  "circuit_breaker touches errno w =
     (if touches \<and> errno = NBD_EIO then
        let w1 = w\<lparr>wk_io_errors := saturating_add u32_max (wk_io_errors w) 1\<rparr>
        in if wk_io_errors w1 \<ge> MAX_CONSECUTIVE_IO_ERRORS \<and> \<not> wk_demoted w1
           then (w1\<lparr>wk_demoted := True\<rparr>, [WoDemote IoErrorBurst]) else (w1, [])
      else if touches \<and> errno = NBD_OK then (w\<lparr>wk_io_errors := 0\<rparr>, [])
      else (w, []))"

definition count_io :: "bool \<Rightarrow> job \<Rightarrow> ('b, 'r) worker \<Rightarrow> ('b, 'r) worker" where
  "count_io touches job w =
     (if touches \<and> jb_export job < length (wk_slice_io w) then
        let (bytes, ios) = wk_slice_io w ! jb_export job
        in w\<lparr>wk_slice_io := (wk_slice_io w)[jb_export job :=
              (wrapping_add u64_max bytes (rq_len (jb_req job)), wrapping_add u64_max ios 1)]\<rparr>
      else w)"

definition watch_latency ::
  "'r watch_ops \<Rightarrow> bool \<Rightarrow> nat \<Rightarrow> ('b, 'r) worker \<Rightarrow> ('b, 'r) worker \<times> worker_output list" where
  "watch_latency wops touches lat_us w =
     (if touches \<and> \<not> wk_demoted w then
        (case wt_residency wops (wk_watch w) lat_us of
           (r, Some reason) \<Rightarrow> (w\<lparr>wk_watch := r, wk_demoted := True\<rparr>, [WoDemote reason])
         | (r, None) \<Rightarrow> (w\<lparr>wk_watch := r\<rparr>, []))
      else (w, []))"

definition worker_job ::
  "'b backend_ops \<Rightarrow> 'r watch_ops \<Rightarrow> (nat \<times> nat) list \<Rightarrow> job \<Rightarrow> nat \<Rightarrow> ('b, 'r) worker \<Rightarrow>
   ('b, 'r) worker \<times> worker_output list" where
  "worker_job ops wops geom job lat_us w =
     (let touches = touches_storage (jb_req job);
          (base, len) = export_window ops geom (jb_export job) (wk_backend w);
          (b, out) = serve (slice_view_ops ops base len) (jb_req job) (jb_payload job) (wk_backend w);
          (w1, o1) = circuit_breaker touches (reply_errno (so_reply out)) (w\<lparr>wk_backend := b\<rparr>);
          w2 = count_io touches job w1;
          (w3, o3) = watch_latency wops touches lat_us w2
      in (w3, o1 @ [WoReply job out] @ o3))"

definition worker_heartbeat ::
  "'r watch_ops \<Rightarrow> bool \<Rightarrow> ('b, 'r) worker \<Rightarrow> ('b, 'r) worker \<times> worker_output list" where
  "worker_heartbeat wops due w =
     (if due \<and> \<not> wk_demoted w then
        (case wt_heartbeat wops (wk_watch w) of
           (r, Some reason) \<Rightarrow> (w\<lparr>wk_watch := r, wk_demoted := True\<rparr>, [WoDemote reason])
         | (r, None) \<Rightarrow> (w\<lparr>wk_watch := r\<rparr>, []))
      else (w, []))"

definition worker_msg ::
  "'b backend_ops \<Rightarrow> 'r watch_ops \<Rightarrow> (nat \<times> nat) list \<Rightarrow> wmsg \<Rightarrow> nat \<Rightarrow> ('b, 'r) worker \<Rightarrow>
   ('b, 'r) worker \<times> worker_output list" where
  "worker_msg ops wops geom msg lat_us w =
     (case msg of
        WJob job \<Rightarrow> worker_job ops wops geom job lat_us w
      | WZeroExport base len \<Rightarrow>
          let (b, r) = zero_window ops base len (wk_backend w)
          in (w\<lparr>wk_backend := b\<rparr>, [WoZeroDone base len (is_ok r)])
      | _ \<Rightarrow> (w, []))"

text \<open>One iteration; the flag says whether the loop goes on.\<close>

definition worker_step ::
  "'b backend_ops \<Rightarrow> 'r watch_ops \<Rightarrow> (nat \<times> nat) list \<Rightarrow> worker_input \<Rightarrow> ('b, 'r) worker \<Rightarrow>
   ('b, 'r) worker \<times> worker_output list \<times> bool" where
  "worker_step ops wops geom i w =
     (if wi_shutdown i then (w, [], False)
      else case wi_recv i of
          RvDisconnected \<Rightarrow> (w, [], False)
        | RvTimeout shutdown due \<Rightarrow>
            if shutdown then (w, [], False)
            else let (w1, outs) = worker_heartbeat wops due w in (w1, outs, True)
        | RvMsg msg lat_us \<Rightarrow>
            if msg = WShutdown then (w, [], False)
            else let (w1, outs) = worker_msg ops wops geom msg lat_us w
                 in (w1, outs, wi_wake i \<noteq> Some WakeDisconnected))"

fun worker_run ::
  "'b backend_ops \<Rightarrow> 'r watch_ops \<Rightarrow> (nat \<times> nat) list \<Rightarrow> worker_input list \<Rightarrow> ('b, 'r) worker \<Rightarrow>
   ('b, 'r) worker \<times> worker_output list" where
  "worker_run ops wops geom [] w = (w, [])"
| "worker_run ops wops geom (i # is) w =
     (let (w1, outs, go) = worker_step ops wops geom i w
      in if go then let (w2, rest) = worker_run ops wops geom is w1 in (w2, outs @ rest)
         else (w1, outs))"

subsection \<open>Zeroing zeroes\<close>


context volatile_device
begin

lemma zero_from_law:
  assumes "inv b" "base + len \<le> length (disk b)" "off \<le> len" "zero_from ops base len off b = (b', r)"
  shows "inv b' \<and> agree_outside (base + off) (len - off) (disk b) (disk b') \<and>
    (r = Ok () \<longrightarrow> disk b' = write_range (base + off) (replicate (len - off) 0) (disk b))"
  using assms
proof (induction "len - off" arbitrary: off b rule: less_induct)
  case less
  show ?case
  proof (cases "off < len")
    case True
    define n where "n = min (len - off) (min ZERO_CHUNK len)"
    have n: "0 < n" "off + n \<le> len" using True by (auto simp: n_def ZERO_CHUNK_def)
    have pos: "wrapping_add u64_max base off = base + off"
      using dev_size [OF less.prems(1)] less.prems(2) True by (simp add: wrapping_add_def)
    obtain c s where w: "be_write_at ops b (base + off) (replicate n 0) = (c, s)" by fastforce
    have w': "be_write_at_with_options ops b (base + off) (replicate n 0) write_options_default = (c, s)"
      using w dev_write_at [OF less.prems(1)] by simp
    have fit: "base + off + length (replicate n 0) \<le> length (disk b)" using n less.prems(2) by simp
    note wr = dev_write [OF less.prems(1) fit w'] and vol = vol_write [OF less.prems(1) fit w']
    have eq: "zero_from ops base len off b =
        (case s of Err e \<Rightarrow> (c, Err e) | Ok _ \<Rightarrow> zero_from ops base len (off + n) c)"
      using True by (simp add: zero_from.simps [of ops base len off] n_def [symmetric] pos w
          Let_def)
    show ?thesis
    proof (cases s)
      case (Err e)
      then show ?thesis using eq less.prems(4) wr vol n
        by (auto intro: agree_outside_mono)
    next
      case (Ok u)
      then have "zero_from ops base len (off + n) c = (b', r)" using eq less.prems(4) by simp
      then have ih: "inv b' \<and> agree_outside (base + (off + n)) (len - (off + n)) (disk c) (disk b') \<and>
          (r = Ok () \<longrightarrow>
             disk b' = write_range (base + (off + n)) (replicate (len - (off + n)) 0) (disk c))"
        using wr n less.prems(2) True by (intro less.hyps) auto
      have dc: "disk c = write_range (base + off) (replicate n 0) (disk b)" using wr Ok by simp
      have "write_range (base + (off + n)) (replicate (len - (off + n)) 0) (disk c) =
          write_range (base + off) (replicate (len - off) 0) (disk b)"
        using write_range_append [of "base + off" "replicate n 0" "replicate (len - (off + n)) 0" "disk b"]
          n less.prems(2)
        by (simp add: dc replicate_add [symmetric] add.assoc)
      moreover have "agree_outside (base + off) (len - off) (disk b) (disk b')"
      proof (rule agree_outside_trans)
        show "agree_outside (base + off) (len - off) (disk b) (disk c)"
          using vol n by (auto intro: agree_outside_mono)
        show "agree_outside (base + off) (len - off) (disk c) (disk b')"
          using ih n by (auto intro: agree_outside_mono)
      qed
      ultimately show ?thesis using ih by simp
    qed
  next
    case False
    then show ?thesis using less.prems zero_from.simps [of ops base len off b] by simp
  qed
qed

lemma zero_window_law:
  assumes "inv b" "base + len \<le> length (disk b)" "zero_window ops base len b = (b', r)"
  shows "inv b'" "agree_outside base len (disk b) (disk b')"
    "r = Ok () \<Longrightarrow> read_range base len (disk b') = replicate len 0"
  using zero_from_law [OF assms(1,2), of 0 b' r] assms(2,3)
    read_range_write_range_same [of base "replicate len 0" "disk b"]
  by (auto simp: zero_window_def)

end

subsection \<open>Every slice is a private disk\<close>

definition geom_fits :: "nat \<Rightarrow> (nat \<times> nat) list \<Rightarrow> bool" where
  "geom_fits n geom \<longleftrightarrow> (\<forall>(base, len) \<in> set geom. base + len \<le> n)"

definition geom_disjoint :: "(nat \<times> nat) list \<Rightarrow> bool" where
  "geom_disjoint geom \<longleftrightarrow>
     (\<forall>i < length geom. \<forall>j < length geom. i \<noteq> j \<longrightarrow>
        fst (geom ! i) + snd (geom ! i) \<le> fst (geom ! j) \<or> fst (geom ! j) + snd (geom ! j) \<le> fst (geom ! i))"

definition window_bytes :: "(nat \<times> nat) list \<Rightarrow> nat \<Rightarrow> byte list \<Rightarrow> byte list" where
  "window_bytes geom i d = read_range (fst (geom ! i)) (snd (geom ! i)) d"

text \<open>Jobs carry the index of an export, and zeroing is asked for slices only.\<close>

fun msg_ok :: "(nat \<times> nat) list \<Rightarrow> recv_outcome \<Rightarrow> bool" where
  "msg_ok geom (RvMsg (WJob job) lat_us) = (jb_export job < length geom)"
| "msg_ok geom (RvMsg (WZeroExport base len) lat_us) = ((base, len) \<in> set geom)"
| "msg_ok geom _ = True"

lemma geom_of_new:
  assumes "slice_map_new k slice_bytes backing = Ok m"
  shows "geom_fits backing (worker_geom m)" "geom_disjoint (worker_geom m)" "length (worker_geom m) = k"
proof -
  note geo = new_geometry [OF assms]
  have step: "Suc i * slice_bytes \<le> j * slice_bytes" if "i < j" for i j
    using that by (intro mult_le_mono1) simp
  show "length (worker_geom m) = k" using geo by (simp add: worker_geom_def)
  show "geom_fits backing (worker_geom m)"
    using geo step [of _ k] by (fastforce simp: geom_fits_def worker_geom_def)
  show "geom_disjoint (worker_geom m)"
    unfolding geom_disjoint_def
  proof (intro allI impI)
    fix i j assume "i < length (worker_geom m)" "j < length (worker_geom m)" "i \<noteq> j"
    then show "fst (worker_geom m ! i) + snd (worker_geom m ! i) \<le> fst (worker_geom m ! j) \<or>
        fst (worker_geom m ! j) + snd (worker_geom m ! j) \<le> fst (worker_geom m ! i)"
      using geo step [of i j] step [of j i] by (cases "i < j") (auto simp: worker_geom_def)
  qed
qed

lemma window_unchanged:
  assumes "agree_outside (fst (geom ! j)) (snd (geom ! j)) d d'" "geom_disjoint geom"
    and "geom_fits (length d) geom" "i < length geom" "j < length geom" "i \<noteq> j"
  shows "window_bytes geom i d' = window_bytes geom i d"
proof -
  have "fst (geom ! i) + snd (geom ! i) \<le> length d"
    using assms(3,4) nth_mem [of i geom] by (auto simp: geom_fits_def case_prod_beta)
  then show ?thesis
    using assms(1,2,4-6) unfolding window_bytes_def geom_disjoint_def
    by (intro agree_outside_read_range) auto
qed

lemma breaker_backend [simp]: "wk_backend (fst (circuit_breaker t e w)) = wk_backend w"
  by (simp add: circuit_breaker_def Let_def)

lemma count_io_backend [simp]: "wk_backend (count_io t job w) = wk_backend w"
  by (simp add: count_io_def Let_def split: prod.split)

lemma watch_backend [simp]:
  "wk_backend (fst (watch_latency wops t l w)) = wk_backend w"
  "wk_backend (fst (worker_heartbeat wops due w)) = wk_backend w"
  by (simp_all add: watch_latency_def worker_heartbeat_def split: prod.split option.split)

fun is_demote :: "worker_output \<Rightarrow> bool" where
  "is_demote (WoDemote _) = True"
| "is_demote _ = False"

definition answers :: "worker_output list \<Rightarrow> worker_output list" where
  "answers outs = filter (\<lambda>x. \<not> is_demote x) outs"

lemma only_demotes [simp]:
  "answers (snd (circuit_breaker t e w)) = []"
  "answers (snd (watch_latency wops t l w)) = []"
  "answers (snd (worker_heartbeat wops due w)) = []"
  by (simp_all add: answers_def circuit_breaker_def watch_latency_def worker_heartbeat_def Let_def
      split: prod.split option.split)

lemma worker_job_unfold:
  assumes "jb_export job < length geom" "geom ! jb_export job = (base, len)"
    and "worker_job ops wops geom job lat_us w = (w', outs)"
  shows "\<exists>out. serve (slice_view_ops ops base len) (jb_req job) (jb_payload job) (wk_backend w) =
      (wk_backend w', out) \<and> answers outs = [WoReply job out]"
proof -
  obtain b out where s: "serve (slice_view_ops ops base len) (jb_req job) (jb_payload job) (wk_backend w) =
      (b, out)" by fastforce
  let ?t = "touches_storage (jb_req job)"
  let ?c = "circuit_breaker ?t (reply_errno (so_reply out)) (w\<lparr>wk_backend := b\<rparr>)"
  let ?l = "watch_latency wops ?t lat_us (count_io ?t job (fst ?c))"
  have w': "w' = fst ?l" and outs: "outs = snd ?c @ [WoReply job out] @ snd ?l"
    using assms s by (auto simp: worker_job_def export_window_def Let_def case_prod_beta)
  have "answers outs = answers (snd ?c) @ [WoReply job out] @ answers (snd ?l)"
    unfolding outs by (simp add: answers_def)
  with s w' show ?thesis by auto
qed

text \<open>
  What an iteration means for one slice: a job for its export is served on its bytes alone and
  answered once, a zeroing reported as done leaves it all zero, and everything else leaves its bytes as
  they are.
\<close>

definition slice_event ::
  "nat \<Rightarrow> (nat \<times> nat) list \<Rightarrow> nat \<Rightarrow> recv_outcome \<Rightarrow> worker_output list \<Rightarrow> byte list \<Rightarrow> byte list \<Rightarrow> bool" where
  "slice_event block geom i rv outs d d' \<longleftrightarrow>
     (case rv of
        RvMsg (WJob job) _ \<Rightarrow>
          if jb_export job = i then
            (\<exists>out. served block False (jb_req job) (jb_payload job) d d' out \<and>
               answers outs = [WoReply job out])
          else d' = d
      | RvMsg (WZeroExport base len) _ \<Rightarrow>
          if (base, len) = geom ! i then
            length d' = length d \<and> (outs = [WoZeroDone base len True] \<longrightarrow> d' = replicate len 0)
          else d' = d
      | _ \<Rightarrow> d' = d)"

context volatile_device
begin

lemma job_slice:
  assumes "inv (wk_backend w)" "geom_fits (length (disk (wk_backend w))) geom" "geom_disjoint geom"
    and "jb_export job < length geom" "worker_job ops wops geom job lat w = (w', outs)"
  shows "inv (wk_backend w') \<and> length (disk (wk_backend w')) = length (disk (wk_backend w)) \<and>
    (\<forall>k < length geom. slice_event (be_block_size ops (wk_backend w)) geom k (RvMsg (WJob job) lat) outs
       (window_bytes geom k (disk (wk_backend w))) (window_bytes geom k (disk (wk_backend w'))))"
proof -
  let ?b = "wk_backend w" and ?b' = "wk_backend w'"
  obtain base len where g: "geom ! jb_export job = (base, len)" by fastforce
  from worker_job_unfold [OF assms(4) g assms(5)] obtain out where
    s: "serve (slice_view_ops ops base len) (jb_req job) (jb_payload job) ?b = (?b', out)"
    and outs: "answers outs = [WoReply job out]" by blast
  have le: "base + len \<le> length (disk ?b)"
    using assms(2) nth_mem [OF assms(4)] g by (auto simp: geom_fits_def)
  have dev: "block_device (slice_view_ops ops base len) (\<lambda>b. read_range base len (disk b))
      (\<lambda>b. inv b \<and> base + len \<le> length (disk b))"
    by (rule volatile_device.axioms(1) [OF slice_view_device])
  have "served (be_block_size ops ?b) False (jb_req job) (jb_payload job)
      (read_range base len (disk ?b)) (read_range base len (disk ?b')) out"
    using block_device.serve_served [OF dev _ s] assms(1) le by (simp add: slice_view_ops_def)
  moreover have iso: "agree_outside base len (disk ?b) (disk ?b')"
    by (rule slice_view_isolated [OF assms(1) le s])
  moreover have "window_bytes geom k (disk ?b') = window_bytes geom k (disk ?b)"
    if "k < length geom" "k \<noteq> jb_export job" for k
    using window_unchanged [of geom "jb_export job" "disk ?b" "disk ?b'" k] iso g assms(2-4) that by simp
  moreover have "inv ?b'"
    using block_device.serve_keeps_inv [OF dev _ s] assms(1) le by simp
  ultimately show ?thesis using outs g
    by (auto simp: slice_event_def window_bytes_def agree_outside_def)
qed

lemma zero_slice:
  assumes "inv b" "geom_fits (length (disk b)) geom" "geom_disjoint geom"
    and "(base, len) \<in> set geom" "zero_window ops base len b = (b', r)"
  shows "inv b' \<and> length (disk b') = length (disk b) \<and>
    (\<forall>k < length geom. slice_event block geom k (RvMsg (WZeroExport base len) lat)
       [WoZeroDone base len (is_ok r)] (window_bytes geom k (disk b)) (window_bytes geom k (disk b')))"
proof -
  obtain j where j: "j < length geom" "geom ! j = (base, len)" using assms(4) by (auto simp: in_set_conv_nth)
  have le: "base + len \<le> length (disk b)" using assms(2,4) by (auto simp: geom_fits_def)
  note z = zero_window_law [OF assms(1) le assms(5)]
  have len: "length (disk b') = length (disk b)" using z(2) by (simp add: agree_outside_def)
  have "slice_event block geom k (RvMsg (WZeroExport base len) lat)
       [WoZeroDone base len (is_ok r)] (window_bytes geom k (disk b)) (window_bytes geom k (disk b'))"
    if k: "k < length geom" for k
  proof (cases "geom ! k = (base, len)")
    case True
    then show ?thesis using z(3) le len
      by (cases r) (auto simp: slice_event_def window_bytes_def store_simps)
  next
    case False
    then have "window_bytes geom k (disk b') = window_bytes geom k (disk b)"
      using window_unchanged [of geom j "disk b" "disk b'" k] z(2) j assms(2,3) k by auto
    with False show ?thesis by (auto simp: slice_event_def)
  qed
  with z(1) len show ?thesis by blast
qed

lemma worker_step_slice:
  assumes "inv (wk_backend w)" "geom_fits (length (disk (wk_backend w))) geom" "geom_disjoint geom"
    and "msg_ok geom (wi_recv i)" "worker_step ops wops geom i w = (w', outs, go)" "\<not> wi_shutdown i"
  shows "inv (wk_backend w') \<and> length (disk (wk_backend w')) = length (disk (wk_backend w)) \<and>
    (\<forall>k < length geom. slice_event (be_block_size ops (wk_backend w)) geom k (wi_recv i) outs
       (window_bytes geom k (disk (wk_backend w))) (window_bytes geom k (disk (wk_backend w'))))"
proof -
  let ?b = "wk_backend w" and ?b' = "wk_backend w'"
  consider (job) job lat where "wi_recv i = RvMsg (WJob job) lat"
    | (zero) base len lat where "wi_recv i = RvMsg (WZeroExport base len) lat"
    | (msg) msg lat where "wi_recv i = RvMsg msg lat" "msg \<in> {WOpened, WClosed, WShutdown}"
    | (none) s due where "wi_recv i = RvTimeout s due"
    | (gone) "wi_recv i = RvDisconnected"
  proof (cases "wi_recv i")
    case (RvMsg msg lat)
    then show ?thesis using that by (cases msg) auto
  qed (use that in auto)
  then show ?thesis
  proof cases
    case job
    then have "worker_job ops wops geom job lat w = (w', outs)"
      using assms(5,6) by (auto simp: worker_step_def worker_msg_def split: prod.splits)
    with job_slice [OF assms(1-3) _ this] assms(4) job show ?thesis by simp
  next
    case zero
    obtain c r where z: "zero_window ops base len ?b = (c, r)" by fastforce
    then have "?b' = c" "outs = [WoZeroDone base len (is_ok r)]"
      using assms(5,6) zero by (auto simp: worker_step_def worker_msg_def)
    with zero_slice [OF assms(1-3) _ z] assms(4) zero show ?thesis by simp
  next
    case msg
    then have "?b' = ?b" using assms(5,6) by (auto simp: worker_step_def worker_msg_def split: if_splits)
    with msg assms(1) show ?thesis by (auto simp: slice_event_def)
  next
    case none
    then have "?b' = ?b" using assms(5,6)
      by (auto simp: worker_step_def case_prod_beta split: if_splits)
    with none assms(1) show ?thesis by (simp add: slice_event_def)
  next
    case gone
    then show ?thesis using assms by (simp add: worker_step_def slice_event_def)
  qed
qed

end

subsection \<open>Runs\<close>

text \<open>The iterations of a run: the state before, the input, the outputs and the state after.\<close>

fun worker_trace ::
  "'b backend_ops \<Rightarrow> 'r watch_ops \<Rightarrow> (nat \<times> nat) list \<Rightarrow> worker_input list \<Rightarrow> ('b, 'r) worker \<Rightarrow>
   (('b, 'r) worker \<times> worker_input \<times> worker_output list \<times> ('b, 'r) worker) list" where
  "worker_trace ops wops geom [] w = []"
| "worker_trace ops wops geom (i # is) w =
     (let (w1, outs, go) = worker_step ops wops geom i w
      in (w, i, outs, w1) # (if go then worker_trace ops wops geom is w1 else []))"

lemma worker_run_trace:
  "worker_run ops wops geom is w =
    (case worker_trace ops wops geom is w of
       [] \<Rightarrow> w
     | t # ts \<Rightarrow> snd (snd (snd (last (t # ts)))),
     concat (map (\<lambda>(_, _, outs, _). outs) (worker_trace ops wops geom is w)))"
proof (induction "is" arbitrary: w)
  case (Cons i "is")
  obtain w1 outs go where s: "worker_step ops wops geom i w = (w1, outs, go)" by (metis prod_cases3)
  show ?case
    by (cases "worker_trace ops wops geom is w1") (auto simp: s Cons.IH split: list.split)
qed simp

definition worker_ok :: "('b \<Rightarrow> byte list) \<Rightarrow> ('b \<Rightarrow> bool) \<Rightarrow> nat \<Rightarrow> ('b, 'r) worker \<Rightarrow> bool" where
  "worker_ok disk ok n w \<longleftrightarrow> ok (wk_backend w) \<and> length (disk (wk_backend w)) = n"

context volatile_device
begin

lemma worker_step_ok:
  assumes "worker_ok disk inv n w" "geom_fits n geom" "geom_disjoint geom" "msg_ok geom (wi_recv i)"
    and "worker_step ops wops geom i w = (w', outs, go)"
  shows "worker_ok disk inv n w'"
  using worker_step_slice [of w geom i wops w' outs go] assms
  by (cases "wi_shutdown i") (auto simp: worker_ok_def worker_step_def)

text \<open>Every iteration of a run starts in a sound state, and what follows it is again a run.\<close>

lemma trace_split:
  assumes "worker_ok disk inv n w" "geom_fits n geom" "geom_disjoint geom" "\<forall>i \<in> set is. msg_ok geom (wi_recv i)"
    and "worker_trace ops wops geom is w = pre @ (v, i, outs, v') # rest"
  shows "worker_ok disk inv n v \<and> i \<in> set is \<and> (\<exists>go. worker_step ops wops geom i v = (v', outs, go)) \<and>
    (\<exists>is'. set is' \<subseteq> set is \<and> rest = worker_trace ops wops geom is' v')"
  using assms
proof (induction "is" arbitrary: w pre)
  case (Cons a "is")
  obtain w1 o1 go where s: "worker_step ops wops geom a w = (w1, o1, go)" by (metis prod_cases3)
  have t: "(w, a, o1, w1) # (if go then worker_trace ops wops geom is w1 else []) = pre @ (v, i, outs, v') # rest"
    using Cons.prems(5) s by simp
  show ?case
  proof (cases pre)
    case Nil
    with t have "v = w" "i = a" "outs = o1" "v' = w1"
      "rest = worker_trace ops wops geom (if go then is else []) w1" by auto
    with s Cons.prems(1) show ?thesis by (auto intro!: exI [of _ "if go then is else []"])
  next
    case (Cons p ps)
    with t have "go" "worker_trace ops wops geom is w1 = ps @ (v, i, outs, v') # rest"
      by (auto split: if_splits)
    moreover have "worker_ok disk inv n w1" using worker_step_ok [OF Cons.prems(1-3) _ s] Cons.prems(4) by simp
    ultimately show ?thesis using Cons.IH [of w1 ps] Cons.prems(2-4) by auto
  qed
qed simp

end

text \<open>Iterations that leave a slice alone: no zeroing of it and no write to it.\<close>

fun quiet_for :: "(nat \<times> nat) list \<Rightarrow> nat \<Rightarrow> recv_outcome \<Rightarrow> bool" where
  "quiet_for geom k (RvMsg (WJob job) _) \<longleftrightarrow> jb_export job \<noteq> k \<or> rq_cmd (jb_req job) \<notin> {CmdWrite, CmdFlush}"
| "quiet_for geom k (RvMsg (WZeroExport base len) _) \<longleftrightarrow> (base, len) \<noteq> geom ! k"
| "quiet_for geom k _ \<longleftrightarrow> True"

lemma served_quiet:
  "served block ro req payload d d' out \<Longrightarrow> rq_cmd req \<notin> {CmdWrite, CmdFlush} \<Longrightarrow> d' = d"
  by (auto simp: served_def split: option.splits elim!: disk_stepE)

lemma read_range_mem: "x \<in> set (read_range a b xs) \<Longrightarrow> x \<in> set xs"
  by (auto simp: read_range_def dest: in_set_takeD in_set_dropD)

lemma served_data: "served block ro req payload d d' out \<Longrightarrow> set (so_read_data out) \<subseteq> set d"
  by (auto simp: served_def serve_plain_def split: option.splits elim!: disk_stepE dest: read_range_mem)

lemma slice_event_quiet:
  "slice_event block geom k rv outs d d' \<Longrightarrow> quiet_for geom k rv \<Longrightarrow> d' = d"
  by (cases "(geom, k, rv)" rule: quiet_for.cases)
    (auto simp: slice_event_def dest: served_quiet split: if_splits)


context volatile_device
begin

lemma trace_keeps_window:
  assumes "worker_ok disk inv n w" "geom_fits n geom" "geom_disjoint geom"
    and "\<forall>i \<in> set is. msg_ok geom (wi_recv i)" "k < length geom"
    and "worker_trace ops wops geom is w = mid @ (v, i, outs, v') # rest"
    and "\<forall>(_, i, _, _) \<in> set mid. quiet_for geom k (wi_recv i)"
  shows "window_bytes geom k (disk (wk_backend v)) = window_bytes geom k (disk (wk_backend w))"
  using assms(1,4,6,7)
proof (induction mid arbitrary: w "is")
  case Nil
  then show ?case by (cases "is") (auto simp: Let_def split: prod.splits)
next
  case (Cons p mid)
  obtain u a o1 u' where p: "p = (u, a, o1, u')" by (cases p) auto
  have u: "u = w" using Cons.prems(3) p by (cases "is") (auto simp: Let_def split: prod.splits)
  have t: "worker_trace ops wops geom is w = [] @ (u, a, o1, u') # mid @ (v, i, outs, v') # rest"
    using Cons.prems(3) p by simp
  from trace_split [OF Cons.prems(1) assms(2,3) Cons.prems(2) t] obtain go is' where
    s: "worker_step ops wops geom a u = (u', o1, go)" and a: "a \<in> set is" and "set is' \<subseteq> set is"
    and t': "mid @ (v, i, outs, v') # rest = worker_trace ops wops geom is' u'" by blast
  have m: "msg_ok geom (wi_recv a)" using Cons.prems(2) a by blast
  have "window_bytes geom k (disk (wk_backend u')) = window_bytes geom k (disk (wk_backend u))"
  proof (cases "wi_shutdown a")
    case True
    then show ?thesis using s by (simp add: worker_step_def)
  next
    case False
    have "slice_event (be_block_size ops (wk_backend u)) geom k (wi_recv a) o1
        (window_bytes geom k (disk (wk_backend u))) (window_bytes geom k (disk (wk_backend u')))"
      using worker_step_slice [OF _ _ assms(3) m s False] Cons.prems(1) u assms(2,5)
      by (simp add: worker_ok_def)
    then show ?thesis by (rule slice_event_quiet) (use Cons.prems(4) p in simp)
  qed
  moreover have "worker_ok disk inv n u'" using worker_step_ok [OF _ assms(2,3) m s] Cons.prems(1) u by simp
  ultimately show ?case
    using Cons.IH [of u' is'] t' Cons.prems(2,4) \<open>set is' \<subseteq> set is\<close> u by auto
qed

end

subsection \<open>A worker on plain memory\<close>

text \<open>The daemon without GPU runs the worker with no residency check and no heartbeat.\<close>

definition ram_watch :: "unit watch_ops" where
  "ram_watch = \<lparr>wt_residency = (\<lambda>r _. (r, None)), wt_heartbeat = (\<lambda>r. (r, None))\<rparr>"

text \<open>Two slices of 512 bytes; the second is zeroed and then read.\<close>

definition demo_worker :: "(ram_backend, unit) worker" where
  "demo_worker = worker_new (ram_backend_new 1024) () [(0, 0), (0, 0)]"

definition demo_zero :: worker_input where
  "demo_zero = \<lparr>wi_shutdown = False, wi_recv = RvMsg (WZeroExport 512 512) 0, wi_wake = None\<rparr>"

definition demo_job :: job where
  "demo_job = \<lparr>jb_export = 1,
     jb_req = \<lparr>rq_flags = 0, rq_cmd = CmdRead, rq_handle = 9, rq_offset = 0, rq_len = 512\<rparr>,
     jb_payload = [], jb_reply = 0\<rparr>"

definition demo_read :: worker_input where
  "demo_read = \<lparr>wi_shutdown = False, wi_recv = RvMsg (WJob demo_job) 5, wi_wake = None\<rparr>"

lemma demo_fields:
  "wi_recv demo_zero = RvMsg (WZeroExport 512 512) 0" "wi_recv demo_read = RvMsg (WJob demo_job) 5"
  "\<not> wi_shutdown demo_read" "jb_export demo_job = 1" "length (rb_data (wk_backend demo_worker)) = 1024"
  by (simp_all add: demo_zero_def demo_read_def demo_job_def demo_worker_def worker_new_def
      ram_backend_new_def)

lemma demo_map: "\<exists>m. slice_map_new 2 512 1024 = Ok m \<and> worker_geom m = [(0, 512), (512, 512)]"
  by (simp add: slice_map_new_def MAX_SLICES_def checked_mul_def u64_max_def worker_geom_def upt_rec)

lemma demo_trace:
  "\<exists>u v out. worker_trace ram_backend_ops ram_watch [(0, 512), (512, 512)] [demo_zero, demo_read] demo_worker =
     [(demo_worker, demo_zero, [WoZeroDone 512 512 True], u), (u, demo_read, [WoReply demo_job out], v)]"
  by (simp add: demo_worker_def demo_zero_def demo_read_def demo_job_def worker_step_def worker_msg_def
      zero_window_def zero_from.simps worker_new_def ram_backend_new_def ram_backend_ops_def
      rb_write_at_def rb_range_def checked_add_def u64_max_def ZERO_CHUNK_def wrapping_add_def Let_def
      worker_job_def export_window_def touches_storage_def serve_def validate_command_flags_cases
      rq_validate_def slice_view_ops_def is_multiple_of_def UBLK_SECTOR_SIZE_def sv_read_at_def
      rb_read_at_def store_simps circuit_breaker_def reply_fields NBD_EIO_def NBD_OK_def
      count_io_def watch_latency_def ram_watch_def)

text \<open>
  C6. Every slice is a private disk. Let the storage be a volatile device cut into slices by the slice
  map, and let the worker run on any sequence of messages whose jobs name existing exports and whose
  zeroing requests name slices. In every iteration and for every slice: a job on the slice's export is
  answered exactly once, its reply and its effect are those of the abstract disk on the slice's own
  bytes; a zeroing reported as done leaves the slice all zero; any other message leaves its bytes
  unchanged.
\<close>

theorem worker_private_disks:
  assumes "volatile_device ops disk ok" "ok (wk_backend w)"
    and "slice_map_new n slice_bytes (length (disk (wk_backend w))) = Ok m"
    and "\<forall>i \<in> set is. msg_ok (worker_geom m) (wi_recv i)"
    and "(v, i, outs, v') \<in> set (worker_trace ops wops (worker_geom m) is w)" "\<not> wi_shutdown i" "k < n"
  shows "slice_event (be_block_size ops (wk_backend v)) (worker_geom m) k (wi_recv i) outs
    (window_bytes (worker_geom m) k (disk (wk_backend v)))
    (window_bytes (worker_geom m) k (disk (wk_backend v')))"
proof -
  note geo = geom_of_new [OF assms(3)]
  obtain pre rest where t: "worker_trace ops wops (worker_geom m) is w = pre @ (v, i, outs, v') # rest"
    using assms(5) by (auto simp: in_set_conv_decomp)
  have "worker_ok disk ok (length (disk (wk_backend w))) w" using assms(2) by (simp add: worker_ok_def)
  from volatile_device.trace_split [OF assms(1) this geo(1,2) assms(4) t] obtain go where
    "worker_ok disk ok (length (disk (wk_backend w))) v" "i \<in> set is"
    "worker_step ops wops (worker_geom m) i v = (v', outs, go)" by blast
  with volatile_device.worker_step_slice [OF assms(1), of v "worker_geom m" i wops v' outs go] geo assms(4,6,7)
  show ?thesis by (simp add: worker_ok_def)
qed

theorem worker_private_disks_witness:
  "\<exists>u v out. (u, demo_read, [WoReply demo_job out], v) \<in>
      set (worker_trace ram_backend_ops ram_watch [(0, 512), (512, 512)] [demo_zero, demo_read] demo_worker) \<and>
    slice_event (be_block_size ram_backend_ops (wk_backend u)) [(0, 512), (512, 512)] 0 (wi_recv demo_read)
      [WoReply demo_job out] (read_range 0 512 (rb_data (wk_backend u)))
      (read_range 0 512 (rb_data (wk_backend v)))"
proof -
  obtain m where m: "slice_map_new 2 512 1024 = Ok m" "worker_geom m = [(0, 512), (512, 512)]"
    using demo_map by blast
  obtain u v out where t: "worker_trace ram_backend_ops ram_watch (worker_geom m) [demo_zero, demo_read]
      demo_worker = [(demo_worker, demo_zero, [WoZeroDone 512 512 True], u), (u, demo_read, [WoReply demo_job out], v)]"
    using demo_trace m(2) by metis
  have "slice_event (be_block_size ram_backend_ops (wk_backend u)) (worker_geom m) 0 (wi_recv demo_read)
      [WoReply demo_job out] (window_bytes (worker_geom m) 0 (rb_data (wk_backend u)))
      (window_bytes (worker_geom m) 0 (rb_data (wk_backend v)))"
    by (rule worker_private_disks [OF ram_dev.volatile_device_axioms, of demo_worker 2 512 m
          "[demo_zero, demo_read]" _ _ _ _ ram_watch])
      (simp_all add: m t [unfolded m(2)] u64_max_def demo_fields del: worker_trace.simps)
  then show ?thesis using t unfolding m(2) window_bytes_def by (auto simp del: worker_trace.simps)
qed

text \<open>
  A zeroed slice discloses nothing. Once the worker has reported the zeroing of a slice as done,
  and as long as no write or flush for that slice's export and no further zeroing of it is handled,
  every reply to a job on that export carries only zero bytes, whatever the other tenants do meanwhile.
\<close>

theorem zeroed_slice_discloses_nothing:
  assumes "volatile_device ops disk ok" "ok (wk_backend w)"
    and "slice_map_new n slice_bytes (length (disk (wk_backend w))) = Ok m"
    and "\<forall>i \<in> set is. msg_ok (worker_geom m) (wi_recv i)" "k < n"
    and "worker_trace ops wops (worker_geom m) is w =
      pre @ (u, j, [WoZeroDone base len True], u') # mid @ (v, i, outs, v') # rest"
    and "wi_recv j = RvMsg (WZeroExport base len) l1" "(base, len) = worker_geom m ! k"
    and "\<forall>(_, i, _, _) \<in> set mid. quiet_for (worker_geom m) k (wi_recv i)"
    and "wi_recv i = RvMsg (WJob job) l2" "jb_export job = k" "WoReply job out \<in> set outs"
  shows "set (so_read_data out) \<subseteq> {0}"
proof -
  let ?g = "worker_geom m" and ?N = "length (disk (wk_backend w))"
  note geo = geom_of_new [OF assms(3)]
  have k: "k < length ?g" using geo(3) assms(5) by simp
  have w: "worker_ok disk ok ?N w" using assms(2) by (simp add: worker_ok_def)
  from volatile_device.trace_split [OF assms(1) w geo(1,2) assms(4,6)] obtain go is' where
    u: "worker_ok disk ok ?N u" "j \<in> set is" "worker_step ops wops ?g j u = (u', [WoZeroDone base len True], go)"
    and t: "set is' \<subseteq> set is" "mid @ (v, i, outs, v') # rest = worker_trace ops wops ?g is' u'" by blast
  have ms: "\<forall>i \<in> set is'. msg_ok ?g (wi_recv i)" using assms(4) t(1) by auto
  have nj: "\<not> wi_shutdown j" using u(3) by (auto simp: worker_step_def)
  have "slice_event (be_block_size ops (wk_backend u)) ?g k (wi_recv j) [WoZeroDone base len True]
      (window_bytes ?g k (disk (wk_backend u))) (window_bytes ?g k (disk (wk_backend u')))"
    using volatile_device.worker_step_slice [OF assms(1) _ _ geo(2) _ u(3) nj] u(1,2) geo(1) assms(4) k
    by (simp add: worker_ok_def)
  then have z: "window_bytes ?g k (disk (wk_backend u')) = replicate len 0"
    using assms(7,8) by (simp add: slice_event_def)
  have u': "worker_ok disk ok ?N u'"
    using volatile_device.worker_step_ok [OF assms(1) u(1) geo(1,2) _ u(3)] assms(4) u(2) by blast
  note keep = volatile_device.trace_keeps_window [OF assms(1) u' geo(1,2) ms k t(2) [symmetric] assms(9)]
  from volatile_device.trace_split [OF assms(1) u' geo(1,2) ms t(2) [symmetric]] obtain go' where
    v: "worker_ok disk ok ?N v" "i \<in> set is'" "worker_step ops wops ?g i v = (v', outs, go')" by blast
  have ni: "\<not> wi_shutdown i" using v(3) assms(12) by (auto simp: worker_step_def)
  have "slice_event (be_block_size ops (wk_backend v)) ?g k (wi_recv i) outs
      (window_bytes ?g k (disk (wk_backend v))) (window_bytes ?g k (disk (wk_backend v')))"
    using volatile_device.worker_step_slice [OF assms(1) _ _ geo(2) _ v(3) ni] v(1,2) geo(1) ms k
    by (simp add: worker_ok_def)
  then obtain out' where s: "served (be_block_size ops (wk_backend v)) False (jb_req job) (jb_payload job)
      (window_bytes ?g k (disk (wk_backend v))) (window_bytes ?g k (disk (wk_backend v'))) out'"
    "answers outs = [WoReply job out']"
    using assms(10,11) by (auto simp: slice_event_def)
  have "WoReply job out \<in> set (answers outs)" using assms(12) by (simp add: answers_def)
  with s(2) have "out = out'" by simp
  with served_data [OF s(1)] keep z show ?thesis by (auto dest: subsetD)
qed

theorem zeroed_slice_discloses_nothing_witness:
  "\<exists>u v out. worker_trace ram_backend_ops ram_watch [(0, 512), (512, 512)] [demo_zero, demo_read] demo_worker =
      [(demo_worker, demo_zero, [WoZeroDone 512 512 True], u), (u, demo_read, [WoReply demo_job out], v)] \<and>
    set (so_read_data out) \<subseteq> {0}"
proof -
  obtain m where m: "slice_map_new 2 512 1024 = Ok m" "worker_geom m = [(0, 512), (512, 512)]"
    using demo_map by blast
  obtain u v out where t: "worker_trace ram_backend_ops ram_watch (worker_geom m) [demo_zero, demo_read]
      demo_worker = [(demo_worker, demo_zero, [WoZeroDone 512 512 True], u), (u, demo_read, [WoReply demo_job out], v)]"
    using demo_trace m(2) by metis
  have "set (so_read_data out) \<subseteq> {0}"
    by (rule zeroed_slice_discloses_nothing [OF ram_dev.volatile_device_axioms, of demo_worker 2 512 m
          "[demo_zero, demo_read]" 1 ram_watch "[]" demo_worker demo_zero 512 512 u "[]" u demo_read
          "[WoReply demo_job out]" v "[]" 0 demo_job 5 out])
      (simp_all add: m t [unfolded m(2)] u64_max_def demo_fields del: worker_trace.simps)
  with t show ?thesis unfolding m(2) by blast
qed

end
