(* ===== verification/Nbd_Conn.thy ===== *)
theory Nbd_Conn
  imports Nbd_Worker
begin

text \<open>
  One NBD connection: the server side of the fixed-newstyle handshake
  (\<^verbatim>\<open>crates/ramshared-block/src/handshake.rs\<close>) and the reader that turns the bytes after it into jobs
  for the worker (\<^verbatim>\<open>spawn_reader\<close> of \<^verbatim>\<open>crates/ramshared-wsl2d/src/conn.rs\<close>).

  A connection is the list of bytes the peer will have sent before its end of file, the bytes written
  so far, and the number of bytes the socket still accepts before it fails. Flushing a socket does
  nothing.
\<close>

unbundle bit_operations_syntax

subsection \<open>The stream\<close>

record conn =
  nc_in :: "byte list"
  nc_out :: "byte list"
  nc_room :: nat

datatype handshake_error =
    HsIo
  | HsAborted
  | HsIncompatibleVersion
  | HsUnsupportedFeature
  | HsInvalidFormat

type_synonym 'a hs = "conn \<Rightarrow> conn \<times> ('a, handshake_error) result"

definition hs_return :: "'a \<Rightarrow> 'a hs" where
  "hs_return x s = (s, Ok x)"

definition hs_fail :: "handshake_error \<Rightarrow> 'a hs" where
  "hs_fail e s = (s, Err e)"

definition hs_bind :: "'a hs \<Rightarrow> ('a \<Rightarrow> 'b hs) \<Rightarrow> 'b hs" where
  "hs_bind f g s = (case f s of (s', Ok x) \<Rightarrow> g x s' | (s', Err e) \<Rightarrow> (s', Err e))"

definition read_exact :: "nat \<Rightarrow> byte list hs" where
  "read_exact n s =
     (if n \<le> length (nc_in s) then (s\<lparr>nc_in := drop n (nc_in s)\<rparr>, Ok (take n (nc_in s)))
      else (s\<lparr>nc_in := []\<rparr>, Err HsIo))"

definition write_all :: "byte list \<Rightarrow> unit hs" where
  "write_all bs s =
     (if length bs \<le> nc_room s
      then (s\<lparr>nc_out := nc_out s @ bs, nc_room := nc_room s - length bs\<rparr>, Ok ())
      else (s\<lparr>nc_out := nc_out s @ take (nc_room s) bs, nc_room := 0\<rparr>, Err HsIo))"

definition read_u32 :: "nat hs" where
  "read_u32 = hs_bind (read_exact 4) (\<lambda>b. hs_return (from_be b))"

definition read_u64 :: "nat hs" where
  "read_u64 = hs_bind (read_exact 8) (\<lambda>b. hs_return (from_be b))"

subsection \<open>Constants and replies\<close>

definition NBDMAGIC :: nat where "NBDMAGIC = 0x4e42444d41474943"
definition IHAVEOPT :: nat where "IHAVEOPT = 0x49484156454f5054"
definition NBD_FLAG_FIXED_NEWSTYLE :: "16 word" where "NBD_FLAG_FIXED_NEWSTYLE = push_bit 0 1"
definition NBD_FLAG_NO_ZEROES :: "16 word" where "NBD_FLAG_NO_ZEROES = push_bit 1 1"
definition NBD_OPT_EXPORT_NAME :: nat where "NBD_OPT_EXPORT_NAME = 1"
definition NBD_OPT_ABORT :: nat where "NBD_OPT_ABORT = 2"
definition NBD_OPT_INFO :: nat where "NBD_OPT_INFO = 6"
definition NBD_OPT_GO :: nat where "NBD_OPT_GO = 7"
definition NBD_REP_MAGIC :: nat where "NBD_REP_MAGIC = 0x0003e889045565a9"
definition NBD_REP_ACK :: nat where "NBD_REP_ACK = 1"
definition NBD_REP_INFO :: nat where "NBD_REP_INFO = 3"
definition NBD_REP_ERR_UNSUP :: nat where "NBD_REP_ERR_UNSUP = 0x80000001"
definition NBD_REP_ERR_UNKNOWN :: nat where "NBD_REP_ERR_UNKNOWN = 0x80000006"
definition NBD_INFO_EXPORT :: nat where "NBD_INFO_EXPORT = 0"
definition NBD_FLAG_C_NO_ZEROES :: "32 word" where "NBD_FLAG_C_NO_ZEROES = push_bit 1 1"
definition MAX_OPT_LEN :: nat where "MAX_OPT_LEN = 4096"

lemmas opt_defs = NBD_OPT_EXPORT_NAME_def NBD_OPT_ABORT_def NBD_OPT_INFO_def NBD_OPT_GO_def

record export =
  ex_name :: string
  ex_size :: nat

definition write_opt_reply :: "nat \<Rightarrow> nat \<Rightarrow> byte list \<Rightarrow> unit hs" where
  "write_opt_reply opt rep data =
     hs_bind (write_all (to_be 8 NBD_REP_MAGIC)) (\<lambda>_.
     hs_bind (write_all (to_be 4 opt)) (\<lambda>_.
     hs_bind (write_all (to_be 4 rep)) (\<lambda>_.
     hs_bind (write_all (to_be 4 (length data))) (\<lambda>_.
     write_all data))))"

definition write_export_info :: "nat \<Rightarrow> nat \<Rightarrow> 16 word \<Rightarrow> unit hs" where
  "write_export_info opt sz tx_flags =
     hs_bind (write_opt_reply opt NBD_REP_INFO
       (to_be 2 NBD_INFO_EXPORT @ to_be 8 sz @ to_be 2 (unat tx_flags))) (\<lambda>_.
     write_opt_reply opt NBD_REP_ACK [])"

definition go_export_name :: "byte list \<Rightarrow> (byte list, handshake_error) result" where
  "go_export_name data =
     (if length data < 4 then Err HsInvalidFormat
      else let name_len = from_be (read_range 0 4 data)
           in case checked_add u64_max 4 name_len of
                None \<Rightarrow> Err HsInvalidFormat
              | Some name_end \<Rightarrow>
                  if length data < name_end + 2 then Err HsInvalidFormat
                  else Ok (read_range 4 (name_end - 4) data))"

text \<open>\<open>core::str::from_utf8\<close>: the well-formed byte sequences of Unicode.\<close>

definition in_range :: "nat \<Rightarrow> nat \<Rightarrow> byte \<Rightarrow> bool" where
  "in_range lo hi b \<longleftrightarrow> lo \<le> unat b \<and> unat b \<le> hi"

definition is_cont :: "byte \<Rightarrow> bool" where
  "is_cont = in_range 0x80 0xbf"

definition utf8_len :: "byte \<Rightarrow> byte list \<Rightarrow> nat option" where
  "utf8_len b rest =
     (let c = (\<lambda>i lo hi. i < length rest \<and> in_range lo hi (rest ! i))
      in if in_range 0 0x7f b then Some 1
         else if in_range 0xc2 0xdf b \<and> c 0 0x80 0xbf then Some 2
         else if in_range 0xe0 0xe0 b \<and> c 0 0xa0 0xbf \<and> c 1 0x80 0xbf then Some 3
         else if (in_range 0xe1 0xec b \<or> in_range 0xee 0xef b) \<and> c 0 0x80 0xbf \<and> c 1 0x80 0xbf then Some 3
         else if in_range 0xed 0xed b \<and> c 0 0x80 0x9f \<and> c 1 0x80 0xbf then Some 3
         else if in_range 0xf0 0xf0 b \<and> c 0 0x90 0xbf \<and> c 1 0x80 0xbf \<and> c 2 0x80 0xbf then Some 4
         else if in_range 0xf1 0xf3 b \<and> c 0 0x80 0xbf \<and> c 1 0x80 0xbf \<and> c 2 0x80 0xbf then Some 4
         else if in_range 0xf4 0xf4 b \<and> c 0 0x80 0x8f \<and> c 1 0x80 0xbf \<and> c 2 0x80 0xbf then Some 4
         else None)"

function valid_utf8 :: "byte list \<Rightarrow> bool" where
  "valid_utf8 [] = True"
| "valid_utf8 (b # rest) =
     (case utf8_len b rest of None \<Rightarrow> False | Some n \<Rightarrow> valid_utf8 (drop (n - 1) rest))"
  by pat_completeness auto

termination valid_utf8
  by (relation "measure length") simp_all

definition name_utf8 :: "byte list \<Rightarrow> (string, handshake_error) result" where
  "name_utf8 name =
     (if valid_utf8 name then Ok (map (\<lambda>b. char_of (unat b)) name) else Err HsInvalidFormat)"

definition find_export :: "export list \<Rightarrow> string \<Rightarrow> nat option" where
  "find_export exports name =
     (if name = [] then (if exports = [] then None else Some 0)
      else position (\<lambda>e. ex_name e = name) exports)"

subsection \<open>The handshake\<close>

definition hs_lift :: "('a, handshake_error) result \<Rightarrow> 'a hs" where
  "hs_lift r s = (s, r)"

definition hs_read_option :: "(nat \<times> byte list) hs" where
  "hs_read_option =
     hs_bind read_u64 (\<lambda>opt_magic.
     if opt_magic \<noteq> IHAVEOPT then hs_fail HsIncompatibleVersion
     else hs_bind read_u32 (\<lambda>opt.
          hs_bind read_u32 (\<lambda>len.
          if len > MAX_OPT_LEN then hs_fail HsUnsupportedFeature
          else hs_bind (read_exact len) (\<lambda>data. hs_return (opt, data)))))"

text \<open>The rest of one iteration: \<open>None\<close> continues the loop, \<open>Some idx\<close> returns.\<close>

definition hs_handle_option ::
  "export list \<Rightarrow> 16 word \<Rightarrow> bool \<Rightarrow> nat \<times> byte list \<Rightarrow> nat option hs" where
  "hs_handle_option exports tx_flags no_zeroes option =
     (case option of (opt, data) \<Rightarrow>
        if opt \<notin> {NBD_OPT_EXPORT_NAME, NBD_OPT_GO, NBD_OPT_INFO, NBD_OPT_ABORT} then
          hs_bind (write_opt_reply opt NBD_REP_ERR_UNSUP []) (\<lambda>_. hs_return None)
        else if opt = NBD_OPT_ABORT then
          hs_bind (write_opt_reply opt NBD_REP_ACK []) (\<lambda>_. hs_fail HsAborted)
        else if opt = NBD_OPT_EXPORT_NAME then
          hs_bind (hs_lift (name_utf8 data)) (\<lambda>name.
          case find_export exports name of
            None \<Rightarrow> hs_fail HsUnsupportedFeature
          | Some idx \<Rightarrow>
              hs_bind (write_all (to_be 8 (ex_size (exports ! idx)))) (\<lambda>_.
              hs_bind (write_all (to_be 2 (unat tx_flags))) (\<lambda>_.
              hs_bind (if no_zeroes then hs_return () else write_all (replicate 124 0)) (\<lambda>_.
              hs_return (Some idx)))))
        else
          hs_bind (hs_lift (go_export_name data)) (\<lambda>raw.
          hs_bind (hs_lift (name_utf8 raw)) (\<lambda>name.
          case find_export exports name of
            None \<Rightarrow> hs_bind (write_opt_reply opt NBD_REP_ERR_UNKNOWN []) (\<lambda>_. hs_return None)
          | Some idx \<Rightarrow>
              hs_bind (write_export_info opt (ex_size (exports ! idx)) tx_flags) (\<lambda>_.
              hs_return (if opt = NBD_OPT_GO then Some idx else None)))))"

lemma hs_bind_Ok:
  "hs_bind f g s = (s', Ok y) \<longleftrightarrow> (\<exists>x s1. f s = (s1, Ok x) \<and> g x s1 = (s', Ok y))"
  by (auto simp: hs_bind_def split: prod.splits result.splits)

lemma read_exact_Ok:
  "read_exact n s = (s', Ok bs) \<longleftrightarrow>
     length bs = n \<and> nc_in s = bs @ nc_in s' \<and> nc_out s' = nc_out s \<and> nc_room s' = nc_room s"
  (is "?l \<longleftrightarrow> ?r")
proof
  assume ?r
  then have "drop n (nc_in s) = nc_in s'" "take n (nc_in s) = bs" "n \<le> length (nc_in s)"
    "nc_out s' = nc_out s" "nc_room s' = nc_room s" by auto
  then show ?l by (simp add: read_exact_def)
qed (auto simp: read_exact_def split: if_splits)

lemma read_uint_Ok:
  "read_u32 s = (s', Ok v) \<longleftrightarrow>
     v < 256 ^ 4 \<and> nc_in s = to_be 4 v @ nc_in s' \<and> nc_out s' = nc_out s \<and> nc_room s' = nc_room s"
  "read_u64 s = (s', Ok v) \<longleftrightarrow>
     v < 256 ^ 8 \<and> nc_in s = to_be 8 v @ nc_in s' \<and> nc_out s' = nc_out s \<and> nc_room s' = nc_room s"
proof -
  have "hs_bind (read_exact k) (\<lambda>b. hs_return (from_be b)) s = (s', Ok v) \<longleftrightarrow>
      v < 256 ^ k \<and> nc_in s = to_be k v @ nc_in s' \<and> nc_out s' = nc_out s \<and> nc_room s' = nc_room s"
    (is "?l \<longleftrightarrow> ?r") for k
  proof
    assume ?l
    then obtain b where b: "read_exact k s = (s', Ok b)" "v = from_be b"
      by (auto simp: hs_bind_Ok hs_return_def)
    with from_be_less [of b] to_from_be_length [of b k] show ?r by (auto simp: read_exact_Ok)
  next
    assume ?r
    then have "read_exact k s = (s', Ok (to_be k v))" "from_be (to_be k v) = v"
      by (auto simp: read_exact_Ok from_to_be)
    then show ?l by (auto simp: hs_bind_Ok hs_return_def)
  qed
  then show "read_u32 s = (s', Ok v) \<longleftrightarrow>
     v < 256 ^ 4 \<and> nc_in s = to_be 4 v @ nc_in s' \<and> nc_out s' = nc_out s \<and> nc_room s' = nc_room s"
    and "read_u64 s = (s', Ok v) \<longleftrightarrow>
     v < 256 ^ 8 \<and> nc_in s = to_be 8 v @ nc_in s' \<and> nc_out s' = nc_out s \<and> nc_room s' = nc_room s"
    unfolding read_u32_def read_u64_def by blast+
qed

text \<open>The bytes of an option on the wire.\<close>

definition option_wire :: "nat \<times> byte list \<Rightarrow> byte list" where
  "option_wire option =
     to_be 8 IHAVEOPT @ to_be 4 (fst option) @ to_be 4 (length (snd option)) @ snd option"

definition option_wf :: "nat \<times> byte list \<Rightarrow> bool" where
  "option_wf option \<longleftrightarrow> fst option < 256 ^ 4 \<and> length (snd option) \<le> MAX_OPT_LEN"

lemma hs_read_option_Ok:
  "hs_read_option s = (s', Ok option) \<longleftrightarrow>
     option_wf option \<and> nc_in s = option_wire option @ nc_in s' \<and>
     nc_out s' = nc_out s \<and> nc_room s' = nc_room s" (is "?l \<longleftrightarrow> ?r")
proof
  assume ?l
  then obtain opt len s1 s2 s3 where "read_u64 s = (s1, Ok IHAVEOPT)" "read_u32 s1 = (s2, Ok opt)"
    "read_u32 s2 = (s3, Ok len)" "len \<le> MAX_OPT_LEN" "\<exists>data. read_exact len s3 = (s', Ok data) \<and> option = (opt, data)"
    by (auto simp: hs_read_option_def hs_bind_Ok hs_fail_def hs_return_def split: if_splits)
  then show ?r by (auto simp: read_uint_Ok read_exact_Ok option_wire_def option_wf_def)
next
  assume r: ?r
  obtain opt data where o: "option = (opt, data)" by (cases option)
  define s1 where "s1 = s\<lparr>nc_in := to_be 4 opt @ to_be 4 (length data) @ data @ nc_in s'\<rparr>"
  define s2 where "s2 = s\<lparr>nc_in := to_be 4 (length data) @ data @ nc_in s'\<rparr>"
  define s3 where "s3 = s\<lparr>nc_in := data @ nc_in s'\<rparr>"
  have "read_u64 s = (s1, Ok IHAVEOPT)" "read_u32 s1 = (s2, Ok opt)" "read_u32 s2 = (s3, Ok (length data))"
    "read_exact (length data) s3 = (s', Ok data)"
    using r by (simp_all add: o read_uint_Ok read_exact_Ok option_wire_def option_wf_def s1_def s2_def
        s3_def IHAVEOPT_def MAX_OPT_LEN_def)
  then show ?l using r by (auto simp: hs_read_option_def hs_bind_Ok hs_return_def o option_wf_def)
qed

lemma bind_in:
  assumes "\<And>s. nc_in (fst (f s)) = nc_in s" "\<And>x s. nc_in (fst (g x s)) = nc_in s"
  shows "nc_in (fst (hs_bind f g s)) = nc_in s"
  using assms(1) [of s] assms(2) by (cases "f s") (auto simp: hs_bind_def split: result.split)

lemma leaf_in [simp]:
  "nc_in (fst (write_all bs s)) = nc_in s" "nc_in (fst (hs_return x s)) = nc_in s"
  "nc_in (fst (hs_fail e s)) = nc_in s" "nc_in (fst (hs_lift r s)) = nc_in s"
  by (simp_all add: write_all_def hs_return_def hs_fail_def hs_lift_def)

lemma write_opt_reply_in [simp]: "nc_in (fst (write_opt_reply opt rep data s)) = nc_in s"
  unfolding write_opt_reply_def by (intro bind_in) simp_all

lemma write_export_info_in [simp]: "nc_in (fst (write_export_info opt sz fl s)) = nc_in s"
  unfolding write_export_info_def by (intro bind_in) simp_all

text \<open>Answering an option reads nothing.\<close>

lemma handle_option_in: "nc_in (fst (hs_handle_option exports tx nz option s)) = nc_in s"
proof -
  obtain opt data where o: "option = (opt, data)" by (cases option)
  have k: "nc_in (fst ((case x of None \<Rightarrow> f | Some idx \<Rightarrow> g idx) s)) = nc_in s"
    if "nc_in (fst (f s)) = nc_in s" "\<And>idx. nc_in (fst (g idx s)) = nc_in s"
    for x and f :: "nat option hs" and g :: "nat \<Rightarrow> nat option hs" and s
    using that by (cases x) auto
  show ?thesis
    unfolding hs_handle_option_def o prod.case
    by (auto intro!: bind_in k)
qed

definition hs_option :: "export list \<Rightarrow> 16 word \<Rightarrow> bool \<Rightarrow> nat option hs" where
  "hs_option exports tx_flags no_zeroes =
     hs_bind hs_read_option (hs_handle_option exports tx_flags no_zeroes)"

lemma hs_option_in:
  assumes "hs_option exports tx nz s = (s', Ok r)"
  shows "\<exists>option. option_wf option \<and> nc_in s = option_wire option @ nc_in s' \<and>
    (\<exists>s1. nc_in s1 = nc_in s' \<and> hs_handle_option exports tx nz option s1 = (s', Ok r))"
proof -
  obtain option s1 where "hs_read_option s = (s1, Ok option)"
    "hs_handle_option exports tx nz option s1 = (s', Ok r)"
    using assms by (auto simp: hs_option_def hs_bind_Ok)
  then show ?thesis using handle_option_in [of exports tx nz option s1]
    by (intro exI [of _ option]) (auto simp: hs_read_option_Ok)
qed

text \<open>The loop ends because every option takes bytes from the stream.\<close>

function hs_loop :: "export list \<Rightarrow> 16 word \<Rightarrow> bool \<Rightarrow> nat hs" where
  "hs_loop exports tx_flags no_zeroes s =
     (case hs_option exports tx_flags no_zeroes s of
        (s', Err e) \<Rightarrow> (s', Err e)
      | (s', Ok (Some idx)) \<Rightarrow> (s', Ok idx)
      | (s', Ok None) \<Rightarrow> hs_loop exports tx_flags no_zeroes s')"
  by pat_completeness auto

lemma hs_option_shrinks: "hs_option exports tx nz s = (s', Ok r) \<Longrightarrow> length (nc_in s') < length (nc_in s)"
  by (drule hs_option_in) (auto simp: option_wire_def)

termination hs_loop
  by (relation "measure (\<lambda>(exports, tx, nz, s). length (nc_in s))")
    (auto intro: hs_option_shrinks [OF sym])

declare hs_loop.simps [simp del]

definition server_handshake :: "export list \<Rightarrow> 16 word \<Rightarrow> nat hs" where
  "server_handshake exports tx_flags =
     hs_bind (write_all (to_be 8 NBDMAGIC)) (\<lambda>_.
     hs_bind (write_all (to_be 8 IHAVEOPT)) (\<lambda>_.
     hs_bind (write_all (to_be 2 (unat (NBD_FLAG_FIXED_NEWSTYLE OR NBD_FLAG_NO_ZEROES)))) (\<lambda>_.
     hs_bind read_u32 (\<lambda>client_flags.
     hs_loop exports tx_flags (of_nat client_flags AND NBD_FLAG_C_NO_ZEROES \<noteq> 0)))))"

subsection \<open>What is negotiated\<close>

definition option_export :: "export list \<Rightarrow> nat \<times> byte list \<Rightarrow> nat option" where
  "option_export exports option =
     (case (if fst option = NBD_OPT_EXPORT_NAME then Ok (snd option) else go_export_name (snd option)) of
        Err _ \<Rightarrow> None
      | Ok raw \<Rightarrow> (case name_utf8 raw of Err _ \<Rightarrow> None | Ok name \<Rightarrow> find_export exports name))"

lemma find_export_less: "find_export exports name = Some i \<Longrightarrow> i < length exports"
  by (auto simp: find_export_def dest: position_Some split: if_splits)

lemma option_export_less: "option_export exports option = Some i \<Longrightarrow> i < length exports"
  by (auto simp: option_export_def dest: find_export_less split: result.splits)

lemma handle_option_result:
  assumes "hs_handle_option exports tx nz option s = (s', Ok r)"
  shows "fst option \<noteq> NBD_OPT_ABORT \<and>
    (case r of
       Some idx \<Rightarrow> fst option \<in> {NBD_OPT_EXPORT_NAME, NBD_OPT_GO} \<and> option_export exports option = Some idx
     | None \<Rightarrow> fst option \<noteq> NBD_OPT_EXPORT_NAME \<and>
         (fst option = NBD_OPT_GO \<longrightarrow> option_export exports option = None))"
proof -
  obtain opt data where o: "option = (opt, data)" by (cases option)
  consider "opt \<notin> {NBD_OPT_EXPORT_NAME, NBD_OPT_GO, NBD_OPT_INFO, NBD_OPT_ABORT}"
    | "opt = NBD_OPT_ABORT" | "opt = NBD_OPT_EXPORT_NAME" | "opt \<in> {NBD_OPT_GO, NBD_OPT_INFO}" by auto
  then show ?thesis
  proof cases
    case 1
    then show ?thesis using assms by (auto simp: hs_handle_option_def o hs_bind_Ok hs_return_def)
  next
    case 2
    then show ?thesis using assms
      by (auto simp: hs_handle_option_def o hs_bind_Ok hs_fail_def opt_defs)
  next
    case 3
    then have "\<exists>name idx. name_utf8 data = Ok name \<and> find_export exports name = Some idx \<and> r = Some idx"
      using assms by (auto simp: hs_handle_option_def o hs_bind_Ok hs_fail_def hs_return_def hs_lift_def opt_defs
          split: option.splits)
    then show ?thesis using 3 by (auto simp: o option_export_def opt_defs)
  next
    case 4
    then have "\<exists>raw name. go_export_name data = Ok raw \<and> name_utf8 raw = Ok name \<and>
        r = (if opt = NBD_OPT_GO then find_export exports name else None)"
      using assms by (auto simp: hs_handle_option_def o hs_bind_Ok hs_return_def hs_lift_def opt_defs
          split: option.splits)
    then show ?thesis using 4 by (auto simp: o option_export_def opt_defs split: option.split)
  qed
qed

definition passed_over :: "export list \<Rightarrow> nat \<times> byte list \<Rightarrow> bool" where
  "passed_over exports option \<longleftrightarrow>
     fst option \<notin> {NBD_OPT_ABORT, NBD_OPT_EXPORT_NAME} \<and>
     (fst option = NBD_OPT_GO \<longrightarrow> option_export exports option = None)"

lemma hs_loop_Ok:
  assumes "hs_loop exports tx nz s = (s', Ok idx)"
  shows "\<exists>opts final. nc_in s = concat (map option_wire opts) @ option_wire final @ nc_in s' \<and>
    list_all (passed_over exports) opts \<and>
    fst final \<in> {NBD_OPT_EXPORT_NAME, NBD_OPT_GO} \<and> option_export exports final = Some idx"
  using assms
proof (induction exports tx nz s arbitrary: s' idx rule: hs_loop.induct)
  case (1 exports tx nz s)
  obtain s1 r where step: "hs_option exports tx nz s = (s1, Ok r)"
    and cont: "case r of Some i \<Rightarrow> (s1, Ok i) = (s', Ok idx)
      | None \<Rightarrow> hs_loop exports tx nz s1 = (s', Ok idx)"
    using "1.prems" by (subst (asm) hs_loop.simps) (auto split: prod.splits result.splits option.splits)
  from hs_option_in [OF step] obtain option where
    i: "nc_in s = option_wire option @ nc_in s1" and "\<exists>s2. hs_handle_option exports tx nz option s2 = (s1, Ok r)"
    by blast
  then obtain s2 where h: "hs_handle_option exports tx nz option s2 = (s1, Ok r)" by blast
  note res = handle_option_result [OF h]
  show ?case
  proof (cases r)
    case (Some j)
    then show ?thesis using i res cont
      by (intro exI [of _ "[]"] exI [of _ option]) auto
  next
    case None
    then have "hs_loop exports tx nz s1 = (s', Ok idx)" using cont by simp
    from "1.IH" [OF step [symmetric] refl None this] obtain opts final where
      "nc_in s1 = concat (map option_wire opts) @ option_wire final @ nc_in s'"
      "list_all (passed_over exports) opts"
      "fst final \<in> {NBD_OPT_EXPORT_NAME, NBD_OPT_GO}" "option_export exports final = Some idx" by blast
    moreover have "passed_over exports option" using res None by (simp add: passed_over_def)
    ultimately show ?thesis using i
      by (intro exI [of _ "option # opts"] exI [of _ final]) auto
  qed
qed

subsection \<open>The reader\<close>

datatype reader_end =
    ReEof
  | ReMalformed protocol_error
  | ReOverIpcBound nat
  | ReOverExport nat

definition IPC_BOUND :: nat where "IPC_BOUND = 16 * 1024 * 1024"

function conn_reader :: "nat \<Rightarrow> nat \<Rightarrow> nat \<Rightarrow> byte list \<Rightarrow> job list \<times> reader_end" where
  "conn_reader idx export_size route inp =
     (if length inp < REQUEST_LEN then ([], ReEof)
      else case parse_request (take REQUEST_LEN inp) of
          Err e \<Rightarrow> ([], ReMalformed e)
        | Ok req \<Rightarrow>
            if rq_len req > IPC_BOUND then ([], ReOverIpcBound (rq_len req))
            else if rq_cmd req = CmdWrite \<and> rq_len req > export_size then ([], ReOverExport (rq_len req))
            else
              let rest = drop REQUEST_LEN inp;
                  n = (if rq_cmd req = CmdWrite then rq_len req else 0)
              in if length rest < n then ([], ReEof)
                 else let (jobs, fin) = conn_reader idx export_size route (drop n rest)
                      in (\<lparr>jb_export = idx, jb_req = req, jb_payload = take n rest, jb_reply = route\<rparr> # jobs,
                          fin))"
  by pat_completeness auto

termination conn_reader
  by (relation "measure (\<lambda>(idx, es, route, inp). length inp)") (auto simp: REQUEST_LEN_def)

declare conn_reader.simps [simp del]

text \<open>The messages of one connection: opened by the acceptor, closed by the reader.\<close>

definition connection :: "export list \<Rightarrow> 16 word \<Rightarrow> nat \<Rightarrow> conn \<Rightarrow> wmsg list" where
  "connection exports tx_flags route s =
     WOpened #
     (case server_handshake exports tx_flags s of
        (s', Err e) \<Rightarrow> []
      | (s', Ok idx) \<Rightarrow> map WJob (fst (conn_reader idx (ex_size (exports ! idx)) route (nc_in s')))) @
     [WClosed]"

definition job_wire :: "job \<Rightarrow> byte list" where
  "job_wire j = request_wire (jb_req j) @ jb_payload j"

text \<open>What the worker may rely on for a job of a connection to export \<open>idx\<close>.\<close>

definition job_sound :: "nat \<Rightarrow> nat \<Rightarrow> nat \<Rightarrow> job \<Rightarrow> bool" where
  "job_sound idx export_size route j \<longleftrightarrow>
     jb_export j = idx \<and> jb_reply j = route \<and> request_wf (jb_req j) \<and> rq_len (jb_req j) \<le> IPC_BOUND \<and>
     (if rq_cmd (jb_req j) = CmdWrite
      then length (jb_payload j) = rq_len (jb_req j) \<and> rq_len (jb_req j) \<le> export_size
      else jb_payload j = [])"

lemma length_request_wire [simp]: "length (request_wire r) = 28"
  by (simp add: request_wire_def)

lemma conn_reader_sound:
  "\<exists>rest. inp = concat (map job_wire (fst (conn_reader idx es route inp))) @ rest \<and>
     list_all (job_sound idx es route) (fst (conn_reader idx es route inp))"
proof (induction idx es route inp rule: conn_reader.induct)
  case (1 idx es route inp)
  show ?case
  proof (cases "fst (conn_reader idx es route inp) = []")
    case False
    define req where "req = (case parse_request (take REQUEST_LEN inp) of Ok r \<Rightarrow> r | Err _ \<Rightarrow> undefined)"
    define n where "n = (if rq_cmd req = CmdWrite then rq_len req else 0)"
    let ?rest = "drop REQUEST_LEN inp"
    let ?j = "\<lparr>jb_export = idx, jb_req = req, jb_payload = take n ?rest, jb_reply = route\<rparr>"
    have c: "\<not> length inp < REQUEST_LEN" "parse_request (take REQUEST_LEN inp) = Ok req"
      "\<not> rq_len req > IPC_BOUND" "\<not> (rq_cmd req = CmdWrite \<and> rq_len req > es)" "\<not> length ?rest < n"
      and eq: "fst (conn_reader idx es route inp) = ?j # fst (conn_reader idx es route (drop n ?rest))"
      using False unfolding conn_reader.simps [of idx es route inp]
      by (auto simp: req_def n_def Let_def case_prod_beta split: if_splits result.splits)
    have ih: "\<exists>rest. drop n ?rest = concat (map job_wire (fst (conn_reader idx es route (drop n ?rest)))) @ rest \<and>
        list_all (job_sound idx es route) (fst (conn_reader idx es route (drop n ?rest)))"
      using "1.IH" [OF c(1-4) refl n_def] c(5) by simp
    have wf: "request_wf req" "take REQUEST_LEN inp = request_wire req"
      using parse_request_Ok [OF c(2)] c(1) by (simp_all add: REQUEST_LEN_def)
    have inp: "inp = job_wire ?j @ drop n ?rest"
      using wf(2) append_take_drop_id [of REQUEST_LEN inp] append_take_drop_id [of n ?rest]
      by (simp add: job_wire_def)
    obtain rest where rest: "drop n ?rest = concat (map job_wire (fst (conn_reader idx es route (drop n ?rest)))) @ rest"
      using ih by blast
    have "inp = job_wire ?j @ concat (map job_wire (fst (conn_reader idx es route (drop n ?rest)))) @ rest"
      by (rule trans [OF inp arg_cong [OF rest, of "\<lambda>x. job_wire ?j @ x"]])
    moreover have "job_sound idx es route ?j"
      using wf(1) c by (auto simp: job_sound_def n_def)
    ultimately show ?thesis using ih unfolding eq by (intro exI [of _ rest]) simp
  qed simp
qed

lemma conn_reader_jobs:
  assumes "list_all (job_sound idx es route) js"
  shows "fst (conn_reader idx es route (concat (map job_wire js) @ rest)) =
    js @ fst (conn_reader idx es route rest)"
  using assms
proof (induction js)
  case (Cons j js)
  let ?tl = "concat (map job_wire js) @ rest"
  have p: "parse_request (take 28 (job_wire j @ ?tl)) = Ok (jb_req j)"
    using parse_request_wire [of "jb_req j" "[]"] Cons.prems by (simp add: job_wire_def job_sound_def)
  have "fst (conn_reader idx es route (job_wire j @ ?tl)) = j # fst (conn_reader idx es route ?tl)"
    using Cons.prems p unfolding conn_reader.simps [of idx es route "job_wire j @ ?tl"]
    by (auto simp: REQUEST_LEN_def Let_def case_prod_beta job_wire_def job_sound_def)
  then show ?case using Cons by simp
qed simp

subsection \<open>The writer\<close>

text \<open>
  One attempt to send a reply writes its header and its data and flushes. A failed attempt may have
  put a part of these bytes on the socket; the flag says whether the error was \<open>WouldBlock\<close>, the only
  one that is retried. The outcomes of the successive attempts are the environment's choice.
\<close>

datatype send_result = SendOk | SendErr bool nat

definition reply_bytes :: "serve_outcome \<Rightarrow> byte list" where
  "reply_bytes r = so_reply r @ so_read_data r"

function send_reply :: "(nat \<Rightarrow> send_result) \<Rightarrow> nat \<Rightarrow> nat \<Rightarrow> serve_outcome \<Rightarrow> byte list \<times> nat" where
  "send_reply env i attempt r =
     (case env i of
        SendOk \<Rightarrow> (reply_bytes r, i + 1)
      | SendErr would_block k \<Rightarrow>
          let sent = take k (reply_bytes r); attempt' = attempt + 1
          in if attempt' > 5 \<or> \<not> would_block then (sent, i + 1)
             else let (more, i') = send_reply env (i + 1) attempt' r in (sent @ more, i'))"
  by pat_completeness auto

termination send_reply
  by (relation "measure (\<lambda>(env, i, attempt, r). 5 - attempt)") auto

declare send_reply.simps [simp del]

fun conn_writer :: "(nat \<Rightarrow> send_result) \<Rightarrow> nat \<Rightarrow> serve_outcome list \<Rightarrow> byte list" where
  "conn_writer env i [] = []"
| "conn_writer env i (r # rs) =
     (let (sent, i') = send_reply env i 0 r
      in if so_disconnect r then sent else sent @ conn_writer env i' rs)"

text \<open>Without errors the peer gets the replies in order, up to the one that disconnects.\<close>

lemma conn_writer_ok:
  assumes "\<And>i. env i = SendOk"
  shows "conn_writer env i rs =
    concat (map reply_bytes (takeWhile (\<lambda>r. \<not> so_disconnect r) rs)) @
    (case dropWhile (\<lambda>r. \<not> so_disconnect r) rs of [] \<Rightarrow> [] | r # _ \<Rightarrow> reply_bytes r)"
  by (induction rs arbitrary: i) (auto simp: send_reply.simps assms)

text \<open>
  A fatal error ends the attempts for one reply, not the writer: the peer misses that reply and gets
  the next one.
\<close>

lemma conn_writer_skips:
  assumes "env i = SendErr False 0" "env (i + 1) = SendOk" "\<not> so_disconnect r"
  shows "conn_writer env i [r, s] = reply_bytes s"
  using assms by (simp add: send_reply.simps)

subsection \<open>A session\<close>

lemma hs_option_wire:
  assumes "option_wf option"
  shows "hs_option ex tx nz \<lparr>nc_in = option_wire option @ rest, nc_out = ob, nc_room = room\<rparr> =
    hs_handle_option ex tx nz option \<lparr>nc_in = rest, nc_out = ob, nc_room = room\<rparr>"
proof -
  have "hs_read_option \<lparr>nc_in = option_wire option @ rest, nc_out = ob, nc_room = room\<rparr> =
      (\<lparr>nc_in = rest, nc_out = ob, nc_room = room\<rparr>, Ok option)"
    using assms by (simp add: hs_read_option_Ok)
  then show ?thesis by (simp add: hs_option_def hs_bind_def)
qed

definition demo_exports :: "export list" where
  "demo_exports = [\<lparr>ex_name = ''s0'', ex_size = 512\<rparr>, \<lparr>ex_name = ''s1'', ex_size = 512\<rparr>]"

definition go_wire :: "byte list \<Rightarrow> byte list" where
  "go_wire name = to_be 4 (length name) @ name @ to_be 2 0"

text \<open>The client asks for an unknown export, then for the second one, and reads a block of it.\<close>

definition demo_conn :: conn where
  "demo_conn = \<lparr>nc_in = to_be 4 0 @ option_wire (7, go_wire [120]) @
       option_wire (7, go_wire [115, 49]) @ job_wire demo_job,
     nc_out = [], nc_room = 200\<rparr>"

lemma go_name_wire: "length name < 256 ^ 4 \<Longrightarrow> go_export_name (go_wire name) = Ok name"
  by (simp add: go_export_name_def go_wire_def Let_def read_range_def from_to_be checked_add_def
      u64_max_def)

lemma demo_chars: "char_of (120 :: nat) = CHR ''x''" "char_of (115 :: nat) = CHR ''s''"
  "char_of (49 :: nat) = CHR ''1''"
  by code_simp+

lemma demo_names:
  "go_export_name (go_wire [120]) = Ok [120]" "name_utf8 [120] = Ok ''x''"
  "go_export_name (go_wire [115, 49]) = Ok [115, 49]" "name_utf8 [115, 49] = Ok ''s1''"
  "find_export demo_exports ''x'' = None" "find_export demo_exports ''s1'' = Some 1"
  by (simp_all add: go_name_wire name_utf8_def utf8_len_def in_range_def find_export_def
      demo_exports_def demo_chars)

lemma go_wire_length: "length (go_wire name) = length name + 6"
  by (simp add: go_wire_def)

lemma hs_loop_steps:
  "hs_option ex tx nz s = (s', Ok None) \<Longrightarrow> hs_loop ex tx nz s = hs_loop ex tx nz s'"
  "hs_option ex tx nz s = (s', Ok (Some i)) \<Longrightarrow> hs_loop ex tx nz s = (s', Ok i)"
  by (simp_all add: hs_loop.simps [of ex tx nz s])

lemma demo_handshake:
  "\<exists>s. server_handshake demo_exports 0 demo_conn = (s, Ok 1) \<and> nc_in s = job_wire demo_job"
proof -
  let ?i = "option_wire (7, go_wire [115, 49]) @ job_wire demo_job"
  have r: "read_u32 \<lparr>nc_in = to_be 4 0 @ i, nc_out = ob, nc_room = room\<rparr> =
      (\<lparr>nc_in = i, nc_out = ob, nc_room = room\<rparr>, Ok 0)" for i ob room
    by (simp add: read_uint_Ok)
  have unknown: "\<exists>ob'. hs_option demo_exports 0 nz
      \<lparr>nc_in = option_wire (7, go_wire [120]) @ i, nc_out = ob, nc_room = 182\<rparr> =
      (\<lparr>nc_in = i, nc_out = ob', nc_room = 162\<rparr>, Ok None)" for nz i ob
    by (simp add: hs_option_wire option_wf_def go_wire_length MAX_OPT_LEN_def hs_handle_option_def opt_defs
        hs_bind_def hs_lift_def demo_names write_opt_reply_def write_all_def hs_return_def)
  have chosen: "\<exists>ob' room. hs_option demo_exports 0 nz
      \<lparr>nc_in = option_wire (7, go_wire [115, 49]) @ i, nc_out = ob, nc_room = 162\<rparr> =
      (\<lparr>nc_in = i, nc_out = ob', nc_room = room\<rparr>, Ok (Some 1))" for nz i ob
    by (simp add: hs_option_wire option_wf_def go_wire_length MAX_OPT_LEN_def hs_handle_option_def opt_defs
        hs_bind_def hs_lift_def demo_names write_opt_reply_def write_export_info_def write_all_def
        hs_return_def)
  have "\<exists>s. hs_loop demo_exports 0 nz
      \<lparr>nc_in = option_wire (7, go_wire [120]) @ ?i, nc_out = ob, nc_room = 182\<rparr> = (s, Ok 1) \<and>
      nc_in s = job_wire demo_job" for nz ob
    using unknown [of nz ?i ob] chosen [of nz "job_wire demo_job"] hs_loop_steps
    by (metis conn.select_convs(1))
  then show ?thesis
    unfolding server_handshake_def demo_conn_def by (simp add: hs_bind_def write_all_def r)
qed


lemma handshake_index: "server_handshake exports tx s = (s', Ok idx) \<Longrightarrow> idx < length exports"
  unfolding server_handshake_def hs_bind_Ok by (elim exE conjE) (drule hs_loop_Ok, use option_export_less in blast)

subsection \<open>Properties of a connection\<close>

text \<open>
  C25. The handshake negotiates what the client asked for. When it succeeds with an export index, the
  bytes it took from the stream are exactly the client flags, then options that were answered without
  ending the negotiation, and a final option that names this export: by its full name, or by the empty
  name for the first one. The index is in range, and the bytes that follow are left for the
  transmission phase.
\<close>

theorem handshake_negotiates:
  assumes "server_handshake exports tx s = (s', Ok idx)"
  shows "\<exists>flags opts final.
    nc_in s = to_be 4 flags @ concat (map option_wire opts) @ option_wire final @ nc_in s' \<and>
    list_all (passed_over exports) opts \<and>
    fst final \<in> {NBD_OPT_EXPORT_NAME, NBD_OPT_GO} \<and> option_export exports final = Some idx \<and>
    idx < length exports"
proof -
  obtain s1 s2 flags where "nc_in s1 = nc_in s" and r: "read_u32 s1 = (s2, Ok flags)"
    and l: "hs_loop exports tx (of_nat flags AND NBD_FLAG_C_NO_ZEROES \<noteq> 0) s2 = (s', Ok idx)"
    using assms unfolding server_handshake_def hs_bind_Ok by (metis fst_conv leaf_in(1))
  with hs_loop_Ok [OF l] show ?thesis
    by (auto simp: read_uint_Ok dest: option_export_less)
qed

theorem handshake_negotiates_witness:
  "\<exists>s flags opts final. server_handshake demo_exports 0 demo_conn = (s, Ok 1) \<and>
     nc_in demo_conn = to_be 4 flags @ concat (map option_wire opts) @ option_wire final @ nc_in s \<and>
     option_export demo_exports final = Some 1"
proof -
  obtain s where s: "server_handshake demo_exports 0 demo_conn = (s, Ok 1)" using demo_handshake by blast
  from handshake_negotiates [OF s] s show ?thesis by blast
qed

text \<open>
  C26. What a connection hands to the worker. After a successful handshake the messages of the
  connection are the opening, its jobs and the closing. The jobs are, in order, exactly the requests
  at the front of the bytes after the handshake, all of them: every sequence of acceptable requests with which
  these bytes begin is among the jobs, from the first one on, so that reading ends only where no
  acceptable request follows. Each job is for the negotiated export, asks for at most 16 MiB, and
  carries a payload only if it is a write, of the announced length, which never exceeds the export.
\<close>

theorem connection_jobs:
  assumes "server_handshake exports tx s = (s', Ok idx)"
  shows "\<exists>js rest. connection exports tx route s = WOpened # map WJob js @ [WClosed] \<and>
    nc_in s' = concat (map job_wire js) @ rest \<and>
    list_all (job_sound idx (ex_size (exports ! idx)) route) js \<and>
    (\<forall>js' rest'. list_all (job_sound idx (ex_size (exports ! idx)) route) js' \<longrightarrow>
       nc_in s' = concat (map job_wire js') @ rest' \<longrightarrow> (\<exists>others. js = js' @ others))"
proof -
  let ?size = "ex_size (exports ! idx)"
  let ?js = "fst (conn_reader idx ?size route (nc_in s'))"
  obtain rest where rest: "nc_in s' = concat (map job_wire ?js) @ rest" "list_all (job_sound idx ?size route) ?js"
    using conn_reader_sound by blast
  have "\<exists>others. ?js = js' @ others"
    if "list_all (job_sound idx ?size route) js'" "nc_in s' = concat (map job_wire js') @ rest'" for js' rest'
    using conn_reader_jobs [OF that(1), of rest'] that(2) by simp
  moreover have "connection exports tx route s = WOpened # map WJob ?js @ [WClosed]"
    using assms by (simp add: connection_def)
  ultimately show ?thesis using rest by blast
qed

theorem connection_jobs_witness:
  "\<exists>s others. server_handshake demo_exports 0 demo_conn = (s, Ok 1) \<and>
     connection demo_exports 0 0 demo_conn = WOpened # map WJob (demo_job # others) @ [WClosed]"
proof -
  obtain s where s: "server_handshake demo_exports 0 demo_conn = (s, Ok 1)" "nc_in s = job_wire demo_job"
    using demo_handshake by blast
  have d: "list_all (job_sound 1 (ex_size (demo_exports ! 1)) 0) [demo_job]"
    by (simp add: job_sound_def demo_job_def demo_exports_def request_wf_def IPC_BOUND_def)
  have n: "nc_in s = concat (map job_wire [demo_job]) @ []" using s(2) by simp
  from connection_jobs [OF s(1), of 0] obtain js where
    js: "connection demo_exports 0 0 demo_conn = WOpened # map WJob js @ [WClosed]"
    and "\<exists>others. js = [demo_job] @ others"
    using d n by blast
  then show ?thesis using s(1) by auto
qed

subsection \<open>Exports of a slice map\<close>

definition exports_of :: "slice_map \<Rightarrow> export list" where
  "exports_of m = map (\<lambda>(name, len). \<lparr>ex_name = name, ex_size = len\<rparr>) (sm_exports m)"

lemma show_nat_inject: "show_nat a = show_nat b \<longleftrightarrow> a = b"
proof
  assume eq: "show_nat a = show_nat b"
  have "parse_uint (a + b) (show_nat a) = Some a" "parse_uint (a + b) (show_nat b) = Some b"
    by (rule parse_show_nat, simp)+
  then have "Some a = Some b" unfolding eq by (rule trans [OF sym])
  then show "a = b" by simp
qed simp

lemma length_exports_of [simp]: "length (exports_of m) = length (sm_slices m)"
  by (simp add: exports_of_def sm_exports_def)

text \<open>Every message of a connection is one the worker's guarantees cover.\<close>

lemma connection_msg_ok:
  assumes "msg \<in> set (connection (exports_of m) tx route s)"
  shows "msg_ok (worker_geom m) (RvMsg msg lat)"
proof (cases "server_handshake (exports_of m) tx s")
  case (Pair s' r)
  show ?thesis
  proof (cases r)
    case (Ok idx)
    then have idx: "idx < length (sm_slices m)"
      using handshake_index [of "exports_of m" tx s s' idx] Pair by simp
    have "list_all (job_sound idx (ex_size (exports_of m ! idx)) route)
        (fst (conn_reader idx (ex_size (exports_of m ! idx)) route (nc_in s')))"
      using conn_reader_sound by blast
    then show ?thesis using assms Pair Ok idx
      by (auto simp: connection_def list_all_iff job_sound_def worker_geom_def)
  next
    case (Err e)
    then show ?thesis using assms Pair by (auto simp: connection_def)
  qed
qed

text \<open>
  The name the broker announces for a slice leads to that slice. With the export table and the
  geometry that the daemon derives from its slice map, a client that asks for the export called
  \<open>s<i>\<close>, which is the name in the broker's swap-on message for slice \<open>i\<close>, negotiates index \<open>i\<close>; the
  size announced to it and the window the worker serves for that index are those of slice \<open>i\<close>.
\<close>

theorem export_name_resolves:
  assumes "slice_map_new n slice_bytes backing = Ok m" "sm_get m i = Some sl"
  shows "find_export (exports_of m) (''s'' @ show_nat i) = Some i \<and>
    ex_size (exports_of m ! i) = sl_len sl \<and> worker_geom m ! i = (sl_offset sl, sl_len sl)"
proof -
  note geo = new_geometry [OF assms(1)]
  have i: "i < n" "sl = sm_slices m ! i"
    using sm_get_id [OF assms(2)] geo by (auto simp: set_conv_nth)
  have nth: "ex_name (exports_of m ! j) = ''s'' @ show_nat j" if "j < n" for j
    using geo that by (simp add: exports_of_def sm_exports_def)
  have "position (\<lambda>e. ex_name e = ''s'' @ show_nat i) (exports_of m) = Some i"
    using i geo nth by (intro position_eqI) (auto simp: show_nat_inject)
  then show ?thesis using geo i
    by (simp add: find_export_def exports_of_def sm_exports_def worker_geom_def)
qed

theorem export_name_resolves_witness:
  "\<exists>m sl. slice_map_new 2 512 1024 = Ok m \<and> sm_get m 1 = Some sl \<and>
     find_export (exports_of m) (''s'' @ show_nat 1) = Some 1 \<and> worker_geom m ! 1 = (sl_offset sl, sl_len sl)"
proof -
  obtain m where m: "slice_map_new 2 512 1024 = Ok m" using demo_map by blast
  then obtain sl where sl: "sm_get m 1 = Some sl"
    using new_geometry [OF m] by (auto simp: sm_get_def upt_rec)
  from export_name_resolves [OF m sl] m sl show ?thesis by blast
qed

end
