(* ===== verification/Sparse_Vram.thy ===== *)
theory Sparse_Vram
  imports Backends Rust_Text
begin

text \<open>
  The sparse VRAM backend (\<^verbatim>\<open>crates/ramshared-block/src/sparse_vram.rs\<close>): a large logical capacity
  whose chunks are allocated on the first write and read as zero before. It is shown to be a device,
  indistinguishable from a disk that starts out zeroed, and never to commit more than its cap.
\<close>

subsection \<open>State\<close>

text \<open>
  The environment of a backend: the provider with its regions, the optional host gate, and the clock.
  They share the state \<open>'p\<close>.
\<close>

record ('p, 'm) sparse_env =
  se_mem :: "'m mem_ops"
  se_prov :: "('p, 'm) prov_ops"
  se_gate :: "('p \<Rightarrow> nat \<Rightarrow> nat \<Rightarrow> 'p \<times> (unit, string) result) option"
  se_clock :: "'p \<Rightarrow> 'p \<times> instant"

record 'm chunk =
  ck_mem :: "'m option"
  ck_written :: bool
  ck_last_write :: "instant option"

definition empty_chunk :: "'m chunk" where
  "empty_chunk = \<lparr>ck_mem = None, ck_written = False, ck_last_write = None\<rparr>"

record sparse_config =
  sc_capacity :: nat
  sc_chunk_bytes :: nat
  sc_block_size :: nat
  sc_reserve_floor_bytes :: nat
  sc_commit_cap_bytes :: "nat option"

record ('p, 'm) sparse_vram =
  sp_provider :: 'p
  sp_capacity :: nat
  sp_chunk_bytes :: nat
  sp_block_size :: nat
  sp_reserve_floor :: nat
  sp_commit_cap :: nat
  sp_chunks :: "'m chunk list"
  sp_alloc_fails :: nat
  sp_reclaim_frees :: nat
  sp_floor_refuses :: nat
  sp_budget_refuses :: nat

subsection \<open>Configuration from the process environment\<close>

definition clamp :: "nat \<Rightarrow> nat \<Rightarrow> nat \<Rightarrow> nat" where
  "clamp lo hi v = max lo (min hi v)"

definition MIB :: nat where "MIB = 1024 * 1024"

definition DEFAULT_CHUNK_MIB :: nat where "DEFAULT_CHUNK_MIB = 128"

definition env_u64 :: "string option \<Rightarrow> nat option" where
  "env_u64 v = (case v of None \<Rightarrow> None | Some s \<Rightarrow> parse_uint u64_max (trim s))"

definition chunk_bytes_from_env :: "string option \<Rightarrow> nat" where
  "chunk_bytes_from_env v = saturating_mul u64_max (clamp 16 512 (unwrap_or (env_u64 v) DEFAULT_CHUNK_MIB)) MIB"

definition idle_free_secs_from_env :: "string option \<Rightarrow> nat" where
  "idle_free_secs_from_env v = clamp 1 3600 (unwrap_or (env_u64 v) 30)"

definition reserve_floor_bytes_from_env :: "string option \<Rightarrow> string option \<Rightarrow> nat" where
  "reserve_floor_bytes_from_env min_free headroom =
     saturating_mul u64_max
       (clamp 128 4096 (unwrap_or (env_u64 (case min_free of Some s \<Rightarrow> Some s | None \<Rightarrow> headroom)) 512)) MIB"

definition commit_cap_bytes_from_env :: "string option \<Rightarrow> nat" where
  "commit_cap_bytes_from_env v =
     (case env_u64 v of
        Some mib \<Rightarrow> saturating_mul u64_max (clamp 256 (64 * 1024) mib) MIB
      | None \<Rightarrow> u64_max div 4)"

definition safe_commit_cap :: "nat \<Rightarrow> nat \<Rightarrow> nat \<Rightarrow> nat" where
  "safe_commit_cap capacity total_vram reserve =
     max (min capacity (saturating_sub total_vram reserve)) 1"

subsection \<open>Construction\<close>

definition sparse_new ::
  "string option \<Rightarrow> 'p \<Rightarrow> sparse_config \<Rightarrow> (('p, 'm) sparse_vram, io_error) result" where
  "sparse_new cap_env provider cfg =
     (if sc_capacity cfg = 0 then Err (IoError ''sparse: capacity 0'')
      else if sc_chunk_bytes cfg = 0 \<or> \<not> is_multiple_of (sc_chunk_bytes cfg) (sc_block_size cfg) then
        Err (IoError (''sparse: chunk_bytes='' @ show_nat (sc_chunk_bytes cfg) @
          '' must be >0 and multiple of block_size='' @ show_nat (sc_block_size cfg)))
      else
        let n = div_ceil (sc_capacity cfg) (sc_chunk_bytes cfg)
        in if n > 1000000 then Err (IoError (''sparse: too many chunks ('' @ show_nat n @ '')''))
           else
             let commit_cap = max (min (case sc_commit_cap_bytes cfg of Some c \<Rightarrow> c
                                         | None \<Rightarrow> commit_cap_bytes_from_env cap_env)
                                       (sc_capacity cfg)) (sc_chunk_bytes cfg)
             in Ok \<lparr>sp_provider = provider, sp_capacity = sc_capacity cfg,
                    sp_chunk_bytes = sc_chunk_bytes cfg, sp_block_size = sc_block_size cfg,
                    sp_reserve_floor = sc_reserve_floor_bytes cfg, sp_commit_cap = commit_cap,
                    sp_chunks = replicate n empty_chunk, sp_alloc_fails = 0, sp_reclaim_frees = 0,
                    sp_floor_refuses = 0, sp_budget_refuses = 0\<rparr>)"

definition chunks_live :: "('p, 'm) sparse_vram \<Rightarrow> nat" where
  "chunks_live s = length (filter (\<lambda>c. ck_mem c \<noteq> None) (sp_chunks s))"

definition committed_bytes :: "('p, 'm) sparse_vram \<Rightarrow> nat" where
  "committed_bytes s = chunks_live s * sp_chunk_bytes s mod (u64_max + 1)"

subsection \<open>Releasing chunks\<close>

text \<open>Taking a region out of its slot drops it, which returns it to the provider.\<close>

definition free_chunk :: "'m chunk \<Rightarrow> 'm chunk" where
  "free_chunk c = (if ck_mem c \<noteq> None then empty_chunk else c)"

definition free_all_live :: "('p, 'm) sparse_vram \<Rightarrow> ('p, 'm) sparse_vram \<times> nat" where
  "free_all_live s =
     (s\<lparr>sp_chunks := map free_chunk (sp_chunks s),
        sp_reclaim_frees := fold (\<lambda>c n. if ck_mem c \<noteq> None then saturating_add u64_max n 1 else n)
          (sp_chunks s) (sp_reclaim_frees s)\<rparr>,
      fold (\<lambda>c n. if ck_mem c \<noteq> None then saturating_add u64_max n (sp_chunk_bytes s) else n)
        (sp_chunks s) 0)"

definition try_reclaim ::
  "('p, 'm) sparse_env \<Rightarrow> nat \<Rightarrow> nat option \<Rightarrow> nat \<Rightarrow> duration \<Rightarrow> ('p, 'm) sparse_vram \<Rightarrow>
   ('p, 'm) sparse_vram \<times> nat" where
  "try_reclaim env nbd_used_kb free_vram free_floor idle s =
     (if nbd_used_kb > 0 then (s, 0)
      else
        let below_floor = (case free_vram of Some f \<Rightarrow> f < free_floor | None \<Rightarrow> False);
            (p, now) = se_clock env (sp_provider s);
            s1 = s\<lparr>sp_provider := p\<rparr>;
            live = filter (\<lambda>c. ck_mem c \<noteq> None) (sp_chunks s1);
            idle_ok = (live \<noteq> [] \<and>
              list_all (\<lambda>c. case ck_last_write c of Some t \<Rightarrow> duration_since now t \<ge> idle | None \<Rightarrow> True) live)
        in if below_floor \<or> idle_ok then free_all_live s1 else (s1, 0))"

subsection \<open>Allocation on the first write\<close>

definition page_table_oob :: "nat \<Rightarrow> nat \<Rightarrow> io_error" where
  "page_table_oob idx len = IoError (''sparse page table oob idx='' @ show_nat idx @ '' len='' @ show_nat len)"

definition em_dash :: string where
  "em_dash = map char_of [226, 128, 148 :: nat]"

definition gate_allows ::
  "('p, 'm) sparse_env \<Rightarrow> ('p, 'm) sparse_vram \<Rightarrow> ('p, 'm) sparse_vram \<times> (unit, io_error) result" where
  "gate_allows env s =
     (case se_gate env of
        None \<Rightarrow> (s, Ok ())
      | Some gate \<Rightarrow>
          (case gate (sp_provider s) (committed_bytes s) (sp_chunk_bytes s) of
             (p, Ok _) \<Rightarrow> (s\<lparr>sp_provider := p\<rparr>, Ok ())
           | (p, Err m) \<Rightarrow>
               (s\<lparr>sp_provider := p, sp_budget_refuses := saturating_add u64_max (sp_budget_refuses s) 1\<rparr>,
                Err (IoError (''sparse host budget constrained before allocation: '' @ m)))))"

definition floor_allows ::
  "('p, 'm) sparse_env \<Rightarrow> ('p, 'm) sparse_vram \<Rightarrow> ('p, 'm) sparse_vram \<times> (unit, io_error) result" where
  "floor_allows env s =
     (case po_mem_info (se_prov env) (sp_provider s) of
        (p, Ok (free, _)) \<Rightarrow>
          let s1 = s\<lparr>sp_provider := p\<rparr>;
              need = saturating_add u64_max (sp_reserve_floor s) (sp_chunk_bytes s)
          in if free < need then
               (s1\<lparr>sp_floor_refuses := saturating_add u64_max (sp_floor_refuses s1) 1\<rparr>,
                Err (IoError (''sparse free-floor: free '' @ show_nat (free div 2 ^ 20) @
                  '' MiB < reserve+chunk '' @ show_nat (need div 2 ^ 20) @ '' MiB '' @ em_dash @
                  '' refuse alloc (protect GPU)'')))
             else (s1, Ok ())
      | (p, Err e) \<Rightarrow>
          (s\<lparr>sp_provider := p, sp_alloc_fails := saturating_add u64_max (sp_alloc_fails s) 1\<rparr>,
           Err (IoError (''sparse mem_info: '' @ vram_display e))))"

definition alloc_chunk ::
  "('p, 'm) sparse_env \<Rightarrow> nat \<Rightarrow> ('p, 'm) sparse_vram \<Rightarrow> ('p, 'm) sparse_vram \<times> (unit, io_error) result" where
  "alloc_chunk env idx s =
     (case po_alloc (se_prov env) (sp_provider s) (sp_chunk_bytes s) of
        (p, Err e) \<Rightarrow>
          (s\<lparr>sp_provider := p, sp_alloc_fails := saturating_add u64_max (sp_alloc_fails s) 1\<rparr>,
           Err (IoError (''sparse alloc chunk '' @ show_nat idx @ '': '' @ vram_display e)))
      | (p, Ok m) \<Rightarrow>
          let s1 = s\<lparr>sp_provider := p\<rparr>
          in (case mo_zero (se_mem env) m of
                (m', Err e) \<Rightarrow> (s1, Err (io_of_vram e))
              | (m', Ok _) \<Rightarrow>
                  if idx < length (sp_chunks s1) then
                    (s1\<lparr>sp_chunks := (sp_chunks s1)[idx := (sp_chunks s1 ! idx)\<lparr>ck_mem := Some m'\<rparr>]\<rparr>, Ok ())
                  else (s1, Err (page_table_oob idx (length (sp_chunks s1))))))"

definition commit_refusal :: "('p, 'm) sparse_vram \<Rightarrow> nat \<Rightarrow> io_error" where
  "commit_refusal s next_commit =
     IoError (''sparse commit_cap: committed would be '' @ show_nat (next_commit div 2 ^ 20) @
       '' MiB > cap '' @ show_nat (sp_commit_cap s div 2 ^ 20) @ '' MiB (capacity '' @
       show_nat (sp_capacity s div 2 ^ 20) @
       '' MiB); refusing the write because swap fallback is not guaranteed'')"

definition ensure_live ::
  "('p, 'm) sparse_env \<Rightarrow> nat \<Rightarrow> ('p, 'm) sparse_vram \<Rightarrow> ('p, 'm) sparse_vram \<times> (unit, io_error) result" where
  "ensure_live env idx s =
     (if idx \<ge> length (sp_chunks s) then (s, Err (page_table_oob idx (length (sp_chunks s))))
      else if ck_mem (sp_chunks s ! idx) \<noteq> None then (s, Ok ())
      else
        let next_commit = saturating_add u64_max (committed_bytes s) (sp_chunk_bytes s)
        in (case gate_allows env s of
              (s1, Err e) \<Rightarrow> (s1, Err e)
            | (s1, Ok _) \<Rightarrow>
                if next_commit > sp_commit_cap s1 then
                  (s1\<lparr>sp_floor_refuses := saturating_add u64_max (sp_floor_refuses s1) 1\<rparr>,
                   Err (commit_refusal s1 next_commit))
                else
                  (case floor_allows env s1 of
                     (s2, Err e) \<Rightarrow> (s2, Err e)
                   | (s2, Ok _) \<Rightarrow> alloc_chunk env idx s2)))"

subsection \<open>Reading and writing\<close>

text \<open>A zero chunk size, which the constructor excludes, makes the division panic.\<close>

definition chunk_index :: "('p, 'm) sparse_vram \<Rightarrow> nat \<Rightarrow> (nat, io_error) result" where
  "chunk_index s off =
     (if off \<ge> sp_capacity s then
        Err (IoError (''sparse oob off='' @ show_nat off @ '' capacity='' @ show_nat (sp_capacity s)))
      else if sp_chunk_bytes s = 0 then Err (IoError ''attempt to divide by zero'')
      else Ok (off div sp_chunk_bytes s))"

text \<open>The part of \<open>[off + done, off + n)\<close> that lies in one chunk.\<close>

definition chunk_piece :: "('p, 'm) sparse_vram \<Rightarrow> nat \<Rightarrow> nat \<Rightarrow> nat \<Rightarrow> nat \<Rightarrow> nat \<times> nat" where
  "chunk_piece s off n don idx =
     (let rel = off + don - idx * sp_chunk_bytes s
      in (rel, min (n - don) (saturating_sub (sp_chunk_bytes s) rel)))"

lemma chunk_index_Ok:
  "chunk_index s off = Ok idx \<longleftrightarrow>
     off < sp_capacity s \<and> sp_chunk_bytes s \<noteq> 0 \<and> idx = off div sp_chunk_bytes s"
  by (auto simp: chunk_index_def)

lemma chunk_piece_eq:
  assumes "chunk_index s (off + don) = Ok idx"
  shows "chunk_piece s off n don idx = ((off + don) mod sp_chunk_bytes s,
     min (n - don) (sp_chunk_bytes s - (off + don) mod sp_chunk_bytes s))"
  using assms by (simp add: chunk_index_Ok chunk_piece_def Let_def saturating_sub_def minus_div_mult_eq_mod)

lemma chunk_piece_pos:
  assumes "(rel, k) = chunk_piece s off n don idx" "chunk_index s (off + don) = Ok idx" "don < n"
  shows "0 < k"
  using assms chunk_piece_eq [OF assms(2), of n] by (auto simp: chunk_index_Ok)

function sparse_read_from ::
  "'m mem_ops \<Rightarrow> ('p, 'm) sparse_vram \<Rightarrow> nat \<Rightarrow> nat \<Rightarrow> nat \<Rightarrow> (byte list, io_error) result" where
  "sparse_read_from mops s off n don =
     (if don < n then
        (case chunk_index s (off + don) of
           Err e \<Rightarrow> Err e
         | Ok idx \<Rightarrow>
             let (rel, k) = chunk_piece s off n don idx
             in if idx \<ge> length (sp_chunks s) then Err (page_table_oob idx (length (sp_chunks s)))
                else (case (case ck_mem (sp_chunks s ! idx) of
                              Some m \<Rightarrow> map_err io_of_vram (mo_read mops m rel k)
                            | None \<Rightarrow> Ok (replicate k 0)) of
                        Err e \<Rightarrow> Err e
                      | Ok bs \<Rightarrow>
                          (case sparse_read_from mops s off n (don + k) of
                             Err e \<Rightarrow> Err e
                           | Ok rest \<Rightarrow> Ok (bs @ rest))))
      else Ok [])"
  by pat_completeness auto

termination sparse_read_from
  by (relation "measure (\<lambda>(mops, s, off, n, don). n - don)") (auto dest: chunk_piece_pos)

declare sparse_read_from.simps [simp del]

definition sparse_range_err :: "string \<Rightarrow> nat \<Rightarrow> nat \<Rightarrow> nat \<Rightarrow> io_error" where
  "sparse_range_err what off n cap =
     IoError (''sparse '' @ what @ '' oob off='' @ show_nat off @ '' len='' @ show_nat n @ '' cap='' @ show_nat cap)"

definition sparse_read_at ::
  "('p, 'm) sparse_env \<Rightarrow> ('p, 'm) sparse_vram \<Rightarrow> nat \<Rightarrow> nat \<Rightarrow>
   ('p, 'm) sparse_vram \<times> (byte list, io_error) result" where
  "sparse_read_at env s off n =
     (if n = 0 then (s, Ok [])
      else case checked_add u64_max off n of
          None \<Rightarrow> (s, Err (sparse_range_err ''read'' off n (sp_capacity s)))
        | Some e \<Rightarrow>
            if e \<le> sp_capacity s then (s, sparse_read_from (se_mem env) s off n 0)
            else (s, Err (sparse_range_err ''read'' off n (sp_capacity s))))"

text \<open>The write of one piece to a live chunk.\<close>

definition write_piece ::
  "'m mem_ops \<Rightarrow> instant \<Rightarrow> nat \<Rightarrow> nat \<Rightarrow> byte list \<Rightarrow> ('p, 'm) sparse_vram \<Rightarrow>
   ('p, 'm) sparse_vram \<times> (unit, io_error) result" where
  "write_piece mops now idx rel bs s =
     (if idx \<ge> length (sp_chunks s) then (s, Err (page_table_oob idx (length (sp_chunks s))))
      else let c = sp_chunks s ! idx
           in (case ck_mem c of
                 None \<Rightarrow> (s, Err (IoError ''sparse: mem missing after ensure''))
               | Some m \<Rightarrow>
                   (case mo_write mops m rel bs of
                      (m', Err e) \<Rightarrow>
                        (s\<lparr>sp_chunks := (sp_chunks s)[idx := c\<lparr>ck_mem := Some m'\<rparr>]\<rparr>, Err (io_of_vram e))
                    | (m', Ok _) \<Rightarrow>
                        (s\<lparr>sp_chunks := (sp_chunks s)[idx :=
                           c\<lparr>ck_mem := Some m', ck_written := True, ck_last_write := Some now\<rparr>]\<rparr>, Ok ()))))"

function sparse_write_from ::
  "('p, 'm) sparse_env \<Rightarrow> instant \<Rightarrow> nat \<Rightarrow> byte list \<Rightarrow> nat \<Rightarrow> ('p, 'm) sparse_vram \<Rightarrow>
   ('p, 'm) sparse_vram \<times> (unit, io_error) result" where
  "sparse_write_from env now off bs don s =
     (if don < length bs then
        (case chunk_index s (off + don) of
           Err e \<Rightarrow> (s, Err e)
         | Ok idx \<Rightarrow>
             (case ensure_live env idx s of
                (s1, Err e) \<Rightarrow> (s1, Err e)
              | (s1, Ok _) \<Rightarrow>
                  let (rel, k) = chunk_piece s off (length bs) don idx
                  in (case write_piece (se_mem env) now idx rel (read_range don k bs) s1 of
                        (s2, Err e) \<Rightarrow> (s2, Err e)
                      | (s2, Ok _) \<Rightarrow> sparse_write_from env now off bs (don + k) s2)))
      else (s, Ok ()))"
  by pat_completeness auto

termination sparse_write_from
  by (relation "measure (\<lambda>(env, now, off, bs, don, s). length bs - don)") (auto dest: chunk_piece_pos)

declare sparse_write_from.simps [simp del]

definition sparse_write_at ::
  "('p, 'm) sparse_env \<Rightarrow> ('p, 'm) sparse_vram \<Rightarrow> nat \<Rightarrow> byte list \<Rightarrow>
   ('p, 'm) sparse_vram \<times> (unit, io_error) result" where
  "sparse_write_at env s off bs =
     (if bs = [] then (s, Ok ())
      else case checked_add u64_max off (length bs) of
          None \<Rightarrow> (s, Err (sparse_range_err ''write'' off (length bs) (sp_capacity s)))
        | Some e \<Rightarrow>
            if e \<le> sp_capacity s then
              let (p, now) = se_clock env (sp_provider s)
              in sparse_write_from env now off bs 0 (s\<lparr>sp_provider := p\<rparr>)
            else (s, Err (sparse_range_err ''write'' off (length bs) (sp_capacity s))))"

definition sparse_flush :: "('p, 'm) sparse_vram \<Rightarrow> ('p, 'm) sparse_vram \<times> (unit, io_error) result" where
  "sparse_flush s = (s, Ok ())"

definition sparse_ops :: "('p, 'm) sparse_env \<Rightarrow> ('p, 'm) sparse_vram backend_ops" where
  "sparse_ops env =
     \<lparr>be_size_bytes = sp_capacity, be_block_size = sp_block_size, be_is_read_only = (\<lambda>_. False),
      be_read_at = sparse_read_at env, be_write_at = sparse_write_at env,
      be_write_at_with_options = default_write_with_options (sparse_write_at env) sparse_flush,
      be_flush = sparse_flush\<rparr>"

subsection \<open>The disk behind the chunks\<close>

lemma concat_replicate_const: "concat (replicate n (replicate k x)) = replicate (n * k) x"
  by (induction n) (simp_all add: replicate_add)

definition chunk_data :: "('m \<Rightarrow> byte list) \<Rightarrow> nat \<Rightarrow> 'm chunk \<Rightarrow> byte list" where
  "chunk_data contents cb c = (case ck_mem c of None \<Rightarrow> replicate cb 0 | Some m \<Rightarrow> contents m)"

definition sparse_data :: "('m \<Rightarrow> byte list) \<Rightarrow> ('p, 'm) sparse_vram \<Rightarrow> byte list list" where
  "sparse_data contents s = map (chunk_data contents (sp_chunk_bytes s)) (sp_chunks s)"

definition sparse_disk :: "('m \<Rightarrow> byte list) \<Rightarrow> ('p, 'm) sparse_vram \<Rightarrow> byte list" where
  "sparse_disk contents s = take (sp_capacity s) (concat (sparse_data contents s))"

definition sparse_inv ::
  "('m \<Rightarrow> byte list) \<Rightarrow> ('m \<Rightarrow> bool) \<Rightarrow> ('p, 'm) sparse_vram \<Rightarrow> bool" where
  "sparse_inv contents good s \<longleftrightarrow>
     0 < sp_chunk_bytes s \<and> length (sp_chunks s) = div_ceil (sp_capacity s) (sp_chunk_bytes s) \<and>
     sp_capacity s + sp_chunk_bytes s \<le> u64_max \<and>
     (\<forall>c \<in> set (sp_chunks s). \<forall>m. ck_mem c = Some m \<longrightarrow> good m \<and> length (contents m) = sp_chunk_bytes s) \<and>
     chunks_live s * sp_chunk_bytes s \<le> sp_commit_cap s"

text \<open>What no operation changes, and the steps that touch no chunk.\<close>

definition same_config :: "('p, 'm) sparse_vram \<Rightarrow> ('p, 'm) sparse_vram \<Rightarrow> bool" where
  "same_config s t \<longleftrightarrow> sp_capacity t = sp_capacity s \<and> sp_chunk_bytes t = sp_chunk_bytes s \<and>
     sp_block_size t = sp_block_size s \<and> sp_reserve_floor t = sp_reserve_floor s \<and>
     sp_commit_cap t = sp_commit_cap s"

definition same_chunks :: "('p, 'm) sparse_vram \<Rightarrow> ('p, 'm) sparse_vram \<Rightarrow> bool" where
  "same_chunks s t \<longleftrightarrow> same_config s t \<and> sp_chunks t = sp_chunks s"

lemma same_chunks_inv: "same_chunks s t \<Longrightarrow> sparse_inv contents good s \<Longrightarrow> sparse_inv contents good t"
  by (simp add: same_chunks_def same_config_def sparse_inv_def chunks_live_def)

lemma same_chunks_disk: "same_chunks s t \<Longrightarrow> sparse_disk contents t = sparse_disk contents s"
  by (simp add: same_chunks_def same_config_def sparse_disk_def sparse_data_def)

lemma same_chunks_frame:
  "same_chunks s t \<Longrightarrow> sparse_inv contents good s \<Longrightarrow>
   sparse_inv contents good t \<and> same_config s t \<and> sparse_disk contents t = sparse_disk contents s"
  using same_chunks_inv [of s t] same_chunks_disk [of s t] unfolding same_chunks_def by blast

lemma same_chunks_refl [simp]: "same_chunks s s"
  by (simp add: same_chunks_def same_config_def)

lemma same_chunks_counter [simp]: "same_chunks s (t\<lparr>sp_floor_refuses := n\<rparr>) \<longleftrightarrow> same_chunks s t"
  by (simp add: same_chunks_def same_config_def)

lemma same_chunks_trans: "same_chunks s t \<Longrightarrow> same_chunks t u \<Longrightarrow> same_chunks s u"
  by (simp add: same_chunks_def same_config_def)

lemma gate_allows_frame: "gate_allows env s = (t, r) \<Longrightarrow> same_chunks s t"
  by (auto simp: gate_allows_def same_chunks_def same_config_def split: option.splits prod.splits result.splits)

lemma floor_allows_frame: "floor_allows env s = (t, r) \<Longrightarrow> same_chunks s t"
  by (auto simp: floor_allows_def same_chunks_def same_config_def Let_def
      split: prod.splits result.splits if_splits)

lemma sparse_data_blocks:
  "sparse_inv contents good s \<Longrightarrow> \<forall>x \<in> set (sparse_data contents s). length x = sp_chunk_bytes s"
  by (auto simp: sparse_inv_def sparse_data_def chunk_data_def split: option.split)

lemma sparse_length:
  assumes "sparse_inv contents good s"
  shows "length (sparse_disk contents s) = sp_capacity s"
    and "sp_capacity s \<le> length (concat (sparse_data contents s))"
proof -
  have "length (concat (sparse_data contents s)) = length (sp_chunks s) * sp_chunk_bytes s"
    using length_concat_blocks [OF sparse_data_blocks [OF assms]] by (simp add: sparse_data_def)
  then show "sp_capacity s \<le> length (concat (sparse_data contents s))"
    using assms div_ceil_upper [of "sp_chunk_bytes s" "sp_capacity s"] by (simp add: sparse_inv_def)
  then show "length (sparse_disk contents s) = sp_capacity s" by (simp add: sparse_disk_def)
qed

lemma chunk_in_table:
  assumes "sparse_inv contents good s" "chunk_index s off = Ok idx"
  shows "idx < length (sp_chunks s)"
proof -
  have "off < div_ceil (sp_capacity s) (sp_chunk_bytes s) * sp_chunk_bytes s"
    using assms div_ceil_upper [of "sp_chunk_bytes s" "sp_capacity s"]
    by (simp add: sparse_inv_def chunk_index_Ok)
  then show ?thesis
    using assms by (simp add: sparse_inv_def chunk_index_Ok less_mult_imp_div_less)
qed

lemma committed_exact:
  assumes "sparse_inv contents good s"
  shows "committed_bytes s = chunks_live s * sp_chunk_bytes s"
proof -
  have "chunks_live s \<le> length (sp_chunks s)" by (simp add: chunks_live_def)
  then have "chunks_live s * sp_chunk_bytes s \<le> length (sp_chunks s) * sp_chunk_bytes s"
    by (rule mult_le_mono1)
  also have "\<dots> \<le> u64_max"
    using assms div_ceil_bound [of "sp_chunk_bytes s" "sp_capacity s"] by (simp add: sparse_inv_def)
  finally show ?thesis by (simp add: committed_bytes_def)
qed

text \<open>Replacing one chunk.\<close>

lemma set_chunk_inv:
  assumes "sparse_inv contents good s" "idx < length (sp_chunks s)" "ck_mem c = Some m" "good m"
    and "length (contents m) = sp_chunk_bytes s"
    and "ck_mem (sp_chunks s ! idx) = None \<Longrightarrow> sp_chunk_bytes s + chunks_live s * sp_chunk_bytes s \<le> sp_commit_cap s"
  shows "sparse_inv contents good (s\<lparr>sp_chunks := (sp_chunks s)[idx := c]\<rparr>)"
proof -
  have "chunks_live (s\<lparr>sp_chunks := (sp_chunks s)[idx := c]\<rparr>) =
      chunks_live s + (if ck_mem (sp_chunks s ! idx) = None then 1 else 0)"
    using length_filter_update [OF assms(2), of "\<lambda>c. ck_mem c \<noteq> None" c] assms(3)
    by (simp add: chunks_live_def split: if_splits)
  moreover have "\<forall>d \<in> set ((sp_chunks s)[idx := c]). \<forall>m. ck_mem d = Some m \<longrightarrow>
      good m \<and> length (contents m) = sp_chunk_bytes s"
  proof
    fix d assume "d \<in> set ((sp_chunks s)[idx := c])"
    then have "d = c \<or> d \<in> set (sp_chunks s)" using set_update_subset_insert by fastforce
    then show "\<forall>m. ck_mem d = Some m \<longrightarrow> good m \<and> length (contents m) = sp_chunk_bytes s"
      using assms(1,3-5) by (auto simp: sparse_inv_def)
  qed
  ultimately show ?thesis using assms(1,6) by (simp add: sparse_inv_def)
qed

lemma set_chunk_data:
  assumes "idx < length (sp_chunks s)" "ck_mem c = Some m"
  shows "sparse_data contents (s\<lparr>sp_chunks := (sp_chunks s)[idx := c]\<rparr>) =
    (sparse_data contents s)[idx := contents m]"
  using assms by (simp add: sparse_data_def chunk_data_def map_update)


text \<open>A backend over a lawful provider.\<close>

context vram_provider
begin

lemma alloc_chunk_law:
  assumes "sparse_inv contents wf s" "idx < length (sp_chunks s)" "ck_mem (sp_chunks s ! idx) = None"
    and "sp_chunk_bytes s + chunks_live s * sp_chunk_bytes s \<le> sp_commit_cap s"
    and "se_mem env = ops" "se_prov env = prov" "alloc_chunk env idx s = (t, r)"
  shows "sparse_inv contents wf t \<and> same_config s t \<and> sparse_disk contents t = sparse_disk contents s \<and>
    (r = Ok () \<longrightarrow> ck_mem (sp_chunks t ! idx) \<noteq> None)"
proof (cases "po_alloc prov (sp_provider s) (sp_chunk_bytes s)")
  case (Pair p a)
  show ?thesis
  proof (cases a)
    case (Err e)
    then have "same_chunks s t" "r \<noteq> Ok ()" using assms Pair
      by (auto simp: alloc_chunk_def same_chunks_def same_config_def)
    then show ?thesis using assms(1) same_chunks_frame by blast
  next
    case (Ok m)
    let ?s1 = "s\<lparr>sp_provider := p\<rparr>"
    have m: "wf m" "length (contents m) = sp_chunk_bytes s"
      using prov_alloc [of "sp_provider s" "sp_chunk_bytes s" p m] Pair Ok by auto
    have s1: "same_chunks s ?s1" by (simp add: same_chunks_def same_config_def)
    obtain m' z where z: "mo_zero ops m = (m', z)" by fastforce
    note zl = mem_zero [OF m(1) z]
    show ?thesis
    proof (cases z)
      case (Err e)
      then have "t = ?s1" "r \<noteq> Ok ()" using assms Pair Ok z by (auto simp: alloc_chunk_def)
      then show ?thesis using assms(1) same_chunks_frame [OF s1] by blast
    next
      case (Ok u)
      let ?c = "(sp_chunks s ! idx)\<lparr>ck_mem := Some m'\<rparr>"
      have t: "t = ?s1\<lparr>sp_chunks := (sp_chunks ?s1)[idx := ?c]\<rparr>" "r = Ok ()"
        using assms Pair \<open>a = Ok m\<close> z Ok by (auto simp: alloc_chunk_def)
      have c: "contents m' = replicate (sp_chunk_bytes s) 0" using zl Ok m by simp
      have "sparse_inv contents wf t"
        unfolding t by (rule set_chunk_inv [where m = m'])
          (use assms(1-4) same_chunks_inv [OF s1 assms(1)] zl m in \<open>auto simp: chunks_live_def add.commute\<close>)
      moreover have "sparse_data contents t = sparse_data contents s"
        unfolding t using set_chunk_data [of idx ?s1 ?c m' contents] assms(2,3) c
        by (simp add: sparse_data_def chunk_data_def list_update_same_conv)
      ultimately show ?thesis using t assms(2)
        by (simp add: same_config_def sparse_disk_def)
    qed
  qed
qed

lemma ensure_live_dead:
  assumes "idx < length (sp_chunks s)" "ck_mem (sp_chunks s ! idx) = None"
    and "gate_allows env s = (s1, g)" "floor_allows env s1 = (s2, f)"
    and "nc = saturating_add u64_max (committed_bytes s) (sp_chunk_bytes s)"
  shows "ensure_live env idx s =
    (case g of
       Err e \<Rightarrow> (s1, Err e)
     | Ok _ \<Rightarrow>
         if nc > sp_commit_cap s1 then
           (s1\<lparr>sp_floor_refuses := saturating_add u64_max (sp_floor_refuses s1) 1\<rparr>, Err (commit_refusal s1 nc))
         else (case f of Err e \<Rightarrow> (s2, Err e) | Ok _ \<Rightarrow> alloc_chunk env idx s2))"
  using assms(1-4) unfolding assms(5)
  by (simp add: ensure_live_def Let_def cong: result.case_cong)

lemma ensure_live_law:
  assumes "sparse_inv contents wf s" "se_mem env = ops" "se_prov env = prov" "ensure_live env idx s = (t, r)"
  shows "sparse_inv contents wf t \<and> same_config s t \<and> sparse_disk contents t = sparse_disk contents s \<and>
    (r = Ok () \<longrightarrow> ck_mem (sp_chunks t ! idx) \<noteq> None)"
proof -
  have frame: "sparse_inv contents wf u \<and> same_config s u \<and> sparse_disk contents u = sparse_disk contents s"
    if "same_chunks s u" for u
    using that assms(1) by (rule same_chunks_frame)
  consider (oob) "t = s" "r \<noteq> Ok ()" | (live) "t = s" "ck_mem (sp_chunks s ! idx) \<noteq> None"
    | (dead) "idx < length (sp_chunks s)" "ck_mem (sp_chunks s ! idx) = None"
  proof (cases "idx < length (sp_chunks s)")
    case False
    then have "t = s" "r \<noteq> Ok ()" using assms(4) by (auto simp: ensure_live_def)
    then show ?thesis by (rule oob)
  next
    case True
    show ?thesis
    proof (cases "ck_mem (sp_chunks s ! idx)")
      case (Some m)
      then have "t = s" using assms(4) True by (simp add: ensure_live_def)
      then show ?thesis using live Some by simp
    qed (use True dead in simp)
  qed
  then show ?thesis
  proof cases
    case dead
    define nc where "nc = saturating_add u64_max (committed_bytes s) (sp_chunk_bytes s)"
    obtain s1 g where g: "gate_allows env s = (s1, g)" by fastforce
    obtain s2 f where f: "floor_allows env s1 = (s2, f)" by fastforce
    have f1: "same_chunks s s1" by (rule gate_allows_frame [OF g])
    have f2: "same_chunks s s2" by (rule same_chunks_trans [OF f1 floor_allows_frame [OF f]])
    note eq = assms(4) [unfolded ensure_live_dead [OF dead g f nc_def]]
    consider (refused) "same_chunks s t" "r \<noteq> Ok ()"
      | (go) "nc \<le> sp_commit_cap s1" "alloc_chunk env idx s2 = (t, r)"
    proof (cases g)
      case (Err e)
      then show ?thesis using eq f1 refused by auto
    next
      case (Ok u)
      show ?thesis
      proof (cases "nc > sp_commit_cap s1")
        case True
        then have "t = s1\<lparr>sp_floor_refuses := saturating_add u64_max (sp_floor_refuses s1) 1\<rparr>" "r \<noteq> Ok ()"
          using eq Ok by auto
        then show ?thesis using refused f1 by simp
      next
        case False
        then show ?thesis using eq Ok f2 refused go by (cases f) auto
      qed
    qed
    then show ?thesis
    proof cases
      case refused
      then show ?thesis using frame by blast
    next
      case go
      have "Suc (chunks_live s) \<le> length (sp_chunks s)"
        using length_filter_less [of "sp_chunks s ! idx" "sp_chunks s" "\<lambda>c. ck_mem c \<noteq> None"] dead
        by (simp add: chunks_live_def Suc_le_eq)
      then have "Suc (chunks_live s) * sp_chunk_bytes s \<le> length (sp_chunks s) * sp_chunk_bytes s"
        by (rule mult_le_mono1)
      also have "\<dots> \<le> u64_max"
        using assms(1) div_ceil_bound [of "sp_chunk_bytes s" "sp_capacity s"] by (simp add: sparse_inv_def)
      finally have "nc = sp_chunk_bytes s + chunks_live s * sp_chunk_bytes s"
        using committed_exact [OF assms(1)] by (simp add: saturating_add_def nc_def)
      with go(1) f1 f2 have "sp_chunk_bytes s2 + chunks_live s2 * sp_chunk_bytes s2 \<le> sp_commit_cap s2"
        by (simp add: same_chunks_def same_config_def chunks_live_def)
      then have "sparse_inv contents wf t \<and> same_config s2 t \<and> sparse_disk contents t = sparse_disk contents s2 \<and>
          (r = Ok () \<longrightarrow> ck_mem (sp_chunks t ! idx) \<noteq> None)"
        using dead f2 conjunct1 [OF frame [OF f2]]
        by (intro alloc_chunk_law [OF _ _ _ _ assms(2,3) go(2)]) (simp_all add: same_chunks_def)
      then show ?thesis using frame [OF f2] by (simp add: same_config_def)
    qed
  next
    case oob
    then show ?thesis using frame [of s] by simp
  next
    case live
    then show ?thesis using frame [of s] by simp
  qed
qed

end


context vram_provider
begin

lemma chunk_read:
  assumes "sparse_inv contents wf s" "chunk_index s (off + don) = Ok idx" "don < n" "off + n \<le> sp_capacity s"
    and "(rel, k) = chunk_piece s off n don idx"
  shows "read_range (off + don) k (sparse_disk contents s) = read_range rel k (sparse_data contents s ! idx)"
    and "rel + k \<le> sp_chunk_bytes s" "k \<le> n - don" "off + don = idx * sp_chunk_bytes s + rel"
proof -
  have e: "rel = (off + don) mod sp_chunk_bytes s" "k = min (n - don) (sp_chunk_bytes s - rel)"
    using assms(5) chunk_piece_eq [OF assms(2), of n] by simp_all
  have c: "0 < sp_chunk_bytes s" "idx = (off + don) div sp_chunk_bytes s"
    using assms(2) by (auto simp: chunk_index_Ok)
  then have "rel < sp_chunk_bytes s" using e(1) by simp
  then show le: "rel + k \<le> sp_chunk_bytes s" and kn: "k \<le> n - don" using e(2) by auto
  show pos: "off + don = idx * sp_chunk_bytes s + rel" using c e(1) by simp
  have idx: "idx < length (sparse_data contents s)"
    using chunk_in_table [OF assms(1,2)] by (simp add: sparse_data_def)
  have "off + don + k \<le> sp_capacity s" using kn assms(3,4) by linarith
  then show "read_range (off + don) k (sparse_disk contents s) = read_range rel k (sparse_data contents s ! idx)"
    using read_range_concat [OF sparse_data_blocks [OF assms(1)] idx le]
    by (simp add: sparse_disk_def read_range_take pos)
qed

lemma sparse_read_law:
  assumes "sparse_inv contents wf s" "off + n \<le> sp_capacity s" "don \<le> n"
    and "sparse_read_from ops s off n don = Ok bs"
  shows "bs = read_range (off + don) (n - don) (sparse_disk contents s)"
  using assms(3,4)
proof (induction "n - don" arbitrary: don bs rule: less_induct)
  case less
  show ?case
  proof (cases "don < n")
    case True
    then obtain idx where i: "chunk_index s (off + don) = Ok idx"
      using less.prems(2) unfolding sparse_read_from.simps [of ops s off n don] by (auto split: result.splits)
    obtain rel k where p: "(rel, k) = chunk_piece s off n don idx" by (metis surj_pair)
    note piece = chunk_read [OF assms(1) i True assms(2) p]
    have idx: "idx < length (sp_chunks s)" by (rule chunk_in_table [OF assms(1) i])
    define got where "got = (case ck_mem (sp_chunks s ! idx) of
        Some m \<Rightarrow> map_err io_of_vram (mo_read ops m rel k) | None \<Rightarrow> Ok (replicate k 0))"
    have eq: "sparse_read_from ops s off n don =
        (case got of Err e \<Rightarrow> Err e | Ok front \<Rightarrow>
           (case sparse_read_from ops s off n (don + k) of Err e \<Rightarrow> Err e | Ok tail \<Rightarrow> Ok (front @ tail)))"
      using True i p [symmetric] idx
      by (simp add: sparse_read_from.simps [of ops s off n don] got_def)
    then obtain front tail where h: "got = Ok front" "sparse_read_from ops s off n (don + k) = Ok tail" "bs = front @ tail"
      using less.prems(2) by (auto split: result.splits)
    have "front = read_range rel k (sparse_data contents s ! idx)"
    proof (cases "ck_mem (sp_chunks s ! idx)")
      case None
      then show ?thesis using h(1) idx piece(2)
        by (simp add: got_def sparse_data_def chunk_data_def read_range_replicate)
    next
      case (Some m)
      then have "wf m" using assms(1) idx by (auto simp: sparse_inv_def)
      then show ?thesis using h(1) Some idx mem_read [of m rel k front]
        by (simp add: got_def sparse_data_def chunk_data_def)
    qed
    then have front: "front = read_range (off + don) k (sparse_disk contents s)" using piece(1) by simp
    have "tail = read_range (off + (don + k)) (n - (don + k)) (sparse_disk contents s)"
      by (rule less.hyps [OF _ _ h(2)]) (use chunk_piece_pos [OF p i True] piece(3) True in auto)
    then show ?thesis
      using front h(3) read_range_add [of "off + don" k "n - (don + k)" "sparse_disk contents s"] piece(3) True
      by (simp add: add.assoc)
  next
    case False
    then show ?thesis using less.prems sparse_read_from.simps [of ops s off n don] by simp
  qed
qed

text \<open>Writing a piece to a live chunk.\<close>

lemma write_piece_law:
  assumes "sparse_inv contents wf s" "idx < length (sp_chunks s)" "rel + length bs \<le> sp_chunk_bytes s"
    and "idx * sp_chunk_bytes s + rel + length bs \<le> sp_capacity s"
    and "write_piece ops now idx rel bs s = (t, r)"
  shows "sparse_inv contents wf t \<and> same_config s t \<and>
    agree_outside (idx * sp_chunk_bytes s + rel) (length bs) (sparse_disk contents s) (sparse_disk contents t) \<and>
    (r = Ok () \<longrightarrow> sparse_disk contents t = write_range (idx * sp_chunk_bytes s + rel) bs (sparse_disk contents s))"
proof (cases "ck_mem (sp_chunks s ! idx)")
  case None
  then have "t = s" "r \<noteq> Ok ()" using assms(2,5) by (auto simp: write_piece_def)
  then show ?thesis using assms(1) by (simp add: same_config_def)
next
  case (Some m)
  have m: "wf m" "length (contents m) = sp_chunk_bytes s"
    using assms(1,2) Some by (auto simp: sparse_inv_def)
  obtain m' w where w: "mo_write ops m rel bs = (m', w)" by fastforce
  note law = mem_write [OF m(1) w]
  obtain c where t: "t = s\<lparr>sp_chunks := (sp_chunks s)[idx := c]\<rparr>" "ck_mem c = Some m'" "r = Ok () \<longrightarrow> w = Ok ()"
    using assms(2,5) Some w by (cases w) (auto simp: write_piece_def Let_def)
  have len: "length (contents m') = sp_chunk_bytes s"
    using mem_write_length [OF m(1) w] m(2) by simp
  have inv: "sparse_inv contents wf t"
    unfolding t(1) by (rule set_chunk_inv [OF assms(1,2) t(2) _ len]) (use law Some in auto)
  let ?d = "sparse_data contents s"
  have d: "sparse_data contents t = ?d[idx := contents m']" "?d ! idx = contents m" "idx < length ?d"
    using set_chunk_data [of idx s c m' contents] t assms(2) Some
    by (auto simp: sparse_data_def chunk_data_def)
  note blocks = sparse_data_blocks [OF assms(1)]
  have "agree_outside (idx * sp_chunk_bytes s + rel) (length bs) (sparse_disk contents s) (sparse_disk contents t)"
    using agree_outside_take [OF agree_outside_block [OF blocks d(3), of rel "length bs" "contents m'"]] law d(2)
    by (simp add: sparse_disk_def d(1)) (simp add: t(1))
  moreover have "sparse_disk contents t = write_range (idx * sp_chunk_bytes s + rel) bs (sparse_disk contents s)"
    if "r = Ok ()"
  proof -
    have "contents m' = write_range rel bs (?d ! idx)" using law t(3) that d(2) by simp
    then have "concat (sparse_data contents t) = write_range (idx * sp_chunk_bytes s + rel) bs (concat ?d)"
      using write_range_concat [OF blocks d(3) assms(3)] by (simp add: d(1))
    then show ?thesis
      using write_range_take [of "idx * sp_chunk_bytes s + rel" bs "sp_capacity s" "concat ?d"]
        assms(4) sparse_length(2) [OF assms(1)]
      by (simp add: sparse_disk_def t(1))
  qed
  ultimately show ?thesis using inv by (simp add: t(1) same_config_def)
qed

end


context vram_provider
begin

lemma sparse_write_law:
  assumes "se_mem env = ops" "se_prov env = prov"
    and "sparse_inv contents wf s" "off + length bs \<le> sp_capacity s" "don \<le> length bs"
    and "sparse_write_from env now off bs don s = (t, r)"
  shows "sparse_inv contents wf t \<and> same_config s t \<and>
    agree_outside (off + don) (length bs - don) (sparse_disk contents s) (sparse_disk contents t) \<and>
    (r = Ok () \<longrightarrow> sparse_disk contents t = write_range (off + don) (drop don bs) (sparse_disk contents s))"
  using assms(3-6)
proof (induction "length bs - don" arbitrary: don s rule: less_induct)
  case less
  show ?case
  proof (cases "don < length bs")
    case False
    then show ?thesis using less.prems sparse_write_from.simps [of env now off bs don s]
      by (simp add: same_config_def)
  next
    case True
    have "off + don < sp_capacity s" using less.prems(2) True by linarith
    then obtain idx where i: "chunk_index s (off + don) = Ok idx"
      using less.prems(1) by (simp add: chunk_index_def sparse_inv_def)
    obtain rel k where p: "(rel, k) = chunk_piece s off (length bs) don idx" by (metis surj_pair)
    note piece = chunk_read [OF less.prems(1) i True less.prems(2) p]
    obtain s1 e where e: "ensure_live env idx s = (s1, e)" by fastforce
    note en = ensure_live_law [OF less.prems(1) assms(1,2) e]
    let ?bs = "read_range don k bs"
    obtain s2 w where w: "write_piece ops now idx rel ?bs s1 = (s2, w)" by fastforce
    have eq: "sparse_write_from env now off bs don s =
        (case e of Err x \<Rightarrow> (s1, Err x) | Ok _ \<Rightarrow>
           (case w of Err x \<Rightarrow> (s2, Err x) | Ok _ \<Rightarrow> sparse_write_from env now off bs (don + k) s2))"
      using True i p [symmetric] assms(1) e w by (simp add: sparse_write_from.simps [of env now off bs don s])
    have len: "length ?bs = k" using piece(3) True by (simp add: store_simps)
    have cfg: "sp_chunk_bytes s1 = sp_chunk_bytes s" "sp_capacity s1 = sp_capacity s"
      using en by (auto simp: same_config_def)
    have idx: "idx < length (sp_chunks s1)"
      using chunk_in_table [of contents wf s1 "off + don" idx] i en cfg by (auto simp: chunk_index_Ok)
    have wl: "sparse_inv contents wf s2 \<and> same_config s1 s2 \<and>
        agree_outside (off + don) k (sparse_disk contents s) (sparse_disk contents s2) \<and>
        (w = Ok () \<longrightarrow> sparse_disk contents s2 = write_range (off + don) ?bs (sparse_disk contents s))"
      using write_piece_law [OF _ idx _ _ w] en piece(2-4) less.prems(2) True
      by (simp add: cfg len)
    show ?thesis
    proof (cases e)
      case (Err x)
      then show ?thesis using eq less.prems(4) en by auto
    next
      case (Ok u)
      show ?thesis
      proof (cases w)
        case (Err x)
        then have "t = s2" "r \<noteq> Ok ()" using eq less.prems(4) Ok by auto
        then show ?thesis using wl en piece(3) True
          by (auto simp: same_config_def intro: agree_outside_mono)
      next
        case w: (Ok v)
        have pos: "0 < k" by (rule chunk_piece_pos [OF p i True])
        have ih: "sparse_inv contents wf t \<and> same_config s2 t \<and>
            agree_outside (off + (don + k)) (length bs - (don + k)) (sparse_disk contents s2) (sparse_disk contents t) \<and>
            (r = Ok () \<longrightarrow>
               sparse_disk contents t = write_range (off + (don + k)) (drop (don + k) bs) (sparse_disk contents s2))"
          by (rule less.hyps)
            (use wl cfg pos piece(3) True less.prems eq Ok w in \<open>auto simp: same_config_def\<close>)
        have d2: "sparse_disk contents s2 = write_range (off + don) ?bs (sparse_disk contents s)"
          using wl w by simp
        have split: "drop don bs = ?bs @ drop (don + k) bs"
          using append_take_drop_id [of k "drop don bs"] by (simp add: read_range_def add.commute)
        have "write_range (off + (don + k)) (drop (don + k) bs) (sparse_disk contents s2) =
            write_range (off + don) (drop don bs) (sparse_disk contents s)"
          using write_range_append [of "off + don" ?bs "drop (don + k) bs" "sparse_disk contents s"]
            sparse_length(1) [OF less.prems(1)] less.prems(2) piece(3) True
          by (simp add: d2 split len add.assoc)
        moreover have "agree_outside (off + don) (length bs - don) (sparse_disk contents s) (sparse_disk contents t)"
        proof (rule agree_outside_trans)
          show "agree_outside (off + don) (length bs - don) (sparse_disk contents s) (sparse_disk contents s2)"
            using wl piece(3) True by (auto intro: agree_outside_mono)
          show "agree_outside (off + don) (length bs - don) (sparse_disk contents s2) (sparse_disk contents t)"
            using ih piece(3) True by (auto intro: agree_outside_mono)
        qed
        ultimately show ?thesis using ih wl cfg en by (auto simp: same_config_def)
      qed
    qed
  qed
qed

lemma sparse_write_at_law:
  assumes "se_mem env = ops" "se_prov env = prov" "sparse_inv contents wf s"
    and "off + length bs \<le> sp_capacity s" "sparse_write_at env s off bs = (t, r)"
  shows "sparse_inv contents wf t \<and> same_config s t \<and>
    agree_outside off (length bs) (sparse_disk contents s) (sparse_disk contents t) \<and>
    (r = Ok () \<longrightarrow> sparse_disk contents t = write_range off bs (sparse_disk contents s))"
proof (cases "bs = []")
  case True
  then show ?thesis using assms by (simp add: sparse_write_at_def same_config_def)
next
  case False
  obtain p now where c: "se_clock env (sp_provider s) = (p, now)" by fastforce
  let ?s1 = "s\<lparr>sp_provider := p\<rparr>"
  have s1: "same_chunks s ?s1" by (simp add: same_chunks_def same_config_def)
  note f = same_chunks_frame [OF s1 assms(3)]
  have "sparse_write_from env now off bs 0 ?s1 = (t, r)"
    using assms(3-5) False c by (simp add: sparse_write_at_def checked_add_def sparse_inv_def)
  from sparse_write_law [OF assms(1,2) conjunct1 [OF f] _ _ this] assms(4) f
  show ?thesis by (simp add: same_config_def)
qed

lemma sparse_device:
  assumes "se_mem env = ops" "se_prov env = prov" "\<And>s t. same_config s t \<Longrightarrow> P t = P s"
  shows "volatile_device (sparse_ops env) (sparse_disk contents)
    (\<lambda>s. sparse_inv contents wf s \<and> P s)"
proof
  fix s off bs opt t r
  assume ib: "sparse_inv contents wf s \<and> P s" and le: "off + length bs \<le> length (sparse_disk contents s)"
    and "be_write_at_with_options (sparse_ops env) s off bs opt = (t, r)"
  then have w: "sparse_write_at env s off bs = (t, r)"
    using default_write_no_flush [of sparse_flush "sparse_write_at env" s off bs opt]
    by (simp add: sparse_ops_def sparse_flush_def)
  note law = sparse_write_at_law [OF assms(1,2) conjunct1 [OF ib] _ w] and len = sparse_length(1) [OF conjunct1 [OF ib]]
  from law le len show "agree_outside off (length bs) (sparse_disk contents s) (sparse_disk contents t)"
    by simp
  with law le len show "(sparse_inv contents wf t \<and> P t) \<and> length (sparse_disk contents t) = length (sparse_disk contents s) \<and>
      (r = Ok () \<longrightarrow> sparse_disk contents t = write_range off bs (sparse_disk contents s)) \<and>
      (\<not> wo_fua opt \<longrightarrow> agree_outside off (length bs) (sparse_disk contents s) (sparse_disk contents t))"
    using ib assms(3) [of s t] by (simp add: agree_outside_def)
next
  fix s off n t res
  assume ib: "sparse_inv contents wf s \<and> P s" and le: "off + n \<le> length (sparse_disk contents s)"
    and rd: "be_read_at (sparse_ops env) s off n = (t, res)"
  have i: "sparse_inv contents wf s" using ib by simp
  have le: "off + n \<le> sp_capacity s" using le sparse_length(1) [OF i] by simp
  have "t = s" using rd by (auto simp: sparse_ops_def sparse_read_at_def split: if_splits option.splits)
  moreover have "bs = read_range off n (sparse_disk contents s)" if "res = Ok bs" for bs
  proof (cases "n = 0")
    case False
    then have "sparse_read_from ops s off n 0 = Ok bs"
      using rd that le i assms(1)
      by (auto simp: sparse_ops_def sparse_read_at_def checked_add_def sparse_inv_def)
    from sparse_read_law [OF i le _ this] show ?thesis by simp
  qed (use rd that in \<open>simp add: sparse_ops_def sparse_read_at_def\<close>)
  ultimately show "(sparse_inv contents wf t \<and> P t) \<and> sparse_disk contents t = sparse_disk contents s \<and>
      (\<forall>bs. res = Ok bs \<longrightarrow> bs = read_range off n (sparse_disk contents s))" using ib by blast
next
  fix s :: "('p, 'm) sparse_vram"
  assume ib: "sparse_inv contents wf s \<and> P s"
  then show "be_size_bytes (sparse_ops env) s = length (sparse_disk contents s) \<and>
      length (sparse_disk contents s) \<le> u64_max"
    using sparse_length(1) [OF conjunct1 [OF ib]] by (simp add: sparse_ops_def sparse_inv_def)
qed (auto simp: sparse_ops_def sparse_flush_def default_write_no_flush)

end

text \<open>A new backend is a zeroed disk.\<close>

lemma sparse_new_disk:
  assumes "sparse_new cap_env p cfg = Ok s" "sc_capacity cfg + sc_chunk_bytes cfg \<le> u64_max"
  shows "sparse_inv contents good s" "sparse_disk contents s = replicate (sc_capacity cfg) 0"
proof -
  have s: "0 < sp_chunk_bytes s" "sp_capacity s = sc_capacity cfg" "sp_chunk_bytes s = sc_chunk_bytes cfg"
    "sp_chunks s = replicate (div_ceil (sp_capacity s) (sp_chunk_bytes s)) empty_chunk"
    using assms(1) by (auto simp: sparse_new_def Let_def split: if_splits)
  then show "sparse_inv contents good s"
    using assms(2) by (simp add: sparse_inv_def empty_chunk_def chunks_live_def filter_empty_conv)
  have "concat (sparse_data contents s) = replicate (div_ceil (sp_capacity s) (sp_chunk_bytes s) * sp_chunk_bytes s) 0"
    by (simp add: sparse_data_def s(4) chunk_data_def empty_chunk_def concat_replicate_const)
  then show "sparse_disk contents s = replicate (sc_capacity cfg) 0"
    using div_ceil_upper [OF s(1), of "sp_capacity s"] s(2)
    by (simp add: sparse_disk_def min_def)
qed

text \<open>A chunk is committed only while the reserve stays free.\<close>

lemma floor_allows_reserve:
  assumes "floor_allows env s = (t, Ok ())" "po_mem_info (se_prov env) (sp_provider s) = (p, Ok (free, tot))"
    and "sp_reserve_floor s + sp_chunk_bytes s \<le> u64_max"
  shows "sp_reserve_floor s + sp_chunk_bytes s \<le> free"
  using assms by (auto simp: floor_allows_def Let_def saturating_add_def split: if_splits)

text \<open>Reclaiming drops data only when the swap device holds none.\<close>

lemma try_reclaim_used: "0 < used \<Longrightarrow> try_reclaim env used free fl idle s = (s, 0)"
  by (simp add: try_reclaim_def)

lemma free_all_live_disk:
  assumes "sparse_inv contents good s"
  shows "sparse_inv contents good (fst (free_all_live s))"
    "sparse_disk contents (fst (free_all_live s)) = replicate (sp_capacity s) 0"
proof -
  let ?t = "fst (free_all_live s)"
  have dead: "ck_mem (free_chunk c) = None" for c :: "'m chunk" by (simp add: free_chunk_def empty_chunk_def)
  have t: "sp_capacity ?t = sp_capacity s" "sp_chunk_bytes ?t = sp_chunk_bytes s"
    "sp_commit_cap ?t = sp_commit_cap s" "sp_chunks ?t = map free_chunk (sp_chunks s)"
    by (simp_all add: free_all_live_def)
  show i: "sparse_inv contents good ?t"
    using assms by (simp add: sparse_inv_def t dead chunks_live_def filter_empty_conv)
  have "map (chunk_data contents (sp_chunk_bytes s)) (sp_chunks ?t) =
      replicate (length (sp_chunks s)) (replicate (sp_chunk_bytes s) 0)"
    by (simp add: t chunk_data_def dead comp_def map_replicate_const)
  then have "concat (sparse_data contents ?t) = replicate (length (sp_chunks s) * sp_chunk_bytes s) 0"
    by (simp add: sparse_data_def t(2) concat_replicate_const)
  then show "sparse_disk contents ?t = replicate (sp_capacity s) 0"
    using sparse_length(2) [OF i] by (simp add: sparse_disk_def t(1) min_def)
qed

subsection \<open>A backend on the plain provider\<close>

definition demo_env :: "(nat, byte list device_mem) sparse_env" where
  "demo_env = \<lparr>se_mem = device_mem_ops plain_syms, se_prov = plain_prov, se_gate = None,
     se_clock = (\<lambda>p. (p, 0))\<rparr>"

definition demo_config :: sparse_config where
  "demo_config = \<lparr>sc_capacity = 2048, sc_chunk_bytes = 1024, sc_block_size = 512,
     sc_reserve_floor_bytes = 0, sc_commit_cap_bytes = Some 1024\<rparr>"

definition demo_requests :: "(request \<times> byte list) list" where
  "demo_requests =
     [(\<lparr>rq_flags = 0, rq_cmd = CmdWrite, rq_handle = 1, rq_offset = 1024, rq_len = 512\<rparr>, replicate 512 7),
      (\<lparr>rq_flags = 0, rq_cmd = CmdWrite, rq_handle = 2, rq_offset = 0, rq_len = 512\<rparr>, replicate 512 8),
      (\<lparr>rq_flags = 0, rq_cmd = CmdRead, rq_handle = 3, rq_offset = 512, rq_len = 1024\<rparr>, [])]"

lemma demo_config_fields:
  "se_mem demo_env = device_mem_ops plain_syms" "se_prov demo_env = plain_prov"
  "sc_capacity demo_config = 2048" "sc_chunk_bytes demo_config = 1024" "sc_block_size demo_config = 512"
  "sc_commit_cap_bytes demo_config = Some 1024"
  by (simp_all add: demo_env_def demo_config_def)

lemma demo_provider:
  "vram_provider (se_mem demo_env) dm_region (\<lambda>m. dm_len m = length (dm_region m)) (se_prov demo_env)"
  unfolding demo_config_fields by (rule plain_gpu.vram_provider_axioms)

lemma demo_sparse: "\<exists>s :: (nat, byte list device_mem) sparse_vram. sparse_new None 4096 demo_config = Ok s"
  by (simp add: sparse_new_def demo_config_def is_multiple_of_def div_ceil_def Let_def)

subsection \<open>Properties\<close>

text \<open>
  C10. On-demand allocation is invisible. A new sparse backend over any lawful provider, whether its
  allocations succeed or not, answers every sequence of NBD requests as a disk that starts out filled
  with zeros: each request is refused with its verdict, or is a step of that disk on the contents left
  by the requests before it.
\<close>

theorem sparse_is_zeroed_disk:
  assumes "vram_provider (se_mem env) contents good (se_prov env)"
    and "sparse_new cap_env p cfg = Ok s" "sc_capacity cfg + sc_chunk_bytes cfg \<le> u64_max"
    and "serve_all (sparse_ops env) rs s = (t, outs)"
  shows "disk_run (sc_block_size cfg) False (replicate (sc_capacity cfg) 0) rs outs (sparse_disk contents t)"
proof -
  let ?block = "sc_block_size cfg"
  have dev: "block_device (sparse_ops env) (sparse_disk contents)
      (\<lambda>s. sparse_inv contents good s \<and> sp_block_size s = ?block)"
    by (rule volatile_device.axioms(1) [OF vram_provider.sparse_device [OF assms(1) refl refl]])
      (simp add: same_config_def)
  have "sp_block_size s = ?block" using assms(2) by (auto simp: sparse_new_def Let_def split: if_splits)
  then have "disk_run ?block False (sparse_disk contents s) rs outs (sparse_disk contents t)"
    using block_device.serve_all_run [OF dev _ _ assms(4), of ?block False] sparse_new_disk(1) [OF assms(2,3)]
    by (simp add: sparse_ops_def)
  then show ?thesis using sparse_new_disk(2) [OF assms(2,3)] by simp
qed

theorem sparse_is_zeroed_disk_witness:
  "\<exists>s t outs. sparse_new None 4096 demo_config = Ok s \<and>
     serve_all (sparse_ops demo_env) demo_requests s = (t, outs) \<and>
     disk_run 512 False (replicate 2048 0) demo_requests outs (sparse_disk dm_region t)"
proof -
  obtain s :: "(nat, byte list device_mem) sparse_vram" where s: "sparse_new None 4096 demo_config = Ok s"
    using demo_sparse by blast
  obtain t outs where t: "serve_all (sparse_ops demo_env) demo_requests s = (t, outs)" by fastforce
  have "disk_run (sc_block_size demo_config) False (replicate (sc_capacity demo_config) 0) demo_requests outs
      (sparse_disk dm_region t)"
    by (rule sparse_is_zeroed_disk [OF demo_provider s _ t])
      (simp add: demo_config_fields u64_max_def)
  with s t show ?thesis unfolding demo_config_fields by blast
qed

text \<open>
  The commit cap holds. Whatever requests a new sparse backend has served, the bytes of its
  live chunks never exceed the configured cap, unless the cap is smaller than one chunk, which the
  constructor raises to a chunk.
\<close>

theorem sparse_commit_bounded:
  assumes "vram_provider (se_mem env) contents good (se_prov env)"
    and "sparse_new cap_env p cfg = Ok s" "sc_capacity cfg + sc_chunk_bytes cfg \<le> u64_max"
    and "sc_commit_cap_bytes cfg = Some cap" "serve_all (sparse_ops env) rs s = (t, outs)"
  shows "committed_bytes t \<le> max (min cap (sc_capacity cfg)) (sc_chunk_bytes cfg)"
proof -
  have cap: "sp_commit_cap s = max (min cap (sc_capacity cfg)) (sc_chunk_bytes cfg)"
    using assms(2,4) by (auto simp: sparse_new_def Let_def split: if_splits)
  have dev: "volatile_device (sparse_ops env) (sparse_disk contents)
      (\<lambda>u. sparse_inv contents good u \<and> sp_commit_cap u = sp_commit_cap s)"
    by (rule vram_provider.sparse_device [OF assms(1) refl refl]) (simp add: same_config_def)
  then have "sparse_inv contents good t \<and> sp_commit_cap t = sp_commit_cap s"
    using block_device.serve_all_inv [OF volatile_device.axioms(1) [OF dev] _ assms(5)]
      sparse_new_disk(1) [OF assms(2,3)] by simp
  then show ?thesis using committed_exact [of contents good t] cap by (simp add: sparse_inv_def)
qed

theorem sparse_commit_bounded_witness:
  "\<exists>s t outs. sparse_new None 4096 demo_config = Ok s \<and>
     serve_all (sparse_ops demo_env) demo_requests s = (t, outs) \<and> committed_bytes t \<le> 1024"
proof -
  obtain s :: "(nat, byte list device_mem) sparse_vram" where s: "sparse_new None 4096 demo_config = Ok s"
    using demo_sparse by blast
  obtain t outs where t: "serve_all (sparse_ops demo_env) demo_requests s = (t, outs)" by fastforce
  have "committed_bytes t \<le> max (min 1024 (sc_capacity demo_config)) (sc_chunk_bytes demo_config)"
    by (rule sparse_commit_bounded [OF demo_provider s _ _ t])
      (simp_all add: demo_config_fields u64_max_def)
  with s t show ?thesis unfolding demo_config_fields by auto
qed

end
