(* ===== verification/Origin_Storage.thy ===== *)
theory Origin_Storage
  imports Backends
begin

text \<open>
  The durable origin behind the VRAM cache (\<^verbatim>\<open>crates/ramshared-block/src/origin_cache.rs\<close>, the trait
  \<open>OriginStorage\<close> with its two default methods, and \<open>FileOrigin\<close>). Short reads and writes are resumed;
  the locale \<open>origin_storage\<close> states what an origin promises about its contents and what of them has
  reached the medium.
\<close>

subsection \<open>Operations\<close>

text \<open>A read returns the number of bytes it claims to have read and the buffer it was given.\<close>

record 'o origin_ops =
  os_read_at :: "'o \<Rightarrow> nat \<Rightarrow> nat \<Rightarrow> 'o \<times> (nat \<times> byte list, io_error) result"
  os_write_at :: "'o \<Rightarrow> nat \<Rightarrow> byte list \<Rightarrow> 'o \<times> (nat, io_error) result"
  os_sync_data :: "'o \<Rightarrow> 'o \<times> (unit, io_error) result"

function read_exact_at ::
  "'o origin_ops \<Rightarrow> 'o \<Rightarrow> nat \<Rightarrow> nat \<Rightarrow> 'o \<times> (byte list, io_error) result" where
  "read_exact_at ogn org off n =
     (if n = 0 then (org, Ok [])
      else case os_read_at ogn org off n of
          (org1, Err e) \<Rightarrow> (org1, Err e)
        | (org1, Ok (k, buf)) \<Rightarrow>
            if k = 0 then (org1, Err (IoError ''origin read made no progress''))
            else if k > n then (org1, Err (IoError ''origin read exceeded requested length''))
            else (case checked_add u64_max off k of
                    None \<Rightarrow> (org1, Err (IoError ''origin read offset overflow''))
                  | Some off' \<Rightarrow>
                      (case read_exact_at ogn org1 off' (n - k) of
                         (org2, Err e) \<Rightarrow> (org2, Err e)
                       | (org2, Ok rest) \<Rightarrow> (org2, Ok (take k buf @ rest)))))"
  by pat_completeness auto

termination read_exact_at
  by (relation "measure (\<lambda>(ogn, org, off, n). n)") auto

declare read_exact_at.simps [simp del]

lemma read_exact_0 [simp]: "read_exact_at ogn org off 0 = (org, Ok [])"
  by (simp add: read_exact_at.simps)

function write_all_at ::
  "'o origin_ops \<Rightarrow> 'o \<Rightarrow> nat \<Rightarrow> byte list \<Rightarrow> 'o \<times> (unit, io_error) result" where
  "write_all_at ogn org off bs =
     (if bs = [] then (org, Ok ())
      else case os_write_at ogn org off bs of
          (org1, Err e) \<Rightarrow> (org1, Err e)
        | (org1, Ok k) \<Rightarrow>
            if k = 0 then (org1, Err (IoError ''origin write made no progress''))
            else if k > length bs then (org1, Err (IoError ''origin write exceeded requested length''))
            else (case checked_add u64_max off k of
                    None \<Rightarrow> (org1, Err (IoError ''origin write offset overflow''))
                  | Some off' \<Rightarrow> write_all_at ogn org1 off' (drop k bs)))"
  by pat_completeness auto

termination write_all_at
  by (relation "measure (\<lambda>(ogn, org, off, bs). length bs)") auto

declare write_all_at.simps [simp del]

lemma write_all_Nil [simp]: "write_all_at ogn org off [] = (org, Ok ())"
  by (simp add: write_all_at.simps)

text \<open>\<open>FileOrigin\<close> on Unix: the positioned file operations, with their errors printed.\<close>

record ('f, 'e) file_ops =
  fo_pread :: "'f \<Rightarrow> nat \<Rightarrow> nat \<Rightarrow> 'f \<times> (nat \<times> byte list, 'e) result"
  fo_pwrite :: "'f \<Rightarrow> nat \<Rightarrow> byte list \<Rightarrow> 'f \<times> (nat, 'e) result"
  fo_fdatasync :: "'f \<Rightarrow> 'f \<times> (unit, 'e) result"
  fo_show :: "'e \<Rightarrow> string"

definition file_origin_ops :: "('f, 'e) file_ops \<Rightarrow> 'f origin_ops" where
  "file_origin_ops f =
     \<lparr>os_read_at = (\<lambda>org off n. map_prod id (map_err (\<lambda>e. IoError (fo_show f e))) (fo_pread f org off n)),
      os_write_at = (\<lambda>org off bs. map_prod id (map_err (\<lambda>e. IoError (fo_show f e))) (fo_pwrite f org off bs)),
      os_sync_data = (\<lambda>org. map_prod id (map_err (\<lambda>e. IoError (fo_show f e))) (fo_fdatasync f org))\<rparr>"

subsection \<open>What an origin promises\<close>

text \<open>
  An origin has contents of a fixed length, of which a part has reached the medium. Reads return the
  contents; a write changes at most its range, and exactly the bytes it reports when it succeeds; a
  successful sync makes the contents durable and keeps them, while a failed one may lose what was not
  durable.
\<close>

locale origin_storage =
  fixes ogn :: "'o origin_ops"
    and data :: "'o \<Rightarrow> byte list"
    and durable :: "'o \<Rightarrow> byte list"
  assumes os_read: "os_read_at ogn g off n = (g', res) \<Longrightarrow>
      data g' = data g \<and> durable g' = durable g \<and>
      (\<forall>k buf. res = Ok (k, buf) \<longrightarrow> k \<le> n \<longrightarrow> off + n \<le> length (data g) \<longrightarrow>
         take k buf = read_range off k (data g))"
    and os_write: "off + length bs \<le> length (data g) \<Longrightarrow> os_write_at ogn g off bs = (g', cnt) \<Longrightarrow>
      agree_outside off (length bs) (data g) (data g') \<and>
      (\<forall>k. cnt = Ok k \<longrightarrow> k \<le> length bs \<longrightarrow> data g' = write_range off (take k bs) (data g))"
    and os_sync: "os_sync_data ogn g = (g', u) \<Longrightarrow>
      length (data g') = length (data g) \<and> (u = Ok () \<longrightarrow> data g' = data g \<and> durable g' = data g)"
begin

lemma read_exact_law:
  assumes "off + n \<le> length (data g)" "read_exact_at ogn g off n = (g', res)"
  shows "data g' = data g \<and> durable g' = durable g \<and> (\<forall>bs. res = Ok bs \<longrightarrow> bs = read_range off n (data g))"
  using assms
proof (induction n arbitrary: g g' off res rule: less_induct)
  case (less n)
  show ?case
  proof (cases "n = 0")
    case True
    then show ?thesis using less.prems by auto
  next
    case False
    obtain g1 r1 where r: "os_read_at ogn g off n = (g1, r1)" by fastforce
    note law = os_read [OF r]
    show ?thesis
    proof (cases "\<exists>k buf. r1 = Ok (k, buf) \<and> 0 < k \<and> k \<le> n \<and> off + k \<le> u64_max")
      case True
      then obtain k buf where k: "r1 = Ok (k, buf)" "0 < k" "k \<le> n" "off + k \<le> u64_max" by blast
      obtain g2 r2 where r2: "read_exact_at ogn g1 (off + k) (n - k) = (g2, r2)" by fastforce
      have ih: "data g2 = data g1 \<and> durable g2 = durable g1 \<and>
          (\<forall>bs. r2 = Ok bs \<longrightarrow> bs = read_range (off + k) (n - k) (data g1))"
        by (rule less.IH [OF _ _ r2]) (use k less.prems(1) law in auto)
      have eq: "read_exact_at ogn g off n =
          (g2, case r2 of Err e \<Rightarrow> Err e | Ok rest \<Rightarrow> Ok (take k buf @ rest))"
        using False r k r2 by (simp add: read_exact_at.simps [of ogn g off n] checked_add_def split: result.split)
      have "take k buf @ read_range (off + k) (n - k) (data g) = read_range off n (data g)"
        using law k less.prems(1) read_range_add [of off k "n - k" "data g"] by simp
      then show ?thesis using eq ih law less.prems(2) by (auto split: result.splits)
    next
      case no: False
      then have "g' = g1 \<and> \<not> is_ok res"
        using less.prems(2) False r
        by (auto simp: read_exact_at.simps [of ogn g off n] checked_add_def split: result.splits if_splits)
      then show ?thesis using law by auto
    qed
  qed
qed

lemma write_all_law:
  assumes "off + length bs \<le> length (data g)" "write_all_at ogn g off bs = (g', r)"
  shows "agree_outside off (length bs) (data g) (data g') \<and>
    (r = Ok () \<longrightarrow> data g' = write_range off bs (data g))"
  using assms
proof (induction "length bs" arbitrary: g g' off bs rule: less_induct)
  case less
  show ?case
  proof (cases "bs = []")
    case True
    then show ?thesis using less.prems by auto
  next
    case False
    obtain g1 r1 where w: "os_write_at ogn g off bs = (g1, r1)" by fastforce
    note law = os_write [OF less.prems(1) w]
    show ?thesis
    proof (cases "\<exists>k. r1 = Ok k \<and> 0 < k \<and> k \<le> length bs \<and> off + k \<le> u64_max")
      case True
      then obtain k where k: "r1 = Ok k" "0 < k" "k \<le> length bs" "off + k \<le> u64_max" by blast
      have d1: "data g1 = write_range off (take k bs) (data g)" using law k by simp
      have eq: "write_all_at ogn g off bs = write_all_at ogn g1 (off + k) (drop k bs)"
        using False w k by (simp add: write_all_at.simps [of ogn g off bs] checked_add_def)
      have ih: "agree_outside (off + k) (length (drop k bs)) (data g1) (data g') \<and>
          (r = Ok () \<longrightarrow> data g' = write_range (off + k) (drop k bs) (data g1))"
        by (rule less.hyps) (use k False less.prems eq law in \<open>auto simp: agree_outside_def\<close>)
      have "write_range (off + k) (drop k bs) (data g1) = write_range off bs (data g)"
        using write_range_append [of off "take k bs" "drop k bs" "data g"] less.prems(1) k(3) by (simp add: d1)
      moreover have "agree_outside off (length bs) (data g1) (data g')"
        using conjunct1 [OF ih] k(3) by (auto intro: agree_outside_mono)
      ultimately show ?thesis using ih law by (auto intro: agree_outside_trans)
    next
      case no: False
      then have "g' = g1 \<and> r \<noteq> Ok ()"
        using less.prems(2) False w
        by (auto simp: write_all_at.simps [of ogn g off bs] checked_add_def split: result.splits if_splits)
      then show ?thesis using law by auto
    qed
  qed
qed

end

subsection \<open>A file\<close>

text \<open>
  A file as its current and its durable contents, the reference instance: a short read or write moves
  at most 4096 bytes, and nothing fails within the file.
\<close>

definition plain_file :: "(byte list \<times> byte list, unit) file_ops" where
  "plain_file =
     \<lparr>fo_pread = (\<lambda>(cur, dur) off n.
        let k = min 4096 (min n (length cur - off))
        in ((cur, dur), Ok (k, read_range off k cur @ replicate (n - k) 0))),
      fo_pwrite = (\<lambda>(cur, dur) off bs.
        let k = min 4096 (min (length bs) (length cur - off))
        in ((write_range off (take k bs) cur, dur), Ok k)),
      fo_fdatasync = (\<lambda>(cur, dur). ((cur, cur), Ok ())),
      fo_show = (\<lambda>_. [])\<rparr>"

interpretation plain_origin: origin_storage "file_origin_ops plain_file" fst snd
proof
  fix off bs and g g' :: "byte list \<times> byte list" and cnt
  assume "off + length bs \<le> length (fst g)" "os_write_at (file_origin_ops plain_file) g off bs = (g', cnt)"
  then show "agree_outside off (length bs) (fst g) (fst g') \<and>
      (\<forall>k. cnt = Ok k \<longrightarrow> k \<le> length bs \<longrightarrow> fst g' = write_range off (take k bs) (fst g))"
    using agree_outside_mono [OF agree_outside_write_range, of off "take (min 4096 (length bs)) bs" "fst g" off "length bs"]
    by (cases g) (auto simp: file_origin_ops_def plain_file_def Let_def min_def split: if_splits)
qed (auto simp: file_origin_ops_def plain_file_def Let_def store_simps)

text \<open>A short transfer on the plain file is done in one step.\<close>

lemma plain_read:
  assumes "off + n \<le> length cur" "n \<le> 4096" "off + n \<le> u64_max"
  shows "read_exact_at (file_origin_ops plain_file) (cur, dur) off n = ((cur, dur), Ok (read_range off n cur))"
proof (cases "n = 0")
  case True
  then show ?thesis by (simp add: read_range_def)
next
  case False
  then show ?thesis using assms
    by (subst read_exact_at.simps)
      (simp add: file_origin_ops_def plain_file_def Let_def checked_add_def store_simps)
qed

lemma plain_write:
  assumes "off + length bs \<le> length cur" "length bs \<le> 4096" "off + length bs \<le> u64_max"
  shows "write_all_at (file_origin_ops plain_file) (cur, dur) off bs = ((write_range off bs cur, dur), Ok ())"
proof (cases "bs = []")
  case True
  then show ?thesis by (simp add: write_all_at.simps write_range_def)
next
  case False
  then show ?thesis using assms
    by (subst write_all_at.simps)
      (simp add: file_origin_ops_def plain_file_def Let_def checked_add_def store_simps write_all_at.simps)
qed

end
