(* ===== verification/Origin_Cache.thy ===== *)
theory Origin_Cache
  imports Origin_Storage
begin

text \<open>
  The write-through cache (\<^verbatim>\<open>crates/ramshared-block/src/origin_cache.rs\<close>): an origin that holds the
  authority over the data, and VRAM chunks that hold clean copies of some of its blocks. A chunk is
  usable while its validity generation is its generation; blocks become valid one by one.
\<close>

subsection \<open>The share of VRAM the cache may take\<close>

definition GIB :: nat where "GIB = 1024 * 1024 * 1024"
definition ORIGIN_CACHE_CHUNK_BYTES :: nat where "ORIGIN_CACHE_CHUNK_BYTES = 128 * 1024 * 1024"
definition HEALTHY_SAMPLES_TO_GROW :: nat where "HEALTHY_SAMPLES_TO_GROW = 3"
definition RESTRICTED_SAMPLES_TO_RECLAIM :: nat where "RESTRICTED_SAMPLES_TO_RECLAIM = 3"
definition GROWTH_INTERVAL :: duration where "GROWTH_INTERVAL = from_secs 2"
definition STUCK_AFTER :: duration where "STUCK_AFTER = from_secs 2"

record gpu_sample =
  gs_budget_bytes :: nat
  gs_external_usage_bytes :: nat
  gs_total_vram_bytes :: nat

definition physical_target_bytes :: "nat \<Rightarrow> gpu_sample option \<Rightarrow> nat" where
  "physical_target_bytes logical sample =
     (case sample of
        None \<Rightarrow> 0
      | Some g \<Rightarrow>
          let reserve = max (div_ceil (gs_total_vram_bytes g) 5) (2 * GIB)
          in min (saturating_sub (saturating_sub (gs_budget_bytes g) (gs_external_usage_bytes g)) reserve) logical)"

subsection \<open>State\<close>

datatype origin_state = OrOff | OrReady | OrDegraded | OrFailed

fun origin_state_str :: "origin_state \<Rightarrow> string" where
  "origin_state_str OrOff = ''OFF''"
| "origin_state_str OrReady = ''READY''"
| "origin_state_str OrDegraded = ''DEGRADED''"
| "origin_state_str OrFailed = ''FAILED''"

datatype cache_state = CsOff | CsActive | CsRestricted | CsUnavailable | CsStuck

fun cache_state_str :: "cache_state \<Rightarrow> string" where
  "cache_state_str CsOff = ''OFF''"
| "cache_state_str CsActive = ''ACTIVE''"
| "cache_state_str CsRestricted = ''RESTRICTED''"
| "cache_state_str CsUnavailable = ''UNAVAILABLE''"
| "cache_state_str CsStuck = ''STUCK''"

record cache_telemetry =
  tl_origin_written_bytes :: nat
  tl_origin_syncs :: nat
  tl_batched_writes :: nat
  tl_cache_read_bytes :: nat
  tl_fallback_reads :: nat
  tl_invalidations :: nat
  tl_promotion_refusals :: nat
  tl_releases :: nat
  tl_allocation_failures :: nat
  tl_cache_read_failures :: nat
  tl_cache_write_failures :: nat
  tl_valid_blocks :: nat

definition cache_telemetry_default :: cache_telemetry where
  "cache_telemetry_default =
     \<lparr>tl_origin_written_bytes = 0, tl_origin_syncs = 0, tl_batched_writes = 0, tl_cache_read_bytes = 0,
      tl_fallback_reads = 0, tl_invalidations = 0, tl_promotion_refusals = 0, tl_releases = 0,
      tl_allocation_failures = 0, tl_cache_read_failures = 0, tl_cache_write_failures = 0,
      tl_valid_blocks = 0\<rparr>"

record cache_policy_outcome =
  co_target_bytes :: nat
  co_allocated_bytes :: nat
  co_released_bytes :: nat

record 'm cache_chunk =
  cc_mem :: "'m option"
  cc_generation :: nat
  cc_validity_generation :: nat
  cc_valid :: "bool list"
  cc_last_access :: nat

record ('p, 'm, 'o) wt_cache =
  wc_provider :: 'p
  wc_origin :: 'o
  wc_size :: nat
  wc_block :: nat
  wc_chunk_bytes :: nat
  wc_chunks :: "'m cache_chunk list"
  wc_telemetry :: cache_telemetry
  wc_target_bytes :: nat
  wc_physical_cap_bytes :: nat
  wc_healthy_samples :: nat
  wc_restricted_samples :: nat
  wc_last_growth_at :: "duration option"
  wc_over_target_since :: "duration option"
  wc_access_clock :: nat
  wc_origin_state :: origin_state
  wc_origin_probe_successes :: nat
  wc_origin_dirty :: bool
  wc_cache_state :: cache_state

text \<open>The provider with its regions, and the origin.\<close>

record ('p, 'm, 'o) cache_env =
  ce_mem :: "'m mem_ops"
  ce_prov :: "('p, 'm) prov_ops"
  ce_origin :: "'o origin_ops"

text \<open>A counter of the telemetry is updated in place and saturates.\<close>

definition sat_bump :: "nat \<Rightarrow> nat \<Rightarrow> nat" where
  "sat_bump k n = saturating_add u64_max n k"

definition count_tel ::
  "(cache_telemetry \<Rightarrow> cache_telemetry) \<Rightarrow> ('p, 'm, 'o) wt_cache \<Rightarrow> ('p, 'm, 'o) wt_cache" where
  "count_tel upd s = s\<lparr>wc_telemetry := upd (wc_telemetry s)\<rparr>"

definition set_cache_chunk ::
  "nat \<Rightarrow> 'm cache_chunk \<Rightarrow> ('p, 'm, 'o) wt_cache \<Rightarrow> ('p, 'm, 'o) wt_cache" where
  "set_cache_chunk idx c s = s\<lparr>wc_chunks := (wc_chunks s)[idx := c]\<rparr>"

subsection \<open>Construction\<close>

definition new_cache_chunk :: "nat \<Rightarrow> nat \<Rightarrow> nat \<Rightarrow> nat \<Rightarrow> 'm cache_chunk" where
  "new_cache_chunk sz block cb idx =
     (let len = min cb (sz - idx * cb)
      in \<lparr>cc_mem = None, cc_generation = 1, cc_validity_generation = 0,
          cc_valid = replicate (len div block) False, cc_last_access = 0\<rparr>)"

definition with_chunk_bytes ::
  "'p \<Rightarrow> 'o \<Rightarrow> nat \<Rightarrow> nat \<Rightarrow> nat \<Rightarrow> (('p, 'm, 'o) wt_cache, io_error) result" where
  "with_chunk_bytes provider org sz block cb =
     (if sz = 0 \<or> block = 0 \<or> cb = 0 \<or> \<not> is_multiple_of sz block \<or> \<not> is_multiple_of cb block
      then Err (IoError ''invalid origin cache geometry'')
      else Ok \<lparr>wc_provider = provider, wc_origin = org, wc_size = sz, wc_block = block,
               wc_chunk_bytes = cb, wc_chunks = map (new_cache_chunk sz block cb) [0..<div_ceil sz cb],
               wc_telemetry = cache_telemetry_default, wc_target_bytes = 0, wc_physical_cap_bytes = sz,
               wc_healthy_samples = 0, wc_restricted_samples = 0, wc_last_growth_at = None,
               wc_over_target_since = None, wc_access_clock = 0, wc_origin_state = OrReady,
               wc_origin_probe_successes = 0, wc_origin_dirty = False, wc_cache_state = CsOff\<rparr>)"

definition wt_cache_new ::
  "'p \<Rightarrow> 'o \<Rightarrow> nat \<Rightarrow> nat \<Rightarrow> (('p, 'm, 'o) wt_cache, io_error) result" where
  "wt_cache_new provider org sz block = with_chunk_bytes provider org sz block ORIGIN_CACHE_CHUNK_BYTES"

definition cached_bytes :: "('p, 'm, 'o) wt_cache \<Rightarrow> nat" where
  "cached_bytes s =
     fold (\<lambda>c n. wrapping_add u64_max n (if cc_mem c \<noteq> None then wc_chunk_bytes s else 0)) (wc_chunks s) 0"

definition set_physical_cap_bytes :: "nat \<Rightarrow> ('p, 'm, 'o) wt_cache \<Rightarrow> ('p, 'm, 'o) wt_cache" where
  "set_physical_cap_bytes cap s = s\<lparr>wc_physical_cap_bytes := min cap (wc_size s)\<rparr>"

definition valid_block_count :: "('p, 'm, 'o) wt_cache \<Rightarrow> nat" where
  "valid_block_count s =
     sum_list (map (\<lambda>c. length (filter (\<lambda>v. v \<and> cc_validity_generation c = cc_generation c \<and> cc_mem c \<noteq> None)
       (cc_valid c))) (wc_chunks s))"

definition cache_telemetry_of :: "('p, 'm, 'o) wt_cache \<Rightarrow> cache_telemetry" where
  "cache_telemetry_of s = (wc_telemetry s)\<lparr>tl_valid_blocks := valid_block_count s\<rparr>"

subsection \<open>Invalidation and release\<close>

definition invalidate :: "'m cache_chunk \<Rightarrow> 'm cache_chunk" where
  "invalidate c = c\<lparr>cc_generation := max (wrapping_add u64_max (cc_generation c) 1) 1,
     cc_valid := replicate (length (cc_valid c)) False\<rparr>"

definition invalidate_chunk :: "nat \<Rightarrow> ('p, 'm, 'o) wt_cache \<Rightarrow> ('p, 'm, 'o) wt_cache" where
  "invalidate_chunk idx s =
     count_tel (tl_invalidations_update (sat_bump 1)) (set_cache_chunk idx (invalidate (wc_chunks s ! idx)) s)"

definition invalidate_live :: "nat \<Rightarrow> ('p, 'm, 'o) wt_cache \<Rightarrow> ('p, 'm, 'o) wt_cache" where
  "invalidate_live idx s = (if cc_mem (wc_chunks s ! idx) \<noteq> None then invalidate_chunk idx s else s)"

definition invalidate_cached_range :: "nat \<Rightarrow> nat \<Rightarrow> ('p, 'm, 'o) wt_cache \<Rightarrow> ('p, 'm, 'o) wt_cache" where
  "invalidate_cached_range off len s =
     (if len = 0 then s
      else fold invalidate_live [off div wc_chunk_bytes s..<Suc ((off + len - 1) div wc_chunk_bytes s)] s)"

definition invalidate_all_cached :: "('p, 'm, 'o) wt_cache \<Rightarrow> ('p, 'm, 'o) wt_cache" where
  "invalidate_all_cached s = fold invalidate_live [0..<length (wc_chunks s)] s"

text \<open>The least recently used live chunk, the first one on a tie.\<close>

definition lru_chunk :: "('p, 'm, 'o) wt_cache \<Rightarrow> nat option" where
  "lru_chunk s =
     (case filter (\<lambda>i. cc_mem (wc_chunks s ! i) \<noteq> None) [0..<length (wc_chunks s)] of
        [] \<Rightarrow> None
      | i # rest \<Rightarrow> Some (fold (\<lambda>j best.
          if cc_last_access (wc_chunks s ! j) < cc_last_access (wc_chunks s ! best) then j else best) rest i))"

definition live_chunks :: "('p, 'm, 'o) wt_cache \<Rightarrow> nat" where
  "live_chunks s = length (filter (\<lambda>c. cc_mem c \<noteq> None) (wc_chunks s))"

definition release_chunk :: "nat \<Rightarrow> ('p, 'm, 'o) wt_cache \<Rightarrow> ('p, 'm, 'o) wt_cache" where
  "release_chunk idx s =
     (let s1 = invalidate_chunk idx s
      in count_tel (tl_releases_update (sat_bump 1))
           (set_cache_chunk idx ((wc_chunks s1 ! idx)\<lparr>cc_mem := None\<rparr>) s1))"

lemma fold_pick: "fold (\<lambda>j best. if P j best then j else best) is i \<in> insert i (set is)"
  by (induction "is" arbitrary: i) auto

lemma lru_chunk_live:
  assumes "lru_chunk s = Some i"
  shows "i < length (wc_chunks s) \<and> cc_mem (wc_chunks s ! i) \<noteq> None"
proof -
  let ?live = "filter (\<lambda>i. cc_mem (wc_chunks s ! i) \<noteq> None) [0..<length (wc_chunks s)]"
  obtain j rest where j: "?live = j # rest"
    using assms by (cases ?live) (auto simp: lru_chunk_def)
  have "i \<in> set ?live"
    using assms fold_pick [of "\<lambda>j best. cc_last_access (wc_chunks s ! j) < cc_last_access (wc_chunks s ! best)" rest j]
    unfolding j lru_chunk_def by simp
  then show ?thesis by simp
qed

lemma live_release_chunk:
  assumes "i < length (wc_chunks s)" "cc_mem (wc_chunks s ! i) \<noteq> None"
  shows "Suc (live_chunks (release_chunk i s)) = live_chunks s"
proof -
  let ?P = "\<lambda>c. cc_mem c \<noteq> None"
  obtain c where c: "wc_chunks (release_chunk i s) = (wc_chunks s)[i := c]" "cc_mem c = None"
    by (auto simp: release_chunk_def invalidate_chunk_def set_cache_chunk_def count_tel_def Let_def)
  show ?thesis
    using length_filter_update [OF assms(1), of ?P c] assms(2) c unfolding live_chunks_def by simp
qed

function release_lru_to ::
  "nat \<Rightarrow> nat \<Rightarrow> ('p, 'm, 'o) wt_cache \<Rightarrow> ('p, 'm, 'o) wt_cache \<times> nat" where
  "release_lru_to target released s =
     (if cached_bytes s > target then
        (case lru_chunk s of
           None \<Rightarrow> (s, released)
         | Some idx \<Rightarrow>
             release_lru_to target (saturating_add u64_max released (wc_chunk_bytes s)) (release_chunk idx s))
      else (s, released))"
  by pat_completeness auto

termination release_lru_to
proof (relation "measure (\<lambda>(target, released, s). live_chunks s)")
  fix target released :: nat and s :: "('p, 'm, 'o) wt_cache" and i
  assume "lru_chunk s = Some i"
  then have "Suc (live_chunks (release_chunk i s)) = live_chunks s"
    using lru_chunk_live live_release_chunk by blast
  then show "((target, saturating_add u64_max released (wc_chunk_bytes s), release_chunk i s), target, released, s)
      \<in> measure (\<lambda>(target, released, s). live_chunks s)" by simp
qed simp

declare release_lru_to.simps [simp del]

definition release_cache :: "('p, 'm, 'o) wt_cache \<Rightarrow> ('p, 'm, 'o) wt_cache \<times> nat" where
  "release_cache s = (let (s1, n) = release_lru_to 0 0 s in (s1\<lparr>wc_cache_state := CsOff\<rparr>, n))"

subsection \<open>Growth and pressure\<close>

definition allocate_one_chunk ::
  "('p, 'm, 'o) cache_env \<Rightarrow> ('p, 'm, 'o) wt_cache \<Rightarrow> ('p, 'm, 'o) wt_cache \<times> (nat, unit) result" where
  "allocate_one_chunk env s =
     (case position (\<lambda>c. cc_mem c = None) (wc_chunks s) of
        None \<Rightarrow> (s, Ok 0)
      | Some idx \<Rightarrow>
          (case po_alloc (ce_prov env) (wc_provider s) (wc_chunk_bytes s) of
             (p, Err _) \<Rightarrow> (count_tel (tl_allocation_failures_update (sat_bump 1)) (s\<lparr>wc_provider := p\<rparr>), Err ())
           | (p, Ok m) \<Rightarrow>
               (case mo_zero (ce_mem env) m of
                  (_, Err _) \<Rightarrow>
                    (count_tel (tl_allocation_failures_update (sat_bump 1)) (s\<lparr>wc_provider := p\<rparr>), Err ())
                | (m', Ok _) \<Rightarrow>
                    let s1 = s\<lparr>wc_provider := p, wc_access_clock := sat_bump 1 (wc_access_clock s)\<rparr>;
                        c = wc_chunks s1 ! idx
                    in (set_cache_chunk idx
                          (c\<lparr>cc_last_access := wc_access_clock s1, cc_validity_generation := cc_generation c,
                             cc_valid := replicate (length (cc_valid c)) False, cc_mem := Some m'\<rparr>) s1,
                        Ok (wc_chunk_bytes s1)))))"

text \<open>The four steps of \<open>observe_gpu\<close>: classification, reclaim, growth, and the check for a stuck cache.\<close>

definition note_sample ::
  "gpu_sample option \<Rightarrow> bool \<Rightarrow> ('p, 'm, 'o) wt_cache \<Rightarrow> ('p, 'm, 'o) wt_cache" where
  "note_sample sample restricted s =
     (if restricted then
        s\<lparr>wc_healthy_samples := 0,
          wc_restricted_samples := saturating_add u8_max (wc_restricted_samples s) 1,
          wc_cache_state := (if sample = None then CsUnavailable else CsRestricted)\<rparr>
      else
        s\<lparr>wc_restricted_samples := 0,
          wc_healthy_samples := saturating_add u8_max (wc_healthy_samples s) 1,
          wc_cache_state := CsActive\<rparr>)"

definition reclaim_step ::
  "nat \<Rightarrow> bool \<Rightarrow> ('p, 'm, 'o) wt_cache \<Rightarrow> ('p, 'm, 'o) wt_cache \<times> nat" where
  "reclaim_step target restricted s =
     (if restricted \<and> wc_restricted_samples s \<ge> RESTRICTED_SAMPLES_TO_RECLAIM then
        let (s1, n) = release_lru_to target 0 s in (s1\<lparr>wc_restricted_samples := 0\<rparr>, n)
      else (s, 0))"

definition growth_step ::
  "('p, 'm, 'o) cache_env \<Rightarrow> nat \<Rightarrow> bool \<Rightarrow> duration \<Rightarrow> ('p, 'm, 'o) wt_cache \<Rightarrow> ('p, 'm, 'o) wt_cache \<times> nat" where
  "growth_step env target restricted now s =
     (if \<not> restricted \<and> wc_healthy_samples s \<ge> HEALTHY_SAMPLES_TO_GROW \<and>
         saturating_add u64_max (cached_bytes s) (wc_chunk_bytes s) \<le> target \<and>
         (case wc_last_growth_at s of None \<Rightarrow> True | Some previous \<Rightarrow> saturating_sub now previous \<ge> GROWTH_INTERVAL)
      then (case allocate_one_chunk env (s\<lparr>wc_last_growth_at := Some now\<rparr>) of
              (s1, Ok n) \<Rightarrow> (s1, n)
            | (s1, Err _) \<Rightarrow> (s1\<lparr>wc_cache_state := CsUnavailable\<rparr>, 0))
      else (s, 0))"

definition stuck_step :: "nat \<Rightarrow> duration \<Rightarrow> ('p, 'm, 'o) wt_cache \<Rightarrow> ('p, 'm, 'o) wt_cache" where
  "stuck_step target now s =
     (if saturating_sub (cached_bytes s) target > wc_chunk_bytes s then
        let since = unwrap_or (wc_over_target_since s) now;
            s1 = s\<lparr>wc_over_target_since := Some since\<rparr>
        in if saturating_sub now since > STUCK_AFTER then s1\<lparr>wc_cache_state := CsStuck\<rparr> else s1
      else s\<lparr>wc_over_target_since := None\<rparr>)"

definition observe_gpu ::
  "('p, 'm, 'o) cache_env \<Rightarrow> gpu_sample option \<Rightarrow> duration \<Rightarrow> ('p, 'm, 'o) wt_cache \<Rightarrow>
   ('p, 'm, 'o) wt_cache \<times> cache_policy_outcome" where
  "observe_gpu env sample now s =
     (let target = physical_target_bytes (wc_physical_cap_bytes s) sample;
          s1 = s\<lparr>wc_target_bytes := target\<rparr>;
          restricted = (sample = None \<or> target < cached_bytes s1 \<or> target < wc_chunk_bytes s1);
          s2 = note_sample sample restricted s1;
          (s3, released) = reclaim_step target restricted s2;
          (s4, allocated) = growth_step env target restricted now s3
      in (stuck_step target now s4,
          \<lparr>co_target_bytes = target, co_allocated_bytes = allocated, co_released_bytes = released\<rparr>))"

subsection \<open>The authority of the origin\<close>

definition mark_origin_failed :: "('p, 'm, 'o) wt_cache \<Rightarrow> ('p, 'm, 'o) wt_cache" where
  "mark_origin_failed s = s\<lparr>wc_origin_state := OrFailed, wc_origin_probe_successes := 0\<rparr>"

definition probe_io ::
  "('p, 'm, 'o) cache_env \<Rightarrow> ('p, 'm, 'o) wt_cache \<Rightarrow> 'o \<times> (unit, io_error) result" where
  "probe_io env s =
     (case read_exact_at (ce_origin env) (wc_origin s) 0 (wc_block s) of
        (org, Err e) \<Rightarrow> (org, Err e)
      | (org, Ok _) \<Rightarrow> os_sync_data (ce_origin env) org)"

definition probe_origin ::
  "('p, 'm, 'o) cache_env \<Rightarrow> ('p, 'm, 'o) wt_cache \<Rightarrow> ('p, 'm, 'o) wt_cache \<times> (origin_state, io_error) result" where
  "probe_origin env s =
     (case probe_io env s of
        (org, Err e) \<Rightarrow> (mark_origin_failed (s\<lparr>wc_origin := org\<rparr>), Err e)
      | (org, Ok _) \<Rightarrow>
          let s1 = count_tel (tl_origin_syncs_update (sat_bump 1)) (s\<lparr>wc_origin := org, wc_origin_dirty := False\<rparr>);
              n = saturating_add u8_max (wc_origin_probe_successes s1) 1;
              s2 = (if wc_origin_state s1 = OrFailed \<or> wc_origin_state s1 = OrDegraded then
                      (if n \<ge> 3 then s1\<lparr>wc_origin_state := OrReady, wc_origin_probe_successes := 0\<rparr>
                       else s1\<lparr>wc_origin_probe_successes := n, wc_origin_state := OrDegraded\<rparr>)
                    else s1)
          in (s2, Ok (wc_origin_state s2)))"

definition check_range :: "('p, 'm, 'o) wt_cache \<Rightarrow> nat \<Rightarrow> nat \<Rightarrow> (unit, io_error) result" where
  "check_range s off n =
     (case checked_add u64_max off n of
        Some e \<Rightarrow> if e \<le> wc_size s then Ok () else Err (IoError ''origin cache I/O is out of range'')
      | None \<Rightarrow> Err (IoError ''origin cache I/O is out of range''))"

definition require_ready_origin :: "('p, 'm, 'o) wt_cache \<Rightarrow> (unit, io_error) result" where
  "require_ready_origin s =
     (if wc_origin_state s = OrReady then Ok ()
      else Err (IoError ''origin authority is unavailable pending three read+sync probes''))"

subsection \<open>Ranges and chunks\<close>

text \<open>
  The loop over the chunks of a range that \<open>range_is_cached\<close>, \<open>cache_read\<close> and \<open>update_cached_chunks\<close> share:
  chunk index, offset in the chunk, bytes done and bytes of this round. A chunk size of zero, at
  which the division panics, is excluded by the constructor.
\<close>

function cache_pieces :: "nat \<Rightarrow> nat \<Rightarrow> nat \<Rightarrow> nat \<Rightarrow> (nat \<times> nat \<times> nat \<times> nat) list" where
  "cache_pieces cb off n don =
     (if don < n \<and> 0 < cb then
        let absolute = off + don; relative = absolute mod cb; cnt = min (n - don) (cb - relative)
        in (absolute div cb, relative, don, cnt) # cache_pieces cb off n (don + cnt)
      else [])"
  by pat_completeness auto

lemma piece_progress:
  "don < n \<Longrightarrow> 0 < cb \<Longrightarrow> 0 < min (n - don) (cb - a mod cb) \<and> min (n - don) (cb - a mod cb) \<le> n - don" for a :: nat
  by simp

termination cache_pieces
proof (relation "measure (\<lambda>(cb, off, n, don). n - don)")
  fix cb off n don absolute relative cnt :: nat
  assume "don < n \<and> 0 < cb" "absolute = off + don" "relative = absolute mod cb" "cnt = min (n - don) (cb - relative)"
  then have "0 < cnt" "cnt \<le> n - don" "don < n" using piece_progress [of don n cb absolute] by simp_all
  then show "((cb, off, n, don + cnt), cb, off, n, don) \<in> measure (\<lambda>(cb, off, n, don). n - don)" by simp
qed simp

declare cache_pieces.simps [simp del]

definition piece_is_cached :: "nat \<Rightarrow> 'm cache_chunk \<Rightarrow> nat \<Rightarrow> nat \<Rightarrow> bool" where
  "piece_is_cached block c relative cnt \<longleftrightarrow>
     cc_mem c \<noteq> None \<and> cc_validity_generation c = cc_generation c \<and>
     list_all (\<lambda>b. cc_valid c ! b) [relative div block..<div_ceil (relative + cnt) block]"

definition range_is_cached :: "('p, 'm, 'o) wt_cache \<Rightarrow> nat \<Rightarrow> nat \<Rightarrow> bool" where
  "range_is_cached s off n =
     list_all (\<lambda>(idx, relative, _, cnt). piece_is_cached (wc_block s) (wc_chunks s ! idx) relative cnt)
       (cache_pieces (wc_chunk_bytes s) off n 0)"

definition touch_chunk :: "nat \<Rightarrow> ('p, 'm, 'o) wt_cache \<Rightarrow> ('p, 'm, 'o) wt_cache" where
  "touch_chunk idx s =
     (let clock = sat_bump 1 (wc_access_clock s)
      in set_cache_chunk idx ((wc_chunks s ! idx)\<lparr>cc_last_access := clock\<rparr>) (s\<lparr>wc_access_clock := clock\<rparr>))"

fun cache_read_pieces ::
  "'m mem_ops \<Rightarrow> (nat \<times> nat \<times> nat \<times> nat) list \<Rightarrow> ('p, 'm, 'o) wt_cache \<Rightarrow>
   ('p, 'm, 'o) wt_cache \<times> (byte list, nat) result" where
  "cache_read_pieces mops [] s = (s, Ok [])"
| "cache_read_pieces mops ((idx, relative, don, cnt) # rest) s =
     (case cc_mem (wc_chunks s ! idx) of
        None \<Rightarrow> (s, Err idx)
      | Some m \<Rightarrow>
          (case mo_read mops m relative cnt of
             Err _ \<Rightarrow> (s, Err idx)
           | Ok bs \<Rightarrow>
               (case cache_read_pieces mops rest (touch_chunk idx s) of
                  (s', Err i) \<Rightarrow> (s', Err i)
                | (s', Ok more_bs) \<Rightarrow> (s', Ok (bs @ more_bs)))))"

definition cache_read ::
  "'m mem_ops \<Rightarrow> nat \<Rightarrow> nat \<Rightarrow> ('p, 'm, 'o) wt_cache \<Rightarrow> ('p, 'm, 'o) wt_cache \<times> (byte list, nat) result" where
  "cache_read mops off n s = cache_read_pieces mops (cache_pieces (wc_chunk_bytes s) off n 0) s"

text \<open>A block past the end of the chunk is skipped, as the checked access skips it.\<close>

definition mark_blocks :: "nat \<Rightarrow> nat \<Rightarrow> nat \<Rightarrow> 'm cache_chunk \<Rightarrow> 'm cache_chunk" where
  "mark_blocks block relative len c =
     (let c1 = (if cc_validity_generation c \<noteq> cc_generation c then
                  c\<lparr>cc_valid := replicate (length (cc_valid c)) False, cc_validity_generation := cc_generation c\<rparr>
                else c)
      in c1\<lparr>cc_valid := fold (\<lambda>b vs. vs[b := True]) [div_ceil relative block..<(relative + len) div block] (cc_valid c1)\<rparr>)"

definition mark_fully_covered_blocks ::
  "nat \<Rightarrow> nat \<Rightarrow> nat \<Rightarrow> ('p, 'm, 'o) wt_cache \<Rightarrow> ('p, 'm, 'o) wt_cache" where
  "mark_fully_covered_blocks idx relative len s =
     set_cache_chunk idx (mark_blocks (wc_block s) relative len (wc_chunks s ! idx)) s"

definition update_cached_piece ::
  "'m mem_ops \<Rightarrow> bool \<Rightarrow> nat \<Rightarrow> nat \<Rightarrow> byte list \<Rightarrow> ('p, 'm, 'o) wt_cache \<Rightarrow> ('p, 'm, 'o) wt_cache" where
  "update_cached_piece mops count_refusals idx relative bs s =
     (case cc_mem (wc_chunks s ! idx) of
        None \<Rightarrow> if count_refusals then count_tel (tl_promotion_refusals_update (sat_bump 1)) s else s
      | Some m \<Rightarrow>
          (case mo_write mops m relative bs of
             (m', Err _) \<Rightarrow>
               invalidate_chunk idx (count_tel (tl_cache_write_failures_update (sat_bump 1))
                 (set_cache_chunk idx ((wc_chunks s ! idx)\<lparr>cc_mem := Some m'\<rparr>) s))
           | (m', Ok _) \<Rightarrow>
               mark_fully_covered_blocks idx relative (length bs)
                 (touch_chunk idx (set_cache_chunk idx ((wc_chunks s ! idx)\<lparr>cc_mem := Some m'\<rparr>) s))))"

fun update_pieces ::
  "'m mem_ops \<Rightarrow> bool \<Rightarrow> byte list \<Rightarrow> (nat \<times> nat \<times> nat \<times> nat) list \<Rightarrow> ('p, 'm, 'o) wt_cache \<Rightarrow>
   ('p, 'm, 'o) wt_cache" where
  "update_pieces mops count_refusals bs [] s = s"
| "update_pieces mops count_refusals bs ((idx, relative, don, cnt) # rest) s =
     update_pieces mops count_refusals bs rest
       (update_cached_piece mops count_refusals idx relative (read_range don cnt bs) s)"

definition update_cached_chunks ::
  "'m mem_ops \<Rightarrow> nat \<Rightarrow> byte list \<Rightarrow> bool \<Rightarrow> ('p, 'm, 'o) wt_cache \<Rightarrow> ('p, 'm, 'o) wt_cache" where
  "update_cached_chunks mops off bs count_refusals s =
     update_pieces mops count_refusals bs (cache_pieces (wc_chunk_bytes s) off (length bs) 0) s"

subsection \<open>Reading, writing and flushing\<close>

definition write_origin ::
  "('p, 'm, 'o) cache_env \<Rightarrow> nat \<Rightarrow> byte list \<Rightarrow> ('p, 'm, 'o) wt_cache \<Rightarrow>
   ('p, 'm, 'o) wt_cache \<times> (unit, io_error) result" where
  "write_origin env off bs s =
     (case write_all_at (ce_origin env) (wc_origin s) off bs of
        (org, Err e) \<Rightarrow>
          (mark_origin_failed (invalidate_cached_range off (length bs) (s\<lparr>wc_origin := org\<rparr>)), Err e)
      | (org, Ok _) \<Rightarrow>
          (count_tel (tl_origin_written_bytes_update (sat_bump (length bs)))
             (s\<lparr>wc_origin := org, wc_origin_dirty := True\<rparr>), Ok ()))"

definition sync_dirty_origin ::
  "('p, 'm, 'o) cache_env \<Rightarrow> ('p, 'm, 'o) wt_cache \<Rightarrow> ('p, 'm, 'o) wt_cache \<times> (unit, io_error) result" where
  "sync_dirty_origin env s =
     (if \<not> wc_origin_dirty s then (s, Ok ())
      else case os_sync_data (ce_origin env) (wc_origin s) of
          (org, Err e) \<Rightarrow> (mark_origin_failed (invalidate_all_cached (s\<lparr>wc_origin := org\<rparr>)), Err e)
        | (org, Ok _) \<Rightarrow>
            (count_tel (tl_origin_syncs_update (sat_bump 1)) (s\<lparr>wc_origin := org, wc_origin_dirty := False\<rparr>), Ok ()))"

text \<open>The read from the origin, and the promotion of what it returned.\<close>

definition fallback_read ::
  "('p, 'm, 'o) cache_env \<Rightarrow> nat \<Rightarrow> nat \<Rightarrow> ('p, 'm, 'o) wt_cache \<Rightarrow>
   ('p, 'm, 'o) wt_cache \<times> (byte list, io_error) result" where
  "fallback_read env off n s =
     (case read_exact_at (ce_origin env) (wc_origin s) off n of
        (org, Err e) \<Rightarrow> (mark_origin_failed (s\<lparr>wc_origin := org\<rparr>), Err e)
      | (org, Ok bs) \<Rightarrow>
          let s1 = count_tel (tl_fallback_reads_update (sat_bump 1)) (s\<lparr>wc_origin := org\<rparr>)
          in (if cached_bytes s1 \<le> wc_target_bytes s1 then update_cached_chunks (ce_mem env) off bs True s1
              else count_tel (tl_promotion_refusals_update (sat_bump 1)) s1, Ok bs))"

definition wc_read_at ::
  "('p, 'm, 'o) cache_env \<Rightarrow> ('p, 'm, 'o) wt_cache \<Rightarrow> nat \<Rightarrow> nat \<Rightarrow>
   ('p, 'm, 'o) wt_cache \<times> (byte list, io_error) result" where
  "wc_read_at env s off n =
     (case check_range s off n of
        Err e \<Rightarrow> (s, Err e)
      | Ok _ \<Rightarrow>
          (case require_ready_origin s of
             Err e \<Rightarrow> (s, Err e)
           | Ok _ \<Rightarrow>
               if n = 0 then (s, Ok [])
               else if range_is_cached s off n then
                 (case cache_read (ce_mem env) off n s of
                    (s1, Ok bs) \<Rightarrow> (count_tel (tl_cache_read_bytes_update (sat_bump n)) s1, Ok bs)
                  | (s1, Err idx) \<Rightarrow>
                      fallback_read env off n
                        (invalidate_chunk idx (count_tel (tl_cache_read_failures_update (sat_bump 1)) s1)))
               else fallback_read env off n s))"

definition wc_write_at ::
  "('p, 'm, 'o) cache_env \<Rightarrow> ('p, 'm, 'o) wt_cache \<Rightarrow> nat \<Rightarrow> byte list \<Rightarrow>
   ('p, 'm, 'o) wt_cache \<times> (unit, io_error) result" where
  "wc_write_at env s off bs =
     (case check_range s off (length bs) of
        Err e \<Rightarrow> (s, Err e)
      | Ok _ \<Rightarrow>
          (case require_ready_origin s of
             Err e \<Rightarrow> (s, Err e)
           | Ok _ \<Rightarrow>
               if bs = [] then (s, Ok ())
               else (case write_origin env off bs s of
                       (s1, Err e) \<Rightarrow> (s1, Err e)
                     | (s1, Ok _) \<Rightarrow>
                         (update_cached_chunks (ce_mem env) off bs False
                            (count_tel (tl_batched_writes_update (sat_bump 1)) s1), Ok ()))))"

definition wc_write_at_with_options ::
  "('p, 'm, 'o) cache_env \<Rightarrow> ('p, 'm, 'o) wt_cache \<Rightarrow> nat \<Rightarrow> byte list \<Rightarrow> write_options \<Rightarrow>
   ('p, 'm, 'o) wt_cache \<times> (unit, io_error) result" where
  "wc_write_at_with_options env s off bs opt =
     (if \<not> wo_fua opt then wc_write_at env s off bs
      else case check_range s off (length bs) of
          Err e \<Rightarrow> (s, Err e)
        | Ok _ \<Rightarrow>
            (case require_ready_origin s of
               Err e \<Rightarrow> (s, Err e)
             | Ok _ \<Rightarrow>
                 if bs = [] then (s, Ok ())
                 else (case write_origin env off bs s of
                         (s1, Err e) \<Rightarrow> (s1, Err e)
                       | (s1, Ok _) \<Rightarrow>
                           (case sync_dirty_origin env s1 of
                              (s2, Err e) \<Rightarrow> (s2, Err e)
                            | (s2, Ok _) \<Rightarrow> (update_cached_chunks (ce_mem env) off bs False s2, Ok ())))))"

definition wc_flush ::
  "('p, 'm, 'o) cache_env \<Rightarrow> ('p, 'm, 'o) wt_cache \<Rightarrow> ('p, 'm, 'o) wt_cache \<times> (unit, io_error) result" where
  "wc_flush env s =
     (case require_ready_origin s of
        Err e \<Rightarrow> (s, Err e)
      | Ok _ \<Rightarrow> sync_dirty_origin env s)"

definition wc_ops :: "('p, 'm, 'o) cache_env \<Rightarrow> ('p, 'm, 'o) wt_cache backend_ops" where
  "wc_ops env =
     \<lparr>be_size_bytes = wc_size, be_block_size = wc_block, be_is_read_only = (\<lambda>_. False),
      be_read_at = wc_read_at env, be_write_at = wc_write_at env,
      be_write_at_with_options = wc_write_at_with_options env, be_flush = wc_flush env\<rparr>"

end
