(* ===== verification/Origin_Coherence.thy ===== *)
theory Origin_Coherence
  imports Origin_Cache
begin

text \<open>
  The cache agrees with its origin: every copy of a byte that a read could use is the origin's byte,
  and every operation of \<open>Origin_Cache\<close> keeps it so. Steps that only drop copies are \<open>sheds\<close> steps; a
  write is shown coherent up to the range still to be refreshed.
\<close>

subsection \<open>The cached bytes\<close>

text \<open>The copy a chunk holds of the byte at an offset, when its block is valid.\<close>

definition chunk_byte :: "('m \<Rightarrow> byte list) \<Rightarrow> nat \<Rightarrow> 'm cache_chunk \<Rightarrow> nat \<Rightarrow> byte option" where
  "chunk_byte contents block c r =
     (case cc_mem c of
        None \<Rightarrow> None
      | Some m \<Rightarrow> if cc_validity_generation c = cc_generation c \<and> cc_valid c ! (r div block)
                  then Some (contents m ! r) else None)"

definition cached_byte :: "('m \<Rightarrow> byte list) \<Rightarrow> ('p, 'm, 'o) wt_cache \<Rightarrow> nat \<Rightarrow> byte option" where
  "cached_byte contents s p =
     chunk_byte contents (wc_block s) (wc_chunks s ! (p div wc_chunk_bytes s)) (p mod wc_chunk_bytes s)"

definition cache_chunk_wf ::
  "('m \<Rightarrow> byte list) \<Rightarrow> ('m \<Rightarrow> bool) \<Rightarrow> ('p, 'm, 'o) wt_cache \<Rightarrow> nat \<Rightarrow> 'm cache_chunk \<Rightarrow> bool" where
  "cache_chunk_wf contents good s idx c \<longleftrightarrow>
     length (cc_valid c) = min (wc_chunk_bytes s) (wc_size s - idx * wc_chunk_bytes s) div wc_block s \<and>
     (\<forall>m. cc_mem c = Some m \<longrightarrow> good m \<and> length (contents m) = wc_chunk_bytes s)"

definition cache_geometry :: "('p, 'm, 'o) wt_cache \<Rightarrow> bool" where
  "cache_geometry s \<longleftrightarrow> 0 < wc_size s \<and> 0 < wc_block s \<and> 0 < wc_chunk_bytes s \<and>
     wc_block s dvd wc_size s \<and> wc_block s dvd wc_chunk_bytes s \<and>
     wc_size s + wc_chunk_bytes s \<le> u64_max \<and>
     length (wc_chunks s) = div_ceil (wc_size s) (wc_chunk_bytes s)"

definition cache_wf :: "('m \<Rightarrow> byte list) \<Rightarrow> ('m \<Rightarrow> bool) \<Rightarrow> ('p, 'm, 'o) wt_cache \<Rightarrow> bool" where
  "cache_wf contents good s \<longleftrightarrow> cache_geometry s \<and>
     (\<forall>i < length (wc_chunks s). cache_chunk_wf contents good s i (wc_chunks s ! i))"

text \<open>Every cached byte outside \<open>[lo, hi)\<close> is the origin's.\<close>

definition coherent ::
  "('m \<Rightarrow> byte list) \<Rightarrow> byte list \<Rightarrow> nat \<Rightarrow> nat \<Rightarrow> ('p, 'm, 'o) wt_cache \<Rightarrow> bool" where
  "coherent contents dat lo hi s \<longleftrightarrow>
     (\<forall>p v. p < wc_size s \<longrightarrow> p < lo \<or> hi \<le> p \<longrightarrow> cached_byte contents s p = Some v \<longrightarrow> v = dat ! p)"

definition wc_same :: "('p, 'm, 'o) wt_cache \<Rightarrow> ('p, 'm, 'o) wt_cache \<Rightarrow> bool" where
  "wc_same s t \<longleftrightarrow> wc_origin t = wc_origin s \<and> wc_size t = wc_size s \<and> wc_block t = wc_block s \<and>
     wc_chunk_bytes t = wc_chunk_bytes s \<and> wc_origin_state t = wc_origin_state s \<and>
     wc_origin_probe_successes t = wc_origin_probe_successes s \<and> wc_origin_dirty t = wc_origin_dirty s \<and>
     length (wc_chunks t) = length (wc_chunks s)"

text \<open>A step that only drops copies.\<close>

definition sheds ::
  "('m \<Rightarrow> byte list) \<Rightarrow> ('m \<Rightarrow> bool) \<Rightarrow> ('p, 'm, 'o) wt_cache \<Rightarrow> ('p, 'm, 'o) wt_cache \<Rightarrow> bool" where
  "sheds contents good s t \<longleftrightarrow> wc_same s t \<and> (cache_wf contents good s \<longrightarrow> cache_wf contents good t \<and>
     (\<forall>p v. p < wc_size s \<longrightarrow> cached_byte contents t p = Some v \<longrightarrow> cached_byte contents s p = Some v))"

lemma wc_same_refl [simp]: "wc_same s s"
  by (simp add: wc_same_def)

lemma wc_same_trans: "wc_same s t \<Longrightarrow> wc_same t u \<Longrightarrow> wc_same s u"
  by (simp add: wc_same_def)

lemma sheds_same: "sheds contents good s t \<Longrightarrow> wc_same s t"
  by (simp add: sheds_def)

lemma sheds_wf: "sheds contents good s t \<Longrightarrow> cache_wf contents good s \<Longrightarrow> cache_wf contents good t"
  by (simp add: sheds_def)

lemma sheds_trans: "sheds contents good s t \<Longrightarrow> sheds contents good t u \<Longrightarrow> sheds contents good s u"
  using wc_same_trans [of s t u] by (simp add: sheds_def wc_same_def)

lemma sheds_frame: "wc_same s t \<Longrightarrow> wc_chunks t = wc_chunks s \<Longrightarrow> sheds contents good s t"
  by (simp add: sheds_def wc_same_def cache_wf_def cache_geometry_def cache_chunk_wf_def cached_byte_def)

lemma sheds_refl [simp]: "sheds contents good s s"
  by (simp add: sheds_frame)

lemma sheds_coherent:
  "sheds contents good s t \<Longrightarrow> cache_wf contents good s \<Longrightarrow> coherent contents dat lo hi s \<Longrightarrow>
   coherent contents dat lo hi t"
  by (simp add: sheds_def coherent_def wc_same_def)

lemma sheds_count_tel [simp]: "sheds contents good s (count_tel u t) \<longleftrightarrow> sheds contents good s t"
  by (simp add: sheds_def count_tel_def wc_same_def cache_wf_def cache_geometry_def cache_chunk_wf_def cached_byte_def)

lemma sheds_clock [simp]: "sheds contents good s (t\<lparr>wc_access_clock := k\<rparr>) \<longleftrightarrow> sheds contents good s t"
  by (simp add: sheds_def wc_same_def cache_wf_def cache_geometry_def cache_chunk_wf_def cached_byte_def)

lemma position_in_cache:
  assumes "cache_wf contents good s" "p < wc_size s"
  shows "p div wc_chunk_bytes s < length (wc_chunks s)"
    and "p mod wc_chunk_bytes s div wc_block s < length (cc_valid (wc_chunks s ! (p div wc_chunk_bytes s)))"
proof -
  let ?cb = "wc_chunk_bytes s" and ?i = "p div wc_chunk_bytes s" and ?r = "p mod wc_chunk_bytes s"
  have g: "0 < ?cb" "wc_block s dvd wc_size s" "wc_block s dvd ?cb" "0 < wc_block s"
    "length (wc_chunks s) = div_ceil (wc_size s) ?cb"
    using assms(1) by (auto simp: cache_wf_def cache_geometry_def)
  have "p < length (wc_chunks s) * ?cb" using div_ceil_upper [OF g(1), of "wc_size s"] assms(2) g(5) by simp
  then show i: "?i < length (wc_chunks s)" by (simp add: less_mult_imp_div_less)
  have "?i * ?cb + ?r < wc_size s" using assms(2) by simp
  then have "?r < wc_size s - ?i * ?cb" by linarith
  then have "?r < min ?cb (wc_size s - ?i * ?cb)" using g(1) by simp
  moreover have "wc_block s dvd min ?cb (wc_size s - ?i * ?cb)"
    using g(2,3) by (auto simp: min_def intro: dvd_diff_nat)
  ultimately have "?r div wc_block s < min ?cb (wc_size s - ?i * ?cb) div wc_block s"
    using g(4) by (metis dvd_div_mult_self less_mult_imp_div_less)
  then show "?r div wc_block s < length (cc_valid (wc_chunks s ! ?i))"
    using assms(1) i by (simp add: cache_wf_def cache_chunk_wf_def)
qed

lemma cached_byte_set:
  "idx < length (wc_chunks s) \<Longrightarrow> cached_byte contents (set_cache_chunk idx c s) p =
     (if p div wc_chunk_bytes s = idx then chunk_byte contents (wc_block s) c (p mod wc_chunk_bytes s)
      else cached_byte contents s p)"
  by (simp add: cached_byte_def set_cache_chunk_def)

lemma set_chunk_wf:
  "cache_wf contents good s \<Longrightarrow> idx < length (wc_chunks s) \<Longrightarrow> cache_chunk_wf contents good s idx c \<Longrightarrow>
   cache_wf contents good (set_cache_chunk idx c s)"
  by (auto simp: cache_wf_def cache_geometry_def set_cache_chunk_def cache_chunk_wf_def nth_list_update)

lemma set_chunk_same [simp]: "wc_same s (set_cache_chunk idx c s)"
  by (simp add: wc_same_def set_cache_chunk_def)

lemma cache_wf_chunk:
  "cache_wf contents good s \<Longrightarrow> idx < length (wc_chunks s) \<Longrightarrow> cache_chunk_wf contents good s idx (wc_chunks s ! idx)"
  by (simp add: cache_wf_def)

lemma sheds_set_chunk:
  assumes "length (cc_valid c) = length (cc_valid (wc_chunks s ! idx))"
    and "cache_wf contents good s \<Longrightarrow> idx < length (wc_chunks s) \<Longrightarrow>
      \<forall>m. cc_mem c = Some m \<longrightarrow> good m \<and> length (contents m) = wc_chunk_bytes s"
    and "\<And>r v. r div wc_block s < length (cc_valid c) \<Longrightarrow> chunk_byte contents (wc_block s) c r = Some v \<Longrightarrow>
      chunk_byte contents (wc_block s) (wc_chunks s ! idx) r = Some v"
  shows "sheds contents good s (set_cache_chunk idx c s)"
proof (cases "idx < length (wc_chunks s)")
  case False
  then have "set_cache_chunk idx c s = s" by (simp add: set_cache_chunk_def list_update_beyond)
  then show ?thesis by simp
next
  case True
  have "cached_byte contents s p = Some v"
    if "cache_wf contents good s" "p < wc_size s" "cached_byte contents (set_cache_chunk idx c s) p = Some v" for p v
    using that cached_byte_set [OF True, of contents c p] position_in_cache(2) [OF that(1,2)] assms(1)
      assms(3) [of "p mod wc_chunk_bytes s" v]
    by (auto simp: cached_byte_def [of contents s] split: if_splits)
  then show ?thesis
    using True assms(1,2) cache_wf_chunk [of contents good s idx]
    by (auto simp: sheds_def intro!: set_chunk_wf simp: cache_chunk_wf_def)
qed

subsection \<open>Dropping copies\<close>

lemma chunk_byte_invalidate [simp]:
  "r div block < length (cc_valid c) \<Longrightarrow> chunk_byte contents block (invalidate c) r = None"
  by (simp add: chunk_byte_def invalidate_def split: option.split)

lemma invalidate_fields [simp]:
  "cc_mem (invalidate c) = cc_mem c" "length (cc_valid (invalidate c)) = length (cc_valid c)"
  by (simp_all add: invalidate_def)

lemma sheds_invalidate: "sheds contents good s (invalidate_chunk idx s)"
  unfolding invalidate_chunk_def sheds_count_tel
  by (rule sheds_set_chunk) (auto simp: cache_wf_def cache_chunk_wf_def)

lemma invalidate_live_law:
  shows "sheds contents good s (invalidate_live idx s)"
    and "cache_wf contents good s \<Longrightarrow> p < wc_size s \<Longrightarrow> p div wc_chunk_bytes s = idx \<Longrightarrow>
      cached_byte contents (invalidate_live idx s) p = None"
proof -
  show "sheds contents good s (invalidate_live idx s)" by (simp add: invalidate_live_def sheds_invalidate)
  assume a: "cache_wf contents good s" "p < wc_size s" "p div wc_chunk_bytes s = idx"
  note q = position_in_cache [OF a(1,2)]
  show "cached_byte contents (invalidate_live idx s) p = None"
  proof (cases "cc_mem (wc_chunks s ! idx)")
    case None
    then show ?thesis using a(3) by (simp add: invalidate_live_def cached_byte_def chunk_byte_def)
  next
    case (Some m)
    have "cached_byte contents (set_cache_chunk idx (invalidate (wc_chunks s ! idx)) s) p = None"
      using q a(3) by (simp add: cached_byte_set)
    then show ?thesis using Some
      by (simp add: invalidate_live_def invalidate_chunk_def count_tel_def cached_byte_def)
  qed
qed

lemma sheds_invalidate_fold: "sheds contents good s (fold invalidate_live ids s)"
  by (induction ids arbitrary: s) (auto intro: sheds_trans invalidate_live_law(1))

lemma invalidate_fold_none:
  "cache_wf contents good s \<Longrightarrow> p < wc_size s \<Longrightarrow> p div wc_chunk_bytes s \<in> set ids \<Longrightarrow>
   cached_byte contents (fold invalidate_live ids s) p = None"
proof (induction ids arbitrary: s)
  case (Cons i ids)
  let ?s1 = "invalidate_live i s"
  have s1: "sheds contents good s ?s1" by (rule invalidate_live_law(1))
  then have g: "cache_wf contents good ?s1" "wc_size ?s1 = wc_size s" "wc_chunk_bytes ?s1 = wc_chunk_bytes s"
    using Cons.prems by (simp_all add: sheds_def wc_same_def)
  show ?case
  proof (cases "p div wc_chunk_bytes s \<in> set ids")
    case True
    then show ?thesis using Cons.IH [of ?s1] Cons.prems g by simp
  next
    case False
    then have "cached_byte contents ?s1 p = None" using invalidate_live_law(2) Cons.prems by fastforce
    moreover have "sheds contents good ?s1 (fold invalidate_live ids ?s1)" by (rule sheds_invalidate_fold)
    ultimately show ?thesis using g Cons.prems(2)
      by (cases "cached_byte contents (fold invalidate_live ids ?s1) p") (auto simp: sheds_def)
  qed
qed simp

lemma invalidate_range_law:
  assumes "cache_wf contents good s" "off + n \<le> wc_size s"
  shows "sheds contents good s (invalidate_cached_range off n s)"
    and "off \<le> p \<Longrightarrow> p < off + n \<Longrightarrow> cached_byte contents (invalidate_cached_range off n s) p = None"
proof -
  show "sheds contents good s (invalidate_cached_range off n s)"
    by (simp add: invalidate_cached_range_def sheds_invalidate_fold)
  assume p: "off \<le> p" "p < off + n"
  then have "off div wc_chunk_bytes s \<le> p div wc_chunk_bytes s"
    "p div wc_chunk_bytes s \<le> (off + n - 1) div wc_chunk_bytes s" by (simp_all add: div_le_mono)
  then have "p div wc_chunk_bytes s \<in> set [off div wc_chunk_bytes s..<Suc ((off + n - 1) div wc_chunk_bytes s)]"
    by (simp del: upt_Suc)
  then show "cached_byte contents (invalidate_cached_range off n s) p = None"
    using invalidate_fold_none [OF assms(1), of p] p assms(2) by (simp add: invalidate_cached_range_def del: upt_Suc)
qed

lemma invalidate_all_law:
  assumes "cache_wf contents good s"
  shows "sheds contents good s (invalidate_all_cached s)"
    and "p < wc_size s \<Longrightarrow> cached_byte contents (invalidate_all_cached s) p = None"
  using sheds_invalidate_fold invalidate_fold_none [OF assms] position_in_cache(1) [OF assms]
  by (auto simp: invalidate_all_cached_def)

lemma touch_chunk_eq:
  "touch_chunk idx s =
     (set_cache_chunk idx ((wc_chunks s ! idx)\<lparr>cc_last_access := sat_bump 1 (wc_access_clock s)\<rparr>) s)
       \<lparr>wc_access_clock := sat_bump 1 (wc_access_clock s)\<rparr>"
  by (simp add: touch_chunk_def set_cache_chunk_def Let_def)

lemma chunk_byte_access [simp]:
  "chunk_byte contents block (c\<lparr>cc_last_access := k\<rparr>) r = chunk_byte contents block c r"
  by (simp add: chunk_byte_def cong: option.case_cong)

lemma sheds_touch: "sheds contents good s (touch_chunk idx s)"
  unfolding touch_chunk_eq sheds_clock
  by (rule sheds_set_chunk) (auto simp: cache_wf_def cache_chunk_wf_def)

lemma touch_cached: "cached_byte contents (touch_chunk idx s) p = cached_byte contents s p"
  by (cases "idx < length (wc_chunks s)")
    (simp_all add: touch_chunk_eq set_cache_chunk_def cached_byte_def nth_list_update list_update_beyond)

lemma sheds_release: "sheds contents good s (release_chunk idx s)"
  unfolding release_chunk_def Let_def sheds_count_tel
  by (rule sheds_trans [OF sheds_invalidate sheds_set_chunk]) (simp_all add: chunk_byte_def)

lemma sheds_release_lru: "sheds contents good s (fst (release_lru_to target released s))"
proof (induction target released s rule: release_lru_to.induct)
  case (1 target released s)
  then show ?case
    using sheds_trans [OF sheds_release]
    by (simp add: release_lru_to.simps [of target released s] split: option.split) blast
qed

subsection \<open>Pieces\<close>

lemma cache_pieces_step:
  assumes "don < n" "0 < cb"
  obtains idx rel cnt where "cache_pieces cb off n don = (idx, rel, don, cnt) # cache_pieces cb off n (don + cnt)"
    "0 < cnt" "don + cnt \<le> n" "rel + cnt \<le> cb" "off + don = idx * cb + rel"
proof
  let ?rel = "(off + don) mod cb" and ?cnt = "min (n - don) (cb - (off + don) mod cb)"
  show "cache_pieces cb off n don = ((off + don) div cb, ?rel, don, ?cnt) # cache_pieces cb off n (don + ?cnt)"
    using assms by (simp add: cache_pieces.simps [of cb off n don] Let_def)
  show "0 < ?cnt" "don + ?cnt \<le> n" using piece_progress [OF assms, of "off + don"] assms by auto
  have "?rel < cb" using assms by simp
  then show "?rel + ?cnt \<le> cb" by linarith
qed simp

lemma cache_pieces_induct:
  assumes "0 < cb" "don \<le> n" "P n []"
    and step: "\<And>idx rel don cnt rest. don < n \<Longrightarrow> 0 < cnt \<Longrightarrow> don + cnt \<le> n \<Longrightarrow> rel + cnt \<le> cb \<Longrightarrow>
      off + don = idx * cb + rel \<Longrightarrow> P (don + cnt) rest \<Longrightarrow> P don ((idx, rel, don, cnt) # rest)"
  shows "P don (cache_pieces cb off n don)"
  using assms(2)
proof (induction "n - don" arbitrary: don rule: less_induct)
  case less
  show ?case
  proof (cases "don < n")
    case True
    obtain idx rel cnt where c: "cache_pieces cb off n don = (idx, rel, don, cnt) # cache_pieces cb off n (don + cnt)"
      "0 < cnt" "don + cnt \<le> n" "rel + cnt \<le> cb" "off + don = idx * cb + rel"
      by (rule cache_pieces_step [OF True assms(1)])
    have "P (don + cnt) (cache_pieces cb off n (don + cnt))" by (rule less.hyps) (use c True in auto)
    then show ?thesis using step [OF True c(2-5)] c(1) by simp
  next
    case False
    then have "don = n" using less.prems by simp
    then show ?thesis using assms(3) by (simp add: cache_pieces.simps [of cb off n n])
  qed
qed

lemma piece_position:
  fixes p idx cb rel cnt :: nat
  assumes "rel + cnt \<le> cb" "idx * cb + rel \<le> p" "p < idx * cb + rel + cnt"
  shows "p div cb = idx" "p mod cb = p - idx * cb" "rel \<le> p mod cb" "p mod cb < rel + cnt"
proof -
  define j where "j = p - idx * cb"
  then have j: "p = idx * cb + j" using assms(2) by linarith
  then have "j < cb" "rel \<le> j" "j < rel + cnt" using assms by auto
  then show "p div cb = idx" "p mod cb = p - idx * cb" "rel \<le> p mod cb" "p mod cb < rel + cnt"
    using j by auto
qed

text \<open>A range whose blocks are all valid is cached byte by byte.\<close>

lemma piece_cached_bytes:
  assumes "piece_is_cached (wc_block s) (wc_chunks s ! idx) rel cnt" "0 < wc_block s"
    and "rel + cnt \<le> wc_chunk_bytes s" "idx * wc_chunk_bytes s + rel \<le> p" "p < idx * wc_chunk_bytes s + rel + cnt"
  shows "cached_byte contents s p \<noteq> None"
proof -
  note q = piece_position [OF assms(3-5)]
  let ?b = "p mod wc_chunk_bytes s div wc_block s"
  have "rel div wc_block s \<le> ?b" using q(3) by (rule div_le_mono)
  moreover have "?b < div_ceil (rel + cnt) (wc_block s)"
  proof -
    have "p mod wc_chunk_bytes s < div_ceil (rel + cnt) (wc_block s) * wc_block s"
      using div_ceil_upper [OF assms(2), of "rel + cnt"] q(4) by linarith
    then show ?thesis by (simp add: less_mult_imp_div_less)
  qed
  ultimately have "cc_valid (wc_chunks s ! idx) ! ?b"
    using assms(1) by (simp add: piece_is_cached_def list_all_iff)
  then show ?thesis using assms(1) q(1) by (auto simp: cached_byte_def chunk_byte_def piece_is_cached_def)
qed

lemma range_cached_bytes:
  assumes "range_is_cached s off n" "0 < wc_block s" "0 < wc_chunk_bytes s" "off \<le> p" "p < off + n"
  shows "cached_byte contents s p \<noteq> None"
proof -
  let ?cb = "wc_chunk_bytes s"
  define P where "P = (\<lambda>don (ps :: (nat \<times> nat \<times> nat \<times> nat) list). list_all (\<lambda>(idx, relative, _, cnt).
      piece_is_cached (wc_block s) (wc_chunks s ! idx) relative cnt) ps \<longrightarrow>
      (\<forall>p. off + don \<le> p \<and> p < off + n \<longrightarrow> cached_byte contents s p \<noteq> None))"
  have "P 0 (cache_pieces ?cb off n 0)"
  proof (rule cache_pieces_induct [OF assms(3)])
    fix idx rel don cnt rest
    assume a: "rel + cnt \<le> ?cb" "off + don = idx * ?cb + rel" "P (don + cnt) rest"
    show "P don ((idx, rel, don, cnt) # rest)"
      unfolding P_def
    proof (intro impI allI)
      fix p
      assume l: "list_all (\<lambda>(idx, relative, _, cnt). piece_is_cached (wc_block s) (wc_chunks s ! idx) relative cnt)
          ((idx, rel, don, cnt) # rest)" and p: "off + don \<le> p \<and> p < off + n"
      show "cached_byte contents s p \<noteq> None"
      proof (cases "p < off + don + cnt")
        case True
        show ?thesis
          by (rule piece_cached_bytes [of s idx rel cnt p]) (use l a p True assms(2) in auto)
      next
        case False
        then show ?thesis using a(3) l p by (auto simp: P_def)
      qed
    qed
  qed (auto simp: P_def)
  then show ?thesis using assms(1,4,5) by (simp add: P_def range_is_cached_def)
qed

lemma sheds_cache_read: "cache_read_pieces mops ps s = (t, r) \<Longrightarrow> sheds contents good s t"
proof (induction ps arbitrary: s t r)
  case (Cons x ps)
  obtain idx rel don cnt where x: "x = (idx, rel, don, cnt)" by (metis surj_pair)
  show ?case
  proof (cases "\<exists>m bs. cc_mem (wc_chunks s ! idx) = Some m \<and> mo_read mops m rel cnt = Ok bs")
    case False
    then have "t = s" using Cons.prems x by (auto split: option.splits result.splits)
    then show ?thesis by simp
  next
    case True
    then obtain m bs where m: "cc_mem (wc_chunks s ! idx) = Some m" "mo_read mops m rel cnt = Ok bs" by blast
    obtain t' r' where r: "cache_read_pieces mops ps (touch_chunk idx s) = (t', r')" by fastforce
    then have "t = t'" using Cons.prems x m by (cases r') simp_all
    then show ?thesis using Cons.IH [OF r] sheds_trans [OF sheds_touch] by blast
  qed
qed simp

context vram_memory
begin

lemma cached_piece_read:
  assumes "cache_wf contents wf s" "idx < length (wc_chunks s)" "rel + cnt \<le> wc_chunk_bytes s"
    and "idx * wc_chunk_bytes s + rel + cnt \<le> length dat"
    and "cc_mem (wc_chunks s ! idx) = Some m" "mo_read ops m rel cnt = Ok bs"
    and "\<forall>p. idx * wc_chunk_bytes s + rel \<le> p \<and> p < idx * wc_chunk_bytes s + rel + cnt \<longrightarrow>
      cached_byte contents s p = Some (dat ! p)"
  shows "bs = read_range (idx * wc_chunk_bytes s + rel) cnt dat"
proof -
  let ?a = "idx * wc_chunk_bytes s + rel"
  have m: "wf m" "length (contents m) = wc_chunk_bytes s"
    using cache_wf_chunk [OF assms(1,2)] assms(5) by (auto simp: cache_chunk_wf_def)
  have bs: "bs = read_range rel cnt (contents m)" using mem_read [OF m(1) assms(6)] by simp
  show ?thesis
  proof (rule nth_equalityI)
    show "length bs = length (read_range ?a cnt dat)" using assms(3,4) m(2) bs by (simp add: store_simps)
    fix i assume "i < length bs"
    then have i: "i < cnt" using assms(3) m(2) bs by (simp add: store_simps)
    have q: "(?a + i) div wc_chunk_bytes s = idx" "(?a + i) mod wc_chunk_bytes s = rel + i"
      using piece_position [OF assms(3), of idx "?a + i"] i by auto
    have "cached_byte contents s (?a + i) = Some (dat ! (?a + i))" using assms(7) i by simp
    then have "contents m ! (rel + i) = dat ! (?a + i)"
      using assms(5) q by (auto simp: cached_byte_def chunk_byte_def split: if_splits)
    then show "bs ! i = read_range ?a cnt dat ! i"
      using bs i assms(3,4) m(2) by (simp add: store_simps)
  qed
qed

lemma cache_read_pieces_law:
  assumes "cache_wf contents wf s" "off + n \<le> wc_size s" "wc_size s \<le> length dat"
    and "\<forall>p. off \<le> p \<and> p < off + n \<longrightarrow> cached_byte contents s p = Some (dat ! p)"
    and "cache_read ops off n s = (t, Ok bs)"
  shows "bs = read_range off n dat"
proof -
  define cb where "cb = wc_chunk_bytes s"
  define P where "P = (\<lambda>don ps. \<forall>u t bs. wc_chunk_bytes u = cb \<longrightarrow> wc_size u = wc_size s \<longrightarrow>
      cache_wf contents wf u \<longrightarrow>
      (\<forall>p. off + don \<le> p \<and> p < off + n \<longrightarrow> cached_byte contents u p = Some (dat ! p)) \<longrightarrow>
      cache_read_pieces ops ps (u :: ('a, 'm, 'b) wt_cache) = (t, Ok bs) \<longrightarrow>
      bs = read_range (off + don) (n - don) dat)"
  have "0 < cb" using assms(1) by (simp add: cache_wf_def cache_geometry_def cb_def)
  then have "P 0 (cache_pieces cb off n 0)"
  proof (rule cache_pieces_induct)
    fix idx rel don cnt rest
    assume a: "don < n" "0 < cnt" "don + cnt \<le> n" "rel + cnt \<le> cb" "off + don = idx * cb + rel"
      and ih: "P (don + cnt) rest"
    show "P don ((idx, rel, don, cnt) # rest)"
      unfolding P_def
    proof (intro allI impI)
      fix u t :: "('a, 'm, 'b) wt_cache" and bs
      assume u: "wc_chunk_bytes u = cb" "wc_size u = wc_size s" "cache_wf contents wf u"
        and cached: "\<forall>p. off + don \<le> p \<and> p < off + n \<longrightarrow> cached_byte contents u p = Some (dat ! p)"
        and rd: "cache_read_pieces ops ((idx, rel, don, cnt) # rest) u = (t, Ok bs)"
      have "off + don < wc_size u" using a(1) assms(2) u(2) by simp
      from position_in_cache(1) [OF u(3) this] have idx: "idx < length (wc_chunks u)"
        using piece_position(1) [OF a(4), of idx "off + don"] a u(1) by simp
      obtain m front t' behind where m: "cc_mem (wc_chunks u ! idx) = Some m" "mo_read ops m rel cnt = Ok front"
        and r: "cache_read_pieces ops rest (touch_chunk idx u) = (t', Ok behind)" and bs: "bs = front @ behind"
        using rd by (auto split: option.splits result.splits prod.splits)
      have touch: "sheds contents wf u (touch_chunk idx u)" by (rule sheds_touch)
      then have "wc_chunk_bytes (touch_chunk idx u) = cb" "wc_size (touch_chunk idx u) = wc_size s"
        using sheds_same [OF touch] u by (simp_all add: wc_same_def)
      then have "behind = read_range (off + (don + cnt)) (n - (don + cnt)) dat"
        by (intro ih [unfolded P_def, rule_format, OF _ _ sheds_wf [OF touch u(3)] _ r])
          (use cached in \<open>simp_all add: touch_cached\<close>)
      moreover have "front = read_range (off + don) cnt dat"
        unfolding a(5) u(1) [symmetric]
      proof (rule cached_piece_read [OF u(3) idx _ _ m])
        show "rel + cnt \<le> wc_chunk_bytes u" "idx * wc_chunk_bytes u + rel + cnt \<le> length dat"
          using a(3-5) assms(2,3) u(1) by simp_all
        show "\<forall>p. idx * wc_chunk_bytes u + rel \<le> p \<and> p < idx * wc_chunk_bytes u + rel + cnt \<longrightarrow>
            cached_byte contents u p = Some (dat ! p)"
          using cached a(3,5) u(1) by simp
      qed
      ultimately show "bs = read_range (off + don) (n - don) dat"
        using bs read_range_add [of "off + don" cnt "n - (don + cnt)" dat] a(3) by (simp add: add.assoc)
    qed
  qed (simp_all add: P_def)
  then show ?thesis
    using assms(1,4) assms(5) [unfolded cache_read_def] unfolding P_def cb_def by simp
qed

end

subsection \<open>Refreshing copies\<close>

lemma fold_set_true:
  "length (fold (\<lambda>b vs. vs[b := True]) bs vs) = length vs"
  "i < length vs \<Longrightarrow> fold (\<lambda>b vs. vs[b := True]) bs vs ! i \<longleftrightarrow> vs ! i \<or> i \<in> set bs"
proof -
  have upd: "j < length xs \<Longrightarrow> xs[k := x] ! j = (if k = j then x else xs ! j)" for xs :: "bool list" and k j x by auto
  show "length (fold (\<lambda>b vs. vs[b := True]) bs vs) = length vs" by (induction bs arbitrary: vs) auto
  show "i < length vs \<Longrightarrow> fold (\<lambda>b vs. vs[b := True]) bs vs ! i \<longleftrightarrow> vs ! i \<or> i \<in> set bs"
    by (induction bs arbitrary: vs) (auto simp: upd)
qed

lemma mark_blocks_fields [simp]:
  "cc_mem (mark_blocks block rel n c) = cc_mem c"
  "length (cc_valid (mark_blocks block rel n c)) = length (cc_valid c)"
  "cc_validity_generation (mark_blocks block rel n c) = cc_generation (mark_blocks block rel n c)"
  by (simp_all add: mark_blocks_def Let_def fold_set_true)

lemma mark_blocks_valid:
  "b < length (cc_valid c) \<Longrightarrow> cc_valid (mark_blocks block rel n c) ! b \<longleftrightarrow>
     cc_validity_generation c = cc_generation c \<and> cc_valid c ! b \<or>
     div_ceil rel block \<le> b \<and> b < (rel + n) div block"
  by (auto simp: mark_blocks_def Let_def fold_set_true)

lemma covered_block:
  assumes "div_ceil rel block \<le> r div block" "r div block < (rel + n) div block" "0 < block"
  shows "rel \<le> r" "r < rel + n"
proof -
  have "rel \<le> r div block * block" using assms(1,3) by (simp add: div_ceil_le_iff)
  then show "rel \<le> r" using div_times_less_eq_dividend [of r block] by linarith
  have "Suc (r div block) * block \<le> (rel + n) div block * block" using assms(2) by (intro mult_le_mono1) simp
  then have "Suc (r div block) * block \<le> rel + n" using div_times_less_eq_dividend [of "rel + n" block] by linarith
  moreover have "r < Suc (r div block) * block" using assms(3) dividend_less_times_div [of block r] by (simp add: mult.commute)
  ultimately show "r < rel + n" by linarith
qed

lemma chunk_byte_mark:
  assumes "chunk_byte contents block (mark_blocks block rel n (c\<lparr>cc_mem := Some m'\<rparr>)) r = Some v"
    and "r div block < length (cc_valid c)" "0 < block" "cc_mem c = Some m"
  shows "v = contents m' ! r \<and> (chunk_byte contents block c r = Some (contents m ! r) \<or> rel \<le> r \<and> r < rel + n)"
  using assms covered_block [of rel block r n]
  by (auto simp: chunk_byte_def mark_blocks_valid split: if_splits)

lemma refreshed_chunk:
  assumes "cache_wf contents good s" "idx < length (wc_chunks s)" "rel + n \<le> wc_chunk_bytes s"
    and "cc_mem c = cc_mem (wc_chunks s ! idx) \<or> (\<exists>m. cc_mem c = Some m \<and> good m \<and> length (contents m) = wc_chunk_bytes s)"
    and "length (cc_valid c) = length (cc_valid (wc_chunks s ! idx))"
    and "coherent contents dat (idx * wc_chunk_bytes s + rel) hi s" "idx * wc_chunk_bytes s + rel + n \<le> hi"
    and byte: "\<And>r v. r < wc_chunk_bytes s \<Longrightarrow> r div wc_block s < length (cc_valid c) \<Longrightarrow>
      chunk_byte contents (wc_block s) c r = Some v \<Longrightarrow>
      (if rel \<le> r \<and> r < rel + n then v = dat ! (idx * wc_chunk_bytes s + r)
       else chunk_byte contents (wc_block s) (wc_chunks s ! idx) r = Some v)"
  shows "cache_wf contents good (set_cache_chunk idx c s)"
    and "coherent contents dat (idx * wc_chunk_bytes s + rel + n) hi (set_cache_chunk idx c s)"
proof -
  let ?cb = "wc_chunk_bytes s"
  show "cache_wf contents good (set_cache_chunk idx c s)"
    using assms(4,5) cache_wf_chunk [OF assms(1,2)]
    by (intro set_chunk_wf [OF assms(1,2)]) (auto simp: cache_chunk_wf_def)
  show "coherent contents dat (idx * ?cb + rel + n) hi (set_cache_chunk idx c s)"
    unfolding coherent_def
  proof (intro allI impI)
    fix p v
    assume p: "p < wc_size (set_cache_chunk idx c s)" "p < idx * ?cb + rel + n \<or> hi \<le> p"
      and v: "cached_byte contents (set_cache_chunk idx c s) p = Some v"
    have sz: "p < wc_size s" using p(1) by (simp add: set_cache_chunk_def)
    have old: "v = dat ! p" if "cached_byte contents s p = Some v" "p < idx * ?cb + rel \<or> hi \<le> p"
      using assms(6) that sz by (auto simp: coherent_def)
    have cb: "0 < ?cb" using assms(1) by (simp add: cache_wf_def cache_geometry_def)
    note q = position_in_cache [OF assms(1) sz]
    show "v = dat ! p"
    proof (cases "p div ?cb = idx")
      case False
      then have s: "cached_byte contents s p = Some v" using v assms(2) by (simp add: cached_byte_set)
      have "p < idx * ?cb + rel \<or> hi \<le> p"
      proof (rule ccontr)
        assume "\<not> (p < idx * ?cb + rel \<or> hi \<le> p)"
        then have "idx * ?cb + rel \<le> p" "p < idx * ?cb + rel + n" using p(2) by auto
        then show False using piece_position(1) [OF assms(3)] False by simp
      qed
      then show ?thesis using old s by blast
    next
      case True
      then have pp: "p = idx * ?cb + p mod ?cb" by (metis div_mult_mod_eq)
      have "chunk_byte contents (wc_block s) c (p mod ?cb) = Some v"
        using v assms(2) True by (simp add: cached_byte_set)
      from byte [OF _ _ this] cb q(2) True assms(5)
      have b: "if rel \<le> p mod ?cb \<and> p mod ?cb < rel + n then v = dat ! (idx * ?cb + p mod ?cb)
          else chunk_byte contents (wc_block s) (wc_chunks s ! idx) (p mod ?cb) = Some v" by simp
      show ?thesis
      proof (cases "rel \<le> p mod ?cb \<and> p mod ?cb < rel + n")
        case True
        then show ?thesis using b pp by simp
      next
        case False
        then have "cached_byte contents s p = Some v" using b True by (simp add: cached_byte_def)
        moreover have "p < idx * ?cb + rel \<or> hi \<le> p" using False p(2) pp by linarith
        ultimately show ?thesis using old by blast
      qed
    qed
  qed
qed

lemma coherent_count_tel [simp]:
  "coherent contents dat lo hi (count_tel u s) \<longleftrightarrow> coherent contents dat lo hi s"
  "cache_wf contents good (count_tel u s) \<longleftrightarrow> cache_wf contents good s"
  "wc_same s (count_tel u t) \<longleftrightarrow> wc_same s t"
  "wc_same (count_tel u s) t \<longleftrightarrow> wc_same s t"
  by (simp_all add: count_tel_def coherent_def cached_byte_def wc_same_def cache_wf_def cache_geometry_def cache_chunk_wf_def)

lemma coherent_clock [simp]:
  "coherent contents dat lo hi (s\<lparr>wc_access_clock := k\<rparr>) \<longleftrightarrow> coherent contents dat lo hi s"
  "cache_wf contents good (s\<lparr>wc_access_clock := k\<rparr>) \<longleftrightarrow> cache_wf contents good s"
  "wc_same s (t\<lparr>wc_access_clock := k\<rparr>) \<longleftrightarrow> wc_same s t"
  by (simp_all add: coherent_def cached_byte_def wc_same_def cache_wf_def cache_geometry_def cache_chunk_wf_def)

text \<open>The refresh of one chunk, as one replacement of the chunk.\<close>

lemma update_failed_eq:
  assumes "cc_mem (wc_chunks s ! idx) = Some m" "mo_write mops m rel bs = (m', Err e)" "idx < length (wc_chunks s)"
  shows "\<exists>u. update_cached_piece mops cr idx rel bs s =
    count_tel u (set_cache_chunk idx (invalidate ((wc_chunks s ! idx)\<lparr>cc_mem := Some m'\<rparr>)) s)"
  using assms
  by (intro exI [of _ "\<lambda>t. tl_invalidations_update (sat_bump 1) (tl_cache_write_failures_update (sat_bump 1) t)"])
    (simp add: update_cached_piece_def invalidate_chunk_def count_tel_def set_cache_chunk_def)

lemma update_done_eq:
  assumes "cc_mem (wc_chunks s ! idx) = Some m" "mo_write mops m rel bs = (m', Ok ())" "idx < length (wc_chunks s)"
  shows "\<exists>k. update_cached_piece mops cr idx rel bs s =
    (set_cache_chunk idx (mark_blocks (wc_block s) rel (length bs)
       ((wc_chunks s ! idx)\<lparr>cc_mem := Some m', cc_last_access := k\<rparr>)) s)\<lparr>wc_access_clock := k\<rparr>"
  using assms
  by (intro exI [of _ "sat_bump 1 (wc_access_clock s)"])
    (simp add: update_cached_piece_def mark_fully_covered_blocks_def touch_chunk_eq set_cache_chunk_def)

context vram_memory
begin

lemma update_piece_law:
  assumes "cache_wf contents wf s" "idx < length (wc_chunks s)" "rel + n \<le> wc_chunk_bytes s"
    and "idx * wc_chunk_bytes s + rel + n \<le> length dat" "idx * wc_chunk_bytes s + rel + n \<le> hi"
    and "bs = read_range (idx * wc_chunk_bytes s + rel) n dat"
    and "coherent contents dat (idx * wc_chunk_bytes s + rel) hi s"
    and t_def: "t = update_cached_piece ops cr idx rel bs s"
  shows "cache_wf contents wf t \<and> wc_same s t \<and> coherent contents dat (idx * wc_chunk_bytes s + rel + n) hi t"
proof (cases "cc_mem (wc_chunks s ! idx)")
  case None
  have "cache_wf contents wf (set_cache_chunk idx (wc_chunks s ! idx) s) \<and>
      coherent contents dat (idx * wc_chunk_bytes s + rel + n) hi (set_cache_chunk idx (wc_chunks s ! idx) s)"
    using refreshed_chunk [OF assms(1-3) _ _ assms(7,5), of "wc_chunks s ! idx"] None by (simp add: chunk_byte_def)
  moreover have "set_cache_chunk idx (wc_chunks s ! idx) s = s" by (simp add: set_cache_chunk_def)
  ultimately show ?thesis using None by (simp add: t_def update_cached_piece_def)
next
  case (Some m)
  let ?cb = "wc_chunk_bytes s"
  have m: "wf m" "length (contents m) = ?cb"
    using cache_wf_chunk [OF assms(1,2)] Some by (auto simp: cache_chunk_wf_def)
  have len: "length bs = n" using assms(4,6) by (simp add: store_simps)
  obtain m' w where w: "mo_write ops m rel bs = (m', w)" by fastforce
  note law = mem_write [OF m(1) w] and l' = mem_write_length [OF m(1) w]
  show ?thesis
  proof (cases w)
    case (Err e)
    let ?c = "invalidate ((wc_chunks s ! idx)\<lparr>cc_mem := Some m'\<rparr>)"
    obtain u where "t = count_tel u (set_cache_chunk idx ?c s)"
      using update_failed_eq [OF Some w [unfolded Err] assms(2)] unfolding t_def by blast
    then show ?thesis
      using refreshed_chunk [OF assms(1-3) _ _ assms(7,5), of ?c] law l' m(2) by simp
  next
    case (Ok x)
    then have wr: "contents m' = write_range rel bs (contents m)" "w = Ok ()" using law by auto
    obtain k where t: "t = (set_cache_chunk idx (mark_blocks (wc_block s) rel n
        ((wc_chunks s ! idx)\<lparr>cc_mem := Some m', cc_last_access := k\<rparr>)) s)\<lparr>wc_access_clock := k\<rparr>"
      using update_done_eq [OF Some w [unfolded wr(2)] assms(2)] len unfolding t_def by blast
    let ?c0 = "(wc_chunks s ! idx)\<lparr>cc_last_access := k\<rparr>"
    let ?c = "mark_blocks (wc_block s) rel n (?c0\<lparr>cc_mem := Some m'\<rparr>)"
    have "if rel \<le> r \<and> r < rel + n then v = dat ! (idx * ?cb + r)
        else chunk_byte contents (wc_block s) (wc_chunks s ! idx) r = Some v"
      if "r < ?cb" "r div wc_block s < length (cc_valid ?c)" "chunk_byte contents (wc_block s) ?c r = Some v" for r v
    proof -
      have "0 < wc_block s" using assms(1) by (simp add: cache_wf_def cache_geometry_def)
      with chunk_byte_mark [OF that(3), of m] that(2) Some
      have v: "v = contents m' ! r" "chunk_byte contents (wc_block s) (wc_chunks s ! idx) r = Some (contents m ! r) \<or>
          rel \<le> r \<and> r < rel + n" by simp_all
      have "contents m' ! r = (if rel \<le> r \<and> r < rel + n then bs ! (r - rel) else contents m ! r)"
        using wr(1) assms(3) len m(2) that(1) by (simp add: store_simps)
      moreover have "bs ! (r - rel) = dat ! (idx * ?cb + r)" if "rel \<le> r" "r < rel + n"
        using that assms(4,6) by (simp add: store_simps)
      ultimately show ?thesis using v by auto
    qed
    then have "cache_wf contents wf (set_cache_chunk idx ?c s)"
      "coherent contents dat (idx * ?cb + rel + n) hi (set_cache_chunk idx ?c s)"
      using refreshed_chunk [OF assms(1-3) _ _ assms(7,5), of ?c] law l' m(2) by simp_all
    moreover have "?c = mark_blocks (wc_block s) rel n ((wc_chunks s ! idx)\<lparr>cc_mem := Some m', cc_last_access := k\<rparr>)"
      by (cases "wc_chunks s ! idx") simp
    ultimately show ?thesis unfolding t by simp
  qed
qed

end

lemma coherent_weaken: "coherent contents dat 0 0 s \<Longrightarrow> coherent contents dat lo hi s"
  by (simp add: coherent_def)

lemma coherent_closed: "coherent contents dat a a s \<Longrightarrow> coherent contents dat 0 0 s"
  using linorder_not_less by (auto simp: coherent_def)

context vram_memory
begin

lemma update_cached_law:
  assumes "cache_wf contents wf s" "off + length bs \<le> wc_size s" "wc_size s \<le> length dat"
    and "bs = read_range off (length bs) dat" "coherent contents dat off (off + length bs) s"
    and "t = update_cached_chunks ops off bs cr s"
  shows "cache_wf contents wf t \<and> wc_same s t \<and> coherent contents dat 0 0 t"
proof -
  define cb where "cb = wc_chunk_bytes s"
  define n where "n = length bs"
  define P where "P = (\<lambda>don ps. \<forall>u :: ('a, 'm, 'b) wt_cache. wc_same s u \<longrightarrow> cache_wf contents wf u \<longrightarrow>
      coherent contents dat (off + don) (off + n) u \<longrightarrow>
      cache_wf contents wf (update_pieces ops cr bs ps u) \<and> wc_same s (update_pieces ops cr bs ps u) \<and>
      coherent contents dat (off + n) (off + n) (update_pieces ops cr bs ps u))"
  have "0 < cb" using assms(1) by (simp add: cache_wf_def cache_geometry_def cb_def)
  then have "P 0 (cache_pieces cb off n 0)"
  proof (rule cache_pieces_induct)
    fix idx rel don cnt rest
    assume a: "don < n" "0 < cnt" "don + cnt \<le> n" "rel + cnt \<le> cb" "off + don = idx * cb + rel"
      and ih: "P (don + cnt) rest"
    show "P don ((idx, rel, don, cnt) # rest)"
      unfolding P_def
    proof (intro allI impI)
      fix u :: "('a, 'm, 'b) wt_cache"
      assume u: "wc_same s u" "cache_wf contents wf u" "coherent contents dat (off + don) (off + n) u"
      have ucb: "wc_chunk_bytes u = cb" "wc_size u = wc_size s" using u(1) by (simp_all add: wc_same_def cb_def)
      have "off + don < wc_size u" using a(1) assms(2) ucb(2) n_def by simp
      from position_in_cache(1) [OF u(2) this] have idx: "idx < length (wc_chunks u)"
        using piece_position(1) [OF a(4), of idx "off + don"] a ucb(1) by simp
      have "read_range don cnt bs = read_range (off + don) cnt dat"
        using read_range_read_range [of don cnt n off dat] a(3) assms(4) n_def by metis
      then have bs: "read_range don cnt bs = read_range (idx * wc_chunk_bytes u + rel) cnt dat"
        using a(5) ucb(1) by simp
      let ?v = "update_cached_piece ops cr idx rel (read_range don cnt bs) u"
      have "cache_wf contents wf ?v \<and> wc_same u ?v \<and> coherent contents dat (off + (don + cnt)) (off + n) ?v"
        using update_piece_law [OF u(2) idx _ _ _ bs _ refl, of "off + n" cr] a ucb u(3) assms(2,3) n_def
        by (simp add: add.assoc [symmetric])
      then have "P (don + cnt) rest \<longrightarrow> cache_wf contents wf (update_pieces ops cr bs rest ?v) \<and>
          wc_same s (update_pieces ops cr bs rest ?v) \<and>
          coherent contents dat (off + n) (off + n) (update_pieces ops cr bs rest ?v)"
        using wc_same_trans [OF u(1)] unfolding P_def by blast
      then show "cache_wf contents wf (update_pieces ops cr bs ((idx, rel, don, cnt) # rest) u) \<and>
          wc_same s (update_pieces ops cr bs ((idx, rel, don, cnt) # rest) u) \<and>
          coherent contents dat (off + n) (off + n) (update_pieces ops cr bs ((idx, rel, don, cnt) # rest) u)"
        using ih by simp
    qed
  qed (simp_all add: P_def)
  then have "cache_wf contents wf t \<and> wc_same s t \<and> coherent contents dat (off + n) (off + n) t"
    using assms(1,5,6) unfolding P_def update_cached_chunks_def cb_def n_def by simp
  then show ?thesis using coherent_closed by blast
qed

end

subsection \<open>The cache over an origin\<close>

definition wc_conf :: "('p, 'm, 'o) wt_cache \<Rightarrow> ('p, 'm, 'o) wt_cache \<Rightarrow> bool" where
  "wc_conf s t \<longleftrightarrow> wc_size t = wc_size s \<and> wc_block t = wc_block s \<and> wc_chunk_bytes t = wc_chunk_bytes s"

lemma wc_same_conf: "wc_same s t \<Longrightarrow> wc_conf s t"
  by (simp add: wc_same_def wc_conf_def)

lemma wc_conf_trans: "wc_conf s t \<Longrightarrow> wc_conf t u \<Longrightarrow> wc_conf s u"
  by (simp add: wc_conf_def)

text \<open>The invariant, in three layers: shape, copies that agree with the origin, and a clean flag that
  means durable.\<close>

definition cache_base ::
  "('m \<Rightarrow> byte list) \<Rightarrow> ('m \<Rightarrow> bool) \<Rightarrow> ('o \<Rightarrow> byte list) \<Rightarrow> ('p, 'm, 'o) wt_cache \<Rightarrow> bool" where
  "cache_base contents good dat s \<longleftrightarrow> cache_wf contents good s \<and> wc_size s \<le> length (dat (wc_origin s))"

definition cache_coherent ::
  "('m \<Rightarrow> byte list) \<Rightarrow> ('o \<Rightarrow> byte list) \<Rightarrow> ('p, 'm, 'o) wt_cache \<Rightarrow> bool" where
  "cache_coherent contents dat s \<longleftrightarrow> coherent contents (dat (wc_origin s)) 0 0 s"

definition cache_synced ::
  "('o \<Rightarrow> byte list) \<Rightarrow> ('o \<Rightarrow> byte list) \<Rightarrow> ('p, 'm, 'o) wt_cache \<Rightarrow> bool" where
  "cache_synced dat dur s \<longleftrightarrow>
     (wc_origin_state s = OrReady \<longrightarrow> \<not> wc_origin_dirty s \<longrightarrow> dur (wc_origin s) = dat (wc_origin s))"

definition cache_disk :: "('o \<Rightarrow> byte list) \<Rightarrow> ('p, 'm, 'o) wt_cache \<Rightarrow> byte list" where
  "cache_disk dat s = take (wc_size s) (dat (wc_origin s))"

lemmas cache_layers = cache_base_def cache_coherent_def cache_synced_def cache_disk_def

text \<open>A step that drops copies keeps all layers and the disk.\<close>

lemma sheds_layers:
  assumes "sheds contents good s t" "cache_base contents good dat s"
  shows "cache_base contents good dat t \<and> wc_conf s t \<and> cache_disk dat t = cache_disk dat s \<and>
    (cache_coherent contents dat s \<longrightarrow> cache_coherent contents dat t) \<and>
    (cache_synced dat dur s \<longrightarrow> cache_synced dat dur t)"
  using assms sheds_coherent [OF assms(1), of "dat (wc_origin s)" 0 0] wc_same_conf [OF sheds_same [OF assms(1)]]
  by (simp add: cache_layers sheds_def wc_same_def)

text \<open>Replacing the origin, its dirty flag and its state.\<close>

lemma cache_wf_origin [simp]:
  "cache_wf contents good (s\<lparr>wc_origin := g\<rparr>) \<longleftrightarrow> cache_wf contents good s"
  "cache_wf contents good (s\<lparr>wc_origin_dirty := d\<rparr>) \<longleftrightarrow> cache_wf contents good s"
  "cache_wf contents good (mark_origin_failed s) \<longleftrightarrow> cache_wf contents good s"
  by (simp_all add: cache_wf_def cache_geometry_def cache_chunk_wf_def mark_origin_failed_def)

lemma coherent_origin [simp]:
  "coherent contents d lo hi (s\<lparr>wc_origin := g\<rparr>) \<longleftrightarrow> coherent contents d lo hi s"
  "coherent contents d lo hi (s\<lparr>wc_origin_dirty := b\<rparr>) \<longleftrightarrow> coherent contents d lo hi s"
  "coherent contents d lo hi (mark_origin_failed s) \<longleftrightarrow> coherent contents d lo hi s"
  by (simp_all add: coherent_def cached_byte_def mark_origin_failed_def)

lemma mark_origin_failed_fields [simp]:
  "wc_origin (mark_origin_failed s) = wc_origin s" "wc_size (mark_origin_failed s) = wc_size s"
  "wc_block (mark_origin_failed s) = wc_block s" "wc_chunk_bytes (mark_origin_failed s) = wc_chunk_bytes s"
  "wc_origin_state (mark_origin_failed s) = OrFailed"
  by (simp_all add: mark_origin_failed_def)

lemma count_tel_fields [simp]:
  "wc_origin (count_tel u s) = wc_origin s" "wc_size (count_tel u s) = wc_size s"
  "wc_block (count_tel u s) = wc_block s" "wc_chunk_bytes (count_tel u s) = wc_chunk_bytes s"
  "wc_origin_state (count_tel u s) = wc_origin_state s" "wc_origin_dirty (count_tel u s) = wc_origin_dirty s"
  by (simp_all add: count_tel_def)

locale cached_origin =
  vram_provider "ce_mem env" contents wf "ce_prov env" + origin_storage "ce_origin env" data durable
  for env :: "('p, 'm, 'o) cache_env" and contents wf data durable
begin

lemma write_origin_law:
  assumes "cache_base contents wf data s" "off + length bs \<le> wc_size s" "write_origin env off bs s = (t, r)"
  shows "cache_base contents wf data t \<and> wc_conf s t \<and>
    agree_outside off (length bs) (data (wc_origin s)) (data (wc_origin t)) \<and>
    (cache_coherent contents data s \<longrightarrow> coherent contents (data (wc_origin t)) off (off + length bs) t) \<and>
    (r = Ok () \<longrightarrow> data (wc_origin t) = write_range off bs (data (wc_origin s)) \<and> wc_origin_dirty t \<and>
       wc_origin_state t = wc_origin_state s) \<and>
    (r \<noteq> Ok () \<longrightarrow> wc_origin_state t = OrFailed \<and> (cache_coherent contents data s \<longrightarrow> cache_coherent contents data t))"
proof -
  obtain g w where w: "write_all_at (ce_origin env) (wc_origin s) off bs = (g, w)" by fastforce
  have b: "cache_wf contents wf s" "wc_size s \<le> length (data (wc_origin s))"
    using assms(1) by (simp_all add: cache_base_def)
  have law: "agree_outside off (length bs) (data (wc_origin s)) (data g)"
    "w = Ok () \<Longrightarrow> data g = write_range off bs (data (wc_origin s))"
    using write_all_law [OF _ w] assms(2) b(2) by auto
  have len: "length (data g) = length (data (wc_origin s))" using law(1) by (simp add: agree_outside_def)
  have pending: "coherent contents (data g) off (off + length bs) s" if "cache_coherent contents data s"
    using that law(1) b(2) by (auto simp: cache_coherent_def coherent_def agree_outside_def)
  show ?thesis
  proof (cases w)
    case (Ok u)
    then have "t = count_tel (tl_origin_written_bytes_update (sat_bump (length bs))) (s\<lparr>wc_origin := g, wc_origin_dirty := True\<rparr>)"
      "r = Ok ()" using assms(3) w by (simp_all add: write_origin_def)
    then show ?thesis using law Ok len b pending by (simp add: cache_base_def wc_conf_def)
  next
    case (Err e)
    let ?s1 = "s\<lparr>wc_origin := g\<rparr>"
    let ?s2 = "invalidate_cached_range off (length bs) ?s1"
    have t: "t = mark_origin_failed ?s2" "r = Err e" using assms(3) w Err by (simp_all add: write_origin_def)
    note inv = invalidate_range_law [of contents wf ?s1 off "length bs"]
    have sh: "sheds contents wf ?s1 ?s2" using inv(1) b assms(2) by simp
    have full: "coherent contents (data g) 0 0 ?s2" if c: "cache_coherent contents data s"
      unfolding coherent_def
    proof (intro allI impI)
      fix p v assume p: "p < wc_size ?s2" "cached_byte contents ?s2 p = Some v"
      show "v = data g ! p"
      proof (cases "off \<le> p \<and> p < off + length bs")
        case True
        then show ?thesis using p(2) inv(2) [of p] b assms(2) by simp
      next
        case False
        moreover have "coherent contents (data g) off (off + length bs) ?s2"
          using sheds_coherent [OF sh] b(1) pending [OF c] by simp
        ultimately show ?thesis using p by (auto simp: coherent_def)
      qed
    qed
    have "cache_wf contents wf ?s2" "wc_same ?s1 ?s2" using sh b(1) by (simp_all add: sheds_def)
    then show ?thesis
      using t law(1) len b full coherent_weaken [OF full] by (simp add: cache_layers wc_same_def wc_conf_def)
  qed
qed

lemma sync_dirty_law:
  assumes "cache_base contents wf data s" "sync_dirty_origin env s = (t, r)"
  shows "cache_base contents wf data t \<and> wc_conf s t \<and> length (data (wc_origin t)) = length (data (wc_origin s)) \<and>
    (r = Ok () \<longrightarrow> data (wc_origin t) = data (wc_origin s) \<and> \<not> wc_origin_dirty t \<and>
       wc_origin_state t = wc_origin_state s \<and>
       (wc_origin_dirty s \<longrightarrow> durable (wc_origin t) = data (wc_origin t)) \<and>
       (\<not> wc_origin_dirty s \<longrightarrow> t = s) \<and>
       (\<forall>d lo hi. coherent contents d lo hi s \<longrightarrow> coherent contents d lo hi t)) \<and>
    (r \<noteq> Ok () \<longrightarrow> wc_origin_state t = OrFailed \<and> cache_coherent contents data t)"
proof (cases "wc_origin_dirty s")
  case False
  then show ?thesis using assms by (simp add: sync_dirty_origin_def wc_conf_def)
next
  case True
  obtain g u where u: "os_sync_data (ce_origin env) (wc_origin s) = (g, u)" by fastforce
  note law = os_sync [OF u]
  have b: "cache_wf contents wf s" "wc_size s \<le> length (data (wc_origin s))"
    using assms(1) by (simp_all add: cache_base_def)
  show ?thesis
  proof (cases u)
    case (Ok x)
    then have "t = count_tel (tl_origin_syncs_update (sat_bump 1)) (s\<lparr>wc_origin := g, wc_origin_dirty := False\<rparr>)"
      "r = Ok ()" using assms(2) u True by (simp_all add: sync_dirty_origin_def)
    then show ?thesis using law Ok b True by (simp add: cache_base_def wc_conf_def)
  next
    case (Err e)
    let ?s1 = "s\<lparr>wc_origin := g\<rparr>"
    let ?s2 = "invalidate_all_cached ?s1"
    have t: "t = mark_origin_failed ?s2" "r = Err e" using assms(2) u Err True by (simp_all add: sync_dirty_origin_def)
    note inv = invalidate_all_law [of contents wf ?s1]
    have sh: "cache_wf contents wf ?s2" "wc_same ?s1 ?s2" using inv(1) b(1) by (simp_all add: sheds_def)
    have "coherent contents (data g) 0 0 ?s2"
      using inv(2) b(1) sh(2) by (auto simp: coherent_def wc_same_def)
    then show ?thesis using t sh law b by (simp add: cache_layers wc_same_def wc_conf_def)
  qed
qed

end

text \<open>Some array agrees with the copies outside a range and holds given bytes in it.\<close>

lemma coherent_some:
  "off + length bs \<le> wc_size s \<Longrightarrow>
   \<exists>d. length d = wc_size s \<and> read_range off (length bs) d = bs \<and> coherent contents d off (off + length bs) s"
proof
  assume le: "off + length bs \<le> wc_size s"
  let ?d = "map (\<lambda>p. if off \<le> p \<and> p < off + length bs then bs ! (p - off) else the (cached_byte contents s p)) [0..<wc_size s]"
  have "read_range off (length bs) ?d = bs"
    by (rule nth_equalityI) (use le in \<open>simp_all add: store_simps\<close>)
  moreover have "coherent contents ?d off (off + length bs) s" by (auto simp: coherent_def)
  ultimately show "length ?d = wc_size s \<and> read_range off (length bs) ?d = bs \<and> coherent contents ?d off (off + length bs) s"
    by simp
qed

lemma wc_write_accepted:
  assumes "check_range s off (length bs) = Ok ()" "wc_origin_state s = OrReady" "bs \<noteq> []"
    and "write_origin env off bs s = (s1, w)"
  shows "wc_write_at_with_options env s off bs opt =
    (case w of
       Err e \<Rightarrow> (s1, Err e)
     | Ok _ \<Rightarrow>
         if wo_fua opt then
           (case sync_dirty_origin env s1 of
              (s2, Err e) \<Rightarrow> (s2, Err e)
            | (s2, Ok _) \<Rightarrow> (update_cached_chunks (ce_mem env) off bs False s2, Ok ()))
         else (update_cached_chunks (ce_mem env) off bs False (count_tel (tl_batched_writes_update (sat_bump 1)) s1), Ok ()))"
  using assms
  by (cases "wo_fua opt"; cases w)
    (simp_all add: wc_write_at_with_options_def wc_write_at_def require_ready_origin_def)

context cached_origin
begin

lemma update_cached_base:
  assumes "cache_wf contents wf s" "off + length bs \<le> wc_size s" "t = update_cached_chunks (ce_mem env) off bs cr s"
  shows "cache_wf contents wf t \<and> wc_same s t"
proof -
  obtain d where "length d = wc_size s" "read_range off (length bs) d = bs" "coherent contents d off (off + length bs) s"
    using coherent_some [OF assms(2)] by blast
  then show ?thesis using update_cached_law [OF assms(1,2) _ _ _ assms(3), of d] by simp
qed


lemma fallback_read_law:
  assumes "cache_base contents wf data s" "off + n \<le> wc_size s" "fallback_read env off n s = (t, res)"
  shows "cache_base contents wf data t \<and> wc_conf s t \<and> data (wc_origin t) = data (wc_origin s) \<and>
    (cache_coherent contents data s \<longrightarrow> cache_coherent contents data t) \<and>
    (cache_synced data durable s \<longrightarrow> cache_synced data durable t) \<and>
    (\<forall>bs. res = Ok bs \<longrightarrow> bs = read_range off n (data (wc_origin s)))"
proof -
  obtain g r where r: "read_exact_at (ce_origin env) (wc_origin s) off n = (g, r)" by fastforce
  have b: "cache_wf contents wf s" "wc_size s \<le> length (data (wc_origin s))"
    using assms(1) by (simp_all add: cache_base_def)
  have law: "data g = data (wc_origin s)" "durable g = durable (wc_origin s)"
    "\<And>bs. r = Ok bs \<Longrightarrow> bs = read_range off n (data (wc_origin s))"
    using read_exact_law [OF _ r] assms(2) b(2) by auto
  show ?thesis
  proof (cases r)
    case (Err e)
    then have "t = mark_origin_failed (s\<lparr>wc_origin := g\<rparr>)" "res = Err e"
      using assms(3) r by (simp_all add: fallback_read_def)
    then show ?thesis using law b by (simp add: cache_layers wc_conf_def)
  next
    case (Ok bs)
    let ?s1 = "count_tel (tl_fallback_reads_update (sat_bump 1)) (s\<lparr>wc_origin := g\<rparr>)"
    have res: "res = Ok bs" using assms(3) r Ok by (simp add: fallback_read_def Let_def)
    have bs: "bs = read_range off n (data g)" "length bs = n"
      using law(1) law(3) [OF Ok] assms(2) b(2) by (simp_all add: store_simps)
    show ?thesis
    proof (cases "cached_bytes ?s1 \<le> wc_target_bytes ?s1")
      case False
      then have "t = count_tel (tl_promotion_refusals_update (sat_bump 1)) ?s1"
        using assms(3) r Ok by (simp add: fallback_read_def Let_def)
      then show ?thesis using law b res Ok by (simp add: cache_layers wc_conf_def)
    next
      case True
      then have t: "t = update_cached_chunks (ce_mem env) off bs True ?s1"
        using assms(3) r Ok by (simp add: fallback_read_def Let_def)
      have up: "cache_wf contents wf t" "wc_same ?s1 t"
        using update_cached_base [OF _ _ t] b bs(2) assms(2) by simp_all
      have "cache_coherent contents data t" if "cache_coherent contents data s"
      proof -
        have "coherent contents (data g) 0 0 t"
          using update_cached_law [OF _ _ _ _ _ t, of "data g"] that b law(1) bs assms(2)
          by (simp add: cache_coherent_def coherent_weaken)
        then show ?thesis using up(2) by (simp add: cache_coherent_def wc_same_def)
      qed
      then show ?thesis using up law b res Ok by (simp add: cache_base_def cache_synced_def wc_same_def wc_conf_def)
    qed
  qed
qed

lemma wc_read_law:
  assumes "cache_base contents wf data s" "wc_read_at env s off n = (t, res)"
  shows "cache_base contents wf data t \<and> wc_conf s t \<and> data (wc_origin t) = data (wc_origin s) \<and>
    (cache_synced data durable s \<longrightarrow> cache_synced data durable t) \<and>
    (cache_coherent contents data s \<longrightarrow> cache_coherent contents data t \<and>
      (\<forall>bs. res = Ok bs \<longrightarrow> bs = read_range off n (data (wc_origin s))))"
proof (cases "check_range s off n = Ok () \<and> wc_origin_state s = OrReady \<and> n \<noteq> 0")
  case False
  then have "t = s" "\<forall>bs. res = Ok bs \<longrightarrow> bs = [] \<and> n = 0"
    using assms(2) by (auto simp: wc_read_at_def require_ready_origin_def split: result.splits if_splits)
  then show ?thesis using assms(1) by (auto simp: wc_conf_def)
next
  case True
  then have le: "off + n \<le> wc_size s"
    by (auto simp: check_range_def checked_add_def split: option.splits if_splits)
  have b: "cache_wf contents wf s" "wc_size s \<le> length (data (wc_origin s))"
    using assms(1) by (simp_all add: cache_base_def)
  show ?thesis
  proof (cases "range_is_cached s off n")
    case False
    then have "fallback_read env off n s = (t, res)"
      using assms(2) True by (simp add: wc_read_at_def require_ready_origin_def)
    from fallback_read_law [OF assms(1) le this] show ?thesis by blast
  next
    case cached: True
    obtain s1 r where r: "cache_read (ce_mem env) off n s = (s1, r)" by fastforce
    have sh: "sheds contents wf s s1" using sheds_cache_read r unfolding cache_read_def by blast
    note lay = sheds_layers [OF sh assms(1), of durable]
    show ?thesis
    proof (cases r)
      case (Ok bs)
      have t: "t = count_tel (tl_cache_read_bytes_update (sat_bump n)) s1" "res = Ok bs"
        using assms(2) True cached r Ok by (simp_all add: wc_read_at_def require_ready_origin_def)
      have "bs = read_range off n (data (wc_origin s))" if coh: "cache_coherent contents data s"
      proof (rule cache_read_pieces_law [OF b(1) le b(2) _ r [unfolded Ok]], intro allI impI)
        fix p assume p: "off \<le> p \<and> p < off + n"
        then obtain v where "cached_byte contents s p = Some v"
          using range_cached_bytes [OF cached, of p contents] b(1) by (auto simp: cache_wf_def cache_geometry_def)
        then show "cached_byte contents s p = Some (data (wc_origin s) ! p)"
          using coh p le by (auto simp: cache_coherent_def coherent_def)
      qed
      moreover have "sheds contents wf s t" using sh t(1) by simp
      ultimately show ?thesis using sheds_layers [OF _ assms(1), of t durable] sheds_same [of contents wf s t] t(2)
        by (auto simp: wc_same_def)
    next
      case (Err idx)
      let ?s2 = "invalidate_chunk idx (count_tel (tl_cache_read_failures_update (sat_bump 1)) s1)"
      have "sheds contents wf s ?s2" by (rule sheds_trans [OF _ sheds_invalidate]) (simp add: sh)
      note lay = sheds_layers [OF this assms(1), of durable] and same = sheds_same [OF this]
      have fb: "fallback_read env off n ?s2 = (t, res)"
        using assms(2) True cached r Err by (simp add: wc_read_at_def require_ready_origin_def)
      have "off + n \<le> wc_size ?s2" using le same by (simp add: wc_same_def)
      from fallback_read_law [OF _ this fb] lay same show ?thesis
        by (auto simp: wc_same_def intro: wc_conf_trans)
    qed
  qed
qed

lemma wc_write_law:
  assumes "cache_base contents wf data s" "wc_write_at_with_options env s off bs opt = (t, r)"
  shows "cache_base contents wf data t \<and> wc_conf s t \<and>
    length (data (wc_origin t)) = length (data (wc_origin s)) \<and>
    (cache_coherent contents data s \<longrightarrow> cache_coherent contents data t) \<and>
    (cache_synced data durable s \<longrightarrow> cache_synced data durable t \<and>
       (r = Ok () \<longrightarrow> wo_fua opt \<longrightarrow> bs \<noteq> [] \<longrightarrow> durable (wc_origin t) = data (wc_origin t))) \<and>
    (r = Ok () \<longrightarrow> data (wc_origin t) = write_range off bs (data (wc_origin s))) \<and>
    (\<not> wo_fua opt \<longrightarrow> agree_outside off (length bs) (data (wc_origin s)) (data (wc_origin t)))"
proof (cases "check_range s off (length bs) = Ok () \<and> wc_origin_state s = OrReady \<and> bs \<noteq> []")
  case False
  then have "t = s" "r = Ok () \<longrightarrow> bs = []"
    using assms(2) by (auto simp: wc_write_at_with_options_def wc_write_at_def require_ready_origin_def
        split: result.splits if_splits)
  then show ?thesis using assms(1) by (auto simp: wc_conf_def)
next
  case True
  then have le: "off + length bs \<le> wc_size s"
    by (auto simp: check_range_def checked_add_def split: option.splits if_splits)
  obtain s1 w where w: "write_origin env off bs s = (s1, w)" by fastforce
  note wl = write_origin_law [OF assms(1) le w]
  note eq = assms(2) [unfolded wc_write_accepted [OF conjunct1 [OF True] conjunct1 [OF conjunct2 [OF True]]
        conjunct2 [OF conjunct2 [OF True]] w]]
  have b1: "cache_base contents wf data s1" "wc_conf s s1" using wl by blast+
  show ?thesis
  proof (cases w)
    case (Err e)
    then have "t = s1" "r = Err e" using eq by simp_all
    then show ?thesis using wl Err by (auto simp: cache_synced_def agree_outside_def)
  next
    case (Ok u)
    have d: "data (wc_origin s1) = write_range off bs (data (wc_origin s))" "wc_origin_dirty s1"
      "wc_origin_state s1 = OrReady" using wl Ok True by auto
    have sz: "wc_size s1 = wc_size s" "wc_size s \<le> length (data (wc_origin s))" "cache_wf contents wf s1"
      "wc_size s1 \<le> length (data (wc_origin s1))"
      using b1 assms(1) by (auto simp: wc_conf_def cache_base_def)
    have bs: "bs = read_range off (length bs) (data (wc_origin s1))"
      using d(1) le sz(2) by (simp add: read_range_write_range_same)
    have len: "length (data (wc_origin s1)) = length (data (wc_origin s))"
      using d(1) le sz(2) by (simp add: store_simps)
    have agree: "agree_outside off (length bs) (data (wc_origin s)) (data (wc_origin s1))" using wl by blast
    have pending: "cache_coherent contents data s \<longrightarrow> coherent contents (data (wc_origin s1)) off (off + length bs) s1"
      using wl by blast
    show ?thesis
    proof (cases "wo_fua opt")
      case False
      let ?s2 = "count_tel (tl_batched_writes_update (sat_bump 1)) s1"
      have t: "t = update_cached_chunks (ce_mem env) off bs False ?s2" "r = Ok ()" using eq Ok False by simp_all
      have "cache_wf contents wf t" "wc_same s1 t"
        using update_cached_base [OF _ _ t(1)] sz le by simp_all
      moreover have "coherent contents (data (wc_origin s1)) 0 0 t" if "cache_coherent contents data s"
        using update_cached_law [OF _ _ _ bs _ t(1)] sz le pending that by simp
      ultimately show ?thesis
        using t(2) d agree len sz wc_conf_trans [OF b1(2) wc_same_conf] False
        by (simp add: cache_layers wc_same_def)
    next
      case fua: True
      obtain s2 y where y: "sync_dirty_origin env s1 = (s2, y)" by fastforce
      note yl = sync_dirty_law [OF b1(1) y]
      have c2: "wc_conf s s2" using wc_conf_trans [OF b1(2)] yl by blast
      show ?thesis
      proof (cases y)
        case (Err e)
        then have "t = s2" "r = Err e" using eq Ok fua y by simp_all
        then show ?thesis using yl Err c2 len fua by (simp add: cache_synced_def)
      next
        case (Ok x)
        have t: "t = update_cached_chunks (ce_mem env) off bs False s2" "r = Ok ()"
          using eq \<open>w = Ok u\<close> Ok fua y by simp_all
        have e2: "data (wc_origin s2) = data (wc_origin s1)" "durable (wc_origin s2) = data (wc_origin s2)"
          "cache_wf contents wf s2" "wc_size s2 = wc_size s"
          using yl Ok d(2) c2 by (auto simp: cache_base_def wc_conf_def)
        have up: "cache_wf contents wf t" "wc_same s2 t"
          using update_cached_base [OF _ _ t(1)] e2 le by simp_all
        have "coherent contents (data (wc_origin s2)) 0 0 t" if "cache_coherent contents data s"
          using update_cached_law [OF e2(3) _ _ _ _ t(1), of "data (wc_origin s2)"] sz e2 le pending that bs yl Ok
          by simp
        then show ?thesis
          using t(2) d len sz up e2 wc_conf_trans [OF c2 wc_same_conf [OF up(2)]] fua
          by (simp add: cache_layers wc_same_def)
      qed
    qed
  qed
qed

end

subsection \<open>Policy steps drop copies\<close>

lemma sheds_quiet [simp]:
  "sheds contents good s (t\<lparr>wc_restricted_samples := n\<rparr>) \<longleftrightarrow> sheds contents good s t"
  "sheds contents good s (t\<lparr>wc_cache_state := k\<rparr>) \<longleftrightarrow> sheds contents good s t"
  by (simp_all add: sheds_def wc_same_def cache_wf_def cache_geometry_def cache_chunk_wf_def cached_byte_def)

lemma sheds_note_sample: "sheds contents good s (note_sample sample restricted s)"
  by (rule sheds_frame) (simp_all add: note_sample_def wc_same_def)

lemma sheds_reclaim: "sheds contents good s (fst (reclaim_step target restricted s))"
  by (simp add: reclaim_step_def case_prod_beta Let_def sheds_release_lru)

lemma sheds_stuck: "sheds contents good s (stuck_step target now s)"
  by (rule sheds_frame) (simp_all add: stuck_step_def wc_same_def Let_def)

lemma sheds_release_cache: "sheds contents good s (fst (release_cache s))"
  by (simp add: release_cache_def case_prod_beta Let_def sheds_release_lru)

lemma sheds_set_cap: "sheds contents good s (set_physical_cap_bytes cap s)"
  by (rule sheds_frame) (simp_all add: set_physical_cap_bytes_def wc_same_def)

context cached_origin
begin

lemma sheds_allocate: "sheds contents wf s (fst (allocate_one_chunk env s))"
proof (cases "position (\<lambda>c. cc_mem c = None) (wc_chunks s)")
  case None
  then show ?thesis by (simp add: allocate_one_chunk_def)
next
  case (Some idx)
  obtain p a where a: "po_alloc (ce_prov env) (wc_provider s) (wc_chunk_bytes s) = (p, a)" by fastforce
  have frame: "sheds contents wf s (s\<lparr>wc_provider := p\<rparr>)" by (rule sheds_frame) (simp_all add: wc_same_def)
  show ?thesis
  proof (cases a)
    case (Err e)
    then show ?thesis using Some a frame by (simp add: allocate_one_chunk_def)
  next
    case (Ok m)
    have m: "wf m" "length (contents m) = wc_chunk_bytes s" using prov_alloc a Ok by blast+
    obtain m' z where z: "mo_zero (ce_mem env) m = (m', z)" by fastforce
    note zl = mem_zero [OF m(1) z]
    show ?thesis
    proof (cases z)
      case (Err e)
      then show ?thesis using Some a \<open>a = Ok m\<close> z frame by (simp add: allocate_one_chunk_def)
    next
      case (Ok u)
      let ?s1 = "s\<lparr>wc_provider := p, wc_access_clock := sat_bump 1 (wc_access_clock s)\<rparr>"
      let ?c = "(wc_chunks s ! idx)\<lparr>cc_last_access := sat_bump 1 (wc_access_clock s),
          cc_validity_generation := cc_generation (wc_chunks s ! idx),
          cc_valid := replicate (length (cc_valid (wc_chunks s ! idx))) False, cc_mem := Some m'\<rparr>"
      have "fst (allocate_one_chunk env s) = set_cache_chunk idx ?c ?s1"
        using Some a \<open>a = Ok m\<close> z Ok by (simp add: allocate_one_chunk_def Let_def)
      moreover have "sheds contents wf s ?s1" using frame by simp
      moreover have "sheds contents wf ?s1 (set_cache_chunk idx ?c ?s1)"
        by (rule sheds_set_chunk) (use zl m in \<open>simp_all add: chunk_byte_def\<close>)
      ultimately show ?thesis using sheds_trans by metis
    qed
  qed
qed

lemma sheds_growth: "sheds contents wf s (fst (growth_step env target restricted now s))"
proof -
  let ?s1 = "s\<lparr>wc_last_growth_at := Some now\<rparr>"
  have s1: "sheds contents wf s ?s1" by (rule sheds_frame) (simp_all add: wc_same_def)
  obtain t r where t: "allocate_one_chunk env ?s1 = (t, r)" by fastforce
  have "sheds contents wf s t" using sheds_trans [OF s1 sheds_allocate] t by simp
  then show ?thesis using t by (cases r) (simp_all add: growth_step_def)
qed

lemma sheds_observe: "sheds contents wf s (fst (observe_gpu env sample now s))"
proof -
  define target where "target = physical_target_bytes (wc_physical_cap_bytes s) sample"
  define s1 where "s1 = s\<lparr>wc_target_bytes := target\<rparr>"
  define restricted where "restricted = (sample = None \<or> target < cached_bytes s1 \<or> target < wc_chunk_bytes s1)"
  define s3 where "s3 = fst (reclaim_step target restricted (note_sample sample restricted s1))"
  have "sheds contents wf s s1" unfolding s1_def by (rule sheds_frame) (simp_all add: wc_same_def)
  then have "sheds contents wf s s3"
    unfolding s3_def by (rule sheds_trans [OF sheds_trans [OF _ sheds_note_sample] sheds_reclaim])
  then have "sheds contents wf s (stuck_step target now (fst (growth_step env target restricted now s3)))"
    by (rule sheds_trans [OF sheds_trans [OF _ sheds_growth] sheds_stuck])
  then show ?thesis
    by (simp add: observe_gpu_def Let_def case_prod_beta s3_def s1_def target_def restricted_def)
qed

subsection \<open>Flush and probe\<close>

lemma wc_flush_law:
  assumes "cache_base contents wf data s" "wc_flush env s = (t, r)"
  shows "cache_base contents wf data t \<and> wc_conf s t \<and> length (data (wc_origin t)) = length (data (wc_origin s)) \<and>
    (cache_coherent contents data s \<longrightarrow> cache_coherent contents data t) \<and>
    (cache_synced data durable s \<longrightarrow> cache_synced data durable t \<and>
       (r = Ok () \<longrightarrow> durable (wc_origin t) = data (wc_origin t))) \<and>
    (r = Ok () \<longrightarrow> data (wc_origin t) = data (wc_origin s))"
proof (cases "wc_origin_state s = OrReady")
  case False
  then have "t = s" "r \<noteq> Ok ()" using assms(2) by (auto simp: wc_flush_def require_ready_origin_def)
  then show ?thesis using assms(1) by (simp add: wc_conf_def)
next
  case True
  then have "sync_dirty_origin env s = (t, r)" using assms(2) by (simp add: wc_flush_def require_ready_origin_def)
  from sync_dirty_law [OF assms(1) this] show ?thesis
    using True by (cases "r = Ok ()"; cases "wc_origin_dirty s") (auto simp: cache_synced_def cache_coherent_def)
qed

lemma probe_io_law:
  assumes "cache_base contents wf data s" "probe_io env s = (g, r)"
  shows "length (data g) = length (data (wc_origin s))"
    "r = Ok () \<Longrightarrow> data g = data (wc_origin s) \<and> durable g = data (wc_origin s)"
proof -
  have b: "wc_block s \<le> wc_size s" "wc_size s \<le> length (data (wc_origin s))"
    using assms(1) by (auto simp: cache_base_def cache_wf_def cache_geometry_def intro: dvd_imp_le)
  obtain g1 x where x: "read_exact_at (ce_origin env) (wc_origin s) 0 (wc_block s) = (g1, x)" by fastforce
  have d: "data g1 = data (wc_origin s)" using read_exact_law [OF _ x] b by simp
  show "length (data g) = length (data (wc_origin s))"
    "r = Ok () \<Longrightarrow> data g = data (wc_origin s) \<and> durable g = data (wc_origin s)"
    using assms(2) x d os_sync [of g1 g r] by (cases x; simp add: probe_io_def)+
qed

lemma probe_law:
  assumes "cache_base contents wf data s" "probe_origin env s = (t, r)"
  shows "cache_base contents wf data t \<and> wc_conf s t \<and> cache_synced data durable t \<and>
    (is_ok r \<longrightarrow> data (wc_origin t) = data (wc_origin s) \<and>
      (cache_coherent contents data s \<longrightarrow> cache_coherent contents data t))"
proof -
  obtain g x where x: "probe_io env s = (g, x)" by fastforce
  note law = probe_io_law [OF assms(1) x]
  have b: "cache_wf contents wf s" "wc_size s \<le> length (data (wc_origin s))"
    using assms(1) by (simp_all add: cache_base_def)
  show ?thesis
  proof (cases x)
    case (Err e)
    then have "t = mark_origin_failed (s\<lparr>wc_origin := g\<rparr>)" "r = Err e"
      using assms(2) x by (simp_all add: probe_origin_def)
    then show ?thesis using law(1) b by (simp add: cache_layers wc_conf_def)
  next
    case (Ok u)
    let ?s1 = "count_tel (tl_origin_syncs_update (sat_bump 1)) (s\<lparr>wc_origin := g, wc_origin_dirty := False\<rparr>)"
    define st where "st = wc_origin_state t"
    define k where "k = wc_origin_probe_successes t"
    have t: "t = ?s1\<lparr>wc_origin_state := st, wc_origin_probe_successes := k\<rparr>" "is_ok r"
      using assms(2) x Ok unfolding st_def k_def by (auto simp: probe_origin_def Let_def)
    have "coherent contents d lo hi t \<longleftrightarrow> coherent contents d lo hi s" "cache_wf contents wf t" for d lo hi
      unfolding t(1) using b(1)
      by (simp_all add: coherent_def cached_byte_def count_tel_def cache_wf_def cache_geometry_def cache_chunk_wf_def)
    moreover have "wc_origin t = g" "wc_conf s t" unfolding t(1) by (simp_all add: wc_conf_def)
    ultimately show ?thesis using law Ok b by (simp add: cache_layers wc_conf_def)
  qed
qed

end

end
