(* ===== verification/Origin_Service.thy ===== *)
theory Origin_Service
  imports Origin_Coherence
begin

text \<open>
  The cache in service: requests, GPU samples and probes in any order. Shown here: the cache is
  invisible to clients, an acknowledged flush is durable, and the shape of the cache is kept.
\<close>

subsection \<open>A cache in operation\<close>

text \<open>What the daemon does to a cache: serve a request, feed the policy, release, probe.\<close>

datatype cache_event =
    CeRequest request "byte list"
  | CeObserve "gpu_sample option" duration
  | CeSetCap nat
  | CeRelease
  | CeProbe

datatype cache_outcome =
    CoServed serve_outcome
  | CoPolicy
  | CoProbe "(origin_state, io_error) result"

fun cache_exec ::
  "('p, 'm, 'o) cache_env \<Rightarrow> cache_event \<Rightarrow> ('p, 'm, 'o) wt_cache \<Rightarrow> ('p, 'm, 'o) wt_cache \<times> cache_outcome" where
  "cache_exec env (CeRequest req payload) s = map_prod id CoServed (serve (wc_ops env) req payload s)"
| "cache_exec env (CeObserve sample now) s = (fst (observe_gpu env sample now s), CoPolicy)"
| "cache_exec env (CeSetCap cap) s = (set_physical_cap_bytes cap s, CoPolicy)"
| "cache_exec env CeRelease s = (fst (release_cache s), CoPolicy)"
| "cache_exec env CeProbe s = map_prod id CoProbe (probe_origin env s)"

fun cache_exec_all ::
  "('p, 'm, 'o) cache_env \<Rightarrow> cache_event list \<Rightarrow> ('p, 'm, 'o) wt_cache \<Rightarrow>
   ('p, 'm, 'o) wt_cache \<times> cache_outcome list" where
  "cache_exec_all env [] s = (s, [])"
| "cache_exec_all env (ev # evs) s =
     (let (s1, out) = cache_exec env ev s; (s2, outs) = cache_exec_all env evs s1 in (s2, out # outs))"

text \<open>The same run on a plain disk, on which only requests act.\<close>

inductive cached_run ::
  "nat \<Rightarrow> byte list \<Rightarrow> cache_event list \<Rightarrow> cache_outcome list \<Rightarrow> byte list \<Rightarrow> bool"
  for block where
  cr_nil: "cached_run block d [] [] d"
| cr_request: "served block False req payload d d1 out \<Longrightarrow> cached_run block d1 evs outs d' \<Longrightarrow>
     cached_run block d (CeRequest req payload # evs) (CoServed out # outs) d'"
| cr_policy: "(\<And>req payload. ev \<noteq> CeRequest req payload) \<Longrightarrow> cached_run block d evs outs d' \<Longrightarrow>
     cached_run block d (ev # evs) (out # outs) d'"

lemma new_cache_layers:
  assumes "with_chunk_bytes p g sz block cb = Ok s" "sz + cb \<le> u64_max" "sz \<le> length (dat g)"
  shows "cache_base contents good dat s" "cache_coherent contents dat s" "wc_origin s = g" "wc_size s = sz"
    "wc_block s = block" "\<not> wc_origin_dirty s"
proof -
  have c: "0 < sz" "0 < block" "0 < cb" "block dvd sz" "block dvd cb"
    using assms(1) by (auto simp: with_chunk_bytes_def is_multiple_of_dvd split: if_splits)
  have s: "wc_chunks s = map (new_cache_chunk sz block cb) [0..<div_ceil sz cb]" "wc_size s = sz" "wc_block s = block"
    "wc_chunk_bytes s = cb" "wc_origin s = g" "\<not> wc_origin_dirty s"
    using assms(1) by (auto simp: with_chunk_bytes_def split: if_splits)
  have wf: "cache_wf contents good s"
    using c assms(2) s by (simp add: cache_wf_def cache_geometry_def cache_chunk_wf_def new_cache_chunk_def Let_def)
  then show "cache_base contents good dat s" using assms(3) s by (simp add: cache_base_def)
  have "cached_byte contents s q = None" if "q < sz" for q
    using position_in_cache(1) [OF wf, of q] that s
    by (simp add: cached_byte_def chunk_byte_def new_cache_chunk_def Let_def)
  then show "cache_coherent contents dat s" using s by (simp add: cache_coherent_def coherent_def)
qed (use assms(1) in \<open>auto simp: with_chunk_bytes_def split: if_splits\<close>)

context cached_origin
begin

lemma cache_device:
  "block_device (wc_ops env) (cache_disk data)
    (\<lambda>s. cache_base contents wf data s \<and> cache_coherent contents data s \<and> wc_block s = block)"
proof
  fix s :: "('p, 'm, 'o) wt_cache" and off n t res
  assume i: "cache_base contents wf data s \<and> cache_coherent contents data s \<and> wc_block s = block"
    and le: "off + n \<le> length (cache_disk data s)" and "be_read_at (wc_ops env) s off n = (t, res)"
  then have rd: "wc_read_at env s off n = (t, res)" by (simp add: wc_ops_def)
  from wc_read_law [OF conjunct1 [OF i] rd] i le
  show "(cache_base contents wf data t \<and> cache_coherent contents data t \<and> wc_block t = block) \<and>
      cache_disk data t = cache_disk data s \<and> (\<forall>bs. res = Ok bs \<longrightarrow> bs = read_range off n (cache_disk data s))"
    by (simp add: wc_conf_def cache_disk_def read_range_take)
next
  fix s :: "('p, 'm, 'o) wt_cache" and off bs opt t r
  assume i: "cache_base contents wf data s \<and> cache_coherent contents data s \<and> wc_block s = block"
    and le: "off + length bs \<le> length (cache_disk data s)"
    and "be_write_at_with_options (wc_ops env) s off bs opt = (t, r)"
  then have wr: "wc_write_at_with_options env s off bs opt = (t, r)" by (simp add: wc_ops_def)
  have sz: "off + length bs \<le> wc_size s" "off + length bs \<le> length (data (wc_origin s))"
    using le by (simp_all add: cache_disk_def)
  from wc_write_law [OF conjunct1 [OF i] wr] i sz
  show "(cache_base contents wf data t \<and> cache_coherent contents data t \<and> wc_block t = block) \<and>
      length (cache_disk data t) = length (cache_disk data s) \<and>
      (r = Ok () \<longrightarrow> cache_disk data t = write_range off bs (cache_disk data s)) \<and>
      (\<not> wo_fua opt \<longrightarrow> agree_outside off (length bs) (cache_disk data s) (cache_disk data t))"
    by (simp add: wc_conf_def cache_disk_def write_range_take agree_outside_take)
next
  fix s :: "('p, 'm, 'o) wt_cache" and t r
  assume i: "cache_base contents wf data s \<and> cache_coherent contents data s \<and> wc_block s = block"
    and "be_flush (wc_ops env) s = (t, r)"
  then have fl: "wc_flush env s = (t, r)" by (simp add: wc_ops_def)
  from wc_flush_law [OF conjunct1 [OF i] fl] i
  show "(cache_base contents wf data t \<and> cache_coherent contents data t \<and> wc_block t = block) \<and>
      length (cache_disk data t) = length (cache_disk data s) \<and> (r = Ok () \<longrightarrow> cache_disk data t = cache_disk data s)"
    by (simp add: wc_conf_def cache_disk_def)
qed (auto simp: wc_ops_def cache_disk_def cache_base_def cache_wf_def cache_geometry_def
    wc_write_at_with_options_def write_options_default_def)

lemma exec_coherent:
  assumes "cache_base contents wf data s \<and> cache_coherent contents data s \<and> wc_block s = block"
    and "cache_exec env ev s = (t, out)" "\<forall>e. out \<noteq> CoProbe (Err e)"
  shows "cache_base contents wf data t \<and> cache_coherent contents data t \<and> wc_block t = block"
    and "ev = CeRequest req payload \<Longrightarrow> \<exists>o'. out = CoServed o' \<and>
      served block False req payload (cache_disk data s) (cache_disk data t) o'"
    and "(\<And>req payload. ev \<noteq> CeRequest req payload) \<Longrightarrow> cache_disk data t = cache_disk data s"
proof -
  have shed: "cache_base contents wf data u \<and> cache_coherent contents data u \<and> wc_block u = block \<and>
      cache_disk data u = cache_disk data s" if "sheds contents wf s u" for u
    using sheds_layers [OF that, of data durable] assms(1) by (simp add: wc_conf_def)
  have all: "(cache_base contents wf data t \<and> cache_coherent contents data t \<and> wc_block t = block) \<and>
    (\<forall>req payload. ev = CeRequest req payload \<longrightarrow> (\<exists>o'. out = CoServed o' \<and>
      served block False req payload (cache_disk data s) (cache_disk data t) o')) \<and>
    ((\<forall>req payload. ev \<noteq> CeRequest req payload) \<longrightarrow> cache_disk data t = cache_disk data s)"
  proof (cases ev)
    case (CeRequest req payload)
    obtain u o' where u: "serve (wc_ops env) req payload s = (u, o')" by fastforce
    then have "t = u" "out = CoServed o'" using assms(2) CeRequest by simp_all
    then show ?thesis
      using block_device.serve_keeps_inv [OF cache_device assms(1) u] block_device.serve_served [OF cache_device assms(1) u]
        CeRequest assms(1) by (simp add: wc_ops_def)
  next
    case CeProbe
    obtain u r where u: "probe_origin env s = (u, r)" by fastforce
    then have t: "t = u" "out = CoProbe r" using assms(2) CeProbe by simp_all
    then have "is_ok r" using assms(3) by (cases r) simp_all
    then show ?thesis using probe_law [OF _ u] assms(1) CeProbe t(1) by (simp add: wc_conf_def cache_disk_def)
  qed (use assms(2) shed [OF sheds_observe] shed [OF sheds_set_cap] shed [OF sheds_release_cache] in auto)
  then show "cache_base contents wf data t \<and> cache_coherent contents data t \<and> wc_block t = block"
    "ev = CeRequest req payload \<Longrightarrow> \<exists>o'. out = CoServed o' \<and>
      served block False req payload (cache_disk data s) (cache_disk data t) o'"
    "(\<And>req payload. ev \<noteq> CeRequest req payload) \<Longrightarrow> cache_disk data t = cache_disk data s" by blast+
qed

lemma exec_all_run:
  assumes "cache_base contents wf data s \<and> cache_coherent contents data s \<and> wc_block s = block"
    and "cache_exec_all env evs s = (t, outs)" "\<forall>e. CoProbe (Err e) \<notin> set outs"
  shows "cached_run block (cache_disk data s) evs outs (cache_disk data t)"
  using assms
proof (induction evs arbitrary: s outs)
  case Nil
  then show ?case by (auto intro: cached_run.cr_nil)
next
  case (Cons ev evs)
  obtain s1 out where s1: "cache_exec env ev s = (s1, out)" by fastforce
  obtain u os where u: "cache_exec_all env evs s1 = (u, os)" by fastforce
  have eq: "t = u" "outs = out # os" using Cons.prems(2) s1 u by simp_all
  note ex = exec_coherent [OF Cons.prems(1) s1]
  have ok: "\<forall>e. out \<noteq> CoProbe (Err e)" using Cons.prems(3) eq by auto
  have run: "cached_run block (cache_disk data s1) evs os (cache_disk data t)"
    using Cons.IH [OF ex(1) [OF ok] u [folded eq(1)]] Cons.prems(3) eq by simp
  show ?case
  proof (cases "\<exists>req payload. ev = CeRequest req payload")
    case True
    then obtain req payload where "ev = CeRequest req payload" by blast
    with ex(2) [OF ok] run eq show ?thesis by (auto intro: cached_run.cr_request)
  next
    case False
    then show ?thesis using ex(3) [OF ok] run eq by (auto intro: cached_run.cr_policy)
  qed
qed

text \<open>Shape and durability survive everything, a failed probe included.\<close>

lemma exec_synced:
  assumes "cache_base contents wf data s" "cache_exec env ev s = (t, out)"
  shows "cache_base contents wf data t \<and> (cache_synced data durable s \<longrightarrow> cache_synced data durable t)"
proof -
  have shed: "cache_base contents wf data u \<and> (cache_synced data durable s \<longrightarrow> cache_synced data durable u)"
    if "sheds contents wf s u" for u
    using sheds_layers [OF that assms(1), of durable] by simp
  show ?thesis
  proof (cases ev)
    case (CeRequest req payload)
    obtain o' where "serve (wc_ops env) req payload s = (t, o')"
      using assms(2) CeRequest by (cases "serve (wc_ops env) req payload s") simp
    from serve_calls [OF this] show ?thesis
      using assms(1) wc_read_law [OF assms(1)] wc_write_law [OF assms(1)] wc_flush_law [OF assms(1)]
      by (simp add: wc_ops_def) blast
  next
    case CeProbe
    then show ?thesis using assms(2) probe_law [OF assms(1)] by (cases "probe_origin env s") simp
  qed (use assms(2) shed [OF sheds_observe] shed [OF sheds_set_cap] shed [OF sheds_release_cache] in auto)
qed

lemma exec_all_synced:
  "cache_base contents wf data s \<Longrightarrow> cache_exec_all env evs s = (t, outs) \<Longrightarrow>
   cache_base contents wf data t \<and> (cache_synced data durable s \<longrightarrow> cache_synced data durable t)"
proof (induction evs arbitrary: s outs)
  case (Cons ev evs)
  obtain s1 out where s1: "cache_exec env ev s = (s1, out)" by fastforce
  obtain u os where u: "cache_exec_all env evs s1 = (u, os)" by fastforce
  then have "u = t" using Cons.prems(2) s1 by simp
  then show ?case using exec_synced [OF Cons.prems(1) s1] Cons.IH u by blast
qed simp

end

subsection \<open>How much is cached\<close>

lemma cached_frame:
  assumes "wc_chunks t = wc_chunks s" "wc_chunk_bytes t = wc_chunk_bytes s"
  shows "cached_bytes t = cached_bytes s"
  unfolding cached_bytes_def assms ..

lemma cached_exact:
  assumes "cache_geometry s"
  shows "cached_bytes s = live_chunks s * wc_chunk_bytes s" "length (wc_chunks s) * wc_chunk_bytes s \<le> u64_max"
proof -
  let ?cb = "wc_chunk_bytes s"
  show le: "length (wc_chunks s) * ?cb \<le> u64_max"
    using assms div_ceil_bound [of ?cb "wc_size s"] by (simp add: cache_geometry_def)
  have "fold (\<lambda>c n. wrapping_add u64_max n (if cc_mem c \<noteq> None then ?cb else 0)) xs a =
      a + length (filter (\<lambda>c. cc_mem c \<noteq> None) xs) * ?cb" if "a + length xs * ?cb \<le> u64_max"
    for xs :: "'b cache_chunk list" and a
    using that
  proof (induction xs arbitrary: a)
    case (Cons x xs)
    then have "wrapping_add u64_max a (if cc_mem x \<noteq> None then ?cb else 0) = a + (if cc_mem x \<noteq> None then ?cb else 0)"
      by (simp add: wrapping_add_def)
    then show ?case using Cons.IH [of "a + (if cc_mem x \<noteq> None then ?cb else 0)"] Cons.prems by simp
  qed simp
  from this [of 0 "wc_chunks s"] show "cached_bytes s = live_chunks s * ?cb"
    using le by (simp add: cached_bytes_def live_chunks_def)
qed

lemma lru_none: "lru_chunk s = None \<Longrightarrow> live_chunks s = 0"
proof -
  assume "lru_chunk s = None"
  then have "filter (\<lambda>i. cc_mem (wc_chunks s ! i) \<noteq> None) [0..<length (wc_chunks s)] = []"
    by (auto simp: lru_chunk_def split: list.splits)
  then have "\<forall>i < length (wc_chunks s). cc_mem (wc_chunks s ! i) = None" by (simp add: filter_empty_conv)
  then show ?thesis by (simp add: live_chunks_def filter_empty_conv all_set_conv_all_nth)
qed

lemma release_lru_bound:
  "cache_wf contents good s \<Longrightarrow> cached_bytes (fst (release_lru_to target released s)) \<le> min target (cached_bytes s)"
proof (induction target released s rule: release_lru_to.induct)
  case (1 target released s)
  show ?case
  proof (cases "cached_bytes s > target")
    case True
    then have "live_chunks s \<noteq> 0" using cached_exact(1) [of s] 1(2) by (intro notI) (simp add: cache_wf_def)
    then obtain i where i: "lru_chunk s = Some i" using lru_none [of s] by (cases "lru_chunk s") auto
    have wf: "cache_wf contents good (release_chunk i s)" using sheds_wf [OF sheds_release 1(2)] .
    then have "cached_bytes (fst (release_lru_to target (saturating_add u64_max released (wc_chunk_bytes s)) (release_chunk i s))) \<le> target"
      using 1(1) [OF True i] by simp
    then show ?thesis using True i by (simp add: release_lru_to.simps [of target released s])
  qed (simp add: release_lru_to.simps [of target released s])
qed

lemma reclaim_cached:
  assumes "cache_wf contents good s" "reclaim_step target restricted s = (t, n)"
  shows "cached_bytes t \<le> cached_bytes s \<and>
    (restricted \<longrightarrow> RESTRICTED_SAMPLES_TO_RECLAIM \<le> wc_restricted_samples s \<longrightarrow> cached_bytes t \<le> target)"
proof (cases "restricted \<and> RESTRICTED_SAMPLES_TO_RECLAIM \<le> wc_restricted_samples s")
  case True
  then have "t = (fst (release_lru_to target 0 s))\<lparr>wc_restricted_samples := 0\<rparr>"
    using assms(2) by (auto simp: reclaim_step_def case_prod_beta Let_def)
  then have "cached_bytes t = cached_bytes (fst (release_lru_to target 0 s))" by (intro cached_frame) simp_all
  then show ?thesis using release_lru_bound [OF assms(1), of target 0] by simp
next
  case False
  then have "t = s" using assms(2) by (auto simp: reclaim_step_def)
  then show ?thesis using False by simp
qed

lemma allocate_cached:
  assumes "cache_wf contents good s" "allocate_one_chunk env s = (t, r)"
    and "saturating_add u64_max (cached_bytes s) (wc_chunk_bytes s) \<le> target"
  shows "cached_bytes t = cached_bytes s \<or>
    cached_bytes t = cached_bytes s + wc_chunk_bytes s \<and> cached_bytes t \<le> target \<and> r = Ok (wc_chunk_bytes s)"
proof (cases "position (\<lambda>c. cc_mem c = None) (wc_chunks s)")
  case None
  then show ?thesis using assms(2) by (simp add: allocate_one_chunk_def)
next
  case (Some idx)
  obtain p a where a: "po_alloc (ce_prov env) (wc_provider s) (wc_chunk_bytes s) = (p, a)" by fastforce
  consider "wc_chunks t = wc_chunks s" "wc_chunk_bytes t = wc_chunk_bytes s"
    | c q k where "t = set_cache_chunk idx c (s\<lparr>wc_provider := q, wc_access_clock := k\<rparr>)" "cc_mem c \<noteq> None"
      "r = Ok (wc_chunk_bytes s)"
    using assms(2) Some a
    by (auto simp: allocate_one_chunk_def count_tel_def Let_def split: result.splits prod.splits)
  then show ?thesis
  proof cases
    case 1
    then show ?thesis using cached_frame by blast
  next
    case (2 c q k)
    have idx: "idx < length (wc_chunks s)" "cc_mem (wc_chunks s ! idx) = None" using position_Some [OF Some] by simp_all
    have geo: "cache_geometry s" "cache_geometry t" "wc_chunk_bytes t = wc_chunk_bytes s"
      using assms(1) unfolding 2(1) by (simp_all add: cache_wf_def cache_geometry_def set_cache_chunk_def)
    have live: "live_chunks t = Suc (live_chunks s)"
      using length_filter_update [OF idx(1), of "\<lambda>c. cc_mem c \<noteq> None" c] idx(2) 2(2)
      unfolding 2(1) by (simp add: live_chunks_def set_cache_chunk_def)
    have "live_chunks t * wc_chunk_bytes t \<le> length (wc_chunks t) * wc_chunk_bytes t"
      by (intro mult_le_mono1) (simp add: live_chunks_def)
    then have "cached_bytes s + wc_chunk_bytes s \<le> u64_max"
      using cached_exact [OF geo(1)] cached_exact(2) [OF geo(2)] live geo(3) by simp
    then show ?thesis
      using assms(3) cached_exact(1) [OF geo(1)] cached_exact(1) [OF geo(2)] live geo(3) 2(3)
      by (simp add: saturating_add_def)
  qed
qed

lemma growth_cached:
  assumes "cache_wf contents good s" "growth_step env target restricted now s = (t, n)"
  shows "cached_bytes t = cached_bytes s \<or>
    \<not> restricted \<and> HEALTHY_SAMPLES_TO_GROW \<le> wc_healthy_samples s \<and>
    cached_bytes t = cached_bytes s + wc_chunk_bytes s \<and> cached_bytes t \<le> target \<and> n = wc_chunk_bytes s"
proof (cases "\<not> restricted \<and> wc_healthy_samples s \<ge> HEALTHY_SAMPLES_TO_GROW \<and>
    saturating_add u64_max (cached_bytes s) (wc_chunk_bytes s) \<le> target \<and>
    (case wc_last_growth_at s of None \<Rightarrow> True | Some previous \<Rightarrow> saturating_sub now previous \<ge> GROWTH_INTERVAL)")
  case False
  then have "t = s" using assms(2) unfolding growth_step_def by (simp only: if_False) simp
  then show ?thesis by simp
next
  case True
  let ?s1 = "s\<lparr>wc_last_growth_at := Some now\<rparr>"
  have s1: "cached_bytes ?s1 = cached_bytes s" "wc_chunk_bytes ?s1 = wc_chunk_bytes s"
    by (rule cached_frame) simp_all
  have wf: "cache_wf contents good ?s1"
    using assms(1) by (simp add: cache_wf_def cache_geometry_def cache_chunk_wf_def)
  obtain u r where u: "allocate_one_chunk env ?s1 = (u, r)" by fastforce
  have al: "cached_bytes u = cached_bytes s \<or>
      cached_bytes u = cached_bytes s + wc_chunk_bytes s \<and> cached_bytes u \<le> target \<and> r = Ok (wc_chunk_bytes s)"
    using allocate_cached [OF wf u, of target] True s1 by simp
  have "growth_step env target restricted now s =
      (case r of Ok n \<Rightarrow> (u, n) | Err _ \<Rightarrow> (u\<lparr>wc_cache_state := CsUnavailable\<rparr>, 0))"
    unfolding growth_step_def if_P [OF True] u by (simp split: result.split)
  moreover have "cached_bytes (u\<lparr>wc_cache_state := CsUnavailable\<rparr>) = cached_bytes u" by (rule cached_frame) simp_all
  ultimately show ?thesis using al True assms(2) by (cases r) auto
qed

text \<open>A success reply to a flush or a forced write means the backend's success.\<close>

lemma reply_ok_inject:
  assumes "encode_simple_reply e h = encode_simple_reply NBD_OK h'" "e < 2 ^ 32"
  shows "e = NBD_OK"
  using reply_fields(1) [OF assms(2), of h] reply_fields(1) [of NBD_OK h'] assms(1) by (simp add: NBD_OK_def)

lemma refused_errno:
  "validate_command_flags req = Err e \<Longrightarrow> e \<in> {NBD_EINVAL, NBD_ERANGE, NBD_EACCES, NBD_EIO}"
  "rq_validate ops req b = Err e \<Longrightarrow> e \<in> {NBD_EINVAL, NBD_ERANGE, NBD_EACCES, NBD_EIO}"
  by (auto simp: validate_command_flags_def rq_validate_def Let_def split: if_splits option.splits)

lemma refused_not_ok:
  "e \<in> {NBD_EINVAL, NBD_ERANGE, NBD_EACCES, NBD_EIO} \<Longrightarrow>
   so_reply (serve_plain req e) \<noteq> encode_simple_reply NBD_OK (rq_handle req)"
  using reply_ok_inject [of e "rq_handle req" "rq_handle req"] by (auto simp: serve_plain_def nbd_errno_defs)

lemma serve_flush_ok:
  assumes "serve ops req payload b = (b', out)" "rq_cmd req = CmdFlush"
    and "so_reply out = encode_simple_reply NBD_OK (rq_handle req)"
  shows "be_flush ops b = (b', Ok ())"
proof (cases "validate_command_flags req")
  case (Err e)
  then show ?thesis using assms refused_not_ok [OF refused_errno(1) [OF Err], of req] by (auto simp: serve_def)
next
  case (Ok opt)
  obtain b1 r where r: "be_flush ops b = (b1, r)" by fastforce
  have eq: "b' = b1" "out = serve_plain req (errno_of r)" using assms(1,2) Ok r by (auto simp: serve_def)
  show ?thesis using r eq assms(3) refused_not_ok [of NBD_EIO req] by (cases r) auto
qed

lemma serve_fua_ok:
  assumes "serve ops req payload b = (b', out)" "rq_cmd req = CmdWrite" "rq_flags req = NBD_CMD_FLAG_FUA"
    and "so_reply out = encode_simple_reply NBD_OK (rq_handle req)"
  shows "be_write_at_with_options ops b (rq_offset req) payload \<lparr>wo_fua = True\<rparr> = (b', Ok ())"
proof -
  have f: "validate_command_flags req = Ok \<lparr>wo_fua = True\<rparr>"
    using assms(2,3) by (simp add: validate_command_flags_cases NBD_CMD_FLAG_FUA_def)
  obtain b1 r where r: "be_write_at_with_options ops b (rq_offset req) payload \<lparr>wo_fua = True\<rparr> = (b1, r)" by fastforce
  have v: "length payload = rq_len req" "rq_validate ops req b = Ok ()"
    using assms(1,2,4) f refused_not_ok [of _ req] refused_errno(2) [of ops req b]
    by (auto simp: serve_def split: if_splits result.splits)
  then have "b' = b1" "out = serve_plain req (errno_of r)" using assms(1,2) f r by (auto simp: serve_def)
  then show ?thesis using r assms(4) refused_not_ok [of NBD_EIO req] by (cases r) auto
qed

subsection \<open>A cache on plain parts\<close>

definition plain_cache_env :: "(nat, byte list device_mem, byte list \<times> byte list) cache_env" where
  "plain_cache_env =
     \<lparr>ce_mem = device_mem_ops plain_syms, ce_prov = plain_prov, ce_origin = file_origin_ops plain_file\<rparr>"

interpretation plain_cache: cached_origin plain_cache_env dm_region "\<lambda>m. dm_len m = length (dm_region m)" fst snd
  unfolding cached_origin_def plain_cache_env_def
  using plain_gpu.vram_provider_axioms plain_origin.origin_storage_axioms by simp

lemma new_cache_demo:
  "\<exists>s :: (nat, byte list device_mem, byte list \<times> byte list) wt_cache.
     with_chunk_bytes 4096 ([1, 2, 3, 4], [1, 2, 3, 4]) 4 1 2 = Ok s"
  by (simp add: with_chunk_bytes_def is_multiple_of_def)

definition demo_events :: "cache_event list" where
  "demo_events =
     [CeProbe,
      CeRequest \<lparr>rq_flags = 0, rq_cmd = CmdWrite, rq_handle = 1, rq_offset = 1, rq_len = 2\<rparr> [8, 9],
      CeObserve (Some \<lparr>gs_budget_bytes = 2 * GIB + 4, gs_external_usage_bytes = 0, gs_total_vram_bytes = 0\<rparr>) 0,
      CeRequest \<lparr>rq_flags = 0, rq_cmd = CmdRead, rq_handle = 2, rq_offset = 0, rq_len = 4\<rparr> [],
      CeRelease]"

lemma demo_probe:
  assumes "with_chunk_bytes 4096 ([1, 2, 3, 4], [1, 2, 3, 4]) 4 1 2 =
    Ok (s :: (nat, byte list device_mem, byte list \<times> byte list) wt_cache)"
  shows "snd (probe_origin plain_cache_env s) = Ok OrReady"
proof -
  have s: "wc_block s = 1" "wc_origin s = ([1, 2, 3, 4], [1, 2, 3, 4])" "wc_origin_state s = OrReady"
    using assms by (auto simp: with_chunk_bytes_def is_multiple_of_def)
  have r: "read_exact_at (file_origin_ops plain_file) ([1, 2, 3, 4], [1, 2, 3, 4]) 0 1 =
      (([1, 2, 3, 4], [1, 2, 3, 4]), Ok [1])"
    by (subst read_exact_at.simps)
      (simp add: file_origin_ops_def plain_file_def Let_def checked_add_def u64_max_def read_range_def)
  have "probe_io plain_cache_env s = (([1, 2, 3, 4], [1, 2, 3, 4]), Ok ())"
    using s r by (simp add: probe_io_def plain_cache_env_def file_origin_ops_def plain_file_def)
  then show ?thesis using s(3) by (simp add: probe_origin_def Let_def count_tel_def)
qed

definition demo_fua :: request where
  "demo_fua = \<lparr>rq_flags = NBD_CMD_FLAG_FUA, rq_cmd = CmdWrite, rq_handle = 1, rq_offset = 1, rq_len = 2\<rparr>"

lemma demo_fua_served:
  assumes "with_chunk_bytes 4096 ([1, 2, 3, 4], [1, 2, 3, 4]) 4 1 2 =
    Ok (s :: (nat, byte list device_mem, byte list \<times> byte list) wt_cache)"
  shows "\<exists>u out. serve (wc_ops plain_cache_env) demo_fua [8, 9] s = (u, out) \<and>
    so_reply out = encode_simple_reply NBD_OK (rq_handle demo_fua)"
proof -
  let ?g = "([1, 2, 3, 4], [1, 2, 3, 4]) :: byte list \<times> byte list"
  have s: "wc_block s = 1" "wc_origin s = ?g" "wc_origin_state s = OrReady" "wc_size s = 4"
    using assms by (auto simp: with_chunk_bytes_def is_multiple_of_def)
  have "\<exists>g'. write_all_at (file_origin_ops plain_file) ?g 1 [8, 9] = (g', Ok ())"
    by (subst write_all_at.simps)
      (simp add: file_origin_ops_def plain_file_def Let_def checked_add_def u64_max_def)
  then obtain s1 where w: "write_origin plain_cache_env 1 [8, 9] s = (s1, Ok ())"
    using s(2) by (auto simp: write_origin_def plain_cache_env_def)
  have "os_sync_data (ce_origin plain_cache_env) g = ((fst g, fst g), Ok ())" for g
    by (simp add: plain_cache_env_def file_origin_ops_def plain_file_def case_prod_beta)
  then have "\<exists>s2. sync_dirty_origin plain_cache_env s1 = (s2, Ok ())"
    by (cases "wc_origin_dirty s1") (simp_all add: sync_dirty_origin_def)
  then obtain s2 where y: "sync_dirty_origin plain_cache_env s1 = (s2, Ok ())" by blast
  have "check_range s 1 (length [8, 9 :: byte]) = Ok ()"
    using s(4) by (simp add: check_range_def checked_add_def u64_max_def)
  from wc_write_accepted [OF this s(3) _ w, of "\<lparr>wo_fua = True\<rparr>"] y
  obtain u where u: "wc_write_at_with_options plain_cache_env s 1 [8, 9] \<lparr>wo_fua = True\<rparr> = (u, Ok ())" by simp
  have "rq_validate (wc_ops plain_cache_env) demo_fua s = Ok ()"
    using s(1,4) by (simp add: rq_validate_def wc_ops_def demo_fua_def is_multiple_of_def checked_add_def u64_max_def)
  moreover have "validate_command_flags demo_fua = Ok \<lparr>wo_fua = True\<rparr>"
    by (simp add: validate_command_flags_cases demo_fua_def NBD_CMD_FLAG_FUA_def)
  ultimately have "serve (wc_ops plain_cache_env) demo_fua [8, 9] s = (u, serve_plain demo_fua NBD_OK)"
    using u by (simp add: serve_def) (simp add: demo_fua_def wc_ops_def)
  then show ?thesis by (simp add: serve_plain_def)
qed

lemma exec_outcomes:
  "cache_exec_all env (ev # evs) s = (t, outs) \<Longrightarrow>
   outs = snd (cache_exec env ev s) # snd (cache_exec_all env evs (fst (cache_exec env ev s)))"
  by (auto simp: case_prod_beta Let_def)

subsection \<open>Properties\<close>

text \<open>
  C2. The cache is invisible. Over any lawful VRAM provider and origin, whatever requests, GPU samples,
  cap changes, releases and successful probes a new cache goes through, in any order, and whatever
  allocations and transfers fail on the way, every request is answered as the origin's disk would
  answer it: reads return the contents that the writes before them left, never a stale copy, and the
  policy steps between requests change nothing.
\<close>

theorem cache_transparent:
  assumes "cached_origin env contents good data durable"
    and "with_chunk_bytes p g sz block cb = Ok s" "sz + cb \<le> u64_max" "sz \<le> length (data g)"
    and "cache_exec_all env evs s = (t, outs)" "\<forall>e. CoProbe (Err e) \<notin> set outs"
  shows "cached_run block (take sz (data g)) evs outs (cache_disk data t)"
proof -
  note new = new_cache_layers [where dat = data, OF assms(2-4)]
  have "cached_run block (cache_disk data s) evs outs (cache_disk data t)"
    by (rule cached_origin.exec_all_run [OF assms(1) _ assms(5,6)]) (use new in simp)
  then show ?thesis using new by (simp add: cache_disk_def)
qed

theorem cache_transparent_witness:
  "\<exists>s t outs. with_chunk_bytes 4096 ([1, 2, 3, 4], [1, 2, 3, 4]) 4 1 2 = Ok s \<and>
     cache_exec_all plain_cache_env demo_events s = (t, outs) \<and>
     cached_run 1 [1, 2, 3, 4] demo_events outs (cache_disk fst t)"
proof -
  obtain s :: "(nat, byte list device_mem, byte list \<times> byte list) wt_cache"
    where s: "with_chunk_bytes 4096 ([1, 2, 3, 4], [1, 2, 3, 4]) 4 1 2 = Ok s" using new_cache_demo by blast
  obtain t outs where t: "cache_exec_all plain_cache_env demo_events s = (t, outs)" by fastforce
  have "\<forall>e. CoProbe (Err e) \<notin> set outs"
    using demo_probe [OF s] exec_outcomes [OF t [unfolded demo_events_def]] by (simp add: case_prod_beta Let_def)
  from cache_transparent [OF plain_cache.cached_origin_axioms s _ _ t this]
  show ?thesis using s t by (auto simp: u64_max_def)
qed

text \<open>
  C4. An acknowledged flush is durable. After any sequence of requests, policy steps and probes, failed
  ones included, on a cache whose origin started durable: when a flush, or a forced-unit-access write
  of some bytes, is answered with success, all of the origin's contents are on the medium.
\<close>

theorem acknowledged_flush_durable:
  assumes "cached_origin env contents good data durable"
    and "with_chunk_bytes p g sz block cb = Ok s" "sz + cb \<le> u64_max" "sz \<le> length (data g)" "durable g = data g"
    and "cache_exec_all env evs s = (t, outs)" "serve (wc_ops env) req payload t = (u, out)"
    and "rq_cmd req = CmdFlush \<or> rq_cmd req = CmdWrite \<and> rq_flags req = NBD_CMD_FLAG_FUA \<and> payload \<noteq> []"
    and "so_reply out = encode_simple_reply NBD_OK (rq_handle req)"
  shows "durable (wc_origin u) = data (wc_origin u)"
proof -
  note new = new_cache_layers [where dat = data, OF assms(2-4)]
  have t: "cache_base contents good data t" "cache_synced data durable t"
    using cached_origin.exec_all_synced [OF assms(1) new(1) assms(6)] new assms(5)
    by (simp_all add: cache_synced_def)
  from assms(8) show ?thesis
  proof
    assume "rq_cmd req = CmdFlush"
    then have "wc_flush env t = (u, Ok ())"
      using serve_flush_ok assms(7,9) by (fastforce simp: wc_ops_def)
    then show ?thesis using cached_origin.wc_flush_law [OF assms(1) t(1)] t(2) by blast
  next
    assume w: "rq_cmd req = CmdWrite \<and> rq_flags req = NBD_CMD_FLAG_FUA \<and> payload \<noteq> []"
    then have "wc_write_at_with_options env t (rq_offset req) payload \<lparr>wo_fua = True\<rparr> = (u, Ok ())"
      using serve_fua_ok assms(7,9) by (fastforce simp: wc_ops_def)
    then show ?thesis using cached_origin.wc_write_law [OF assms(1) t(1)] t(2) w by fastforce
  qed
qed

theorem acknowledged_flush_durable_witness:
  "\<exists>s u out. with_chunk_bytes 4096 ([1, 2, 3, 4], [1, 2, 3, 4]) 4 1 2 = Ok s \<and>
     serve (wc_ops plain_cache_env) demo_fua [8, 9] s = (u, out) \<and>
     so_reply out = encode_simple_reply NBD_OK (rq_handle demo_fua) \<and> snd (wc_origin u) = fst (wc_origin u)"
proof -
  obtain s :: "(nat, byte list device_mem, byte list \<times> byte list) wt_cache"
    where s: "with_chunk_bytes 4096 ([1, 2, 3, 4], [1, 2, 3, 4]) 4 1 2 = Ok s" using new_cache_demo by blast
  obtain u out where u: "serve (wc_ops plain_cache_env) demo_fua [8, 9] s = (u, out)"
    "so_reply out = encode_simple_reply NBD_OK (rq_handle demo_fua)" using demo_fua_served [OF s] by blast
  have "snd (wc_origin u) = fst (wc_origin u)"
    by (rule acknowledged_flush_durable [OF plain_cache.cached_origin_axioms s _ _ _ _ u(1) _ u(2), of "[]" "[]"])
      (simp_all add: u64_max_def demo_fua_def)
  with s u show ?thesis by blast
qed

text \<open>
  C29. The shape of a cache is a type invariant. Whatever a new cache has gone through, failed probes and failed
  transfers included, every position of the disk has a chunk and a validity bit, every mapped chunk is
  a region of exactly the chunk size, and the chunks together do not overflow: no index and no
  sum in the cache can go out of range.
\<close>

theorem cache_shape_kept:
  assumes "cached_origin env contents good data durable"
    and "with_chunk_bytes p g sz block cb = Ok s" "sz + cb \<le> u64_max" "sz \<le> length (data g)"
    and "cache_exec_all env evs s = (t, outs)"
  shows "(\<forall>q < wc_size t. q div wc_chunk_bytes t < length (wc_chunks t) \<and>
      q mod wc_chunk_bytes t div wc_block t < length (cc_valid (wc_chunks t ! (q div wc_chunk_bytes t)))) \<and>
    (\<forall>c m. c \<in> set (wc_chunks t) \<longrightarrow> cc_mem c = Some m \<longrightarrow> good m \<and> length (contents m) = wc_chunk_bytes t) \<and>
    length (wc_chunks t) * wc_chunk_bytes t \<le> u64_max"
proof -
  have t: "cache_wf contents good t"
    using cached_origin.exec_all_synced [OF assms(1) new_cache_layers(1) [where dat = data, OF assms(2-4)] assms(5)]
    by (simp add: cache_base_def)
  have "good m \<and> length (contents m) = wc_chunk_bytes t" if "c \<in> set (wc_chunks t)" "cc_mem c = Some m" for c m
    using that cache_wf_chunk [OF t] by (auto simp: in_set_conv_nth cache_chunk_wf_def)
  moreover have "cache_geometry t" using t by (simp add: cache_wf_def)
  ultimately show ?thesis using position_in_cache [OF t] cached_exact(2) by blast
qed

theorem cache_shape_kept_witness:
  "\<exists>s t outs. with_chunk_bytes 4096 ([1, 2, 3, 4], [1, 2, 3, 4]) 4 1 2 = Ok s \<and>
     cache_exec_all plain_cache_env demo_events s = (t, outs) \<and> length (wc_chunks t) * wc_chunk_bytes t \<le> u64_max"
proof -
  obtain s :: "(nat, byte list device_mem, byte list \<times> byte list) wt_cache"
    where s: "with_chunk_bytes 4096 ([1, 2, 3, 4], [1, 2, 3, 4]) 4 1 2 = Ok s" using new_cache_demo by blast
  obtain t outs where t: "cache_exec_all plain_cache_env demo_events s = (t, outs)" by fastforce
  from cache_shape_kept [OF plain_cache.cached_origin_axioms s _ _ t] show ?thesis using s t by (auto simp: u64_max_def)
qed

end
