(* ===== verification/Origin_Policy.thy ===== *)
theory Origin_Policy
  imports Origin_Service
begin

text \<open>
  The policy of the origin cache over its whole life: which GPU samples make it grow and which make it
  give memory back (\<open>observe_gpu\<close> in \<^verbatim>\<open>crates/ramshared-block/src/origin_cache.rs\<close>). The two counters of the
  policy are tied to the samples the cache has seen, whatever requests, releases and probes came
  between them.
\<close>

subsection \<open>The samples of a run\<close>

text \<open>The judgement \<open>observe_gpu\<close> passes on a sample, and the judgements of a run in order.\<close>

definition restricting :: "('p, 'm, 'o) wt_cache \<Rightarrow> gpu_sample option \<Rightarrow> bool" where
  "restricting s sample \<longleftrightarrow>
     sample = None \<or>
     physical_target_bytes (wc_physical_cap_bytes s) sample < cached_bytes s \<or>
     physical_target_bytes (wc_physical_cap_bytes s) sample < wc_chunk_bytes s"

fun verdicts :: "('p, 'm, 'o) cache_env \<Rightarrow> cache_event list \<Rightarrow> ('p, 'm, 'o) wt_cache \<Rightarrow> bool list" where
  "verdicts env [] s = []"
| "verdicts env (ev # evs) s =
     (case ev of CeObserve sample _ \<Rightarrow> [restricting s sample] | _ \<Rightarrow> []) @
     verdicts env evs (fst (cache_exec env ev s))"

text \<open>How many of the last judgements in a row satisfy a predicate.\<close>

definition streak :: "('a \<Rightarrow> bool) \<Rightarrow> 'a list \<Rightarrow> nat" where
  "streak P xs = length (takeWhile P (rev xs))"

lemma streak_simps [simp]:
  "streak P [] = 0" "streak P (xs @ [x]) = (if P x then Suc (streak P xs) else 0)"
  by (simp_all add: streak_def)

lemma streak_single [simp]: "streak P [x] = (if P x then 1 else 0)"
  by (simp add: streak_def)

subsection \<open>Only samples move the counters\<close>

definition sample_counts :: "('p, 'm, 'o) wt_cache \<Rightarrow> nat \<times> nat" where
  "sample_counts s = (wc_healthy_samples s, wc_restricted_samples s)"

lemma counts_parts [simp]:
  "sample_counts (count_tel upd s) = sample_counts s"
  "sample_counts (set_cache_chunk i c s) = sample_counts s"
  "sample_counts (mark_origin_failed s) = sample_counts s"
  "sample_counts (s\<lparr>wc_origin := g\<rparr>) = sample_counts s"
  "sample_counts (s\<lparr>wc_origin := g, wc_origin_dirty := d\<rparr>) = sample_counts s"
  "sample_counts (s\<lparr>wc_access_clock := k\<rparr>) = sample_counts s"
  by (simp_all add: sample_counts_def count_tel_def set_cache_chunk_def mark_origin_failed_def)

lemma counts_chunks [simp]:
  "sample_counts (invalidate_chunk i s) = sample_counts s"
  "sample_counts (invalidate_live i s) = sample_counts s"
  "sample_counts (release_chunk i s) = sample_counts s"
  "sample_counts (touch_chunk i s) = sample_counts s"
  "sample_counts (mark_fully_covered_blocks i r n s) = sample_counts s"
  "sample_counts (update_cached_piece mops refusals i r bs s) = sample_counts s"
  by (simp_all add: invalidate_chunk_def invalidate_live_def release_chunk_def touch_chunk_def
      mark_fully_covered_blocks_def update_cached_piece_def Let_def split: option.split prod.split result.split)

lemma counts_fold: "(\<And>x s. sample_counts (f x s) = sample_counts s) \<Longrightarrow> sample_counts (fold f xs s) = sample_counts s"
  by (induction xs arbitrary: s) simp_all

lemma counts_release_lru: "sample_counts (fst (release_lru_to target released s)) = sample_counts s"
proof (induction target released s rule: release_lru_to.induct)
  case (1 target released s)
  then show ?case
    by (cases "lru_chunk s") (simp_all add: release_lru_to.simps [of target released s])
qed

lemma counts_update_pieces: "sample_counts (update_pieces mops refusals bs ps s) = sample_counts s"
  by (induction mops refusals bs ps s rule: update_pieces.induct) simp_all

lemma counts_read_pieces: "cache_read_pieces mops ps s = (t, r) \<Longrightarrow> sample_counts t = sample_counts s"
  by (induction mops ps s arbitrary: t r rule: cache_read_pieces.induct)
    (auto split: option.splits result.splits prod.splits)

lemma counts_ranges [simp]:
  "sample_counts (invalidate_cached_range off n s) = sample_counts s"
  "sample_counts (invalidate_all_cached s) = sample_counts s"
  "sample_counts (update_cached_chunks mops off bs refusals s) = sample_counts s"
  by (simp_all add: invalidate_cached_range_def invalidate_all_cached_def update_cached_chunks_def counts_fold
      counts_update_pieces)

lemma counts_origin:
  "write_origin env off bs s = (t, r) \<Longrightarrow> sample_counts t = sample_counts s"
  "sync_dirty_origin env s = (t, r) \<Longrightarrow> sample_counts t = sample_counts s"
  "fallback_read env off n s = (u, rd) \<Longrightarrow> sample_counts u = sample_counts s"
  by (auto simp: write_origin_def sync_dirty_origin_def fallback_read_def Let_def
      split: prod.splits result.splits if_splits)

lemma counts_read: "wc_read_at env s off n = (t, r) \<Longrightarrow> sample_counts t = sample_counts s"
  by (auto simp: wc_read_at_def cache_read_def
      split: result.splits if_splits prod.splits dest!: counts_origin(3) counts_read_pieces)

lemma counts_write: "wc_write_at_with_options env s off bs opt = (t, r) \<Longrightarrow> sample_counts t = sample_counts s"
  by (auto simp: wc_write_at_with_options_def wc_write_at_def
      split: result.splits if_splits prod.splits dest!: counts_origin(1,2))

lemma counts_flush: "wc_flush env s = (t, r) \<Longrightarrow> sample_counts t = sample_counts s"
  by (auto simp: wc_flush_def split: result.splits dest: counts_origin(2))

lemma counts_serve: "serve (wc_ops env) req payload s = (t, out) \<Longrightarrow> sample_counts t = sample_counts s"
  by (auto simp: serve_def wc_ops_def Let_def
      split: result.splits command.splits if_splits prod.splits dest: counts_read counts_write counts_flush)

lemma counts_probe: "probe_origin env s = (t, r) \<Longrightarrow> sample_counts t = sample_counts s"
  by (auto simp: probe_origin_def sample_counts_def count_tel_def mark_origin_failed_def Let_def
      split: prod.splits result.splits if_splits)

lemma counts_other:
  assumes "\<And>sample now. ev \<noteq> CeObserve sample now"
  shows "sample_counts (fst (cache_exec env ev s)) = sample_counts s"
proof (cases ev)
  case (CeRequest req payload)
  then show ?thesis using counts_serve by (metis cache_exec.simps(1) fst_map_prod id_apply prod.collapse)
next
  case CeRelease
  then show ?thesis
    using counts_release_lru [of 0 0 s] by (simp add: release_cache_def case_prod_beta Let_def sample_counts_def)
next
  case CeProbe
  then show ?thesis using counts_probe by (metis cache_exec.simps(5) fst_map_prod id_apply prod.collapse)
next
  case (CeSetCap cap)
  then show ?thesis by (simp add: set_physical_cap_bytes_def sample_counts_def)
qed (use assms in blast)

subsection \<open>One sample\<close>

text \<open>The steps of \<open>observe_gpu\<close> behind the judgement.\<close>

lemma observe_gpu_steps:
  assumes "observe_gpu env sample now s = (t, out)"
  obtains target s2 s3 s4 rel alo where
    "target = physical_target_bytes (wc_physical_cap_bytes s) sample"
    "s2 = note_sample sample (restricting s sample) (s\<lparr>wc_target_bytes := target\<rparr>)"
    "reclaim_step target (restricting s sample) s2 = (s3, rel)"
    "growth_step env target (restricting s sample) now s3 = (s4, alo)"
    "t = stuck_step target now s4" "co_target_bytes out = target" "co_allocated_bytes out = alo"
proof -
  define target where "target = physical_target_bytes (wc_physical_cap_bytes s) sample"
  have "cached_bytes (s\<lparr>wc_target_bytes := target\<rparr>) = cached_bytes s" by (rule cached_frame) simp_all
  then have r: "(sample = None \<or> target < cached_bytes (s\<lparr>wc_target_bytes := target\<rparr>) \<or>
      target < wc_chunk_bytes (s\<lparr>wc_target_bytes := target\<rparr>)) = restricting s sample"
    by (simp add: restricting_def target_def)
  obtain s3 rel where s3: "reclaim_step target (restricting s sample)
      (note_sample sample (restricting s sample) (s\<lparr>wc_target_bytes := target\<rparr>)) = (s3, rel)" by fastforce
  obtain s4 alo where s4: "growth_step env target (restricting s sample) now s3 = (s4, alo)" by fastforce
  have "observe_gpu env sample now s = (stuck_step target now s4,
      \<lparr>co_target_bytes = target, co_allocated_bytes = alo, co_released_bytes = rel\<rparr>)"
    unfolding observe_gpu_def Let_def target_def [symmetric] r s3 prod.case s4 ..
  with assms show thesis by (intro that [OF target_def refl s3 s4]) auto
qed

lemma counts_growth: "growth_step env target restricted now s = (t, n) \<Longrightarrow> sample_counts t = sample_counts s"
  by (auto simp: growth_step_def allocate_one_chunk_def sample_counts_def count_tel_def set_cache_chunk_def Let_def
      split: if_splits prod.splits result.splits option.splits)

lemma counts_stuck: "sample_counts (stuck_step target now s) = sample_counts s"
  by (simp add: stuck_step_def sample_counts_def Let_def)

lemma observe_counts:
  assumes "observe_gpu env sample now s = (t, out)" "wc_restricted_samples s < 3"
  shows "sample_counts t =
    (if restricting s sample then (0, Suc (wc_restricted_samples s) mod 3)
     else (min u8_max (Suc (wc_healthy_samples s)), 0))"
  using assms(1)
proof (cases rule: observe_gpu_steps)
  case (1 target s2 s3 s4 rel alo)
  have "sample_counts t = sample_counts s3" using counts_growth [OF 1(4)] counts_stuck 1(5) by metis
  moreover have "wc_restricted_samples s \<in> {0, 1, 2}" using assms(2) by auto
  ultimately show ?thesis
    using 1(3) counts_release_lru [of target 0 s2] unfolding 1(2)
    by (auto simp: reclaim_step_def note_sample_def sample_counts_def saturating_add_def u8_max_def
        RESTRICTED_SAMPLES_TO_RECLAIM_def Let_def split: if_splits prod.splits)
qed

lemma observe_cached:
  assumes "cache_wf contents good s" "observe_gpu env sample now s = (t, out)" "wc_restricted_samples s < 3"
  shows "co_target_bytes out = physical_target_bytes (wc_physical_cap_bytes s) sample \<and>
    cached_bytes t \<le> max (co_target_bytes out) (cached_bytes s) \<and>
    (cached_bytes s < cached_bytes t \<longrightarrow>
       cached_bytes t = cached_bytes s + wc_chunk_bytes s \<and> co_allocated_bytes out = wc_chunk_bytes s \<and>
       cached_bytes t \<le> co_target_bytes out \<and> \<not> restricting s sample \<and> 3 \<le> wc_healthy_samples t) \<and>
    (restricting s sample \<longrightarrow> wc_restricted_samples s = 2 \<longrightarrow> cached_bytes t \<le> co_target_bytes out) \<and>
    (cached_bytes t < cached_bytes s \<longrightarrow> restricting s sample \<and> wc_restricted_samples s = 2)"
  using assms(2)
proof (cases rule: observe_gpu_steps)
  case (1 target s2 s3 s4 rel alo)
  let ?r = "restricting s sample"
  have c4: "cached_bytes t = cached_bytes s4"
    unfolding 1(5) by (rule cached_frame) (simp_all add: stuck_step_def Let_def)
  have c2: "cached_bytes s2 = cached_bytes s" "wc_chunk_bytes s2 = wc_chunk_bytes s"
    unfolding 1(2) by (rule cached_frame; simp add: note_sample_def) (simp add: note_sample_def)
  have wf2: "cache_wf contents good s2"
    unfolding 1(2) using assms(1)
    by (simp add: note_sample_def cache_wf_def cache_geometry_def cache_chunk_wf_def)
  note r3 = reclaim_cached [OF wf2 1(3)]
  have sh: "sheds contents good s2 s3" using sheds_reclaim 1(3) by (metis fst_conv)
  then have s3: "cache_wf contents good s3" "wc_chunk_bytes s3 = wc_chunk_bytes s"
    using sheds_wf [OF sh wf2] sheds_same [OF sh] c2(2) by (simp_all add: wc_same_def)
  note g4 = growth_cached [OF s3(1) 1(4)]
  have h: "wc_healthy_samples t = wc_healthy_samples s3"
    using counts_growth [OF 1(4)] counts_stuck [of target now s4] 1(5) by (simp add: sample_counts_def)
  have r2: "?r \<Longrightarrow> wc_restricted_samples s2 = Suc (wc_restricted_samples s)"
    using assms(3) by (simp add: 1(2) note_sample_def saturating_add_def u8_max_def)
  have same: "s3 = s2" if "\<not> (?r \<and> wc_restricted_samples s = 2)"
    using 1(3) that r2 assms(3) by (auto simp: reclaim_step_def RESTRICTED_SAMPLES_TO_RECLAIM_def split: if_splits)
  have "?r" if "target < cached_bytes s" using that 1(1) by (simp add: restricting_def)
  then show ?thesis
    using r3 g4 c2 c4 s3(2) h 1(1,6,7) same r2
    by (cases "?r \<and> wc_restricted_samples s = 2")
      (auto simp: HEALTHY_SAMPLES_TO_GROW_def RESTRICTED_SAMPLES_TO_RECLAIM_def)
qed

subsection \<open>The counters are the streaks\<close>

definition counts_match :: "bool list \<Rightarrow> ('p, 'm, 'o) wt_cache \<Rightarrow> bool" where
  "counts_match vs s \<longleftrightarrow> sample_counts s = (min u8_max (streak Not vs), streak id vs mod 3)"

lemma observe_match:
  assumes "counts_match vs s" "observe_gpu env sample now s = (t, out)"
  shows "counts_match (vs @ [restricting s sample]) t"
proof -
  have s: "wc_healthy_samples s = min u8_max (streak Not vs)" "wc_restricted_samples s = streak id vs mod 3"
    using assms(1) by (simp_all add: counts_match_def sample_counts_def)
  then show ?thesis
    using observe_counts [OF assms(2)] by (auto simp: counts_match_def mod_Suc u8_max_def)
qed

lemma run_match:
  "counts_match vs s \<Longrightarrow> cache_exec_all env evs s = (t, outs) \<Longrightarrow> counts_match (vs @ verdicts env evs s) t"
proof (induction evs arbitrary: vs s outs)
  case (Cons ev evs)
  let ?s1 = "fst (cache_exec env ev s)" and ?v = "case ev of CeObserve sample _ \<Rightarrow> [restricting s sample] | _ \<Rightarrow> []"
  have "counts_match (vs @ ?v) ?s1"
  proof (cases "\<exists>sample now. ev = CeObserve sample now")
    case True
    then obtain sample now where ev: "ev = CeObserve sample now" by blast
    obtain u out where u: "observe_gpu env sample now s = (u, out)" by fastforce
    from observe_match [OF Cons.prems(1) u] show ?thesis by (simp add: ev u)
  next
    case False
    then have "sample_counts ?s1 = sample_counts s" "?v = []" by (auto intro: counts_other split: cache_event.split)
    then show ?thesis using Cons.prems(1) by (simp add: counts_match_def)
  qed
  moreover obtain outs' where "cache_exec_all env evs ?s1 = (t, outs')"
    using Cons.prems(2) by (auto simp: Let_def split: prod.splits)
  ultimately show ?case using Cons.IH by fastforce
qed simp

lemma new_match: "with_chunk_bytes p g sz block cb = Ok s \<Longrightarrow> counts_match [] s"
  by (auto simp: counts_match_def sample_counts_def with_chunk_bytes_def split: if_splits)

lemma third_sample: "3 dvd Suc k \<longleftrightarrow> k mod 3 = 2" for k :: nat
  by presburger

lemma verdicts_snoc:
  "cache_exec_all env evs s = (t, outs) \<Longrightarrow>
   verdicts env (evs @ [CeObserve sample now]) s = verdicts env evs s @ [restricting t sample]"
  by (induction evs arbitrary: s outs) (auto simp: Let_def split: prod.splits)

subsection \<open>Properties\<close>

text \<open>
  C24. The cache respects its share of VRAM. Whatever a new cache has gone through, one GPU sample sets a
  target, the budget less the external use and a reserve of a fifth of the card and at least 2 GiB,
  capped by the configured size. A sample is restricting when it is missing or its target is below
  the cached bytes or below one chunk, and healthy otherwise. The cached bytes grow by one chunk at
  a time, within the target, and only at a sample that ends a streak of at least three healthy samples, no
  restricting one among them. They shrink only at every third restricting sample of a streak with no
  healthy one among them, and such a sample brings them down to the target. Requests, releases,
  probes and changes of the cap between the samples do not count.
\<close>

theorem observe_respects_target:
  assumes "cached_origin env contents good data durable"
    and "with_chunk_bytes p g sz block cb = Ok s0" "sz + cb \<le> u64_max" "sz \<le> length (data g)"
    and "cache_exec_all env evs s0 = (s, outs)" "observe_gpu env sample now s = (t, out)"
  shows "let vs = verdicts env (evs @ [CeObserve sample now]) s0 in
    co_target_bytes out = physical_target_bytes (wc_physical_cap_bytes s) sample \<and>
    cached_bytes t \<le> max (co_target_bytes out) (cached_bytes s) \<and>
    (cached_bytes s < cached_bytes t \<longrightarrow>
       cached_bytes t = cached_bytes s + wc_chunk_bytes s \<and> co_allocated_bytes out = wc_chunk_bytes s \<and>
       cached_bytes t \<le> co_target_bytes out \<and> 3 \<le> streak Not vs) \<and>
    (0 < streak id vs \<and> 3 dvd streak id vs \<longrightarrow> cached_bytes t \<le> co_target_bytes out) \<and>
    (cached_bytes t < cached_bytes s \<longrightarrow> 0 < streak id vs \<and> 3 dvd streak id vs)"
proof -
  have wf: "cache_wf contents good s"
    using cached_origin.exec_all_synced [OF assms(1) new_cache_layers(1) [where dat = data, OF assms(2-4)] assms(5)]
    by (simp add: cache_base_def)
  from run_match [OF new_match [OF assms(2)] assms(5)] have m: "counts_match (verdicts env evs s0) s" by simp
  then have r: "wc_restricted_samples s = streak id (verdicts env evs s0) mod 3"
    by (simp add: counts_match_def sample_counts_def)
  have "wc_healthy_samples t = min u8_max (streak Not (verdicts env evs s0 @ [restricting s sample]))"
    using observe_match [OF m assms(6)] by (simp add: counts_match_def sample_counts_def)
  then have h: "3 \<le> wc_healthy_samples t \<Longrightarrow> 3 \<le> streak Not (verdicts env evs s0 @ [restricting s sample])"
    by simp
  from observe_cached [OF wf assms(6)] h r show ?thesis
    by (auto simp: verdicts_snoc [OF assms(5)] Let_def third_sample)
qed

text \<open>A small cache, a healthy sample for it, and what a few samples do.\<close>

definition demo_sample :: "gpu_sample option" where
  "demo_sample = Some \<lparr>gs_budget_bytes = 2 * GIB + 4, gs_external_usage_bytes = 0, gs_total_vram_bytes = 0\<rparr>"

definition policy_at ::
  "bool \<Rightarrow> nat \<Rightarrow> nat \<Rightarrow> (nat, byte list device_mem, byte list \<times> byte list) wt_cache \<Rightarrow> bool" where
  "policy_at live h r s \<longleftrightarrow>
     wc_chunk_bytes s = 2 \<and> wc_physical_cap_bytes s = 4 \<and> wc_healthy_samples s = h \<and> wc_restricted_samples s = r \<and>
     (\<not> live \<longrightarrow> 2 \<le> wc_provider s \<and> wc_last_growth_at s = None) \<and>
     (\<exists>c c'. wc_chunks s = [c, c'] \<and> (cc_mem c \<noteq> None) = live \<and> cc_mem c' = None)"

lemma policy_cached: "policy_at live h r s \<Longrightarrow> cached_bytes s = (if live then 2 else 0)"
  by (auto simp: policy_at_def cached_bytes_def wrapping_add_def u64_max_def)

lemma policy_new:
  "with_chunk_bytes 4096 ([1, 2, 3, 4], [1, 2, 3, 4]) 4 1 2 = Ok s \<Longrightarrow> policy_at False 0 0 s"
proof -
  have "[0..<2] = [0, Suc 0]" by (simp add: upt_rec)
  then show "with_chunk_bytes 4096 ([1, 2, 3, 4], [1, 2, 3, 4]) 4 1 2 = Ok s \<Longrightarrow> policy_at False 0 0 s"
    by (auto simp: with_chunk_bytes_def is_multiple_of_def policy_at_def div_ceil_def new_cache_chunk_def Let_def)
qed

lemma demo_target [simp]: "physical_target_bytes 4 demo_sample = 4" "physical_target_bytes 4 None = 0"
  by (simp_all add: physical_target_bytes_def demo_sample_def GIB_def div_ceil_def saturating_sub_def)

lemmas policy_run_defs = observe_gpu_def note_sample_def reclaim_step_def growth_step_def stuck_step_def
  allocate_one_chunk_def set_cache_chunk_def cached_bytes_def saturating_add_def saturating_sub_def
  wrapping_add_def u64_max_def u8_max_def HEALTHY_SAMPLES_TO_GROW_def RESTRICTED_SAMPLES_TO_RECLAIM_def Let_def

lemma plain_zero: "\<exists>m'. mo_zero (device_mem_ops plain_syms) m = (m', Ok ())"
  by (simp add: device_mem_ops_def plain_syms_def dm_zero_def cuda_check_def Let_def)

lemma policy_healthy:
  assumes "policy_at False h r s" "h < 2"
  shows "policy_at False (Suc h) 0 (fst (observe_gpu plain_cache_env demo_sample now s))"
proof -
  obtain c c' where s: "wc_chunk_bytes s = 2" "wc_physical_cap_bytes s = 4" "wc_healthy_samples s = h"
    "wc_restricted_samples s = r" "wc_chunks s = [c, c']" "cc_mem c = None" "cc_mem c' = None"
    "2 \<le> wc_provider s" "wc_last_growth_at s = None"
    using assms(1) by (auto simp: policy_at_def)
  have "demo_sample \<noteq> None" by (simp add: demo_sample_def)
  then show ?thesis using s assms(2)
    by (simp add: policy_run_defs policy_at_def)
qed

lemma policy_growth:
  assumes "policy_at False 2 r s"
  shows "policy_at True 3 0 (fst (observe_gpu plain_cache_env demo_sample now s))"
proof -
  obtain c c' where s: "wc_chunk_bytes s = 2" "wc_physical_cap_bytes s = 4" "wc_healthy_samples s = 2"
    "wc_restricted_samples s = r" "wc_chunks s = [c, c']" "cc_mem c = None" "cc_mem c' = None"
    "2 \<le> wc_provider s" "wc_last_growth_at s = None"
    using assms by (auto simp: policy_at_def)
  obtain m where "mo_zero (device_mem_ops plain_syms) \<lparr>dm_region = replicate 2 1, dm_len = 2\<rparr> = (m, Ok ())"
    using plain_zero by blast
  moreover have "demo_sample \<noteq> None" by (simp add: demo_sample_def)
  ultimately show ?thesis using s
    by (simp add: policy_run_defs policy_at_def plain_cache_env_def plain_prov_def)
qed

lemma policy_restricted:
  assumes "policy_at True h r s" "r < 2"
  shows "policy_at True 0 (Suc r) (fst (observe_gpu plain_cache_env None now s))"
proof -
  obtain c c' m where s: "wc_chunk_bytes s = 2" "wc_physical_cap_bytes s = 4" "wc_healthy_samples s = h"
    "wc_restricted_samples s = r" "wc_chunks s = [c, c']" "cc_mem c = Some m" "cc_mem c' = None"
    using assms by (auto simp: policy_at_def)
  then show ?thesis using assms(2) by (simp add: policy_run_defs policy_at_def)
qed

definition growing :: "cache_event list" where
  "growing = [CeObserve demo_sample 0, CeObserve demo_sample 1]"

definition shrinking :: "cache_event list" where
  "shrinking = growing @ [CeObserve demo_sample 2, CeObserve None 3, CeObserve None 4]"

lemma policy_runs:
  assumes "with_chunk_bytes 4096 ([1, 2, 3, 4], [1, 2, 3, 4]) 4 1 2 = Ok s0"
  shows "policy_at False 2 0 (fst (cache_exec_all plain_cache_env growing s0))"
    and "policy_at True 0 2 (fst (cache_exec_all plain_cache_env shrinking s0))"
proof -
  have a: "policy_at False 2 0 (fst (observe_gpu plain_cache_env demo_sample 1 (fst (observe_gpu plain_cache_env demo_sample 0 s0))))"
    using policy_healthy [OF policy_healthy [OF policy_new [OF assms]]] by (simp add: numeral_2_eq_2)
  then show "policy_at False 2 0 (fst (cache_exec_all plain_cache_env growing s0))"
    by (simp add: growing_def case_prod_beta)
  show "policy_at True 0 2 (fst (cache_exec_all plain_cache_env shrinking s0))"
    using policy_restricted [OF policy_restricted [OF policy_growth [OF a]]]
    by (simp add: shrinking_def growing_def case_prod_beta numeral_2_eq_2)
qed

theorem observe_respects_target_witness:
  "\<exists>s0 s outs t out u outs' v out'. with_chunk_bytes 4096 ([1, 2, 3, 4], [1, 2, 3, 4]) 4 1 2 = Ok s0 \<and>
     cache_exec_all plain_cache_env growing s0 = (s, outs) \<and>
     observe_gpu plain_cache_env demo_sample 2 s = (t, out) \<and> cached_bytes s = 0 \<and> cached_bytes t = 2 \<and>
     3 \<le> streak Not (verdicts plain_cache_env (growing @ [CeObserve demo_sample 2]) s0) \<and>
     cache_exec_all plain_cache_env shrinking s0 = (u, outs') \<and>
     observe_gpu plain_cache_env None 5 u = (v, out') \<and> cached_bytes u = 2 \<and> cached_bytes v = 0"
proof -
  obtain s0 :: "(nat, byte list device_mem, byte list \<times> byte list) wt_cache"
    where s0: "with_chunk_bytes 4096 ([1, 2, 3, 4], [1, 2, 3, 4]) 4 1 2 = Ok s0" using new_cache_demo by blast
  obtain s outs where s: "cache_exec_all plain_cache_env growing s0 = (s, outs)" by fastforce
  obtain u outs' where u: "cache_exec_all plain_cache_env shrinking s0 = (u, outs')" by fastforce
  obtain t out where t: "observe_gpu plain_cache_env demo_sample 2 s = (t, out)" by fastforce
  obtain v out' where v: "observe_gpu plain_cache_env None 5 u = (v, out')" by fastforce
  note runs = policy_runs [OF s0, unfolded s u fst_conv]
  have c: "cached_bytes s = 0" "cached_bytes t = 2" "cached_bytes u = 2"
    using policy_cached [OF runs(1)] policy_cached [OF runs(2)] policy_cached [OF policy_growth [OF runs(1)], of 2] t by simp_all
  have "3 \<le> streak Not (verdicts plain_cache_env (growing @ [CeObserve demo_sample 2]) s0)"
    using observe_respects_target [OF plain_cache.cached_origin_axioms s0 _ _ s t] c by (simp add: Let_def u64_max_def)
  moreover have "streak id (verdicts plain_cache_env shrinking s0) mod 3 = 2"
    using run_match [OF new_match [OF s0] u] runs(2) by (simp add: counts_match_def sample_counts_def policy_at_def)
  then have "cached_bytes v = 0"
    using observe_respects_target [OF plain_cache.cached_origin_axioms s0 _ _ u v] verdicts_snoc [OF u, of None 5]
    by (simp add: Let_def u64_max_def physical_target_bytes_def restricting_def third_sample)
  ultimately show ?thesis using s0 s t u v c by blast
qed

end
