(* ===== verification/Isolated_Origin.thy ===== *)
theory Isolated_Origin
  imports Origin_Service
begin

text \<open>
  The authoritative origin (\<^verbatim>\<open>crates/ramshared-block/src/isolated_origin.rs\<close>): a durable origin with a cache
  it never depends on. The trait \<open>BestEffortCache\<close> is a record of operations; its two implementations
  of this file, \<open>DisabledCache\<close> and the bounded client of an isolated worker, are instances. The locale
  \<open>best_effort_cache\<close> states what the backend relies on, and the backend is shown to serve the origin's
  contents over every cache that keeps it. The contract asks nothing of a failed operation, so that the
  proof rests on the revocations of the code.
\<close>

subsection \<open>The cache boundary\<close>

text \<open>A hit carries the bytes that the code copies into the destination.\<close>

datatype cache_read_outcome = CrHit "byte list" | CrMiss | CrFailed

datatype cache_mutation = CmAccepted | CmSkipped | CmFailed

record 'c best_effort_ops =
  bec_read :: "'c \<Rightarrow> nat \<Rightarrow> nat \<Rightarrow> 'c \<times> cache_read_outcome"
  bec_update :: "'c \<Rightarrow> nat \<Rightarrow> byte list \<Rightarrow> 'c \<times> cache_mutation"
  bec_promote :: "'c \<Rightarrow> nat \<Rightarrow> byte list \<Rightarrow> 'c \<times> cache_mutation"
  bec_disable :: "'c \<Rightarrow> 'c \<times> cache_mutation"
  bec_state :: "'c \<Rightarrow> cache_state"
  bec_cached_bytes :: "'c \<Rightarrow> nat"
  bec_target_bytes :: "'c \<Rightarrow> nat"

definition disabled_cache_ops :: "unit best_effort_ops" where
  "disabled_cache_ops =
     \<lparr>bec_read = (\<lambda>c off n. (c, CrMiss)), bec_update = (\<lambda>c off bs. (c, CmSkipped)),
      bec_promote = (\<lambda>c off bs. (c, CmSkipped)), bec_disable = (\<lambda>c. (c, CmAccepted)),
      bec_state = (\<lambda>c. CsUnavailable), bec_cached_bytes = (\<lambda>c. 0), bec_target_bytes = (\<lambda>c. 0)\<rparr>"

subsection \<open>The bounded client\<close>

text \<open>
  The client's ends of the two channels. \<open>try_send\<close> says whether the queue took the message; a receive
  that gives nothing ran into its deadline or found the other end gone.
\<close>

datatype isolated_cache_request =
    IcRead nat nat
  | IcUpdate nat "byte list"
  | IcPromote nat "byte list"

record 'w worker_link =
  wl_try_send :: "'w \<Rightarrow> isolated_cache_request \<Rightarrow> 'w \<times> bool"
  wl_recv_reply :: "duration \<Rightarrow> 'w \<Rightarrow> 'w \<times> (byte list option, string) result option"
  wl_try_disable :: "'w \<Rightarrow> 'w \<times> bool"
  wl_recv_ack :: "duration \<Rightarrow> 'w \<Rightarrow> 'w \<times> (unit, string) result option"

record 'w bounded_cache_client =
  bcl_link :: 'w
  bcl_read_timeout :: duration
  bcl_state :: cache_state

definition isolated_cache_client :: "'w \<Rightarrow> duration \<Rightarrow> 'w bounded_cache_client" where
  "isolated_cache_client w timeout = \<lparr>bcl_link = w, bcl_read_timeout = timeout, bcl_state = CsActive\<rparr>"

definition bcl_fail :: "'w bounded_cache_client \<Rightarrow> 'w bounded_cache_client \<times> cache_mutation" where
  "bcl_fail c = (c\<lparr>bcl_state := CsUnavailable\<rparr>, CmFailed)"

definition send_mutation ::
  "'w worker_link \<Rightarrow> 'w bounded_cache_client \<Rightarrow> isolated_cache_request \<Rightarrow>
   'w bounded_cache_client \<times> cache_mutation" where
  "send_mutation wl c req =
     (if bcl_state c \<noteq> CsActive then (c, CmSkipped)
      else case wl_try_send wl (bcl_link c) req of
          (w, True) \<Rightarrow> (c\<lparr>bcl_link := w\<rparr>, CmAccepted)
        | (w, False) \<Rightarrow> bcl_fail (c\<lparr>bcl_link := w\<rparr>))"

definition bcl_read ::
  "'w worker_link \<Rightarrow> 'w bounded_cache_client \<Rightarrow> nat \<Rightarrow> nat \<Rightarrow> 'w bounded_cache_client \<times> cache_read_outcome" where
  "bcl_read wl c off n =
     (if bcl_state c \<noteq> CsActive then (c, CrMiss)
      else case wl_try_send wl (bcl_link c) (IcRead off n) of
          (w, False) \<Rightarrow> (fst (bcl_fail (c\<lparr>bcl_link := w\<rparr>)), CrFailed)
        | (w, True) \<Rightarrow>
            (case wl_recv_reply wl (bcl_read_timeout c) w of
               (w', Some (Ok (Some bs))) \<Rightarrow>
                 if length bs = n then (c\<lparr>bcl_link := w'\<rparr>, CrHit bs)
                 else (fst (bcl_fail (c\<lparr>bcl_link := w'\<rparr>)), CrFailed)
             | (w', Some (Ok None)) \<Rightarrow> (c\<lparr>bcl_link := w'\<rparr>, CrMiss)
             | (w', Some (Err _)) \<Rightarrow> (fst (bcl_fail (c\<lparr>bcl_link := w'\<rparr>)), CrFailed)
             | (w', None) \<Rightarrow> (fst (bcl_fail (c\<lparr>bcl_link := w'\<rparr>)), CrFailed)))"

definition bcl_disable :: "'w worker_link \<Rightarrow> 'w bounded_cache_client \<Rightarrow> 'w bounded_cache_client \<times> cache_mutation" where
  "bcl_disable wl c =
     (if bcl_state c = CsOff then (c, CmSkipped)
      else case wl_try_disable wl (bcl_link c) of
          (w, False) \<Rightarrow> (c\<lparr>bcl_link := w, bcl_state := CsStuck\<rparr>, CmFailed)
        | (w, True) \<Rightarrow>
            (case wl_recv_ack wl (bcl_read_timeout c) w of
               (w', Some (Ok _)) \<Rightarrow> (c\<lparr>bcl_link := w', bcl_state := CsOff\<rparr>, CmAccepted)
             | (w', Some (Err _)) \<Rightarrow> (c\<lparr>bcl_link := w', bcl_state := CsStuck\<rparr>, CmFailed)
             | (w', None) \<Rightarrow> (c\<lparr>bcl_link := w', bcl_state := CsStuck\<rparr>, CmFailed)))"

definition bounded_cache_ops :: "'w worker_link \<Rightarrow> 'w bounded_cache_client best_effort_ops" where
  "bounded_cache_ops wl =
     \<lparr>bec_read = bcl_read wl,
      bec_update = (\<lambda>c off bs. send_mutation wl c (IcUpdate off bs)),
      bec_promote = (\<lambda>c off bs. send_mutation wl c (IcPromote off bs)),
      bec_disable = bcl_disable wl, bec_state = bcl_state,
      bec_cached_bytes = (\<lambda>c. 0), bec_target_bytes = (\<lambda>c. 0)\<rparr>"

subsection \<open>The backend\<close>

record ('o, 'c) ao_backend =
  ao_origin :: 'o
  ao_cache :: 'c
  ao_size :: nat
  ao_block :: nat
  ao_telemetry :: cache_telemetry
  ao_origin_state :: origin_state
  ao_origin_probe_successes :: nat
  ao_origin_dirty :: bool

record ('o, 'c) ao_env =
  ae_origin :: "'o origin_ops"
  ae_cache :: "'c best_effort_ops"

definition ao_new :: "'o \<Rightarrow> 'c \<Rightarrow> nat \<Rightarrow> nat \<Rightarrow> (('o, 'c) ao_backend, io_error) result" where
  "ao_new org cache sz block =
     (if sz = 0 \<or> block = 0 \<or> \<not> is_multiple_of sz block
      then Err (IoError ''invalid authoritative origin geometry'')
      else Ok \<lparr>ao_origin = org, ao_cache = cache, ao_size = sz, ao_block = block,
               ao_telemetry = cache_telemetry_default, ao_origin_state = OrReady,
               ao_origin_probe_successes = 0, ao_origin_dirty = False\<rparr>)"

definition ao_count ::
  "(cache_telemetry \<Rightarrow> cache_telemetry) \<Rightarrow> ('o, 'c) ao_backend \<Rightarrow> ('o, 'c) ao_backend" where
  "ao_count upd s = s\<lparr>ao_telemetry := upd (ao_telemetry s)\<rparr>"

definition revoke_cache ::
  "('o, 'c) ao_env \<Rightarrow> ('o, 'c) ao_backend \<Rightarrow> ('o, 'c) ao_backend \<times> cache_mutation" where
  "revoke_cache env s =
     (let s1 = if bec_state (ae_cache env) (ao_cache s) \<in> {CsOff, CsUnavailable} then s
               else ao_count (tl_invalidations_update (sat_bump 1)) s;
          (c, m) = bec_disable (ae_cache env) (ao_cache s1)
      in (s1\<lparr>ao_cache := c\<rparr>, m))"

definition ao_release_cache ::
  "('o, 'c) ao_env \<Rightarrow> ('o, 'c) ao_backend \<Rightarrow> ('o, 'c) ao_backend \<times> (nat, io_error) result" where
  "ao_release_cache env s =
     (case revoke_cache env s of
        (s1, CmFailed) \<Rightarrow> (s1, Err (IoError ''cache release acknowledgement was unavailable''))
      | (s1, _) \<Rightarrow> (ao_count (tl_releases_update (sat_bump 1)) s1, Ok 0))"

definition ao_mark_origin_failed :: "('o, 'c) ao_env \<Rightarrow> ('o, 'c) ao_backend \<Rightarrow> ('o, 'c) ao_backend" where
  "ao_mark_origin_failed env s =
     fst (revoke_cache env (s\<lparr>ao_origin_state := OrFailed, ao_origin_probe_successes := 0\<rparr>))"

definition ao_probe_origin ::
  "('o, 'c) ao_env \<Rightarrow> ('o, 'c) ao_backend \<Rightarrow> ('o, 'c) ao_backend \<times> (origin_state, io_error) result" where
  "ao_probe_origin env s =
     (let (g, result) =
            (case read_exact_at (ae_origin env) (ao_origin s) 0 (ao_block s) of
               (g1, Err e) \<Rightarrow> (g1, Err e)
             | (g1, Ok _) \<Rightarrow> os_sync_data (ae_origin env) g1);
          s1 = s\<lparr>ao_origin := g\<rparr>
      in case result of
           Err e \<Rightarrow> (ao_mark_origin_failed env s1, Err e)
         | Ok _ \<Rightarrow>
             let s2 = ao_count (tl_origin_syncs_update (sat_bump 1)) (s1\<lparr>ao_origin_dirty := False\<rparr>);
                 s3 = (if ao_origin_state s2 \<in> {OrFailed, OrDegraded} then
                         let k = saturating_add u8_max (ao_origin_probe_successes s2) 1
                         in if k \<ge> 3 then s2\<lparr>ao_origin_state := OrReady, ao_origin_probe_successes := 0\<rparr>
                            else s2\<lparr>ao_origin_state := OrDegraded, ao_origin_probe_successes := k\<rparr>
                       else s2)
             in (s3, Ok (ao_origin_state s3)))"

definition ao_check_range :: "('o, 'c) ao_backend \<Rightarrow> nat \<Rightarrow> nat \<Rightarrow> (unit, io_error) result" where
  "ao_check_range s off len =
     (case checked_add u64_max off len of
        None \<Rightarrow> Err (IoError ''authoritative origin I/O is out of range'')
      | Some e \<Rightarrow> if e \<le> ao_size s then Ok () else Err (IoError ''authoritative origin I/O is out of range''))"

definition ao_require_ready_origin :: "('o, 'c) ao_backend \<Rightarrow> (unit, io_error) result" where
  "ao_require_ready_origin s =
     (if ao_origin_state s = OrReady then Ok ()
      else Err (IoError ''origin authority is unavailable pending three read+sync probes''))"

definition ao_write_origin ::
  "('o, 'c) ao_env \<Rightarrow> nat \<Rightarrow> byte list \<Rightarrow> ('o, 'c) ao_backend \<Rightarrow>
   ('o, 'c) ao_backend \<times> (unit, io_error) result" where
  "ao_write_origin env off bs s =
     (case write_all_at (ae_origin env) (ao_origin s) off bs of
        (g, Err e) \<Rightarrow> (ao_mark_origin_failed env (s\<lparr>ao_origin := g\<rparr>), Err e)
      | (g, Ok _) \<Rightarrow>
          (ao_count (tl_origin_written_bytes_update (sat_bump (length bs)))
             (s\<lparr>ao_origin := g, ao_origin_dirty := True\<rparr>), Ok ()))"

definition ao_sync_dirty_origin ::
  "('o, 'c) ao_env \<Rightarrow> ('o, 'c) ao_backend \<Rightarrow> ('o, 'c) ao_backend \<times> (unit, io_error) result" where
  "ao_sync_dirty_origin env s =
     (if \<not> ao_origin_dirty s then (s, Ok ())
      else case os_sync_data (ae_origin env) (ao_origin s) of
          (g, Err e) \<Rightarrow> (ao_mark_origin_failed env (s\<lparr>ao_origin := g\<rparr>), Err e)
        | (g, Ok _) \<Rightarrow>
            (ao_count (tl_origin_syncs_update (sat_bump 1)) (s\<lparr>ao_origin := g, ao_origin_dirty := False\<rparr>), Ok ()))"

definition ao_update_cache ::
  "('o, 'c) ao_env \<Rightarrow> nat \<Rightarrow> byte list \<Rightarrow> ('o, 'c) ao_backend \<Rightarrow> ('o, 'c) ao_backend" where
  "ao_update_cache env off bs s =
     (case bec_update (ae_cache env) (ao_cache s) off bs of
        (c, CmFailed) \<Rightarrow>
          fst (revoke_cache env (ao_count (tl_cache_write_failures_update (sat_bump 1)) (s\<lparr>ao_cache := c\<rparr>)))
      | (c, _) \<Rightarrow> s\<lparr>ao_cache := c\<rparr>)"

text \<open>The part of a read behind the cache.\<close>

definition ao_origin_read ::
  "('o, 'c) ao_env \<Rightarrow> nat \<Rightarrow> nat \<Rightarrow> ('o, 'c) ao_backend \<Rightarrow>
   ('o, 'c) ao_backend \<times> (byte list, io_error) result" where
  "ao_origin_read env off n s =
     (case read_exact_at (ae_origin env) (ao_origin s) off n of
        (g, Err e) \<Rightarrow> (ao_mark_origin_failed env (s\<lparr>ao_origin := g\<rparr>), Err e)
      | (g, Ok bs) \<Rightarrow>
          let s1 = ao_count (tl_fallback_reads_update (sat_bump 1)) (s\<lparr>ao_origin := g\<rparr>)
          in case bec_promote (ae_cache env) (ao_cache s1) off bs of
               (c, CmFailed) \<Rightarrow>
                 (fst (revoke_cache env
                    (ao_count (tl_promotion_refusals_update (sat_bump 1)) (s1\<lparr>ao_cache := c\<rparr>))), Ok bs)
             | (c, _) \<Rightarrow> (s1\<lparr>ao_cache := c\<rparr>, Ok bs))"

definition ao_read_at ::
  "('o, 'c) ao_env \<Rightarrow> ('o, 'c) ao_backend \<Rightarrow> nat \<Rightarrow> nat \<Rightarrow>
   ('o, 'c) ao_backend \<times> (byte list, io_error) result" where
  "ao_read_at env s off n =
     (case ao_check_range s off n of
        Err e \<Rightarrow> (s, Err e)
      | Ok _ \<Rightarrow>
          (case ao_require_ready_origin s of
             Err e \<Rightarrow> (s, Err e)
           | Ok _ \<Rightarrow>
               if n = 0 then (s, Ok [])
               else (case bec_read (ae_cache env) (ao_cache s) off n of
                       (c, CrHit bs) \<Rightarrow>
                         (ao_count (tl_cache_read_bytes_update (sat_bump n)) (s\<lparr>ao_cache := c\<rparr>), Ok bs)
                     | (c, CrMiss) \<Rightarrow> ao_origin_read env off n (s\<lparr>ao_cache := c\<rparr>)
                     | (c, CrFailed) \<Rightarrow>
                         ao_origin_read env off n
                           (fst (revoke_cache env
                              (ao_count (tl_cache_read_failures_update (sat_bump 1)) (s\<lparr>ao_cache := c\<rparr>)))))))"

definition ao_write_at ::
  "('o, 'c) ao_env \<Rightarrow> ('o, 'c) ao_backend \<Rightarrow> nat \<Rightarrow> byte list \<Rightarrow>
   ('o, 'c) ao_backend \<times> (unit, io_error) result" where
  "ao_write_at env s off bs =
     (case ao_check_range s off (length bs) of
        Err e \<Rightarrow> (s, Err e)
      | Ok _ \<Rightarrow>
          (case ao_require_ready_origin s of
             Err e \<Rightarrow> (s, Err e)
           | Ok _ \<Rightarrow>
               if bs = [] then (s, Ok ())
               else (case ao_write_origin env off bs s of
                       (s1, Err e) \<Rightarrow> (s1, Err e)
                     | (s1, Ok _) \<Rightarrow>
                         (ao_update_cache env off bs (ao_count (tl_batched_writes_update (sat_bump 1)) s1), Ok ()))))"

definition ao_write_at_with_options ::
  "('o, 'c) ao_env \<Rightarrow> ('o, 'c) ao_backend \<Rightarrow> nat \<Rightarrow> byte list \<Rightarrow> write_options \<Rightarrow>
   ('o, 'c) ao_backend \<times> (unit, io_error) result" where
  "ao_write_at_with_options env s off bs opt =
     (if \<not> wo_fua opt then ao_write_at env s off bs
      else case ao_check_range s off (length bs) of
          Err e \<Rightarrow> (s, Err e)
        | Ok _ \<Rightarrow>
            (case ao_require_ready_origin s of
               Err e \<Rightarrow> (s, Err e)
             | Ok _ \<Rightarrow>
                 if bs = [] then (s, Ok ())
                 else (case ao_write_origin env off bs s of
                         (s1, Err e) \<Rightarrow> (s1, Err e)
                       | (s1, Ok _) \<Rightarrow>
                           (case ao_sync_dirty_origin env s1 of
                              (s2, Err e) \<Rightarrow> (s2, Err e)
                            | (s2, Ok _) \<Rightarrow> (ao_update_cache env off bs s2, Ok ())))))"

definition ao_flush ::
  "('o, 'c) ao_env \<Rightarrow> ('o, 'c) ao_backend \<Rightarrow> ('o, 'c) ao_backend \<times> (unit, io_error) result" where
  "ao_flush env s =
     (case ao_require_ready_origin s of
        Err e \<Rightarrow> (s, Err e)
      | Ok _ \<Rightarrow> ao_sync_dirty_origin env s)"

definition ao_ops :: "('o, 'c) ao_env \<Rightarrow> ('o, 'c) ao_backend backend_ops" where
  "ao_ops env =
     \<lparr>be_size_bytes = ao_size, be_block_size = ao_block, be_is_read_only = (\<lambda>_. False),
      be_read_at = ao_read_at env, be_write_at = ao_write_at env,
      be_write_at_with_options = ao_write_at_with_options env, be_flush = ao_flush env\<rparr>"

subsection \<open>What a cache promises\<close>

text \<open>
  The bytes a cache could still answer with. A hit answers with the bytes of the view; a hit or a miss
  adds nothing to the view; an update that did not fail leaves no older copy of a byte in its range; a
  promotion that did not fail adds at most the promoted bytes; after \<open>disable\<close>, acknowledged or not,
  nothing is left to answer with. A read, an update or a promotion that failed promises nothing: the cache may
  hold anything then, old copies included, until it is disabled. A skipped update is held to the same
  law as an accepted one, because the backend acts on neither.
\<close>

definition refreshed :: "nat \<Rightarrow> byte list \<Rightarrow> (nat \<rightharpoonup> byte) \<Rightarrow> (nat \<rightharpoonup> byte) \<Rightarrow> bool" where
  "refreshed off bs v v' \<longleftrightarrow>
     (\<forall>p b. v' p = Some b \<longrightarrow>
        (if off \<le> p \<and> p < off + length bs then b = bs ! (p - off) else v p = Some b))"

definition promoted :: "nat \<Rightarrow> byte list \<Rightarrow> (nat \<rightharpoonup> byte) \<Rightarrow> (nat \<rightharpoonup> byte) \<Rightarrow> bool" where
  "promoted off bs v v' \<longleftrightarrow>
     (\<forall>p b. v' p = Some b \<longrightarrow> v p = Some b \<or> off \<le> p \<and> p < off + length bs \<and> b = bs ! (p - off))"

locale best_effort_cache =
  fixes cops :: "'c best_effort_ops"
    and view :: "'c \<Rightarrow> nat \<rightharpoonup> byte"
  assumes view_read: "bec_read cops c off n = (c', r) \<Longrightarrow> r \<noteq> CrFailed \<Longrightarrow>
      view c' \<subseteq>\<^sub>m view c \<and>
      (\<forall>bs. r = CrHit bs \<longrightarrow> length bs = n \<and> (\<forall>i < n. view c (off + i) = Some (bs ! i)))"
    and view_update: "bec_update cops c off bs = (c', m) \<Longrightarrow> m \<noteq> CmFailed \<Longrightarrow> refreshed off bs (view c) (view c')"
    and view_promote: "bec_promote cops c off bs = (c', m) \<Longrightarrow> m \<noteq> CmFailed \<Longrightarrow> promoted off bs (view c) (view c')"
    and view_disable: "bec_disable cops c = (c', m) \<Longrightarrow> view c' = Map.empty"

interpretation disabled: best_effort_cache disabled_cache_ops "\<lambda>c. Map.empty"
  by unfold_locales (auto simp: disabled_cache_ops_def refreshed_def promoted_def)

text \<open>
  The worker behind a bounded client serves its queue in order, so that its view counts the accepted
  messages. Nothing is asked of it once a message was refused or an answer failed: the client never
  talks to its data lane again.
\<close>

locale cache_worker =
  fixes wl :: "'w worker_link"
    and wview :: "'w \<Rightarrow> nat \<rightharpoonup> byte"
  assumes worker_read: "wl_try_send wl w (IcRead off n) = (w1, True) \<Longrightarrow>
      wl_recv_reply wl timeout w1 = (w2, Some (Ok a)) \<Longrightarrow>
      wview w2 \<subseteq>\<^sub>m wview w \<and>
      (\<forall>bs. a = Some bs \<longrightarrow> length bs = n \<longrightarrow> (\<forall>i < n. wview w (off + i) = Some (bs ! i)))"
    and worker_update: "wl_try_send wl w (IcUpdate off bs) = (w1, True) \<Longrightarrow> refreshed off bs (wview w) (wview w1)"
    and worker_promote: "wl_try_send wl w (IcPromote off bs) = (w1, True) \<Longrightarrow> promoted off bs (wview w) (wview w1)"

definition client_view :: "('w \<Rightarrow> nat \<rightharpoonup> byte) \<Rightarrow> 'w bounded_cache_client \<Rightarrow> nat \<rightharpoonup> byte" where
  "client_view wview c = (if bcl_state c = CsActive then wview (bcl_link c) else Map.empty)"

lemma refreshed_empty [simp]: "refreshed off bs v Map.empty" "promoted off bs v Map.empty"
  by (simp_all add: refreshed_def promoted_def)

sublocale cache_worker \<subseteq> client: best_effort_cache "bounded_cache_ops wl" "client_view wview"
proof
  fix c :: "'w bounded_cache_client" and off n c' r
  assume rd: "bec_read (bounded_cache_ops wl) c off n = (c', r)" "r \<noteq> CrFailed"
  show "client_view wview c' \<subseteq>\<^sub>m client_view wview c \<and>
      (\<forall>bs. r = CrHit bs \<longrightarrow> length bs = n \<and> (\<forall>i < n. client_view wview c (off + i) = Some (bs ! i)))"
  proof (cases "bcl_state c = CsActive")
    case True
    obtain w1 ok where w1: "wl_try_send wl (bcl_link c) (IcRead off n) = (w1, ok)" by fastforce
    obtain w2 a where w2: "wl_recv_reply wl (bcl_read_timeout c) w1 = (w2, a)" by fastforce
    have eq: "bcl_read wl c off n = (c', r)" using rd(1) by (simp add: bounded_cache_ops_def)
    show ?thesis
    proof (cases "ok \<and> (\<exists>x. a = Some (Ok x) \<and> (\<forall>bs. x = Some bs \<longrightarrow> length bs = n))")
      case ok: True
      then obtain x where x: "a = Some (Ok x)" "ok" "\<forall>bs. x = Some bs \<longrightarrow> length bs = n" by blast
      then have "c' = c\<lparr>bcl_link := w2\<rparr>" "\<forall>bs. r = CrHit bs \<longrightarrow> x = Some bs"
        using eq True w1 w2 by (auto simp: bcl_read_def split: option.splits if_splits)
      then show ?thesis
        using worker_read [OF w1 [unfolded eqTrueI [OF x(2)]] w2 [unfolded x(1)]] x(3) True
        by (simp add: client_view_def)
    next
      case False
      then have "bcl_state c' = CsUnavailable" "\<forall>bs. r \<noteq> CrHit bs"
        using eq True w1 w2 by (auto simp: bcl_read_def bcl_fail_def split: bool.splits option.splits result.splits if_splits)
      then show ?thesis by (simp add: client_view_def)
    qed
  next
    case False
    then have "c' = c" "r = CrMiss" using rd by (auto simp: bounded_cache_ops_def bcl_read_def)
    then show ?thesis by simp
  qed
next
  fix c :: "'w bounded_cache_client" and off bs c' m
  show "refreshed off bs (client_view wview c) (client_view wview c')"
    if "bec_update (bounded_cache_ops wl) c off bs = (c', m)" "m \<noteq> CmFailed"
    using that worker_update [of "bcl_link c" off bs]
    by (auto simp: bounded_cache_ops_def send_mutation_def bcl_fail_def client_view_def
        split: prod.splits bool.splits if_splits)
  show "promoted off bs (client_view wview c) (client_view wview c')"
    if "bec_promote (bounded_cache_ops wl) c off bs = (c', m)" "m \<noteq> CmFailed"
    using that worker_promote [of "bcl_link c" off bs]
    by (auto simp: bounded_cache_ops_def send_mutation_def bcl_fail_def client_view_def
        split: prod.splits bool.splits if_splits)
next
  fix c :: "'w bounded_cache_client" and c' m
  assume "bec_disable (bounded_cache_ops wl) c = (c', m)"
  then have "bcl_state c' \<noteq> CsActive"
    by (auto simp: bounded_cache_ops_def bcl_disable_def split: prod.splits bool.splits option.splits result.splits if_splits)
  then show "client_view wview c' = Map.empty" by (simp add: client_view_def)
qed

text \<open>
  A worker with a queue of fixed capacity that answers at once: every request is applied to one map
  of cached bytes, the reference instance.
\<close>

definition map_range :: "nat \<Rightarrow> byte list \<Rightarrow> (nat \<rightharpoonup> byte) \<Rightarrow> nat \<rightharpoonup> byte" where
  "map_range off bs v = (\<lambda>p. if off \<le> p \<and> p < off + length bs then Some (bs ! (p - off)) else v p)"

definition lookup_range :: "nat \<Rightarrow> nat \<Rightarrow> (nat \<rightharpoonup> byte) \<Rightarrow> byte list option" where
  "lookup_range off n v =
     (if \<forall>i \<in> set [0..<n]. v (off + i) \<noteq> None then Some (map (\<lambda>i. the (v (off + i))) [0..<n]) else None)"

definition prompt_worker :: "((nat \<rightharpoonup> byte) \<times> byte list option) worker_link" where
  "prompt_worker =
     \<lparr>wl_try_send = (\<lambda>(v, a) req. case req of
          IcRead off n \<Rightarrow> ((v, lookup_range off n v), True)
        | IcUpdate off bs \<Rightarrow> ((map_range off bs v, a), True)
        | IcPromote off bs \<Rightarrow> ((map_range off bs v, a), True)),
      wl_recv_reply = (\<lambda>timeout (v, a). ((v, None), Some (Ok a))),
      wl_try_disable = (\<lambda>(v, a). ((Map.empty, a), True)),
      wl_recv_ack = (\<lambda>timeout w. (w, Some (Ok ())))\<rparr>"

interpretation prompt: cache_worker prompt_worker fst
proof
  fix w w1 w2 :: "(nat \<rightharpoonup> byte) \<times> byte list option" and off n timeout a
  assume "wl_try_send prompt_worker w (IcRead off n) = (w1, True)"
    "wl_recv_reply prompt_worker timeout w1 = (w2, Some (Ok a))"
  then have "fst w2 = fst w" "a = lookup_range off n (fst w)"
    by (cases w, auto simp: prompt_worker_def)+
  then show "fst w2 \<subseteq>\<^sub>m fst w \<and>
      (\<forall>bs. a = Some bs \<longrightarrow> length bs = n \<longrightarrow> (\<forall>i < n. fst w (off + i) = Some (bs ! i)))"
    by (auto simp: lookup_range_def split: if_splits)
qed (auto simp: prompt_worker_def refreshed_def promoted_def map_range_def split: if_splits)

text \<open>
  A cache that refuses every update while it is active and keeps its old copies, as the fixture of the
  code's tests does with failing updates: only a revocation silences it.
\<close>

definition stubborn_cache_ops :: "((nat \<rightharpoonup> byte) \<times> bool) best_effort_ops" where
  "stubborn_cache_ops =
     \<lparr>bec_read = (\<lambda>(v, active) off n. ((v, active),
        (case lookup_range off n v of Some bs \<Rightarrow> if active then CrHit bs else CrMiss | None \<Rightarrow> CrMiss))),
      bec_update = (\<lambda>(v, active) off bs. ((v, active), if active then CmFailed else CmSkipped)),
      bec_promote = (\<lambda>(v, active) off bs.
        if active then ((map_range off bs v, active), CmAccepted) else ((v, active), CmSkipped)),
      bec_disable = (\<lambda>(v, active). ((v, False), CmAccepted)),
      bec_state = (\<lambda>(v, active). if active then CsActive else CsUnavailable),
      bec_cached_bytes = (\<lambda>_. 0), bec_target_bytes = (\<lambda>_. 0)\<rparr>"

definition stubborn_view :: "(nat \<rightharpoonup> byte) \<times> bool \<Rightarrow> nat \<rightharpoonup> byte" where
  "stubborn_view c = (if snd c then fst c else Map.empty)"

interpretation stubborn: best_effort_cache stubborn_cache_ops stubborn_view
  by unfold_locales
    (auto simp: stubborn_cache_ops_def stubborn_view_def refreshed_def promoted_def map_range_def
      lookup_range_def split: if_splits prod.splits option.splits)

subsection \<open>The backend over a lawful cache\<close>

definition ao_disk :: "('o \<Rightarrow> byte list) \<Rightarrow> ('o, 'c) ao_backend \<Rightarrow> byte list" where
  "ao_disk dat s = take (ao_size s) (dat (ao_origin s))"

definition ao_conf :: "('o, 'c) ao_backend \<Rightarrow> ('o, 'c) ao_backend \<Rightarrow> bool" where
  "ao_conf s t \<longleftrightarrow> ao_size t = ao_size s \<and> ao_block t = ao_block s"

definition ao_same :: "('o, 'c) ao_backend \<Rightarrow> ('o, 'c) ao_backend \<Rightarrow> bool" where
  "ao_same s t \<longleftrightarrow> ao_conf s t \<and> ao_origin t = ao_origin s \<and> ao_origin_state t = ao_origin_state s \<and>
     ao_origin_dirty t = ao_origin_dirty s"

text \<open>Every byte the cache could answer with is the origin's; a clean ready origin is on the medium.\<close>

definition ao_shape :: "('o \<Rightarrow> byte list) \<Rightarrow> ('o, 'c) ao_backend \<Rightarrow> bool" where
  "ao_shape dat s \<longleftrightarrow> ao_size s \<le> length (dat (ao_origin s)) \<and> ao_size s \<le> u64_max \<and> ao_block s \<le> ao_size s"

definition ao_coherent ::
  "('o \<Rightarrow> byte list) \<Rightarrow> ('c \<Rightarrow> nat \<rightharpoonup> byte) \<Rightarrow> ('o, 'c) ao_backend \<Rightarrow> bool" where
  "ao_coherent dat view s \<longleftrightarrow>
     (\<forall>p b. p < ao_size s \<longrightarrow> view (ao_cache s) p = Some b \<longrightarrow> b = dat (ao_origin s) ! p)"

definition ao_synced :: "('o \<Rightarrow> byte list) \<Rightarrow> ('o \<Rightarrow> byte list) \<Rightarrow> ('o, 'c) ao_backend \<Rightarrow> bool" where
  "ao_synced dat dur s \<longleftrightarrow>
     (ao_origin_state s = OrReady \<longrightarrow> \<not> ao_origin_dirty s \<longrightarrow> dur (ao_origin s) = dat (ao_origin s))"

definition ao_inv ::
  "('o \<Rightarrow> byte list) \<Rightarrow> ('o \<Rightarrow> byte list) \<Rightarrow> ('c \<Rightarrow> nat \<rightharpoonup> byte) \<Rightarrow> ('o, 'c) ao_backend \<Rightarrow> bool" where
  "ao_inv dat dur view s \<longleftrightarrow> ao_shape dat s \<and> ao_coherent dat view s \<and> ao_synced dat dur s"

lemmas ao_layers = ao_shape_def ao_coherent_def ao_synced_def
lemmas ao_frames = ao_conf_def ao_same_def ao_count_def

lemma ao_count_fields [simp]:
  "ao_size (ao_count u s) = ao_size s" "ao_block (ao_count u s) = ao_block s"
  "ao_origin (ao_count u s) = ao_origin s" "ao_cache (ao_count u s) = ao_cache s"
  "ao_origin_state (ao_count u s) = ao_origin_state s" "ao_origin_dirty (ao_count u s) = ao_origin_dirty s"
  by (simp_all add: ao_count_def)

locale authoritative_origin = origin_storage "ae_origin env" data durable + best_effort_cache "ae_cache env" view
  for env :: "('o, 'c) ao_env" and data durable :: "'o \<Rightarrow> byte list" and view :: "'c \<Rightarrow> nat \<rightharpoonup> byte"
begin

lemma revoke_law:
  assumes "revoke_cache env s = (t, m)"
  shows "ao_same s t" "view (ao_cache t) = Map.empty"
  using assms view_disable by (auto simp: revoke_cache_def ao_frames Let_def split: prod.splits if_splits)

lemma mark_failed_law:
  "ao_conf s (ao_mark_origin_failed env s)" "ao_origin (ao_mark_origin_failed env s) = ao_origin s"
  "view (ao_cache (ao_mark_origin_failed env s)) = Map.empty" "ao_origin_state (ao_mark_origin_failed env s) = OrFailed"
proof -
  let ?s = "s\<lparr>ao_origin_state := OrFailed, ao_origin_probe_successes := 0\<rparr>"
  obtain t m where t: "revoke_cache env ?s = (t, m)" by fastforce
  from revoke_law [OF t] t
  show "ao_conf s (ao_mark_origin_failed env s)" "ao_origin (ao_mark_origin_failed env s) = ao_origin s"
    "view (ao_cache (ao_mark_origin_failed env s)) = Map.empty" "ao_origin_state (ao_mark_origin_failed env s) = OrFailed"
    by (simp_all add: ao_mark_origin_failed_def ao_conf_def ao_same_def)
qed

text \<open>A failed origin leaves nothing to be wrong about.\<close>

lemma failed_inv:
  assumes "ao_shape data s" "length (data g) = length (data (ao_origin s))"
  shows "ao_inv data durable view (ao_mark_origin_failed env (s\<lparr>ao_origin := g\<rparr>))"
    "ao_conf s (ao_mark_origin_failed env (s\<lparr>ao_origin := g\<rparr>))"
  using assms mark_failed_law [of "s\<lparr>ao_origin := g\<rparr>"] by (simp_all add: ao_inv_def ao_layers ao_conf_def)

lemma same_inv:
  assumes "ao_same s t" "view (ao_cache t) \<subseteq>\<^sub>m view (ao_cache s)" "ao_inv data durable view s"
  shows "ao_inv data durable view t"
  using assms by (auto simp: ao_inv_def ao_layers ao_same_def ao_conf_def map_le_def dom_def)

lemma revoke_inv:
  "revoke_cache env s = (t, m) \<Longrightarrow> ao_shape data s \<Longrightarrow> ao_synced data durable s \<Longrightarrow> ao_inv data durable view t"
  using revoke_law [of s t m] by (simp add: ao_inv_def ao_layers ao_same_def ao_conf_def)

text \<open>An update with the origin's bytes makes the cache coherent in its range, a promotion keeps it so.\<close>

lemma refreshed_coherent:
  assumes "refreshed off bs (view (ao_cache s)) (view c)" "ao_size s \<le> length (data (ao_origin s))"
    and "bs = read_range off (length bs) (data (ao_origin s))" "off + length bs \<le> ao_size s"
    and "\<forall>p b. p < ao_size s \<longrightarrow> p < off \<or> off + length bs \<le> p \<longrightarrow> view (ao_cache s) p = Some b \<longrightarrow>
      b = data (ao_origin s) ! p"
  shows "ao_coherent data view (s\<lparr>ao_cache := c\<rparr>)"
  unfolding ao_coherent_def
proof (intro allI impI)
  fix p b assume p: "p < ao_size (s\<lparr>ao_cache := c\<rparr>)" "view (ao_cache (s\<lparr>ao_cache := c\<rparr>)) p = Some b"
  show "b = data (ao_origin (s\<lparr>ao_cache := c\<rparr>)) ! p"
  proof (cases "off \<le> p \<and> p < off + length bs")
    case True
    then have "b = bs ! (p - off)" using assms(1) p by (auto simp: refreshed_def)
    also have "\<dots> = data (ao_origin s) ! p"
      using True assms(2,4) by (subst assms(3)) (auto simp: read_range_def)
    finally show ?thesis by simp
  next
    case False
    then have "view (ao_cache s) p = Some b" using assms(1) p by (auto simp: refreshed_def split: if_splits)
    then show ?thesis using assms(5) False p by auto
  qed
qed

lemma promoted_coherent:
  assumes "promoted off bs (view (ao_cache s)) (view c)" "ao_size s \<le> length (data (ao_origin s))"
    and "bs = read_range off (length bs) (data (ao_origin s))" "off + length bs \<le> ao_size s"
    and "ao_coherent data view s"
  shows "ao_coherent data view (s\<lparr>ao_cache := c\<rparr>)"
proof -
  have new: "bs ! (p - off) = data (ao_origin s) ! p" if "off \<le> p" "p < off + length bs" for p
    using that assms(2,4) by (subst assms(3)) (auto simp: read_range_def)
  show ?thesis
    unfolding ao_coherent_def
  proof (intro allI impI)
    fix p b assume p: "p < ao_size (s\<lparr>ao_cache := c\<rparr>)" "view (ao_cache (s\<lparr>ao_cache := c\<rparr>)) p = Some b"
    from p(2) assms(1) consider "view (ao_cache s) p = Some b"
      | "off \<le> p" "p < off + length bs" "b = bs ! (p - off)" by (auto simp: promoted_def)
    then show "b = data (ao_origin (s\<lparr>ao_cache := c\<rparr>)) ! p"
      by cases (use assms(5) p(1) new in \<open>simp_all add: ao_coherent_def\<close>)
  qed
qed

end

context authoritative_origin
begin

lemma update_cache_law:
  assumes "ao_shape data s" "ao_synced data durable s" "off + length bs \<le> ao_size s"
    and "bs = read_range off (length bs) (data (ao_origin s))"
    and "\<forall>p b. p < ao_size s \<longrightarrow> p < off \<or> off + length bs \<le> p \<longrightarrow> view (ao_cache s) p = Some b \<longrightarrow>
      b = data (ao_origin s) ! p"
  shows "ao_same s (ao_update_cache env off bs s) \<and> ao_inv data durable view (ao_update_cache env off bs s)"
proof -
  obtain c m where c: "bec_update (ae_cache env) (ao_cache s) off bs = (c, m)" by fastforce
  obtain t m' where t: "revoke_cache env (ao_count (tl_cache_write_failures_update (sat_bump 1)) (s\<lparr>ao_cache := c\<rparr>)) = (t, m')"
    by fastforce
  have "ao_coherent data view (s\<lparr>ao_cache := c\<rparr>)" if "m \<noteq> CmFailed"
    by (rule refreshed_coherent [OF view_update [OF c that] _ assms(4,3,5)]) (use assms(1) in \<open>simp add: ao_shape_def\<close>)
  then have "m \<noteq> CmFailed \<Longrightarrow> ao_inv data durable view (s\<lparr>ao_cache := c\<rparr>)" "ao_same s (s\<lparr>ao_cache := c\<rparr>)"
    using assms(1,2) by (simp_all add: ao_inv_def ao_layers ao_same_def ao_conf_def)
  moreover have "ao_inv data durable view t" "ao_same s t"
    using revoke_inv [OF t] revoke_law(1) [OF t] assms(1,2) by (simp_all add: ao_layers ao_same_def ao_conf_def)
  ultimately show ?thesis using c t by (simp add: ao_update_cache_def split: cache_mutation.split)
qed

lemma origin_read_law:
  assumes "ao_inv data durable view s" "off + n \<le> ao_size s" "ao_origin_read env off n s = (t, res)"
  shows "ao_inv data durable view t \<and> ao_conf s t \<and> data (ao_origin t) = data (ao_origin s) \<and>
    (\<forall>bs. res = Ok bs \<longrightarrow> bs = read_range off n (data (ao_origin s)))"
proof -
  have sz: "ao_size s \<le> length (data (ao_origin s))" "off + n \<le> length (data (ao_origin s))"
    using assms(1,2) by (auto simp: ao_inv_def ao_shape_def)
  obtain g x where x: "read_exact_at (ae_origin env) (ao_origin s) off n = (g, x)" by fastforce
  note law = read_exact_law [OF sz(2) x]
  show ?thesis
  proof (cases x)
    case (Err e)
    then have "t = ao_mark_origin_failed env (s\<lparr>ao_origin := g\<rparr>)" "res = Err e"
      using assms(3) x by (simp_all add: ao_origin_read_def)
    then show ?thesis
      using failed_inv [of s g] law assms(1) mark_failed_law(2) [of "s\<lparr>ao_origin := g\<rparr>"] by (simp add: ao_inv_def)
  next
    case (Ok bs)
    let ?s1 = "ao_count (tl_fallback_reads_update (sat_bump 1)) (s\<lparr>ao_origin := g\<rparr>)"
    obtain c m where c: "bec_promote (ae_cache env) (ao_cache ?s1) off bs = (c, m)" by fastforce
    let ?s2 = "ao_count (tl_promotion_refusals_update (sat_bump 1)) (?s1\<lparr>ao_cache := c\<rparr>)"
    obtain u m' where u: "revoke_cache env ?s2 = (u, m')" by fastforce
    have bs: "bs = read_range off n (data (ao_origin s))" "length bs = n" using law Ok sz by (simp_all add: store_simps)
    have t: "t = (if m = CmFailed then u else ?s1\<lparr>ao_cache := c\<rparr>)" "res = Ok bs"
      using assms(3) x Ok c u by (cases m; simp add: ao_origin_read_def Let_def)+
    have base: "ao_shape data ?s1" "ao_synced data durable ?s1" "ao_conf s ?s1" "ao_coherent data view ?s1"
      using assms(1) law by (simp_all add: ao_inv_def ao_layers ao_conf_def)
    have coh: "ao_coherent data view (?s1\<lparr>ao_cache := c\<rparr>)" if "m \<noteq> CmFailed"
    proof (rule promoted_coherent [OF view_promote [OF c that]])
      show "bs = read_range off (length bs) (data (ao_origin ?s1))" using law bs by simp
    qed (use assms(2) base bs in \<open>simp_all add: ao_shape_def\<close>)
    show ?thesis
    proof (cases "m = CmFailed")
      case True
      have "ao_inv data durable view u" using revoke_inv [OF u] base by (simp add: ao_shape_def ao_synced_def)
      moreover have "ao_conf s u" "ao_origin u = g" using revoke_law(1) [OF u] by (simp_all add: ao_same_def ao_conf_def)
      ultimately show ?thesis using t True law bs(1) by simp
    next
      case False
      have "ao_inv data durable view (?s1\<lparr>ao_cache := c\<rparr>)"
        using coh [OF False] base by (simp add: ao_inv_def ao_shape_def ao_synced_def)
      then show ?thesis using t False law bs(1) by (simp add: ao_conf_def)
    qed
  qed
qed

lemma range_checked: "ao_check_range s off n = Ok () \<longleftrightarrow> off + n \<le> u64_max \<and> off + n \<le> ao_size s"
  by (auto simp: ao_check_range_def checked_add_def)

lemma read_law:
  assumes "ao_inv data durable view s" "ao_read_at env s off n = (t, res)"
  shows "ao_inv data durable view t \<and> ao_conf s t \<and> data (ao_origin t) = data (ao_origin s) \<and>
    (\<forall>bs. res = Ok bs \<longrightarrow> bs = read_range off n (data (ao_origin s)))"
proof (cases "ao_check_range s off n = Ok () \<and> ao_origin_state s = OrReady \<and> n \<noteq> 0")
  case False
  then have "t = s" "\<forall>bs. res = Ok bs \<longrightarrow> bs = [] \<and> n = 0"
    using assms(2) by (auto simp: ao_read_at_def ao_require_ready_origin_def split: result.splits if_splits)
  then show ?thesis using assms(1) by (auto simp: ao_conf_def)
next
  case True
  then have le: "off + n \<le> ao_size s" by (simp add: range_checked)
  obtain c x where c: "bec_read (ae_cache env) (ao_cache s) off n = (c, x)" by fastforce
  note law = view_read [OF c]
  note eq = assms(2) [unfolded ao_read_at_def ao_require_ready_origin_def]
  have kept: "ao_inv data durable view (s\<lparr>ao_cache := c\<rparr>)" if "x \<noteq> CrFailed"
    by (rule same_inv [OF _ _ assms(1)]) (use law that in \<open>simp_all add: ao_same_def ao_conf_def\<close>)
  show ?thesis
  proof (cases x)
    case (CrHit bs)
    then have "t = ao_count (tl_cache_read_bytes_update (sat_bump n)) (s\<lparr>ao_cache := c\<rparr>)" "res = Ok bs"
      using eq True c by simp_all
    moreover have "bs = read_range off n (data (ao_origin s))"
      by (rule nth_equalityI) (use law CrHit le assms(1) in \<open>auto simp: ao_inv_def ao_layers read_range_def\<close>)
    ultimately show ?thesis using kept CrHit by (simp add: ao_inv_def ao_layers ao_conf_def)
  next
    case CrMiss
    then show ?thesis using origin_read_law [OF kept, of off n t res] le eq True c by (simp add: ao_conf_def)
  next
    case CrFailed
    obtain u m where u: "revoke_cache env (ao_count (tl_cache_read_failures_update (sat_bump 1)) (s\<lparr>ao_cache := c\<rparr>)) = (u, m)"
      by fastforce
    have "ao_inv data durable view u" "ao_conf s u" "ao_origin u = ao_origin s"
      using revoke_inv [OF u] revoke_law(1) [OF u] assms(1) by (simp_all add: ao_inv_def ao_layers ao_same_def ao_conf_def)
    then show ?thesis using origin_read_law [of u off n t res] le eq True c CrFailed u by (simp add: ao_conf_def)
  qed
qed

lemma write_origin_law:
  assumes "ao_inv data durable view s" "off + length bs \<le> ao_size s" "ao_write_origin env off bs s = (t, r)"
  shows "ao_conf s t \<and> ao_shape data t \<and> agree_outside off (length bs) (data (ao_origin s)) (data (ao_origin t)) \<and>
    (r = Ok () \<longrightarrow> data (ao_origin t) = write_range off bs (data (ao_origin s)) \<and> ao_origin_dirty t \<and>
       ao_origin_state t = ao_origin_state s \<and> ao_cache t = ao_cache s) \<and>
    (r \<noteq> Ok () \<longrightarrow> ao_inv data durable view t)"
proof -
  have sz: "ao_shape data s" "off + length bs \<le> length (data (ao_origin s))"
    using assms(1,2) by (auto simp: ao_inv_def ao_shape_def)
  obtain g x where x: "write_all_at (ae_origin env) (ao_origin s) off bs = (g, x)" by fastforce
  note law = write_all_law [OF sz(2) x]
  have len: "length (data g) = length (data (ao_origin s))" using law by (auto simp: agree_outside_def)
  show ?thesis
  proof (cases x)
    case (Err e)
    then have "t = ao_mark_origin_failed env (s\<lparr>ao_origin := g\<rparr>)" "r = Err e"
      using assms(3) x by (simp_all add: ao_write_origin_def)
    then show ?thesis using failed_inv [OF sz(1) len] mark_failed_law(2) [of "s\<lparr>ao_origin := g\<rparr>"] law
      by (simp add: ao_inv_def)
  next
    case (Ok u)
    then show ?thesis using assms(3) x law len sz(1) by (auto simp: ao_write_origin_def ao_shape_def ao_conf_def)
  qed
qed

lemma sync_dirty_law:
  assumes "ao_shape data s" "ao_synced data durable s" "ao_sync_dirty_origin env s = (t, r)"
  shows "ao_conf s t \<and> ao_shape data t \<and> length (data (ao_origin t)) = length (data (ao_origin s)) \<and>
    (r = Ok () \<longrightarrow> data (ao_origin t) = data (ao_origin s) \<and> ao_cache t = ao_cache s \<and>
       ao_synced data durable t \<and> ao_origin_state t = ao_origin_state s \<and>
       (ao_origin_state s = OrReady \<longrightarrow> durable (ao_origin t) = data (ao_origin t))) \<and>
    (r \<noteq> Ok () \<longrightarrow> ao_inv data durable view t)"
proof (cases "ao_origin_dirty s")
  case False
  then have "t = s" "r = Ok ()" using assms(3) by (simp_all add: ao_sync_dirty_origin_def)
  then show ?thesis using assms False by (simp add: ao_synced_def ao_conf_def)
next
  case True
  obtain g x where x: "os_sync_data (ae_origin env) (ao_origin s) = (g, x)" by fastforce
  note law = os_sync [OF x]
  show ?thesis
  proof (cases x)
    case (Err e)
    then have "t = ao_mark_origin_failed env (s\<lparr>ao_origin := g\<rparr>)" "r = Err e"
      using assms(3) x True by (simp_all add: ao_sync_dirty_origin_def)
    then show ?thesis using failed_inv [OF assms(1), of g] mark_failed_law(2) [of "s\<lparr>ao_origin := g\<rparr>"] law
      by (simp add: ao_inv_def)
  next
    case (Ok u)
    then show ?thesis using assms x law True by (auto simp: ao_sync_dirty_origin_def ao_shape_def ao_synced_def ao_conf_def)
  qed
qed

text \<open>Between the write of the origin and the update, only the written range of the cache is stale.\<close>

lemma refresh_after_write:
  assumes "ao_inv data durable view s" "off + length bs \<le> ao_size s" "ao_conf s u" "ao_cache u = ao_cache s"
    and "data (ao_origin u) = write_range off bs (data (ao_origin s))" "ao_shape data u" "ao_synced data durable u"
  shows "ao_same u (ao_update_cache env off bs u) \<and> ao_inv data durable view (ao_update_cache env off bs u)"
proof (rule update_cache_law [OF assms(6,7)])
  have len: "off + length bs \<le> length (data (ao_origin s))" using assms(1,2) by (auto simp: ao_inv_def ao_shape_def)
  show "off + length bs \<le> ao_size u" using assms(2,3) by (simp add: ao_conf_def)
  show "bs = read_range off (length bs) (data (ao_origin u))" using len by (simp add: assms(5) read_range_write_range_same)
  show "\<forall>p b. p < ao_size u \<longrightarrow> p < off \<or> off + length bs \<le> p \<longrightarrow> view (ao_cache u) p = Some b \<longrightarrow>
      b = data (ao_origin u) ! p"
    using assms(1,3,4,5) agree_outside_write_range [OF len]
    by (auto simp: ao_inv_def ao_layers ao_conf_def agree_outside_def)
qed

lemma write_law:
  assumes "ao_inv data durable view s" "ao_write_at_with_options env s off bs opt = (t, r)"
  shows "ao_inv data durable view t \<and> ao_conf s t \<and> length (data (ao_origin t)) = length (data (ao_origin s)) \<and>
    (r = Ok () \<longrightarrow> data (ao_origin t) = write_range off bs (data (ao_origin s))) \<and>
    (r = Ok () \<longrightarrow> wo_fua opt \<longrightarrow> bs \<noteq> [] \<longrightarrow> durable (ao_origin t) = data (ao_origin t)) \<and>
    (\<not> wo_fua opt \<longrightarrow> agree_outside off (length bs) (data (ao_origin s)) (data (ao_origin t)))"
proof (cases "ao_check_range s off (length bs) = Ok () \<and> ao_origin_state s = OrReady \<and> bs \<noteq> []")
  case False
  then have "t = s" "r = Ok () \<longrightarrow> bs = []"
    using assms(2) by (auto simp: ao_write_at_with_options_def ao_write_at_def ao_require_ready_origin_def
        split: result.splits if_splits)
  then show ?thesis using assms(1) by (auto simp: ao_conf_def)
next
  case True
  then have le: "off + length bs \<le> ao_size s" by (simp add: range_checked)
  obtain s1 w where w: "ao_write_origin env off bs s = (s1, w)" by fastforce
  note wl = write_origin_law [OF assms(1) le w]
  have len: "length (data (ao_origin s1)) = length (data (ao_origin s))" using wl by (auto simp: agree_outside_def)
  note eq = assms(2) [unfolded ao_write_at_with_options_def ao_write_at_def ao_require_ready_origin_def]
  show ?thesis
  proof (cases w)
    case (Err e)
    then have "t = s1" "r = Err e" using eq True w by (simp_all split: if_splits)
    then show ?thesis using wl Err len by auto
  next
    case (Ok u)
    have sy: "ao_synced data durable s1" using wl Ok by (simp add: ao_synced_def)
    show ?thesis
    proof (cases "wo_fua opt")
      case False
      let ?s2 = "ao_count (tl_batched_writes_update (sat_bump 1)) s1"
      have sh: "ao_shape data ?s2" using wl by (simp add: ao_shape_def)
      have t: "t = ao_update_cache env off bs ?s2" using eq True w Ok False by simp
      have "ao_same ?s2 t \<and> ao_inv data durable view t"
        unfolding t by (rule refresh_after_write [OF assms(1) le _ _ _ sh])
          (use wl Ok sy in \<open>simp_all add: ao_conf_def ao_synced_def\<close>)
      then show ?thesis using wl Ok len False by (auto simp: ao_same_def ao_conf_def)
    next
      case fua: True
      obtain s2 y where y: "ao_sync_dirty_origin env s1 = (s2, y)" by fastforce
      note yl = sync_dirty_law [OF conjunct1 [OF conjunct2 [OF wl]] sy y]
      show ?thesis
      proof (cases y)
        case (Err e)
        then have "t = s2" "r = Err e" using eq True w Ok fua y by simp_all
        then show ?thesis using yl wl Err len fua by (auto simp: ao_conf_def)
      next
        case (Ok z)
        have t: "t = ao_update_cache env off bs s2" using eq True w \<open>w = Ok u\<close> fua y Ok by simp
        have "ao_same s2 t \<and> ao_inv data durable view t"
          unfolding t by (rule refresh_after_write [OF assms(1) le])
            (use wl yl Ok \<open>w = Ok u\<close> in \<open>simp_all add: ao_conf_def\<close>)
        then show ?thesis using wl yl Ok \<open>w = Ok u\<close> len fua True by (auto simp: ao_same_def ao_conf_def)
      qed
    qed
  qed
qed

lemma flush_law:
  assumes "ao_inv data durable view s" "ao_flush env s = (t, r)"
  shows "ao_inv data durable view t \<and> ao_conf s t \<and> length (data (ao_origin t)) = length (data (ao_origin s)) \<and>
    (r = Ok () \<longrightarrow> data (ao_origin t) = data (ao_origin s) \<and> durable (ao_origin t) = data (ao_origin t))"
proof (cases "ao_origin_state s = OrReady")
  case False
  then have "t = s" "r \<noteq> Ok ()" using assms(2) by (auto simp: ao_flush_def ao_require_ready_origin_def)
  then show ?thesis using assms(1) by (simp add: ao_conf_def)
next
  case True
  have "ao_sync_dirty_origin env s = (t, r)" using assms(2) True by (simp add: ao_flush_def ao_require_ready_origin_def)
  from sync_dirty_law [OF _ _ this] show ?thesis
    using assms(1) True by (cases "r = Ok ()") (auto simp: ao_inv_def ao_coherent_def ao_conf_def)
qed

lemma probe_law:
  assumes "ao_inv data durable view s" "ao_probe_origin env s = (t, r)"
  shows "ao_inv data durable view t \<and> ao_conf s t \<and> length (data (ao_origin t)) = length (data (ao_origin s)) \<and>
    (is_ok r \<longrightarrow> data (ao_origin t) = data (ao_origin s))"
proof -
  have sz: "0 + ao_block s \<le> length (data (ao_origin s))" "ao_shape data s"
    using assms(1) by (auto simp: ao_inv_def ao_shape_def)
  obtain g1 x where x: "read_exact_at (ae_origin env) (ao_origin s) 0 (ao_block s) = (g1, x)" by fastforce
  define gy where "gy = (case x of Err e \<Rightarrow> (g1, Err e) | Ok _ \<Rightarrow> os_sync_data (ae_origin env) g1)"
  obtain g y where y: "gy = (g, y)" by fastforce
  have law: "length (data g) = length (data (ao_origin s))"
    "y = Ok () \<Longrightarrow> data g = data (ao_origin s) \<and> durable g = data (ao_origin s)"
    using read_exact_law [OF sz(1) x] os_sync [of g1 g y] y gy_def by (cases x; auto)+
  note eq = assms(2) [unfolded ao_probe_origin_def x prod.case gy_def [symmetric] y]
  show ?thesis
  proof (cases y)
    case (Err e)
    then have "t = ao_mark_origin_failed env (s\<lparr>ao_origin := g\<rparr>)" "r = Err e" using eq by (simp_all add: Let_def)
    then show ?thesis using failed_inv [OF sz(2) law(1)] mark_failed_law(2) [of "s\<lparr>ao_origin := g\<rparr>"] law(1)
      by simp
  next
    case (Ok u)
    have "ao_conf s t" "ao_origin t = g" "ao_cache t = ao_cache s" "\<not> ao_origin_dirty t"
      using eq Ok by (auto simp: Let_def ao_conf_def split: if_splits)
    then show ?thesis using law Ok assms(1) by (simp add: ao_inv_def ao_layers ao_conf_def)
  qed
qed

lemma release_law:
  assumes "ao_inv data durable view s" "ao_release_cache env s = (t, r)"
  shows "ao_inv data durable view t \<and> ao_same s t \<and> view (ao_cache t) = Map.empty"
proof -
  obtain u m where u: "revoke_cache env s = (u, m)" by fastforce
  have "ao_inv data durable view u" using revoke_inv [OF u] assms(1) by (simp add: ao_inv_def)
  moreover have "t = u \<or> (\<exists>f. t = ao_count f u)"
    using assms(2) u by (auto simp: ao_release_cache_def split: cache_mutation.splits)
  ultimately show ?thesis using revoke_law [OF u] by (auto simp: ao_inv_def ao_layers ao_same_def ao_conf_def)
qed

lemma authoritative_device:
  "block_device (ao_ops env) (ao_disk data) (\<lambda>s. ao_inv data durable view s \<and> ao_block s = block)"
proof
  fix s :: "('o, 'c) ao_backend" and off n t res
  assume i: "ao_inv data durable view s \<and> ao_block s = block"
    and le: "off + n \<le> length (ao_disk data s)" and "be_read_at (ao_ops env) s off n = (t, res)"
  then have rd: "ao_read_at env s off n = (t, res)" by (simp add: ao_ops_def)
  from read_law [OF conjunct1 [OF i] rd] i le
  show "(ao_inv data durable view t \<and> ao_block t = block) \<and>
      ao_disk data t = ao_disk data s \<and> (\<forall>bs. res = Ok bs \<longrightarrow> bs = read_range off n (ao_disk data s))"
    by (simp add: ao_conf_def ao_disk_def read_range_take)
next
  fix s :: "('o, 'c) ao_backend" and off bs opt t r
  assume i: "ao_inv data durable view s \<and> ao_block s = block"
    and le: "off + length bs \<le> length (ao_disk data s)"
    and "be_write_at_with_options (ao_ops env) s off bs opt = (t, r)"
  then have wr: "ao_write_at_with_options env s off bs opt = (t, r)" by (simp add: ao_ops_def)
  have sz: "off + length bs \<le> ao_size s" "off + length bs \<le> length (data (ao_origin s))"
    using le by (simp_all add: ao_disk_def)
  from write_law [OF conjunct1 [OF i] wr] i sz
  show "(ao_inv data durable view t \<and> ao_block t = block) \<and>
      length (ao_disk data t) = length (ao_disk data s) \<and>
      (r = Ok () \<longrightarrow> ao_disk data t = write_range off bs (ao_disk data s)) \<and>
      (\<not> wo_fua opt \<longrightarrow> agree_outside off (length bs) (ao_disk data s) (ao_disk data t))"
    by (simp add: ao_conf_def ao_disk_def write_range_take agree_outside_take)
next
  fix s :: "('o, 'c) ao_backend" and t r
  assume i: "ao_inv data durable view s \<and> ao_block s = block" and "be_flush (ao_ops env) s = (t, r)"
  then have fl: "ao_flush env s = (t, r)" by (simp add: ao_ops_def)
  from flush_law [OF conjunct1 [OF i] fl] i
  show "(ao_inv data durable view t \<and> ao_block t = block) \<and>
      length (ao_disk data t) = length (ao_disk data s) \<and> (r = Ok () \<longrightarrow> ao_disk data t = ao_disk data s)"
    by (simp add: ao_conf_def ao_disk_def)
qed (auto simp: ao_ops_def ao_disk_def ao_inv_def ao_shape_def ao_write_at_with_options_def write_options_default_def)

end

subsection \<open>A run\<close>

datatype ao_event = AoRequest request "byte list" | AoRelease | AoProbe

datatype ao_outcome =
    AoServed serve_outcome
  | AoReleased "(nat, io_error) result"
  | AoProbed "(origin_state, io_error) result"

fun ao_exec ::
  "('o, 'c) ao_env \<Rightarrow> ao_event \<Rightarrow> ('o, 'c) ao_backend \<Rightarrow> ('o, 'c) ao_backend \<times> ao_outcome" where
  "ao_exec env (AoRequest req payload) s = map_prod id AoServed (serve (ao_ops env) req payload s)"
| "ao_exec env AoRelease s = map_prod id AoReleased (ao_release_cache env s)"
| "ao_exec env AoProbe s = map_prod id AoProbed (ao_probe_origin env s)"

fun ao_exec_all ::
  "('o, 'c) ao_env \<Rightarrow> ao_event list \<Rightarrow> ('o, 'c) ao_backend \<Rightarrow> ('o, 'c) ao_backend \<times> ao_outcome list" where
  "ao_exec_all env [] s = (s, [])"
| "ao_exec_all env (ev # evs) s =
     (let (s1, out) = ao_exec env ev s; (s2, outs) = ao_exec_all env evs s1 in (s2, out # outs))"

text \<open>
  The same run on a plain disk. Only requests act on it, and a failed probe may lose what the medium
  had not taken.
\<close>

inductive origin_run ::
  "nat \<Rightarrow> byte list \<Rightarrow> ao_event list \<Rightarrow> ao_outcome list \<Rightarrow> byte list \<Rightarrow> bool"
  for block where
  or_nil: "origin_run block d [] [] d"
| or_request: "served block False req payload d d1 out \<Longrightarrow> origin_run block d1 evs outs d' \<Longrightarrow>
     origin_run block d (AoRequest req payload # evs) (AoServed out # outs) d'"
| or_release: "origin_run block d evs outs d' \<Longrightarrow> origin_run block d (AoRelease # evs) (AoReleased r # outs) d'"
| or_probe: "origin_run block d evs outs d' \<Longrightarrow> origin_run block d (AoProbe # evs) (AoProbed (Ok st) # outs) d'"
| or_probe_failed: "length d1 = length d \<Longrightarrow> origin_run block d1 evs outs d' \<Longrightarrow>
     origin_run block d (AoProbe # evs) (AoProbed (Err e) # outs) d'"

context authoritative_origin
begin

lemma exec_run:
  assumes "ao_inv data durable view s \<and> ao_block s = block" "ao_exec env ev s = (t, out)"
    and "ao_inv data durable view t \<and> ao_block t = block \<Longrightarrow> origin_run block (ao_disk data t) evs outs d'"
  shows "origin_run block (ao_disk data s) (ev # evs) (out # outs) d'"
proof (cases ev)
  case (AoRequest req payload)
  obtain o' where o': "serve (ao_ops env) req payload s = (t, o')" "out = AoServed o'"
    using assms(2) AoRequest by (cases "serve (ao_ops env) req payload s") simp
  have "served block False req payload (ao_disk data s) (ao_disk data t) o'"
    using block_device.serve_served [OF authoritative_device assms(1) o'(1)] assms(1) by (simp add: ao_ops_def)
  then show ?thesis
    using assms(3) block_device.serve_keeps_inv [OF authoritative_device assms(1) o'(1)] AoRequest o'(2)
    by (auto intro: or_request)
next
  case AoRelease
  obtain r where r: "ao_release_cache env s = (t, r)" "out = AoReleased r"
    using assms(2) AoRelease by (cases "ao_release_cache env s") simp
  from release_law [OF conjunct1 [OF assms(1)] r(1)]
  have "ao_inv data durable view t \<and> ao_block t = block" "ao_disk data t = ao_disk data s"
    using assms(1) by (simp_all add: ao_same_def ao_conf_def ao_disk_def)
  then show ?thesis using assms(3) AoRelease r(2) by (simp add: or_release)
next
  case AoProbe
  obtain r where r: "ao_probe_origin env s = (t, r)" "out = AoProbed r"
    using assms(2) AoProbe by (cases "ao_probe_origin env s") simp
  from probe_law [OF conjunct1 [OF assms(1)] r(1)]
  have t: "ao_inv data durable view t \<and> ao_block t = block" "length (ao_disk data t) = length (ao_disk data s)"
    "is_ok r \<Longrightarrow> ao_disk data t = ao_disk data s"
    using assms(1) by (simp_all add: ao_conf_def ao_disk_def)
  show ?thesis
    using assms(3) [OF t(1)] t AoProbe r(2) by (cases r) (auto intro: or_probe or_probe_failed)
qed

lemma exec_inv:
  assumes "ao_inv data durable view s \<and> ao_block s = block" "ao_exec env ev s = (t, out)"
  shows "ao_inv data durable view t \<and> ao_block t = block"
proof (cases ev)
  case (AoRequest req payload)
  then show ?thesis
    using block_device.serve_keeps_inv [OF authoritative_device assms(1)] assms(2)
    by (cases "serve (ao_ops env) req payload s") simp
next
  case AoRelease
  then show ?thesis using release_law [OF conjunct1 [OF assms(1)]] assms
    by (cases "ao_release_cache env s") (auto simp: ao_same_def ao_conf_def)
next
  case AoProbe
  then show ?thesis using probe_law [OF conjunct1 [OF assms(1)]] assms
    by (cases "ao_probe_origin env s") (auto simp: ao_conf_def)
qed

lemma exec_all_run:
  "ao_inv data durable view s \<and> ao_block s = block \<Longrightarrow> ao_exec_all env evs s = (t, outs) \<Longrightarrow>
   origin_run block (ao_disk data s) evs outs (ao_disk data t) \<and> ao_inv data durable view t \<and> ao_block t = block"
proof (induction evs arbitrary: s outs)
  case Nil
  then show ?case by (auto intro: or_nil)
next
  case (Cons ev evs)
  obtain s1 out where s1: "ao_exec env ev s = (s1, out)" by fastforce
  obtain u os where u: "ao_exec_all env evs s1 = (u, os)" by fastforce
  have eq: "t = u" "outs = out # os" using Cons.prems(2) s1 u by simp_all
  note ih = Cons.IH [OF exec_inv [OF Cons.prems(1) s1] u [folded eq(1)]]
  show ?case using exec_run [OF Cons.prems(1) s1 conjunct1 [OF ih]] ih eq by simp
qed

end

lemma new_backend:
  assumes "ao_new g c sz block = Ok s" "sz \<le> u64_max" "sz \<le> length (dat g)" "view c = Map.empty" "dur g = dat g"
  shows "ao_inv dat dur view s \<and> ao_block s = block" "ao_disk dat s = take sz (dat g)"
proof -
  have c: "0 < sz" "block dvd sz" using assms(1) by (auto simp: ao_new_def is_multiple_of_dvd split: if_splits)
  have s: "ao_origin s = g" "ao_cache s = c" "ao_size s = sz" "ao_block s = block"
    using assms(1) by (auto simp: ao_new_def split: if_splits)
  show "ao_inv dat dur view s \<and> ao_block s = block"
    using c assms(2-5) s by (auto simp: ao_inv_def ao_layers intro: dvd_imp_le)
  show "ao_disk dat s = take sz (dat g)" by (simp add: ao_disk_def s)
qed

lemma origin_read_error:
  "ao_read_at env s off n = (t, rd) \<Longrightarrow> rd = Err e \<Longrightarrow>
   ao_size s < off + n \<or> u64_max < off + n \<or> ao_origin_state s \<noteq> OrReady \<or>
   (\<exists>g. read_exact_at (ae_origin env) (ao_origin s) off n = (g, Err e))"
proof -
  have org: "ao_origin (fst (revoke_cache env u)) = ao_origin u" for u
    by (simp add: revoke_cache_def Let_def case_prod_beta ao_count_def)
  have low: "ao_origin_read env off n u = (t, Err e) \<Longrightarrow>
      \<exists>g. read_exact_at (ae_origin env) (ao_origin u) off n = (g, Err e)" for u
    by (auto simp: ao_origin_read_def Let_def split: prod.splits result.splits cache_mutation.splits)
  assume "ao_read_at env s off n = (t, rd)" "rd = Err e"
  then show ?thesis
    using low [of "s\<lparr>ao_cache := c\<rparr>" for c]
      low [of "fst (revoke_cache env (ao_count f (s\<lparr>ao_cache := c\<rparr>)))" for f c] org
    by (auto simp: ao_read_at_def ao_check_range_def checked_add_def ao_require_ready_origin_def
        split: prod.splits result.splits option.splits if_splits cache_read_outcome.splits)
qed

lemma origin_write_error:
  assumes "ao_write_at_with_options env s off bs opt = (t, r)" "r = Err e"
  shows "ao_size s < off + length bs \<or> u64_max < off + length bs \<or> ao_origin_state s \<noteq> OrReady \<or>
   (\<exists>g. write_all_at (ae_origin env) (ao_origin s) off bs = (g, Err e)) \<or>
   (\<exists>g g'. wo_fua opt \<and> write_all_at (ae_origin env) (ao_origin s) off bs = (g, Ok ()) \<and>
      os_sync_data (ae_origin env) g = (g', Err e))"
proof (cases "ao_check_range s off (length bs) = Ok () \<and> ao_origin_state s = OrReady \<and> bs \<noteq> []")
  case False
  then show ?thesis using assms
    by (auto simp: ao_check_range_def checked_add_def ao_write_at_with_options_def ao_write_at_def
        ao_require_ready_origin_def split: if_splits)
next
  case True
  obtain g x where x: "write_all_at (ae_origin env) (ao_origin s) off bs = (g, x)" by fastforce
  note eq = assms(1) [unfolded assms(2) ao_write_at_with_options_def ao_write_at_def ao_require_ready_origin_def
      ao_write_origin_def x]
  show ?thesis
  proof (cases x)
    case (Err e')
    then have "e' = e" using eq True by (simp split: if_splits)
    then show ?thesis using x Err by blast
  next
    case (Ok v)
    obtain g' y where y: "os_sync_data (ae_origin env) g = (g', y)" by fastforce
    have "wo_fua opt" "y = Err e" using eq True Ok y by (cases y; simp add: ao_sync_dirty_origin_def split: if_splits)+
    then show ?thesis using x y Ok by simp
  qed
qed

lemma origin_write_done:
  "ao_write_at_with_options env s off bs opt = (t, r) \<Longrightarrow> r = Ok () \<Longrightarrow> bs \<noteq> [] \<Longrightarrow>
   \<exists>g. write_all_at (ae_origin env) (ao_origin s) off bs = (g, Ok ())"
  by (auto simp: ao_write_at_with_options_def ao_write_at_def ao_write_origin_def
      split: prod.splits result.splits if_splits)

subsection \<open>The instances the daemon uses\<close>

definition plain_ao_env ::
  "(byte list \<times> byte list, ((nat \<rightharpoonup> byte) \<times> byte list option) bounded_cache_client) ao_env" where
  "plain_ao_env = \<lparr>ae_origin = file_origin_ops plain_file, ae_cache = bounded_cache_ops prompt_worker\<rparr>"

interpretation bounded_origin: authoritative_origin plain_ao_env fst snd "client_view fst"
  unfolding authoritative_origin_def plain_ao_env_def
  using plain_origin.origin_storage_axioms prompt.client.best_effort_cache_axioms by simp

definition disabled_ao_env :: "(byte list \<times> byte list, unit) ao_env" where
  "disabled_ao_env = \<lparr>ae_origin = file_origin_ops plain_file, ae_cache = disabled_cache_ops\<rparr>"

interpretation disabled_origin: authoritative_origin disabled_ao_env fst snd "\<lambda>c. Map.empty"
  unfolding authoritative_origin_def disabled_ao_env_def
  using plain_origin.origin_storage_axioms disabled.best_effort_cache_axioms by simp

definition stubborn_ao_env :: "(byte list \<times> byte list, (nat \<rightharpoonup> byte) \<times> bool) ao_env" where
  "stubborn_ao_env = \<lparr>ae_origin = file_origin_ops plain_file, ae_cache = stubborn_cache_ops\<rparr>"

interpretation stubborn_origin: authoritative_origin stubborn_ao_env fst snd stubborn_view
  unfolding authoritative_origin_def stubborn_ao_env_def
  using plain_origin.origin_storage_axioms stubborn.best_effort_cache_axioms by simp

text \<open>A read that the cache keeps, a write it refuses, and a second read of the same bytes.\<close>

definition demo_ao_read :: ao_event where
  "demo_ao_read = AoRequest \<lparr>rq_flags = 0, rq_cmd = CmdRead, rq_handle = 1, rq_offset = 0, rq_len = 4\<rparr> []"

definition demo_ao_write :: ao_event where
  "demo_ao_write = AoRequest \<lparr>rq_flags = 0, rq_cmd = CmdWrite, rq_handle = 2, rq_offset = 1, rq_len = 2\<rparr> [8, 9]"

definition demo_at ::
  "byte list \<Rightarrow> (nat \<rightharpoonup> byte) \<times> bool \<Rightarrow> (byte list \<times> byte list, (nat \<rightharpoonup> byte) \<times> bool) ao_backend \<Rightarrow> bool" where
  "demo_at cur c s \<longleftrightarrow> ao_size s = 4 \<and> ao_block s = 1 \<and> ao_origin s = (cur, [1, 2, 3, 4]) \<and> ao_cache s = c \<and>
     ao_origin_state s = OrReady"

lemmas demo_run_defs = demo_at_def demo_ao_read_def demo_ao_write_def serve_def validate_command_flags_def
  rq_validate_def is_multiple_of_def ao_ops_def checked_add_def u64_max_def ao_read_at_def ao_write_at_def
  ao_write_at_with_options_def ao_check_range_def ao_require_ready_origin_def stubborn_ao_env_def
  stubborn_cache_ops_def ao_origin_read_def plain_read plain_write Let_def ao_write_origin_def
  ao_update_cache_def revoke_cache_def write_options_default_def read_range_def write_range_def

lemma lookup_range_empty: "0 < n \<Longrightarrow> lookup_range off n Map.empty = None"
  by (auto simp: lookup_range_def)

lemma demo_steps:
  "demo_at [1, 2, 3, 4] (Map.empty, True) s \<Longrightarrow>
    demo_at [1, 2, 3, 4] (map_range 0 [1, 2, 3, 4] Map.empty, True) (fst (ao_exec stubborn_ao_env demo_ao_read s))"
  "demo_at [1, 2, 3, 4] (v, True) s \<Longrightarrow>
    demo_at [1, 8, 9, 4] (v, False) (fst (ao_exec stubborn_ao_env demo_ao_write s))"
  "demo_at [1, 8, 9, 4] (v, False) s \<Longrightarrow>
    \<exists>out. snd (ao_exec stubborn_ao_env demo_ao_read s) = AoServed out \<and> so_read_data out = [1, 8, 9, 4]"
  by (simp_all add: demo_run_defs lookup_range_empty split: option.split)

subsection \<open>Properties\<close>

text \<open>
  C3. The origin stays the authority. Over any lawful origin and any cache that keeps the cache
  contract, such as the bounded client of an isolated worker, a new backend answers every sequence of requests, cache
  releases and origin probes as the origin's disk would: a read returns what the writes before it
  left, whether the cache hits, misses or has been revoked, and also after reads, updates and promotions
  of the cache that failed and may have left it with old copies, which the backend then revokes; and
  at the end, a ready origin with no write outstanding has all its contents on the medium. The
  contract asks of a cache that a skipped update leaves no older copy behind and that a disabled one
  answers no more; the elastic cache of this repository does not keep it.
\<close>

theorem authority_is_origin:
  assumes "authoritative_origin env data durable view"
    and "ao_new g c sz block = Ok s" "sz \<le> u64_max" "sz \<le> length (data g)"
    and "view c = Map.empty" "durable g = data g"
    and "ao_exec_all env evs s = (t, outs)"
  shows "origin_run block (take sz (data g)) evs outs (ao_disk data t) \<and>
    (ao_origin_state t = OrReady \<longrightarrow> \<not> ao_origin_dirty t \<longrightarrow> durable (ao_origin t) = data (ao_origin t))"
proof -
  note new = new_backend [where view = view and dat = data and dur = durable, OF assms(2-6)]
  from authoritative_origin.exec_all_run [OF assms(1) new(1) assms(7)] show ?thesis
    using new(2) by (simp add: ao_inv_def ao_synced_def)
qed

theorem authority_is_origin_witness:
  "\<exists>s t x y out. ao_new ([1, 2, 3, 4], [1, 2, 3, 4]) (Map.empty, True) 4 1 = Ok s \<and>
     ao_exec_all stubborn_ao_env [demo_ao_read, demo_ao_write, demo_ao_read] s = (t, [x, y, AoServed out]) \<and>
     so_read_data out = [1, 8, 9, 4] \<and>
     origin_run 1 [1, 2, 3, 4] [demo_ao_read, demo_ao_write, demo_ao_read] [x, y, AoServed out] (ao_disk fst t)"
proof -
  obtain s where s: "ao_new (([1, 2, 3, 4], [1, 2, 3, 4]) :: byte list \<times> byte list)
      ((Map.empty, True) :: (nat \<rightharpoonup> byte) \<times> bool) 4 1 = Ok s" "demo_at [1, 2, 3, 4] (Map.empty, True) s"
    by (simp add: ao_new_def is_multiple_of_def demo_at_def)
  let ?s1 = "fst (ao_exec stubborn_ao_env demo_ao_read s)"
  let ?s2 = "fst (ao_exec stubborn_ao_env demo_ao_write ?s1)"
  obtain out where out: "snd (ao_exec stubborn_ao_env demo_ao_read ?s2) = AoServed out" "so_read_data out = [1, 8, 9, 4]"
    using demo_steps(3) [OF demo_steps(2) [OF demo_steps(1) [OF s(2)]]] by blast
  have t: "ao_exec_all stubborn_ao_env [demo_ao_read, demo_ao_write, demo_ao_read] s =
      (fst (ao_exec stubborn_ao_env demo_ao_read ?s2), [snd (ao_exec stubborn_ao_env demo_ao_read s),
        snd (ao_exec stubborn_ao_env demo_ao_write ?s1), AoServed out])"
    using out(1) by (simp add: case_prod_beta del: ao_exec.simps)
  from authority_is_origin [OF stubborn_origin.authoritative_origin_axioms s(1) _ _ _ _ t] s(1) t out(2)
  show ?thesis by (simp add: u64_max_def stubborn_view_def)
qed

text \<open>
  C30. A cache cannot fail a request. Whatever the cache does, lawful or not, a read or write that the
  backend refuses was out of range, found the origin not ready, or met an error of the origin itself,
  which is the error reported; and a write that is accepted has been written to the origin.
\<close>

theorem cache_never_fails_request:
  assumes "ao_read_at env s off n = (t, rd)" "ao_write_at_with_options env s woff bs opt = (u, wr)"
  shows "(\<forall>e. rd = Err e \<longrightarrow>
      ao_size s < off + n \<or> u64_max < off + n \<or> ao_origin_state s \<noteq> OrReady \<or>
      (\<exists>g. read_exact_at (ae_origin env) (ao_origin s) off n = (g, Err e))) \<and>
    (\<forall>e. wr = Err e \<longrightarrow>
      ao_size s < woff + length bs \<or> u64_max < woff + length bs \<or> ao_origin_state s \<noteq> OrReady \<or>
      (\<exists>g. write_all_at (ae_origin env) (ao_origin s) woff bs = (g, Err e)) \<or>
      (\<exists>g g'. wo_fua opt \<and> write_all_at (ae_origin env) (ao_origin s) woff bs = (g, Ok ()) \<and>
         os_sync_data (ae_origin env) g = (g', Err e))) \<and>
    (wr = Ok () \<longrightarrow> bs \<noteq> [] \<longrightarrow> (\<exists>g. write_all_at (ae_origin env) (ao_origin s) woff bs = (g, Ok ())))"
  using origin_read_error [OF assms(1)] origin_write_error [OF assms(2)] origin_write_done [OF assms(2)] by blast

theorem cache_never_fails_request_witness:
  "\<exists>s t rd u wr. ao_new ([1, 2, 3, 4], [1, 2, 3, 4]) (isolated_cache_client (Map.empty, None) 5) 4 1 = Ok s \<and>
     ao_read_at plain_ao_env s 3 2 = (t, rd) \<and> rd = Err (IoError ''authoritative origin I/O is out of range'') \<and>
     ao_write_at_with_options plain_ao_env s 1 [7] \<lparr>wo_fua = False\<rparr> = (u, wr) \<and>
     (\<forall>e. wr = Err e \<longrightarrow> (\<exists>g. write_all_at (file_origin_ops plain_file) (ao_origin s) 1 [7] = (g, Err e)))"
proof -
  let ?c = "isolated_cache_client (Map.empty, None) 5 :: ((nat \<rightharpoonup> byte) \<times> byte list option) bounded_cache_client"
  obtain s where s: "ao_new (([1, 2, 3, 4], [1, 2, 3, 4]) :: byte list \<times> byte list) ?c 4 1 = Ok s"
    "ao_origin_state s = OrReady" "ao_size s = 4"
    by (simp add: ao_new_def is_multiple_of_def)
  obtain u wr where u: "ao_write_at_with_options plain_ao_env s 1 [7] \<lparr>wo_fua = False\<rparr> = (u, wr)" by fastforce
  have rd: "ao_read_at plain_ao_env s 3 2 = (s, Err (IoError ''authoritative origin I/O is out of range''))"
    using s(3) by (simp add: ao_read_at_def ao_check_range_def checked_add_def u64_max_def)
  from cache_never_fails_request [OF rd u] s u rd show ?thesis
    by (simp add: u64_max_def plain_ao_env_def)
qed

end
