(* ===== verification/Elastic_Cache.thy ===== *)
theory Elastic_Cache
  imports Isolated_Origin "HOL-Library.Multiset"
begin

text \<open>
  The elastic VRAM cache (\<^verbatim>\<open>crates/ramshared-block/src/elastic_cache.rs\<close>), a cache of whole chunks that
  are allocated on the first write into them. It bounds the VRAM it holds and evicts the coldest
  chunks. It does not keep the cache contract of \<open>Isolated_Origin\<close>: a chunk answers for bytes that
  were never written to it.
\<close>

subsection \<open>State\<close>

definition ELASTIC_CHUNK_BYTES :: nat where "ELASTIC_CHUNK_BYTES = 64 * 1024 * 1024"
definition DMA_TIMEOUT_LIMIT :: duration where "DMA_TIMEOUT_LIMIT = 50 * 1000000"

record 'm chunk_slot =
  sl_mem :: "'m option"
  sl_written :: bool
  sl_last_accessed :: instant
  sl_spilled_to_ssd :: bool

record 'm elastic_table =
  et_chunk_bytes :: nat
  et_logical_capacity :: nat
  et_slots :: "'m chunk_slot list"

definition elastic_table_new :: "instant \<Rightarrow> nat \<Rightarrow> nat \<Rightarrow> 'm elastic_table" where
  "elastic_table_new now capacity cb =
     \<lparr>et_chunk_bytes = cb, et_logical_capacity = capacity,
      et_slots = replicate (if cb = 0 then 0 else saturating_add u64_max capacity (saturating_sub cb 1) div cb)
        \<lparr>sl_mem = None, sl_written = False, sl_last_accessed = now, sl_spilled_to_ssd = False\<rparr>\<rparr>"

definition slot_resident :: "'m chunk_slot \<Rightarrow> bool" where
  "slot_resident sl \<longleftrightarrow> sl_mem sl \<noteq> None \<and> \<not> sl_spilled_to_ssd sl"

definition resident_chunks_count :: "'m elastic_table \<Rightarrow> nat" where
  "resident_chunks_count tb = length (filter slot_resident (et_slots tb))"

record elastic_config =
  ec_chunk_bytes :: nat
  ec_logical_capacity :: nat
  ec_max_vram_bytes :: nat
  ec_dma_timeout :: duration

definition elastic_config_default :: elastic_config where
  "elastic_config_default =
     \<lparr>ec_chunk_bytes = ELASTIC_CHUNK_BYTES, ec_logical_capacity = 4 * 1024 * 1024 * 1024,
      ec_max_vram_bytes = 4 * 1024 * 1024 * 1024, ec_dma_timeout = DMA_TIMEOUT_LIMIT\<rparr>"

text \<open>\<open>Instant::now\<close> reads a clock whose state the cache threads through.\<close>

record ('p, 'm, 'k) elastic_env =
  ee_mem :: "'m mem_ops"
  ee_prov :: "('p, 'm) prov_ops"
  ee_now :: "'k \<Rightarrow> 'k \<times> instant"

record ('p, 'm, 'k) elastic_cache =
  el_provider :: 'p
  el_config :: elastic_config
  el_table :: "'m elastic_table"
  el_state :: cache_state
  el_watchdog_tripped :: bool
  el_clock :: 'k

definition elastic_new ::
  "('p, 'm, 'k) elastic_env \<Rightarrow> 'p \<Rightarrow> 'k \<Rightarrow> elastic_config \<Rightarrow> ('p, 'm, 'k) elastic_cache" where
  "elastic_new env p k cfg =
     (let (k1, now) = ee_now env k
      in \<lparr>el_provider = p, el_config = cfg,
          el_table = elastic_table_new now (ec_logical_capacity cfg) (ec_chunk_bytes cfg),
          el_state = CsActive, el_watchdog_tripped = False, el_clock = k1\<rparr>)"

definition el_slots :: "('p, 'm, 'k) elastic_cache \<Rightarrow> 'm chunk_slot list" where
  "el_slots s = et_slots (el_table s)"

definition set_slot ::
  "nat \<Rightarrow> ('m chunk_slot \<Rightarrow> 'm chunk_slot) \<Rightarrow> ('p, 'm, 'k) elastic_cache \<Rightarrow> ('p, 'm, 'k) elastic_cache" where
  "set_slot idx f s = s\<lparr>el_table := (el_table s)\<lparr>et_slots := (el_slots s)[idx := f (el_slots s ! idx)]\<rparr>\<rparr>"

definition active_vram_bytes :: "('p, 'm, 'k) elastic_cache \<Rightarrow> nat" where
  "active_vram_bytes s =
     saturating_mul u64_max (resident_chunks_count (el_table s)) (ec_chunk_bytes (el_config s))"

definition trip_watchdog :: "('p, 'm, 'k) elastic_cache \<Rightarrow> ('p, 'm, 'k) elastic_cache" where
  "trip_watchdog s = s\<lparr>el_watchdog_tripped := True\<rparr>"

definition reset_watchdog :: "('p, 'm, 'k) elastic_cache \<Rightarrow> ('p, 'm, 'k) elastic_cache" where
  "reset_watchdog s = s\<lparr>el_watchdog_tripped := False\<rparr>"

subsection \<open>Eviction\<close>

definition eligible_chunks :: "('p, 'm, 'k) elastic_cache \<Rightarrow> (nat \<times> instant) list" where
  "eligible_chunks s =
     sort_key snd (map (\<lambda>i. (i, sl_last_accessed (el_slots s ! i)))
       (filter (\<lambda>i. slot_resident (el_slots s ! i)) [0..<length (el_slots s)]))"

definition evict_slot :: "nat \<Rightarrow> ('p, 'm, 'k) elastic_cache \<Rightarrow> ('p, 'm, 'k) elastic_cache" where
  "evict_slot idx = set_slot idx (\<lambda>sl. sl\<lparr>sl_mem := None, sl_spilled_to_ssd := True\<rparr>)"

fun evict_loop ::
  "nat \<Rightarrow> nat \<Rightarrow> nat \<Rightarrow> nat \<Rightarrow> (nat \<times> instant) list \<Rightarrow> ('p, 'm, 'k) elastic_cache \<Rightarrow>
   ('p, 'm, 'k) elastic_cache \<times> nat" where
  "evict_loop cb target freed evicted [] s = (s, evicted)"
| "evict_loop cb target freed evicted ((idx, _) # rest) s =
     (if freed \<ge> target then (s, evicted)
      else evict_loop cb target (saturating_add u64_max freed cb) (saturating_add u64_max evicted 1) rest
             (evict_slot idx s))"

definition evict_coldest_chunks :: "nat \<Rightarrow> ('p, 'm, 'k) elastic_cache \<Rightarrow> ('p, 'm, 'k) elastic_cache \<times> nat" where
  "evict_coldest_chunks target s =
     (let cb = ec_chunk_bytes (el_config s)
      in if cb = 0 \<or> target = 0 then (s, 0) else evict_loop cb target 0 0 (eligible_chunks s) s)"

subsection \<open>The cache operations\<close>

text \<open>A transfer that failed or overran its deadline trips the watchdog and gives the chunk up.\<close>

definition spill_fault :: "nat \<Rightarrow> ('p, 'm, 'k) elastic_cache \<Rightarrow> ('p, 'm, 'k) elastic_cache" where
  "spill_fault idx s = set_slot idx (\<lambda>sl. sl\<lparr>sl_spilled_to_ssd := True\<rparr>) (s\<lparr>el_watchdog_tripped := True\<rparr>)"

definition elastic_read ::
  "('p, 'm, 'k) elastic_env \<Rightarrow> ('p, 'm, 'k) elastic_cache \<Rightarrow> nat \<Rightarrow> nat \<Rightarrow>
   ('p, 'm, 'k) elastic_cache \<times> cache_read_outcome" where
  "elastic_read env s off n =
     (if el_state s \<noteq> CsActive \<or> el_watchdog_tripped s then (s, CrMiss)
      else let cb = ec_chunk_bytes (el_config s)
      in if cb = 0 \<or> off \<ge> ec_logical_capacity (el_config s) then (s, CrFailed)
      else let idx = off div cb; chunk_off = off mod cb
      in if idx \<ge> length (el_slots s) then (s, CrFailed)
      else if sl_spilled_to_ssd (el_slots s ! idx) then (s, CrMiss)
      else (case sl_mem (el_slots s ! idx) of
              None \<Rightarrow> (s, CrMiss)
            | Some m \<Rightarrow>
                let (k1, start) = ee_now env (el_clock s)
                in case mo_read (ee_mem env) m chunk_off n of
                     Err _ \<Rightarrow> (spill_fault idx (s\<lparr>el_clock := k1\<rparr>), CrMiss)
                   | Ok bs \<Rightarrow>
                       let (k2, now) = ee_now env k1
                       in if saturating_sub now start > ec_dma_timeout (el_config s)
                          then (spill_fault idx (s\<lparr>el_clock := k2\<rparr>), CrMiss)
                          else let (k3, accessed) = ee_now env k2
                               in (set_slot idx (\<lambda>sl. sl\<lparr>sl_last_accessed := accessed\<rparr>) (s\<lparr>el_clock := k3\<rparr>),
                                   CrHit bs)))"

text \<open>The chunk of an update, allocated on its first write; \<open>None\<close> when the write is skipped.\<close>

definition elastic_region ::
  "('p, 'm, 'k) elastic_env \<Rightarrow> nat \<Rightarrow> ('p, 'm, 'k) elastic_cache \<Rightarrow> ('p, 'm, 'k) elastic_cache \<times> 'm option" where
  "elastic_region env idx s =
     (case sl_mem (el_slots s ! idx) of
        Some m \<Rightarrow> (s, Some m)
      | None \<Rightarrow>
          let cb = ec_chunk_bytes (el_config s)
          in if saturating_add u64_max (active_vram_bytes s) cb > ec_max_vram_bytes (el_config s)
             then (set_slot idx (\<lambda>sl. sl\<lparr>sl_spilled_to_ssd := True\<rparr>) s, None)
             else (case po_alloc (ee_prov env) (el_provider s) cb of
                     (p, Err _) \<Rightarrow>
                       (set_slot idx (\<lambda>sl. sl\<lparr>sl_spilled_to_ssd := True\<rparr>) (s\<lparr>el_provider := p\<rparr>), None)
                   | (p, Ok m) \<Rightarrow>
                       let (m', _) = mo_zero (ee_mem env) m
                       in (set_slot idx (\<lambda>sl. sl\<lparr>sl_mem := Some m'\<rparr>) (s\<lparr>el_provider := p\<rparr>), Some m')))"

definition elastic_write ::
  "('p, 'm, 'k) elastic_env \<Rightarrow> nat \<Rightarrow> nat \<Rightarrow> byte list \<Rightarrow> 'm \<Rightarrow> ('p, 'm, 'k) elastic_cache \<Rightarrow>
   ('p, 'm, 'k) elastic_cache \<times> cache_mutation" where
  "elastic_write env idx chunk_off bs m s =
     (let (k1, start) = ee_now env (el_clock s);
          (m', r) = mo_write (ee_mem env) m chunk_off bs;
          s1 = set_slot idx (\<lambda>sl. sl\<lparr>sl_mem := Some m'\<rparr>) (s\<lparr>el_clock := k1\<rparr>)
      in case r of
           Err _ \<Rightarrow> (spill_fault idx s1, CmFailed)
         | Ok _ \<Rightarrow>
             let (k2, now) = ee_now env k1
             in if saturating_sub now start > ec_dma_timeout (el_config s)
                then (spill_fault idx (s1\<lparr>el_clock := k2\<rparr>), CmFailed)
                else let (k3, accessed) = ee_now env k2
                     in (set_slot idx (\<lambda>sl. sl\<lparr>sl_written := True, sl_last_accessed := accessed\<rparr>)
                           (s1\<lparr>el_clock := k3\<rparr>), CmAccepted))"

definition elastic_update ::
  "('p, 'm, 'k) elastic_env \<Rightarrow> ('p, 'm, 'k) elastic_cache \<Rightarrow> nat \<Rightarrow> byte list \<Rightarrow>
   ('p, 'm, 'k) elastic_cache \<times> cache_mutation" where
  "elastic_update env s off bs =
     (if el_state s \<noteq> CsActive \<or> el_watchdog_tripped s then (s, CmSkipped)
      else let cb = ec_chunk_bytes (el_config s)
      in if cb = 0 \<or> off \<ge> ec_logical_capacity (el_config s) then (s, CmFailed)
      else let idx = off div cb; chunk_off = off mod cb
      in if idx \<ge> length (el_slots s) then (s, CmFailed)
      else if sl_spilled_to_ssd (el_slots s ! idx) then (s, CmSkipped)
      else (case elastic_region env idx s of
              (s1, None) \<Rightarrow> (s1, CmSkipped)
            | (s1, Some m) \<Rightarrow> elastic_write env idx chunk_off bs m s1))"

definition elastic_promote ::
  "('p, 'm, 'k) elastic_env \<Rightarrow> ('p, 'm, 'k) elastic_cache \<Rightarrow> nat \<Rightarrow> byte list \<Rightarrow>
   ('p, 'm, 'k) elastic_cache \<times> cache_mutation" where
  "elastic_promote env s off bs =
     (if el_state s \<noteq> CsActive \<or> el_watchdog_tripped s then (s, CmSkipped) else elastic_update env s off bs)"

definition elastic_disable :: "('p, 'm, 'k) elastic_cache \<Rightarrow> ('p, 'm, 'k) elastic_cache \<times> cache_mutation" where
  "elastic_disable s =
     (s\<lparr>el_state := CsUnavailable,
        el_table := (el_table s)\<lparr>et_slots := map (\<lambda>sl. sl\<lparr>sl_mem := None, sl_spilled_to_ssd := True\<rparr>) (el_slots s)\<rparr>\<rparr>,
      CmAccepted)"

definition elastic_ops :: "('p, 'm, 'k) elastic_env \<Rightarrow> ('p, 'm, 'k) elastic_cache best_effort_ops" where
  "elastic_ops env =
     \<lparr>bec_read = elastic_read env, bec_update = elastic_update env, bec_promote = elastic_promote env,
      bec_disable = elastic_disable, bec_state = el_state, bec_cached_bytes = active_vram_bytes,
      bec_target_bytes = (\<lambda>s. ec_max_vram_bytes (el_config s))\<rparr>"

subsection \<open>Bounds\<close>

definition held_chunks :: "('p, 'm, 'k) elastic_cache \<Rightarrow> nat" where
  "held_chunks s = length (filter (\<lambda>sl. sl_mem sl \<noteq> None) (el_slots s))"

text \<open>
  Until the watchdog trips, a chunk with memory has not been spilled, so that the chunks counted are
  the chunks held.
\<close>

definition elastic_inv :: "('p, 'm, 'k) elastic_cache \<Rightarrow> bool" where
  "elastic_inv s \<longleftrightarrow>
     0 < ec_chunk_bytes (el_config s) \<and>
     length (el_slots s) * ec_chunk_bytes (el_config s) \<le> u64_max \<and>
     held_chunks s * ec_chunk_bytes (el_config s) \<le> ec_max_vram_bytes (el_config s) \<and>
     (el_watchdog_tripped s \<or> (\<forall>sl \<in> set (el_slots s). sl_mem sl \<noteq> None \<longrightarrow> \<not> sl_spilled_to_ssd sl))"

lemma set_slot_fields [simp]:
  "el_config (set_slot i f s) = el_config s" "el_state (set_slot i f s) = el_state s"
  "el_watchdog_tripped (set_slot i f s) = el_watchdog_tripped s"
  "el_slots (set_slot i f s) = (el_slots s)[i := f (el_slots s ! i)]"
  by (simp_all add: set_slot_def el_slots_def)

lemma el_slots_frame [simp]:
  "el_slots (s\<lparr>el_clock := k\<rparr>) = el_slots s" "el_slots (s\<lparr>el_provider := p\<rparr>) = el_slots s"
  "el_slots (s\<lparr>el_watchdog_tripped := b\<rparr>) = el_slots s"
  by (simp_all add: el_slots_def)

text \<open>Steps that give no chunk memory it did not have.\<close>

definition elastic_frame :: "('p, 'm, 'k) elastic_cache \<Rightarrow> ('p, 'm, 'k) elastic_cache \<Rightarrow> bool" where
  "elastic_frame s t \<longleftrightarrow> el_config t = el_config s \<and> length (el_slots t) = length (el_slots s) \<and>
     (\<forall>i < length (el_slots s). sl_mem (el_slots t ! i) \<noteq> None \<longrightarrow> sl_mem (el_slots s ! i) \<noteq> None) \<and>
     (el_watchdog_tripped s \<longrightarrow> el_watchdog_tripped t) \<and>
     (\<not> el_watchdog_tripped t \<longrightarrow> (\<forall>i < length (el_slots s).
        sl_mem (el_slots t ! i) \<noteq> None \<longrightarrow> sl_spilled_to_ssd (el_slots t ! i) \<longrightarrow> sl_spilled_to_ssd (el_slots s ! i)))"

lemma elastic_frame_trans: "elastic_frame s t \<Longrightarrow> elastic_frame t u \<Longrightarrow> elastic_frame s u"
  unfolding elastic_frame_def by auto

lemma length_filter_mono:
  "length xs = length ys \<Longrightarrow> (\<And>i. i < length xs \<Longrightarrow> P (xs ! i) \<Longrightarrow> Q (ys ! i)) \<Longrightarrow>
   length (filter P xs) \<le> length (filter Q ys)"
proof (induction xs ys rule: list_induct2)
  case (Cons x xs y ys)
  from Cons.prems [of 0] have "P x \<Longrightarrow> Q y" by simp
  moreover have "length (filter P xs) \<le> length (filter Q ys)" using Cons.IH Cons.prems [of "Suc i" for i] by simp
  ultimately show ?case by auto
qed simp

lemma frame_inv:
  assumes "elastic_frame s t" "elastic_inv s"
  shows "elastic_inv t"
proof -
  have "held_chunks t \<le> held_chunks s"
    unfolding held_chunks_def by (rule length_filter_mono) (use assms(1) in \<open>simp_all add: elastic_frame_def\<close>)
  then have "held_chunks t * ec_chunk_bytes (el_config s) \<le> ec_max_vram_bytes (el_config s)"
    using assms(2) unfolding elastic_inv_def by (blast intro: le_trans mult_le_mono1)
  then show ?thesis
    using assms unfolding elastic_frame_def elastic_inv_def all_set_conv_all_nth by auto
qed

lemma frame_set_slot:
  assumes "sl_mem (f (el_slots s ! i)) \<noteq> None \<Longrightarrow> sl_mem (el_slots s ! i) \<noteq> None"
    and "sl_mem (f (el_slots s ! i)) \<noteq> None \<Longrightarrow> sl_spilled_to_ssd (f (el_slots s ! i)) \<Longrightarrow>
      el_watchdog_tripped s \<or> sl_spilled_to_ssd (el_slots s ! i)"
  shows "elastic_frame s (set_slot i f s)"
  using assms by (cases "i < length (el_slots s)") (auto simp: elastic_frame_def nth_list_update)

lemma frame_skip [simp]:
  "elastic_frame s s" "elastic_frame s (s\<lparr>el_clock := k\<rparr>)" "elastic_frame s (s\<lparr>el_provider := p\<rparr>)"
  "elastic_frame s (trip_watchdog s)" "elastic_frame s (s\<lparr>el_watchdog_tripped := True\<rparr>)"
  by (simp_all add: elastic_frame_def trip_watchdog_def)

lemma frame_spill_fault: "elastic_frame s (spill_fault i s)"
  unfolding spill_fault_def
  by (rule elastic_frame_trans [OF frame_skip(5) frame_set_slot]) auto

lemma frame_clocked: "elastic_frame (s\<lparr>el_clock := k\<rparr>) t \<Longrightarrow> elastic_frame s t"
  using elastic_frame_trans [OF frame_skip(2)] .

lemma frame_read:
  assumes "elastic_read env s off n = (t, r)"
  shows "elastic_frame s t"
proof -
  consider "t = s" | i k where "t = spill_fault i (s\<lparr>el_clock := k\<rparr>)"
    | i k a where "t = set_slot i (\<lambda>sl. sl\<lparr>sl_last_accessed := a\<rparr>) (s\<lparr>el_clock := k\<rparr>)"
    using assms by (auto simp: elastic_read_def Let_def split: if_splits option.splits prod.splits result.splits)
  then show ?thesis
  proof cases
    case 3
    show ?thesis unfolding 3 by (rule frame_clocked, rule frame_set_slot) auto
  qed (use frame_clocked [OF frame_spill_fault] in auto)
qed

lemma frame_evict_slot: "elastic_frame s (evict_slot i s)"
  unfolding evict_slot_def by (rule frame_set_slot) simp_all

lemma frame_evict_loop: "elastic_frame s (fst (evict_loop cb target freed evicted xs s))"
  by (induction cb target freed evicted xs s rule: evict_loop.induct)
    (auto intro: elastic_frame_trans frame_evict_slot)

lemma frame_evict: "elastic_frame s (fst (evict_coldest_chunks target s))"
  by (simp add: evict_coldest_chunks_def Let_def frame_evict_loop)

lemma frame_disable: "elastic_frame s (fst (elastic_disable s))"
  by (simp add: elastic_frame_def elastic_disable_def el_slots_def)

lemma frame_write:
  assumes "elastic_write env i off bs m s = (t, r)" "sl_mem (el_slots s ! i) \<noteq> None"
  shows "elastic_frame s t"
proof -
  obtain k1 start where k1: "ee_now env (el_clock s) = (k1, start)" by fastforce
  obtain m' x where x: "mo_write (ee_mem env) m off bs = (m', x)" by fastforce
  define s1 where "s1 = set_slot i (\<lambda>sl. sl\<lparr>sl_mem := Some m'\<rparr>) (s\<lparr>el_clock := k1\<rparr>)"
  have f1: "elastic_frame s s1"
    unfolding s1_def by (rule frame_clocked, rule frame_set_slot) (use assms(2) in auto)
  consider "t = spill_fault i s1" | k where "t = spill_fault i (s1\<lparr>el_clock := k\<rparr>)"
    | k a where "t = set_slot i (\<lambda>sl. sl\<lparr>sl_written := True, sl_last_accessed := a\<rparr>) (s1\<lparr>el_clock := k\<rparr>)"
    using assms(1) k1 x
    by (auto simp: elastic_write_def Let_def s1_def [symmetric] split: if_splits prod.splits result.splits)
  then have "elastic_frame s1 t"
  proof cases
    case 3
    show ?thesis unfolding 3 by (rule frame_clocked, rule frame_set_slot) auto
  qed (use frame_spill_fault frame_clocked [OF frame_spill_fault] in auto)
  then show ?thesis by (rule elastic_frame_trans [OF f1])
qed

lemma region_inv:
  assumes "elastic_inv s" "\<not> el_watchdog_tripped s" "i < length (el_slots s)" "\<not> sl_spilled_to_ssd (el_slots s ! i)"
    and "elastic_region env i s = (t, r)"
  shows "elastic_inv t" "r \<noteq> None \<Longrightarrow> sl_mem (el_slots t ! i) \<noteq> None" "el_config t = el_config s"
proof -
  let ?cb = "ec_chunk_bytes (el_config s)"
  have "elastic_inv t \<and> (r \<noteq> None \<longrightarrow> sl_mem (el_slots t ! i) \<noteq> None) \<and> el_config t = el_config s"
  proof (cases "sl_mem (el_slots s ! i)")
    case (Some m)
    then show ?thesis using assms by (auto simp: elastic_region_def)
  next
    case None
    have same: "filter slot_resident (el_slots s) = filter (\<lambda>sl. sl_mem sl \<noteq> None) (el_slots s)"
      using assms(1,2) by (intro filter_cong) (auto simp: elastic_inv_def slot_resident_def)
    consider p where "t = set_slot i (\<lambda>sl. sl\<lparr>sl_spilled_to_ssd := True\<rparr>) (s\<lparr>el_provider := p\<rparr>)" "r = None"
      | p m where "t = set_slot i (\<lambda>sl. sl\<lparr>sl_mem := Some m\<rparr>) (s\<lparr>el_provider := p\<rparr>)"
        "saturating_add u64_max (active_vram_bytes s) ?cb \<le> ec_max_vram_bytes (el_config s)"
      using assms(5) None that(1) [of "el_provider s"]
      by (auto simp: elastic_region_def Let_def split: if_splits prod.splits result.splits)
    then show ?thesis
    proof cases
      case (1 p)
      have "elastic_frame s t"
        unfolding 1(1) by (rule elastic_frame_trans [OF frame_skip(3) frame_set_slot]) (use None in auto)
      then show ?thesis using frame_inv [OF _ assms(1)] 1(2) by (simp add: elastic_frame_def)
    next
      case (2 p m)
      let ?sl = "(el_slots s ! i)\<lparr>sl_mem := Some m\<rparr>"
      have t: "el_slots t = (el_slots s)[i := ?sl]" "el_config t = el_config s" "\<not> el_watchdog_tripped t"
        using 2(1) assms(2) by simp_all
      have held: "held_chunks t = Suc (held_chunks s)"
        using length_filter_update [OF assms(3), of "\<lambda>sl. sl_mem sl \<noteq> None" ?sl] None
        unfolding held_chunks_def t(1) by simp
      have "held_chunks t \<le> length (el_slots s)" using t(1) by (simp add: held_chunks_def) (metis length_filter_le length_list_update)
      then have le: "held_chunks t * ?cb \<le> u64_max"
        using assms(1) unfolding elastic_inv_def by (blast intro: le_trans mult_le_mono1)
      have "active_vram_bytes s = held_chunks s * ?cb"
        using le held
        unfolding active_vram_bytes_def resident_chunks_count_def el_slots_def [symmetric] same held_chunks_def [symmetric]
        by (simp add: saturating_mul_def)
      then have "held_chunks t * ?cb \<le> ec_max_vram_bytes (el_config s)"
        using 2(2) le held by (simp add: saturating_add_def)
      moreover have "sl_mem sl \<noteq> None \<longrightarrow> \<not> sl_spilled_to_ssd sl" if "sl \<in> set (el_slots t)" for sl
        using that assms(1,2,4) set_update_subset_insert [of "el_slots s" i ?sl] t(1) by (auto simp: elastic_inv_def)
      ultimately show ?thesis using assms(1,3) t by (simp add: elastic_inv_def)
    qed
  qed
  then show "elastic_inv t" "r \<noteq> None \<Longrightarrow> sl_mem (el_slots t ! i) \<noteq> None" "el_config t = el_config s" by blast+
qed

lemma update_inv:
  assumes "elastic_inv s" "elastic_update env s off bs = (t, r)"
  shows "elastic_inv t \<and> el_config t = el_config s"
proof (cases "t = s")
  case False
  let ?i = "off div ec_chunk_bytes (el_config s)"
  have g: "\<not> el_watchdog_tripped s" "?i < length (el_slots s)" "\<not> sl_spilled_to_ssd (el_slots s ! ?i)"
    using assms(2) False by (auto simp: elastic_update_def Let_def split: if_splits)
  obtain s1 x where x: "elastic_region env ?i s = (s1, x)" by fastforce
  note reg = region_inv [OF assms(1) g x]
  consider "x = None" "t = s1" | m where "x = Some m" "elastic_write env ?i (off mod ec_chunk_bytes (el_config s)) bs m s1 = (t, r)"
    using assms(2) False x by (cases x) (auto simp: elastic_update_def Let_def split: if_splits)
  then show ?thesis
  proof cases
    case 2
    then have "elastic_frame s1 t" using frame_write [OF 2(2) reg(2)] by simp
    then show ?thesis using frame_inv [OF _ reg(1)] reg(3) by (simp add: elastic_frame_def)
  qed (use reg in simp)
qed (use assms(1) in simp)

subsection \<open>What eviction takes\<close>

definition resident_ids :: "('p, 'm, 'k) elastic_cache \<Rightarrow> nat set" where
  "resident_ids s = {i. i < length (el_slots s) \<and> slot_resident (el_slots s ! i)}"

lemma evict_slot_ids: "resident_ids (evict_slot i s) = resident_ids s - {i}"
  by (cases "i < length (el_slots s)")
    (auto simp: resident_ids_def evict_slot_def slot_resident_def nth_list_update split: if_splits)

lemma evict_slot_access: "sl_last_accessed (el_slots (evict_slot i s) ! j) = sl_last_accessed (el_slots s ! j)"
  by (cases "i < length (el_slots s)") (auto simp: evict_slot_def nth_list_update list_update_beyond)

text \<open>The loop takes a prefix: as many chunks as the target asks for.\<close>

lemma evict_loop_prefix:
  assumes "target \<le> u64_max" "freed = min u64_max (evicted * cb)" "evicted + length xs \<le> u64_max"
  shows "\<exists>k. snd (evict_loop cb target freed evicted xs s) = evicted + k \<and>
     resident_ids (fst (evict_loop cb target freed evicted xs s)) = resident_ids s - set (map fst (take k xs)) \<and>
     k \<le> length xs \<and> (k < length xs \<longrightarrow> target \<le> (evicted + k) * cb) \<and> (0 < k \<longrightarrow> (evicted + k - 1) * cb < target)"
  using assms
proof (induction cb target freed evicted xs s rule: evict_loop.induct)
  case (2 cb target freed evicted idx a rest s)
  show ?case
  proof (cases "freed \<ge> target")
    case True
    then show ?thesis using 2(3) by (intro exI [of _ 0]) simp
  next
    case False
    have fr: "evicted * cb < target" "freed = evicted * cb" using False 2(2,3) by simp_all
    have sat: "saturating_add u64_max freed cb = min u64_max (Suc evicted * cb)" "saturating_add u64_max evicted 1 = Suc evicted"
      using fr 2(4) by (simp_all add: saturating_add_def)
    let ?r = "evict_loop cb target (min u64_max (Suc evicted * cb)) (Suc evicted) rest (evict_slot idx s)"
    have eq: "evict_loop cb target freed evicted ((idx, a) # rest) s = ?r" using False sat by simp
    have "Suc evicted + length rest \<le> u64_max" using 2(4) by simp
    from 2(1) [OF False 2(2), unfolded sat, OF refl this]
    obtain k where k: "snd ?r = Suc evicted + k" "resident_ids (fst ?r) = resident_ids (evict_slot idx s) - set (map fst (take k rest))"
      "k \<le> length rest" "k < length rest \<longrightarrow> target \<le> (Suc evicted + k) * cb"
      "0 < k \<longrightarrow> (Suc evicted + k - 1) * cb < target" by blast
    have "resident_ids (fst ?r) = resident_ids s - set (map fst (take (Suc k) ((idx, a) # rest)))"
      unfolding k(2) evict_slot_ids by auto
    moreover have "(evicted + Suc k - 1) * cb < target" using k(5) fr(1) by (cases k) simp_all
    ultimately show ?thesis unfolding eq using k(1,3,4) by (intro exI [of _ "Suc k"]) simp
  qed
qed simp

lemma eligible_sorted:
  shows "sorted (map snd (eligible_chunks s))" "set (map fst (eligible_chunks s)) = resident_ids s"
    "distinct (map fst (eligible_chunks s))" "(i, a) \<in> set (eligible_chunks s) \<Longrightarrow> a = sl_last_accessed (el_slots s ! i)"
proof -
  let ?ps = "map (\<lambda>i. (i, sl_last_accessed (el_slots s ! i))) (filter (\<lambda>i. slot_resident (el_slots s ! i)) [0..<length (el_slots s)])"
  have m: "mset (eligible_chunks s) = mset ?ps" by (simp add: eligible_chunks_def)
  have f: "map fst ?ps = filter (\<lambda>i. slot_resident (el_slots s ! i)) [0..<length (el_slots s)]" by (simp add: comp_def)
  have mf: "mset (map fst (eligible_chunks s)) = mset (map fst ?ps)" using m by (simp only: mset_map)
  show "sorted (map snd (eligible_chunks s))" by (simp add: eligible_chunks_def)
  have "set (map fst (eligible_chunks s)) = set (map fst ?ps)" using mf by (rule mset_eq_setD)
  then show "set (map fst (eligible_chunks s)) = resident_ids s" unfolding f by (auto simp: resident_ids_def)
  show "distinct (map fst (eligible_chunks s))"
    using mf distinct_filter [of "[0..<length (el_slots s)]"] unfolding f by (metis distinct_upt mset_eq_imp_distinct_iff)
  assume "(i, a) \<in> set (eligible_chunks s)"
  then show "a = sl_last_accessed (el_slots s ! i)" using mset_eq_setD [OF m] by auto
qed

lemma evict_takes_oldest:
  assumes "i \<in> set (map fst (take k (eligible_chunks s)))" "j \<in> resident_ids s - set (map fst (take k (eligible_chunks s)))"
  shows "sl_last_accessed (el_slots s ! i) \<le> sl_last_accessed (el_slots s ! j)"
proof -
  let ?xs = "eligible_chunks s"
  obtain a where a: "(i, a) \<in> set (take k ?xs)" using assms(1) by auto
  have "j \<in> fst ` set ?xs" using assms(2) eligible_sorted(2) [of s] by simp
  then obtain b where b: "(j, b) \<in> set ?xs" by auto
  have "(j, b) \<notin> set (take k ?xs)" using assms(2) by force
  then have "(j, b) \<in> set (drop k ?xs)" using b set_append [of "take k ?xs" "drop k ?xs"] by simp
  moreover have "sorted (map snd (take k ?xs) @ map snd (drop k ?xs))"
    using eligible_sorted(1) [of s] by (metis append_take_drop_id map_append)
  ultimately have "a \<le> b" using a by (force simp: sorted_append)
  then show ?thesis using eligible_sorted(4) [OF in_set_takeD [OF a]] eligible_sorted(4) [OF b] by simp
qed

subsection \<open>A run of the cache\<close>

datatype elastic_event =
    EeRead nat nat
  | EeUpdate nat "byte list"
  | EePromote nat "byte list"
  | EeEvict nat
  | EeTrip
  | EeDisable

fun elastic_exec ::
  "('p, 'm, 'k) elastic_env \<Rightarrow> elastic_event \<Rightarrow> ('p, 'm, 'k) elastic_cache \<Rightarrow> ('p, 'm, 'k) elastic_cache" where
  "elastic_exec env (EeRead off n) s = fst (elastic_read env s off n)"
| "elastic_exec env (EeUpdate off bs) s = fst (elastic_update env s off bs)"
| "elastic_exec env (EePromote off bs) s = fst (elastic_promote env s off bs)"
| "elastic_exec env (EeEvict target) s = fst (evict_coldest_chunks target s)"
| "elastic_exec env EeTrip s = trip_watchdog s"
| "elastic_exec env EeDisable s = fst (elastic_disable s)"

lemma exec_elastic_inv:
  assumes "elastic_inv s"
  shows "elastic_inv (elastic_exec env ev s) \<and> el_config (elastic_exec env ev s) = el_config s"
proof -
  have fr: "elastic_inv t \<and> el_config t = el_config s" if "elastic_frame s t" for t
    using frame_inv [OF that assms] that by (simp add: elastic_frame_def)
  have rd: "elastic_frame s (fst (elastic_read env s off n))" for off n
    using frame_read [of env s off n] by (cases "elastic_read env s off n") simp
  have up: "elastic_inv (fst (elastic_update env s off bs)) \<and> el_config (fst (elastic_update env s off bs)) = el_config s" for off bs
    using update_inv [OF assms, of env off bs] by (cases "elastic_update env s off bs") simp
  show ?thesis
    using fr [OF rd] up fr [OF frame_evict] fr [OF frame_disable] fr [OF frame_skip(4)] assms
    by (cases ev) (simp_all add: elastic_promote_def)
qed

lemma exec_elastic_all:
  "elastic_inv s \<Longrightarrow> elastic_inv (fold (elastic_exec env) evs s) \<and> el_config (fold (elastic_exec env) evs s) = el_config s"
  by (induction evs arbitrary: s) (simp_all add: exec_elastic_inv)

lemma new_elastic_inv:
  assumes "0 < ec_chunk_bytes cfg" "ec_logical_capacity cfg + ec_chunk_bytes cfg \<le> u64_max"
  shows "elastic_inv (elastic_new env p k cfg)" "el_config (elastic_new env p k cfg) = cfg"
proof -
  let ?cb = "ec_chunk_bytes cfg"
  have n: "length (el_slots (elastic_new env p k cfg)) = (ec_logical_capacity cfg + ?cb - 1) div ?cb"
    using assms by (simp add: elastic_new_def elastic_table_new_def el_slots_def saturating_add_def saturating_sub_def
        case_prod_beta)
  have "(ec_logical_capacity cfg + ?cb - 1) div ?cb * ?cb \<le> u64_max"
    using assms(2) div_times_less_eq_dividend [of "ec_logical_capacity cfg + ?cb - 1" ?cb] by linarith
  moreover have "\<forall>sl \<in> set (el_slots (elastic_new env p k cfg)). sl_mem sl = None"
    by (simp add: elastic_new_def elastic_table_new_def el_slots_def case_prod_beta)
  ultimately show "elastic_inv (elastic_new env p k cfg)"
    using assms n unfolding elastic_inv_def held_chunks_def
    by (simp add: elastic_new_def case_prod_beta filter_empty_conv)
  show "el_config (elastic_new env p k cfg) = cfg" by (simp add: elastic_new_def case_prod_beta)
qed

subsection \<open>What a fresh chunk answers\<close>

lemma elastic_hit:
  assumes "elastic_read env s off n = (c, CrHit hit)"
  defines "i \<equiv> off div ec_chunk_bytes (el_config s)"
  shows "el_state s = CsActive" "\<not> el_watchdog_tripped s" "i < length (el_slots s)"
    "\<not> sl_spilled_to_ssd (el_slots s ! i)"
    "\<exists>m. sl_mem (el_slots s ! i) = Some m \<and> mo_read (ee_mem env) m (off mod ec_chunk_bytes (el_config s)) n = Ok hit"
  using assms
  by (auto simp: elastic_read_def Let_def not_le split: if_splits option.splits prod.splits result.splits)

lemma fresh_region:
  assumes "vram_provider (ee_mem env) contents good (ee_prov env)"
    and "\<And>m m' r. good m \<Longrightarrow> mo_zero (ee_mem env) m = (m', r) \<Longrightarrow> r = Ok ()"
    and "sl_mem (el_slots s ! i) = None" "elastic_region env i s = (t, Some m)"
  shows "good m \<and> contents m = replicate (ec_chunk_bytes (el_config s)) 0"
proof -
  let ?cb = "ec_chunk_bytes (el_config s)"
  obtain p m0 r where m0: "po_alloc (ee_prov env) (el_provider s) ?cb = (p, Ok m0)" "mo_zero (ee_mem env) m0 = (m, r)"
    using assms(3,4) by (auto simp: elastic_region_def Let_def split: if_splits prod.splits result.splits)
  have g: "good m0" "length (contents m0) = ?cb"
    using vram_provider.prov_alloc [OF assms(1) m0(1)] by simp_all
  have "vram_memory (ee_mem env) contents good" using assms(1) by (simp add: vram_provider_def)
  from vram_memory.mem_zero [OF this g(1) m0(2)] assms(2) [OF g(1) m0(2)] g(2) show ?thesis by simp
qed

lemma region_fields:
  "elastic_region env i s = (t, r) \<Longrightarrow> el_config t = el_config s \<and> length (el_slots t) = length (el_slots s) \<and>
   (r = None \<longrightarrow> i < length (el_slots s) \<longrightarrow> sl_spilled_to_ssd (el_slots t ! i))"
  by (auto simp: elastic_region_def Let_def split: option.splits if_splits prod.splits result.splits)

lemma write_accepted:
  assumes "elastic_write env i off bs m s = (t, x)" "x \<noteq> CmFailed" "i < length (el_slots s)"
  shows "\<exists>m'. mo_write (ee_mem env) m off bs = (m', Ok ()) \<and> el_config t = el_config s \<and>
    sl_mem (el_slots t ! i) = Some m'"
  using assms by (auto simp: elastic_write_def Let_def split: if_splits prod.splits result.splits)

lemma fresh_update:
  assumes prov: "vram_provider (ee_mem env) contents good (ee_prov env)"
    and zero: "\<And>m m' r. good m \<Longrightarrow> mo_zero (ee_mem env) m = (m', r) \<Longrightarrow> r = Ok ()"
    and fresh: "sl_mem (el_slots s ! (off div ec_chunk_bytes (el_config s))) = None"
    and up: "elastic_update env s off bs = (t, x)" "x \<noteq> CmFailed"
    and hit: "elastic_read env t roff n = (c, CrHit hit)"
      "roff div ec_chunk_bytes (el_config s) = off div ec_chunk_bytes (el_config s)"
  shows "let cb = ec_chunk_bytes (el_config s) in off mod cb + length bs \<le> cb \<and> roff mod cb + n \<le> cb \<and>
    hit = read_range (roff mod cb) n (write_range (off mod cb) bs (replicate cb 0))"
proof -
  define cb where "cb = ec_chunk_bytes (el_config s)"
  define i where "i = off div cb"
  note h = elastic_hit [OF hit(1)]
  have "\<exists>s1 m. elastic_region env i s = (s1, Some m) \<and> elastic_write env i (off mod cb) bs m s1 = (t, x) \<and>
      i < length (el_slots s)"
  proof (cases "t = s")
    case True
    then show ?thesis using h(5) hit(2) fresh by simp
  next
    case False
    then have g: "i < length (el_slots s)" using up by (auto simp: elastic_update_def Let_def i_def cb_def split: if_splits)
    obtain s1 r where r: "elastic_region env i s = (s1, r)" by fastforce
    then have eq: "(case r of None \<Rightarrow> (s1, CmSkipped) | Some m \<Rightarrow> elastic_write env i (off mod cb) bs m s1) = (t, x)"
      using up False unfolding i_def cb_def by (auto simp: elastic_update_def Let_def split: if_splits)
    have "r \<noteq> None"
    proof
      assume "r = None"
      then have "t = s1" using eq by simp
      then show False using \<open>r = None\<close> h(4) hit(2) region_fields [OF r] g by (simp add: i_def cb_def)
    qed
    then show ?thesis using eq r g by auto
  qed
  then obtain s1 m where m: "elastic_region env i s = (s1, Some m)" "elastic_write env i (off mod cb) bs m s1 = (t, x)"
    "i < length (el_slots s1)" using region_fields by metis
  obtain m' where m': "mo_write (ee_mem env) m (off mod cb) bs = (m', Ok ())" "el_config t = el_config s"
    "sl_mem (el_slots t ! i) = Some m'"
    using write_accepted [OF m(2) up(2) m(3)] region_fields [OF m(1)] by auto
  have good: "good m" "contents m = replicate cb 0"
    using fresh_region [OF prov zero _ m(1)] fresh by (simp_all add: i_def cb_def)
  have mem: "vram_memory (ee_mem env) contents good" using prov by (simp add: vram_provider_def)
  note w = vram_memory.mem_write [OF mem good(1) m'(1)]
  have rd: "mo_read (ee_mem env) m' (roff mod cb) n = Ok hit"
    using h(5) m'(2,3) hit(2) by (simp add: i_def cb_def)
  show ?thesis
    using w vram_memory.mem_read [OF mem _ rd] good(2) by (simp add: Let_def cb_def store_simps)
qed

lemma elastic_write_through:
  assumes "ae_cache env = elastic_ops eenv" "ao_write_at env s off bs = (t, Ok ())" "bs \<noteq> []"
    and "elastic_read eenv (ao_cache t) roff n = (c, CrHit hit)"
  shows "\<exists>x. elastic_update eenv (ao_cache s) off bs = (ao_cache t, x) \<and> x \<noteq> CmFailed"
proof -
  obtain w where w: "t = ao_update_cache env off bs w" "ao_cache w = ao_cache s"
    using assms(2,3) by (auto simp: ao_write_at_def ao_write_origin_def split: result.splits prod.splits if_splits)
  obtain d x where x: "elastic_update eenv (ao_cache s) off bs = (d, x)" by fastforce
  have "el_state (ao_cache t) = CsActive" using elastic_hit(1) [OF assms(4)] .
  then have "x \<noteq> CmFailed"
    using w x assms(1)
    by (auto simp: ao_update_cache_def elastic_ops_def revoke_cache_def elastic_disable_def Let_def split: if_splits)
  then show ?thesis using w x assms(1) by (cases x) (simp_all add: ao_update_cache_def elastic_ops_def)
qed

lemma elastic_read_through:
  assumes "ae_cache env = elastic_ops eenv" "elastic_read eenv (ao_cache t) roff n = (c, CrHit hit)"
    and "ao_read_at env t roff n = (u, Ok out)"
  shows "n = 0 \<and> out = [] \<or> out = hit"
  using assms by (auto simp: ao_read_at_def elastic_ops_def split: result.splits if_splits)

subsection \<open>Plain parts\<close>

definition plain_elastic_env :: "(nat, byte list device_mem, unit) elastic_env" where
  "plain_elastic_env = \<lparr>ee_mem = device_mem_ops plain_syms, ee_prov = plain_prov, ee_now = (\<lambda>k. (k, 0))\<rparr>"

definition demo_elastic :: elastic_config where
  "demo_elastic =
     \<lparr>ec_chunk_bytes = 4, ec_logical_capacity = 8, ec_max_vram_bytes = 8, ec_dma_timeout = DMA_TIMEOUT_LIMIT\<rparr>"

definition elastic_ao_env ::
  "(byte list \<times> byte list, (nat, byte list device_mem, unit) elastic_cache) ao_env" where
  "elastic_ao_env = \<lparr>ae_origin = file_origin_ops plain_file, ae_cache = elastic_ops plain_elastic_env\<rparr>"

definition demo_resident :: "(nat, byte list device_mem, unit) elastic_cache" where
  "demo_resident =
     \<lparr>el_provider = 4092, el_config = demo_elastic,
      el_table = \<lparr>et_chunk_bytes = 4, et_logical_capacity = 8, et_slots =
        [\<lparr>sl_mem = Some \<lparr>dm_region = [9, 0, 0, 0], dm_len = 4\<rparr>, sl_written = True, sl_last_accessed = 0, sl_spilled_to_ssd = False\<rparr>,
         \<lparr>sl_mem = None, sl_written = False, sl_last_accessed = 0, sl_spilled_to_ssd = False\<rparr>]\<rparr>,
      el_state = CsActive, el_watchdog_tripped = False, el_clock = ()\<rparr>"

lemmas elastic_run_defs = plain_elastic_env_def demo_elastic_def saturating_add_def saturating_sub_def u64_max_def
  el_slots_def set_slot_def plain_prov_def device_mem_ops_def plain_syms_def dm_zero_def dm_write_at_def dm_read_at_def
  dm_bounds_def cuda_check_def checked_add_def write_range_def read_range_def DMA_TIMEOUT_LIMIT_def

lemma demo_update:
  "elastic_update plain_elastic_env (elastic_new plain_elastic_env 4096 () demo_elastic) 0 [9] = (demo_resident, CmAccepted)"
  by (simp add: elastic_new_def elastic_table_new_def elastic_update_def elastic_region_def elastic_write_def
      active_vram_bytes_def resident_chunks_count_def slot_resident_def saturating_mul_def elastic_run_defs
      demo_resident_def numeral_2_eq_2 numeral_3_eq_3)

lemma demo_read: "elastic_read plain_elastic_env demo_resident 0 4 = (demo_resident, CrHit [9, 0, 0, 0])"
  by (simp add: elastic_read_def demo_resident_def elastic_run_defs)

subsection \<open>Properties\<close>

text \<open>
  C31. The elastic cache stays within its VRAM allowance. Whatever reads, updates, promotions,
  evictions, watchdog trips and disables a new cache goes through, the chunks it holds never take more
  than the configured maximum; the promise ends when a tripped watchdog is reset.
\<close>

theorem elastic_memory_bounded:
  assumes "0 < ec_chunk_bytes cfg" "ec_logical_capacity cfg + ec_chunk_bytes cfg \<le> u64_max"
  shows "held_chunks (fold (elastic_exec env) evs (elastic_new env p k cfg)) * ec_chunk_bytes cfg \<le> ec_max_vram_bytes cfg"
  using exec_elastic_all [OF new_elastic_inv(1) [OF assms, of env p k], of env evs] new_elastic_inv(2) [OF assms, of env p k]
  by (metis elastic_inv_def)

theorem elastic_memory_bounded_witness:
  "held_chunks (fold (elastic_exec plain_elastic_env) [EeUpdate 0 [9], EeUpdate 5 [7], EeEvict 3, EeRead 0 1]
     (elastic_new plain_elastic_env 4096 () demo_elastic)) * 4 \<le> 8"
  using elastic_memory_bounded [of demo_elastic plain_elastic_env "[EeUpdate 0 [9], EeUpdate 5 [7], EeEvict 3, EeRead 0 1]" 4096 "()"]
  by (simp add: demo_elastic_def u64_max_def)

text \<open>
  Eviction frees what was asked for and takes the coldest chunks. A request for some bytes leaves
  no resident chunk or frees at least those bytes, with no chunk more than needed; the count it
  returns is the number of chunks that went; and every chunk it took was last used no later than every chunk it left.
\<close>

theorem eviction_coldest_first:
  assumes "evict_coldest_chunks target s = (t, n)" "0 < target" "target \<le> u64_max"
    and "0 < ec_chunk_bytes (el_config s)" "length (el_slots s) \<le> u64_max"
  shows "resident_ids t \<subseteq> resident_ids s \<and> card (resident_ids s) = card (resident_ids t) + n \<and>
    (resident_ids t = {} \<or> target \<le> n * ec_chunk_bytes (el_config s)) \<and>
    (0 < n \<longrightarrow> (n - 1) * ec_chunk_bytes (el_config s) < target) \<and>
    (\<forall>i j. i \<in> resident_ids s - resident_ids t \<longrightarrow> j \<in> resident_ids t \<longrightarrow>
       sl_last_accessed (el_slots s ! i) \<le> sl_last_accessed (el_slots s ! j))"
proof -
  let ?xs = "eligible_chunks s" and ?cb = "ec_chunk_bytes (el_config s)"
  note el = eligible_sorted [where s = s]
  have card: "length ?xs = card (resident_ids s)" using el(2,3) by (metis distinct_card length_map)
  have "card (resident_ids s) \<le> card {..<length (el_slots s)}" by (intro card_mono) (auto simp: resident_ids_def)
  then have "0 + length ?xs \<le> u64_max" using card assms(5) by simp
  then obtain k where k: "n = k" "resident_ids t = resident_ids s - set (map fst (take k ?xs))" "k \<le> length ?xs"
      "k < length ?xs \<longrightarrow> target \<le> k * ?cb" "0 < k \<longrightarrow> (k - 1) * ?cb < target"
    using evict_loop_prefix [of target 0 0 ?cb ?xs s] assms(1-4) by (auto simp: evict_coldest_chunks_def Let_def)
  let ?T = "set (map fst (take k ?xs))"
  have T: "?T \<subseteq> resident_ids s" unfolding el(2) [symmetric] by (auto dest: in_set_takeD)
  have "distinct (map fst (take k ?xs))" using el(3) by (simp add: take_map [symmetric])
  then have cT: "card ?T = k" using k(3) by (simp add: distinct_card del: set_map)
  have fin: "finite (resident_ids s)" by (simp add: resident_ids_def)
  have "card (resident_ids s) = card (resident_ids t) + n"
    using card_Diff_subset [OF _ T] cT k(1,2,3) card by simp
  moreover have "resident_ids t = {} \<or> target \<le> n * ?cb"
    using k(1,4) card calculation fin by (cases "k < length ?xs") (auto simp: k(2) resident_ids_def)
  moreover have "sl_last_accessed (el_slots s ! i) \<le> sl_last_accessed (el_slots s ! j)"
    if "i \<in> resident_ids s - resident_ids t" "j \<in> resident_ids t" for i j
    using evict_takes_oldest [of i k s j] that k(2) by blast
  ultimately show ?thesis using k by blast
qed

theorem eviction_coldest_first_witness:
  "\<exists>t n. evict_coldest_chunks 3 demo_resident = (t, n) \<and>
     card (resident_ids demo_resident) = card (resident_ids t) + n \<and> (resident_ids t = {} \<or> 3 \<le> n * 4)"
proof -
  obtain t n where t: "evict_coldest_chunks 3 demo_resident = (t, n)" by fastforce
  from eviction_coldest_first [OF t] show ?thesis
    using t by (simp add: demo_resident_def elastic_run_defs)
qed

text \<open>
  C32. The elastic cache breaks the cache contract. Under an authoritative backend, over any origin and any
  lawful VRAM whose wiping succeeds, let a write fall into a chunk for which the cache has no memory yet. A
  read in that chunk that the cache then answers returns the written bytes where the write was and
  zeroes everywhere else, whatever the origin holds there.
\<close>

theorem elastic_serves_unwritten_zeroes:
  assumes "vram_provider (ee_mem eenv) contents good (ee_prov eenv)"
    and "\<And>m m' r. good m \<Longrightarrow> mo_zero (ee_mem eenv) m = (m', r) \<Longrightarrow> r = Ok ()"
    and "ae_cache env = elastic_ops eenv" "cb = ec_chunk_bytes (el_config (ao_cache s))"
    and "sl_mem (el_slots (ao_cache s) ! (off div cb)) = None"
    and "bs \<noteq> []" "ao_write_at env s off bs = (t, Ok ())"
    and "roff div cb = off div cb" "elastic_read eenv (ao_cache t) roff n = (c, CrHit hit)"
    and "ao_read_at env t roff n = (u, Ok out)"
  shows "length out = n \<and>
    (\<forall>p. roff \<le> p \<longrightarrow> p < roff + n \<longrightarrow>
       out ! (p - roff) = (if off \<le> p \<and> p < off + length bs then bs ! (p - off) else 0))"
proof -
  obtain x where x: "elastic_update eenv (ao_cache s) off bs = (ao_cache t, x)" "x \<noteq> CmFailed"
    using elastic_write_through [OF assms(3,7,6,9)] by blast
  from fresh_update [OF assms(1,2) _ x assms(9)] assms(4,5,8)
  have h: "off mod cb + length bs \<le> cb" "roff mod cb + n \<le> cb"
    "hit = read_range (roff mod cb) n (write_range (off mod cb) bs (replicate cb 0))"
    by (simp_all add: Let_def)
  have "hit ! (p - roff) = (if off \<le> p \<and> p < off + length bs then bs ! (p - off) else 0)"
    if p: "roff \<le> p" "p < roff + n" for p
  proof -
    have base: "off = off div cb * cb + off mod cb" "roff = off div cb * cb + roff mod cb"
      using assms(8) by (metis div_mult_mod_eq)+
    define q where "q = roff mod cb + (p - roff)"
    have q: "q < cb" "p = off div cb * cb + q" using p h(2) base(2) by (simp_all add: q_def)
    have "hit ! (p - roff) = write_range (off mod cb) bs (replicate cb 0) ! q"
      using p h by (simp add: store_simps q_def)
    also have "\<dots> = (if off mod cb \<le> q \<and> q < off mod cb + length bs then bs ! (q - off mod cb) else 0)"
      using h(1) q(1) by (simp add: store_simps)
    finally have "hit ! (p - roff) =
      (if off mod cb \<le> q \<and> q < off mod cb + length bs then bs ! (q - off mod cb) else 0)" .
    moreover have "off mod cb \<le> q \<longleftrightarrow> off \<le> p" "q < off mod cb + length bs \<longleftrightarrow> p < off + length bs"
      "q - off mod cb = p - off" using base(1) q(2) by linarith+
    ultimately show ?thesis by simp
  qed
  moreover have "length hit = n" using h by (simp add: store_simps)
  ultimately show ?thesis using elastic_read_through [OF assms(3,9,10)] by auto
qed

theorem elastic_serves_unwritten_zeroes_witness:
  "\<exists>s t u. ao_new ([1, 2, 3, 4, 5, 6, 7, 8], [1, 2, 3, 4, 5, 6, 7, 8])
       (elastic_new plain_elastic_env 4096 () demo_elastic) 8 1 = Ok s \<and>
     ao_write_at elastic_ao_env s 0 [9] = (t, Ok ()) \<and>
     fst (ao_origin t) = [9, 2, 3, 4, 5, 6, 7, 8] \<and>
     (\<exists>out. ao_read_at elastic_ao_env t 0 4 = (u, Ok out) \<and> out ! 3 = 0)"
proof -
  let ?g = "([1, 2, 3, 4, 5, 6, 7, 8], [1, 2, 3, 4, 5, 6, 7, 8]) :: byte list \<times> byte list"
  let ?h = "([9, 2, 3, 4, 5, 6, 7, 8], [1, 2, 3, 4, 5, 6, 7, 8]) :: byte list \<times> byte list"
  let ?c = "elastic_new plain_elastic_env 4096 () demo_elastic"
  obtain s where s: "ao_new ?g ?c 8 1 = Ok s"
    "ao_origin s = ?g" "ao_cache s = ?c" "ao_size s = 8" "ao_origin_state s = OrReady"
    by (simp add: ao_new_def is_multiple_of_def)
  have "write_all_at (file_origin_ops plain_file) ?g 0 [9] = (?h, Ok ())"
    by (simp add: plain_write u64_max_def write_range_def)
  then obtain t where t: "ao_write_at elastic_ao_env s 0 [9] = (t, Ok ())" "ao_origin t = ?h" "ao_cache t = demo_resident"
    "ao_size t = 8" "ao_origin_state t = OrReady"
    using s demo_update
    by (simp add: ao_write_at_def ao_check_range_def checked_add_def u64_max_def ao_require_ready_origin_def
        ao_write_origin_def ao_update_cache_def elastic_ao_env_def elastic_ops_def)
  obtain u out where u: "ao_read_at elastic_ao_env t 0 4 = (u, Ok out)"
    using t demo_read
    by (simp add: ao_read_at_def ao_check_range_def checked_add_def u64_max_def ao_require_ready_origin_def
        elastic_ao_env_def elastic_ops_def)
  have "length out = 4 \<and> (\<forall>p. 0 \<le> p \<longrightarrow> p < 0 + 4 \<longrightarrow>
      out ! (p - 0) = (if 0 \<le> p \<and> p < 0 + length [9 :: byte] then [9] ! (p - 0) else 0))"
  proof (rule elastic_serves_unwritten_zeroes [OF _ _ _ refl _ _ t(1) _ demo_read [folded t(3)] u])
    show "vram_provider (ee_mem plain_elastic_env) dm_region (\<lambda>m. dm_len m = length (dm_region m)) (ee_prov plain_elastic_env)"
      using plain_gpu.vram_provider_axioms by (simp add: plain_elastic_env_def)
    show "r = Ok ()" if "mo_zero (ee_mem plain_elastic_env) m = (m', r)" for m m' r
      using that by (auto simp: elastic_run_defs Let_def)
  qed (use s(3) in \<open>simp_all add: elastic_ao_env_def elastic_new_def elastic_table_new_def el_slots_def
      plain_elastic_env_def demo_elastic_def saturating_add_def saturating_sub_def u64_max_def\<close>)
  then have "out ! 3 = 0" by simp
  then show ?thesis using s(1) t u by auto
qed

end
