(* ===== verification/Workload.thy ===== *)
theory Workload
  imports Rust_Text
begin

text \<open>
  Managed workloads (\<^verbatim>\<open>crates/ramshared-cli/src/workload.rs\<close>): the memory budget, the arguments of
  \<open>ramshared run\<close>, the gates of admission, the reservation ledger, and the run of one workload from its
  admission to the release of its reservation. The ledger lock and the file handling behind it are
  inputs: a locked operation is one step, its file writes may fail before or after the rename.
\<close>

subsection \<open>Budget and request\<close>

definition GIB_BYTES :: nat where "GIB_BYTES = 1024 * 1024 * 1024"
definition MIB_BYTES :: nat where "MIB_BYTES = 1024 * 1024"

record workload_budget =
  wb_control_plane_reserve_bytes :: nat
  wb_memory_high_bytes :: nat
  wb_memory_max_bytes :: nat

definition calculate_budget :: "nat \<Rightarrow> nat \<Rightarrow> (workload_budget, string) result" where
  "calculate_budget memory_total memory_available =
     (if memory_total = 0 then Err ''invalid memory snapshot''
      else let reserve = max (div_ceil memory_total 4) (4 * GIB_BYTES);
               memory_max = saturating_sub memory_total reserve
      in if memory_max < GIB_BYTES
         then Err (''less than 1 GiB remains after the '' @ show_nat (reserve div 2 ^ 20) @ '' MiB control-plane reserve'')
         else let high_gap = max (div_ceil memory_total 10) GIB_BYTES
         in Ok \<lparr>wb_control_plane_reserve_bytes = reserve,
                wb_memory_high_bytes = saturating_sub memory_max high_gap,
                wb_memory_max_bytes = memory_max\<rparr>)"

datatype workload_class = Interactive | Build | BrowserTest | Batch

definition class_parse :: "string \<Rightarrow> workload_class option" where
  "class_parse s =
     (if s = ''interactive'' then Some Interactive
      else if s = ''build'' then Some Build
      else if s = ''browser-test'' then Some BrowserTest
      else if s = ''batch'' then Some Batch
      else None)"

fun class_str :: "workload_class \<Rightarrow> string" where
  "class_str Interactive = ''interactive''"
| "class_str Build = ''build''"
| "class_str BrowserTest = ''browser-test''"
| "class_str Batch = ''batch''"

fun default_memory_mib :: "workload_class \<Rightarrow> nat" where
  "default_memory_mib Interactive = 2 * 1024"
| "default_memory_mib Build = 6 * 1024"
| "default_memory_mib BrowserTest = 4 * 1024"
| "default_memory_mib Batch = 8 * 1024"

record workload_request =
  wq_class :: workload_class
  wq_memory_max_bytes :: nat
  wq_command :: "string list"

definition run_usage :: string where
  "run_usage = ''usage: ramshared run --class <class> [--memory-max MiB] -- <command>''"

fun parse_run_loop ::
  "workload_class option \<Rightarrow> nat option \<Rightarrow> string list \<Rightarrow> (workload_request, string) result" where
  "parse_run_loop cls mib [] = Err run_usage"
| "parse_run_loop cls mib (a # rest) =
     (if a = ''--class'' then
        (case rest of
           [] \<Rightarrow> Err ''--class must be interactive|build|browser-test|batch''
         | v # rest' \<Rightarrow>
             (case class_parse v of
                None \<Rightarrow> Err ''--class must be interactive|build|browser-test|batch''
              | Some c \<Rightarrow> parse_run_loop (Some c) mib rest'))
      else if a = ''--memory-max'' then
        (case rest of
           [] \<Rightarrow> Err ''--memory-max requires MiB''
         | v # rest' \<Rightarrow>
             (case parse_uint u64_max v of
                None \<Rightarrow> Err ''--memory-max must be a positive MiB value''
              | Some n \<Rightarrow>
                  if n = 0 then Err ''--memory-max must be a positive MiB value''
                  else parse_run_loop cls (Some n) rest'))
      else if a = ''--'' then
        (case cls of
           None \<Rightarrow> Err ''--class is required''
         | Some c \<Rightarrow>
             if rest = [] then Err ''a command is required after --''
             else (case checked_mul u64_max (unwrap_or mib (default_memory_mib c)) MIB_BYTES of
                     None \<Rightarrow> Err ''--memory-max overflow''
                   | Some bytes \<Rightarrow> Ok \<lparr>wq_class = c, wq_memory_max_bytes = bytes, wq_command = rest\<rparr>))
      else Err run_usage)"

definition parse_run_args :: "string list \<Rightarrow> (workload_request, string) result" where
  "parse_run_args args = parse_run_loop None None args"

subsection \<open>Identities and evidence\<close>

record owner_identity =
  oi_boot_id :: string
  oi_pid :: nat
  oi_start_time :: nat
  oi_nonce :: string

definition is_ascii_lower_hex :: "char \<Rightarrow> bool" where
  "is_ascii_lower_hex c \<longleftrightarrow> is_ascii_digit c \<or> 97 \<le> (of_char c :: nat) \<and> (of_char c :: nat) \<le> 102"

definition is_ascii_hexdigit :: "char \<Rightarrow> bool" where
  "is_ascii_hexdigit c \<longleftrightarrow> is_ascii_lower_hex c \<or> 65 \<le> (of_char c :: nat) \<and> (of_char c :: nat) \<le> 70"

definition is_ascii_alphanumeric :: "char \<Rightarrow> bool" where
  "is_ascii_alphanumeric c \<longleftrightarrow> is_ascii_digit c \<or> 97 \<le> (of_char c :: nat) \<and> (of_char c :: nat) \<le> 122 \<or>
     65 \<le> (of_char c :: nat) \<and> (of_char c :: nat) \<le> 90"

definition valid_incident_id :: "string \<Rightarrow> bool" where
  "valid_incident_id s \<longleftrightarrow> length s = 32 \<and> list_all is_ascii_hexdigit s"

definition valid_systemd_invocation_id :: "string \<Rightarrow> bool" where
  "valid_systemd_invocation_id s \<longleftrightarrow> length s = 32 \<and> list_all is_ascii_lower_hex s"

definition valid_distro :: "string \<Rightarrow> bool" where
  "valid_distro s \<longleftrightarrow> s \<noteq> [] \<and> list_all (\<lambda>c. is_ascii_alphanumeric c \<or> c \<in> set ''._-'') s"

text \<open>The owner probe, which looks a process up in \<^verbatim>\<open>/proc\<close>, is a parameter.\<close>

definition identity_is_current :: "(owner_identity \<Rightarrow> bool) \<Rightarrow> owner_identity \<Rightarrow> string \<Rightarrow> bool" where
  "identity_is_current alive who boot_id \<longleftrightarrow>
     oi_boot_id who = boot_id \<and> oi_pid who \<noteq> 0 \<and> oi_start_time who \<noteq> 0 \<and> oi_nonce who \<noteq> [] \<and>
     list_all (\<lambda>c. is_ascii_hexdigit c \<or> c = CHR ''-'') (oi_nonce who) \<and> alive who"

definition MAX_CONTROL_EVIDENCE_AGE_MS :: nat where "MAX_CONTROL_EVIDENCE_AGE_MS = 15000"

datatype supervisor_action =
    CloseAdmission
  | ReduceVramCache
  | FreezeDiscardable
  | ThawDiscardable
  | RequestReclaim
  | TerminateDiscardable
  | KillDiscardable

datatype supervisor_action_status = Succeeded | Failed

record supervisor_action_result =
  ar_action :: supervisor_action
  ar_status :: supervisor_action_status
  ar_error :: "string option"

record supervisor_status =
  st_schema_version :: nat
  st_control_state :: string
  st_healthy_samples :: nat
  st_action_results :: "supervisor_action_result list"
  st_supervisor_identity :: owner_identity
  st_written_at_unix_ms :: nat

record admission_state =
  as_schema_version :: nat
  as_admission_open :: bool
  as_control_state :: string
  as_supervisor_identity :: owner_identity
  as_written_at_unix_ms :: nat

record resume_lease =
  le_schema_version :: nat
  le_boot_id :: string
  le_incident_id :: string
  le_distro :: string
  le_supervisor_identity :: owner_identity
  le_issued_at_epoch_ms :: nat
  le_expires_at_epoch_ms :: nat

text \<open>What reading and decoding an evidence file gives.\<close>

datatype 'a evidence = Missing | Unreadable | Malformed | Evidence 'a

definition stale :: "nat \<Rightarrow> nat \<Rightarrow> bool" where
  "stale now written \<longleftrightarrow> written > now \<or> saturating_sub now written > MAX_CONTROL_EVIDENCE_AGE_MS"

definition read_current_supervisor_status_at ::
  "supervisor_status evidence \<Rightarrow> owner_identity \<Rightarrow> nat \<Rightarrow> nat \<Rightarrow> (owner_identity \<Rightarrow> bool) \<Rightarrow>
   (supervisor_status, string) result" where
  "read_current_supervisor_status_at ev current now minimum alive =
     (case ev of
        Missing \<Rightarrow> Err ''supervisor health evidence is unavailable''
      | Unreadable \<Rightarrow> Err ''supervisor health evidence is unavailable''
      | Malformed \<Rightarrow> Err ''supervisor health evidence is malformed''
      | Evidence st \<Rightarrow>
          if st_schema_version st \<noteq> 3 \<or> stale now (st_written_at_unix_ms st) \<or>
             \<not> identity_is_current alive (st_supervisor_identity st) (oi_boot_id current) \<or>
             list_ex (\<lambda>r. case ar_status r of Succeeded \<Rightarrow> ar_error r \<noteq> None | Failed \<Rightarrow> ar_error r = None)
               (st_action_results st)
          then Err ''supervisor health evidence is stale, foreign, or invalid''
          else if st_control_state st \<noteq> ''HEALTHY''
          then Err (''workload admission is closed by control state '' @ st_control_state st)
          else if st_healthy_samples st < minimum
          then Err ''supervisor health evidence has too few healthy samples''
          else Ok st)"

definition validate_resume_lease ::
  "resume_lease \<Rightarrow> owner_identity \<Rightarrow> supervisor_status \<Rightarrow> nat \<Rightarrow> (owner_identity \<Rightarrow> bool) \<Rightarrow>
   (unit, string) result" where
  "validate_resume_lease le current st now alive =
     (if le_schema_version le \<noteq> 2 \<or> le_boot_id le \<noteq> oi_boot_id current \<or>
         \<not> valid_incident_id (le_incident_id le) \<or> \<not> valid_distro (le_distro le) \<or>
         le_supervisor_identity le \<noteq> st_supervisor_identity st \<or>
         \<not> identity_is_current alive (le_supervisor_identity le) (oi_boot_id current) \<or>
         le_issued_at_epoch_ms le > now \<or> le_expires_at_epoch_ms le < now \<or>
         saturating_sub (le_expires_at_epoch_ms le) (le_issued_at_epoch_ms le) > MAX_CONTROL_EVIDENCE_AGE_MS \<or>
         saturating_sub now (le_issued_at_epoch_ms le) > MAX_CONTROL_EVIDENCE_AGE_MS
      then Err ''resume lease is stale, foreign, or invalid'' else Ok ())"

definition read_resume_lease_if_present ::
  "resume_lease evidence \<Rightarrow> owner_identity \<Rightarrow> supervisor_status \<Rightarrow> nat \<Rightarrow> (owner_identity \<Rightarrow> bool) \<Rightarrow>
   (resume_lease option, string) result" where
  "read_resume_lease_if_present ev current st now alive =
     (case ev of
        Missing \<Rightarrow> Ok None
      | Unreadable \<Rightarrow> Err ''resume lease is unavailable''
      | Malformed \<Rightarrow> Err ''resume lease is malformed''
      | Evidence le \<Rightarrow> result_bind (validate_resume_lease le current st now alive) (\<lambda>_. Ok (Some le)))"

definition admission_state_allows_at ::
  "admission_state evidence \<Rightarrow> owner_identity \<Rightarrow> supervisor_status \<Rightarrow> nat \<Rightarrow> (owner_identity \<Rightarrow> bool) \<Rightarrow>
   (unit, string) result" where
  "admission_state_allows_at ev current st now alive =
     (case ev of
        Missing \<Rightarrow> Err ''admission state evidence is unavailable''
      | Unreadable \<Rightarrow> Err ''admission state evidence is unavailable''
      | Malformed \<Rightarrow> Err ''admission state evidence is malformed''
      | Evidence a \<Rightarrow>
          if as_schema_version a \<noteq> 1 \<or> stale now (as_written_at_unix_ms a) \<or>
             as_supervisor_identity a \<noteq> st_supervisor_identity st \<or>
             \<not> identity_is_current alive (as_supervisor_identity a) (oi_boot_id current)
          then Err ''admission state evidence is stale, foreign, or invalid''
          else if \<not> as_admission_open a \<or> as_control_state a \<noteq> ''HEALTHY''
          then Err (''admission state closes new workloads for control state '' @ as_control_state a)
          else Ok ())"

definition published_admission_state :: "owner_identity \<Rightarrow> string \<Rightarrow> nat \<Rightarrow> admission_state" where
  "published_admission_state who control_state written_at =
     \<lparr>as_schema_version = 1, as_admission_open = (control_state = ''HEALTHY''), as_control_state = control_state,
      as_supervisor_identity = who, as_written_at_unix_ms = written_at\<rparr>"

subsection \<open>The ledger\<close>

record reservation =
  rv_id :: string
  rv_owner :: owner_identity
  rv_class :: workload_class
  rv_memory_bytes :: nat
  rv_unit :: string
  rv_invocation_id :: "string option"
  rv_issued_ordinal :: nat

record reservation_ledger =
  rl_schema_version :: nat
  rl_next_ordinal :: nat
  rl_reservations :: "reservation list"

definition validate_ledger :: "reservation_ledger \<Rightarrow> (unit, string) result" where
  "validate_ledger l =
     (if rl_schema_version l \<noteq> 3
      then Err (''unsupported reservation ledger schema: '' @ show_nat (rl_schema_version l))
      else if rl_next_ordinal l = 0 \<or>
        list_ex (\<lambda>r. rv_issued_ordinal r = 0 \<or> rv_issued_ordinal r \<ge> rl_next_ordinal l) (rl_reservations l)
      then Err ''reservation ledger ordinal sequence is invalid''
      else let ordinals = sort (map rv_issued_ordinal (rl_reservations l))
      in if list_ex (\<lambda>(a, b). a = b) (zip ordinals (drop 1 ordinals))
         then Err ''reservation ledger contains duplicate issued ordinals''
         else Ok ())"

text \<open>
  The ledger file, and how a write of it ends: done, refused with the old file in place, or failed after
  the rename with the new file in place.
\<close>

type_synonym ledger_file = "reservation_ledger option"

datatype write_fate = WfDone | WfRefused string | WfUnconfirmed string

definition store_file :: "write_fate \<Rightarrow> 'a \<Rightarrow> 'a option \<Rightarrow> 'a option \<times> (unit, string) result" where
  "store_file fate new old =
     (case fate of
        WfDone \<Rightarrow> (Some new, Ok ())
      | WfRefused e \<Rightarrow> (old, Err e)
      | WfUnconfirmed e \<Rightarrow> (Some new, Err e))"

text \<open>One locked access to the ledger: the outcomes of the lock, the read and the encoded size.\<close>

record ledger_access =
  la_lock :: "(unit, string) result"
  la_read_fault :: "string option"
  la_encoding :: "(nat, string) result"
  la_store :: write_fate

definition MAX_LEDGER_BYTES :: nat where "MAX_LEDGER_BYTES = 1024 * 1024"

definition load_ledger_locked :: "ledger_access \<Rightarrow> ledger_file \<Rightarrow> (reservation_ledger, string) result" where
  "load_ledger_locked la file =
     (case la_read_fault la of
        Some e \<Rightarrow> Err e
      | None \<Rightarrow>
          (case file of
             None \<Rightarrow> Err ''reservation ledger is unavailable''
           | Some l \<Rightarrow> result_bind (validate_ledger l) (\<lambda>_. Ok l)))"

definition store_ledger :: "ledger_access \<Rightarrow> reservation_ledger \<Rightarrow> ledger_file \<Rightarrow> ledger_file \<times> (unit, string) result" where
  "store_ledger la l file =
     (case validate_ledger l of
        Err e \<Rightarrow> (file, Err e)
      | Ok _ \<Rightarrow>
          (case la_encoding la of
             Err e \<Rightarrow> (file, Err e)
           | Ok n \<Rightarrow>
               if n + 1 > MAX_LEDGER_BYTES then (file, Err ''reservation ledger exceeds its bounded size'')
               else store_file (la_store la) l file))"

definition reserved_bytes :: "reservation list \<Rightarrow> nat option" where
  "reserved_bytes rs = try_fold (\<lambda>n r. checked_add u64_max n (rv_memory_bytes r)) 0 rs"

text \<open>Everything an admission reads besides the ledger.\<close>

record admission_gates =
  ag_safe_mode :: "(bool, string) result"
  ag_now :: "(nat, string) result"
  ag_supervisor :: "supervisor_status evidence"
  ag_admission :: "admission_state evidence"
  ag_lease :: "resume_lease evidence"

definition gates_open ::
  "admission_gates \<Rightarrow> owner_identity \<Rightarrow> (owner_identity \<Rightarrow> bool) \<Rightarrow> (unit, string) result" where
  "gates_open ag owner alive =
     (case ag_safe_mode ag of
        Err e \<Rightarrow> Err e
      | Ok True \<Rightarrow> Err ''safe mode closes new workload admission until recover --resume''
      | Ok False \<Rightarrow>
          (case ag_now ag of
             Err e \<Rightarrow> Err e
           | Ok now \<Rightarrow>
               (case read_current_supervisor_status_at (ag_supervisor ag) owner now 0 alive of
                  Err e \<Rightarrow> Err e
                | Ok st \<Rightarrow>
                    (case admission_state_allows_at (ag_admission ag) owner st now alive of
                       Err e \<Rightarrow> Err e
                     | Ok _ \<Rightarrow>
                         (case read_resume_lease_if_present (ag_lease ag) owner st now alive of
                            Err e \<Rightarrow> Err e
                          | Ok None \<Rightarrow> Err ''boot-ephemeral resume lease is required for workload admission''
                          | Ok (Some _) \<Rightarrow> Ok ())))))"

definition admit_reservation_at ::
  "ledger_access \<Rightarrow> admission_gates \<Rightarrow> (owner_identity \<Rightarrow> bool) \<Rightarrow> string \<Rightarrow> owner_identity \<Rightarrow> workload_class \<Rightarrow>
   nat \<Rightarrow> nat \<Rightarrow> ledger_file \<Rightarrow> ledger_file \<times> (reservation, string) result" where
  "admit_reservation_at la ag alive nonce owner cls memory_bytes aggregate_max file =
     (case la_lock la of
        Err e \<Rightarrow> (file, Err e)
      | Ok _ \<Rightarrow>
     (case gates_open ag owner alive of
        Err e \<Rightarrow> (file, Err e)
      | Ok _ \<Rightarrow>
     (case load_ledger_locked la file of
        Err e \<Rightarrow> (file, Err e)
      | Ok l0 \<Rightarrow>
          let live = filter (\<lambda>r. alive (rv_owner r)) (rl_reservations l0)
          in case reserved_bytes live of
               None \<Rightarrow> (file, Err ''reservation sum overflow'')
             | Some reserved \<Rightarrow>
                 if memory_bytes = 0 \<or> saturating_add u64_max reserved memory_bytes > aggregate_max
                 then (file, Err (''aggregate workload budget exceeded: reserved='' @ show_nat reserved @
                         '' requested='' @ show_nat memory_bytes @ '' max='' @ show_nat aggregate_max))
                 else (case checked_add u64_max (rl_next_ordinal l0) 1 of
                         None \<Rightarrow> (file, Err ''reservation ordinal sequence exhausted'')
                       | Some nxt \<Rightarrow>
                           let r = \<lparr>rv_id = nonce, rv_owner = owner, rv_class = cls, rv_memory_bytes = memory_bytes,
                                    rv_unit = ''ramshared-'' @ class_str cls @ ''-'' @ nonce @ ''.scope'',
                                    rv_invocation_id = None, rv_issued_ordinal = rl_next_ordinal l0\<rparr>
                           in case store_ledger la (l0\<lparr>rl_next_ordinal := nxt, rl_reservations := live @ [r]\<rparr>) file of
                                (file', Err e) \<Rightarrow> (file', Err e)
                              | (file', Ok _) \<Rightarrow> (file', Ok r)))))"

definition release_reservation_at ::
  "ledger_access \<Rightarrow> reservation \<Rightarrow> ledger_file \<Rightarrow> ledger_file \<times> (bool, string) result" where
  "release_reservation_at la r file =
     (case la_lock la of
        Err e \<Rightarrow> (file, Err e)
      | Ok _ \<Rightarrow>
     (case load_ledger_locked la file of
        Err e \<Rightarrow> (file, Err e)
      | Ok l \<Rightarrow>
          (case position (\<lambda>x. rv_id x = rv_id r) (rl_reservations l) of
             None \<Rightarrow> (file, Ok False)
           | Some i \<Rightarrow>
               if rv_owner (rl_reservations l ! i) \<noteq> rv_owner r
               then (file, Err ''reservation owner identity mismatch'')
               else (case store_ledger la (l\<lparr>rl_reservations :=
                             take i (rl_reservations l) @ drop (Suc i) (rl_reservations l)\<rparr>) file of
                       (file', Err e) \<Rightarrow> (file', Err e)
                     | (file', Ok _) \<Rightarrow> (file', Ok True)))))"

definition bind_reservation_invocation_while_locked ::
  "ledger_access \<Rightarrow> reservation \<Rightarrow> string \<Rightarrow> ledger_file \<Rightarrow> ledger_file \<times> (reservation, string) result" where
  "bind_reservation_invocation_while_locked la r invocation file =
     (if \<not> valid_systemd_invocation_id invocation then (file, Err ''managed scope InvocationID is not canonical'')
      else case load_ledger_locked la file of
          Err e \<Rightarrow> (file, Err e)
        | Ok l \<Rightarrow>
            (case position (\<lambda>x. rv_id x = rv_id r) (rl_reservations l) of
               None \<Rightarrow> (file, Err ''managed scope reservation disappeared before identity binding'')
             | Some i \<Rightarrow>
                 let entry = rl_reservations l ! i
                 in if rv_owner entry \<noteq> rv_owner r \<or> rv_unit entry \<noteq> rv_unit r
                    then (file, Err ''managed scope reservation identity changed before binding'')
                    else if rv_invocation_id entry \<noteq> None \<and> rv_invocation_id entry \<noteq> Some invocation
                    then (file, Err ''managed scope reservation already has another InvocationID'')
                    else let bound = entry\<lparr>rv_invocation_id := Some invocation\<rparr>
                    in case store_ledger la (l\<lparr>rl_reservations := (rl_reservations l)[i := bound]\<rparr>) file of
                         (file', Err e) \<Rightarrow> (file', Err e)
                       | (file', Ok _) \<Rightarrow> (file', Ok bound)))"

subsection \<open>The run of a workload\<close>

record scope_status =
  ss_id :: string
  ss_invocation_id :: string
  ss_load_state :: string
  ss_active_state :: string
  ss_exec_main_code :: string
  ss_exec_main_status :: int

definition terminal_exit_status :: "scope_status \<Rightarrow> (int option option, string) result" where
  "terminal_exit_status s =
     (if ss_load_state s \<noteq> ''loaded'' then Err (''scope load state is '' @ ss_load_state s)
      else if ss_active_state s \<in> {''active'', ''activating'', ''reloading'', ''deactivating''} then Ok None
      else if ss_active_state s \<in> {''inactive'', ''failed''} then
        (if ss_exec_main_code s = ''exited'' then Ok (Some (Some (ss_exec_main_status s)))
         else if ss_exec_main_code s \<in> {''killed'', ''dumped''} then Ok (Some None)
         else Err (''scope terminal execution code is '' @ ss_exec_main_code s))
      else Err (''scope active state is '' @ ss_active_state s))"

datatype scope_completion = ScTerminal "(int option, string) result" | ScUnsafeContainment string

datatype scope_start = SsAcknowledged string | SsUnsafeContainment string

text \<open>
  The status queries of a scope in their order; the wait has not ended when the list does.
\<close>

fun wait_for_completion ::
  "string \<Rightarrow> string option \<Rightarrow> (scope_status, string) result list \<Rightarrow> scope_completion option" where
  "wait_for_completion unit bound_id [] = None"
| "wait_for_completion unit bound_id (Err e # qs) =
     Some (ScUnsafeContainment (''exact terminal state for '' @ unit @ '' is unknown; reservation retained: '' @ e))"
| "wait_for_completion unit bound_id (Ok st # qs) =
     (if ss_id st \<noteq> unit then
        Some (ScUnsafeContainment (''exact terminal state changed from '' @ unit @ '' to '' @ ss_id st @
          ''; reservation retained''))
      else if bound_id \<noteq> None \<and> bound_id \<noteq> Some (ss_invocation_id st) then
        Some (ScUnsafeContainment (''scope '' @ unit @ '' invocation identity changed; reservation retained''))
      else case terminal_exit_status st of
          Ok (Some code) \<Rightarrow> Some (ScTerminal (Ok code))
        | Ok None \<Rightarrow> wait_for_completion unit (Some (ss_invocation_id st)) qs
        | Err e \<Rightarrow>
            Some (ScUnsafeContainment (''exact terminal state for '' @ unit @ '' is invalid; reservation retained: '' @ e)))"

definition acknowledge_start ::
  "string \<Rightarrow> (int option, string) result \<Rightarrow> (scope_status, string) result \<Rightarrow> scope_start" where
  "acknowledge_start unit ack status =
     (case ack of
        Err e \<Rightarrow> SsUnsafeContainment (''managed scope acknowledgement is unknown; reservation retained: '' @ e)
      | Ok code \<Rightarrow>
          if code \<noteq> Some 0 then
            SsUnsafeContainment (''managed scope acknowledgement failed; reservation retained: '' @
              (case code of None \<Rightarrow> ''signal'' | Some c \<Rightarrow> (if c < 0 then ''-'' else []) @ show_nat (nat \<bar>c\<bar>)))
          else (case status of
             Err e \<Rightarrow> SsUnsafeContainment (''managed scope identity is unknown; reservation retained: '' @ e)
           | Ok st \<Rightarrow>
               if ss_id st \<noteq> unit \<or> ss_invocation_id st = [] then
                 SsUnsafeContainment (''managed scope identity is not bound to '' @ unit @ ''; reservation retained'')
               else SsAcknowledged (ss_invocation_id st)))"

text \<open>
  What a run meets: the launch, the acknowledgement, the status queries, and what others do to the
  ledger while the scope runs.
\<close>

record run_world =
  rw_access :: ledger_access
  rw_gates :: admission_gates
  rw_alive :: "owner_identity \<Rightarrow> bool"
  rw_nonce :: string
  rw_launch :: "(unit, string) result"
  rw_ack :: "(int option, string) result"
  rw_ack_status :: "(scope_status, string) result"
  rw_bind :: ledger_access
  rw_queries :: "(scope_status, string) result list"
  rw_others :: "ledger_file \<Rightarrow> ledger_file"
  rw_release :: ledger_access

definition exit_result :: "(int option, string) result \<Rightarrow> (unit, string) result" where
  "exit_result r =
     (case r of
        Ok (Some code) \<Rightarrow>
          if code = 0 then Ok ()
          else Err (''managed workload exited with status '' @ (if code < 0 then ''-'' else []) @ show_nat (nat \<bar>code\<bar>))
      | Ok None \<Rightarrow> Err ''managed workload exited with a signal''
      | Err e \<Rightarrow> Err e)"

definition run_release ::
  "run_world \<Rightarrow> reservation \<Rightarrow> (int option, string) result \<Rightarrow> ledger_file \<Rightarrow> ledger_file \<times> (unit, string) result" where
  "run_release rw r res file =
     (case release_reservation_at (rw_release rw) r file of
        (file', rel) \<Rightarrow>
          (file', case exit_result res of Err e \<Rightarrow> Err e | Ok _ \<Rightarrow> (case rel of Err e \<Rightarrow> Err e | Ok _ \<Rightarrow> Ok ())))"

text \<open>\<open>None\<close> stands for a scope that is still running when the queries of the world are used up.\<close>

definition run_with ::
  "run_world \<Rightarrow> (owner_identity, string) result \<Rightarrow> (nat, string) result \<Rightarrow> workload_request \<Rightarrow> ledger_file \<Rightarrow>
   ledger_file \<times> (unit, string) result option" where
  "run_with rw owner memory_total req file =
     (case owner of
        Err e \<Rightarrow> (file, Some (Err e))
      | Ok who \<Rightarrow>
     (case result_bind memory_total (\<lambda>n. calculate_budget n 0) of
        Err e \<Rightarrow> (file, Some (Err e))
      | Ok budget \<Rightarrow>
     (case admit_reservation_at (rw_access rw) (rw_gates rw) (rw_alive rw) (rw_nonce rw) who (wq_class req)
             (wq_memory_max_bytes req) (wb_memory_max_bytes budget) file of
        (file1, Err e) \<Rightarrow> (file1, Some (Err e))
      | (file1, Ok r) \<Rightarrow>
          (case rw_launch rw of
             Err e \<Rightarrow> map_prod id Some (run_release rw r (Err e) file1)
           | Ok _ \<Rightarrow>
               (case acknowledge_start (rv_unit r) (rw_ack rw) (rw_ack_status rw) of
                  SsUnsafeContainment e \<Rightarrow> (file1, Some (Err e))
                | SsAcknowledged bound_id \<Rightarrow>
                    (case bind_reservation_invocation_while_locked (rw_bind rw) r bound_id file1 of
                       (file2, Err e) \<Rightarrow>
                         (file2, Some (Err (''managed scope identity was not persisted; reservation retained: '' @ e)))
                     | (file2, Ok bound) \<Rightarrow>
                         let file3 = rw_others rw file2
                         in case wait_for_completion (rv_unit bound) (Some bound_id) (rw_queries rw) of
                              None \<Rightarrow> (file3, None)
                            | Some (ScUnsafeContainment e) \<Rightarrow> (file3, Some (Err e))
                            | Some (ScTerminal res) \<Rightarrow> map_prod id Some (run_release rw bound res file3)))))))"

subsection \<open>A valid ledger\<close>

definition ledger_valid :: "reservation_ledger \<Rightarrow> bool" where
  "ledger_valid l \<longleftrightarrow> rl_schema_version l = 3 \<and> 0 < rl_next_ordinal l \<and>
     (\<forall>r \<in> set (rl_reservations l). 0 < rv_issued_ordinal r \<and> rv_issued_ordinal r < rl_next_ordinal l) \<and>
     distinct (map rv_issued_ordinal (rl_reservations l))"

lemma sorted_windows_distinct:
  fixes xs :: "nat list"
  shows "sorted xs \<Longrightarrow> (\<exists>(a, b) \<in> set (zip xs (drop 1 xs)). a = b) \<longleftrightarrow> \<not> distinct xs"
proof (induction xs)
  case (Cons x xs)
  show ?case
  proof (cases xs)
    case (Cons y ys)
    have "x \<in> set xs \<longleftrightarrow> x = y" using Cons.prems local.Cons by fastforce
    then show ?thesis using Cons.IH Cons.prems local.Cons by auto
  qed simp
qed simp

lemma validate_ledger_iff: "validate_ledger l = Ok () \<longleftrightarrow> ledger_valid l"
proof -
  let ?o = "sort (map rv_issued_ordinal (rl_reservations l))"
  have "list_ex (\<lambda>(a, b). a = b) (zip ?o (drop 1 ?o)) \<longleftrightarrow> \<not> distinct (map rv_issued_ordinal (rl_reservations l))"
    using sorted_windows_distinct [OF sorted_sort, of "map rv_issued_ordinal (rl_reservations l)"]
    by (simp add: list_ex_iff del: drop_Suc)
  then show ?thesis unfolding validate_ledger_def ledger_valid_def Let_def
    by (auto simp: list_ex_iff not_less)
qed

lemma reserved_fold:
  "a \<le> u64_max \<Longrightarrow> try_fold (\<lambda>n r. checked_add u64_max n (rv_memory_bytes r)) a rs =
     (if a + sum_list (map rv_memory_bytes rs) \<le> u64_max then Some (a + sum_list (map rv_memory_bytes rs)) else None)"
proof (induction rs arbitrary: a)
  case (Cons r rs)
  show ?case
  proof (cases "a + rv_memory_bytes r \<le> u64_max")
    case True
    then show ?thesis using Cons.IH [OF True] by (simp add: checked_add_def add.assoc)
  qed (simp add: checked_add_def)
qed simp

lemma reserved_bytes_Some: "reserved_bytes rs = Some n \<longleftrightarrow> n = sum_list (map rv_memory_bytes rs) \<and> n \<le> u64_max"
  using reserved_fold [of 0 rs] by (auto simp: reserved_bytes_def split: if_splits)

subsection \<open>Steps on the ledger\<close>

text \<open>A step leaves the file alone or replaces it by a valid ledger.\<close>

lemma store_ledger_cases:
  assumes "store_ledger la l file = (file', r)"
  shows "file' = file \<and> r \<noteq> Ok () \<or> file' = Some l \<and> ledger_valid l"
  using assms validate_ledger_iff [of l]
  by (auto simp: store_ledger_def store_file_def split: result.splits if_splits write_fate.splits)

lemma load_ledger_Ok:
  assumes "load_ledger_locked la file = Ok l"
  shows "file = Some l \<and> ledger_valid l"
proof -
  obtain l' where l': "file = Some l'" "result_bind (validate_ledger l') (\<lambda>_. Ok l') = Ok l"
    using assms by (auto simp: load_ledger_locked_def split: option.splits)
  have "validate_ledger l' = Ok ()" "l' = l" using l'(2) by (cases "validate_ledger l'"; simp)+
  then show ?thesis using l'(1) validate_ledger_iff by simp
qed

lemma admit_cases:
  assumes "admit_reservation_at la ag alive nonce owner cls mem aggregate_max file = (file', res)"
  obtains "file' = file" "\<not> is_ok res"
  | l r where "file = Some l" "ledger_valid l" "gates_open ag owner alive = Ok ()" "0 < mem"
      "r = \<lparr>rv_id = nonce, rv_owner = owner, rv_class = cls, rv_memory_bytes = mem,
         rv_unit = ''ramshared-'' @ class_str cls @ ''-'' @ nonce @ ''.scope'',
         rv_invocation_id = None, rv_issued_ordinal = rl_next_ordinal l\<rparr>"
      "file' = Some (l\<lparr>rl_next_ordinal := Suc (rl_next_ordinal l),
         rl_reservations := filter (\<lambda>r. alive (rv_owner r)) (rl_reservations l) @ [r]\<rparr>)"
      "ledger_valid (the file')"
      "saturating_add u64_max (sum_list (map rv_memory_bytes (filter (\<lambda>r. alive (rv_owner r)) (rl_reservations l)))) mem
         \<le> aggregate_max" "\<forall>r'. res = Ok r' \<longrightarrow> r' = r"
proof (cases "\<exists>l reserved. la_lock la = Ok () \<and> gates_open ag owner alive = Ok () \<and> load_ledger_locked la file = Ok l \<and>
    reserved_bytes (filter (\<lambda>r. alive (rv_owner r)) (rl_reservations l)) = Some reserved \<and> mem \<noteq> 0 \<and>
    saturating_add u64_max reserved mem \<le> aggregate_max \<and> rl_next_ordinal l + 1 \<le> u64_max")
  case False
  then have "file' = file" "\<not> is_ok res"
    using assms by (auto simp: admit_reservation_at_def Let_def checked_add_def split: result.splits option.splits if_splits)
  then show ?thesis by (rule that(1))
next
  case True
  then obtain l reserved where l: "la_lock la = Ok ()" "gates_open ag owner alive = Ok ()" "load_ledger_locked la file = Ok l"
    "reserved_bytes (filter (\<lambda>r. alive (rv_owner r)) (rl_reservations l)) = Some reserved" "mem \<noteq> 0"
    "saturating_add u64_max reserved mem \<le> aggregate_max" "rl_next_ordinal l + 1 \<le> u64_max" by blast
  define r where "r = \<lparr>rv_id = nonce, rv_owner = owner, rv_class = cls, rv_memory_bytes = mem,
         rv_unit = ''ramshared-'' @ class_str cls @ ''-'' @ nonce @ ''.scope'',
         rv_invocation_id = None, rv_issued_ordinal = rl_next_ordinal l\<rparr>"
  define l' where "l' = l\<lparr>rl_next_ordinal := Suc (rl_next_ordinal l),
         rl_reservations := filter (\<lambda>r. alive (rv_owner r)) (rl_reservations l) @ [r]\<rparr>"
  obtain f x where x: "store_ledger la l' file = (f, x)" by fastforce
  have eq: "(file', res) = (f, case x of Err e \<Rightarrow> Err e | Ok _ \<Rightarrow> Ok r)"
    using assms l x unfolding r_def l'_def
    by (cases x) (simp_all add: admit_reservation_at_def Let_def checked_add_def)
  have sum: "reserved = sum_list (map rv_memory_bytes (filter (\<lambda>r. alive (rv_owner r)) (rl_reservations l)))"
    using l(4) by (simp add: reserved_bytes_Some)
  from store_ledger_cases [OF x] show ?thesis
  proof
    assume "f = file \<and> x \<noteq> Ok ()"
    then show ?thesis using eq that(1) by (cases x) auto
  next
    assume f: "f = Some l' \<and> ledger_valid l'"
    show ?thesis
      by (rule that(2) [of l r])
        (use l load_ledger_Ok [OF l(3)] f eq sum in \<open>auto simp: r_def l'_def split: result.splits\<close>)
  qed
qed

lemma release_cases:
  assumes "release_reservation_at la r file = (file', res)"
  obtains "file' = file" "\<not> res = Ok True"
  | l i where "file = Some l" "ledger_valid l" "i < length (rl_reservations l)" "rv_id (rl_reservations l ! i) = rv_id r"
      "file' = Some (l\<lparr>rl_reservations := take i (rl_reservations l) @ drop (Suc i) (rl_reservations l)\<rparr>)"
      "ledger_valid (the file')"
proof (cases "\<exists>l i. la_lock la = Ok () \<and> load_ledger_locked la file = Ok l \<and>
    position (\<lambda>x. rv_id x = rv_id r) (rl_reservations l) = Some i \<and> rv_owner (rl_reservations l ! i) = rv_owner r")
  case False
  then have "file' = file" "res \<noteq> Ok True"
    using assms by (auto simp: release_reservation_at_def split: result.splits option.splits if_splits)
  then show ?thesis by (rule that(1))
next
  case True
  then obtain l i where l: "la_lock la = Ok ()" "load_ledger_locked la file = Ok l"
    "position (\<lambda>x. rv_id x = rv_id r) (rl_reservations l) = Some i" "rv_owner (rl_reservations l ! i) = rv_owner r" by blast
  define l' where "l' = l\<lparr>rl_reservations := take i (rl_reservations l) @ drop (Suc i) (rl_reservations l)\<rparr>"
  obtain f x where x: "store_ledger la l' file = (f, x)" by fastforce
  have eq: "(file', res) = (f, case x of Err e \<Rightarrow> Err e | Ok _ \<Rightarrow> Ok True)"
    using assms l x unfolding l'_def by (cases x) (simp_all add: release_reservation_at_def)
  from store_ledger_cases [OF x] show ?thesis
  proof
    assume "f = file \<and> x \<noteq> Ok ()"
    then show ?thesis using eq that(1) by (cases x) auto
  next
    assume f: "f = Some l' \<and> ledger_valid l'"
    show ?thesis
      by (rule that(2) [of l i]) (use load_ledger_Ok [OF l(2)] position_Some [OF l(3)] f eq in \<open>auto simp: l'_def\<close>)
  qed
qed

lemma bind_cases:
  assumes "bind_reservation_invocation_while_locked la r invocation file = (file', res)"
  obtains "file' = file" "\<not> is_ok res"
  | l i where "file = Some l" "ledger_valid l" "i < length (rl_reservations l)" "rv_id (rl_reservations l ! i) = rv_id r"
      "rv_unit (rl_reservations l ! i) = rv_unit r"
      "file' = Some (l\<lparr>rl_reservations := (rl_reservations l)[i := (rl_reservations l ! i)\<lparr>rv_invocation_id := Some invocation\<rparr>]\<rparr>)"
      "ledger_valid (the file')" "\<forall>b. res = Ok b \<longrightarrow> b = (rl_reservations l ! i)\<lparr>rv_invocation_id := Some invocation\<rparr>"
proof (cases "\<exists>l i. valid_systemd_invocation_id invocation \<and> load_ledger_locked la file = Ok l \<and>
    position (\<lambda>x. rv_id x = rv_id r) (rl_reservations l) = Some i \<and>
    rv_owner (rl_reservations l ! i) = rv_owner r \<and> rv_unit (rl_reservations l ! i) = rv_unit r \<and>
    (rv_invocation_id (rl_reservations l ! i) = None \<or> rv_invocation_id (rl_reservations l ! i) = Some invocation)")
  case False
  then have "file' = file" "\<not> is_ok res"
    using assms by (auto simp: bind_reservation_invocation_while_locked_def Let_def split: result.splits option.splits if_splits)
  then show ?thesis by (rule that(1))
next
  case True
  then obtain l i where l: "valid_systemd_invocation_id invocation" "load_ledger_locked la file = Ok l"
    "position (\<lambda>x. rv_id x = rv_id r) (rl_reservations l) = Some i" "rv_owner (rl_reservations l ! i) = rv_owner r"
    "rv_unit (rl_reservations l ! i) = rv_unit r"
    "rv_invocation_id (rl_reservations l ! i) = None \<or> rv_invocation_id (rl_reservations l ! i) = Some invocation" by blast
  let ?b = "(rl_reservations l ! i)\<lparr>rv_invocation_id := Some invocation\<rparr>"
  define l' where "l' = l\<lparr>rl_reservations := (rl_reservations l)[i := ?b]\<rparr>"
  obtain f x where x: "store_ledger la l' file = (f, x)" by fastforce
  have eq: "(file', res) = (f, case x of Err e \<Rightarrow> Err e | Ok _ \<Rightarrow> Ok ?b)"
    using assms l x unfolding l'_def
    by (cases x) (auto simp: bind_reservation_invocation_while_locked_def Let_def)
  from store_ledger_cases [OF x] show ?thesis
  proof
    assume "f = file \<and> x \<noteq> Ok ()"
    then show ?thesis using eq that(1) by (cases x) auto
  next
    assume f: "f = Some l' \<and> ledger_valid l'"
    show ?thesis
      by (rule that(2) [of l i])
        (use load_ledger_Ok [OF l(2)] position_Some [OF l(3)] f eq l(5) in \<open>auto simp: l'_def split: result.splits\<close>)
  qed
qed

subsection \<open>The ledger in use\<close>

datatype ledger_event =
    LeAdmit ledger_access admission_gates "owner_identity \<Rightarrow> bool" string owner_identity workload_class nat
  | LeRelease ledger_access reservation
  | LeBind ledger_access reservation string

text \<open>A step of any process on the ledger, with the machine's aggregate limit; admissions are reported.\<close>

fun ledger_exec :: "nat \<Rightarrow> ledger_event \<Rightarrow> ledger_file \<Rightarrow> ledger_file \<times> reservation list" where
  "ledger_exec aggregate_max (LeAdmit la ag alive nonce owner cls mem) file =
     (case admit_reservation_at la ag alive nonce owner cls mem aggregate_max file of
        (file', Ok r) \<Rightarrow> (file', [r]) | (file', Err _) \<Rightarrow> (file', []))"
| "ledger_exec aggregate_max (LeRelease la r) file = (fst (release_reservation_at la r file), [])"
| "ledger_exec aggregate_max (LeBind la r invocation) file =
     (fst (bind_reservation_invocation_while_locked la r invocation file), [])"

fun ledger_run :: "nat \<Rightarrow> ledger_event list \<Rightarrow> ledger_file \<Rightarrow> ledger_file \<times> reservation list" where
  "ledger_run aggregate_max [] file = (file, [])"
| "ledger_run aggregate_max (ev # evs) file =
     (let (file1, rs) = ledger_exec aggregate_max ev file; (file2, rs') = ledger_run aggregate_max evs file1
      in (file2, rs @ rs'))"

definition booked :: "reservation_ledger \<Rightarrow> nat" where
  "booked l = sum_list (map rv_memory_bytes (rl_reservations l))"

definition ledger_inv :: "nat \<Rightarrow> ledger_file \<Rightarrow> bool" where
  "ledger_inv aggregate_max file \<longleftrightarrow> (\<forall>l. file = Some l \<longrightarrow> ledger_valid l \<and> booked l \<le> aggregate_max)"

definition next_ordinal :: "ledger_file \<Rightarrow> nat" where
  "next_ordinal file = (case file of None \<Rightarrow> 0 | Some l \<Rightarrow> rl_next_ordinal l)"

lemma booked_remove: "booked (l\<lparr>rl_reservations := take i xs @ drop (Suc i) xs\<rparr>) \<le> sum_list (map rv_memory_bytes xs)"
proof -
  have "sum_list (map rv_memory_bytes (take i xs)) + sum_list (map rv_memory_bytes (drop (Suc i) xs)) \<le>
      sum_list (map rv_memory_bytes (take (Suc i) xs)) + sum_list (map rv_memory_bytes (drop (Suc i) xs))"
    by (cases "i < length xs") (simp_all add: take_Suc_conv_app_nth)
  also have "\<dots> = sum_list (map rv_memory_bytes (take (Suc i) xs @ drop (Suc i) xs))" by (simp only: map_append sum_list_append)
  finally show ?thesis by (simp add: booked_def)
qed

lemma booked_update:
  "i < length xs \<Longrightarrow> rv_memory_bytes y = rv_memory_bytes (xs ! i) \<Longrightarrow>
   sum_list (map rv_memory_bytes (xs[i := y])) = sum_list (map rv_memory_bytes xs)"
  by (simp add: map_update) (metis length_map list_update_id nth_map)

lemma exec_ledger:
  assumes "ledger_inv aggregate_max file" "aggregate_max < u64_max" "ledger_exec aggregate_max ev file = (file', rs)"
  shows "ledger_inv aggregate_max file'" "next_ordinal file \<le> next_ordinal file'"
    "\<forall>r \<in> set rs. rv_issued_ordinal r = next_ordinal file \<and> next_ordinal file < next_ordinal file'" "length rs \<le> 1"
proof -
  have "ledger_inv aggregate_max file' \<and> next_ordinal file \<le> next_ordinal file' \<and>
    (\<forall>r \<in> set rs. rv_issued_ordinal r = next_ordinal file \<and> next_ordinal file < next_ordinal file') \<and> length rs \<le> 1"
  proof (cases ev)
    case (LeAdmit la ag alive nonce owner cls mem)
    obtain x where x: "admit_reservation_at la ag alive nonce owner cls mem aggregate_max file = (file', x)"
      and rs: "rs = (case x of Ok r \<Rightarrow> [r] | Err _ \<Rightarrow> [])"
      using assms(3) LeAdmit by (auto split: prod.splits result.splits)
    from x show ?thesis
    proof (cases rule: admit_cases)
      case 1
      then show ?thesis using rs assms(1) by (cases x) simp_all
    next
      case (2 l r)
      let ?live = "filter (\<lambda>r. alive (rv_owner r)) (rl_reservations l)"
      have "booked (the file') = sum_list (map rv_memory_bytes ?live) + mem" unfolding 2(6) by (simp add: booked_def 2(5))
      then have "booked (the file') \<le> aggregate_max" using 2(8) assms(2) by (simp add: saturating_add_def)
      moreover have "next_ordinal file = rl_next_ordinal l" "next_ordinal file' = Suc (rl_next_ordinal l)"
        "rv_issued_ordinal r = rl_next_ordinal l" using 2(1,5,6) by (simp_all add: next_ordinal_def)
      ultimately show ?thesis using 2(6,7,9) rs by (auto simp: ledger_inv_def split: result.splits)
    qed
  next
    case (LeRelease la r)
    obtain x where x: "release_reservation_at la r file = (file', x)" and rs: "rs = []"
      using assms(3) LeRelease by (cases "release_reservation_at la r file") simp
    from x show ?thesis
    proof (cases rule: release_cases)
      case gone: (2 l i)
      have "booked (the file') \<le> booked l"
        unfolding gone(5) option.sel booked_def [of l] by (rule booked_remove)
      then show ?thesis using gone(1,5,6) assms(1) rs by (simp add: ledger_inv_def next_ordinal_def)
    qed (use assms(1) rs in simp_all)
  next
    case (LeBind la r invocation)
    obtain x where x: "bind_reservation_invocation_while_locked la r invocation file = (file', x)" and rs: "rs = []"
      using assms(3) LeBind by (cases "bind_reservation_invocation_while_locked la r invocation file") simp
    from x show ?thesis
    proof (cases rule: bind_cases)
      case bound: (2 l i)
      have "booked (the file') = booked l"
        unfolding bound(6) option.sel booked_def using bound(3) by (simp add: booked_update)
      then show ?thesis using bound(1,6,7) assms(1) rs by (simp add: ledger_inv_def next_ordinal_def)
    qed (use assms(1) rs in simp_all)
  qed
  then show "ledger_inv aggregate_max file'" "next_ordinal file \<le> next_ordinal file'"
    "\<forall>r \<in> set rs. rv_issued_ordinal r = next_ordinal file \<and> next_ordinal file < next_ordinal file'" "length rs \<le> 1" by blast+
qed

lemma run_ledger:
  "ledger_inv aggregate_max file \<Longrightarrow> aggregate_max < u64_max \<Longrightarrow> ledger_run aggregate_max evs file = (file', rs) \<Longrightarrow>
   ledger_inv aggregate_max file' \<and> next_ordinal file \<le> next_ordinal file' \<and>
   (\<forall>r \<in> set rs. next_ordinal file \<le> rv_issued_ordinal r) \<and> sorted_wrt (<) (map rv_issued_ordinal rs)"
proof (induction evs arbitrary: "file" rs)
  case (Cons ev evs)
  obtain f1 r1 where f1: "ledger_exec aggregate_max ev file = (f1, r1)" by fastforce
  obtain f2 r2 where f2: "ledger_run aggregate_max evs f1 = (f2, r2)" by fastforce
  have eq: "file' = f2" "rs = r1 @ r2" using Cons.prems(3) f1 f2 by simp_all
  note st = exec_ledger [OF Cons.prems(1,2) f1]
  have ih: "ledger_inv aggregate_max f2 \<and> next_ordinal f1 \<le> next_ordinal f2 \<and>
     (\<forall>r \<in> set r2. next_ordinal f1 \<le> rv_issued_ordinal r) \<and> sorted_wrt (<) (map rv_issued_ordinal r2)"
    using Cons.IH [OF st(1) Cons.prems(2) f2 [folded eq(1)]] eq(1) by simp
  have "sorted_wrt (<) (map rv_issued_ordinal r1)" using st(4) by (cases r1 rule: remdups_adj.cases) auto
  moreover have "\<forall>a \<in> set r1. \<forall>b \<in> set r2. rv_issued_ordinal a < rv_issued_ordinal b" using st(3) ih by fastforce
  ultimately have "sorted_wrt (<) (map rv_issued_ordinal rs)" using ih eq(2) by (simp add: sorted_wrt_append)
  then show ?case using ih st(2,3) eq by fastforce
qed simp

lemma budget_Ok:
  assumes "calculate_budget memory_total avail = Ok b" "memory_total \<le> u64_max"
  shows "wb_memory_max_bytes b + wb_control_plane_reserve_bytes b = memory_total" "wb_memory_max_bytes b < u64_max"
    "4 * GIB_BYTES \<le> wb_control_plane_reserve_bytes b" "memory_total \<le> 4 * wb_control_plane_reserve_bytes b"
    "GIB_BYTES \<le> wb_memory_max_bytes b" "wb_memory_high_bytes b + GIB_BYTES \<le> wb_memory_max_bytes b"
proof -
  let ?r = "max (div_ceil memory_total 4) (4 * GIB_BYTES)"
  have b: "GIB_BYTES \<le> memory_total - ?r" "wb_control_plane_reserve_bytes b = ?r" "wb_memory_max_bytes b = memory_total - ?r"
    "wb_memory_high_bytes b = memory_total - ?r - max (div_ceil memory_total 10) GIB_BYTES"
    using assms(1) by (auto simp: calculate_budget_def Let_def saturating_sub_def not_less split: if_splits)
  have g: "0 < GIB_BYTES" by (simp add: GIB_BYTES_def)
  then show "wb_memory_max_bytes b + wb_control_plane_reserve_bytes b = memory_total" "wb_memory_max_bytes b < u64_max"
    "4 * GIB_BYTES \<le> wb_control_plane_reserve_bytes b" "GIB_BYTES \<le> wb_memory_max_bytes b"
    "wb_memory_high_bytes b + GIB_BYTES \<le> wb_memory_max_bytes b"
    using b assms(2) by linarith+
  have "memory_total \<le> div_ceil memory_total 4 * 4" by (rule div_ceil_upper) simp
  then show "memory_total \<le> 4 * wb_control_plane_reserve_bytes b" using b(2) by linarith
qed

lemma gates_open_Ok:
  assumes "gates_open ag owner alive = Ok ()"
  shows "\<exists>now st a le. ag_safe_mode ag = Ok False \<and> ag_now ag = Ok now \<and>
    ag_supervisor ag = Evidence st \<and> ag_admission ag = Evidence a \<and> ag_lease ag = Evidence le \<and>
    st_control_state st = ''HEALTHY'' \<and> as_admission_open a \<and> as_control_state a = ''HEALTHY'' \<and>
    as_supervisor_identity a = st_supervisor_identity st \<and> le_supervisor_identity le = st_supervisor_identity st \<and>
    oi_boot_id (st_supervisor_identity st) = oi_boot_id owner \<and> alive (st_supervisor_identity st) \<and>
    st_written_at_unix_ms st \<le> now \<and> now \<le> st_written_at_unix_ms st + 15000 \<and>
    as_written_at_unix_ms a \<le> now \<and> now \<le> as_written_at_unix_ms a + 15000 \<and>
    le_issued_at_epoch_ms le \<le> now \<and> now \<le> le_expires_at_epoch_ms le \<and> now \<le> le_issued_at_epoch_ms le + 15000"
proof -
  obtain now st where n: "ag_safe_mode ag = Ok False" "ag_now ag = Ok now"
    "read_current_supervisor_status_at (ag_supervisor ag) owner now 0 alive = Ok st"
    "admission_state_allows_at (ag_admission ag) owner st now alive = Ok ()"
    "\<exists>le. read_resume_lease_if_present (ag_lease ag) owner st now alive = Ok (Some le)"
    using assms by (auto simp: gates_open_def split: result.splits bool.splits option.splits)
  from n(5) obtain le where le: "read_resume_lease_if_present (ag_lease ag) owner st now alive = Ok (Some le)" by blast
  have st: "ag_supervisor ag = Evidence st" "st_control_state st = ''HEALTHY''" "\<not> stale now (st_written_at_unix_ms st)"
    "identity_is_current alive (st_supervisor_identity st) (oi_boot_id owner)"
    using n(3) by (auto simp: read_current_supervisor_status_at_def split: evidence.splits if_splits)
  obtain a where a: "ag_admission ag = Evidence a" "as_admission_open a" "as_control_state a = ''HEALTHY''"
    "\<not> stale now (as_written_at_unix_ms a)" "as_supervisor_identity a = st_supervisor_identity st"
    using n(4) by (auto simp: admission_state_allows_at_def split: evidence.splits if_splits)
  obtain le' where le': "ag_lease ag = Evidence le'" "validate_resume_lease le' owner st now alive = Ok ()"
    using le by (cases "ag_lease ag"; cases "validate_resume_lease (case ag_lease ag of Evidence x \<Rightarrow> x) owner st now alive")
      (auto simp: read_resume_lease_if_present_def)
  then have "le_supervisor_identity le' = st_supervisor_identity st" "le_issued_at_epoch_ms le' \<le> now"
    "now \<le> le_expires_at_epoch_ms le'" "now \<le> le_issued_at_epoch_ms le' + 15000"
    by (auto simp: validate_resume_lease_def saturating_sub_def MAX_CONTROL_EVIDENCE_AGE_MS_def split: if_splits)
  then show ?thesis using n(1,2) st a le'(1)
    by (intro exI [of _ now] exI [of _ st] exI [of _ a] exI [of _ le'])
      (auto simp: stale_def identity_is_current_def saturating_sub_def MAX_CONTROL_EVIDENCE_AGE_MS_def)
qed

definition has_id :: "string \<Rightarrow> ledger_file \<Rightarrow> bool" where
  "has_id i file \<longleftrightarrow> (\<exists>l. file = Some l \<and> i \<in> rv_id ` set (rl_reservations l))"

lemma admit_has_id:
  assumes "admit_reservation_at la ag alive nonce owner cls mem aggregate_max file = (file', Ok r)"
  shows "has_id (rv_id r) file'"
  using assms
proof (cases rule: admit_cases)
  case (2 l r')
  then show ?thesis unfolding 2(6) has_id_def by simp
qed simp

lemma bind_has_id:
  assumes "bind_reservation_invocation_while_locked la r invocation file = (file', res)" "has_id i file"
  shows "has_id i file'" "res = Ok b \<Longrightarrow> rv_unit b = rv_unit r \<and> rv_id b = rv_id r"
proof -
  have "has_id i file' \<and> (res = Ok b \<longrightarrow> rv_unit b = rv_unit r \<and> rv_id b = rv_id r)"
    using assms(1)
  proof (cases rule: bind_cases)
    case 1
    then show ?thesis using assms(2) by auto
  next
    case (2 l j)
    have "map rv_id ((rl_reservations l)[j := (rl_reservations l ! j)\<lparr>rv_invocation_id := Some invocation\<rparr>]) =
        map rv_id (rl_reservations l)"
      using 2(3) by (simp add: map_update) (metis length_map list_update_id nth_map)
    then have "rv_id ` set ((rl_reservations l)[j := (rl_reservations l ! j)\<lparr>rv_invocation_id := Some invocation\<rparr>]) =
        rv_id ` set (rl_reservations l)" by (metis set_map)
    then show ?thesis using 2(1,4-6,8) assms(2) by (auto simp: has_id_def)
  qed
  then show "has_id i file'" "res = Ok b \<Longrightarrow> rv_unit b = rv_unit r \<and> rv_id b = rv_id r" by blast+
qed

lemma wait_terminal:
  "wait_for_completion unit (Some bound_id) qs = Some (ScTerminal res) \<Longrightarrow>
   \<exists>st code. Ok st \<in> set qs \<and> ss_id st = unit \<and> ss_invocation_id st = bound_id \<and> terminal_exit_status st = Ok (Some code)"
proof (induction unit "Some bound_id" qs rule: wait_for_completion.induct)
  case (3 unit st qs)
  show ?case
  proof (cases "terminal_exit_status st = Ok None")
    case True
    then have "ss_invocation_id st = bound_id" "wait_for_completion unit (Some bound_id) qs = Some (ScTerminal res)"
      using 3(2) by (auto split: if_splits)
    then show ?thesis using 3(1) 3(2) True by (auto split: if_splits)
  next
    case False
    then show ?thesis using 3(2) by (auto split: if_splits result.splits option.splits)
  qed
qed simp_all

subsection \<open>Example\<close>

definition demo_owner :: "nat \<Rightarrow> owner_identity" where
  "demo_owner pid = \<lparr>oi_boot_id = ''b'', oi_pid = pid, oi_start_time = 7, oi_nonce = ''1-2''\<rparr>"

definition demo_access :: ledger_access where
  "demo_access = \<lparr>la_lock = Ok (), la_read_fault = None, la_encoding = Ok 100, la_store = WfDone\<rparr>"

definition demo_gates :: admission_gates where
  "demo_gates =
     \<lparr>ag_safe_mode = Ok False, ag_now = Ok 20000,
      ag_supervisor = Evidence \<lparr>st_schema_version = 3, st_control_state = ''HEALTHY'', st_healthy_samples = 60,
        st_action_results = [], st_supervisor_identity = demo_owner 1, st_written_at_unix_ms = 19000\<rparr>,
      ag_admission = Evidence (published_admission_state (demo_owner 1) ''HEALTHY'' 19000),
      ag_lease = Evidence \<lparr>le_schema_version = 2, le_boot_id = ''b'', le_incident_id = replicate 32 CHR ''a'',
        le_distro = ''x'', le_supervisor_identity = demo_owner 1, le_issued_at_epoch_ms = 18000, le_expires_at_epoch_ms = 21000\<rparr>\<rparr>"

definition demo_ledger :: reservation_ledger where
  "demo_ledger = \<lparr>rl_schema_version = 3, rl_next_ordinal = 1, rl_reservations = []\<rparr>"

lemma demo_gates_open: "gates_open demo_gates (demo_owner 9) (\<lambda>_. True) = Ok ()"
  by (simp add: gates_open_def demo_gates_def read_current_supervisor_status_at_def admission_state_allows_at_def
      read_resume_lease_if_present_def validate_resume_lease_def published_admission_state_def stale_def
      identity_is_current_def demo_owner_def saturating_sub_def MAX_CONTROL_EVIDENCE_AGE_MS_def valid_incident_id_def
      valid_distro_def is_ascii_hexdigit_def is_ascii_lower_hex_def is_ascii_digit_def is_ascii_alphanumeric_def
      list_all_iff)

lemma demo_admit:
  assumes "5 \<le> m"
  shows "\<exists>file' r. admit_reservation_at demo_access demo_gates (\<lambda>_. True) ''n1'' (demo_owner 9) Build 5 m (Some demo_ledger) = (file', Ok r)"
proof -
  have "validate_ledger demo_ledger = Ok ()" by (simp add: validate_ledger_iff ledger_valid_def demo_ledger_def)
  moreover have "validate_ledger (demo_ledger\<lparr>rl_next_ordinal := 2, rl_reservations := [x]\<rparr>) = Ok ()" if "rv_issued_ordinal x = 1" for x
    using that by (simp add: validate_ledger_iff ledger_valid_def demo_ledger_def)
  ultimately show ?thesis
    using assms by (simp add: admit_reservation_at_def demo_gates_open load_ledger_locked_def demo_access_def reserved_bytes_def
        demo_ledger_def saturating_add_def checked_add_def u64_max_def store_ledger_def store_file_def MAX_LEDGER_BYTES_def
        numeral_2_eq_2 Let_def)
qed

definition demo_world :: run_world where
  "demo_world =
     \<lparr>rw_access = demo_access, rw_gates = demo_gates, rw_alive = (\<lambda>_. True), rw_nonce = ''n1'', rw_launch = Ok (),
      rw_ack = Err ''timeout'', rw_ack_status = Err ''none'', rw_bind = demo_access, rw_queries = [],
      rw_others = (\<lambda>f. f), rw_release = demo_access\<rparr>"

subsection \<open>Properties\<close>

text \<open>
  C7. Admissions never book more memory than the machine's workload budget. From a ledger within the
  budget, whatever admissions, bindings and releases any processes perform on it, with file writes
  that succeed, are refused or fail half-way, the reservations of the ledger and the control-plane
  reserve, at least 4 GiB and at least a quarter of the memory, fit in the memory together; and the
  ordinals of the admitted reservations strictly increase.
\<close>

theorem ledger_within_budget:
  assumes "calculate_budget memory_total avail = Ok b" "memory_total \<le> u64_max"
    and "ledger_inv (wb_memory_max_bytes b) file" "ledger_run (wb_memory_max_bytes b) evs file = (file', rs)"
  shows "(\<forall>l. file' = Some l \<longrightarrow> ledger_valid l \<and> booked l + wb_control_plane_reserve_bytes b \<le> memory_total) \<and>
    4 * GIB_BYTES \<le> wb_control_plane_reserve_bytes b \<and> memory_total \<le> 4 * wb_control_plane_reserve_bytes b \<and>
    sorted_wrt (<) (map rv_issued_ordinal rs)"
  using run_ledger [OF assms(3) budget_Ok(2) [OF assms(1,2)] assms(4)] budget_Ok [OF assms(1,2)]
  by (auto simp: ledger_inv_def)

theorem ledger_within_budget_witness:
  "\<exists>b file' rs. calculate_budget (16 * GIB_BYTES) 0 = Ok b \<and>
     ledger_run (wb_memory_max_bytes b)
       [LeAdmit demo_access demo_gates (\<lambda>_. True) ''n1'' (demo_owner 9) Build (6 * GIB_BYTES),
        LeAdmit demo_access demo_gates (\<lambda>_. True) ''n2'' (demo_owner 9) Batch (8 * GIB_BYTES)] (Some demo_ledger) = (file', rs) \<and>
     sorted_wrt (<) (map rv_issued_ordinal rs)"
proof -
  obtain b where b: "calculate_budget (16 * GIB_BYTES) 0 = Ok b"
    by (simp add: calculate_budget_def Let_def GIB_BYTES_def div_ceil_def saturating_sub_def)
  obtain file' rs where r: "ledger_run (wb_memory_max_bytes b)
       [LeAdmit demo_access demo_gates (\<lambda>_. True) ''n1'' (demo_owner 9) Build (6 * GIB_BYTES),
        LeAdmit demo_access demo_gates (\<lambda>_. True) ''n2'' (demo_owner 9) Batch (8 * GIB_BYTES)] (Some demo_ledger) = (file', rs)"
    by fastforce
  have "16 * GIB_BYTES \<le> u64_max" "ledger_inv (wb_memory_max_bytes b) (Some demo_ledger)"
    by (simp_all add: GIB_BYTES_def u64_max_def ledger_inv_def ledger_valid_def demo_ledger_def booked_def)
  from ledger_within_budget [OF b this r] show ?thesis using b r by blast
qed

text \<open>
  C33. A workload is admitted only through every gate. An admission implies that no safe-mode marker was
  present, that the supervisor's evidence said HEALTHY, that the admission state was open and HEALTHY, that a resume lease
  covered the present, that the three named the same supervisor, of this boot and alive, and that none
  of them was from the future or older than 15 seconds; that the reserved bytes of the live owners and
  the new ones fit the limit; and the ledger then holds exactly these.
\<close>

theorem admission_needs_every_gate:
  assumes "admit_reservation_at la ag alive nonce owner cls mem aggregate_max file = (file', Ok r)" "aggregate_max < u64_max"
  shows "\<exists>now st a le l. ag_safe_mode ag = Ok False \<and> ag_now ag = Ok now \<and>
    ag_supervisor ag = Evidence st \<and> ag_admission ag = Evidence a \<and> ag_lease ag = Evidence le \<and>
    st_control_state st = ''HEALTHY'' \<and> as_admission_open a \<and> as_control_state a = ''HEALTHY'' \<and>
    as_supervisor_identity a = st_supervisor_identity st \<and> le_supervisor_identity le = st_supervisor_identity st \<and>
    oi_boot_id (st_supervisor_identity st) = oi_boot_id owner \<and> alive (st_supervisor_identity st) \<and>
    st_written_at_unix_ms st \<le> now \<and> now \<le> st_written_at_unix_ms st + 15000 \<and>
    as_written_at_unix_ms a \<le> now \<and> now \<le> as_written_at_unix_ms a + 15000 \<and>
    le_issued_at_epoch_ms le \<le> now \<and> now \<le> le_expires_at_epoch_ms le \<and> now \<le> le_issued_at_epoch_ms le + 15000 \<and>
    file = Some l \<and> rv_memory_bytes r = mem \<and> 0 < mem \<and>
    sum_list (map rv_memory_bytes (filter (\<lambda>x. alive (rv_owner x)) (rl_reservations l))) + mem \<le> aggregate_max \<and>
    rl_reservations (the file') = filter (\<lambda>x. alive (rv_owner x)) (rl_reservations l) @ [r]"
  using assms(1)
proof (cases rule: admit_cases)
  case (2 l r')
  from gates_open_Ok [OF 2(3)] obtain now st a le where
    "ag_safe_mode ag = Ok False" "ag_now ag = Ok now" "ag_supervisor ag = Evidence st" "ag_admission ag = Evidence a"
    "ag_lease ag = Evidence le" "st_control_state st = ''HEALTHY''" "as_admission_open a" "as_control_state a = ''HEALTHY''"
    "as_supervisor_identity a = st_supervisor_identity st" "le_supervisor_identity le = st_supervisor_identity st"
    "oi_boot_id (st_supervisor_identity st) = oi_boot_id owner" "alive (st_supervisor_identity st)"
    "st_written_at_unix_ms st \<le> now" "now \<le> st_written_at_unix_ms st + 15000"
    "as_written_at_unix_ms a \<le> now" "now \<le> as_written_at_unix_ms a + 15000"
    "le_issued_at_epoch_ms le \<le> now" "now \<le> le_expires_at_epoch_ms le" "now \<le> le_issued_at_epoch_ms le + 15000" by blast
  moreover have "sum_list (map rv_memory_bytes (filter (\<lambda>x. alive (rv_owner x)) (rl_reservations l))) + mem \<le> aggregate_max"
    using 2(8) assms(2) by (simp add: saturating_add_def)
  moreover have "r = r'" "rv_memory_bytes r' = mem" using 2(9) unfolding 2(5) by simp_all
  ultimately show ?thesis using 2(1,4,6)
    by (intro exI [of _ now] exI [of _ st] exI [of _ a] exI [of _ le] exI [of _ l]) (intro conjI; simp)
qed simp

theorem admission_needs_every_gate_witness:
  "\<exists>file' r. admit_reservation_at demo_access demo_gates (\<lambda>_. True) ''n1'' (demo_owner 9) Build 5 10 (Some demo_ledger) =
      (file', Ok r) \<and> rv_memory_bytes r = 5"
proof -
  obtain file' r where r: "admit_reservation_at demo_access demo_gates (\<lambda>_. True) ''n1'' (demo_owner 9) Build 5 10 (Some demo_ledger) = (file', Ok r)"
    using demo_admit [of 10] by auto
  from admission_needs_every_gate [OF r] show ?thesis using r by (auto simp: u64_max_def)
qed

text \<open>
  C34. A reservation outlives every doubt about its scope. When a run ends, or is still waiting, its reservation
  is still in the ledger, as far as other processes left it there, unless the scope was never launched
  or a status query showed the very unit, with the invocation acknowledged at its start, in a terminal state.
\<close>

theorem reservation_kept_until_terminal:
  assumes "run_with rw (Ok who) (Ok memory_total) req file = (file', out)"
    and "calculate_budget memory_total 0 = Ok b"
    and "admit_reservation_at (rw_access rw) (rw_gates rw) (rw_alive rw) (rw_nonce rw) who (wq_class req)
      (wq_memory_max_bytes req) (wb_memory_max_bytes b) file = (file1, Ok r)"
    and "\<forall>f. has_id (rv_id r) f \<longrightarrow> has_id (rv_id r) (rw_others rw f)"
  shows "has_id (rv_id r) file' \<or> is_err (rw_launch rw) \<or>
    (\<exists>st code. Ok st \<in> set (rw_queries rw) \<and> ss_id st = rv_unit r \<and>
       acknowledge_start (rv_unit r) (rw_ack rw) (rw_ack_status rw) = SsAcknowledged (ss_invocation_id st) \<and>
       terminal_exit_status st = Ok (Some code))"
proof (cases "rw_launch rw")
  case (Ok u)
  note id1 = admit_has_id [OF assms(3)]
  note eq = assms(1) [unfolded run_with_def, simplified result.case result_bind.simps assms(2,3) prod.case Ok]
  show ?thesis
  proof (cases "acknowledge_start (rv_unit r) (rw_ack rw) (rw_ack_status rw)")
    case (SsUnsafeContainment e)
    then show ?thesis using eq id1 by simp
  next
    case (SsAcknowledged iv)
    obtain file2 x where x: "bind_reservation_invocation_while_locked (rw_bind rw) r iv file1 = (file2, x)" by fastforce
    have id2: "has_id (rv_id r) file2" using bind_has_id(1) [OF x id1] .
    show ?thesis
    proof (cases x)
      case (Err e)
      then show ?thesis using eq SsAcknowledged x id2 by simp
    next
      case (Ok bound)
      have bound: "rv_unit bound = rv_unit r" using bind_has_id(2) [OF x id1 Ok] by blast
      note eq2 = eq [unfolded SsAcknowledged scope_start.case x Ok prod.case result.case Let_def bound]
      show ?thesis
      proof (cases "\<exists>res. wait_for_completion (rv_unit r) (Some iv) (rw_queries rw) = Some (ScTerminal res)")
        case True
        then show ?thesis using wait_terminal SsAcknowledged by blast
      next
        case False
        then have "file' = rw_others rw file2" using eq2 by (auto split: option.splits scope_completion.splits)
        then show ?thesis using id2 assms(4) by simp
      qed
    qed
  qed
qed simp

theorem reservation_kept_until_terminal_witness:
  "\<exists>file' out (r :: reservation). run_with demo_world (Ok (demo_owner 9)) (Ok (16 * GIB_BYTES))
      \<lparr>wq_class = Build, wq_memory_max_bytes = 5, wq_command = [''make'']\<rparr> (Some demo_ledger) = (file', out) \<and>
     has_id (rv_id r) file'"
proof -
  let ?req = "\<lparr>wq_class = Build, wq_memory_max_bytes = 5, wq_command = [''make'']\<rparr>"
  obtain b where b: "calculate_budget (16 * GIB_BYTES) 0 = Ok b" "5 \<le> wb_memory_max_bytes b"
    by (simp add: calculate_budget_def Let_def GIB_BYTES_def div_ceil_def saturating_sub_def)
  obtain file1 r where r: "admit_reservation_at demo_access demo_gates (\<lambda>_. True) ''n1'' (demo_owner 9) Build 5
      (wb_memory_max_bytes b) (Some demo_ledger) = (file1, Ok r)" using demo_admit [OF b(2)] by blast
  obtain file' out where w: "run_with demo_world (Ok (demo_owner 9)) (Ok (16 * GIB_BYTES)) ?req (Some demo_ledger) = (file', out)"
    by fastforce
  have "has_id (rv_id r) file'"
    using reservation_kept_until_terminal [OF w b(1), of file1 r] r by (simp add: demo_world_def)
  with w show ?thesis by blast
qed

end
