(* ===== verification/Supervisor.thy ===== *)
theory Supervisor
  imports Workload Float_Model "HOL-Library.Product_Lexorder"
begin

text \<open>
  The pressure supervisor (\<^verbatim>\<open>crates/ramshared-cli/src/supervisor.rs\<close>): the state machine over memory
  pressure, the choice of a victim from the ledger, the durable records of what was frozen or
  terminated, and the loop that observes, acts, publishes and commits. The files of the runtime
  directory are state of the model; \<open>systemctl\<close>, the faults of reads and writes and the clocks are inputs.
\<close>

subsection \<open>The pressure state machine\<close>

datatype supervisor_state = Healthy | Guarded | Critical | Emergency

fun state_str :: "supervisor_state \<Rightarrow> string" where
  "state_str Healthy = ''HEALTHY''"
| "state_str Guarded = ''GUARDED''"
| "state_str Critical = ''CRITICAL''"
| "state_str Emergency = ''EMERGENCY''"

record pressure_sample =
  ps_memory_available_bytes :: nat
  ps_control_reserve_bytes :: nat
  ps_psi_full_avg10 :: fp
  ps_sample_delay_ms :: nat
  ps_elapsed_ms :: nat

record supervisor_decision =
  sd_state :: supervisor_state
  sd_actions :: "supervisor_action list"
  sd_healthy_samples :: nat

record supervisor =
  sv_state :: supervisor_state
  sv_guarded_psi_samples :: nat
  sv_critical_psi_samples :: nat
  sv_emergency_psi_samples :: nat
  sv_healthy_samples :: nat
  sv_emergency_kill_eligible_ms :: "nat option"
  sv_emergency_kill_sent :: bool
  sv_discardable_frozen :: bool
  sv_discardable_freeze_pending :: bool

definition supervisor_default :: supervisor where
  "supervisor_default =
     \<lparr>sv_state = Healthy, sv_guarded_psi_samples = 0, sv_critical_psi_samples = 0, sv_emergency_psi_samples = 0,
      sv_healthy_samples = 0, sv_emergency_kill_eligible_ms = None, sv_emergency_kill_sent = False,
      sv_discardable_frozen = False, sv_discardable_freeze_pending = False\<rparr>"

definition EMERGENCY_TERM_GRACE_MS :: nat where "EMERGENCY_TERM_GRACE_MS = 5000"

definition sv_streak :: "nat \<Rightarrow> bool \<Rightarrow> nat" where
  "sv_streak current condition = (if condition then saturating_add u32_max current 1 else 0)"

text \<open>\<open>>=\<close> on floats, false on NaN.\<close>

definition fp_ge :: "fp \<Rightarrow> fp \<Rightarrow> bool" where
  "fp_ge a b \<longleftrightarrow> a \<noteq> NaN \<and> b \<noteq> NaN \<and> \<not> fp_lt a b"

definition fully_healthy :: "pressure_sample \<Rightarrow> bool" where
  "fully_healthy p \<longleftrightarrow>
     ps_memory_available_bytes p \<ge> saturating_add u64_max (ps_control_reserve_bytes p) (1024 * 1024 * 1024) \<and>
     fp_lt (ps_psi_full_avg10 p) (Fin False 1) \<and> ps_sample_delay_ms p < 3000"

text \<open>The state a sample asks for, after its pressure streaks were counted.\<close>

definition requested_state :: "pressure_sample \<Rightarrow> supervisor \<Rightarrow> supervisor_state" where
  "requested_state p s =
     (if ps_memory_available_bytes p < ps_control_reserve_bytes p div 2 \<or>
         sv_emergency_psi_samples s \<ge> 5 \<or> ps_sample_delay_ms p \<ge> 3000 then Emergency
      else if ps_memory_available_bytes p < saturating_mul u64_max (ps_control_reserve_bytes p) 3 div 4 \<or>
         sv_critical_psi_samples s \<ge> 5 then Critical
      else if ps_memory_available_bytes p < ps_control_reserve_bytes p \<or> sv_guarded_psi_samples s \<ge> 3 then Guarded
      else Healthy)"

definition count_pressure :: "pressure_sample \<Rightarrow> supervisor \<Rightarrow> supervisor" where
  "count_pressure p s =
     s\<lparr>sv_guarded_psi_samples := sv_streak (sv_guarded_psi_samples s) (fp_ge (ps_psi_full_avg10 p) (Fin False 2)),
       sv_critical_psi_samples := sv_streak (sv_critical_psi_samples s) (fp_ge (ps_psi_full_avg10 p) (Fin False 5)),
       sv_emergency_psi_samples := sv_streak (sv_emergency_psi_samples s) (fp_ge (ps_psi_full_avg10 p) (Fin False 10))\<rparr>"

definition enter_state :: "pressure_sample \<Rightarrow> supervisor_state \<Rightarrow> supervisor \<Rightarrow> supervisor" where
  "enter_state p requested s =
     (let s1 =
        (if requested = Healthy then
           let k = sv_streak (sv_healthy_samples s) (fully_healthy p)
           in s\<lparr>sv_healthy_samples := k, sv_state := (if sv_state s = Healthy \<or> k \<ge> 60 then Healthy else Guarded)\<rparr>
         else s\<lparr>sv_healthy_samples := 0, sv_state := requested\<rparr>)
      in if requested \<noteq> Emergency then s1\<lparr>sv_emergency_kill_eligible_ms := None, sv_emergency_kill_sent := False\<rparr> else s1)"

definition state_actions :: "pressure_sample \<Rightarrow> supervisor \<Rightarrow> supervisor_action list" where
  "state_actions p s =
     (if (sv_discardable_frozen s \<or> sv_discardable_freeze_pending s) \<and> sv_state s \<noteq> Critical then [ThawDiscardable] else []) @
     (case sv_state s of
        Healthy \<Rightarrow> []
      | Guarded \<Rightarrow> [CloseAdmission]
      | Critical \<Rightarrow> [CloseAdmission, ReduceVramCache] @
          (if \<not> sv_discardable_frozen s then [FreezeDiscardable] else []) @ [RequestReclaim]
      | Emergency \<Rightarrow> [CloseAdmission, ReduceVramCache, RequestReclaim] @
          (case sv_emergency_kill_eligible_ms s of
             None \<Rightarrow> [TerminateDiscardable]
           | Some eligible \<Rightarrow>
               if ps_elapsed_ms p \<ge> eligible \<and> \<not> sv_emergency_kill_sent s then [KillDiscardable] else []))"

definition sv_observe :: "pressure_sample \<Rightarrow> supervisor \<Rightarrow> supervisor \<times> supervisor_decision" where
  "sv_observe p s =
     (let s1 = count_pressure p s;
          s2 = enter_state p (requested_state p s1) s1
      in (s2, \<lparr>sd_state = sv_state s2, sd_actions = state_actions p s2, sd_healthy_samples = sv_healthy_samples s2\<rparr>))"

fun commit_result :: "nat \<Rightarrow> supervisor_action_result \<Rightarrow> supervisor \<Rightarrow> supervisor" where
  "commit_result elapsed r s =
     (if ar_status r \<noteq> Succeeded then s
      else case ar_action r of
          FreezeDiscardable \<Rightarrow> s\<lparr>sv_discardable_frozen := True, sv_discardable_freeze_pending := False\<rparr>
        | ThawDiscardable \<Rightarrow> s\<lparr>sv_discardable_frozen := False, sv_discardable_freeze_pending := False\<rparr>
        | TerminateDiscardable \<Rightarrow>
            s\<lparr>sv_emergency_kill_eligible_ms := Some (saturating_add u64_max elapsed EMERGENCY_TERM_GRACE_MS)\<rparr>
        | KillDiscardable \<Rightarrow> s\<lparr>sv_emergency_kill_sent := True\<rparr>
        | _ \<Rightarrow> s)"

definition commit_action_results :: "supervisor_action_result list \<Rightarrow> nat \<Rightarrow> supervisor \<Rightarrow> supervisor" where
  "commit_action_results rs elapsed s = fold (commit_result elapsed) rs s"

subsection \<open>Error texts\<close>

text \<open>
  A text as its Unicode scalar values. An error text that does not fit is cut at a character boundary
  and marked; the decoder accepts a text only if encoding it again changes nothing.
\<close>

definition ACTION_ERROR_MAX_BYTES :: nat where "ACTION_ERROR_MAX_BYTES = 1024"

definition ACTION_ERROR_TRUNCATION_MARKER :: "nat list" where
  "ACTION_ERROR_TRUNCATION_MARKER = map of_char '' [truncated]''"

definition len_utf8 :: "nat \<Rightarrow> nat" where
  "len_utf8 c = (if c < 128 then 1 else if c < 2048 then 2 else if c < 65536 then 3 else 4)"

definition is_control :: "nat \<Rightarrow> bool" where
  "is_control c \<longleftrightarrow> c < 32 \<or> 127 \<le> c \<and> c < 160"

definition text_bytes :: "nat list \<Rightarrow> nat" where
  "text_bytes t = sum_list (map len_utf8 t)"

fun sanitize_loop :: "nat \<Rightarrow> nat list \<Rightarrow> nat list \<Rightarrow> nat list" where
  "sanitize_loop budget acc [] = acc"
| "sanitize_loop budget acc (c # cs) =
     (let c' = if is_control c then 32 else c
      in if text_bytes acc + len_utf8 c' > budget then acc @ ACTION_ERROR_TRUNCATION_MARKER
         else sanitize_loop budget (acc @ [c']) cs)"

definition action_error_new :: "nat list \<Rightarrow> nat list" where
  "action_error_new raw = sanitize_loop (ACTION_ERROR_MAX_BYTES - text_bytes ACTION_ERROR_TRUNCATION_MARKER) [] raw"

definition is_canonical :: "nat list \<Rightarrow> bool" where
  "is_canonical t \<longleftrightarrow> text_bytes t \<le> ACTION_ERROR_MAX_BYTES \<and> \<not> list_ex is_control t \<and> action_error_new t = t"

subsection \<open>Victims and durable records\<close>

definition discard_priority :: "string \<Rightarrow> nat option" where
  "discard_priority c =
     (if c = ''batch'' then Some 0 else if c = ''browser-test'' then Some 1 else if c = ''build'' then Some 2
      else if c = ''interactive'' then Some 3 else None)"

definition valid_scope_unit :: "string \<Rightarrow> bool" where
  "valid_scope_unit u \<longleftrightarrow>
     strip_prefix ''ramshared-'' u \<noteq> None \<and> strip_prefix (rev ''.scope'') (rev u) \<noteq> None \<and>
     list_all (\<lambda>c. is_ascii_alphanumeric c \<or> c \<in> set ''._-@'') u"

record victim_identity =
  vi_unit :: string
  vi_invocation_id :: string

text \<open>
  The candidates are sorted by priority, larger memory first, then age; the ordinals of a ledger are
  distinct, so that the rest of the source's key never decides.
\<close>

definition victim_candidate :: "reservation \<Rightarrow> ((nat \<times> nat \<times> nat) \<times> victim_identity) option" where
  "victim_candidate r =
     (case discard_priority (class_str (rv_class r)) of
        None \<Rightarrow> None
      | Some priority \<Rightarrow>
          (case rv_invocation_id r of
             None \<Rightarrow> None
           | Some iv \<Rightarrow>
               if valid_systemd_invocation_id iv \<and> valid_scope_unit (rv_unit r)
               then Some ((priority, u64_max - rv_memory_bytes r, rv_issued_ordinal r), \<lparr>vi_unit = rv_unit r, vi_invocation_id = iv\<rparr>)
               else None))"

definition select_victim :: "(reservation list, string) result \<Rightarrow> (victim_identity option, string) result" where
  "select_victim ledger =
     (case ledger of
        Err e \<Rightarrow> Err e
      | Ok rs \<Rightarrow> (case sort_key fst (filter_map victim_candidate rs) of [] \<Rightarrow> Ok None | c # _ \<Rightarrow> Ok (Some (snd c))))"

fun required_victim :: "(victim_identity option, string) result \<Rightarrow> string \<Rightarrow> (victim_identity, string) result" where
  "required_victim (Ok (Some v)) missing = Ok v"
| "required_victim (Ok None) missing = Err missing"
| "required_victim (Err e) missing = Err e"

datatype frozen_phase = FpPending | FpApplied

record frozen_record =
  fr_schema_version :: nat
  fr_phase :: frozen_phase
  fr_unit :: string
  fr_invocation_id :: string
  fr_updated_at_unix_ms :: nat

datatype emergency_phase = EpPendingTerm | EpTermed | EpKilled

record emergency_record =
  er_schema_version :: nat
  er_phase :: emergency_phase
  er_unit :: string
  er_invocation_id :: string
  er_term_succeeded_at_unix_ms :: "nat option"
  er_updated_at_unix_ms :: nat

definition validate_record_victim :: "string \<Rightarrow> string \<Rightarrow> (victim_identity, string) result" where
  "validate_record_victim u iv =
     (if \<not> valid_scope_unit u \<or> \<not> valid_systemd_invocation_id iv then Err ''durable scope target identity is invalid''
      else Ok \<lparr>vi_unit = u, vi_invocation_id = iv\<rparr>)"

subsection \<open>The world of the supervisor\<close>

datatype unit_command = UcFreeze | UcThaw | UcTerm | UcKill

fun command_args :: "unit_command \<Rightarrow> string \<Rightarrow> string list" where
  "command_args UcFreeze u = [''freeze'', u]"
| "command_args UcThaw u = [''thaw'', u]"
| "command_args UcTerm u = [''kill'', ''--kill-whom=all'', ''--signal=TERM'', u]"
| "command_args UcKill u = [''kill'', ''--kill-whom=all'', ''--signal=KILL'', u]"

text \<open>A command that \<open>systemctl\<close> ran, with the time of its tick and whether it reported success.\<close>

record command_entry =
  ce_command :: unit_command
  ce_victim :: victim_identity
  ce_at_unix_ms :: nat
  ce_ok :: bool

record 'e sup_world =
  wd_frozen :: "frozen_record option"
  wd_emergency :: "emergency_record option"
  wd_admission :: "admission_state option"
  wd_log :: "command_entry list"
  wd_ext :: 'e

record 'e sup_env =
  xe_read_fault :: "'e \<Rightarrow> string \<Rightarrow> 'e \<times> string option"
  xe_write :: "'e \<Rightarrow> string \<Rightarrow> 'e \<times> write_fate"
  xe_remove :: "'e \<Rightarrow> string \<Rightarrow> 'e \<times> write_fate"
  xe_identity :: "'e \<Rightarrow> string \<Rightarrow> 'e \<times> (string, string) result"
  xe_systemctl :: "'e \<Rightarrow> string list \<Rightarrow> 'e \<times> (unit, string) result"
  xe_ledger :: "'e \<Rightarrow> 'e \<times> (reservation list, string) result"
  xe_publish_state :: "'e \<Rightarrow> supervisor_decision \<Rightarrow> supervisor_action_result list \<Rightarrow> 'e \<times> (unit, string) result"

definition read_frozen_target ::
  "'e sup_env \<Rightarrow> 'e sup_world \<Rightarrow> 'e sup_world \<times> ((frozen_phase \<times> victim_identity) option, string) result" where
  "read_frozen_target env w =
     (case xe_read_fault env (wd_ext w) ''frozen-scope.json'' of
        (x, Some e) \<Rightarrow> (w\<lparr>wd_ext := x\<rparr>, Err e)
      | (x, None) \<Rightarrow>
          (w\<lparr>wd_ext := x\<rparr>,
           case wd_frozen w of
             None \<Rightarrow> Ok None
           | Some r \<Rightarrow>
               if fr_schema_version r \<noteq> 3 \<or> fr_updated_at_unix_ms r = 0
               then Err ''frozen scope evidence has an unsupported schema or timestamp''
               else (case validate_record_victim (fr_unit r) (fr_invocation_id r) of
                       Err e \<Rightarrow> Err e
                     | Ok v \<Rightarrow> Ok (Some (fr_phase r, v)))))"

definition write_frozen_target ::
  "'e sup_env \<Rightarrow> frozen_phase \<Rightarrow> victim_identity \<Rightarrow> nat \<Rightarrow> 'e sup_world \<Rightarrow> 'e sup_world \<times> (unit, string) result" where
  "write_frozen_target env phase v now w =
     (let (x, fate) = xe_write env (wd_ext w) ''frozen-scope.json'';
          (f, r) = store_file fate \<lparr>fr_schema_version = 3, fr_phase = phase, fr_unit = vi_unit v,
                     fr_invocation_id = vi_invocation_id v, fr_updated_at_unix_ms = now\<rparr> (wd_frozen w)
      in (w\<lparr>wd_ext := x, wd_frozen := f\<rparr>, r))"

definition remove_frozen_target :: "'e sup_env \<Rightarrow> 'e sup_world \<Rightarrow> 'e sup_world \<times> (unit, string) result" where
  "remove_frozen_target env w =
     (case xe_remove env (wd_ext w) ''frozen-scope.json'' of
        (x, WfDone) \<Rightarrow> (w\<lparr>wd_ext := x, wd_frozen := None\<rparr>, Ok ())
      | (x, WfRefused e) \<Rightarrow> (w\<lparr>wd_ext := x\<rparr>, Err e)
      | (x, WfUnconfirmed e) \<Rightarrow> (w\<lparr>wd_ext := x, wd_frozen := None\<rparr>, Err e))"

definition read_emergency_target ::
  "'e sup_env \<Rightarrow> 'e sup_world \<Rightarrow> 'e sup_world \<times> (emergency_record option, string) result" where
  "read_emergency_target env w =
     (case xe_read_fault env (wd_ext w) ''emergency-target.json'' of
        (x, Some e) \<Rightarrow> (w\<lparr>wd_ext := x\<rparr>, Err e)
      | (x, None) \<Rightarrow>
          (w\<lparr>wd_ext := x\<rparr>,
           case wd_emergency w of
             None \<Rightarrow> Ok None
           | Some r \<Rightarrow>
               if er_schema_version r \<noteq> 1 \<or> er_updated_at_unix_ms r = 0 \<or>
                  is_err (validate_record_victim (er_unit r) (er_invocation_id r)) \<or>
                  er_phase r = EpPendingTerm \<and> er_term_succeeded_at_unix_ms r \<noteq> None \<or>
                  er_phase r \<in> {EpTermed, EpKilled} \<and> er_term_succeeded_at_unix_ms r = None
               then Err ''emergency target evidence is invalid'' else Ok (Some r)))"

definition write_emergency_target ::
  "'e sup_env \<Rightarrow> emergency_phase \<Rightarrow> victim_identity \<Rightarrow> nat option \<Rightarrow> nat \<Rightarrow> 'e sup_world \<Rightarrow>
   'e sup_world \<times> (unit, string) result" where
  "write_emergency_target env phase v term_at now w =
     (let (x, fate) = xe_write env (wd_ext w) ''emergency-target.json'';
          (f, r) = store_file fate \<lparr>er_schema_version = 1, er_phase = phase, er_unit = vi_unit v,
                     er_invocation_id = vi_invocation_id v, er_term_succeeded_at_unix_ms = term_at,
                     er_updated_at_unix_ms = now\<rparr> (wd_emergency w)
      in (w\<lparr>wd_ext := x, wd_emergency := f\<rparr>, r))"

definition recover_action_state ::
  "'e sup_env \<Rightarrow> nat \<Rightarrow> nat \<Rightarrow> supervisor \<times> 'e sup_world \<Rightarrow> (supervisor \<times> 'e sup_world) \<times> (unit, string) result" where
  "recover_action_state env now elapsed sw =
     (let (s, w) = sw
      in case read_frozen_target env w of
           (w1, Err e) \<Rightarrow> ((s, w1), Err e)
         | (w1, Ok fz) \<Rightarrow>
             let s1 = s\<lparr>sv_discardable_frozen := (case fz of Some (FpApplied, _) \<Rightarrow> True | _ \<Rightarrow> False),
                        sv_discardable_freeze_pending := (case fz of Some (FpPending, _) \<Rightarrow> True | _ \<Rightarrow> False)\<rparr>
             in case read_emergency_target env w1 of
                  (w2, Err e) \<Rightarrow> ((s1, w2), Err e)
                | (w2, Ok None) \<Rightarrow>
                    ((s1\<lparr>sv_emergency_kill_eligible_ms := None, sv_emergency_kill_sent := False\<rparr>, w2), Ok ())
                | (w2, Ok (Some r)) \<Rightarrow>
                    (case er_phase r of
                       EpPendingTerm \<Rightarrow>
                         ((s1\<lparr>sv_emergency_kill_eligible_ms := None, sv_emergency_kill_sent := False\<rparr>, w2), Ok ())
                     | EpKilled \<Rightarrow>
                         ((s1\<lparr>sv_emergency_kill_eligible_ms := Some elapsed, sv_emergency_kill_sent := True\<rparr>, w2), Ok ())
                     | EpTermed \<Rightarrow>
                         (case er_term_succeeded_at_unix_ms r of
                            None \<Rightarrow> ((s1, w2), Err ''durable TERM record omitted its successful time'')
                          | Some term_at \<Rightarrow>
                              if term_at > now then ((s1, w2), Err ''durable TERM record is from the future'')
                              else ((s1\<lparr>sv_emergency_kill_eligible_ms := Some (saturating_add u64_max elapsed
                                           (saturating_sub EMERGENCY_TERM_GRACE_MS (saturating_sub now term_at))),
                                        sv_emergency_kill_sent := False\<rparr>, w2), Ok ()))))"

subsection \<open>Actions\<close>

definition run_identity_bound_action ::
  "'e sup_env \<Rightarrow> unit_command \<Rightarrow> victim_identity \<Rightarrow> nat \<Rightarrow> 'e sup_world \<Rightarrow> 'e sup_world \<times> (unit, string) result" where
  "run_identity_bound_action env cmd v now w =
     (case xe_identity env (wd_ext w) (vi_unit v) of
        (x, Err e) \<Rightarrow> (w\<lparr>wd_ext := x\<rparr>, Err e)
      | (x, Ok current) \<Rightarrow>
          if current \<noteq> vi_invocation_id v
          then (w\<lparr>wd_ext := x\<rparr>, Err ''managed scope InvocationID changed; action refused'')
          else let (x', r) = xe_systemctl env x (command_args cmd (vi_unit v))
               in (w\<lparr>wd_ext := x', wd_log := wd_log w @
                     [\<lparr>ce_command = cmd, ce_victim = v, ce_at_unix_ms = now, ce_ok = is_ok r\<rparr>]\<rparr>, r))"

definition execute_freeze ::
  "'e sup_env \<Rightarrow> nat \<Rightarrow> (victim_identity option, string) result \<Rightarrow> 'e sup_world \<Rightarrow> 'e sup_world \<times> (unit, string) result" where
  "execute_freeze env now selected w =
     (case read_frozen_target env w of
        (w1, Err e) \<Rightarrow> (w1, Err e)
      | (w1, Ok existing) \<Rightarrow>
          if (case existing of Some (FpApplied, _) \<Rightarrow> True | _ \<Rightarrow> False) then (w1, Ok ())
          else (case (case existing of Some (_, v) \<Rightarrow> Ok v | None \<Rightarrow> required_victim selected ''no_discardable_scope'') of
                  Err e \<Rightarrow> (w1, Err e)
                | Ok v \<Rightarrow>
                    (case write_frozen_target env FpPending v now w1 of
                       (w2, Err e) \<Rightarrow> (w2, Err e)
                     | (w2, Ok _) \<Rightarrow>
                         (case run_identity_bound_action env UcFreeze v now w2 of
                            (w3, Err e) \<Rightarrow> (w3, Err e)
                          | (w3, Ok _) \<Rightarrow> write_frozen_target env FpApplied v now w3))))"

definition execute_thaw :: "'e sup_env \<Rightarrow> nat \<Rightarrow> 'e sup_world \<Rightarrow> 'e sup_world \<times> (unit, string) result" where
  "execute_thaw env now w =
     (case read_frozen_target env w of
        (w1, Err e) \<Rightarrow> (w1, Err e)
      | (w1, Ok None) \<Rightarrow> (w1, Err ''no_frozen_scope'')
      | (w1, Ok (Some (_, v))) \<Rightarrow>
          (case run_identity_bound_action env UcThaw v now w1 of
             (w2, Err e) \<Rightarrow> (w2, Err e)
           | (w2, Ok _) \<Rightarrow> remove_frozen_target env w2))"

definition execute_term ::
  "'e sup_env \<Rightarrow> nat \<Rightarrow> (victim_identity option, string) result \<Rightarrow> 'e sup_world \<Rightarrow> 'e sup_world \<times> (unit, string) result" where
  "execute_term env now selected w =
     (case read_emergency_target env w of
        (w1, Err e) \<Rightarrow> (w1, Err e)
      | (w1, Ok existing) \<Rightarrow>
          if (case existing of Some r \<Rightarrow> er_phase r = EpTermed | None \<Rightarrow> False) then (w1, Ok ())
          else if (case existing of Some r \<Rightarrow> er_phase r = EpKilled | None \<Rightarrow> False)
          then (w1, Err ''emergency target is already durably killed'')
          else (case (case existing of
                        Some r \<Rightarrow> validate_record_victim (er_unit r) (er_invocation_id r)
                      | None \<Rightarrow> required_victim selected ''no_discardable_scope'') of
                  Err e \<Rightarrow> (w1, Err e)
                | Ok v \<Rightarrow>
                    (case write_emergency_target env EpPendingTerm v None now w1 of
                       (w2, Err e) \<Rightarrow> (w2, Err e)
                     | (w2, Ok _) \<Rightarrow>
                         (case run_identity_bound_action env UcTerm v now w2 of
                            (w3, Err e) \<Rightarrow> (w3, Err e)
                          | (w3, Ok _) \<Rightarrow> write_emergency_target env EpTermed v (Some now) now w3))))"

definition execute_kill :: "'e sup_env \<Rightarrow> nat \<Rightarrow> 'e sup_world \<Rightarrow> 'e sup_world \<times> (unit, string) result" where
  "execute_kill env now w =
     (case read_emergency_target env w of
        (w1, Err e) \<Rightarrow> (w1, Err e)
      | (w1, Ok None) \<Rightarrow> (w1, Err ''no successfully terminated emergency target'')
      | (w1, Ok (Some r)) \<Rightarrow>
          if er_phase r = EpKilled then (w1, Ok ())
          else if er_phase r \<noteq> EpTermed then (w1, Err ''emergency target has no successful TERM outcome'')
          else (case er_term_succeeded_at_unix_ms r of
                  None \<Rightarrow> (w1, Err ''emergency target TERM timestamp is unavailable'')
                | Some term_at \<Rightarrow>
                    if now < saturating_add u64_max term_at EMERGENCY_TERM_GRACE_MS
                    then (w1, Err ''emergency target TERM grace has not elapsed'')
                    else (case validate_record_victim (er_unit r) (er_invocation_id r) of
                            Err e \<Rightarrow> (w1, Err e)
                          | Ok v \<Rightarrow>
                              (case run_identity_bound_action env UcKill v now w1 of
                                 (w2, Err e) \<Rightarrow> (w2, Err e)
                               | (w2, Ok _) \<Rightarrow> write_emergency_target env EpKilled v (Some term_at) now w2))))"

definition write_control_request ::
  "'e sup_env \<Rightarrow> string \<Rightarrow> string option \<Rightarrow> 'e sup_world \<Rightarrow> 'e sup_world \<times> (unit, string) result" where
  "write_control_request env name daemon w =
     (case daemon of
        None \<Rightarrow> (w, Err ''daemon_instance_unavailable'')
      | Some _ \<Rightarrow>
          (case xe_write env (wd_ext w) name of
             (x, WfDone) \<Rightarrow> (w\<lparr>wd_ext := x\<rparr>, Ok ())
           | (x, WfRefused e) \<Rightarrow> (w\<lparr>wd_ext := x\<rparr>, Err e)
           | (x, WfUnconfirmed e) \<Rightarrow> (w\<lparr>wd_ext := x\<rparr>, Err e)))"

definition publish_admission ::
  "'e sup_env \<Rightarrow> owner_identity \<Rightarrow> string \<Rightarrow> nat \<Rightarrow> 'e sup_world \<Rightarrow> 'e sup_world \<times> (unit, string) result" where
  "publish_admission env who control_state now w =
     (let (x, fate) = xe_write env (wd_ext w) ''admission-state.json'';
          (f, r) = store_file fate (published_admission_state who control_state now) (wd_admission w)
      in (w\<lparr>wd_ext := x, wd_admission := f\<rparr>, r))"

text \<open>The inputs of one tick besides its sample.\<close>

record tick_inputs =
  ti_now_unix_ms :: nat
  ti_daemon_instance :: "string option"
  ti_identity :: owner_identity

definition from_result :: "supervisor_action \<Rightarrow> (unit, string) result \<Rightarrow> supervisor_action_result" where
  "from_result a r =
     (case r of Ok _ \<Rightarrow> \<lparr>ar_action = a, ar_status = Succeeded, ar_error = None\<rparr>
      | Err e \<Rightarrow> \<lparr>ar_action = a, ar_status = Failed, ar_error = Some (map char_of (action_error_new (map of_char e)))\<rparr>)"

fun execute_action ::
  "'e sup_env \<Rightarrow> tick_inputs \<Rightarrow> supervisor_state \<Rightarrow> (victim_identity option, string) result \<Rightarrow> supervisor_action \<Rightarrow>
   'e sup_world \<Rightarrow> 'e sup_world \<times> (unit, string) result" where
  "execute_action env ti st victim CloseAdmission w =
     (if st = Healthy then (w, Err ''CloseAdmission is invalid in a healthy decision'')
      else publish_admission env (ti_identity ti) (state_str st) (ti_now_unix_ms ti) w)"
| "execute_action env ti st victim ReduceVramCache w =
     write_control_request env ''cache-target.json'' (ti_daemon_instance ti) w"
| "execute_action env ti st victim RequestReclaim w =
     write_control_request env ''reclaim-request.json'' (ti_daemon_instance ti) w"
| "execute_action env ti st victim FreezeDiscardable w = execute_freeze env (ti_now_unix_ms ti) victim w"
| "execute_action env ti st victim ThawDiscardable w = execute_thaw env (ti_now_unix_ms ti) w"
| "execute_action env ti st victim TerminateDiscardable w = execute_term env (ti_now_unix_ms ti) victim w"
| "execute_action env ti st victim KillDiscardable w = execute_kill env (ti_now_unix_ms ti) w"

fun execute_list ::
  "'e sup_env \<Rightarrow> tick_inputs \<Rightarrow> supervisor_state \<Rightarrow> (victim_identity option, string) result \<Rightarrow> supervisor_action list \<Rightarrow>
   'e sup_world \<Rightarrow> 'e sup_world \<times> supervisor_action_result list" where
  "execute_list env ti st victim [] w = (w, [])"
| "execute_list env ti st victim (a # as) w =
     (let (w1, r) = execute_action env ti st victim a w; (w2, rs) = execute_list env ti st victim as w1
      in (w2, from_result a r # rs))"

definition execute_actions_with ::
  "'e sup_env \<Rightarrow> tick_inputs \<Rightarrow> supervisor_decision \<Rightarrow> 'e sup_world \<Rightarrow> 'e sup_world \<times> supervisor_action_result list" where
  "execute_actions_with env ti d w =
     (let (x, ledger) = xe_ledger env (wd_ext w)
      in execute_list env ti (sd_state d) (select_victim ledger) (sd_actions d) (w\<lparr>wd_ext := x\<rparr>))"

definition apply_decision_with ::
  "'e sup_env \<Rightarrow> tick_inputs \<Rightarrow> supervisor_decision \<Rightarrow> 'e sup_world \<Rightarrow>
   'e sup_world \<times> supervisor_action_result list \<times> (unit, string) result" where
  "apply_decision_with env ti d w =
     (let (w1, rs) = execute_actions_with env ti d w;
          (x, pub) = xe_publish_state env (wd_ext w1) d rs;
          w2 = w1\<lparr>wd_ext := x\<rparr>
      in if sd_state d = Healthy then
           (case pub of
              Err e \<Rightarrow> (w2, rs, Err e)
            | Ok _ \<Rightarrow>
                let (w3, r) = publish_admission env (ti_identity ti) (state_str (sd_state d)) (ti_now_unix_ms ti) w2
                in (w3, rs, r))
         else
           (case pub of
              Err e \<Rightarrow>
                (w2, rs, Err (''pressure actions ran but their definitive state publication failed: '' @ e))
            | Ok _ \<Rightarrow>
                (case find (\<lambda>r. ar_action r = CloseAdmission \<and> ar_status r = Failed) rs of
                   None \<Rightarrow> (w2, rs, Ok ())
                 | Some r \<Rightarrow>
                     (w2, rs, Err (''admission close failed after pressure actions were recorded: '' @
                        unwrap_or (ar_error r) ''canonical admission close failed without an error detail'')))))"

definition supervise_tick ::
  "'e sup_env \<Rightarrow> pressure_sample \<Rightarrow> tick_inputs \<Rightarrow> supervisor \<times> 'e sup_world \<Rightarrow>
   (supervisor \<times> 'e sup_world) \<times> (unit, string) result" where
  "supervise_tick env p ti sw =
     (case recover_action_state env (ti_now_unix_ms ti) (ps_elapsed_ms p) sw of
        (sw1, Err e) \<Rightarrow> (sw1, Err e)
      | ((s1, w1), Ok _) \<Rightarrow>
          let (s2, d) = sv_observe p s1;
              (w2, rs, r) = apply_decision_with env ti d w1
          in ((commit_action_results rs (ps_elapsed_ms p) s2, w2), r))"

text \<open>The service in use: ticks, and restarts with a fresh supervisor, as after every error.\<close>

datatype sup_event = SeTick pressure_sample tick_inputs | SeRestart

fun supervise_run :: "'e sup_env \<Rightarrow> sup_event list \<Rightarrow> supervisor \<times> 'e sup_world \<Rightarrow> supervisor \<times> 'e sup_world" where
  "supervise_run env [] sw = sw"
| "supervise_run env (SeRestart # evs) sw = supervise_run env evs (supervisor_default, snd sw)"
| "supervise_run env (SeTick p ti # evs) sw =
     (let (sw', r) = supervise_tick env p ti sw
      in supervise_run env evs (if is_ok r then sw' else (supervisor_default, snd sw')))"

subsection \<open>What a tick does to the world\<close>

text \<open>
  The commands of an action. Freezes and thaws leave the emergency record alone; a TERM that
  succeeded is in the log before the record says so.
\<close>

definition entry_is :: "unit_command \<Rightarrow> victim_identity \<Rightarrow> nat \<Rightarrow> command_entry \<Rightarrow> bool" where
  "entry_is cmd v t e \<longleftrightarrow> ce_command e = cmd \<and> ce_victim e = v \<and> ce_at_unix_ms e = t \<and> ce_ok e"

definition record_victim :: "emergency_record \<Rightarrow> victim_identity" where
  "record_victim r = \<lparr>vi_unit = er_unit r, vi_invocation_id = er_invocation_id r\<rparr>"

definition term_backed :: "'e sup_world \<Rightarrow> bool" where
  "term_backed w \<longleftrightarrow> (\<forall>r. wd_emergency w = Some r \<longrightarrow> er_phase r \<noteq> EpPendingTerm \<longrightarrow>
     (\<exists>t. er_term_succeeded_at_unix_ms r = Some t \<and> (\<exists>e \<in> set (wd_log w). entry_is UcTerm (record_victim r) t e)))"

definition kills_graced :: "command_entry list \<Rightarrow> bool" where
  "kills_graced es \<longleftrightarrow> (\<forall>pre e post. es = pre @ e # post \<longrightarrow> ce_command e = UcKill \<longrightarrow>
     (\<exists>t. min (t + EMERGENCY_TERM_GRACE_MS) u64_max \<le> ce_at_unix_ms e \<and>
        (\<exists>e' \<in> set pre. entry_is UcTerm (ce_victim e) t e')))"

definition sup_inv :: "'e sup_world \<Rightarrow> bool" where
  "sup_inv w \<longleftrightarrow> term_backed w \<and> kills_graced (wd_log w)"

text \<open>A step that keeps the emergency record and issues no TERM or KILL.\<close>

definition calm :: "'e sup_world \<Rightarrow> 'e sup_world \<Rightarrow> bool" where
  "calm w w' \<longleftrightarrow> wd_emergency w' = wd_emergency w \<and>
     (\<exists>new. wd_log w' = wd_log w @ new \<and> (\<forall>e \<in> set new. ce_command e \<in> {UcFreeze, UcThaw}))"

lemma calm_refl [simp]: "calm w w"
  by (simp add: calm_def)

lemma calm_trans: "calm w w' \<Longrightarrow> calm w' w'' \<Longrightarrow> calm w w''"
  unfolding calm_def by auto

lemma kills_graced_snoc:
  "kills_graced (es @ [e]) \<longleftrightarrow> kills_graced es \<and> (ce_command e = UcKill \<longrightarrow>
     (\<exists>t. min (t + EMERGENCY_TERM_GRACE_MS) u64_max \<le> ce_at_unix_ms e \<and>
        (\<exists>e' \<in> set es. entry_is UcTerm (ce_victim e) t e')))"
proof -
  have "(es @ [e] = pre @ x # post) \<longleftrightarrow> (post = [] \<and> pre = es \<and> x = e) \<or> (\<exists>p. post = p @ [e] \<and> es = pre @ x # p)" for pre x post
    by (cases post rule: rev_cases) auto
  then show ?thesis unfolding kills_graced_def by (simp only:) blast
qed

lemma kills_graced_calm:
  "kills_graced es \<Longrightarrow> \<forall>e \<in> set new. ce_command e \<in> {UcFreeze, UcThaw} \<Longrightarrow> kills_graced (es @ new)"
proof (induction new rule: rev_induct)
  case (snoc e new)
  then have "kills_graced (es @ new)" "ce_command e \<noteq> UcKill" by auto
  then have "kills_graced ((es @ new) @ [e])" by (subst kills_graced_snoc) simp
  then show ?case by simp
qed simp

lemma calm_inv:
  assumes "calm w w'" "sup_inv w"
  shows "sup_inv w'"
proof -
  obtain new where n: "wd_emergency w' = wd_emergency w" "wd_log w' = wd_log w @ new" "\<forall>e \<in> set new. ce_command e \<in> {UcFreeze, UcThaw}"
    using assms(1) by (auto simp: calm_def)
  have "term_backed w'" using assms(2) unfolding sup_inv_def term_backed_def n(1,2) set_append by blast
  then show ?thesis using assms(2) kills_graced_calm [OF _ n(3)] n(2) by (simp add: sup_inv_def)
qed

lemma calm_ext [simp]: "calm w (w\<lparr>wd_ext := x\<rparr>)" "calm w (w\<lparr>wd_ext := x, wd_frozen := f\<rparr>)" "calm w (w\<lparr>wd_ext := x, wd_admission := a\<rparr>)"
  by (simp_all add: calm_def)

lemma read_world:
  "read_frozen_target env w = (w', r) \<Longrightarrow> \<exists>x. w' = w\<lparr>wd_ext := x\<rparr>"
  "read_emergency_target env w = (w', r') \<Longrightarrow> \<exists>x. w' = w\<lparr>wd_ext := x\<rparr>"
  by (auto simp: read_frozen_target_def read_emergency_target_def split: prod.splits option.splits)

lemma read_emergency_record: "read_emergency_target env w = (w', Ok a) \<Longrightarrow> a = wd_emergency w"
  by (auto simp: read_emergency_target_def split: prod.splits option.splits if_splits)

lemma action_world:
  assumes "run_identity_bound_action env cmd v now w = (w', r)"
  shows "(\<exists>x. w' = w\<lparr>wd_ext := x\<rparr> \<and> is_err r) \<or>
    (\<exists>x. w' = w\<lparr>wd_ext := x, wd_log := wd_log w @ [\<lparr>ce_command = cmd, ce_victim = v, ce_at_unix_ms = now, ce_ok = is_ok r\<rparr>]\<rparr>)"
  using assms by (auto simp: run_identity_bound_action_def Let_def split: prod.splits result.splits if_splits)

lemma calm_action:
  "run_identity_bound_action env cmd v now w = (w', r) \<Longrightarrow> cmd \<in> {UcFreeze, UcThaw} \<Longrightarrow> calm w w'"
  using action_world [of env cmd v now w w' r] by (auto simp: calm_def)

lemma calm_reads:
  "read_frozen_target env w = (w', r) \<Longrightarrow> calm w w'" "read_emergency_target env w = (w', r') \<Longrightarrow> calm w w'"
  "write_frozen_target env ph v now w = (w', u) \<Longrightarrow> calm w w'" "publish_admission env who cs now w = (w', u) \<Longrightarrow> calm w w'"
  "write_control_request env name d w = (w', u) \<Longrightarrow> calm w w'" "remove_frozen_target env w = (w', u) \<Longrightarrow> calm w w'"
  by (auto simp: read_frozen_target_def read_emergency_target_def write_frozen_target_def publish_admission_def
      write_control_request_def remove_frozen_target_def calm_def Let_def
      split: prod.splits option.splits write_fate.splits)

lemma calm_freeze: "execute_freeze env now selected w = (w', r) \<Longrightarrow> calm w w'"
proof -
  assume ex: "execute_freeze env now selected w = (w', r)"
  obtain w1 a where w1: "read_frozen_target env w = (w1, a)" by fastforce
  note c1 = calm_reads(1) [OF w1]
  consider "w' = w1" | v w2 u where "write_frozen_target env FpPending v now w1 = (w2, u)" "w' = w2"
    | v w2 u w3 u' where "write_frozen_target env FpPending v now w1 = (w2, u)"
      "run_identity_bound_action env UcFreeze v now w2 = (w3, u')"
      "w' = w3 \<or> (\<exists>r. write_frozen_target env FpApplied v now w3 = (w', r))"
    using ex w1 unfolding execute_freeze_def by (auto split: prod.splits result.splits option.splits if_splits)
  then show ?thesis
  proof cases
    case (3 v w2 u w3 u')
    then have "calm w1 w2" "calm w2 w3" "calm w3 w'" using calm_reads(3) calm_action [OF 3(2)] by auto
    then show ?thesis using c1 calm_trans by blast
  qed (use c1 calm_reads(3) calm_trans in blast)+
qed

lemma calm_thaw: "execute_thaw env now w = (w', r) \<Longrightarrow> calm w w'"
proof -
  assume ex: "execute_thaw env now w = (w', r)"
  obtain w1 a where w1: "read_frozen_target env w = (w1, a)" by fastforce
  note c1 = calm_reads(1) [OF w1]
  consider "w' = w1" | v w2 u where "run_identity_bound_action env UcThaw v now w1 = (w2, u)"
      "w' = w2 \<or> (\<exists>r. remove_frozen_target env w2 = (w', r))"
    using ex w1 unfolding execute_thaw_def by (auto split: prod.splits result.splits option.splits)
  then show ?thesis
  proof cases
    case (2 v w2 u)
    then have "calm w1 w2" "calm w2 w'" using calm_reads(6) calm_action [OF 2(1)] by auto
    then show ?thesis using c1 calm_trans by blast
  qed (use c1 in blast)
qed

lemma calm_execute:
  "execute_action env ti st victim a w = (w', r) \<Longrightarrow> a \<noteq> TerminateDiscardable \<Longrightarrow> a \<noteq> KillDiscardable \<Longrightarrow> calm w w'"
  by (cases a) (auto split: if_splits intro: calm_freeze calm_thaw calm_reads(4,5))

subsection \<open>TERM before KILL\<close>

lemma write_emergency_cases:
  assumes "write_emergency_target env ph v t now w = (w', r)"
  shows "\<exists>x. w' = w\<lparr>wd_ext := x\<rparr> \<or> w' = w\<lparr>wd_ext := x, wd_emergency := Some \<lparr>er_schema_version = 1, er_phase = ph, er_unit = vi_unit v,
      er_invocation_id = vi_invocation_id v, er_term_succeeded_at_unix_ms = t, er_updated_at_unix_ms = now\<rparr>\<rparr>"
proof -
  obtain x fate where x: "xe_write env (wd_ext w) ''emergency-target.json'' = (x, fate)" by fastforce
  have keep: "w\<lparr>wd_ext := x\<rparr> = w\<lparr>wd_ext := x, wd_emergency := wd_emergency w\<rparr>" by simp
  show ?thesis using assms x keep
    by (cases fate) (auto simp: write_emergency_target_def store_file_def Let_def)
qed

lemma write_emergency_inv:
  assumes "write_emergency_target env ph v t now w = (w', r)" "sup_inv w"
    and "ph = EpPendingTerm \<or> (\<exists>u. t = Some u \<and> (\<exists>e \<in> set (wd_log w). entry_is UcTerm v u e))"
  shows "sup_inv w'"
proof -
  obtain x where "w' = w\<lparr>wd_ext := x\<rparr> \<or> w' = w\<lparr>wd_ext := x, wd_emergency := Some \<lparr>er_schema_version = 1, er_phase = ph,
      er_unit = vi_unit v, er_invocation_id = vi_invocation_id v, er_term_succeeded_at_unix_ms = t, er_updated_at_unix_ms = now\<rparr>\<rparr>"
    using write_emergency_cases [OF assms(1)] by blast
  then show ?thesis
  proof
    assume "w' = w\<lparr>wd_ext := x\<rparr>"
    then show ?thesis using calm_inv [OF calm_ext(1) assms(2)] by simp
  next
    assume w: "w' = w\<lparr>wd_ext := x, wd_emergency := Some \<lparr>er_schema_version = 1, er_phase = ph,
      er_unit = vi_unit v, er_invocation_id = vi_invocation_id v, er_term_succeeded_at_unix_ms = t, er_updated_at_unix_ms = now\<rparr>\<rparr>"
    have v: "\<lparr>vi_unit = vi_unit v, vi_invocation_id = vi_invocation_id v\<rparr> = v" by (cases v) simp
    show ?thesis unfolding w using assms(2,3) by (simp add: sup_inv_def term_backed_def record_victim_def v) blast
  qed
qed

lemma term_inv:
  assumes "sup_inv w" "execute_term env now selected w = (w', r)"
  shows "sup_inv w'"
proof -
  obtain w1 a where w1: "read_emergency_target env w = (w1, a)" by fastforce
  note i1 = calm_inv [OF calm_reads(2) [OF w1] assms(1)]
  consider "w' = w1" | v w2 u where "write_emergency_target env EpPendingTerm v None now w1 = (w2, u)" "w' = w2"
    | v w2 u w3 u' where "write_emergency_target env EpPendingTerm v None now w1 = (w2, u)"
      "run_identity_bound_action env UcTerm v now w2 = (w3, u')"
      "w' = w3 \<or> is_ok u' \<and> (\<exists>r. write_emergency_target env EpTermed v (Some now) now w3 = (w', r))"
    using assms(2) w1 unfolding execute_term_def by (auto split: prod.splits result.splits option.splits if_splits)
  then show ?thesis
  proof cases
    case (3 v w2 u w3 u')
    have i2: "sup_inv w2" using write_emergency_inv [OF 3(1) i1] by simp
    from action_world [OF 3(2)] have i3: "sup_inv w3 \<and> (is_ok u' \<longrightarrow> (\<exists>e \<in> set (wd_log w3). entry_is UcTerm v now e))"
    proof
      assume "\<exists>x. w3 = w2\<lparr>wd_ext := x\<rparr> \<and> is_err u'"
      then show ?thesis using calm_inv [OF calm_ext(1) i2] by (cases u') auto
    next
      assume "\<exists>x. w3 = w2\<lparr>wd_ext := x, wd_log := wd_log w2 @ [\<lparr>ce_command = UcTerm, ce_victim = v, ce_at_unix_ms = now, ce_ok = is_ok u'\<rparr>]\<rparr>"
      then obtain x where x: "w3 = w2\<lparr>wd_ext := x, wd_log := wd_log w2 @ [\<lparr>ce_command = UcTerm, ce_victim = v, ce_at_unix_ms = now, ce_ok = is_ok u'\<rparr>]\<rparr>" by blast
      have "term_backed w3" "kills_graced (wd_log w3)"
        using i2 unfolding x sup_inv_def by (auto simp: term_backed_def kills_graced_snoc)
      then show ?thesis unfolding x by (simp add: sup_inv_def entry_is_def)
    qed
    then show ?thesis using 3(3) write_emergency_inv [of env EpTermed v "Some now" now w3] by blast
  qed (use i1 write_emergency_inv in blast)+
qed

lemma kill_inv:
  assumes "sup_inv w" "execute_kill env now w = (w', r)"
  shows "sup_inv w'"
proof -
  obtain w1 a where w1: "read_emergency_target env w = (w1, a)" by fastforce
  note i1 = calm_inv [OF calm_reads(2) [OF w1] assms(1)]
  have em: "wd_emergency w1 = wd_emergency w" using read_world(2) [OF w1] by auto
  consider "w' = w1" | rec t w2 u where "a = Ok (Some rec)" "er_phase rec = EpTermed" "er_term_succeeded_at_unix_ms rec = Some t"
      "saturating_add u64_max t EMERGENCY_TERM_GRACE_MS \<le> now"
      "run_identity_bound_action env UcKill (record_victim rec) now w1 = (w2, u)"
      "w' = w2 \<or> (\<exists>r. write_emergency_target env EpKilled (record_victim rec) (Some t) now w2 = (w', r))"
    using assms(2) w1 unfolding execute_kill_def validate_record_victim_def record_victim_def
    by (auto split: prod.splits result.splits option.splits if_splits)
  then show ?thesis
  proof cases
    case (2 rec t w2 u)
    have "wd_emergency w1 = Some rec" using read_emergency_record [OF w1 [unfolded 2(1)]] em by simp
    then have backed: "\<exists>e \<in> set (wd_log w1). entry_is UcTerm (record_victim rec) t e"
      using i1 2(2,3) by (auto simp: sup_inv_def term_backed_def)
    from action_world [OF 2(5)] have i2: "sup_inv w2 \<and> (\<exists>e \<in> set (wd_log w2). entry_is UcTerm (record_victim rec) t e)"
    proof
      assume "\<exists>x. w2 = w1\<lparr>wd_ext := x\<rparr> \<and> is_err u"
      then show ?thesis using calm_inv [OF calm_ext(1) i1] backed by auto
    next
      assume "\<exists>x. w2 = w1\<lparr>wd_ext := x, wd_log := wd_log w1 @ [\<lparr>ce_command = UcKill, ce_victim = record_victim rec, ce_at_unix_ms = now, ce_ok = is_ok u\<rparr>]\<rparr>"
      then obtain x where x: "w2 = w1\<lparr>wd_ext := x, wd_log := wd_log w1 @ [\<lparr>ce_command = UcKill, ce_victim = record_victim rec, ce_at_unix_ms = now, ce_ok = is_ok u\<rparr>]\<rparr>" by blast
      have "term_backed w2" using i1 unfolding x sup_inv_def by (auto simp: term_backed_def)
      moreover have "kills_graced (wd_log w2)"
        using i1 backed 2(4) unfolding x sup_inv_def by (auto simp: kills_graced_snoc saturating_add_def)
      ultimately show ?thesis using backed unfolding x sup_inv_def by auto
    qed
    then show ?thesis using 2(6) write_emergency_inv [of env EpKilled "record_victim rec" "Some t" now w2] by blast
  qed (use i1 in blast)
qed

lemma execute_inv:
  assumes "sup_inv w" "execute_action env ti st victim a w = (w', r)"
  shows "sup_inv w'"
  using assms calm_inv [OF calm_execute [OF assms(2)]] term_inv kill_inv by (cases a) auto

lemma execute_list_inv: "sup_inv w \<Longrightarrow> execute_list env ti st victim as w = (w', rs) \<Longrightarrow> sup_inv w'"
proof (induction "as" arbitrary: w rs)
  case (Cons a as)
  then show ?case using execute_inv by (auto simp: Let_def split: prod.splits) blast
qed simp

text \<open>The parts of a tick.\<close>

lemma recover_world:
  assumes "recover_action_state env now elapsed (s, w) = ((s', w'), r)"
  shows "calm w w'" "wd_frozen w' = wd_frozen w" "wd_admission w' = wd_admission w"
    "sv_state s' = sv_state s" "sv_healthy_samples s' = sv_healthy_samples s" "wd_log w' = wd_log w"
proof -
  obtain w1 a where w1: "read_frozen_target env w = (w1, a)" by fastforce
  obtain w2 b where w2: "read_emergency_target env w1 = (w2, b)" by fastforce
  obtain x where x: "w1 = w\<lparr>wd_ext := x\<rparr>" using read_world(1) [OF w1] by blast
  obtain y where y: "w2 = w1\<lparr>wd_ext := y\<rparr>" using read_world(2) [OF w2] by blast
  have "(w' = w1 \<or> w' = w2) \<and> sv_state s' = sv_state s \<and> sv_healthy_samples s' = sv_healthy_samples s"
    using assms w1 w2
    by (cases a; cases b) (auto simp: recover_action_state_def Let_def split: option.splits emergency_phase.splits if_splits)
  then show "calm w w'" "wd_frozen w' = wd_frozen w" "wd_admission w' = wd_admission w"
    "sv_state s' = sv_state s" "sv_healthy_samples s' = sv_healthy_samples s" "wd_log w' = wd_log w"
    using x y by (auto simp: calm_def)
qed

lemma recover_flags:
  assumes "recover_action_state env now elapsed (s, w) = ((s', w'), Ok u)"
  shows "(sv_discardable_frozen s' \<or> sv_discardable_freeze_pending s') = (wd_frozen w \<noteq> None)"
    "\<And>r. wd_emergency w = Some r \<Longrightarrow> er_phase r = EpKilled \<Longrightarrow>
      sv_emergency_kill_eligible_ms s' = Some elapsed \<and> sv_emergency_kill_sent s'"
proof -
  obtain w1 a where w1: "read_frozen_target env w = (w1, a)" by fastforce
  obtain w2 b where w2: "read_emergency_target env w1 = (w2, b)" by fastforce
  obtain fz where fz: "a = Ok fz" using assms w1 by (cases a) (auto simp: recover_action_state_def)
  obtain em where em: "b = Ok em" using assms w1 w2 fz by (cases b) (auto simp: recover_action_state_def Let_def)
  have "fz = None \<longleftrightarrow> wd_frozen w = None"
    using w1 fz by (auto simp: read_frozen_target_def split: prod.splits option.splits if_splits result.splits)
  moreover have "em = wd_emergency w" using read_emergency_record [OF w2 [unfolded em]] read_world(1) [OF w1] by auto
  ultimately show "(sv_discardable_frozen s' \<or> sv_discardable_freeze_pending s') = (wd_frozen w \<noteq> None)"
    "\<And>r. wd_emergency w = Some r \<Longrightarrow> er_phase r = EpKilled \<Longrightarrow>
      sv_emergency_kill_eligible_ms s' = Some elapsed \<and> sv_emergency_kill_sent s'"
    using assms w1 w2 fz em
    by (auto simp: recover_action_state_def Let_def split: option.splits emergency_phase.splits frozen_phase.splits if_splits)
qed

lemma recover_valid:
  assumes "recover_action_state env now elapsed (s, w) = ((s', w'), Ok u)" "wd_frozen w = Some rec"
  shows "fr_schema_version rec = 3 \<and> fr_updated_at_unix_ms rec \<noteq> 0 \<and> valid_scope_unit (fr_unit rec) \<and>
    valid_systemd_invocation_id (fr_invocation_id rec)"
proof -
  obtain w1 a where w1: "read_frozen_target env w = (w1, a)" by fastforce
  obtain fz where "a = Ok fz" using assms w1 by (cases a) (auto simp: recover_action_state_def)
  then show ?thesis using w1 assms(2)
    by (auto simp: read_frozen_target_def validate_record_victim_def split: prod.splits option.splits if_splits)
qed

lemma apply_world:
  assumes "apply_decision_with env ti d w = (w', rs, r)"
  obtains x w1 victim where "execute_list env ti (sd_state d) victim (sd_actions d) (w\<lparr>wd_ext := x\<rparr>) = (w1, rs)"
    "calm w1 w'" "wd_frozen w' = wd_frozen w1" "sd_state d \<noteq> Healthy \<Longrightarrow> wd_admission w' = wd_admission w1"
    "sd_state d \<noteq> Healthy \<Longrightarrow> is_ok r \<Longrightarrow> \<forall>x \<in> set rs. ar_action x = CloseAdmission \<longrightarrow> ar_status x = Succeeded"
    "wd_log w' = wd_log w1"
proof -
  obtain x ledger where x: "xe_ledger env (wd_ext w) = (x, ledger)" by fastforce
  obtain w1 rs1 where w1: "execute_list env ti (sd_state d) (select_victim ledger) (sd_actions d) (w\<lparr>wd_ext := x\<rparr>) = (w1, rs1)"
    by fastforce
  obtain y pub where y: "xe_publish_state env (wd_ext w1) d rs1 = (y, pub)" by fastforce
  let ?w2 = "w1\<lparr>wd_ext := y\<rparr>"
  obtain w3 u where w3: "publish_admission env (ti_identity ti) (state_str (sd_state d)) (ti_now_unix_ms ti) ?w2 = (w3, u)" by fastforce
  have w3': "calm ?w2 w3" "wd_frozen w3 = wd_frozen ?w2" "wd_log w3 = wd_log ?w2"
    using calm_reads(4) [OF w3] w3 by (auto simp: publish_admission_def Let_def split: prod.splits)
  note eq = assms [unfolded apply_decision_with_def execute_actions_with_def x prod.case Let_def w1 y w3]
  have rs: "rs = rs1" using eq by (auto split: if_splits result.splits option.splits)
  have w': "w' = ?w2 \<or> sd_state d = Healthy \<and> w' = w3" using eq by (auto split: if_splits result.splits option.splits)
  have "calm w1 w'" using w' w3'(1) calm_trans [OF calm_ext(1)] by auto
  moreover have "wd_frozen w' = wd_frozen w1" "sd_state d \<noteq> Healthy \<Longrightarrow> wd_admission w' = wd_admission w1"
    "wd_log w' = wd_log w1"
    using w' w3'(2,3) by auto
  moreover have "ar_status q = Succeeded"
    if "sd_state d \<noteq> Healthy" "is_ok r" "q \<in> set rs" "ar_action q = CloseAdmission" for q
  proof -
    have "find (\<lambda>r. ar_action r = CloseAdmission \<and> ar_status r = Failed) rs1 = None"
      using eq that(1,2) by (auto split: result.splits option.splits)
    then show ?thesis using that(3,4) rs by (cases "ar_status q") (auto simp: find_None_iff)
  qed
  ultimately show ?thesis using that w1 rs by blast
qed

lemma commit_keeps:
  "sv_state (commit_action_results rs elapsed s) = sv_state s"
  "sv_healthy_samples (commit_action_results rs elapsed s) = sv_healthy_samples s"
proof -
  have "sv_state (commit_result elapsed r s) = sv_state s \<and> sv_healthy_samples (commit_result elapsed r s) = sv_healthy_samples s" for r s
    by (simp split: supervisor_action.split)
  then show "sv_state (commit_action_results rs elapsed s) = sv_state s"
    "sv_healthy_samples (commit_action_results rs elapsed s) = sv_healthy_samples s"
    unfolding commit_action_results_def by (induction rs arbitrary: s) (simp_all del: commit_result.simps)
qed

text \<open>A tick that did not fail in recovery.\<close>

lemma tick_cases:
  assumes "supervise_tick env p ti (s, w) = ((s', w'), r)"
  obtains (unread) "calm w w'" "is_err r"
  | (acted) s1 w1 s2 d rs where "recover_action_state env (ti_now_unix_ms ti) (ps_elapsed_ms p) (s, w) = ((s1, w1), Ok ())"
      "sv_observe p s1 = (s2, d)" "apply_decision_with env ti d w1 = (w', rs, r)"
      "s' = commit_action_results rs (ps_elapsed_ms p) s2"
proof -
  obtain s1 w1 a where a: "recover_action_state env (ti_now_unix_ms ti) (ps_elapsed_ms p) (s, w) = ((s1, w1), a)" by (metis prod.exhaust)
  show ?thesis
  proof (cases a)
    case (Err e)
    then show ?thesis using assms a recover_world(1) [OF a] that(1) by (auto simp: supervise_tick_def)
  next
    case (Ok u)
    obtain s2 d where d: "sv_observe p s1 = (s2, d)" by fastforce
    obtain w2 rs b where b: "apply_decision_with env ti d w1 = (w2, rs, b)" by (metis prod.exhaust)
    show ?thesis using assms a Ok d b that(2) [of s1 w1 s2 d rs] by (simp add: supervise_tick_def)
  qed
qed

lemma tick_inv: "sup_inv w \<Longrightarrow> supervise_tick env p ti (s, w) = ((s', w'), r) \<Longrightarrow> sup_inv w'"
proof -
  assume i: "sup_inv w" and tk: "supervise_tick env p ti (s, w) = ((s', w'), r)"
  from tk show ?thesis
  proof (cases rule: tick_cases)
    case unread
    then show ?thesis using calm_inv i by blast
  next
    case (acted s1 w1 s2 d rs)
    have i1: "sup_inv w1" using calm_inv [OF recover_world(1) [OF acted(1)] i] .
    from acted(3) show ?thesis
    proof (cases rule: apply_world)
      case (1 x w3 victim)
      have "sup_inv (w1\<lparr>wd_ext := x\<rparr>)" using calm_inv [OF calm_ext(1) i1] .
      from execute_list_inv [OF this 1(1)] show ?thesis by (rule calm_inv [OF 1(2)])
    qed
  qed
qed

lemma run_tick:
  assumes "supervise_tick env p ti (s, w) = ((s', w'), r)"
  shows "\<exists>s''. supervise_run env (SeTick p ti # evs) (s, w) = supervise_run env evs (s'', w')"
  using assms by (cases "is_ok r") auto

lemma run_inv: "sup_inv w \<Longrightarrow> sup_inv (snd (supervise_run env evs (s, w)))"
proof (induction evs arbitrary: s w)
  case (Cons ev evs)
  show ?case
  proof (cases ev)
    case (SeTick p ti)
    obtain s' w' r where t: "supervise_tick env p ti (s, w) = ((s', w'), r)" by (metis prod.exhaust)
    then show ?thesis using run_tick [OF t, of evs] tick_inv [OF Cons.prems t] Cons.IH SeTick by (metis)
  qed (use Cons in simp)
qed simp

subsection \<open>After a kill\<close>

lemma calm_list:
  "execute_list env ti st victim as w = (w', rs) \<Longrightarrow> TerminateDiscardable \<notin> set as \<Longrightarrow> KillDiscardable \<notin> set as \<Longrightarrow> calm w w'"
proof (induction "as" arbitrary: w rs)
  case (Cons a as)
  obtain w1 u where w1: "execute_action env ti st victim a w = (w1, u)" by fastforce
  obtain w2 rs2 where w2: "execute_list env ti st victim as w1 = (w2, rs2)" by fastforce
  have "w2 = w'" using Cons.prems(1) w1 w2 by simp
  then show ?case using calm_trans [OF calm_execute [OF w1]] Cons.IH [OF w2 [unfolded \<open>w2 = w'\<close>]] Cons.prems(2,3) by auto
qed simp

lemma observe_fields:
  assumes "sv_observe p s = (s', d)"
  shows "sd_state d = sv_state s'" "sd_actions d = state_actions p s'"
    "sv_state s' = Emergency \<Longrightarrow> sv_emergency_kill_eligible_ms s' = sv_emergency_kill_eligible_ms s \<and>
       sv_emergency_kill_sent s' = sv_emergency_kill_sent s"
    "sv_discardable_frozen s' = sv_discardable_frozen s" "sv_discardable_freeze_pending s' = sv_discardable_freeze_pending s"
  using assms by (auto simp: sv_observe_def Let_def enter_state_def count_pressure_def split: if_splits)

lemma killed_tick:
  assumes "wd_emergency w = Some rec" "er_phase rec = EpKilled" "supervise_tick env p ti (s, w) = ((s', w'), r)"
  shows "calm w w'"
  using assms(3)
proof (cases rule: tick_cases)
  case (acted s1 w1 s2 d rs)
  note fl = recover_flags(2) [OF acted(1) assms(1,2)] and ob = observe_fields [OF acted(2)]
  have "TerminateDiscardable \<notin> set (sd_actions d)" "KillDiscardable \<notin> set (sd_actions d)"
    using fl ob(3) unfolding ob(2) state_actions_def by (auto split: supervisor_state.splits option.splits)
  note no = this
  from acted(3) show ?thesis
  proof (cases rule: apply_world)
    case (1 x w3 victim)
    have "calm w1 w3" using calm_trans [OF calm_ext(1) calm_list [OF 1(1) no]] .
    then show ?thesis using recover_world(1) [OF acted(1)] 1(2) calm_trans by blast
  qed
qed blast

lemma killed_run:
  "wd_emergency w = Some rec \<Longrightarrow> er_phase rec = EpKilled \<Longrightarrow> calm w (snd (supervise_run env evs (s, w)))"
proof (induction evs arbitrary: s w)
  case (Cons ev evs)
  show ?case
  proof (cases ev)
    case (SeTick p ti)
    obtain s' w' r where t: "supervise_tick env p ti (s, w) = ((s', w'), r)" by (metis prod.exhaust)
    note c = killed_tick [OF Cons.prems t]
    obtain s'' where e: "supervise_run env (SeTick p ti # evs) (s, w) = supervise_run env evs (s'', w')"
      using run_tick [OF t, of evs] by blast
    have "wd_emergency w' = Some rec" using c Cons.prems(1) by (simp add: calm_def)
    then show ?thesis using calm_trans [OF c Cons.IH [OF _ Cons.prems(2)]] SeTick e by simp
  qed (use Cons in simp)
qed simp

subsection \<open>Admission and thaw\<close>

lemma keeps_admission:
  "read_frozen_target env w = (w', r1) \<Longrightarrow> wd_admission w' = wd_admission w"
  "read_emergency_target env w = (w', r2) \<Longrightarrow> wd_admission w' = wd_admission w"
  "write_frozen_target env ph v now w = (w', u) \<Longrightarrow> wd_admission w' = wd_admission w"
  "write_emergency_target env eph v t now w = (w', u) \<Longrightarrow> wd_admission w' = wd_admission w"
  "remove_frozen_target env w = (w', u) \<Longrightarrow> wd_admission w' = wd_admission w"
  "write_control_request env name d w = (w', u) \<Longrightarrow> wd_admission w' = wd_admission w"
  "run_identity_bound_action env cmd v now w = (w', u) \<Longrightarrow> wd_admission w' = wd_admission w"
  by (auto simp: read_frozen_target_def read_emergency_target_def write_frozen_target_def write_emergency_target_def
      write_control_request_def remove_frozen_target_def run_identity_bound_action_def Let_def
      split: prod.splits option.splits write_fate.splits result.splits if_splits)

lemma keeps_frozen:
  "read_emergency_target env w = (w', r2) \<Longrightarrow> wd_frozen w' = wd_frozen w"
  "write_emergency_target env eph v t now w = (w', u) \<Longrightarrow> wd_frozen w' = wd_frozen w"
  "write_control_request env name d w = (w', u) \<Longrightarrow> wd_frozen w' = wd_frozen w"
  "publish_admission env who cs now w = (w', u) \<Longrightarrow> wd_frozen w' = wd_frozen w"
  "run_identity_bound_action env cmd v now w = (w', u) \<Longrightarrow> wd_frozen w' = wd_frozen w"
  by (auto simp: read_emergency_target_def write_emergency_target_def publish_admission_def
      write_control_request_def run_identity_bound_action_def Let_def
      split: prod.splits option.splits write_fate.splits result.splits if_splits)

lemma action_keeps_admission:
  assumes "execute_action env ti st victim a w = (w', r)" "a \<noteq> CloseAdmission"
  shows "wd_admission w' = wd_admission w"
proof (cases a)
  case FreezeDiscardable
  then show ?thesis using assms by (auto simp: execute_freeze_def dest!: keeps_admission(1,3,7) split: prod.splits result.splits option.splits if_splits)
next
  case ThawDiscardable
  then show ?thesis using assms by (auto simp: execute_thaw_def dest!: keeps_admission(1,5,7) split: prod.splits result.splits option.splits)
next
  case TerminateDiscardable
  then show ?thesis using assms by (auto simp: execute_term_def dest!: keeps_admission(2,4,7) split: prod.splits result.splits option.splits if_splits)
next
  case KillDiscardable
  then show ?thesis using assms by (auto simp: execute_kill_def dest!: keeps_admission(2,4,7) split: prod.splits result.splits option.splits if_splits)
qed (use assms keeps_admission(6) in auto)

lemma action_keeps_frozen:
  assumes "execute_action env ti st victim a w = (w', r)" "a \<noteq> FreezeDiscardable" "a \<noteq> ThawDiscardable"
  shows "wd_frozen w' = wd_frozen w"
proof (cases a)
  case TerminateDiscardable
  then show ?thesis using assms by (auto simp: execute_term_def dest!: keeps_frozen(1,2,5) split: prod.splits result.splits option.splits if_splits)
next
  case KillDiscardable
  then show ?thesis using assms by (auto simp: execute_kill_def dest!: keeps_frozen(1,2,5) split: prod.splits result.splits option.splits if_splits)
qed (use assms keeps_frozen(3,4) in \<open>auto split: if_splits\<close>)

lemma list_closes:
  "execute_list env ti st victim as w = (w', rs) \<Longrightarrow> CloseAdmission \<in> set as \<Longrightarrow> st \<noteq> Healthy \<Longrightarrow>
   \<forall>x \<in> set rs. ar_action x = CloseAdmission \<longrightarrow> ar_status x = Succeeded \<Longrightarrow>
   wd_admission w' = Some (published_admission_state (ti_identity ti) (state_str st) (ti_now_unix_ms ti))"
proof (induction "as" arbitrary: w rs)
  case (Cons a as)
  obtain w1 u where w1: "execute_action env ti st victim a w = (w1, u)" by fastforce
  obtain w2 rs2 where w2: "execute_list env ti st victim as w1 = (w2, rs2)" by fastforce
  have eq: "w2 = w'" "rs = from_result a u # rs2" using Cons.prems(1) w1 w2 by simp_all
  show ?case
  proof (cases "CloseAdmission \<in> set as")
    case True
    then show ?thesis using Cons.IH [OF w2 [unfolded eq(1)]] Cons.prems(3,4) eq(2) by simp
  next
    case False
    then have a: "a = CloseAdmission" using Cons.prems(2) by simp
    have "ar_status (from_result a u) = Succeeded" using Cons.prems(4) eq(2) a by (cases u) (auto simp: from_result_def)
    then have "u = Ok ()" by (cases u) (simp_all add: from_result_def)
    then have "wd_admission w1 = Some (published_admission_state (ti_identity ti) (state_str st) (ti_now_unix_ms ti))"
      using w1 a Cons.prems(3) by (auto simp: publish_admission_def store_file_def Let_def split: prod.splits write_fate.splits)
    moreover have "wd_admission w' = wd_admission w1"
      using w2 [unfolded eq(1)] False
    proof (induction "as" arbitrary: w1 rs2)
      case (Cons b bs)
      obtain v1 y where v1: "execute_action env ti st victim b w1 = (v1, y)" by fastforce
      obtain v2 ys where v2: "execute_list env ti st victim bs v1 = (v2, ys)" by fastforce
      have "v2 = w'" using Cons.prems(1) v1 v2 by simp
      then show ?case using Cons.IH [OF v2 [unfolded \<open>v2 = w'\<close>]] action_keeps_admission [OF v1] Cons.prems(2) by auto
    qed simp
    ultimately show ?thesis by simp
  qed
qed simp

lemma pressured_actions: "sv_state s \<noteq> Healthy \<Longrightarrow> CloseAdmission \<in> set (state_actions p s)"
  by (simp add: state_actions_def split: supervisor_state.split)

lemma list_keeps_frozen:
  "execute_list env ti st victim as w = (w', rs) \<Longrightarrow> FreezeDiscardable \<notin> set as \<Longrightarrow> ThawDiscardable \<notin> set as \<Longrightarrow>
   wd_frozen w' = wd_frozen w"
proof (induction "as" arbitrary: w rs)
  case (Cons a as)
  obtain w1 u where w1: "execute_action env ti st victim a w = (w1, u)" by fastforce
  obtain w2 rs2 where w2: "execute_list env ti st victim as w1 = (w2, rs2)" by fastforce
  have "w2 = w'" using Cons.prems(1) w1 w2 by simp
  then show ?case using Cons.IH [OF w2 [unfolded \<open>w2 = w'\<close>]] action_keeps_frozen [OF w1] Cons.prems(2,3) by auto
qed simp

text \<open>A step that sends no freeze command.\<close>

definition no_freeze :: "'e sup_world \<Rightarrow> 'e sup_world \<Rightarrow> bool" where
  "no_freeze w w' \<longleftrightarrow> (\<exists>new. wd_log w' = wd_log w @ new \<and> (\<forall>e \<in> set new. ce_command e \<noteq> UcFreeze))"

lemma no_freeze_same: "wd_log w' = wd_log w \<Longrightarrow> no_freeze w w'"
  by (simp add: no_freeze_def)

lemma no_freeze_trans: "no_freeze w w' \<Longrightarrow> no_freeze w' w'' \<Longrightarrow> no_freeze w w''"
  unfolding no_freeze_def by auto

lemma log_kept:
  "read_frozen_target env w = (w', fr) \<Longrightarrow> wd_log w' = wd_log w"
  "read_emergency_target env w = (w', er) \<Longrightarrow> wd_log w' = wd_log w"
  "write_emergency_target env ph v t now w = (w', u) \<Longrightarrow> wd_log w' = wd_log w"
  "publish_admission env who cs now w = (w', u) \<Longrightarrow> wd_log w' = wd_log w"
  "write_control_request env name d w = (w', u) \<Longrightarrow> wd_log w' = wd_log w"
  "remove_frozen_target env w = (w', u) \<Longrightarrow> wd_log w' = wd_log w"
  by (auto simp: read_frozen_target_def read_emergency_target_def write_emergency_target_def publish_admission_def
      write_control_request_def remove_frozen_target_def Let_def
      split: prod.splits option.splits write_fate.splits)

lemma no_freeze_action:
  "run_identity_bound_action env cmd v now w = (w', r) \<Longrightarrow> cmd \<noteq> UcFreeze \<Longrightarrow> no_freeze w w'"
  using action_world [of env cmd v now w w' r] by (auto simp: no_freeze_def)

lemmas no_freeze_kept = log_kept [THEN no_freeze_same]

lemma no_freeze_thaw: "execute_thaw env now w = (w', r) \<Longrightarrow> no_freeze w w'"
  by (auto simp: execute_thaw_def split: prod.splits result.splits option.splits
      dest!: no_freeze_kept(1,6) no_freeze_action intro: no_freeze_trans)

lemma no_freeze_term: "execute_term env now victim w = (w', r) \<Longrightarrow> no_freeze w w'"
  by (auto simp: execute_term_def split: prod.splits result.splits option.splits if_splits
      dest!: no_freeze_kept(2,3) no_freeze_action intro: no_freeze_trans)

lemma no_freeze_kill: "execute_kill env now w = (w', r) \<Longrightarrow> no_freeze w w'"
  by (auto simp: execute_kill_def split: prod.splits result.splits option.splits if_splits
      dest!: no_freeze_kept(2,3) no_freeze_action intro: no_freeze_trans)

lemma no_freeze_execute:
  "execute_action env ti st victim a w = (w', r) \<Longrightarrow> a \<noteq> FreezeDiscardable \<Longrightarrow> no_freeze w w'"
  by (cases a) (auto split: if_splits intro: no_freeze_thaw no_freeze_term no_freeze_kill no_freeze_kept(4,5) no_freeze_same)

lemma no_freeze_list:
  "execute_list env ti st victim as w = (w', rs) \<Longrightarrow> FreezeDiscardable \<notin> set as \<Longrightarrow> no_freeze w w'"
proof (induction "as" arbitrary: w rs)
  case (Cons a as)
  obtain w1 u where w1: "execute_action env ti st victim a w = (w1, u)" by fastforce
  obtain w2 rs2 where w2: "execute_list env ti st victim as w1 = (w2, rs2)" by fastforce
  have "w2 = w'" using Cons.prems(1) w1 w2 by simp
  then show ?case
    using no_freeze_trans [OF no_freeze_execute [OF w1]] Cons.IH [OF w2 [unfolded \<open>w2 = w'\<close>]] Cons.prems(2) by auto
qed (simp add: no_freeze_same)

text \<open>A host on which a thaw can succeed: readable records, the recorded invocation, a willing \<open>systemctl\<close>.\<close>

definition thaw_possible :: "'e sup_env \<Rightarrow> victim_identity \<Rightarrow> bool" where
  "thaw_possible env v \<longleftrightarrow> (\<forall>x name. snd (xe_read_fault env x name) = None) \<and>
     (\<forall>x. snd (xe_identity env x (vi_unit v)) = Ok (vi_invocation_id v)) \<and>
     (\<forall>x. snd (xe_systemctl env x (command_args UcThaw (vi_unit v))) = Ok ()) \<and>
     (\<forall>x name. snd (xe_remove env x name) = WfDone)"

lemma thaw_removes:
  assumes "thaw_possible env v" "read_frozen_target env w = (w1, Ok (Some (ph, v)))" "execute_thaw env now w = (w', r)"
  shows "wd_frozen w' = None \<and> (\<exists>e. wd_log w' = wd_log w @ [e] \<and> entry_is UcThaw v now e)"
proof -
  obtain x a where x: "xe_identity env (wd_ext w1) (vi_unit v) = (x, a)" by fastforce
  obtain y b where y: "xe_systemctl env x (command_args UcThaw (vi_unit v)) = (y, b)" by fastforce
  obtain z f where z: "xe_remove env y ''frozen-scope.json'' = (z, f)" by fastforce
  have ok: "a = Ok (vi_invocation_id v)" "b = Ok ()" "f = WfDone"
    using assms(1) x y z unfolding thaw_possible_def by (metis snd_conv)+
  have "wd_log w1 = wd_log w" using read_world(1) [OF assms(2)] by auto
  then obtain w2 e where w2: "run_identity_bound_action env UcThaw v now w1 = (w2, Ok ())" "wd_ext w2 = y"
    "wd_log w2 = wd_log w @ [e]" "entry_is UcThaw v now e"
    using x y ok by (simp add: run_identity_bound_action_def entry_is_def del: command_args.simps)
  show ?thesis using assms(2,3) w2 z ok(3) by (auto simp: execute_thaw_def remove_frozen_target_def)
qed

lemma possible_reads:
  assumes "thaw_possible env v" "wd_frozen w = Some rec" "fr_schema_version rec = 3" "fr_updated_at_unix_ms rec \<noteq> 0"
    and "v = \<lparr>vi_unit = fr_unit rec, vi_invocation_id = fr_invocation_id rec\<rparr>"
    and "valid_scope_unit (fr_unit rec)" "valid_systemd_invocation_id (fr_invocation_id rec)"
  shows "\<exists>w1. read_frozen_target env w = (w1, Ok (Some (fr_phase rec, v)))"
proof -
  obtain x a where x: "xe_read_fault env (wd_ext w) ''frozen-scope.json'' = (x, a)" by fastforce
  have "a = None" using assms(1) x unfolding thaw_possible_def by (metis snd_conv)
  then show ?thesis using x assms(2-7) by (simp add: read_frozen_target_def validate_record_victim_def)
qed

subsection \<open>Error texts\<close>

definition ascii_clean :: "nat \<Rightarrow> nat" where
  "ascii_clean c = (if is_control c then 32 else c)"

lemma clean_ascii: "c < 128 \<Longrightarrow> ascii_clean c < 128" "c < 128 \<Longrightarrow> len_utf8 (ascii_clean c) = 1"
  "ascii_clean (ascii_clean c) = ascii_clean c" "\<not> is_control (ascii_clean c)"
  by (simp_all add: ascii_clean_def len_utf8_def is_control_def)

lemma text_bytes_simps: "text_bytes [] = 0" "text_bytes (c # cs) = len_utf8 c + text_bytes cs"
  "text_bytes (xs @ ys) = text_bytes xs + text_bytes ys"
  by (simp_all add: text_bytes_def)

lemma text_bytes_ascii: "\<forall>c \<in> set cs. c < 128 \<Longrightarrow> text_bytes cs = length cs"
  by (induction cs) (auto simp: text_bytes_simps len_utf8_def)

lemma sanitize_append:
  assumes "\<forall>c \<in> set xs. c < 128" "text_bytes acc + length xs \<le> budget"
  shows "sanitize_loop budget acc (xs @ ys) = sanitize_loop budget (acc @ map ascii_clean xs) ys"
  using assms
proof (induction xs arbitrary: acc)
  case (Cons c xs)
  have l: "len_utf8 (ascii_clean c) = 1" using Cons.prems(1) clean_ascii(2) by simp
  have "sanitize_loop budget (acc @ [ascii_clean c]) (xs @ ys) = sanitize_loop budget (acc @ map ascii_clean (c # xs)) ys"
    using Cons.IH [of "acc @ [ascii_clean c]"] Cons.prems l by (simp add: text_bytes_simps)
  then show ?case using Cons.prems l by (simp add: Let_def flip: ascii_clean_def)
qed simp

lemma marker_bytes: "ACTION_ERROR_TRUNCATION_MARKER = [32, 91, 116, 114, 117, 110, 99, 97, 116, 101, 100, 93]"
  by (simp add: ACTION_ERROR_TRUNCATION_MARKER_def)

lemma action_error_new_unfold: "action_error_new raw = sanitize_loop 1012 [] raw"
  by (simp add: action_error_new_def ACTION_ERROR_MAX_BYTES_def marker_bytes text_bytes_def len_utf8_def)

lemma new_ascii:
  assumes "\<forall>c \<in> set raw. c < 128"
  shows "action_error_new raw = (if length raw \<le> 1012 then map ascii_clean raw
     else map ascii_clean (take 1012 raw) @ ACTION_ERROR_TRUNCATION_MARKER)"
proof (cases "length raw \<le> 1012")
  case True
  then show ?thesis using sanitize_append [of raw "[]" 1012 "[]"] assms
    by (simp add: action_error_new_unfold text_bytes_simps)
next
  case False
  then obtain c cs where cs: "drop 1012 raw = c # cs" by (cases "drop 1012 raw") auto
  have asc: "\<forall>c \<in> set (take 1012 raw). c < 128" using assms by (blast dest: in_set_takeD)
  have "c < 128" using assms cs by (metis in_set_dropD list.set_intros(1))
  then have one: "len_utf8 (ascii_clean c) = 1" by (rule clean_ascii(2))
  have b: "text_bytes (map ascii_clean (take 1012 raw)) = 1012" using asc False clean_ascii(1) by (subst text_bytes_ascii) auto
  have "action_error_new raw = sanitize_loop 1012 [] (take 1012 raw @ drop 1012 raw)"
    unfolding action_error_new_unfold by simp
  also have "\<dots> = sanitize_loop 1012 (map ascii_clean (take 1012 raw)) (c # cs)"
    using sanitize_append [OF asc, of "[]" 1012 "c # cs"] False cs by (simp add: text_bytes_simps)
  finally show ?thesis using False b one by (simp add: Let_def ascii_clean_def)
qed

lemma marker_clean: "map ascii_clean ACTION_ERROR_TRUNCATION_MARKER = ACTION_ERROR_TRUNCATION_MARKER"
  "\<forall>c \<in> set ACTION_ERROR_TRUNCATION_MARKER. c < 128 \<and> \<not> is_control c" "length ACTION_ERROR_TRUNCATION_MARKER = 12"
  by (simp_all add: marker_bytes ascii_clean_def is_control_def)

lemma ascii_canonical:
  assumes "list_all (\<lambda>c. c < 128) raw"
  shows "is_canonical (action_error_new raw)"
proof -
  have asc: "\<forall>c \<in> set raw. c < 128" using assms by (simp add: list_all_iff)
  let ?n = "action_error_new raw"
  have n: "?n = (if length raw \<le> 1012 then map ascii_clean raw
     else map ascii_clean (take 1012 raw) @ ACTION_ERROR_TRUNCATION_MARKER)" by (rule new_ascii [OF asc])
  have "\<forall>c \<in> set ?n. c < 128 \<and> \<not> is_control c" unfolding n using asc marker_clean(2) clean_ascii
    by (auto dest: in_set_takeD)
  moreover have "length ?n \<le> 1024" unfolding n by (simp add: marker_clean(3))
  moreover have "map ascii_clean ?n = ?n" unfolding n by (simp add: marker_clean(1) clean_ascii(3))
  moreover have "length ?n \<le> 1012 \<or> length ?n = 1024 \<and> ?n = take 1012 ?n @ ACTION_ERROR_TRUNCATION_MARKER"
    unfolding n by (simp add: marker_clean(3))
  ultimately have "action_error_new ?n = ?n" "text_bytes ?n \<le> 1024" "\<not> list_ex is_control ?n"
    using new_ascii [of ?n] text_bytes_ascii [of ?n] by (auto simp: list_ex_iff simp flip: take_map)
  then show ?thesis by (simp add: is_canonical_def ACTION_ERROR_MAX_BYTES_def)
qed

lemma cut_not_canonical: "\<not> is_canonical (action_error_new (replicate 1011 97 @ [8364]))"
proof -
  let ?a = "replicate 1011 (97 :: nat)"
  have a: "\<forall>c \<in> set ?a. c < 128" "text_bytes ?a = 1011" "map ascii_clean ?a = ?a"
    using text_bytes_ascii [of ?a] by (simp_all add: ascii_clean_def is_control_def)
  have "action_error_new (?a @ [8364]) = sanitize_loop 1012 ?a [8364]"
    unfolding action_error_new_unfold using sanitize_append [OF a(1), of "[]" 1012 "[8364]"] a(3) by (simp add: text_bytes_simps)
  also have "\<dots> = ?a @ ACTION_ERROR_TRUNCATION_MARKER" using a(2) by (simp add: is_control_def len_utf8_def)
  finally have n: "action_error_new (?a @ [8364]) = ?a @ ACTION_ERROR_TRUNCATION_MARKER" .
  let ?n = "?a @ ACTION_ERROR_TRUNCATION_MARKER"
  have "\<forall>c \<in> set ?n. c < 128" using a(1) marker_clean(2) by auto
  then have "length (action_error_new ?n) = 1024" unfolding new_ascii [OF \<open>\<forall>c \<in> set ?n. c < 128\<close>]
    by (simp add: marker_clean(3))
  moreover have "length ?n = 1023" by (simp add: marker_clean(3))
  ultimately have "action_error_new ?n \<noteq> ?n" by (metis numeral_eq_iff num.simps(9) semiring_norm)
  then show ?thesis unfolding n by (simp add: is_canonical_def)
qed

subsection \<open>Recovery\<close>

definition sixty_healthy :: "pressure_sample list \<Rightarrow> bool" where
  "sixty_healthy ps \<longleftrightarrow> (\<exists>pre mid post. ps = pre @ mid @ post \<and> length mid = 60 \<and> (\<forall>p \<in> set mid. fully_healthy p))"

text \<open>Where the recovery stands after some samples.\<close>

definition recovering :: "pressure_sample list \<Rightarrow> supervisor \<Rightarrow> bool" where
  "recovering ps s \<longleftrightarrow> sixty_healthy ps \<or>
     sv_state s \<noteq> Healthy \<and> sv_healthy_samples s < 60 \<and>
     (\<exists>pre mid. ps = pre @ mid \<and> length mid = sv_healthy_samples s \<and> (\<forall>p \<in> set mid. fully_healthy p))"

lemma sixty_healthy_more: "sixty_healthy ps \<Longrightarrow> sixty_healthy (ps @ qs)"
  unfolding sixty_healthy_def by (metis append.assoc)

lemma recovering_cong:
  "sv_state t = sv_state s \<Longrightarrow> sv_healthy_samples t = sv_healthy_samples s \<Longrightarrow> recovering ps t = recovering ps s"
  by (simp add: recovering_def)

lemma observe_recovering:
  assumes "recovering ps s" "sv_observe p s = (s', d)"
  shows "recovering (ps @ [p]) s'"
proof (cases "sixty_healthy ps")
  case True
  then show ?thesis using sixty_healthy_more by (simp add: recovering_def)
next
  case False
  then obtain pre mid where m: "sv_state s \<noteq> Healthy" "sv_healthy_samples s < 60" "ps = pre @ mid"
    "length mid = sv_healthy_samples s" "\<forall>p \<in> set mid. fully_healthy p" using assms(1) by (auto simp: recovering_def)
  define req where "req = requested_state p (count_pressure p s)"
  have s': "s' = enter_state p req (count_pressure p s)" using assms(2) by (simp add: sv_observe_def Let_def req_def)
  have c: "sv_state (count_pressure p s) = sv_state s" "sv_healthy_samples (count_pressure p s) = sv_healthy_samples s"
    by (simp_all add: count_pressure_def)
  show ?thesis
  proof (cases "req = Healthy \<and> fully_healthy p")
    case True
    then have k: "sv_healthy_samples s' = Suc (sv_healthy_samples s)"
      "sv_state s' = (if Suc (sv_healthy_samples s) \<ge> 60 then Healthy else Guarded)"
      using s' c m(1,2) by (simp_all add: enter_state_def Let_def sv_streak_def saturating_add_def u32_max_def)
    have mid: "ps @ [p] = pre @ (mid @ [p])" "length (mid @ [p]) = Suc (sv_healthy_samples s)" "\<forall>q \<in> set (mid @ [p]). fully_healthy q"
      using m True by auto
    show ?thesis
    proof (cases "Suc (sv_healthy_samples s) \<ge> 60")
      case True
      then have "sixty_healthy (ps @ [p])" unfolding sixty_healthy_def using mid m(2)
        by (intro exI [of _ pre] exI [of _ "mid @ [p]"] exI [of _ "[]"]) simp
      then show ?thesis by (simp add: recovering_def)
    next
      case False
      then show ?thesis unfolding recovering_def using k mid by (intro disjI2 conjI exI [of _ pre] exI [of _ "mid @ [p]"]) simp_all
    qed
  next
    case False
    then have "sv_healthy_samples s' = 0" "sv_state s' \<noteq> Healthy"
      using s' c m(1) by (auto simp: enter_state_def Let_def sv_streak_def)
    then show ?thesis unfolding recovering_def by (intro disjI2) auto
  qed
qed

text \<open>Ticks in a row, without a failure.\<close>

fun ticks_ok ::
  "'e sup_env \<Rightarrow> (pressure_sample \<times> tick_inputs) list \<Rightarrow> supervisor \<times> 'e sup_world \<Rightarrow> (supervisor \<times> 'e sup_world) option" where
  "ticks_ok env [] sw = Some sw"
| "ticks_ok env ((p, ti) # ts) sw =
     (case supervise_tick env p ti sw of (sw', Ok _) \<Rightarrow> ticks_ok env ts sw' | (sw', Err _) \<Rightarrow> None)"

lemma ticks_recovering:
  "recovering ps s \<Longrightarrow> ticks_ok env ts (s, w) = Some (s', w') \<Longrightarrow> recovering (ps @ map fst ts) s'"
proof (induction ts arbitrary: ps s w)
  case (Cons x ts)
  obtain p ti where x: "x = (p, ti)" by fastforce
  obtain s1 w1 r where t: "supervise_tick env p ti (s, w) = ((s1, w1), r)" by (metis prod.exhaust)
  have ok: "is_ok r" "ticks_ok env ts (s1, w1) = Some (s', w')" using Cons.prems(2) x t by (cases r; simp)+
  from t have "recovering (ps @ [p]) s1"
  proof (cases rule: tick_cases)
    case unread
    then show ?thesis using ok(1) by (cases r) simp_all
  next
    case (acted s2 w2 s3 d rs)
    have "recovering ps s2" using Cons.prems(1) recover_world(4,5) [OF acted(1)] recovering_cong by blast
    from observe_recovering [OF this acted(2)] show ?thesis using recovering_cong acted(4) commit_keeps by metis
  qed
  from Cons.IH [OF this ok(2)] show ?case using x by simp
qed simp

subsection \<open>A quiet host\<close>

definition demo_unit :: string where "demo_unit = ''ramshared-batch-1.scope''"
definition demo_invocation :: string where "demo_invocation = replicate 32 CHR ''a''"

definition demo_victim :: victim_identity where
  "demo_victim = \<lparr>vi_unit = demo_unit, vi_invocation_id = demo_invocation\<rparr>"

definition demo_reservation :: reservation where
  "demo_reservation = \<lparr>rv_id = ''1'', rv_owner = demo_owner 9, rv_class = Batch, rv_memory_bytes = 5, rv_unit = demo_unit,
     rv_invocation_id = Some demo_invocation, rv_issued_ordinal = 1\<rparr>"

text \<open>A host on which nothing fails and one managed scope runs.\<close>

definition quiet_host :: "unit sup_env" where
  "quiet_host =
     \<lparr>xe_read_fault = (\<lambda>x name. (x, None)), xe_write = (\<lambda>x name. (x, WfDone)), xe_remove = (\<lambda>x name. (x, WfDone)),
      xe_identity = (\<lambda>x u. (x, Ok demo_invocation)), xe_systemctl = (\<lambda>x args. (x, Ok ())),
      xe_ledger = (\<lambda>x. (x, Ok [demo_reservation])), xe_publish_state = (\<lambda>x d rs. (x, Ok ()))\<rparr>"

definition empty_world :: "unit sup_world" where
  "empty_world = \<lparr>wd_frozen = None, wd_emergency = None, wd_admission = None, wd_log = [], wd_ext = ()\<rparr>"

definition demo_tick :: "nat \<Rightarrow> tick_inputs" where
  "demo_tick now = \<lparr>ti_now_unix_ms = now, ti_daemon_instance = Some ''d'', ti_identity = demo_owner 1\<rparr>"

text \<open>A sample that arrives late, one in the critical band, and one with memory to spare.\<close>

definition late_sample :: "nat \<Rightarrow> pressure_sample" where
  "late_sample elapsed = \<lparr>ps_memory_available_bytes = 8 * GIB_BYTES, ps_control_reserve_bytes = 4 * GIB_BYTES,
     ps_psi_full_avg10 = Fin False 0, ps_sample_delay_ms = 3000, ps_elapsed_ms = elapsed\<rparr>"

definition good_sample :: pressure_sample where
  "good_sample = \<lparr>ps_memory_available_bytes = 8 * GIB_BYTES, ps_control_reserve_bytes = 4 * GIB_BYTES,
     ps_psi_full_avg10 = Fin False 0, ps_sample_delay_ms = 0, ps_elapsed_ms = 9\<rparr>"

lemma demo_valid: "valid_scope_unit demo_unit" "valid_systemd_invocation_id demo_invocation"
  by (simp_all add: valid_scope_unit_def demo_unit_def strip_prefix_def is_ascii_alphanumeric_def is_ascii_digit_def
      valid_systemd_invocation_id_def demo_invocation_def is_ascii_lower_hex_def list_all_iff)

lemma demo_select: "select_victim (Ok [demo_reservation]) = Ok (Some demo_victim)"
  by (simp add: select_victim_def victim_candidate_def demo_reservation_def demo_victim_def discard_priority_def demo_valid)

definition demo_record :: "emergency_phase \<Rightarrow> nat option \<Rightarrow> nat \<Rightarrow> emergency_record" where
  "demo_record ph t now = \<lparr>er_schema_version = 1, er_phase = ph, er_unit = demo_unit, er_invocation_id = demo_invocation,
     er_term_succeeded_at_unix_ms = t, er_updated_at_unix_ms = now\<rparr>"

lemmas quiet_defs = quiet_host_def empty_world_def demo_tick_def supervise_tick_def recover_action_state_def
  read_frozen_target_def read_emergency_target_def apply_decision_with_def execute_actions_with_def write_control_request_def
  publish_admission_def store_file_def execute_term_def execute_kill_def write_emergency_target_def
  run_identity_bound_action_def from_result_def commit_action_results_def sv_observe_def enter_state_def state_actions_def
  demo_select validate_record_victim_def

definition demo_world_after :: "emergency_record \<Rightarrow> command_entry list \<Rightarrow> nat \<Rightarrow> unit sup_world" where
  "demo_world_after r es now = \<lparr>wd_frozen = None, wd_emergency = Some r,
     wd_admission = Some (published_admission_state (demo_owner 1) ''EMERGENCY'' now), wd_log = es, wd_ext = ()\<rparr>"

definition demo_entry :: "unit_command \<Rightarrow> nat \<Rightarrow> command_entry" where
  "demo_entry cmd now = \<lparr>ce_command = cmd, ce_victim = demo_victim, ce_at_unix_ms = now, ce_ok = True\<rparr>"

lemma demo_first_tick:
  "\<exists>s1. supervise_tick quiet_host (late_sample 0) (demo_tick 1) (supervisor_default, empty_world) =
     ((s1, demo_world_after (demo_record EpTermed (Some 1) 1) [demo_entry UcTerm 1] 1), Ok ()) \<and> sv_state s1 = Emergency"
  by (simp add: quiet_defs requested_state_def late_sample_def Let_def count_pressure_def supervisor_default_def
      demo_world_after_def demo_record_def demo_entry_def demo_victim_def)

lemma demo_second_tick:
  "\<exists>s2. supervise_tick quiet_host (late_sample 6000) (demo_tick 7000)
       (s, demo_world_after (demo_record EpTermed (Some 1) 1) [demo_entry UcTerm 1] 1) =
     ((s2, demo_world_after (demo_record EpKilled (Some 1) 7000) [demo_entry UcTerm 1, demo_entry UcKill 7000] 7000), Ok ())"
  by (simp add: quiet_defs requested_state_def late_sample_def Let_def count_pressure_def demo_valid
      demo_world_after_def demo_record_def demo_entry_def demo_victim_def EMERGENCY_TERM_GRACE_MS_def
      saturating_add_def saturating_sub_def u64_max_def)

definition demo_frozen :: frozen_record where
  "demo_frozen = \<lparr>fr_schema_version = 3, fr_phase = FpApplied, fr_unit = demo_unit, fr_invocation_id = demo_invocation,
     fr_updated_at_unix_ms = 1\<rparr>"

lemma demo_thaw_tick:
  "\<exists>s' w'. supervise_tick quiet_host good_sample (demo_tick 2) (supervisor_default, empty_world\<lparr>wd_frozen := Some demo_frozen\<rparr>) =
     ((s', w'), Ok ()) \<and> sv_state s' = Healthy"
  by (simp add: quiet_defs requested_state_def good_sample_def Let_def count_pressure_def supervisor_default_def GIB_BYTES_def
      sv_streak_def fp_ge_def fp_value_def saturating_mul_def saturating_add_def u64_max_def u32_max_def fully_healthy_def
      demo_frozen_def demo_valid execute_thaw_def remove_frozen_target_def)

lemma demo_thaw_possible: "thaw_possible quiet_host \<lparr>vi_unit = fr_unit demo_frozen, vi_invocation_id = fr_invocation_id demo_frozen\<rparr>"
  by (simp add: thaw_possible_def quiet_host_def demo_frozen_def)

subsection \<open>Properties\<close>

text \<open>
  C5. No scope is killed without a warning. Over any run of the supervisor, with restarts and failing
  reads, writes and commands at any point, starting from no records: before every KILL it sends to a
  scope, a TERM sent to the same unit and invocation succeeded, at least five seconds earlier by the
  clock.
\<close>

theorem kill_follows_term:
  assumes "wd_log w = []" "wd_emergency w = None" "supervise_run env evs (s, w) = (s', w')"
    and "wd_log w' = pre @ e # post" "ce_command e = UcKill"
  shows "\<exists>t e'. e' \<in> set pre \<and> ce_command e' = UcTerm \<and> ce_victim e' = ce_victim e \<and> ce_ok e' \<and>
    ce_at_unix_ms e' = t \<and> min (t + 5000) u64_max \<le> ce_at_unix_ms e"
proof -
  have "sup_inv w" using assms(1,2) by (simp add: sup_inv_def term_backed_def kills_graced_def)
  from run_inv [OF this, of env evs s] have "kills_graced (wd_log w')" using assms(3) by (simp add: sup_inv_def)
  then show ?thesis using assms(4,5) unfolding kills_graced_def entry_is_def EMERGENCY_TERM_GRACE_MS_def by blast
qed

theorem kill_follows_term_witness:
  "\<exists>s' w'. supervise_run quiet_host [SeTick (late_sample 0) (demo_tick 1), SeTick (late_sample 6000) (demo_tick 7000)]
       (supervisor_default, empty_world) = (s', w') \<and>
     wd_log w' = [demo_entry UcTerm 1] @ demo_entry UcKill 7000 # [] \<and>
     (\<exists>t e'. e' \<in> set [demo_entry UcTerm 1] \<and> ce_at_unix_ms e' = t \<and> min (t + 5000) u64_max \<le> 7000)"
proof -
  obtain s1 where s1: "supervise_tick quiet_host (late_sample 0) (demo_tick 1) (supervisor_default, empty_world) =
      ((s1, demo_world_after (demo_record EpTermed (Some 1) 1) [demo_entry UcTerm 1] 1), Ok ())" using demo_first_tick by blast
  obtain s2 where s2: "supervise_tick quiet_host (late_sample 6000) (demo_tick 7000)
       (s1, demo_world_after (demo_record EpTermed (Some 1) 1) [demo_entry UcTerm 1] 1) =
     ((s2, demo_world_after (demo_record EpKilled (Some 1) 7000) [demo_entry UcTerm 1, demo_entry UcKill 7000] 7000), Ok ())"
    using demo_second_tick by blast
  let ?w = "demo_world_after (demo_record EpKilled (Some 1) 7000) [demo_entry UcTerm 1, demo_entry UcKill 7000] 7000"
  have run: "supervise_run quiet_host [SeTick (late_sample 0) (demo_tick 1), SeTick (late_sample 6000) (demo_tick 7000)]
       (supervisor_default, empty_world) = (s2, ?w)" using s1 s2 by simp
  have es: "wd_log ?w = [demo_entry UcTerm 1] @ demo_entry UcKill 7000 # []" by (simp add: demo_world_after_def)
  have "wd_log empty_world = []" "wd_emergency empty_world = None" "ce_command (demo_entry UcKill 7000) = UcKill"
    by (simp_all add: empty_world_def demo_entry_def)
  from kill_follows_term [OF this(1,2) run es this(3)] show ?thesis using run es by (simp add: demo_entry_def)
qed

text \<open>
  C35. After one kill the supervisor is disarmed. Nothing ever removes the record of a killed scope,
  so that from then on, through every later emergency and restart, no TERM and no KILL is sent to any scope,
  and the record stays.
\<close>

theorem killed_record_disarms:
  assumes "wd_emergency w = Some r" "er_phase r = EpKilled" "supervise_run env evs (s, w) = (s', w')"
  shows "wd_emergency w' = Some r \<and>
    (\<exists>new. wd_log w' = wd_log w @ new \<and> (\<forall>e \<in> set new. ce_command e \<noteq> UcTerm \<and> ce_command e \<noteq> UcKill))"
proof -
  have "calm w w'" using killed_run [OF assms(1,2), of env evs s] assms(3) by simp
  then obtain new where "wd_emergency w' = wd_emergency w" "wd_log w' = wd_log w @ new"
    "\<forall>e \<in> set new. ce_command e = UcFreeze \<or> ce_command e = UcThaw" unfolding calm_def by blast
  moreover from this(3) have "\<forall>e \<in> set new. ce_command e \<noteq> UcTerm \<and> ce_command e \<noteq> UcKill" by force
  ultimately show ?thesis using assms(1) by auto
qed

theorem killed_record_disarms_witness:
  "\<exists>s' w'. supervise_run quiet_host [SeTick (late_sample 9000) (demo_tick 9000)]
       (supervisor_default, demo_world_after (demo_record EpKilled (Some 1) 7000) [] 7000) = (s', w') \<and>
     wd_emergency w' = Some (demo_record EpKilled (Some 1) 7000) \<and> (\<forall>e \<in> set (wd_log w'). ce_command e \<noteq> UcTerm)"
proof -
  let ?w = "demo_world_after (demo_record EpKilled (Some 1) 7000) [] 7000"
  obtain s' w' where r: "supervise_run quiet_host [SeTick (late_sample 9000) (demo_tick 9000)] (supervisor_default, ?w) = (s', w')"
    by fastforce
  have "wd_emergency ?w = Some (demo_record EpKilled (Some 1) 7000)" "er_phase (demo_record EpKilled (Some 1) 7000) = EpKilled" "wd_log ?w = []"
    by (simp_all add: demo_world_after_def demo_record_def)
  with killed_record_disarms [OF this(1,2) r] r show ?thesis by auto
qed

text \<open>
  C36. Recovery takes sixty healthy samples in a row. From any state under pressure, with the count of
  healthy samples at zero, as long as the samples seen contain no sixty consecutive fully
  healthy ones, with a gibibyte to spare above the reserve, low pressure and no delay, the supervisor
  does not return to the healthy state.
\<close>

theorem recovery_takes_sixty:
  assumes "sv_state s \<noteq> Healthy" "sv_healthy_samples s = 0" "ticks_ok env ts (s, w) = Some (s', w')"
    and "\<not> (\<exists>pre mid post. map fst ts = pre @ mid @ post \<and> length mid = 60 \<and> (\<forall>p \<in> set mid. fully_healthy p))"
  shows "sv_state s' \<noteq> Healthy"
proof -
  have "recovering [] s" using assms(1,2) by (simp add: recovering_def)
  from ticks_recovering [OF this assms(3)] have "sixty_healthy (map fst ts) \<or> sv_state s' \<noteq> Healthy"
    by (auto simp: recovering_def)
  then show ?thesis using assms(4) unfolding sixty_healthy_def by blast
qed

theorem recovery_takes_sixty_witness:
  "\<exists>s' w'. ticks_ok quiet_host [(good_sample, demo_tick 1)] (supervisor_default\<lparr>sv_state := Guarded\<rparr>, empty_world) = Some (s', w') \<and>
     sv_state s' \<noteq> Healthy"
proof -
  have "\<exists>s' w'. ticks_ok quiet_host [(good_sample, demo_tick 1)] (supervisor_default\<lparr>sv_state := Guarded\<rparr>, empty_world) = Some (s', w')"
    by (simp add: quiet_defs requested_state_def good_sample_def Let_def count_pressure_def supervisor_default_def GIB_BYTES_def
        sv_streak_def fp_ge_def fp_value_def saturating_mul_def saturating_add_def u64_max_def u32_max_def fully_healthy_def)
  then obtain s' w' where t: "ticks_ok quiet_host [(good_sample, demo_tick 1)] (supervisor_default\<lparr>sv_state := Guarded\<rparr>, empty_world) = Some (s', w')"
    by blast
  have "\<not> (\<exists>pre mid post. map fst [(good_sample, demo_tick 1)] = pre @ mid @ post \<and> length mid = 60 \<and> (\<forall>p \<in> set mid. fully_healthy p))"
    by (auto dest!: arg_cong [of _ _ length])
  from recovery_takes_sixty [OF _ _ t this] show ?thesis using t by (simp add: supervisor_default_def)
qed

text \<open>
  C37. Pressure closes admission. A tick that succeeds and leaves the supervisor in any state but the healthy one has
  published an admission state under which no workload is admitted, and an admission attempt does
  not change the ledger.
\<close>

theorem pressure_closes_admission:
  assumes "supervise_tick env p ti (s, w) = ((s', w'), Ok ())" "sv_state s' \<noteq> Healthy"
  shows "\<exists>a. wd_admission w' = Some a \<and> (\<forall>la ag alive nonce owner cls mem aggregate_max file.
    ag_admission ag = Evidence a \<longrightarrow>
    (\<exists>e. admit_reservation_at la ag alive nonce owner cls mem aggregate_max file = (file, Err e)))"
  using assms(1)
proof (cases rule: tick_cases)
  case (acted s1 w1 s2 d rs)
  note ob = observe_fields [OF acted(2)]
  have st: "sv_state s2 = sv_state s'" using acted(4) commit_keeps(1) by simp
  from acted(3) show ?thesis
  proof (cases rule: apply_world)
    case (1 x w3 victim)
    have d: "sd_state d \<noteq> Healthy" "CloseAdmission \<in> set (sd_actions d)" using ob(1,2) st assms(2) pressured_actions by simp_all
    let ?a = "published_admission_state (ti_identity ti) (state_str (sd_state d)) (ti_now_unix_ms ti)"
    have "wd_admission w' = Some ?a" using list_closes [OF 1(1) d(2,1)] 1(4,5) d(1) by simp
    moreover have "\<exists>e. admit_reservation_at la ag alive nonce owner cls mem aggregate_max file = (file, Err e)"
      if "ag_admission ag = Evidence ?a" for la ag alive nonce owner cls mem aggregate_max "file"
    proof -
      have "\<not> as_admission_open ?a" using d(1) by (cases "sd_state d") (simp_all add: published_admission_state_def)
      then have "gates_open ag owner alive \<noteq> Ok ()" using gates_open_Ok that by fastforce
      then obtain e where "gates_open ag owner alive = Err e" by (cases "gates_open ag owner alive") auto
      then show ?thesis by (auto simp: admit_reservation_at_def split: result.split)
    qed
    ultimately show ?thesis by blast
  qed
qed simp

theorem pressure_closes_admission_witness:
  "\<exists>s' w' a. supervise_tick quiet_host (late_sample 0) (demo_tick 1) (supervisor_default, empty_world) = ((s', w'), Ok ()) \<and>
     wd_admission w' = Some a \<and> (\<exists>e. admit_reservation_at demo_access (demo_gates\<lparr>ag_admission := Evidence a\<rparr>) (\<lambda>_. True) ''n'' (demo_owner 9)
        Build 5 10 (Some demo_ledger) = (Some demo_ledger, Err e))"
proof -
  obtain s1 w1 where s1: "supervise_tick quiet_host (late_sample 0) (demo_tick 1) (supervisor_default, empty_world) = ((s1, w1), Ok ())"
    and "sv_state s1 = Emergency" using demo_first_tick by blast
  then have "sv_state s1 \<noteq> Healthy" by simp
  from pressure_closes_admission [OF s1 this] obtain a where a: "wd_admission w1 = Some a"
    "\<And>la ag alive nonce owner cls mem aggregate_max file. ag_admission ag = Evidence a \<Longrightarrow>
      \<exists>e. admit_reservation_at la ag alive nonce owner cls mem aggregate_max file = (file, Err e)" by blast
  have "\<exists>e. admit_reservation_at demo_access (demo_gates\<lparr>ag_admission := Evidence a\<rparr>) (\<lambda>_. True) ''n'' (demo_owner 9)
        Build 5 10 (Some demo_ledger) = (Some demo_ledger, Err e)" by (rule a(2)) simp
  with s1 a(1) show ?thesis by blast
qed

text \<open>
  C38. A frozen scope is thawed by the first tick outside the critical state, on a host where its record can be read,
  the scope still has its invocation and \<open>systemctl\<close> complies: in that tick the thaw command is sent to exactly the
  recorded unit and invocation and succeeds, no scope is frozen again, and after it no record of a frozen scope is left.
\<close>

theorem frozen_scope_thawed:
  assumes "supervise_tick env p ti (s, w) = ((s', w'), r)" "is_ok r" "sv_state s' \<noteq> Critical"
    and "wd_frozen w = Some rec" "thaw_possible env \<lparr>vi_unit = fr_unit rec, vi_invocation_id = fr_invocation_id rec\<rparr>"
  shows "wd_frozen w' = None \<and> (\<exists>new. wd_log w' = wd_log w @ new \<and>
    (\<exists>e \<in> set new. entry_is UcThaw \<lparr>vi_unit = fr_unit rec, vi_invocation_id = fr_invocation_id rec\<rparr> (ti_now_unix_ms ti) e) \<and>
    (\<forall>e \<in> set new. ce_command e \<noteq> UcFreeze))"
  using assms(1)
proof (cases rule: tick_cases)
  case unread
  then show ?thesis using assms(2) by (cases r) simp_all
next
  case (acted s1 w1 s2 d rs)
  let ?v = "\<lparr>vi_unit = fr_unit rec, vi_invocation_id = fr_invocation_id rec\<rparr>"
  note ob = observe_fields [OF acted(2)] and rw = recover_world [OF acted(1)]
  have st: "sv_state s2 \<noteq> Critical" using acted(4) commit_keeps(1) assms(3) by simp
  have valid: "fr_schema_version rec = 3" "fr_updated_at_unix_ms rec \<noteq> 0" "valid_scope_unit (fr_unit rec)"
    "valid_systemd_invocation_id (fr_invocation_id rec)"
    using recover_valid [OF acted(1) assms(4)] by blast+
  have "sv_discardable_frozen s2 \<or> sv_discardable_freeze_pending s2"
    using recover_flags(1) [OF acted(1)] assms(4) ob(4,5) by simp
  then obtain rest where acts: "sd_actions d = ThawDiscardable # rest" "FreezeDiscardable \<notin> set rest" "ThawDiscardable \<notin> set rest"
    using st unfolding ob(2) by (auto simp: state_actions_def split: supervisor_state.splits option.splits)
  from acted(3) show ?thesis
  proof (cases rule: apply_world)
    case (1 x w3 victim)
    let ?w = "w1\<lparr>wd_ext := x\<rparr>"
    obtain w4 u where w4: "execute_thaw env (ti_now_unix_ms ti) ?w = (w4, u)" by fastforce
    obtain w5 us where w5: "execute_list env ti (sd_state d) victim rest w4 = (w5, us)" by fastforce
    have "w3 = w5" using 1(1) acts(1) w4 w5 by simp
    have "\<exists>w6. read_frozen_target env ?w = (w6, Ok (Some (fr_phase rec, ?v)))"
      by (rule possible_reads [OF assms(5)]) (use assms(4) rw(2) valid in simp_all)
    then obtain e where e: "wd_frozen w4 = None" "wd_log w4 = wd_log ?w @ [e]" "entry_is UcThaw ?v (ti_now_unix_ms ti) e"
      using thaw_removes [OF assms(5) _ w4] by blast
    obtain new where new: "wd_log w5 = wd_log w4 @ new" "\<forall>e \<in> set new. ce_command e \<noteq> UcFreeze"
      using no_freeze_list [OF w5 acts(2)] by (auto simp: no_freeze_def)
    have "wd_log w' = wd_log w @ (e # new)" using e(2) new(1) 1(6) \<open>w3 = w5\<close> rw(6) by simp
    moreover have "\<forall>x \<in> set (e # new). ce_command x \<noteq> UcFreeze" using e(3) new(2) by (auto simp: entry_is_def)
    moreover have "wd_frozen w' = None" using e(1) list_keeps_frozen [OF w5 acts(2,3)] 1(3) \<open>w3 = w5\<close> by simp
    ultimately show ?thesis using e(3) by auto
  qed
qed

theorem frozen_scope_thawed_witness:
  "\<exists>s' w' e. supervise_tick quiet_host good_sample (demo_tick 2) (supervisor_default, empty_world\<lparr>wd_frozen := Some demo_frozen\<rparr>) =
     ((s', w'), Ok ()) \<and> wd_frozen w' = None \<and> e \<in> set (wd_log w') \<and> ce_command e = UcThaw \<and>
     vi_unit (ce_victim e) = fr_unit demo_frozen \<and> ce_ok e"
proof -
  obtain s' w' where t: "supervise_tick quiet_host good_sample (demo_tick 2)
      (supervisor_default, empty_world\<lparr>wd_frozen := Some demo_frozen\<rparr>) = ((s', w'), Ok ())" and "sv_state s' = Healthy"
    using demo_thaw_tick by blast
  then show ?thesis using frozen_scope_thawed [OF t _ _ _ demo_thaw_possible]
    by (auto simp: entry_is_def)
qed

text \<open>
  A published action error can be read back when it is ASCII: whatever its length and its control
  characters, sanitising it again changes nothing. It cannot in general: a text cut at a
  multi-byte character leaves room that the reader fills with the start of the truncation marker, so
  the reader rejects a value the writer produced.
\<close>

theorem action_error_ascii_canonical:
  "(\<forall>raw. list_all (\<lambda>c. c < 128) raw \<longrightarrow> is_canonical (action_error_new raw)) \<and>
   \<not> is_canonical (action_error_new (replicate 1011 97 @ [8364]))"
  using ascii_canonical cut_not_canonical by blast

theorem action_error_ascii_canonical_witness:
  "is_canonical (action_error_new (10 # replicate 2000 97)) \<and> \<not> is_canonical (action_error_new (replicate 1011 97 @ [8364]))"
proof -
  have "list_all (\<lambda>c. c < 128) (10 # replicate 2000 (97 :: nat))" unfolding list_all_iff by simp
  then show ?thesis using action_error_ascii_canonical by blast
qed

end
