(* ===== verification/Driver_Link.thy ===== *)
theory Driver_Link
  imports Backends
begin

unbundle bit_operations_syntax

text \<open>
  The service side of the Windows driver's rings (\<^verbatim>\<open>crates/ramshared-winsvc/src/driver_link.rs\<close> and the
  records of \<^verbatim>\<open>proto.rs\<close>): a submission and a completion ring with free-running 32-bit indices, a
  bounce area with a slot per entry, and the loop that serves submissions from a block backend. The
  trait \<open>QueueAccess\<close> is a record of operations. Buffers are shorter than \<open>2^32\<close> bytes, as those of every
  caller are. A counter's \<open>+=\<close> wraps, as in a release build. The time a request takes is an input.
\<close>

subsection \<open>Records of the protocol\<close>

definition MAX_QD :: nat where "MAX_QD = 256"
definition MAX_IO :: nat where "MAX_IO = 1048576"
definition RING_MAGIC :: nat where "RING_MAGIC = 0x52535244"
definition OP_READ :: nat where "OP_READ = 0"
definition OP_WRITE :: nat where "OP_WRITE = 1"
definition OP_FLUSH :: nat where "OP_FLUSH = 2"
definition ST_OK :: int where "ST_OK = 0"
definition ST_EIO :: int where "ST_EIO = 5"
definition ST_EINVAL :: int where "ST_EINVAL = 22"

lemmas ring_consts = OP_READ_def OP_WRITE_def OP_FLUSH_def ST_OK_def ST_EIO_def ST_EINVAL_def

record sqe =
  sq_tag :: nat
  sq_op :: nat
  sq_flags :: nat
  sq_offset :: nat
  sq_len :: nat
  sq_buf_slot :: nat

record cqe =
  cq_tag :: nat
  cq_status :: int
  cq_reserved :: nat

record ring_hdr =
  rh_magic :: nat
  rh_entries :: nat
  rh_head :: "32 word"
  rh_tail :: "32 word"

datatype driver_link_error =
    DlFull
  | DlEmpty
  | DlInvalid string
  | DlBackend string
  | DlStopped

subsection \<open>Rings\<close>

text \<open>
  A producer and a consumer of one ring. The indices only ever grow, modulo \<open>2^32\<close>; an entry stands at
  its index modulo the number of entries, which is a power of two.
\<close>

definition ring_mask :: "nat \<Rightarrow> 32 word" where
  "ring_mask depth = of_nat depth - 1"

definition ring_push :: "nat \<Rightarrow> 'a \<Rightarrow> ring_hdr \<times> 'a list \<Rightarrow> (ring_hdr \<times> 'a list) option" where
  "ring_push depth x r =
     (let (h, es) = r; nxt = rh_tail h + 1
      in if nxt - rh_head h > of_nat depth then None
         else Some (h\<lparr>rh_tail := nxt\<rparr>, es[unat (rh_tail h AND ring_mask depth) := x]))"

definition ring_pop :: "nat \<Rightarrow> ring_hdr \<times> 'a list \<Rightarrow> (ring_hdr \<times> 'a) option" where
  "ring_pop depth r =
     (let (h, es) = r
      in if rh_head h = rh_tail h then None
         else Some (h\<lparr>rh_head := rh_head h + 1\<rparr>, es ! unat (rh_head h AND ring_mask depth)))"

fun is_power_of_two :: "nat \<Rightarrow> bool" where
  "is_power_of_two n = (if n \<le> 1 then n = 1 else even n \<and> is_power_of_two (n div 2))"

declare is_power_of_two.simps [simp del]

subsection \<open>The in-memory queue\<close>

record im_queue =
  iq_queue_depth :: nat
  iq_max_io_bytes :: nat
  iq_block_size :: nat
  iq_sq_hdr :: ring_hdr
  iq_cq_hdr :: ring_hdr
  iq_sq_entries :: "sqe list"
  iq_cq_entries :: "cqe list"
  iq_data :: "byte list"

definition im_queue_new :: "nat \<Rightarrow> nat \<Rightarrow> nat \<Rightarrow> (im_queue, driver_link_error) result" where
  "im_queue_new queue_depth max_io_bytes block_size =
     (if queue_depth = 0 \<or> queue_depth > MAX_QD \<or> \<not> is_power_of_two queue_depth
      then Err (DlInvalid (''queue_depth '' @ show_nat queue_depth @ '' must be power of 2 in 1..='' @ show_nat MAX_QD))
      else if max_io_bytes = 0 \<or> max_io_bytes > MAX_IO
      then Err (DlInvalid (''max_io_bytes '' @ show_nat max_io_bytes @ '' out of range''))
      else if block_size \<noteq> 512 \<and> block_size \<noteq> 4096
      then Err (DlInvalid ''block_size must be 512 or 4096'')
      else case checked_mul u64_max queue_depth max_io_bytes of
          None \<Rightarrow> Err (DlInvalid ''data area overflow'')
        | Some data_len \<Rightarrow>
            if data_len > 4 * 1024 * 1024 then Err (DlInvalid ''queue_depth * max_io_bytes exceeds 4 MiB'')
            else let h = \<lparr>rh_magic = RING_MAGIC, rh_entries = queue_depth, rh_head = 0, rh_tail = 0\<rparr>
                 in Ok \<lparr>iq_queue_depth = queue_depth, iq_max_io_bytes = max_io_bytes, iq_block_size = block_size,
                       iq_sq_hdr = h, iq_cq_hdr = h,
                       iq_sq_entries = replicate queue_depth
                         \<lparr>sq_tag = 0, sq_op = 0, sq_flags = 0, sq_offset = 0, sq_len = 0, sq_buf_slot = 0\<rparr>,
                       iq_cq_entries = replicate queue_depth \<lparr>cq_tag = 0, cq_status = 0, cq_reserved = 0\<rparr>,
                       iq_data = replicate data_len 0\<rparr>)"

definition slot_slice :: "im_queue \<Rightarrow> nat \<Rightarrow> nat \<Rightarrow> (nat \<times> nat, driver_link_error) result" where
  "slot_slice q slot len =
     (if slot \<ge> iq_queue_depth q then Err (DlInvalid (''buf_slot '' @ show_nat slot))
      else if len > iq_max_io_bytes q then Err (DlInvalid (''len '' @ show_nat len @ '' > max_io''))
      else let start = slot * iq_max_io_bytes q
           in case checked_add u64_max start len of
                None \<Rightarrow> Err (DlInvalid ''slot range overflow'')
              | Some endpos \<Rightarrow>
                  if endpos > length (iq_data q) then Err (DlInvalid ''slot out of data area'') else Ok (start, endpos))"

definition driver_submit :: "sqe \<Rightarrow> im_queue \<Rightarrow> im_queue \<times> (unit, driver_link_error) result" where
  "driver_submit e q =
     (case ring_push (iq_queue_depth q) e (iq_sq_hdr q, iq_sq_entries q) of
        None \<Rightarrow> (q, Err DlFull)
      | Some (h, es) \<Rightarrow> (q\<lparr>iq_sq_hdr := h, iq_sq_entries := es\<rparr>, Ok ()))"

definition iq_write_slot :: "nat \<Rightarrow> byte list \<Rightarrow> im_queue \<Rightarrow> im_queue \<times> (unit, driver_link_error) result" where
  "iq_write_slot slot bs q =
     (case slot_slice q slot (length bs mod 2 ^ 32) of
        Err e \<Rightarrow> (q, Err e)
      | Ok (start, _) \<Rightarrow> (q\<lparr>iq_data := write_range start bs (iq_data q)\<rparr>, Ok ()))"

definition iq_read_slot :: "im_queue \<Rightarrow> nat \<Rightarrow> nat \<Rightarrow> (byte list, driver_link_error) result" where
  "iq_read_slot q slot len =
     (case slot_slice q slot len of
        Err e \<Rightarrow> Err e
      | Ok (start, endpos) \<Rightarrow> Ok (read_range start (endpos - start) (iq_data q)))"

definition driver_complete :: "im_queue \<Rightarrow> im_queue \<times> cqe option" where
  "driver_complete q =
     (case ring_pop (iq_queue_depth q) (iq_cq_hdr q, iq_cq_entries q) of
        None \<Rightarrow> (q, None)
      | Some (h, c) \<Rightarrow> (q\<lparr>iq_cq_hdr := h\<rparr>, Some c))"

definition iq_pop_sqe :: "im_queue \<Rightarrow> im_queue \<times> sqe option" where
  "iq_pop_sqe q =
     (case ring_pop (iq_queue_depth q) (iq_sq_hdr q, iq_sq_entries q) of
        None \<Rightarrow> (q, None)
      | Some (h, e) \<Rightarrow> (q\<lparr>iq_sq_hdr := h\<rparr>, Some e))"

definition iq_push_cqe :: "im_queue \<Rightarrow> cqe \<Rightarrow> im_queue \<times> (unit, driver_link_error) result" where
  "iq_push_cqe q c =
     (case ring_push (iq_queue_depth q) c (iq_cq_hdr q, iq_cq_entries q) of
        None \<Rightarrow> (q, Err DlFull)
      | Some (h, es) \<Rightarrow> (q\<lparr>iq_cq_hdr := h, iq_cq_entries := es\<rparr>, Ok ()))"

text \<open>\<open>QueueAccess\<close>.\<close>

record 'q queue_ops =
  qo_queue_depth :: "'q \<Rightarrow> nat"
  qo_max_io_bytes :: "'q \<Rightarrow> nat"
  qo_block_size :: "'q \<Rightarrow> nat"
  qo_sq_pending :: "'q \<Rightarrow> nat"
  qo_pop_sqe_snapshot :: "'q \<Rightarrow> 'q \<times> sqe option"
  qo_read_slot_owned :: "'q \<Rightarrow> nat \<Rightarrow> nat \<Rightarrow> (byte list, driver_link_error) result"
  qo_write_slot_from :: "'q \<Rightarrow> nat \<Rightarrow> byte list \<Rightarrow> 'q \<times> (unit, driver_link_error) result"
  qo_push_cqe :: "'q \<Rightarrow> cqe \<Rightarrow> 'q \<times> (unit, driver_link_error) result"

definition im_queue_ops :: "im_queue queue_ops" where
  "im_queue_ops =
     \<lparr>qo_queue_depth = iq_queue_depth, qo_max_io_bytes = iq_max_io_bytes, qo_block_size = iq_block_size,
      qo_sq_pending = (\<lambda>q. unat (rh_tail (iq_sq_hdr q) - rh_head (iq_sq_hdr q))),
      qo_pop_sqe_snapshot = iq_pop_sqe, qo_read_slot_owned = iq_read_slot,
      qo_write_slot_from = (\<lambda>q slot bs. iq_write_slot slot bs q), qo_push_cqe = iq_push_cqe\<rparr>"

subsection \<open>Statistics\<close>

definition LATENCY_WINDOW :: nat where "LATENCY_WINDOW = 1024"

record io_stats =
  is_reads :: nat
  is_writes :: nat
  is_flushes :: nat
  is_bytes_read :: nat
  is_bytes_written :: nat
  is_errors :: nat
  is_latencies_us :: "nat list"

record link_stats =
  lk_public :: io_stats
  lk_latency_window :: "nat list"
  lk_latency_len :: nat
  lk_latency_next :: nat

definition io_stats_default :: io_stats where
  "io_stats_default = \<lparr>is_reads = 0, is_writes = 0, is_flushes = 0, is_bytes_read = 0, is_bytes_written = 0,
     is_errors = 0, is_latencies_us = []\<rparr>"

definition link_stats_default :: link_stats where
  "link_stats_default = \<lparr>lk_public = io_stats_default, lk_latency_window = replicate LATENCY_WINDOW 0,
     lk_latency_len = 0, lk_latency_next = 0\<rparr>"

definition count_public :: "sqe \<Rightarrow> int \<Rightarrow> io_stats \<Rightarrow> io_stats" where
  "count_public e status p =
     (if status = ST_OK \<and> sq_op e = OP_READ then
        p\<lparr>is_reads := wrapping_add u64_max (is_reads p) 1, is_bytes_read := wrapping_add u64_max (is_bytes_read p) (sq_len e)\<rparr>
      else if status = ST_OK \<and> sq_op e = OP_WRITE then
        p\<lparr>is_writes := wrapping_add u64_max (is_writes p) 1, is_bytes_written := wrapping_add u64_max (is_bytes_written p) (sq_len e)\<rparr>
      else if status = ST_OK \<and> sq_op e = OP_FLUSH then p\<lparr>is_flushes := wrapping_add u64_max (is_flushes p) 1\<rparr>
      else p\<lparr>is_errors := wrapping_add u64_max (is_errors p) 1\<rparr>)"

definition stats_record :: "sqe \<Rightarrow> int \<Rightarrow> nat \<Rightarrow> link_stats \<Rightarrow> link_stats" where
  "stats_record e status latency_us s =
     s\<lparr>lk_public := count_public e status (lk_public s),
       lk_latency_window := (lk_latency_window s)[lk_latency_next s := latency_us],
       lk_latency_next := (lk_latency_next s + 1) mod LATENCY_WINDOW,
       lk_latency_len := min (saturating_add u64_max (lk_latency_len s) 1) LATENCY_WINDOW\<rparr>"

definition stats_snapshot :: "link_stats \<Rightarrow> io_stats" where
  "stats_snapshot s = (lk_public s)\<lparr>is_latencies_us := take (lk_latency_len s) (lk_latency_window s)\<rparr>"

subsection \<open>The I/O loop\<close>

record 'q driver_link =
  dl_q :: 'q
  dl_stop :: bool
  dl_backend_writes :: nat
  dl_stats :: link_stats

definition from_queue :: "'q \<Rightarrow> 'q driver_link" where
  "from_queue q = \<lparr>dl_q = q, dl_stop = False, dl_backend_writes = 0, dl_stats = link_stats_default\<rparr>"

definition request_stop :: "'q driver_link \<Rightarrow> 'q driver_link" where
  "request_stop l = l\<lparr>dl_stop := True\<rparr>"

text \<open>The checks of an entry, on its owned copy.\<close>

definition sqe_valid :: "nat \<Rightarrow> nat \<Rightarrow> nat \<Rightarrow> nat \<Rightarrow> sqe \<Rightarrow> bool" where
  "sqe_valid depth max_io bs size_bytes e \<longleftrightarrow>
     sq_flags e = 0 \<and>
     (sq_op e = OP_FLUSH \<or>
      (sq_op e = OP_READ \<or> sq_op e = OP_WRITE) \<and> sq_len e \<noteq> 0 \<and> sq_len e \<le> max_io \<and>
      is_multiple_of (sq_offset e) bs \<and> is_multiple_of (sq_len e) bs \<and> sq_buf_slot e < depth \<and>
      (case checked_add u64_max (sq_offset e) (sq_len e) of None \<Rightarrow> False | Some endpos \<Rightarrow> endpos \<le> size_bytes))"

definition serve_one ::
  "'q queue_ops \<Rightarrow> 'b backend_ops \<Rightarrow> sqe \<Rightarrow> 'q driver_link \<times> 'b \<Rightarrow> ('q driver_link \<times> 'b) \<times> int" where
  "serve_one qops bops e lb =
     (let (l, b) = lb; q = dl_q l
      in if \<not> sqe_valid (qo_queue_depth qops q) (qo_max_io_bytes qops q) (qo_block_size qops q) (be_size_bytes bops b) e
         then ((l, b), ST_EINVAL)
         else if sq_op e = OP_READ then
           (case be_read_at bops b (sq_offset e) (sq_len e) of
              (b', Err _) \<Rightarrow> ((l, b'), ST_EIO)
            | (b', Ok buf) \<Rightarrow>
                (case qo_write_slot_from qops q (sq_buf_slot e) buf of
                   (q', Err _) \<Rightarrow> ((l\<lparr>dl_q := q'\<rparr>, b'), ST_EINVAL)
                 | (q', Ok _) \<Rightarrow> ((l\<lparr>dl_q := q'\<rparr>, b'), ST_OK)))
         else if sq_op e = OP_WRITE then
           (case qo_read_slot_owned qops q (sq_buf_slot e) (sq_len e) of
              Err _ \<Rightarrow> ((l, b), ST_EINVAL)
            | Ok bs \<Rightarrow>
                let l' = l\<lparr>dl_backend_writes := wrapping_add u32_max (dl_backend_writes l) 1\<rparr>
                in case be_write_at bops b (sq_offset e) bs of
                     (b', Err _) \<Rightarrow> ((l', b'), ST_EIO)
                   | (b', Ok _) \<Rightarrow> ((l', b'), ST_OK))
         else
           (case be_flush bops b of
              (b', Err _) \<Rightarrow> ((l, b'), ST_EIO)
            | (b', Ok _) \<Rightarrow> ((l, b'), ST_OK)))"

text \<open>
  The loop drains the submission ring; a producer that keeps up can keep it going, so that its value
  is an option. \<open>lat n\<close> is the time the \<open>n\<close>-th request takes, in microseconds.
\<close>

partial_function (option) fetch_loop ::
  "'q queue_ops \<Rightarrow> 'b backend_ops \<Rightarrow> (nat \<Rightarrow> nat) \<Rightarrow> nat \<Rightarrow> 'q driver_link \<times> 'b \<Rightarrow>
   (('q driver_link \<times> 'b) \<times> (nat, driver_link_error) result) option" where
  "fetch_loop qops bops lat n lb =
     (case qo_pop_sqe_snapshot qops (dl_q (fst lb)) of
        (q, None) \<Rightarrow> Some (((fst lb)\<lparr>dl_q := q\<rparr>, snd lb), Ok n)
      | (q, Some e) \<Rightarrow>
          let ((l1, b1), status) = serve_one qops bops e ((fst lb)\<lparr>dl_q := q\<rparr>, snd lb);
              l2 = l1\<lparr>dl_stats := stats_record e status (min (lat n) u64_max) (dl_stats l1)\<rparr>
          in case qo_push_cqe qops (dl_q l2) \<lparr>cq_tag = sq_tag e, cq_status = status, cq_reserved = 0\<rparr> of
               (q', Err err) \<Rightarrow> Some ((l2\<lparr>dl_q := q'\<rparr>, b1), Err err)
             | (q', Ok _) \<Rightarrow> fetch_loop qops bops lat (wrapping_add u32_max n 1) (l2\<lparr>dl_q := q'\<rparr>, b1))"

definition commit_and_fetch ::
  "'q queue_ops \<Rightarrow> 'b backend_ops \<Rightarrow> (nat \<Rightarrow> nat) \<Rightarrow> 'q driver_link \<times> 'b \<Rightarrow>
   (('q driver_link \<times> 'b) \<times> (nat, driver_link_error) result) option" where
  "commit_and_fetch qops bops lat lb =
     (if dl_stop (fst lb) then Some (lb, Err DlStopped) else fetch_loop qops bops lat 0 lb)"

fun run_io_loop ::
  "'q queue_ops \<Rightarrow> 'b backend_ops \<Rightarrow> (nat \<Rightarrow> nat \<Rightarrow> nat) \<Rightarrow> nat \<Rightarrow> nat \<Rightarrow> 'q driver_link \<times> 'b \<Rightarrow>
   (('q driver_link \<times> 'b) \<times> (nat, driver_link_error) result) option" where
  "run_io_loop qops bops lat 0 served_count lb = Some (lb, Ok served_count)"
| "run_io_loop qops bops lat (Suc k) served_count lb =
     (if dl_stop (fst lb) then Some (lb, Ok served_count)
      else case commit_and_fetch qops bops (lat k) lb of
          None \<Rightarrow> None
        | Some (lb', Err e) \<Rightarrow> Some (lb', Err e)
        | Some (lb', Ok n) \<Rightarrow> run_io_loop qops bops lat k (wrapping_add u32_max served_count n) lb')"


subsection \<open>Rings are queues\<close>

lemma power_of_two: "is_power_of_two n \<Longrightarrow> \<exists>k. n = 2 ^ k"
proof (induction n rule: is_power_of_two.induct)
  case (1 n)
  show ?case
  proof (cases "n \<le> 1")
    case True
    then show ?thesis using 1(2) by (metis is_power_of_two.simps power_0)
  next
    case False
    then have "even n" "is_power_of_two (n div 2)" using 1(2) by (metis is_power_of_two.simps)+
    with 1(1) False obtain k where "n div 2 = 2 ^ k" by blast
    with \<open>even n\<close> have "n = 2 ^ Suc k" by (simp add: dvd_div_eq_mult)
    then show ?thesis by blast
  qed
qed

definition ring_depth :: "nat \<Rightarrow> bool" where
  "ring_depth d \<longleftrightarrow> (\<exists>k. d = 2 ^ k) \<and> d \<le> 256"

lemma ring_depth_exp:
  assumes "ring_depth d"
  obtains k where "d = 2 ^ k" "k \<le> 8"
proof -
  obtain k where k: "d = 2 ^ k" "d \<le> 256" using assms by (auto simp: ring_depth_def)
  then have "(2 :: nat) ^ k \<le> 2 ^ 8" by simp
  then have "k \<le> 8" by (simp only: power_increasing_iff)
  with k that show ?thesis by blast
qed

lemma ring_depth_dvd: "ring_depth d \<Longrightarrow> d dvd 2 ^ 32"
  by (erule ring_depth_exp) (simp only: le_imp_power_dvd)

lemma ring_index: "ring_depth d \<Longrightarrow> unat (w AND ring_mask d) = unat w mod d"
proof (erule ring_depth_exp)
  fix k assume k: "d = 2 ^ k" "k \<le> 8"
  have "ring_mask d = mask k" using k by (simp add: ring_mask_def mask_eq_exp_minus_1)
  then have "w AND ring_mask d = take_bit k w" by (simp only: take_bit_eq_mask)
  moreover have "unat (take_bit k w) = take_bit k (unat w)" by (rule unsigned_take_bit_eq)
  ultimately show ?thesis using k(1) by (simp only: take_bit_eq_mod)
qed

definition ring_count :: "ring_hdr \<Rightarrow> nat" where
  "ring_count h = unat (rh_tail h - rh_head h)"

definition ring_items :: "nat \<Rightarrow> ring_hdr \<times> 'a list \<Rightarrow> 'a list" where
  "ring_items d r = map (\<lambda>i. snd r ! ((unat (rh_head (fst r)) + i) mod d)) [0..<ring_count (fst r)]"

definition ring_wf :: "nat \<Rightarrow> ring_hdr \<times> 'a list \<Rightarrow> bool" where
  "ring_wf d r \<longleftrightarrow> ring_depth d \<and> length (snd r) = d \<and> ring_count (fst r) \<le> d"

lemma ring_depth_pos: "ring_depth d \<Longrightarrow> 0 < d \<and> d \<le> 256"
  by (auto simp: ring_depth_def)

lemma length_ring_items [simp]: "length (ring_items d r) = ring_count (fst r)"
  by (simp add: ring_items_def)

lemma tail_index:
  assumes "ring_depth d"
  shows "unat (rh_tail h) mod d = (unat (rh_head h) + ring_count h) mod d"
proof -
  have "unat (rh_head h + (rh_tail h - rh_head h)) = (unat (rh_head h) + ring_count h) mod 2 ^ 32"
    unfolding ring_count_def unat_word_ariths(1) by simp
  then have "unat (rh_tail h) = (unat (rh_head h) + ring_count h) mod 2 ^ 32" by simp
  then show ?thesis using mod_mod_cancel [OF ring_depth_dvd [OF assms]] by simp
qed

lemma unat_next: "ring_count h \<le> 256 \<Longrightarrow> unat (rh_tail h + 1 - rh_head h) = ring_count h + 1"
proof -
  assume c: "ring_count h \<le> 256"
  have eq: "rh_tail h + 1 - rh_head h = (rh_tail h - rh_head h) + 1" by simp
  show ?thesis using c unfolding eq unat_word_ariths(1) by (simp add: ring_count_def)
qed

lemma ring_push_law:
  assumes "ring_wf d (h, es)"
  shows "ring_push d x (h, es) =
    (if ring_count h < d then Some (h\<lparr>rh_tail := rh_tail h + 1\<rparr>, es[unat (rh_tail h) mod d := x]) else None)"
proof -
  have d: "ring_depth d" "ring_count h \<le> d" using assms by (auto simp: ring_wf_def)
  note pos = ring_depth_pos [OF d(1)]
  have "unat (rh_tail h + 1 - rh_head h) = ring_count h + 1" using unat_next [of h] d(2) pos by simp
  moreover have "unat (of_nat d :: 32 word) = d" using pos by (simp add: unat_of_nat)
  ultimately have "rh_tail h + 1 - rh_head h > of_nat d \<longleftrightarrow> d < ring_count h + 1" by (simp add: word_less_nat_alt)
  then show ?thesis using ring_index [OF d(1)] by (auto simp: ring_push_def Let_def)
qed

lemma ring_push_count:
  "ring_depth d \<Longrightarrow> ring_count h < d \<Longrightarrow> ring_count (h\<lparr>rh_tail := rh_tail h + 1\<rparr>) = ring_count h + 1"
  using unat_next [of h] ring_depth_pos [of d] by (simp add: ring_count_def)

lemma ring_push_items:
  assumes "ring_wf d (h, es)" "ring_count h < d"
  shows "ring_wf d (h\<lparr>rh_tail := rh_tail h + 1\<rparr>, es[unat (rh_tail h) mod d := x])"
    and "ring_items d (h\<lparr>rh_tail := rh_tail h + 1\<rparr>, es[unat (rh_tail h) mod d := x]) = ring_items d (h, es) @ [x]"
proof -
  have d: "ring_depth d" "length es = d" using assms(1) by (auto simp: ring_wf_def)
  note pos = ring_depth_pos [OF d(1)] and n = ring_push_count [OF d(1) assms(2)]
  show "ring_wf d (h\<lparr>rh_tail := rh_tail h + 1\<rparr>, es[unat (rh_tail h) mod d := x])"
    using d n assms(2) by (simp add: ring_wf_def)
  let ?t = "(unat (rh_head h) + ring_count h) mod d"
  have neq: "(unat (rh_head h) + i) mod d \<noteq> ?t" if "i < ring_count h" for i
  proof
    assume "(unat (rh_head h) + i) mod d = ?t"
    then have "d dvd ring_count h - i" using that by (metis add_diff_cancel_left mod_eq_dvd_iff_nat nat_add_left_cancel_le less_imp_le)
    with that assms(2) show False by (auto dest: dvd_imp_le)
  qed
  have "es[?t := x] ! ((unat (rh_head h) + i) mod d) = es ! ((unat (rh_head h) + i) mod d)" if "i < ring_count h" for i
    using neq [OF that] by (simp add: nth_list_update)
  moreover have "es[?t := x] ! ?t = x" using d(2) pos by simp
  ultimately show "ring_items d (h\<lparr>rh_tail := rh_tail h + 1\<rparr>, es[unat (rh_tail h) mod d := x]) = ring_items d (h, es) @ [x]"
    using n tail_index [OF d(1), of h] by (simp add: ring_items_def)
qed

lemma ring_pop_law:
  assumes "ring_wf d (h, es)"
  shows "ring_pop d (h, es) = (case ring_items d (h, es) of [] \<Rightarrow> None | x # _ \<Rightarrow> Some (h\<lparr>rh_head := rh_head h + 1\<rparr>, x))"
proof -
  have d: "ring_depth d" using assms by (simp add: ring_wf_def)
  have z: "rh_head h = rh_tail h \<longleftrightarrow> ring_count h = 0" by (auto simp: ring_count_def unat_eq_0)
  have "ring_items d (h, es) = (es ! (unat (rh_head h) mod d)) # tl (ring_items d (h, es))" if "ring_count h \<noteq> 0"
    using that by (cases "ring_count h") (simp_all add: ring_items_def upt_conv_Cons del: upt_Suc)
  moreover have "ring_items d (h, es) = []" if "ring_count h = 0" using that by (simp add: ring_items_def)
  ultimately show ?thesis using z ring_index [OF d, of "rh_head h"]
    by (cases "ring_count h = 0") (auto simp: ring_pop_def split: list.split)
qed

lemma ring_pop_items:
  assumes "ring_wf d (h, es)" "ring_items d (h, es) = x # xs"
  shows "ring_wf d (h\<lparr>rh_head := rh_head h + 1\<rparr>, es)" "ring_items d (h\<lparr>rh_head := rh_head h + 1\<rparr>, es) = xs"
proof -
  have d: "ring_depth d" using assms by (simp add: ring_wf_def)
  have n: "0 < ring_count h" "length xs = ring_count h - 1" using arg_cong [OF assms(2), of length] by simp_all
  have "unat (rh_tail h - (rh_head h + 1)) = ring_count h - 1"
  proof -
    have eq: "rh_tail h - (rh_head h + 1) = (rh_tail h - rh_head h) - 1" by simp
    have "unat ((rh_tail h - rh_head h) - 1) = unat (rh_tail h - rh_head h) - 1"
      using n(1) by (intro unat_minus_one) (auto simp: ring_count_def)
    then show ?thesis unfolding eq by (simp add: ring_count_def)
  qed
  then have c: "ring_count (h\<lparr>rh_head := rh_head h + 1\<rparr>) = ring_count h - 1" by (simp add: ring_count_def)
  then show "ring_wf d (h\<lparr>rh_head := rh_head h + 1\<rparr>, es)" using assms(1) by (auto simp: ring_wf_def)
  have hd: "(unat (rh_head h + 1) + i) mod d = (unat (rh_head h) + Suc i) mod d" for i
  proof -
    have "unat (rh_head h + 1) = (unat (rh_head h) + 1) mod 2 ^ 32" unfolding unat_word_ariths(1) by simp
    then have "unat (rh_head h + 1) mod d = (unat (rh_head h) + 1) mod d"
      using mod_mod_cancel [OF ring_depth_dvd [OF d]] by simp
    then show ?thesis by (metis add_Suc_shift mod_add_left_eq plus_1_eq_Suc add.commute)
  qed
  have "xs ! i = es ! ((unat (rh_head h) + Suc i) mod d)" if "i < ring_count h - 1" for i
  proof -
    have "xs ! i = ring_items d (h, es) ! Suc i" using assms(2) by simp
    also have "\<dots> = es ! ((unat (rh_head h) + Suc i) mod d)"
      using that less_diff_conv [of i "ring_count h" 1] by (simp add: ring_items_def)
    finally show ?thesis .
  qed
  then show "ring_items d (h\<lparr>rh_head := rh_head h + 1\<rparr>, es) = xs"
    by (intro nth_equalityI) (use n c hd in \<open>simp_all add: ring_items_def\<close>)
qed

subsection \<open>The contract of a queue\<close>

text \<open>
  What the loop relies on: submissions come out in order, completions go in at the end while there is
  room, slots hold what was last put there, and none of these disturbs the others.
\<close>

locale driver_queue =
  fixes qops :: "'q queue_ops"
    and sub :: "'q \<Rightarrow> sqe list"
    and comp :: "'q \<Rightarrow> cqe list"
    and slot :: "'q \<Rightarrow> nat \<Rightarrow> byte list"
    and good :: "'q \<Rightarrow> bool"
  assumes pop_law: "good q \<Longrightarrow> qo_pop_sqe_snapshot qops q = (q', r) \<Longrightarrow>
      good q' \<and> comp q' = comp q \<and> slot q' = slot q \<and> qo_queue_depth qops q' = qo_queue_depth qops q \<and>
      qo_max_io_bytes qops q' = qo_max_io_bytes qops q \<and> qo_block_size qops q' = qo_block_size qops q \<and>
      (case sub q of [] \<Rightarrow> r = None \<and> sub q' = [] | e # es \<Rightarrow> r = Some e \<and> sub q' = es)"
    and push_law: "good q \<Longrightarrow> qo_push_cqe qops q c = (q', w) \<Longrightarrow>
      good q' \<and> sub q' = sub q \<and> slot q' = slot q \<and> qo_queue_depth qops q' = qo_queue_depth qops q \<and>
      qo_max_io_bytes qops q' = qo_max_io_bytes qops q \<and> qo_block_size qops q' = qo_block_size qops q \<and>
      (if length (comp q) < qo_queue_depth qops q then w = Ok () \<and> comp q' = comp q @ [c]
       else w = Err DlFull \<and> comp q' = comp q)"
    and read_slot_law: "good q \<Longrightarrow> s < qo_queue_depth qops q \<Longrightarrow> n \<le> qo_max_io_bytes qops q \<Longrightarrow>
      qo_read_slot_owned qops q s n = Ok (take n (slot q s))"
    and write_slot_law: "good q \<Longrightarrow> s < qo_queue_depth qops q \<Longrightarrow> length bs \<le> qo_max_io_bytes qops q \<Longrightarrow>
      qo_write_slot_from qops q s bs = (q', w) \<Longrightarrow>
      w = Ok () \<and> good q' \<and> sub q' = sub q \<and> comp q' = comp q \<and>
      qo_queue_depth qops q' = qo_queue_depth qops q \<and>
      qo_max_io_bytes qops q' = qo_max_io_bytes qops q \<and> qo_block_size qops q' = qo_block_size qops q \<and>
      (\<forall>t < qo_queue_depth qops q. slot q' t = (if t = s then bs @ drop (length bs) (slot q s) else slot q t))"
    and bounds: "good q \<Longrightarrow> length (sub q) \<le> qo_queue_depth qops q \<and> length (comp q) \<le> qo_queue_depth qops q \<and>
      qo_queue_depth qops q \<le> MAX_QD \<and> (\<forall>s < qo_queue_depth qops q. length (slot q s) = qo_max_io_bytes qops q)"

definition iq_sub :: "im_queue \<Rightarrow> sqe list" where
  "iq_sub q = ring_items (iq_queue_depth q) (iq_sq_hdr q, iq_sq_entries q)"

definition iq_comp :: "im_queue \<Rightarrow> cqe list" where
  "iq_comp q = ring_items (iq_queue_depth q) (iq_cq_hdr q, iq_cq_entries q)"

definition iq_slot :: "im_queue \<Rightarrow> nat \<Rightarrow> byte list" where
  "iq_slot q s = read_range (s * iq_max_io_bytes q) (iq_max_io_bytes q) (iq_data q)"

definition iq_wf :: "im_queue \<Rightarrow> bool" where
  "iq_wf q \<longleftrightarrow> ring_wf (iq_queue_depth q) (iq_sq_hdr q, iq_sq_entries q) \<and>
     ring_wf (iq_queue_depth q) (iq_cq_hdr q, iq_cq_entries q) \<and>
     length (iq_data q) = iq_queue_depth q * iq_max_io_bytes q \<and> iq_max_io_bytes q \<le> MAX_IO"

lemmas iq_views = iq_sub_def iq_comp_def iq_slot_def iq_wf_def

lemma new_queue:
  assumes "im_queue_new depth max_io bs = Ok q"
  shows "iq_wf q" "iq_sub q = []" "iq_comp q = []" "iq_queue_depth q = depth" "iq_max_io_bytes q = max_io"
    "iq_block_size q = bs" "bs \<noteq> 0" "\<forall>s < depth. iq_slot q s = replicate max_io 0"
proof -
  have c: "depth \<noteq> 0" "depth \<le> MAX_QD" "is_power_of_two depth" "max_io \<le> MAX_IO"
    and q: "iq_queue_depth q = depth" "iq_max_io_bytes q = max_io" "iq_block_size q = bs" "bs \<noteq> 0"
      "iq_data q = replicate (depth * max_io) 0" "ring_count (iq_sq_hdr q) = 0" "ring_count (iq_cq_hdr q) = 0"
      "length (iq_sq_entries q) = depth" "length (iq_cq_entries q) = depth"
    using assms by (auto simp: im_queue_new_def Let_def checked_mul_def ring_count_def split: if_splits)
  have "ring_depth depth" using power_of_two [OF c(3)] c(2) by (simp add: ring_depth_def MAX_QD_def)
  then show "iq_wf q" using c(4) q by (simp add: iq_wf_def ring_wf_def)
  show "iq_sub q = []" "iq_comp q = []" using q by (simp_all add: iq_views ring_items_def)
  have "s * max_io + max_io \<le> depth * max_io" if "s < depth" for s
    using mult_le_mono1 [of "Suc s" depth max_io] that by simp
  then show "\<forall>s < depth. iq_slot q s = replicate max_io 0"
    using q by (simp add: iq_slot_def read_range_replicate)
qed (use assms in \<open>auto simp: im_queue_new_def Let_def checked_mul_def split: if_splits\<close>)

lemma slot_slice_Ok:
  assumes "iq_wf q" "s < iq_queue_depth q" "n \<le> iq_max_io_bytes q"
  shows "slot_slice q s n = Ok (s * iq_max_io_bytes q, s * iq_max_io_bytes q + n)"
    and "s * iq_max_io_bytes q + iq_max_io_bytes q \<le> length (iq_data q)"
proof -
  have le: "s * iq_max_io_bytes q + iq_max_io_bytes q \<le> iq_queue_depth q * iq_max_io_bytes q"
    using mult_le_mono1 [of "Suc s" "iq_queue_depth q" "iq_max_io_bytes q"] assms(2) by simp
  have "iq_queue_depth q \<le> 256" "iq_max_io_bytes q \<le> MAX_IO"
    using assms(1) ring_depth_pos by (auto simp: iq_wf_def ring_wf_def)
  then have "iq_queue_depth q * iq_max_io_bytes q \<le> 256 * MAX_IO" by (intro mult_le_mono)
  then have "s * iq_max_io_bytes q + n \<le> u64_max" using le assms(3) by (simp add: MAX_IO_def u64_max_def)
  then show "slot_slice q s n = Ok (s * iq_max_io_bytes q, s * iq_max_io_bytes q + n)"
    using assms le by (simp add: slot_slice_def checked_add_def iq_wf_def Let_def)
  show "s * iq_max_io_bytes q + iq_max_io_bytes q \<le> length (iq_data q)" using assms(1) le by (simp add: iq_wf_def)
qed

lemma iq_write_slot_law:
  assumes "iq_wf q" "s < iq_queue_depth q" "length bs \<le> iq_max_io_bytes q"
  shows "\<exists>q'. iq_write_slot s bs q = (q', Ok ()) \<and> iq_wf q' \<and> iq_sub q' = iq_sub q \<and> iq_comp q' = iq_comp q \<and>
    iq_queue_depth q' = iq_queue_depth q \<and> iq_max_io_bytes q' = iq_max_io_bytes q \<and> iq_block_size q' = iq_block_size q \<and>
    (\<forall>t < iq_queue_depth q. iq_slot q' t = (if t = s then bs @ drop (length bs) (iq_slot q s) else iq_slot q t))"
proof -
  let ?m = "iq_max_io_bytes q" and ?q = "q\<lparr>iq_data := write_range (s * iq_max_io_bytes q) bs (iq_data q)\<rparr>"
  note slice = slot_slice_Ok [OF assms]
  have "length bs mod 2 ^ 32 = length bs" using assms(1,3) by (simp add: iq_wf_def MAX_IO_def)
  then have w: "iq_write_slot s bs q = (?q, Ok ())" using slice(1) by (simp add: iq_write_slot_def)
  have len: "s * ?m + length bs \<le> length (iq_data q)" using slice(2) assms(3) by simp
  have same: "read_range (s * ?m) ?m (write_range (s * ?m) bs (iq_data q)) = bs @ drop (length bs) (read_range (s * ?m) ?m (iq_data q))"
    using len slice(2) assms(3)
    by (intro nth_equalityI) (auto simp: store_simps nth_append)
  have other: "iq_slot ?q t = iq_slot q t" if "t < iq_queue_depth q" "t \<noteq> s" for t
  proof -
    have "t * ?m + ?m \<le> s * ?m \<or> s * ?m + ?m \<le> t * ?m"
      using that(2) mult_le_mono1 [of "Suc t" s ?m] mult_le_mono1 [of "Suc s" t ?m] by (cases "t < s") simp_all
    then show ?thesis using slot_slice_Ok(2) [OF assms(1) that(1) le_refl] len assms(3)
      by (simp add: iq_slot_def) (rule read_range_write_range_disjoint, auto)
  qed
  show ?thesis using w same other assms(1) len by (auto simp: iq_views store_simps)
qed

lemma iq_pop_law:
  assumes "iq_wf q"
  shows "iq_pop_sqe q = (case iq_sub q of [] \<Rightarrow> (q, None)
    | e # _ \<Rightarrow> (q\<lparr>iq_sq_hdr := (iq_sq_hdr q)\<lparr>rh_head := rh_head (iq_sq_hdr q) + 1\<rparr>\<rparr>, Some e))"
  using ring_pop_law [of "iq_queue_depth q" "iq_sq_hdr q" "iq_sq_entries q"] assms
  by (auto simp: iq_pop_sqe_def iq_views split: list.splits)

lemma iq_popped:
  assumes "iq_wf q" "iq_sub q = e # es"
  shows "iq_wf (q\<lparr>iq_sq_hdr := (iq_sq_hdr q)\<lparr>rh_head := rh_head (iq_sq_hdr q) + 1\<rparr>\<rparr>)"
    "iq_sub (q\<lparr>iq_sq_hdr := (iq_sq_hdr q)\<lparr>rh_head := rh_head (iq_sq_hdr q) + 1\<rparr>\<rparr>) = es"
  using ring_pop_items [of "iq_queue_depth q" "iq_sq_hdr q" "iq_sq_entries q"] assms by (auto simp: iq_views)

lemma iq_push_law:
  assumes "iq_wf q"
  shows "\<exists>q'. iq_push_cqe q c = (q', if length (iq_comp q) < iq_queue_depth q then Ok () else Err DlFull) \<and>
    iq_wf q' \<and> iq_sub q' = iq_sub q \<and> iq_slot q' = iq_slot q \<and>
    iq_queue_depth q' = iq_queue_depth q \<and> iq_max_io_bytes q' = iq_max_io_bytes q \<and> iq_block_size q' = iq_block_size q \<and>
    iq_comp q' = (if length (iq_comp q) < iq_queue_depth q then iq_comp q @ [c] else iq_comp q)"
  using ring_push_law [of "iq_queue_depth q" "iq_cq_hdr q" "iq_cq_entries q" c]
    ring_push_items [of "iq_queue_depth q" "iq_cq_hdr q" "iq_cq_entries q" c] assms
  by (auto simp: iq_push_cqe_def iq_views fun_eq_iff)

lemma iq_submit_law:
  assumes "iq_wf q"
  shows "\<exists>q'. driver_submit e q = (q', if length (iq_sub q) < iq_queue_depth q then Ok () else Err DlFull) \<and>
    iq_wf q' \<and> iq_comp q' = iq_comp q \<and> iq_slot q' = iq_slot q \<and>
    iq_queue_depth q' = iq_queue_depth q \<and> iq_max_io_bytes q' = iq_max_io_bytes q \<and> iq_block_size q' = iq_block_size q \<and>
    iq_sub q' = (if length (iq_sub q) < iq_queue_depth q then iq_sub q @ [e] else iq_sub q)"
  using ring_push_law [of "iq_queue_depth q" "iq_sq_hdr q" "iq_sq_entries q" e]
    ring_push_items [of "iq_queue_depth q" "iq_sq_hdr q" "iq_sq_entries q" e] assms
  by (auto simp: driver_submit_def iq_views fun_eq_iff)

lemma iq_complete_law:
  assumes "iq_wf q"
  shows "\<exists>q'. driver_complete q = (q', case iq_comp q of [] \<Rightarrow> None | c # _ \<Rightarrow> Some c) \<and>
    iq_wf q' \<and> iq_sub q' = iq_sub q \<and> iq_slot q' = iq_slot q \<and>
    iq_queue_depth q' = iq_queue_depth q \<and> iq_max_io_bytes q' = iq_max_io_bytes q \<and> iq_block_size q' = iq_block_size q \<and>
    iq_comp q' = tl (iq_comp q)"
  using ring_pop_law [of "iq_queue_depth q" "iq_cq_hdr q" "iq_cq_entries q"]
    ring_pop_items [of "iq_queue_depth q" "iq_cq_hdr q" "iq_cq_entries q"] assms
  by (cases "iq_comp q") (auto simp: driver_complete_def iq_views fun_eq_iff)

interpretation mem_queue: driver_queue im_queue_ops iq_sub iq_comp iq_slot iq_wf
proof
  fix q q' r
  assume q: "iq_wf q" "qo_pop_sqe_snapshot im_queue_ops q = (q', r)"
  then show "iq_wf q' \<and> iq_comp q' = iq_comp q \<and> iq_slot q' = iq_slot q \<and>
      qo_queue_depth im_queue_ops q' = qo_queue_depth im_queue_ops q \<and>
      qo_max_io_bytes im_queue_ops q' = qo_max_io_bytes im_queue_ops q \<and> qo_block_size im_queue_ops q' = qo_block_size im_queue_ops q \<and>
      (case iq_sub q of [] \<Rightarrow> r = None \<and> iq_sub q' = [] | e # es \<Rightarrow> r = Some e \<and> iq_sub q' = es)"
    using iq_pop_law [OF q(1)] iq_popped [OF q(1)]
    by (cases "iq_sub q") (auto simp: im_queue_ops_def iq_comp_def iq_slot_def fun_eq_iff)
next
  fix q c q' r
  assume "iq_wf q" "qo_push_cqe im_queue_ops q c = (q', r)"
  then show "iq_wf q' \<and> iq_sub q' = iq_sub q \<and> iq_slot q' = iq_slot q \<and>
      qo_queue_depth im_queue_ops q' = qo_queue_depth im_queue_ops q \<and>
      qo_max_io_bytes im_queue_ops q' = qo_max_io_bytes im_queue_ops q \<and> qo_block_size im_queue_ops q' = qo_block_size im_queue_ops q \<and>
      (if length (iq_comp q) < qo_queue_depth im_queue_ops q then r = Ok () \<and> iq_comp q' = iq_comp q @ [c]
       else r = Err DlFull \<and> iq_comp q' = iq_comp q)"
    using iq_push_law [of q c] by (auto simp: im_queue_ops_def)
next
  fix q s n
  assume q: "iq_wf q" "s < qo_queue_depth im_queue_ops q" "n \<le> qo_max_io_bytes im_queue_ops q"
  then show "qo_read_slot_owned im_queue_ops q s n = Ok (take n (iq_slot q s))"
    using slot_slice_Ok(1) [of q s n] by (simp add: im_queue_ops_def iq_read_slot_def iq_slot_def read_range_def min_def)
next
  fix q s bs q' r
  assume "iq_wf q" "s < qo_queue_depth im_queue_ops q" "length bs \<le> qo_max_io_bytes im_queue_ops q"
    "qo_write_slot_from im_queue_ops q s bs = (q', r)"
  then show "r = Ok () \<and> iq_wf q' \<and> iq_sub q' = iq_sub q \<and> iq_comp q' = iq_comp q \<and>
      qo_queue_depth im_queue_ops q' = qo_queue_depth im_queue_ops q \<and>
      qo_max_io_bytes im_queue_ops q' = qo_max_io_bytes im_queue_ops q \<and> qo_block_size im_queue_ops q' = qo_block_size im_queue_ops q \<and>
      (\<forall>t < qo_queue_depth im_queue_ops q. iq_slot q' t = (if t = s then bs @ drop (length bs) (iq_slot q s) else iq_slot q t))"
    using iq_write_slot_law [of q s bs] by (auto simp: im_queue_ops_def)
next
  fix q
  assume q: "iq_wf q"
  then have "ring_depth (iq_queue_depth q)" by (simp add: iq_wf_def ring_wf_def)
  with q show "length (iq_sub q) \<le> qo_queue_depth im_queue_ops q \<and> length (iq_comp q) \<le> qo_queue_depth im_queue_ops q \<and>
      qo_queue_depth im_queue_ops q \<le> MAX_QD \<and>
      (\<forall>s < qo_queue_depth im_queue_ops q. length (iq_slot q s) = qo_max_io_bytes im_queue_ops q)"
    using slot_slice_Ok(2) [OF q _ le_refl] ring_depth_pos [of "iq_queue_depth q"]
    by (auto simp: im_queue_ops_def iq_views ring_wf_def MAX_QD_def store_simps)
qed

subsection \<open>Serving as a disk\<close>

text \<open>
  One entry on the abstract state: the slots and the disk. A refused entry changes nothing; a failed
  write may have changed the range it was for; a failed flush promises only the size.
\<close>

inductive entry_served ::
  "nat \<Rightarrow> nat \<Rightarrow> nat \<Rightarrow> sqe \<Rightarrow> (nat \<Rightarrow> byte list) \<times> byte list \<Rightarrow> int \<Rightarrow> (nat \<Rightarrow> byte list) \<times> byte list \<Rightarrow> bool"
  for depth max_io bs where
  es_refused: "\<not> sqe_valid depth max_io bs (length d) e \<Longrightarrow> \<forall>t < depth. sl' t = sl t \<Longrightarrow>
     entry_served depth max_io bs e (sl, d) ST_EINVAL (sl', d)"
| es_read: "sqe_valid depth max_io bs (length d) e \<Longrightarrow> sq_op e = OP_READ \<Longrightarrow>
     \<forall>t < depth. sl' t = (if t = sq_buf_slot e
        then read_range (sq_offset e) (sq_len e) d @ drop (sq_len e) (sl t) else sl t) \<Longrightarrow>
     entry_served depth max_io bs e (sl, d) ST_OK (sl', d)"
| es_read_failed: "sqe_valid depth max_io bs (length d) e \<Longrightarrow> sq_op e = OP_READ \<Longrightarrow> \<forall>t < depth. sl' t = sl t \<Longrightarrow>
     entry_served depth max_io bs e (sl, d) ST_EIO (sl', d)"
| es_write: "sqe_valid depth max_io bs (length d) e \<Longrightarrow> sq_op e = OP_WRITE \<Longrightarrow> \<forall>t < depth. sl' t = sl t \<Longrightarrow>
     entry_served depth max_io bs e (sl, d) ST_OK
       (sl', write_range (sq_offset e) (take (sq_len e) (sl (sq_buf_slot e))) d)"
| es_write_failed: "sqe_valid depth max_io bs (length d) e \<Longrightarrow> sq_op e = OP_WRITE \<Longrightarrow> \<forall>t < depth. sl' t = sl t \<Longrightarrow>
     agree_outside (sq_offset e) (sq_len e) d d' \<Longrightarrow> entry_served depth max_io bs e (sl, d) ST_EIO (sl', d')"
| es_flush: "sqe_valid depth max_io bs (length d) e \<Longrightarrow> sq_op e = OP_FLUSH \<Longrightarrow> \<forall>t < depth. sl' t = sl t \<Longrightarrow>
     entry_served depth max_io bs e (sl, d) ST_OK (sl', d)"
| es_flush_failed: "sqe_valid depth max_io bs (length d) e \<Longrightarrow> sq_op e = OP_FLUSH \<Longrightarrow> \<forall>t < depth. sl' t = sl t \<Longrightarrow>
     length d' = length d \<Longrightarrow> entry_served depth max_io bs e (sl, d) ST_EIO (sl', d')"

inductive entries_served ::
  "nat \<Rightarrow> nat \<Rightarrow> nat \<Rightarrow> sqe list \<Rightarrow> (nat \<Rightarrow> byte list) \<times> byte list \<Rightarrow> int list \<Rightarrow> (nat \<Rightarrow> byte list) \<times> byte list \<Rightarrow> bool"
  for depth max_io bs where
  ess_nil: "\<forall>t < depth. sl' t = sl t \<Longrightarrow> entries_served depth max_io bs [] (sl, d) [] (sl', d)"
| ess_cons: "entry_served depth max_io bs e sd st sd1 \<Longrightarrow> entries_served depth max_io bs es sd1 sts sd' \<Longrightarrow>
     entries_served depth max_io bs (e # es) sd (st # sts) sd'"

definition completion :: "sqe \<Rightarrow> int \<Rightarrow> cqe" where
  "completion e st = \<lparr>cq_tag = sq_tag e, cq_status = st, cq_reserved = 0\<rparr>"

locale driver_service = driver_queue qops sub comp slot good + block_device bops disk inv
  for qops :: "'q queue_ops" and sub :: "'q \<Rightarrow> sqe list" and comp :: "'q \<Rightarrow> cqe list"
    and slot :: "'q \<Rightarrow> nat \<Rightarrow> byte list" and good :: "'q \<Rightarrow> bool"
    and bops :: "'b backend_ops" and disk :: "'b \<Rightarrow> byte list" and inv :: "'b \<Rightarrow> bool"
begin

abbreviation geometry :: "'q \<Rightarrow> nat \<times> nat \<times> nat" where
  "geometry q \<equiv> (qo_queue_depth qops q, qo_max_io_bytes qops q, qo_block_size qops q)"

lemma serve_one_law:
  assumes "good (dl_q l)" "inv b" "serve_one qops bops e (l, b) = ((l', b'), st)"
  shows "good (dl_q l') \<and> inv b' \<and> sub (dl_q l') = sub (dl_q l) \<and> comp (dl_q l') = comp (dl_q l) \<and>
    geometry (dl_q l') = geometry (dl_q l) \<and> dl_stop l' = dl_stop l \<and>
    entry_served (qo_queue_depth qops (dl_q l)) (qo_max_io_bytes qops (dl_q l)) (qo_block_size qops (dl_q l)) e
      (slot (dl_q l), disk b) st (slot (dl_q l'), disk b')"
proof -
  let ?q = "dl_q l" and ?off = "sq_offset e" and ?n = "sq_len e" and ?s = "sq_buf_slot e"
  let ?v = "sqe_valid (qo_queue_depth qops ?q) (qo_max_io_bytes qops ?q) (qo_block_size qops ?q) (length (disk b)) e"
  have size: "be_size_bytes bops b = length (disk b)" using dev_size [OF assms(2)] by simp
  consider (bad) "\<not> ?v" | (rd) "?v" "sq_op e = OP_READ" | (wr) "?v" "sq_op e = OP_WRITE" | (fl) "?v" "sq_op e = OP_FLUSH"
    unfolding sqe_valid_def by blast
  then show ?thesis
  proof cases
    case bad
    then show ?thesis using assms size by (auto simp: serve_one_def intro: es_refused)
  next
    case rd
    then have v: "?s < qo_queue_depth qops ?q" "?n \<le> qo_max_io_bytes qops ?q" "?off + ?n \<le> length (disk b)"
      by (auto simp: sqe_valid_def ring_consts checked_add_def split: if_splits)
    obtain b1 res where r: "be_read_at bops b ?off ?n = (b1, res)" by fastforce
    note rdl = dev_read [OF assms(2) v(3) r]
    show ?thesis
    proof (cases res)
      case (Err err)
      then have "l' = l" "b' = b1" "st = ST_EIO" using assms(3) rd size r by (auto simp: serve_one_def)
      then show ?thesis using assms(1) rdl rd by (auto intro: es_read_failed)
    next
      case (Ok buf)
      have buf: "buf = read_range ?off ?n (disk b)" "length buf = ?n" using rdl Ok v(3) by (auto simp: store_simps)
      obtain q1 w where w: "qo_write_slot_from qops ?q ?s buf = (q1, w)" by fastforce
      note ws = write_slot_law [OF assms(1) v(1) _ w]
      have "l' = l\<lparr>dl_q := q1\<rparr>" "b' = b1" "st = ST_OK"
        using assms(3) rd size r Ok w ws buf v(2) by (auto simp: serve_one_def)
      then show ?thesis using ws buf v(2) rdl rd by (auto intro: es_read)
    qed
  next
    case wr
    then have v: "?s < qo_queue_depth qops ?q" "?n \<le> qo_max_io_bytes qops ?q" "?off + ?n \<le> length (disk b)"
      by (auto simp: sqe_valid_def ring_consts checked_add_def split: if_splits)
    let ?bs = "take ?n (slot ?q ?s)"
    have len: "length ?bs = ?n" using bounds [OF assms(1)] v by simp
    obtain b1 r where r: "be_write_at bops b ?off ?bs = (b1, r)" by fastforce
    then have w: "be_write_at_with_options bops b ?off ?bs write_options_default = (b1, r)" using dev_write_at [OF assms(2)] by simp
    have wrl: "inv b1" "length (disk b1) = length (disk b)" "r = Ok () \<Longrightarrow> disk b1 = write_range ?off ?bs (disk b)"
      "agree_outside ?off ?n (disk b) (disk b1)"
      using dev_write [OF assms(2) _ w] len v(3) by (auto simp: write_options_default_def)
    have "l' = l\<lparr>dl_backend_writes := wrapping_add u32_max (dl_backend_writes l) 1\<rparr>" "b' = b1"
      "st = (if r = Ok () then ST_OK else ST_EIO)"
      using assms(3) wr size r read_slot_law [OF assms(1) v(1,2)]
      by (cases r; auto simp: serve_one_def ring_consts Let_def)+
    then show ?thesis using assms(1) wrl wr
      by (cases "r = Ok ()") (auto intro: es_write es_write_failed)
  next
    case fl
    obtain b1 r where r: "be_flush bops b = (b1, r)" by fastforce
    have "l' = l" "b' = b1" "st = (if r = Ok () then ST_OK else ST_EIO)"
      using assms(3) fl size r by (cases r; auto simp: serve_one_def ring_consts)+
    then show ?thesis using assms(1) dev_flush [OF assms(2) r] fl
      by (cases "r = Ok ()") (auto intro: es_flush es_flush_failed)
  qed
qed

text \<open>
  The loop ends. With room for every completion it serves all entries in order; otherwise it stops
  with an error after the entry for which there was no room, whose completion is dropped.
\<close>

definition fetched ::
  "'q driver_link \<Rightarrow> 'b \<Rightarrow> sqe list \<Rightarrow> nat \<Rightarrow> int list \<Rightarrow> 'q driver_link \<Rightarrow> 'b \<Rightarrow> (nat, driver_link_error) result \<Rightarrow> bool" where
  "fetched l b es n sts l' b' r \<longleftrightarrow>
     good (dl_q l') \<and> inv b' \<and> geometry (dl_q l') = geometry (dl_q l) \<and> dl_stop l' = dl_stop l \<and>
     entries_served (qo_queue_depth qops (dl_q l)) (qo_max_io_bytes qops (dl_q l)) (qo_block_size qops (dl_q l))
       (take (length sts) es) (slot (dl_q l), disk b) sts (slot (dl_q l'), disk b') \<and>
     (let room = qo_queue_depth qops (dl_q l) - length (comp (dl_q l))
      in comp (dl_q l') = comp (dl_q l) @ map2 completion (take room es) sts \<and>
         (if length es \<le> room then r = Ok (n + length es) \<and> length sts = length es \<and> sub (dl_q l') = []
          else r = Err DlFull \<and> length sts = Suc room \<and> sub (dl_q l') = drop (Suc room) es))"

lemma fetch_loop_law:
  assumes "good (dl_q l)" "inv b" "sub (dl_q l) = es" "n + length es \<le> u32_max"
  shows "\<exists>sts l' b' r. fetch_loop qops bops lat n (l, b) = Some ((l', b'), r) \<and> fetched l b es n sts l' b' r"
  using assms
proof (induction es arbitrary: l b n)
  case Nil
  obtain q p where p: "qo_pop_sqe_snapshot qops (dl_q l) = (q, p)" by fastforce
  note pl = pop_law [OF Nil(1) p]
  have "fetch_loop qops bops lat n (l, b) = Some ((l\<lparr>dl_q := q\<rparr>, b), Ok n)"
    using p pl Nil(3) by (subst fetch_loop.simps) simp
  moreover have "fetched l b [] n [] (l\<lparr>dl_q := q\<rparr>) b (Ok n)"
    using pl Nil by (auto simp: fetched_def intro: entries_served.intros)
  ultimately show ?case by blast
next
  case (Cons e es)
  obtain q p where p: "qo_pop_sqe_snapshot qops (dl_q l) = (q, p)" by fastforce
  have pl: "good q" "comp q = comp (dl_q l)" "slot q = slot (dl_q l)" "geometry q = geometry (dl_q l)" "p = Some e" "sub q = es"
    using pop_law [OF Cons.prems(1) p] Cons.prems(3) by auto
  obtain l1 b1 st where s1: "serve_one qops bops e (l\<lparr>dl_q := q\<rparr>, b) = ((l1, b1), st)" by (metis prod.exhaust)
  have sl: "good (dl_q l1)" "inv b1" "sub (dl_q l1) = es" "comp (dl_q l1) = comp (dl_q l)" "geometry (dl_q l1) = geometry (dl_q l)"
    "dl_stop l1 = dl_stop l"
    and es: "entry_served (qo_queue_depth qops (dl_q l)) (qo_max_io_bytes qops (dl_q l)) (qo_block_size qops (dl_q l)) e
      (slot (dl_q l), disk b) st (slot (dl_q l1), disk b1)"
    using serve_one_law [OF _ Cons.prems(2) s1] pl by auto
  let ?l2 = "l1\<lparr>dl_stats := stats_record e st (min (lat n) u64_max) (dl_stats l1)\<rparr>"
  obtain q' w where w: "qo_push_cqe qops (dl_q l1) (completion e st) = (q', w)" by fastforce
  note pu = push_law [OF sl(1) w]
  let ?room = "qo_queue_depth qops (dl_q l) - length (comp (dl_q l))"
  show ?case
  proof (cases "length (comp (dl_q l)) < qo_queue_depth qops (dl_q l)")
    case False
    then have "w = Err DlFull" "comp q' = comp (dl_q l)" "?room = 0" using pu sl by auto
    then have "fetch_loop qops bops lat n (l, b) = Some ((?l2\<lparr>dl_q := q'\<rparr>, b1), Err DlFull)"
      using p pl(5) s1 w by (subst fetch_loop.simps) (simp add: Let_def completion_def)
    moreover have "fetched l b (e # es) n [st] (?l2\<lparr>dl_q := q'\<rparr>) b1 (Err DlFull)"
      using pu sl es \<open>?room = 0\<close> \<open>comp q' = comp (dl_q l)\<close>
      by (auto simp: fetched_def intro!: entries_served.intros)
    ultimately show ?thesis by blast
  next
    case True
    then have q': "w = Ok ()" "comp q' = comp (dl_q l) @ [completion e st]" "good q'" "sub q' = es" "slot q' = slot (dl_q l1)"
      "geometry q' = geometry (dl_q l)" using pu sl by auto
    let ?l3 = "?l2\<lparr>dl_q := q'\<rparr>"
    have "wrapping_add u32_max n 1 = n + 1" using Cons.prems(4) by (simp add: wrapping_add_def)
    then have step: "fetch_loop qops bops lat n (l, b) = fetch_loop qops bops lat (n + 1) (?l3, b1)"
      using p pl(5) s1 w q'(1) by (subst fetch_loop.simps) (simp add: Let_def completion_def)
    obtain sts l' b' r where ih: "fetch_loop qops bops lat (n + 1) (?l3, b1) = Some ((l', b'), r)" "fetched ?l3 b1 es (n + 1) sts l' b' r"
      using Cons.IH [of ?l3 b1 "n + 1"] q' sl(2) Cons.prems(4) by auto
    have room: "?room = Suc (qo_queue_depth qops (dl_q ?l3) - length (comp (dl_q ?l3)))" using True q'(2,6) by auto
    have "fetched l b (e # es) n (st # sts) l' b' r"
      using ih(2) es q' sl(6) unfolding fetched_def room Let_def
      by (auto intro!: entries_served.intros)
    with step ih(1) show ?thesis by auto
  qed
qed

end

interpretation mem_service: driver_service im_queue_ops iq_sub iq_comp iq_slot iq_wf
    ram_backend_ops rb_data "\<lambda>b. length (rb_data b) \<le> u64_max"
  unfolding driver_service_def
  using mem_queue.driver_queue_axioms ram_dev.block_device_axioms by blast

subsection \<open>A driver and a service on one link\<close>

text \<open>
  A session: the driver fills slots, submits and harvests, the service fetches, in any order. What was
  submitted and harvested is kept; \<open>paced\<close> says that no submission was made with a full ring's worth of
  requests in flight, \<open>full\<close> that a fetch found no room for a completion.
\<close>

datatype link_event =
    LeSlot nat "byte list"
  | LeSubmit sqe
  | LeFetch "nat \<Rightarrow> nat"
  | LeHarvest
  | LeStop

record 'b session =
  sn_link :: "im_queue driver_link"
  sn_backend :: 'b
  sn_submitted :: "sqe list"
  sn_harvested :: "cqe list"
  sn_paced :: bool
  sn_full :: bool

definition session_new :: "im_queue \<Rightarrow> 'b \<Rightarrow> 'b session" where
  "session_new q b = \<lparr>sn_link = from_queue q, sn_backend = b, sn_submitted = [], sn_harvested = [], sn_paced = True, sn_full = False\<rparr>"

fun session_step :: "'b backend_ops \<Rightarrow> link_event \<Rightarrow> 'b session \<Rightarrow> 'b session option" where
  "session_step bops (LeSlot slot bs) s =
     Some (s\<lparr>sn_link := (sn_link s)\<lparr>dl_q := fst (iq_write_slot slot bs (dl_q (sn_link s)))\<rparr>\<rparr>)"
| "session_step bops (LeSubmit e) s =
     (case driver_submit e (dl_q (sn_link s)) of
        (q, Err _) \<Rightarrow> Some (s\<lparr>sn_link := (sn_link s)\<lparr>dl_q := q\<rparr>\<rparr>)
      | (q, Ok _) \<Rightarrow>
          Some (s\<lparr>sn_link := (sn_link s)\<lparr>dl_q := q\<rparr>, sn_submitted := sn_submitted s @ [e],
                  sn_paced := (sn_paced s \<and> length (sn_submitted s) < length (sn_harvested s) + iq_queue_depth q)\<rparr>))"
| "session_step bops (LeFetch lat) s =
     (case commit_and_fetch im_queue_ops bops lat (sn_link s, sn_backend s) of
        None \<Rightarrow> None
      | Some ((l, b), r) \<Rightarrow> Some (s\<lparr>sn_link := l, sn_backend := b, sn_full := (sn_full s \<or> r = Err DlFull)\<rparr>))"
| "session_step bops LeHarvest s =
     (case driver_complete (dl_q (sn_link s)) of
        (q, None) \<Rightarrow> Some (s\<lparr>sn_link := (sn_link s)\<lparr>dl_q := q\<rparr>\<rparr>)
      | (q, Some c) \<Rightarrow>
          Some (s\<lparr>sn_link := (sn_link s)\<lparr>dl_q := q\<rparr>, sn_harvested := sn_harvested s @ [c]\<rparr>))"
| "session_step bops LeStop s = Some (s\<lparr>sn_link := request_stop (sn_link s)\<rparr>)"

fun session_run :: "'b backend_ops \<Rightarrow> link_event list \<Rightarrow> 'b session \<Rightarrow> 'b session option" where
  "session_run bops [] s = Some s"
| "session_run bops (ev # evs) s =
     (case session_step bops ev s of None \<Rightarrow> None | Some s' \<Rightarrow> session_run bops evs s')"

definition session_inv :: "('b \<Rightarrow> bool) \<Rightarrow> 'b session \<Rightarrow> bool" where
  "session_inv ok s \<longleftrightarrow> (let q = dl_q (sn_link s) in
     iq_wf q \<and> ok (sn_backend s) \<and>
     (sn_paced s \<longrightarrow> \<not> sn_full s \<and> length (iq_comp q) + length (iq_sub q) \<le> iq_queue_depth q \<and>
        map cq_tag (sn_harvested s @ iq_comp q) @ map sq_tag (iq_sub q) = map sq_tag (sn_submitted s)))"

lemma slot_write_any:
  assumes "iq_wf q" "length bs < 2 ^ 32"
  shows "iq_wf (fst (iq_write_slot slot bs q)) \<and> iq_sub (fst (iq_write_slot slot bs q)) = iq_sub q \<and>
    iq_comp (fst (iq_write_slot slot bs q)) = iq_comp q \<and> iq_queue_depth (fst (iq_write_slot slot bs q)) = iq_queue_depth q"
proof -
  have "iq_wf (q\<lparr>iq_data := write_range start bs (iq_data q)\<rparr>)" if "start + length bs \<le> length (iq_data q)" for start
    using that assms by (simp add: iq_wf_def store_simps)
  then show ?thesis using assms
    by (auto simp: iq_write_slot_def slot_slice_def iq_views Let_def checked_add_def split: result.split if_splits option.splits)
qed

definition event_ok :: "link_event \<Rightarrow> bool" where
  "event_ok ev \<longleftrightarrow> (\<forall>slot bs. ev = LeSlot slot bs \<longrightarrow> length bs < 2 ^ 32)"

lemma map_tags_completion: "length sts = length es \<Longrightarrow> map cq_tag (map2 completion es sts) = map sq_tag es"
  by (induction es sts rule: list_induct2') (simp_all add: completion_def)

lemma session_step_inv:
  assumes "block_device bops disk ok" "session_inv ok s" "event_ok ev"
  shows "\<exists>s'. session_step bops ev s = Some s' \<and> session_inv ok s'"
proof -
  let ?q = "dl_q (sn_link s)"
  have q: "iq_wf ?q" "ok (sn_backend s)" using assms(2) by (simp_all add: session_inv_def Let_def)
  have ds: "driver_service im_queue_ops iq_sub iq_comp iq_slot iq_wf bops disk ok"
    unfolding driver_service_def using mem_queue.driver_queue_axioms assms(1) by blast
  show ?thesis
  proof (cases ev)
    case (LeSlot slot bs)
    then have "length bs < 2 ^ 32" using assms(3) by (simp add: event_ok_def)
    then show ?thesis using LeSlot assms(2) slot_write_any [OF q(1), of bs slot] by (simp add: session_inv_def Let_def)
  next
    case (LeSubmit e)
    obtain q' where q': "driver_submit e ?q = (q', if length (iq_sub ?q) < iq_queue_depth ?q then Ok () else Err DlFull)"
      "iq_wf q'" "iq_comp q' = iq_comp ?q" "iq_queue_depth q' = iq_queue_depth ?q"
      "iq_sub q' = (if length (iq_sub ?q) < iq_queue_depth ?q then iq_sub ?q @ [e] else iq_sub ?q)"
      using iq_submit_law [OF q(1), of e] by blast
    have n: "length (sn_submitted s) = length (sn_harvested s) + length (iq_comp ?q) + length (iq_sub ?q)" if "sn_paced s"
      using assms(2) that unfolding session_inv_def Let_def by (metis (mono_tags) length_append length_map)
    show ?thesis
    proof (cases "length (iq_sub ?q) < iq_queue_depth ?q")
      case True
      then show ?thesis using LeSubmit q' q(2) assms(2) n by (cases "sn_paced s") (simp_all add: session_inv_def Let_def)
    next
      case False
      then show ?thesis using LeSubmit q' q(2) assms(2) by (simp add: session_inv_def Let_def)
    qed
  next
    case LeHarvest
    obtain q' where q': "driver_complete ?q = (q', case iq_comp ?q of [] \<Rightarrow> None | c # _ \<Rightarrow> Some c)" "iq_wf q'"
      "iq_sub q' = iq_sub ?q" "iq_queue_depth q' = iq_queue_depth ?q" "iq_comp q' = tl (iq_comp ?q)"
      using iq_complete_law [OF q(1)] by blast
    show ?thesis
    proof (cases "iq_comp ?q")
      case Nil
      then show ?thesis using LeHarvest q' q(2) assms(2) by (simp add: session_inv_def Let_def)
    next
      case (Cons c cs)
      then show ?thesis using LeHarvest q' q(2) assms(2) by (cases "sn_paced s") (simp_all add: session_inv_def Let_def)
    qed
  next
    case LeStop
    then show ?thesis using assms(2) by (simp add: session_inv_def Let_def request_stop_def)
  next
    case (LeFetch lat)
    have "length (iq_sub ?q) \<le> u32_max" using mem_queue.bounds [OF q(1)] by (simp add: MAX_QD_def u32_max_def)
    then obtain sts l' b' r where f: "fetch_loop im_queue_ops bops lat 0 (sn_link s, sn_backend s) = Some ((l', b'), r)"
      and r: "driver_service.fetched im_queue_ops iq_sub iq_comp iq_slot iq_wf disk ok (sn_link s) (sn_backend s) (iq_sub ?q) 0 sts l' b' r"
      using driver_service.fetch_loop_law [OF ds q refl, of 0 lat] by auto
    have ft: "iq_wf (dl_q l')" "ok b'" "iq_queue_depth (dl_q l') = iq_queue_depth ?q"
      "length (iq_comp ?q) + length (iq_sub ?q) \<le> iq_queue_depth ?q \<Longrightarrow>
        r = Ok (length (iq_sub ?q)) \<and> iq_sub (dl_q l') = [] \<and> iq_comp (dl_q l') = iq_comp ?q @ map2 completion (iq_sub ?q) sts \<and>
        length sts = length (iq_sub ?q)"
      using r unfolding driver_service.fetched_def [OF ds] by (auto simp: Let_def im_queue_ops_def)
    show ?thesis
    proof (cases "dl_stop (sn_link s)")
      case True
      then show ?thesis using LeFetch assms(2) by (simp add: commit_and_fetch_def session_inv_def Let_def)
    next
      case False
      then have "session_step bops ev s = Some (s\<lparr>sn_link := l', sn_backend := b', sn_full := (sn_full s \<or> r = Err DlFull)\<rparr>)"
        using LeFetch f by (simp add: commit_and_fetch_def)
      moreover have "session_inv ok (s\<lparr>sn_link := l', sn_backend := b', sn_full := (sn_full s \<or> r = Err DlFull)\<rparr>)"
        using ft assms(2) map_tags_completion [of sts "iq_sub ?q"] unfolding session_inv_def Let_def by simp
      ultimately show ?thesis by blast
    qed
  qed
qed

lemma session_run_inv:
  assumes "block_device bops disk ok" "session_inv ok s" "list_all event_ok evs"
  shows "\<exists>s'. session_run bops evs s = Some s' \<and> session_inv ok s'"
  using assms(2,3)
proof (induction evs arbitrary: s)
  case (Cons ev evs)
  obtain s1 where "session_step bops ev s = Some s1" "session_inv ok s1" using session_step_inv [OF assms(1)] Cons.prems by fastforce
  then show ?case using Cons.IH Cons.prems(2) by simp
qed simp

lemma session_new_inv:
  assumes "im_queue_new depth max_io bs = Ok q" "ok b"
  shows "session_inv ok (session_new q b)"
  using new_queue [OF assms(1)] assms(2) by (simp add: session_inv_def session_new_def from_queue_def Let_def)

text \<open>A flush on a queue of one entry over one block of RAM.\<close>

definition demo_flush :: sqe where
  "demo_flush = \<lparr>sq_tag = 7, sq_op = OP_FLUSH, sq_flags = 0, sq_offset = 0, sq_len = 0, sq_buf_slot = 0\<rparr>"

definition demo_ram :: ram_backend where
  "demo_ram = \<lparr>rb_data = [], rb_block_size = 512\<rparr>"

lemma demo_queue: "\<exists>q. im_queue_new 1 512 512 = Ok q"
  by (simp add: im_queue_new_def is_power_of_two.simps MAX_QD_def MAX_IO_def checked_mul_def u64_max_def Let_def)

lemma session_step_kept:
  assumes "session_step bops ev s = Some s'" "\<forall>e. ev \<noteq> LeSubmit e"
  shows "sn_paced s' = sn_paced s \<and> sn_submitted s' = sn_submitted s"
  using assms by (cases ev) (auto split: option.splits prod.splits)

lemma demo_session:
  assumes "im_queue_new 1 512 512 = Ok q"
    "session_run bops [LeSubmit demo_flush, LeFetch lat, LeHarvest] (session_new q b) = Some s"
  shows "sn_paced s \<and> sn_submitted s = [demo_flush]"
proof -
  note nq = new_queue [OF assms(1)]
  obtain q1 where q1: "driver_submit demo_flush q = (q1, Ok ())" "iq_queue_depth q1 = 1"
    using iq_submit_law [OF nq(1), of demo_flush] nq by auto
  obtain s1 s2 where s1: "session_step bops (LeSubmit demo_flush) (session_new q b) = Some s1"
    and s2: "session_step bops (LeFetch lat) s1 = Some s2" "session_step bops LeHarvest s2 = Some s"
    using assms(2) by (auto simp del: session_step.simps split: option.splits)
  have "sn_paced s1 \<and> sn_submitted s1 = [demo_flush]"
    using s1 q1 by (auto simp: session_new_def from_queue_def)
  then show ?thesis using session_step_kept [OF s2(1)] session_step_kept [OF s2(2)] by simp
qed

subsection \<open>Properties\<close>

text \<open>
  C39. Every fetch ends and serves the pending entries in their order, as a disk with bounce slots
  would: over any block device and any well-formed rings, wherever their 32-bit indices stand, each entry is
  refused without effect, or reads the disk into its slot, or writes its slot to the disk, and its
  completion carries its tag and status. When the completion ring has no room for all of them, the
  loop stops with an error one entry too late: that entry has been served and removed, and
  its completion is lost.
\<close>

theorem fetch_serves_in_order:
  assumes "block_device bops disk ok" "iq_wf (dl_q l)" "ok b" "\<not> dl_stop l"
  shows "\<exists>sts l' b' r. commit_and_fetch im_queue_ops bops lat (l, b) = Some ((l', b'), r) \<and>
    (let q = dl_q l; q' = dl_q l'; es = iq_sub q; room = iq_queue_depth q - length (iq_comp q)
     in entries_served (iq_queue_depth q) (iq_max_io_bytes q) (iq_block_size q)
          (take (length sts) es) (iq_slot q, disk b) sts (iq_slot q', disk b') \<and>
        iq_comp q' = iq_comp q @ map2 completion (take room es) sts \<and>
        (if length es \<le> room then r = Ok (length es) \<and> length sts = length es \<and> iq_sub q' = []
         else r = Err DlFull \<and> length sts = Suc room \<and> iq_sub q' = drop (Suc room) es))"
proof -
  have ds: "driver_service im_queue_ops iq_sub iq_comp iq_slot iq_wf bops disk ok"
    unfolding driver_service_def using mem_queue.driver_queue_axioms assms(1) by blast
  have "0 + length (iq_sub (dl_q l)) \<le> u32_max" using mem_queue.bounds [OF assms(2)] by (simp add: MAX_QD_def u32_max_def)
  from driver_service.fetch_loop_law [OF ds assms(2,3) refl this]
  obtain sts l' b' r where f: "fetch_loop im_queue_ops bops lat 0 (l, b) = Some ((l', b'), r)"
    "driver_service.fetched im_queue_ops iq_sub iq_comp iq_slot iq_wf disk ok l b (iq_sub (dl_q l)) 0 sts l' b' r" by blast
  then show ?thesis using assms(4) unfolding driver_service.fetched_def [OF ds]
    by (intro exI [of _ sts] exI [of _ l'] exI [of _ b'] exI [of _ r])
      (simp add: commit_and_fetch_def Let_def im_queue_ops_def)
qed

theorem fetch_serves_in_order_witness:
  "\<exists>q q1 l' b'. im_queue_new 1 512 512 = Ok q \<and> driver_submit demo_flush q = (q1, Ok ()) \<and>
     commit_and_fetch im_queue_ops ram_backend_ops (\<lambda>_. 0) (from_queue q1, demo_ram) = Some ((l', b'), Ok 1) \<and>
     iq_sub (dl_q l') = [] \<and> map cq_tag (iq_comp (dl_q l')) = [7]"
proof -
  obtain q where q: "im_queue_new 1 512 512 = Ok q" using demo_queue by blast
  note nq = new_queue [OF q]
  obtain q1 where q1: "driver_submit demo_flush q = (q1, Ok ())" "iq_wf q1" "iq_sub q1 = [demo_flush]" "iq_comp q1 = []"
    "iq_queue_depth q1 = 1"
    using iq_submit_law [OF nq(1), of demo_flush] nq by auto
  have "iq_wf (dl_q (from_queue q1))" "length (rb_data demo_ram) \<le> u64_max" "\<not> dl_stop (from_queue q1)"
    using q1 by (simp_all add: from_queue_def demo_ram_def)
  from fetch_serves_in_order [OF ram_dev.block_device_axioms this, of "\<lambda>_. 0"]
  obtain sts l' b' where f: "commit_and_fetch im_queue_ops ram_backend_ops (\<lambda>_. 0) (from_queue q1, demo_ram) = Some ((l', b'), Ok 1)"
    "length sts = 1" "iq_sub (dl_q l') = []" "iq_comp (dl_q l') = map2 completion [demo_flush] sts"
    using q1 by (auto simp: from_queue_def Let_def)
  from f(2,4) have "map cq_tag (iq_comp (dl_q l')) = [7]" by (cases sts) (auto simp: completion_def demo_flush_def)
  then show ?thesis using q q1(1) f(1,3) by (intro exI conjI) assumption+
qed

text \<open>
  C40. Completions come back in order, one for each request. In any session of a driver and the service on a new
  link over any block device, every fetch returns; and if the driver never has more than a ring's
  worth of requests in flight, no fetch finds the completion ring full and the tags harvested, those
  still in the completion ring and those still in the submission ring are together exactly the tags submitted, in
  their order.
\<close>

theorem completions_in_order:
  assumes "block_device bops disk ok" "im_queue_new depth max_io bs = Ok q" "ok b" "list_all event_ok evs"
  shows "\<exists>s. session_run bops evs (session_new q b) = Some s \<and>
    (sn_paced s \<longrightarrow> \<not> sn_full s \<and>
       map cq_tag (sn_harvested s) @ map cq_tag (iq_comp (dl_q (sn_link s))) @ map sq_tag (iq_sub (dl_q (sn_link s))) =
       map sq_tag (sn_submitted s))"
  using session_run_inv [OF assms(1) session_new_inv [where ok = ok, OF assms(2,3)] assms(4)]
  by (auto simp: session_inv_def Let_def)

theorem completions_in_order_witness:
  "\<exists>q s. im_queue_new 1 512 512 = Ok q \<and>
     session_run ram_backend_ops [LeSubmit demo_flush, LeFetch (\<lambda>_. 0), LeHarvest] (session_new q demo_ram) = Some s \<and>
     sn_paced s \<and> \<not> sn_full s \<and>
     map cq_tag (sn_harvested s) @ map cq_tag (iq_comp (dl_q (sn_link s))) @ map sq_tag (iq_sub (dl_q (sn_link s))) = [7]"
proof -
  obtain q where q: "im_queue_new 1 512 512 = Ok q" using demo_queue by blast
  have "list_all event_ok [LeSubmit demo_flush, LeFetch (\<lambda>_. 0), LeHarvest]" "length (rb_data demo_ram) \<le> u64_max"
    by (simp_all add: event_ok_def demo_ram_def)
  from completions_in_order [OF ram_dev.block_device_axioms q this(2,1)]
  obtain s where s: "session_run ram_backend_ops [LeSubmit demo_flush, LeFetch (\<lambda>_. 0), LeHarvest] (session_new q demo_ram) = Some s"
    "sn_paced s \<Longrightarrow> \<not> sn_full s \<and>
       map cq_tag (sn_harvested s) @ map cq_tag (iq_comp (dl_q (sn_link s))) @ map sq_tag (iq_sub (dl_q (sn_link s))) =
       map sq_tag (sn_submitted s)" by blast
  have "sn_paced s \<and> sn_submitted s = [demo_flush]" using s(1) by (rule demo_session [OF q])
  then show ?thesis using q s by (auto simp: demo_flush_def)
qed

end
