(* ===== verification/Spec2Isabelle.thy ===== *)
theory Spec2Isabelle
  imports Broker_Run N3_Protocol Nbd_Conn Sparse_Vram Origin_Policy Elastic_Cache Supervisor Driver_Link
begin

text \<open>
  Verification library for ramshared, a memory tier that lends the VRAM of a GPU as swap space. A daemon
  owns the VRAM, cuts it into slices and exports each slice as a network block device; a broker decides which tenant
  holds which slice and lends slices back to compute jobs; agents of the tenants swap on and off
  as told. Around this stand caches over a durable origin, a host-led lease protocol for a native
  tier, the admission of memory-hungry workloads under a pressure supervisor, and a Windows service
  that serves a kernel driver's rings. Paths below are relative to \<^verbatim>\<open>src/\<close>.

  \<^bold>\<open>Conventions.\<close> Unsigned integers are \<open>nat\<close> with Rust's checked, saturating and wrapping
  operations written out against \<open>u8_max\<close> to \<open>u64_max\<close>; bytes and ring indices are words. A
  fallible operation returns a \<open>result\<close>, a panic is \<open>None\<close>; counters that the code updates with plain
  operators wrap, as in a release build. Instants, latencies, environment variables and the
  outcomes of system calls are inputs. A trait object is a record of operations and the laws of the
  trait are a locale, interpreted on the implementations in the sources or on a plain one where the
  implementation is foreign (a GPU driver, a file).

  \<^bold>\<open>Foundations.\<close>
  \<^item> \<open>Prelude\<close>: results, machine arithmetic, iterators, and the locale \<open>op_machine\<close> for invariants of
    machines that run a list of operations.
  \<^item> \<open>Rust_Text\<close>, \<open>Wire_Bytes\<close>, \<open>Byte_Store\<close>, \<open>Float_Model\<close>: the strings, big-endian
    encodings, byte arrays and floating-point arithmetic of the standard library.

  \<^bold>\<open>Broker\<close> (\<^verbatim>\<open>crates/ramshared-broker\<close>, \<^verbatim>\<open>crates/ramshared-wsl2d/src/broker_srv.rs\<close>, \<^verbatim>\<open>telemetry.rs\<close>).
  \<^item> \<open>Slices\<close>: \<^verbatim>\<open>model.rs\<close> and \<^verbatim>\<open>slices.rs\<close>, the state machine of a slice and the validation of layouts.
  \<^item> \<open>Lease_Book\<close>: \<^verbatim>\<open>lease.rs\<close>; every operation is accepted exactly when a vacant/requested/held machine,
    guarded by holder, lease id and deadline, allows its step.
  \<^item> \<open>Arbiter\<close>: \<^verbatim>\<open>arbiter.rs\<close>; what a tick may move, grant and revoke, and where it could panic.
  \<^item> \<open>Broker_Protocol\<close>: \<^verbatim>\<open>protocol.rs\<close>, messages and line framing. The JSON text is a parameter.
  \<^item> \<open>Telemetry\<close>, \<open>Broker_Core\<close>: \<open>BrokerCore\<close> with one definition per handler; the
    single entry is \<open>handle\<close>.
  \<^item> \<open>Broker_Inv\<close>: invariants over all reachable states of \<open>handle\<close>. A drained slice keeps
    its owner until zeroing is confirmed, zeroing is retried, a lease has exactly its slices, a
    pending lease is granted when it can be, and the guarded internal errors do not occur.
  \<^item> \<open>Broker_Run\<close>: runs of \<open>handle\<close> from the start; none of them panics.

  \<^bold>\<open>Storage\<close> (\<^verbatim>\<open>crates/ramshared-vram\<close>, \<^verbatim>\<open>ramshared-cuda\<close>, \<^verbatim>\<open>ramshared-block\<close>, \<^verbatim>\<open>ramshared-integrity\<close>).
  \<^item> \<open>Vram\<close>: VRAM regions and the bounds checks of \<open>DeviceMem\<close> over the driver's functions.
  \<^item> \<open>Block_Request\<close>: NBD requests and replies and the dispatch to a backend; the locale
    \<open>block_device\<close> says what a backend owes as a disk.
  \<^item> \<open>Backends\<close>: dense VRAM, RAM and windows of a backend.
  \<^item> \<open>Sparse_Vram\<close>: \<^verbatim>\<open>sparse_vram.rs\<close>; a backend that allocates on demand refines a disk that starts out zeroed.
  \<^item> \<open>Origin_Storage\<close>, \<open>Origin_Cache\<close>, \<open>Origin_Coherence\<close>, \<open>Origin_Service\<close>: \<^verbatim>\<open>origin_cache.rs\<close>; the
    write-through cache is invisible to clients and an acknowledged flush is durable.
  \<^item> \<open>Origin_Policy\<close>: when GPU samples make that cache grow and shrink, in terms of the samples it has seen.
  \<^item> \<open>Isolated_Origin\<close>: \<^verbatim>\<open>isolated_origin.rs\<close>; over every cache that keeps the locale \<open>best_effort_cache\<close>,
    which asks nothing of a failed cache operation, requests are answered as by the origin; over any
    cache at all they fail only as the origin fails.
  \<^item> \<open>Elastic_Cache\<close>: \<^verbatim>\<open>elastic_cache.rs\<close>; its memory is bounded. It does not keep \<open>best_effort_cache\<close>: a
    chunk that is fresh from a small write answers with zeroes for all its other bytes.
  \<^item> \<open>Integrity\<close>: verification patterns and checksums.

  \<^bold>\<open>Daemon\<close> (\<^verbatim>\<open>crates/ramshared-wsl2d\<close>, \<^verbatim>\<open>crates/ramshared-block/src/handshake.rs\<close>).
  \<^item> \<open>Residency\<close>: latency canary, content and free-memory sampler, governor and their combination.
  \<^item> \<open>Nbd_Worker\<close>: the worker loop message by message; every slice is a private disk.
  \<^item> \<open>Nbd_Conn\<close>: handshake, reader and writer of a connection; the jobs it hands to the worker are all the
    acceptable requests at the front of its stream.

  \<^bold>\<open>Native tier\<close> (\<^verbatim>\<open>crates/ramshared-tier/src/n3_state.rs\<close>).
  \<^item> \<open>N3_Record\<close>: the restart record, whose parser accepts exactly the canonical encodings.
  \<^item> \<open>N3_Lease\<close>: preflight and every operation of \<open>LeaseMachine\<close>.
  \<^item> \<open>N3_Protocol\<close>: I/O only under a granted lease, revoked generations stay dead, drains are
    acknowledged only after a scrub, generations are never reused across restarts.

  \<^bold>\<open>Host commands\<close> (\<^verbatim>\<open>crates/ramshared-cli\<close>).
  \<^item> \<open>Workload\<close>: \<^verbatim>\<open>workload.rs\<close>; gates, ledger and the run of a scope. Reservations fit in the memory over any run.
  \<^item> \<open>Supervisor\<close>: \<^verbatim>\<open>supervisor.rs\<close>; the pressure state machine, its durable records and
    actions. A KILL follows a TERM by five seconds, recovery takes sixty healthy samples, pressure
    closes the admission of \<open>Workload\<close>, a frozen scope is sent a thaw command when the pressure ends.

  \<^bold>\<open>Windows driver link\<close> (\<^verbatim>\<open>crates/ramshared-winsvc/src/driver_link.rs\<close>, \<^verbatim>\<open>proto.rs\<close>).
  \<^item> \<open>Driver_Link\<close>: submission and completion rings over wrapping 32-bit indices refine lists; the
    service loop serves the entries of any \<open>driver_queue\<close> from any \<open>block_device\<close> in order, and completions
    come back in order while the driver keeps within a ring's worth of requests.

  \<^bold>\<open>Termination and bounds.\<close> Recursion is structural or comes with a termination proof. The loop
  that drains a ring (\<open>fetch_loop\<close>) is a partial function, since a producer could keep it running; it is proved to
  return on every well-formed ring, whose depth of at most 256 entries also keeps its counters
  from wrapping. The retry loop of a reply takes the outcome of each
  attempt as input and is bounded by the attempts the code allows.

  \<^bold>\<open>Not modelled.\<close> Threads, sockets, signals, locks and files (their outcomes are inputs); JSON and
  TOML text; the agents, the command-line shell, the boot-time cascade and the Windows service
  around the driver link, which are sequences of system calls; ublk, CUDA, Vulkan and io_uring
  bindings and the kernel drivers, whose behaviour is that of code outside the sources; the
  priority and readiness checks of the command line and the autotier policy, which enters as the
  budget gate of the sparse backend, a parameter; texts of \<open>Display\<close> that no
  code reads back.
\<close>

end
